(* ===== verification/Prelude.thy ===== *)
theory Prelude
  imports Main "HOL-Library.Word" "HOL-Library.Multiset" "HOL-Library.Monad_Syntax"
begin

unbundle bit_operations_syntax

section \<open>Shared vocabulary\<close>

text \<open>
  What every component uses: the machine integers of the platform the C code is compiled
  for (LP64: \<open>size_t\<close> and pointers have 64 bits, \<open>int\<close> has 32), the two ways a C call can
  fail to return, sequencing of such calls, and generic lemmas on list update, concatenation
  and multisets.
\<close>

subsection \<open>Machine integers\<close>

type_synonym size_t = "64 word"
type_synonym c_int = "32 word" \<comment> \<open>an \<open>int\<close> (read with \<open>sint\<close>) or an \<open>unsigned int\<close> (\<open>uint\<close>)\<close>
type_synonym ptr = "64 word" \<comment> \<open>a data pointer; 0 is NULL\<close>

abbreviation SIZE_MAX :: size_t where
  "SIZE_MAX \<equiv> - 1"

abbreviation PTRDIFF_MAX :: int where
  "PTRDIFF_MAX \<equiv> 9223372036854775807"

lemma size_t_lt: "unat (n :: size_t) < 2 ^ 64"
  using unsigned_less [of n] by simp

lemma sint_range_32: "- (2 ^ 31) \<le> sint (x :: c_int) \<and> sint x < 2 ^ 31"
  using sint_ge [of x] sint_lt [of x] by simp

lemma uint_lt_32: "0 \<le> uint (x :: c_int) \<and> uint x < 2 ^ 32"
  using unsigned_less [of x] by simp

lemma sint_of_nat_32: "n < 2 ^ 31 \<Longrightarrow> sint (of_nat n :: c_int) = int n"
  by (simp add: signed_of_nat signed_take_bit_int_eq_self)

lemma uint_of_int_32: "0 \<le> k \<Longrightarrow> k < 2 ^ 32 \<Longrightarrow> uint (word_of_int k :: c_int) = k"
  by (simp add: unsigned_of_int take_bit_int_eq_self)

lemma unat_of_int_32: "0 \<le> k \<Longrightarrow> k < 2 ^ 32 \<Longrightarrow> unat (word_of_int k :: c_int) = nat k"
  using uint_of_int_32 [of k] by (metis nat_int of_nat_unat)

lemma sint_of_int_32: "- (2 ^ 31) \<le> k \<Longrightarrow> k < 2 ^ 31 \<Longrightarrow> sint (word_of_int k :: c_int) = k"
  by (simp add: signed_of_int signed_take_bit_int_eq_self)

lemma unat_nonneg_32: "0 \<le> sint (x :: c_int) \<Longrightarrow> unat x = nat (sint x)"
  using unat_of_int_32 [of "sint x"] sint_range_32 [of x] by simp

text \<open>C shifts: the shift count must lie within the width of the promoted operand; any
  other count is undefined behaviour, here \<open>None\<close>.\<close>

definition c_shl :: "'a::len word \<Rightarrow> int \<Rightarrow> 'a word option" where
  "c_shl x n = (if 0 \<le> n \<and> n < int LENGTH('a) then Some (push_bit (nat n) x) else None)"

definition c_shr :: "'a::len word \<Rightarrow> int \<Rightarrow> 'a word option" where
  "c_shr x n = (if 0 \<le> n \<and> n < int LENGTH('a) then Some (drop_bit (nat n) x) else None)"

subsection \<open>Calls that do not return\<close>

text \<open>\<open>Abort\<close> is a call of \<open>abort ()\<close>; \<open>UndefBehav\<close> is C's undefined behaviour (a bad
  index, a double free, an out-of-range conversion). A model function that can reach one of
  them returns a value of the sum type, with the failure on the left.\<close>

datatype c_fail = Abort | UndefBehav

type_synonym 'a res = "c_fail + 'a"

definition bindR :: "'e + 'a \<Rightarrow> ('a \<Rightarrow> 'e + 'b) \<Rightarrow> 'e + 'b" where
  "bindR m f = (case m of Inl e \<Rightarrow> Inl e | Inr x \<Rightarrow> f x)"

named_theorems res_simps \<open>sequencing of calls that may fail\<close>

lemma bindR_Inl [simp, res_simps]: "bindR (Inl e) f = Inl e"
  by (simp add: bindR_def)

lemma bindR_Inr [simp, res_simps]: "bindR (Inr x) f = f x"
  by (simp add: bindR_def)

lemma bindR_Inr_iff [res_simps]: "bindR m f = Inr y \<longleftrightarrow> (\<exists>x. m = Inr x \<and> f x = Inr y)"
  by (cases m) auto

lemma bindR_assoc: "bindR (bindR m f) g = bindR m (\<lambda>x. bindR (f x) g)"
  by (cases m) auto

text \<open>A loop whose body may fail.\<close>

primrec foreachR :: "('a \<Rightarrow> 's \<Rightarrow> 'e + 's) \<Rightarrow> 'a list \<Rightarrow> 's \<Rightarrow> 'e + 's" where
  "foreachR f [] s = Inr s"
| "foreachR f (x # xs) s = bindR (f x s) (foreachR f xs)"

lemma foreachR_append [simp]: "foreachR f (xs @ ys) s = bindR (foreachR f xs s) (foreachR f ys)"
  by (induction xs arbitrary: s) (simp_all add: bindR_def split: sum.splits)

lemma foreachR_total: "(\<And>x s. x \<in> set xs \<Longrightarrow> f x s = Inr (g x s)) \<Longrightarrow> foreachR f xs s = Inr (fold g xs s)"
  by (induction xs arbitrary: s) simp_all

lemma foreachR_cong [fundef_cong]:
  "xs = ys \<Longrightarrow> s = t \<Longrightarrow> (\<And>x s. x \<in> set ys \<Longrightarrow> f x s = g x s) \<Longrightarrow> foreachR f xs s = foreachR g ys t"
proof -
  have "(\<And>x s. x \<in> set ys \<Longrightarrow> f x s = g x s) \<Longrightarrow> foreachR f ys t = foreachR g ys t"
    by (induction ys arbitrary: t) (auto simp: bindR_def split: sum.splits)
  then show "xs = ys \<Longrightarrow> s = t \<Longrightarrow> (\<And>x s. x \<in> set ys \<Longrightarrow> f x s = g x s) \<Longrightarrow> foreachR f xs s = foreachR g ys t"
    by simp
qed

text \<open>An array read; an index outside the array is undefined behaviour.\<close>

definition nthR :: "'a list \<Rightarrow> nat \<Rightarrow> 'a res" where
  "nthR xs i = (if i < length xs then Inr (xs ! i) else Inl UndefBehav)"

lemma nthR_ok [simp]: "i < length xs \<Longrightarrow> nthR xs i = Inr (xs ! i)"
  by (simp add: nthR_def)

subsection \<open>Lists and multisets\<close>

named_theorems list_upd \<open>replacing one element of a list of lists\<close>

lemma concat_map_split:
  assumes "i < length xs"
  shows "concat (map f xs) = concat (map f (take i xs)) @ f (xs ! i) @ concat (map f (drop (Suc i) xs))"
proof -
  have "xs = take i xs @ xs ! i # drop (Suc i) xs"
    using assms by (rule id_take_nth_drop)
  then have "concat (map f xs) = concat (map f (take i xs @ xs ! i # drop (Suc i) xs))"
    by simp
  then show ?thesis by simp
qed

lemma concat_map_update:
  assumes "i < length xs"
  shows "concat (map f (xs[i := x])) = concat (map f (take i xs)) @ f x @ concat (map f (drop (Suc i) xs))"
  using concat_map_split [of i "xs[i := x]" f] assms by simp

lemma mset_concat_map_update [list_upd]:
  assumes "i < length xs"
  shows "mset (concat (map f (xs[i := x]))) + mset (f (xs ! i)) = mset (concat (map f xs)) + mset (f x)"
  by (simp only: concat_map_update [OF assms] concat_map_split [OF assms, of f] mset_append) simp

lemma length_filter_update [list_upd]:
  assumes "i < length xs"
  shows "length (filter P (xs[i := x])) + (if P (xs ! i) then 1 else 0) =
         length (filter P xs) + (if P x then 1 else 0)"
proof -
  have x: "xs[i := x] = take i xs @ x # drop (Suc i) xs"
    using assms by (rule upd_conv_take_nth_drop)
  have xs: "xs = take i xs @ xs ! i # drop (Suc i) xs"
    using assms by (rule id_take_nth_drop)
  show ?thesis
    unfolding x by (subst (3) xs) simp
qed

lemma all_update:
  "\<forall>j < length xs. P j (xs ! j) \<Longrightarrow> P i x \<Longrightarrow> \<forall>j < length (xs[i := x]). P j (xs[i := x] ! j)"
  by (metis length_list_update nth_list_update_eq nth_list_update_neq)

text \<open>A list of distinct non-null pointers is shorter than the address space.\<close>

lemma distinct_ptrs_bound:
  assumes "distinct (xs :: ptr list)" and "0 \<notin> set xs"
  shows "length xs < 2 ^ 64"
proof -
  have "card (set xs) = length xs"
    using assms(1) by (rule distinct_card)
  moreover have "set xs \<subset> (UNIV :: ptr set)"
    using assms(2) by auto
  then have "card (set xs) < card (UNIV :: ptr set)"
    by (rule psubset_card_mono [OF finite])
  moreover have "card (UNIV :: ptr set) = 2 ^ 64"
    using card_word [where ?'a = 64] by simp
  ultimately show ?thesis by simp
qed

end
