(* ===== verification/CFloat.thy ===== *)
theory CFloat
  imports Prelude Complex_Main
begin

section \<open>C single-precision arithmetic\<close>

text \<open>
  The hash table's tuning parameters are C \<open>float\<close>s. This theory models the part of IEEE 754
  binary32 that the code uses: a value is a rational number, an infinity or a NaN; each
  operation computes the exact result and rounds it to the nearest representable number, ties
  to even (24 significant bits, least exponent -149, overflow to an infinity). The sign of a
  zero is not represented: the code never divides by a computed zero and compares only.
  Comparisons with a NaN are false.
\<close>

datatype cfloat = Fin rat | Inf bool | NaN \<comment> \<open>\<open>Inf True\<close> is minus infinity\<close>

definition pow2 :: "int \<Rightarrow> rat" where
  "pow2 e = (if 0 \<le> e then 2 ^ nat e else 1 / 2 ^ nat (- e))"

text \<open>Round a rational to an integer, ties to even.\<close>

definition round_half_even :: "rat \<Rightarrow> int" where
  "round_half_even x =
     (let f = \<lfloor>x\<rfloor>; d = x - of_int f
      in if d < 1 / 2 \<or> d = 1 / 2 \<and> even f then f else f + 1)"

text \<open>Number of bits of a non-negative integer, and the binary exponent of a positive rational
  \<open>n / d\<close>: the integer \<open>k\<close> with \<open>2 ^ k \<le> n / d < 2 ^ (k + 1)\<close>.\<close>

function bits :: "int \<Rightarrow> int" where
  "bits n = (if n \<le> 0 then 0 else 1 + bits (n div 2))"
  by pat_completeness auto
termination
  by (relation "measure nat") auto

declare bits.simps [simp del]

definition exponent :: "rat \<Rightarrow> int" where
  "exponent x =
     (let (n, d) = quotient_of x; k = bits n - bits d
      in if x < pow2 k then k - 1 else k)"

definition fl_round :: "rat \<Rightarrow> cfloat" where
  "fl_round x =
     (if x = 0 then Fin 0
      else let e = max (- 149) (exponent \<bar>x\<bar> - 23);
               y = of_int (round_half_even (x / pow2 e)) * pow2 e
           in if \<bar>y\<bar> \<ge> 2 ^ 128 then Inf (x < 0) else Fin y)"

fun fl_add :: "cfloat \<Rightarrow> cfloat \<Rightarrow> cfloat" where
  "fl_add NaN _ = NaN"
| "fl_add _ NaN = NaN"
| "fl_add (Inf s) (Inf t) = (if s = t then Inf s else NaN)"
| "fl_add (Inf s) (Fin _) = Inf s"
| "fl_add (Fin _) (Inf t) = Inf t"
| "fl_add (Fin x) (Fin y) = fl_round (x + y)"

fun fl_neg :: "cfloat \<Rightarrow> cfloat" where
  "fl_neg NaN = NaN"
| "fl_neg (Inf s) = Inf (\<not> s)"
| "fl_neg (Fin x) = Fin (- x)"

definition fl_sub :: "cfloat \<Rightarrow> cfloat \<Rightarrow> cfloat" where
  "fl_sub x y = fl_add x (fl_neg y)"

fun fl_mul :: "cfloat \<Rightarrow> cfloat \<Rightarrow> cfloat" where
  "fl_mul NaN _ = NaN"
| "fl_mul _ NaN = NaN"
| "fl_mul (Inf s) (Inf t) = Inf (s \<noteq> t)"
| "fl_mul (Inf s) (Fin y) = (if y = 0 then NaN else Inf (s \<noteq> (y < 0)))"
| "fl_mul (Fin x) (Inf t) = (if x = 0 then NaN else Inf (t \<noteq> (x < 0)))"
| "fl_mul (Fin x) (Fin y) = fl_round (x * y)"

fun fl_div :: "cfloat \<Rightarrow> cfloat \<Rightarrow> cfloat" where
  "fl_div NaN _ = NaN"
| "fl_div _ NaN = NaN"
| "fl_div (Inf s) (Inf t) = NaN"
| "fl_div (Inf s) (Fin y) = Inf (s \<noteq> (y < 0))"
| "fl_div (Fin x) (Inf t) = Fin 0"
| "fl_div (Fin x) (Fin y) = (if y = 0 then (if x = 0 then NaN else Inf (x < 0)) else fl_round (x / y))"

fun fl_less :: "cfloat \<Rightarrow> cfloat \<Rightarrow> bool" where
  "fl_less NaN _ = False"
| "fl_less _ NaN = False"
| "fl_less (Inf s) (Inf t) = (s \<and> \<not> t)"
| "fl_less (Inf s) (Fin _) = s"
| "fl_less (Fin _) (Inf t) = (\<not> t)"
| "fl_less (Fin x) (Fin y) = (x < y)"

fun fl_le :: "cfloat \<Rightarrow> cfloat \<Rightarrow> bool" where
  "fl_le NaN _ = False"
| "fl_le _ NaN = False"
| "fl_le (Inf s) (Inf t) = (s \<or> \<not> t)"
| "fl_le (Inf s) (Fin _) = s"
| "fl_le (Fin _) (Inf t) = (\<not> t)"
| "fl_le (Fin x) (Fin y) = (x \<le> y)"

text \<open>Conversions between \<open>size_t\<close> and \<open>float\<close>. The conversion to \<open>size_t\<close> truncates towards
  zero; it is undefined (\<open>None\<close>) when the truncated value does not fit.\<close>

definition fl_of_size :: "size_t \<Rightarrow> cfloat" where
  "fl_of_size n = fl_round (of_int (uint n))"

fun fl_to_size :: "cfloat \<Rightarrow> size_t option" where
  "fl_to_size (Fin x) =
     (if - 1 < x \<and> x < 2 ^ 64 then Some (word_of_int (if x < 0 then 0 else \<lfloor>x\<rfloor>)) else None)"
| "fl_to_size _ = None"

subsection \<open>Powers of two and exponents\<close>

lemma pow2_powi: "pow2 e = 2 powi e"
  by (simp add: pow2_def power_int_def field_simps)

lemma pow2_pos [simp]: "0 < pow2 e"
  by (simp add: pow2_powi)

lemma pow2_ge0 [simp]: "0 \<le> pow2 e"
  using pow2_pos [of e] by linarith

lemma pow2_nonzero [simp]: "pow2 e \<noteq> 0"
  using pow2_pos [of e] by linarith

lemma pow2_add: "pow2 (a + b) = pow2 a * pow2 b"
  by (simp add: pow2_powi power_int_add)

lemma pow2_nat: "pow2 (int k) = 2 ^ k"
  by (simp add: pow2_def)

lemma pow2_mono: "a < b \<Longrightarrow> pow2 a < pow2 b"
  by (simp add: pow2_powi power_int_strict_increasing)

lemma pow2_less_iff: "pow2 a < pow2 b \<longleftrightarrow> a < b"
  using pow2_mono [of a b] pow2_mono [of b a] by (cases a b rule: linorder_cases) auto

lemma pow2_le_iff: "pow2 a \<le> pow2 b \<longleftrightarrow> a \<le> b"
  by (metis linorder_not_less pow2_less_iff)

lemma bits_nonneg: "0 \<le> bits n"
  by (induction n rule: bits.induct) (subst bits.simps, auto)

lemma bits_bounds:
  assumes "0 < n"
  shows "2 ^ nat (bits n - 1) \<le> n \<and> n < 2 ^ nat (bits n) \<and> 0 < bits n"
  using assms
proof (induction n rule: bits.induct)
  case (1 n)
  show ?case
  proof (cases "n = 1")
    case True
    then show ?thesis by (simp add: bits.simps [of 1] bits.simps [of 0])
  next
    case False
    with "1.prems" have half: "0 < n div 2" by linarith
    define b where "b = bits (n div 2)"
    have IH: "2 ^ nat (b - 1) \<le> n div 2" "n div 2 < 2 ^ nat b" "0 < b"
      using "1.IH" "1.prems" half by (auto simp: b_def)
    have bn: "bits n = 1 + b"
      using "1.prems" by (simp add: bits.simps [of n] b_def)
    have "nat b = Suc (nat (b - 1))" "nat (1 + b) = Suc (nat b)"
      using IH(3) by linarith+
    then have "2 ^ nat b = 2 * (2 ^ nat (b - 1) :: int)" "2 ^ nat (1 + b) = 2 * (2 ^ nat b :: int)"
      by (simp_all del: nat_add_distrib)
    with IH show ?thesis unfolding bn by auto
  qed
qed

lemma bits_pow2:
  assumes "0 < n"
  shows "pow2 (bits n - 1) \<le> of_int n" and "of_int n < pow2 (bits n)"
proof -
  note b = bits_bounds [OF assms]
  have e: "pow2 (bits n - 1) = of_int (2 ^ nat (bits n - 1))" "pow2 (bits n) = of_int (2 ^ nat (bits n))"
    using b by (simp_all add: pow2_def)
  show "pow2 (bits n - 1) \<le> of_int n" "of_int n < pow2 (bits n)"
    unfolding e of_int_le_iff of_int_less_iff using b by auto
qed

lemma exponent_le:
  assumes "0 < x"
  shows "pow2 (exponent x) \<le> x"
proof -
  obtain n d where q: "quotient_of x = (n, d)"
    by (cases "quotient_of x")
  have d: "0 < d" and x: "x = of_int n / of_int d"
    using quotient_of_denom_pos [OF q] quotient_of_div [OF q] by auto
  with assms have n: "0 < n"
    by (metis of_int_0_less_iff zero_less_divide_iff of_int_less_0_iff less_asym)
  define k where "k = bits n - bits d"
  have "pow2 (k - 1) * of_int d \<le> pow2 (k - 1) * pow2 (bits d)"
    using bits_pow2(2) [OF d] by (intro mult_left_mono) auto
  also have "\<dots> = pow2 (bits n - 1)"
    by (simp add: k_def flip: pow2_add)
  also have "\<dots> \<le> of_int n"
    by (rule bits_pow2(1) [OF n])
  finally have "pow2 (k - 1) \<le> x"
    using d by (simp add: x field_simps)
  then show ?thesis
    by (auto simp: exponent_def q k_def [symmetric])
qed

subsection \<open>Rounding\<close>

lemma round_half_even_le: "x \<le> of_int n \<Longrightarrow> round_half_even x \<le> n"
proof -
  assume le: "x \<le> of_int n"
  show ?thesis
  proof (cases "x = of_int n")
    case True
    then show ?thesis by (simp add: round_half_even_def)
  next
    case False
    with le have "\<lfloor>x\<rfloor> < n" by (simp add: floor_less_iff)
    then show ?thesis by (simp add: round_half_even_def Let_def)
  qed
qed

lemma round_half_even_nonneg: "0 \<le> x \<Longrightarrow> 0 \<le> round_half_even x"
  by (simp add: round_half_even_def Let_def)

lemma round_half_even_int [simp]: "round_half_even (of_int n) = n"
  by (simp add: round_half_even_def)

definition fl_nonneg :: "cfloat \<Rightarrow> bool" where
  "fl_nonneg v \<longleftrightarrow> v = Inf False \<or> (\<exists>y \<ge> 0. v = Fin y)"

definition fl_below :: "nat \<Rightarrow> cfloat \<Rightarrow> bool" where
  "fl_below k v \<longleftrightarrow> (\<exists>y. v = Fin y \<and> 0 \<le> y \<and> y \<le> 2 ^ k)"

lemma fl_round_nonneg: "0 \<le> x \<Longrightarrow> fl_nonneg (fl_round x)"
  by (auto simp: fl_round_def fl_nonneg_def Let_def intro!: mult_nonneg_nonneg round_half_even_nonneg)

lemma fl_round_below:
  assumes "0 \<le> x" and "x \<le> 2 ^ k" and "k < 128"
  shows "fl_below k (fl_round x)"
proof (cases "x = 0")
  case True
  then show ?thesis by (simp add: fl_round_def fl_below_def)
next
  case False
  with assms(1) have x: "0 < x" by simp
  define e where "e = max (- 149) (exponent x - 23)"
  have "pow2 (exponent x) \<le> pow2 (int k)"
    using exponent_le [OF x] assms(2) by (simp add: pow2_nat)
  then have e: "e \<le> int k" by (simp add: pow2_le_iff e_def)
  have k: "2 ^ k = of_int (2 ^ nat (int k - e)) * pow2 e"
    using e by (simp add: pow2_nat [symmetric] pow2_add [symmetric] flip: pow2_nat)
  have "x / pow2 e \<le> of_int (2 ^ nat (int k - e))"
    using assms(2) by (simp add: k pos_divide_le_eq del: of_int_power)
  then have "round_half_even (x / pow2 e) \<le> 2 ^ nat (int k - e)"
    by (rule round_half_even_le)
  then have "of_int (round_half_even (x / pow2 e)) * pow2 e \<le> 2 ^ k"
    unfolding k by (intro mult_right_mono) (simp_all only: of_int_le_iff pow2_ge0)
  moreover have "0 \<le> of_int (round_half_even (x / pow2 e)) * pow2 e"
    using x by (intro mult_nonneg_nonneg) (simp_all add: round_half_even_nonneg)
  moreover have "(2 :: rat) ^ k < 2 ^ 128"
    using assms(3) by (simp add: power_strict_increasing_iff del: power_numeral)
  ultimately show ?thesis
    using x by (auto simp: fl_round_def fl_below_def Let_def e_def [symmetric])
qed

text \<open>Integers below \<open>2 ^ 24\<close> are represented exactly.\<close>

lemma fl_round_exact:
  assumes "0 \<le> n" and "n < 2 ^ 24"
  shows "fl_round (of_int n) = Fin (of_int n)"
proof (cases "n = 0")
  case True
  then show ?thesis by (simp add: fl_round_def)
next
  case False
  with assms have n: "0 < n" by simp
  define e where "e = max (- 149) (exponent (of_int n) - 23)"
  have "(of_int n :: rat) < of_int (2 ^ 24)"
    using assms(2) by (simp only: of_int_less_iff)
  then have nlt: "of_int n < pow2 24"
    by (simp add: pow2_def)
  have "pow2 (exponent (of_int n)) \<le> of_int n"
    using n by (intro exponent_le) simp
  with nlt have "pow2 (exponent (of_int n)) < pow2 24" by linarith
  then have e: "e \<le> 0" by (simp add: pow2_less_iff e_def)
  then have i: "of_int n / pow2 e = of_int (n * 2 ^ nat (- e))"
    by (cases "e = 0") (simp_all add: pow2_def)
  have "2 ^ nat (- e) * pow2 e = 1"
    using e by (auto simp: pow2_def)
  then have undo: "of_int (n * 2 ^ nat (- e)) * pow2 e = of_int n"
    by simp
  have "(of_int n :: rat) < 2 ^ 128"
    using nlt by (simp add: pow2_def)
  then show ?thesis
    using n by (simp add: fl_round_def Let_def e_def [symmetric] i undo del: of_int_mult)
qed

lemma exponent_gt:
  assumes "0 < x"
  shows "x < pow2 (exponent x + 1)"
proof -
  obtain n d where q: "quotient_of x = (n, d)"
    by (cases "quotient_of x")
  have d: "0 < d" and x: "x = of_int n / of_int d"
    using quotient_of_denom_pos [OF q] quotient_of_div [OF q] by auto
  with assms have n: "0 < n"
    by (metis of_int_0_less_iff zero_less_divide_iff of_int_less_0_iff less_asym)
  define k where "k = bits n - bits d"
  have "of_int n < pow2 (bits n)" by (rule bits_pow2(2) [OF n])
  also have "\<dots> = pow2 (k + 1) * pow2 (bits d - 1)"
    by (simp add: k_def flip: pow2_add)
  also have "\<dots> \<le> pow2 (k + 1) * of_int d"
    using bits_pow2(1) [OF d] by (intro mult_left_mono) auto
  finally have "x < pow2 (k + 1)"
    using d by (simp add: x field_simps)
  then show ?thesis
    by (auto simp: exponent_def q k_def [symmetric])
qed

lemma round_half_even_ge: "of_int n \<le> x \<Longrightarrow> n \<le> round_half_even x"
proof -
  assume "of_int n \<le> x"
  then have "n \<le> \<lfloor>x\<rfloor>" by (simp add: le_floor_iff)
  then show ?thesis by (simp add: round_half_even_def Let_def)
qed

text \<open>A value of at least one rounds to a positive value.\<close>

lemma fl_round_pos:
  assumes "1 \<le> x"
  shows "fl_round x = Inf False \<or> (\<exists>y > 0. fl_round x = Fin y)"
proof -
  have x: "0 < x" using assms by simp
  have "pow2 0 < pow2 (exponent x + 1)"
    using exponent_gt [OF x] assms by (simp add: pow2_def [of 0])
  then have ex: "0 \<le> exponent x" by (simp add: pow2_less_iff)
  define e where "e = max (- 149) (exponent x - 23)"
  define m :: int where "m = 2 ^ nat (exponent x - e)"
  have e: "e \<le> exponent x" using ex by (simp add: e_def)
  have "of_int m * pow2 e = pow2 (exponent x)"
    using e by (simp add: m_def flip: pow2_nat pow2_add)
  then have "of_int m \<le> x / pow2 e"
    using exponent_le [OF x] by (simp add: pos_le_divide_eq)
  then have "m \<le> round_half_even (x / pow2 e)" by (rule round_half_even_ge)
  moreover have "0 < m" by (simp add: m_def)
  ultimately have "0 < round_half_even (x / pow2 e)" by linarith
  then have "0 < of_int (round_half_even (x / pow2 e)) * pow2 e" by simp
  then show ?thesis
    using x by (auto simp: fl_round_def Let_def e_def [symmetric])
qed

lemma fl_of_size_max: "fl_of_size SIZE_MAX = Fin (2 ^ 64)"
  by code_simp

lemma fl_to_size_defined:
  assumes "fl_nonneg v" and "\<not> fl_le (fl_of_size SIZE_MAX) v"
  shows "\<exists>n. fl_to_size v = Some n"
  using assms by (auto simp: fl_nonneg_def fl_of_size_max)

lemma fl_to_size_below:
  assumes "fl_below k v" and "k < 64"
  shows "\<exists>n. fl_to_size v = Some n"
proof -
  obtain y where y: "v = Fin y" "0 \<le> y" "y \<le> 2 ^ k"
    using assms(1) by (auto simp: fl_below_def)
  moreover have "(2 :: rat) ^ k < 2 ^ 64"
    using assms(2) by (simp add: power_strict_increasing_iff del: power_numeral)
  ultimately show ?thesis by simp
qed

lemma fl_of_size_nonneg [simp]: "fl_nonneg (fl_of_size n)"
  by (simp add: fl_of_size_def fl_round_nonneg del: of_int_uint)

lemma fl_of_size_below:
  assumes "unat n \<le> 2 ^ k" and "k < 128"
  shows "fl_below k (fl_of_size n)"
proof -
  have "uint n \<le> 2 ^ k"
    using assms(1) by (metis of_nat_numeral of_nat_power of_nat_le_iff uint_nat)
  then have "(of_int (uint n) :: rat) \<le> of_int (2 ^ k)"
    by (simp only: of_int_le_iff)
  then show ?thesis
    unfolding fl_of_size_def using assms(2) by (intro fl_round_below) (auto simp del: of_int_uint)
qed

lemma fl_mul_nonneg:
  assumes "fl_of_size n = Inf False \<or> (\<exists>y > 0. fl_of_size n = Fin y)" and "fl_nonneg v" and "v \<noteq> Fin 0"
  shows "fl_nonneg (fl_mul (fl_of_size n) v)"
  using assms
  by (auto simp: fl_nonneg_def)
     (metis fl_nonneg_def fl_round_nonneg less_imp_le mult_nonneg_nonneg)

lemma fl_mul_below_one:
  assumes "fl_below k v" and "0 \<le> f" and "f \<le> 1" and "k < 128"
  shows "fl_below k (fl_mul v (Fin f))"
proof -
  obtain y where y: "v = Fin y" "0 \<le> y" "y \<le> 2 ^ k"
    using assms(1) by (auto simp: fl_below_def)
  have "y * f \<le> 2 ^ k"
    using mult_mono [of y "2 ^ k" f 1] y assms by simp
  then show ?thesis
    using y assms by (auto intro!: fl_round_below)
qed

end
