(* ===== verification/Bitrotate.thy ===== *)
theory Bitrotate
  imports Prelude
begin

unbundle bit_operations_syntax

section \<open>Bit rotation (gnulib/lib/bitrotate.h)\<close>

text \<open>
  The ten rotation helpers of the header. The rotation count is a C \<open>int\<close>; a count for which
  one of the two shifts is undefined gives \<open>None\<close>. The 16 and 8 bit variants compute in
  \<open>unsigned int\<close> (32 bits) and truncate.
\<close>

definition rotl64 :: "64 word \<Rightarrow> int \<Rightarrow> 64 word option" where
  "rotl64 x n = do { a \<leftarrow> c_shl x n; b \<leftarrow> c_shr x (64 - n); Some ((a OR b) AND - 1) }"

definition rotr64 :: "64 word \<Rightarrow> int \<Rightarrow> 64 word option" where
  "rotr64 x n = do { a \<leftarrow> c_shr x n; b \<leftarrow> c_shl x (64 - n); Some ((a OR b) AND - 1) }"

definition rotl32 :: "32 word \<Rightarrow> int \<Rightarrow> 32 word option" where
  "rotl32 x n = do { a \<leftarrow> c_shl x n; b \<leftarrow> c_shr x (32 - n); Some ((a OR b) AND - 1) }"

definition rotr32 :: "32 word \<Rightarrow> int \<Rightarrow> 32 word option" where
  "rotr32 x n = do { a \<leftarrow> c_shr x n; b \<leftarrow> c_shl x (32 - n); Some ((a OR b) AND - 1) }"

definition rotl_sz :: "size_t \<Rightarrow> int \<Rightarrow> size_t option" where
  "rotl_sz x n = do { a \<leftarrow> c_shl x n; b \<leftarrow> c_shr x (8 * 8 - n); Some ((a OR b) AND SIZE_MAX) }"

definition rotr_sz :: "size_t \<Rightarrow> int \<Rightarrow> size_t option" where
  "rotr_sz x n = do { a \<leftarrow> c_shr x n; b \<leftarrow> c_shl x (8 * 8 - n); Some ((a OR b) AND SIZE_MAX) }"

definition rotl16 :: "16 word \<Rightarrow> int \<Rightarrow> 16 word option" where
  "rotl16 x n = do { a \<leftarrow> c_shl (ucast x :: 32 word) n; b \<leftarrow> c_shr (ucast x :: 32 word) (16 - n);
                     Some (ucast ((a OR b) AND 65535)) }"

definition rotr16 :: "16 word \<Rightarrow> int \<Rightarrow> 16 word option" where
  "rotr16 x n = do { a \<leftarrow> c_shr (ucast x :: 32 word) n; b \<leftarrow> c_shl (ucast x :: 32 word) (16 - n);
                     Some (ucast ((a OR b) AND 65535)) }"

definition rotl8 :: "8 word \<Rightarrow> int \<Rightarrow> 8 word option" where
  "rotl8 x n = do { a \<leftarrow> c_shl (ucast x :: 32 word) n; b \<leftarrow> c_shr (ucast x :: 32 word) (8 - n);
                    Some (ucast ((a OR b) AND 255)) }"

definition rotr8 :: "8 word \<Rightarrow> int \<Rightarrow> 8 word option" where
  "rotr8 x n = do { a \<leftarrow> c_shr (ucast x :: 32 word) n; b \<leftarrow> c_shl (ucast x :: 32 word) (8 - n);
                    Some (ucast ((a OR b) AND 255)) }"

named_theorems rot_defs \<open>definitions of the rotation helpers\<close>

lemmas [rot_defs] = rotl64_def rotr64_def rotl32_def rotr32_def rotl_sz_def rotr_sz_def
  rotl16_def rotr16_def rotl8_def rotr8_def

subsection \<open>Rotation by two shifts\<close>

lemma shift_or_rotl:
  fixes x :: "'a::len word"
  assumes "0 < m" and "m < LENGTH('a)"
  shows "push_bit m x OR drop_bit (LENGTH('a) - m) x = word_rotl m x"
proof (rule bit_word_eqI)
  fix n assume n: "n < LENGTH('a)"
  show "bit (push_bit m x OR drop_bit (LENGTH('a) - m) x) n = bit (word_rotl m x) n"
  proof (cases "m \<le> n")
    case True
    then have "(n + (LENGTH('a) - m)) mod LENGTH('a) = n - m"
      using assms n by (simp add: mod_if)
    moreover have "\<not> bit x (LENGTH('a) - m + n)"
      using True assms by (auto dest: bit_imp_le_length)
    ultimately show ?thesis
      using True n assms by (simp add: bit_word_rotl_iff bit_simps ac_simps)
  next
    case False
    then have "(n + (LENGTH('a) - m)) mod LENGTH('a) = n + (LENGTH('a) - m)"
      using assms n by simp
    then show ?thesis
      using False n assms by (simp add: bit_word_rotl_iff bit_simps ac_simps)
  qed
qed

lemma shift_or_rotr:
  fixes x :: "'a::len word"
  assumes "0 < m" and "m < LENGTH('a)"
  shows "drop_bit m x OR push_bit (LENGTH('a) - m) x = word_rotr m x"
proof -
  have "word_rotr m x = word_rotl (LENGTH('a) - m) x"
    using assms by (intro bit_word_eqI) (auto simp: bit_word_rotl_iff bit_word_rotr_iff mod_simps)
  also have "\<dots> = push_bit (LENGTH('a) - m) x OR drop_bit (LENGTH('a) - (LENGTH('a) - m)) x"
    by (rule shift_or_rotl [symmetric]) (use assms in auto)
  finally show ?thesis
    using assms by (simp add: or.commute)
qed

text \<open>The narrow variants rotate inside a wider word, for counts from 0 to the width inclusive.\<close>

lemma wide_shift_or_rotl:
  fixes x :: "'a::len word"
  assumes "m \<le> LENGTH('a)" and "2 * LENGTH('a) \<le> LENGTH('b)"
  shows "ucast ((push_bit m (ucast x :: 'b::len word) OR
                 drop_bit (LENGTH('a) - m) (ucast x)) AND mask LENGTH('a)) = word_rotl m x"
proof (rule bit_word_eqI)
  fix n assume n: "n < LENGTH('a)"
  consider "m = LENGTH('a)" | "m < LENGTH('a)" "m \<le> n" | "m < LENGTH('a)" "n < m"
    using assms(1) by linarith
  then have "bit x ((n + (LENGTH('a) - m mod LENGTH('a))) mod LENGTH('a)) \<longleftrightarrow>
        m \<le> n \<and> bit x (n - m) \<or> bit x (LENGTH('a) - m + n)"
    using n by cases (auto simp: mod_if ac_simps dest: bit_imp_le_length)
  then show "bit (ucast ((push_bit m (ucast x :: 'b word) OR
                 drop_bit (LENGTH('a) - m) (ucast x)) AND mask LENGTH('a)) :: 'a word) n
             = bit (word_rotl m x) n"
    using n assms by (auto simp: bit_word_rotl_iff bit_simps dest: bit_imp_le_length)
qed

lemma wide_shift_or_rotr:
  fixes x :: "'a::len word"
  assumes "m \<le> LENGTH('a)" and "2 * LENGTH('a) \<le> LENGTH('b)"
  shows "ucast ((drop_bit m (ucast x :: 'b::len word) OR
                 push_bit (LENGTH('a) - m) (ucast x)) AND mask LENGTH('a)) = word_rotr m x"
proof -
  have "word_rotr m x = word_rotl (LENGTH('a) - m) x"
    using assms(1) by (cases "m = LENGTH('a)"; cases "m = 0")
      (auto intro!: bit_word_eqI simp: bit_word_rotl_iff bit_word_rotr_iff mod_simps)
  also have "\<dots> = ucast ((push_bit (LENGTH('a) - m) (ucast x :: 'b word) OR
                 drop_bit (LENGTH('a) - (LENGTH('a) - m)) (ucast x)) AND mask LENGTH('a))"
    by (rule wide_shift_or_rotl [symmetric]) (use assms in auto)
  finally show ?thesis
    using assms by (simp add: or.commute)
qed

subsection \<open>The helpers rotate\<close>

lemma rot64_eq:
  "rotl64 x n = (if 0 < n \<and> n < 64 then Some (word_rotl (nat n) x) else None)"
  "rotr64 x n = (if 0 < n \<and> n < 64 then Some (word_rotr (nat n) x) else None)"
  using shift_or_rotl [of "nat n" x] shift_or_rotr [of "nat n" x]
  by (auto simp: rot_defs c_shl_def c_shr_def nat_diff_distrib)

lemma rot_sz_eq:
  "rotl_sz x n = (if 0 < n \<and> n < 64 then Some (word_rotl (nat n) x) else None)"
  "rotr_sz x n = (if 0 < n \<and> n < 64 then Some (word_rotr (nat n) x) else None)"
  using shift_or_rotl [of "nat n" x] shift_or_rotr [of "nat n" x]
  by (auto simp: rot_defs c_shl_def c_shr_def nat_diff_distrib)

lemma rot32_eq:
  "rotl32 y n = (if 0 < n \<and> n < 32 then Some (word_rotl (nat n) y) else None)"
  "rotr32 y n = (if 0 < n \<and> n < 32 then Some (word_rotr (nat n) y) else None)"
  using shift_or_rotl [of "nat n" y] shift_or_rotr [of "nat n" y]
  by (auto simp: rot_defs c_shl_def c_shr_def nat_diff_distrib)

lemma rot16_eq:
  "rotl16 z n = (if 0 \<le> n \<and> n \<le> 16 then Some (word_rotl (nat n) z) else None)"
  "rotr16 z n = (if 0 \<le> n \<and> n \<le> 16 then Some (word_rotr (nat n) z) else None)"
  using wide_shift_or_rotl [where ?'b = 32, of "nat n" z] wide_shift_or_rotr [where ?'b = 32, of "nat n" z]
  by (auto simp: rot_defs c_shl_def c_shr_def nat_diff_distrib mask_eq_exp_minus_1)

lemma rot8_eq:
  "rotl8 b n = (if 0 \<le> n \<and> n \<le> 8 then Some (word_rotl (nat n) b) else None)"
  "rotr8 b n = (if 0 \<le> n \<and> n \<le> 8 then Some (word_rotr (nat n) b) else None)"
  using wide_shift_or_rotl [where ?'b = 32, of "nat n" b] wide_shift_or_rotr [where ?'b = 32, of "nat n" b]
  by (auto simp: rot_defs c_shl_def c_shr_def nat_diff_distrib mask_eq_exp_minus_1)

lemmas rot_eqs = rot64_eq rot_sz_eq rot32_eq rot16_eq rot8_eq

subsection \<open>Properties\<close>

text \<open>Every rotation helper computes the rotation of its width for the counts its comment allows
  (and the narrow ones for 0 and the full width too); for any other count the shifts are
  undefined.\<close>

theorem rotations_exact:
  "rotl64 x n = (if 0 < n \<and> n < 64 then Some (word_rotl (nat n) x) else None) \<and>
   rotr64 x n = (if 0 < n \<and> n < 64 then Some (word_rotr (nat n) x) else None) \<and>
   rotl_sz x n = (if 0 < n \<and> n < 64 then Some (word_rotl (nat n) x) else None) \<and>
   rotr_sz x n = (if 0 < n \<and> n < 64 then Some (word_rotr (nat n) x) else None) \<and>
   rotl32 y n = (if 0 < n \<and> n < 32 then Some (word_rotl (nat n) y) else None) \<and>
   rotr32 y n = (if 0 < n \<and> n < 32 then Some (word_rotr (nat n) y) else None) \<and>
   rotl16 z n = (if 0 \<le> n \<and> n \<le> 16 then Some (word_rotl (nat n) z) else None) \<and>
   rotr16 z n = (if 0 \<le> n \<and> n \<le> 16 then Some (word_rotr (nat n) z) else None) \<and>
   rotl8 b n = (if 0 \<le> n \<and> n \<le> 8 then Some (word_rotl (nat n) b) else None) \<and>
   rotr8 b n = (if 0 \<le> n \<and> n \<le> 8 then Some (word_rotr (nat n) b) else None)"
  unfolding rot_eqs by simp

text \<open>Rotating left and then right by the same count gives the value back, at every width.\<close>

theorem rotate_roundtrip:
  "(case rotl64 x n of Some x' \<Rightarrow> rotr64 x' n = Some x | None \<Rightarrow> n \<le> 0 \<or> 64 \<le> n) \<and>
   (case rotl_sz x n of Some x' \<Rightarrow> rotr_sz x' n = Some x | None \<Rightarrow> n \<le> 0 \<or> 64 \<le> n) \<and>
   (case rotl32 y n of Some y' \<Rightarrow> rotr32 y' n = Some y | None \<Rightarrow> n \<le> 0 \<or> 32 \<le> n) \<and>
   (case rotl16 z n of Some z' \<Rightarrow> rotr16 z' n = Some z | None \<Rightarrow> n < 0 \<or> 16 < n) \<and>
   (case rotl8 b n of Some b' \<Rightarrow> rotr8 b' n = Some b | None \<Rightarrow> n < 0 \<or> 8 < n)"
  unfolding rot_eqs by auto

end
