(* ===== verification/HashSize.thy ===== *)
theory HashSize
  imports CFloat Bitrotate
begin

unbundle bit_operations_syntax

section \<open>Sizing and hashing (gnulib/lib/hash.c, xalloc-oversized.h)\<close>

text \<open>
  The parts of the hash table package that do not touch a table: the tuning parameters, the
  bucket-array size (next prime, overflow check), the string and pointer hashers. All
  arithmetic is that of \<open>size_t\<close> (64 bit, wrapping) and of \<open>float\<close> (theory CFloat).
\<close>

subsection \<open>Tuning parameters\<close>

record hash_tuning =
  shrink_threshold :: cfloat
  shrink_factor :: cfloat
  growth_threshold :: cfloat
  growth_factor :: cfloat
  is_n_buckets :: bool

definition default_tuning :: hash_tuning where
  \<comment> \<open>\<open>0.0f\<close>, \<open>1.0f\<close>, \<open>0.8f\<close>, \<open>1.414f\<close> as the binary32 numbers nearest to the literals\<close>
  "default_tuning = \<lparr>shrink_threshold = Fin 0, shrink_factor = Fin 1,
     growth_threshold = Fin (13421773 / 16777216), growth_factor = Fin (11861492 / 8388608),
     is_n_buckets = False\<rparr>"

definition hash_reset_tuning :: "hash_tuning \<Rightarrow> hash_tuning" where
  "hash_reset_tuning tuning = default_tuning"

definition epsilon :: cfloat where \<comment> \<open>\<open>0.1f\<close>\<close>
  "epsilon = Fin (13421773 / 134217728)"

definition tuning_reasonable :: "hash_tuning \<Rightarrow> bool" where
  "tuning_reasonable tuning \<longleftrightarrow>
     fl_less epsilon (growth_threshold tuning)
     \<and> fl_less (growth_threshold tuning) (fl_sub (Fin 1) epsilon)
     \<and> fl_less (fl_add (Fin 1) epsilon) (growth_factor tuning)
     \<and> fl_le (Fin 0) (shrink_threshold tuning)
     \<and> fl_less (fl_add (shrink_threshold tuning) epsilon) (shrink_factor tuning)
     \<and> fl_le (shrink_factor tuning) (Fin 1)
     \<and> fl_less (fl_add (shrink_threshold tuning) epsilon) (growth_threshold tuning)"

subsection \<open>Primes\<close>

text \<open>The loop of \<open>is_prime\<close>: returns the divisor at which it stops. The modulus by a zero
  divisor would be undefined; the loop stops there instead, and \<open>is_prime_loop_odd\<close> shows that
  the divisor never is zero.\<close>

function is_prime_loop :: "size_t \<Rightarrow> size_t \<Rightarrow> size_t \<Rightarrow> size_t" where
  "is_prime_loop candidate divisor square =
     (if square < candidate \<and> divisor \<noteq> 0 \<and> candidate mod divisor \<noteq> 0
      then let divisor = divisor + 1;
               square = square + 4 * divisor;
               divisor = divisor + 1
           in is_prime_loop candidate divisor square
      else divisor)"
  by pat_completeness auto

lemma word_minus_two_less:
  fixes u :: size_t
  assumes "u \<noteq> 0" "u \<noteq> 1"
  shows "unat (u - 2) < unat u"
proof -
  have "unat u \<noteq> unat (0 :: size_t)" "unat u \<noteq> unat (1 :: size_t)"
    using assms by (simp_all only: word_unat_eq_iff [symmetric] not_False_eq_True)
  then have u2: "2 \<le> unat u" by simp
  then have "2 \<le> u" by (simp add: word_le_nat_alt)
  then show ?thesis using u2 by (simp add: unat_sub)
qed

termination is_prime_loop
proof (relation "measure (\<lambda>(c, d, s). unat (1 - d))"; clarsimp)
  fix c d s :: size_t
  assume "d \<noteq> 0" "c mod d \<noteq> 0"
  then have "1 - d \<noteq> 0" "1 - d \<noteq> 1" by auto
  then have "unat (1 - d - 2) < unat (1 - d)" by (rule word_minus_two_less)
  then show "unat (- 1 - d) < unat (1 - d)" by (simp add: algebra_simps)
qed

declare is_prime_loop.simps [simp del]

definition is_prime :: "size_t \<Rightarrow> bool" where
  "is_prime candidate =
     (let divisor = 3; square = divisor * divisor;
          divisor = is_prime_loop candidate divisor square
      in candidate mod divisor \<noteq> 0)"

function next_prime_loop :: "size_t \<Rightarrow> size_t" where
  "next_prime_loop candidate =
     (if SIZE_MAX \<noteq> candidate \<and> \<not> is_prime candidate
      then next_prime_loop (candidate + 2) else candidate)"
  by pat_completeness auto

lemma is_prime_2: "is_prime 2"
  by code_simp

termination next_prime_loop
proof (relation "measure (\<lambda>c. if bit c 0 then unat (- 1 - c) else unat (2 - c))")
  fix c :: size_t
  assume "SIZE_MAX \<noteq> c \<and> \<not> is_prime c"
  then have c: "c \<noteq> - 1" "\<not> is_prime c" by auto
  have even2: "bit (2 + c) 0 \<longleftrightarrow> bit c 0"
    by (simp add: bit_0 even_add)
  show "(c + 2, c) \<in> measure (\<lambda>c. if bit c 0 then unat (- 1 - c) else unat (2 - c))"
  proof (cases "bit c 0")
    case True
    have "- 1 - c \<noteq> 0" using c(1) by (metis right_minus_eq)
    moreover have "- 1 - c \<noteq> 1"
    proof
      assume "- 1 - c = 1"
      then have "c = - 2" by (simp add: algebra_simps eq_neg_iff_add_eq_0)
      with True show False by simp
    qed
    ultimately have "unat (- 1 - c - 2) < unat (- 1 - c)" by (rule word_minus_two_less)
    with True even2 show ?thesis by (simp add: algebra_simps)
  next
    case False
    have "2 - c \<noteq> 0" using c(2) is_prime_2 by auto
    moreover have "2 - c \<noteq> 1"
    proof
      assume "2 - c = 1"
      then have "c = 1" by (simp add: algebra_simps)
      with False show False by simp
    qed
    ultimately have "unat (2 - c - 2) < unat (2 - c)" by (rule word_minus_two_less)
    with False even2 show ?thesis by (simp add: algebra_simps)
  qed
qed simp

declare next_prime_loop.simps [simp del]

definition next_prime :: "size_t \<Rightarrow> size_t" where
  "next_prime candidate =
     (let candidate = (if candidate < 10 then 10 else candidate);
          candidate = candidate OR 1
      in next_prime_loop candidate)"

subsection \<open>Size of the bucket array\<close>

text \<open>\<open>xalloc_oversized\<close> as compiled by GCC 7 and later, the exact product compared with
  \<open>PTRDIFF_MAX\<close>; and the portable variant by division.\<close>

definition xalloc_oversized :: "size_t \<Rightarrow> size_t \<Rightarrow> bool" where
  "xalloc_oversized n s = (PTRDIFF_MAX < uint n * uint s)"

definition xalloc_oversized_div :: "size_t \<Rightarrow> size_t \<Rightarrow> bool" where
  "xalloc_oversized_div n s = (word_of_int PTRDIFF_MAX div s < n)"

definition sizeof_ptr :: size_t where
  "sizeof_ptr = 8"

definition compute_bucket_size :: "size_t \<Rightarrow> hash_tuning \<Rightarrow> size_t res" where
  "compute_bucket_size candidate tuning =
     (let finish = (\<lambda>candidate.
            let candidate = next_prime candidate
            in if xalloc_oversized candidate sizeof_ptr then Inr 0 else Inr candidate)
      in if \<not> is_n_buckets tuning
         then let new_candidate = fl_div (fl_of_size candidate) (growth_threshold tuning)
              in if fl_le (fl_of_size SIZE_MAX) new_candidate then Inr 0
                 else (case fl_to_size new_candidate of
                         None \<Rightarrow> Inl UndefBehav
                       | Some candidate \<Rightarrow> finish candidate)
         else finish candidate)"

subsection \<open>Hashers\<close>

text \<open>A C string is read up to its terminating NUL. The modulus by zero is undefined.\<close>

fun hash_string_loop :: "size_t \<Rightarrow> size_t \<Rightarrow> string \<Rightarrow> size_t res" where
  "hash_string_loop n_buckets value [] = Inr value"
| "hash_string_loop n_buckets value (ch # string) =
     (if ch = CHR 0x00 then Inr value
      else if n_buckets = 0 then Inl UndefBehav
      else hash_string_loop n_buckets ((value * 31 + of_char ch) mod n_buckets) string)"

definition hash_string :: "string \<Rightarrow> size_t \<Rightarrow> size_t res" where
  "hash_string string n_buckets = hash_string_loop n_buckets 0 string"

text \<open>The variant compiled with \<open>USE_DIFF_HASH\<close>.\<close>

fun hash_string_diff_loop :: "size_t \<Rightarrow> string \<Rightarrow> size_t res" where
  "hash_string_diff_loop value [] = Inr value"
| "hash_string_diff_loop value (ch # string) =
     (if ch = CHR 0x00 then Inr value
      else case rotl_sz value 7 of
             None \<Rightarrow> Inl UndefBehav
           | Some r \<Rightarrow> hash_string_diff_loop (of_char ch + r) string)"

definition hash_string_diff :: "string \<Rightarrow> size_t \<Rightarrow> size_t res" where
  "hash_string_diff string n_buckets =
     bindR (hash_string_diff_loop 0 string) (\<lambda>value.
       if n_buckets = 0 then Inl UndefBehav else Inr (value mod n_buckets))"

definition raw_hasher :: "ptr \<Rightarrow> size_t \<Rightarrow> size_t res" where
  "raw_hasher data n =
     (case rotr_sz data 3 of
        None \<Rightarrow> Inl UndefBehav
      | Some val \<Rightarrow> if n = 0 then Inl UndefBehav else Inr (val mod n))"

definition raw_comparator :: "ptr \<Rightarrow> ptr \<Rightarrow> bool" where
  "raw_comparator a b = (a = b)"

subsection \<open>Correctness of the prime search\<close>

definition prime_nat :: "nat \<Rightarrow> bool" where
  "prime_nat p \<longleftrightarrow> 1 < p \<and> (\<forall>d. d dvd p \<longrightarrow> d = 1 \<or> d = p)"

lemma prime_natI:
  assumes "odd p" and "1 < p" and "p \<le> r * r" and "\<And>e. odd e \<Longrightarrow> 3 \<le> e \<Longrightarrow> e \<le> r \<Longrightarrow> \<not> e dvd p"
  shows "prime_nat p"
proof -
  have small: False if d: "d dvd p" "1 < d" "d \<le> r" for d
  proof -
    have "odd d" using d(1) assms(1) by (meson dvd_trans)
    moreover from this d(2) have "3 \<le> d" by (cases "d = 2") auto
    ultimately show False using assms(4) d by blast
  qed
  have "d = 1 \<or> d = p" if "d dvd p" for d
  proof (rule ccontr)
    assume d: "\<not> (d = 1 \<or> d = p)"
    from that obtain e where p: "p = d * e" by (elim dvdE)
    with d assms(2) have "1 < d" "1 < e"
      by (metis One_nat_def Suc_lessI gr0I mult_is_0 not_less_zero less_nat_zero_code,
          metis One_nat_def Suc_lessI gr0I mult.right_neutral mult_is_0 not_less_zero less_nat_zero_code)
    moreover have "d \<le> r \<or> e \<le> r"
    proof (rule ccontr)
      assume "\<not> (d \<le> r \<or> e \<le> r)"
      then have "r < d" "r < e" by auto
      then have "r * r < d * e" by (rule mult_strict_mono') auto
      with assms(3) p show False by simp
    qed
    moreover have "e dvd p" using p by simp
    ultimately show False using small that by blast
  qed
  with assms(2) show ?thesis by (auto simp: prime_nat_def)
qed

lemma is_prime_loop_odd: "odd (unat d) \<Longrightarrow> odd (unat (is_prime_loop c d s))"
proof (induction c d s rule: is_prime_loop.induct)
  case (1 c d s)
  have "odd (unat (d + 1 + 1))"
    using "1.prems" by (simp add: unat_word_ariths mod2_eq_if [symmetric] even_iff_mod_2_eq_zero mod_mod_cancel)
  then show ?case
    using "1.IH" "1.prems" by (subst is_prime_loop.simps) (auto simp: Let_def)
qed

text \<open>The search stays below \<open>2 ^ 32 - 1\<close>, so neither the divisor nor its square wraps around.\<close>

abbreviation prime_bound :: nat where
  "prime_bound \<equiv> 4294967295 * 4294967295"

lemma is_prime_loop_spec:
  assumes "odd (unat c)" and "unat c \<le> prime_bound"
    and "odd (unat d)" and "3 \<le> unat d" and "unat d \<le> 4294967295" and "unat d < unat c"
    and "unat s = unat d * unat d"
    and "\<And>e. odd e \<Longrightarrow> 3 \<le> e \<Longrightarrow> e < unat d \<Longrightarrow> \<not> e dvd unat c"
  defines "r \<equiv> unat (is_prime_loop c d s)"
  shows "3 \<le> r \<and> r < unat c \<and> (unat c \<le> r * r \<or> r dvd unat c)
    \<and> (\<forall>e. odd e \<longrightarrow> 3 \<le> e \<longrightarrow> e < r \<longrightarrow> \<not> e dvd unat c)"
  using assms(1-8) unfolding r_def
proof (induction c d s rule: is_prime_loop.induct)
  case (1 c d s)
  define k where "k = unat d"
  note k = "1.prems"(3-8) [folded k_def]
  have d0: "d \<noteq> 0" using k(2) by (auto simp: k_def)
  have mod: "c mod d \<noteq> 0 \<longleftrightarrow> \<not> k dvd unat c"
    by (simp add: word_unat_eq_iff unat_mod k_def dvd_eq_mod_eq_0)
  have less: "s < c \<longleftrightarrow> k * k < unat c"
    by (simp add: word_less_nat_alt k)
  show ?case
  proof (cases "s < c \<and> d \<noteq> 0 \<and> c mod d \<noteq> 0")
    case True
    then have kk: "k * k < unat c" and ndvd: "\<not> k dvd unat c"
      using less mod by auto
    have "k * k < 4294967295 * 4294967295"
      using kk "1.prems"(2) by linarith
    then have "k < 4294967295" by (metis linorder_not_less mult_le_mono)
    with k(1) have k2: "k + 2 \<le> 4294967295" by (cases "k = 4294967294") auto
    then have sq: "(k + 2) * (k + 2) \<le> 4294967295 * 4294967295" by (rule mult_le_mono) fact
    have d': "unat (d + 1 + 1) = k + 2"
      using k2 by (simp add: unat_word_ariths k_def)
    have s': "unat (s + 4 * (d + 1)) = (k + 2) * (k + 2)"
    proof -
      have d1: "unat (d + 1) = k + 1" using k2 by (simp add: unat_word_ariths k_def)
      have "unat (4 * (d + 1)) = 4 * (k + 1)"
        using k2 d1 by (subst unat_word_ariths) simp
      then have sum: "unat s + unat (4 * (d + 1)) = (k + 2) * (k + 2)"
        by (simp add: k(5) algebra_simps)
      also have "\<dots> < 2 ^ LENGTH(64)"
        by (rule le_less_trans [OF sq]) simp
      finally show ?thesis
        unfolding sum [symmetric] by (rule unat_add_lem [THEN iffD1])
    qed
    have kc: "k + 2 < unat c"
    proof -
      have "3 * k \<le> k * k" using k(2) by simp
      with kk k(2) show ?thesis by linarith
    qed
    have nodiv: "\<not> e dvd unat c" if e: "odd e" "3 \<le> e" "e < k + 2" for e
    proof -
      have "e \<noteq> k + 1" using e(1) k(1) by auto
      then consider "e < k" | "e = k" using e(3) by linarith
      then show ?thesis using k(6) e ndvd by cases auto
    qed
    have "is_prime_loop c d s = is_prime_loop c (d + 1 + 1) (s + 4 * (d + 1))"
      using True by (subst is_prime_loop.simps) (simp add: Let_def)
    moreover have "odd (unat (d + 1 + 1))" using k(1) d' by simp
    ultimately show ?thesis
      using "1.IH" [OF True refl refl refl "1.prems"(1,2)] d' s' k(2) k2 kc nodiv by simp
  next
    case False
    then have "is_prime_loop c d s = d"
      by (subst is_prime_loop.simps) auto
    moreover have "unat c \<le> k * k \<or> k dvd unat c"
      using False less mod d0 by auto
    ultimately show ?thesis
      using k by (auto simp: k_def)
  qed
qed

lemma is_prime_correct:
  assumes "odd (unat c)" and "9 \<le> unat c" and "unat c \<le> prime_bound"
  shows "is_prime c \<longleftrightarrow> prime_nat (unat c)"
proof -
  define r where "r = unat (is_prime_loop c 3 (3 * 3))"
  have "\<And>e. odd e \<Longrightarrow> 3 \<le> e \<Longrightarrow> e < unat (3 :: size_t) \<Longrightarrow> \<not> e dvd unat c" by simp
  then have r: "3 \<le> r" "r < unat c" "unat c \<le> r * r \<or> r dvd unat c"
    "\<And>e. odd e \<Longrightarrow> 3 \<le> e \<Longrightarrow> e < r \<Longrightarrow> \<not> e dvd unat c"
    using is_prime_loop_spec [of c 3 "3 * 3"] assms by (auto simp: r_def)
  have p: "is_prime c \<longleftrightarrow> \<not> r dvd unat c"
    by (simp add: is_prime_def Let_def word_unat_eq_iff unat_mod r_def dvd_eq_mod_eq_0)
  show ?thesis
  proof (cases "r dvd unat c")
    case True
    then have "\<not> prime_nat (unat c)" using r(1,2) by (auto simp: prime_nat_def)
    with p True show ?thesis by simp
  next
    case False
    have "prime_nat (unat c)"
    proof (rule prime_natI [of _ r])
      fix e assume e: "odd e" "3 \<le> e" "e \<le> r"
      then show "\<not> e dvd unat c" using r(4) False by (cases "e = r") auto
    qed (use assms r False in auto)
    with p False show ?thesis by simp
  qed
qed

lemma next_prime_loop_spec:
  assumes "odd (unat c)"
  defines "r \<equiv> next_prime_loop c"
  shows "unat c \<le> unat r \<and> odd (unat r) \<and> (r = SIZE_MAX \<or> is_prime r)
    \<and> (\<forall>m. odd m \<longrightarrow> unat c \<le> m \<longrightarrow> m < unat r \<longrightarrow> \<not> is_prime (of_nat m))"
  using assms(1) unfolding r_def
proof (induction c rule: next_prime_loop.induct)
  case (1 c)
  show ?case
  proof (cases "SIZE_MAX \<noteq> c \<and> \<not> is_prime c")
    case True
    have "unat c \<noteq> unat SIZE_MAX" using True by (metis word_unat_eq_iff)
    moreover have "unat SIZE_MAX = 2 ^ 64 - 1" by (simp add: unsigned_minus_1_eq_mask mask_eq_exp_minus_1)
    moreover have "unat c < 2 ^ 64" using size_t_lt [of c] by simp
    ultimately have "unat c + 2 < 2 ^ 64" using "1.prems" by (cases "unat c = 2 ^ 64 - 2") auto
    then have c2: "unat (c + 2) = unat c + 2" by (simp add: unat_word_ariths)
    define r where "r = next_prime_loop (c + 2)"
    have IH: "unat c + 2 \<le> unat r" "odd (unat r)" "r = SIZE_MAX \<or> is_prime r"
      "\<And>m. odd m \<Longrightarrow> unat c + 2 \<le> m \<Longrightarrow> m < unat r \<Longrightarrow> \<not> is_prime (of_nat m)"
      using "1.IH" [OF True] "1.prems" c2 by (auto simp: r_def)
    have "\<not> is_prime (of_nat m)" if m: "odd m" "unat c \<le> m" "m < unat r" for m
    proof -
      have "m \<noteq> unat c + 1" using m(1) "1.prems" by auto
      then consider "m = unat c" | "unat c + 2 \<le> m" using m(2) by linarith
      then show ?thesis using True IH(4) m by cases auto
    qed
    moreover have "next_prime_loop c = r"
      using True by (simp add: next_prime_loop.simps [of c] r_def)
    ultimately show ?thesis using IH by auto
  next
    case False
    then have "next_prime_loop c = c" by (subst next_prime_loop.simps) auto
    with False "1.prems" show ?thesis by auto
  qed
qed

lemma unat_or_one: "unat (c OR 1 :: size_t) = (if even (unat c) then unat c + 1 else unat c)"
proof -
  have "unat (c OR 1) = unat c OR 1" by (simp only: unsigned_or_eq unsigned_1)
  then show ?thesis by (simp only: or_one_eq) simp
qed

lemma next_prime_spec:
  fixes c :: size_t
  defines "r \<equiv> next_prime c"
  shows "11 \<le> unat r \<and> unat c \<le> unat r \<and> odd (unat r) \<and> (r = SIZE_MAX \<or> is_prime r)
    \<and> (\<forall>m. odd m \<longrightarrow> max 10 (unat c) \<le> m \<longrightarrow> m < unat r \<longrightarrow> \<not> is_prime (of_nat m))"
proof -
  define c1 where "c1 = (if c < 10 then 10 else c)"
  have c1: "unat c1 = max 10 (unat c)"
    by (auto simp: c1_def word_less_nat_alt)
  have or1: "odd (unat (c1 OR 1))" "unat c1 \<le> unat (c1 OR 1)" "unat (c1 OR 1) \<le> unat c1 + 1"
    by (auto simp: unat_or_one)
  have "unat (c1 OR 1) \<noteq> 10" using or1(1) by (metis even_numeral)
  with or1(2) c1 have ge: "11 \<le> unat (c1 OR 1)" by simp
  have r: "r = next_prime_loop (c1 OR 1)"
    by (simp add: r_def next_prime_def Let_def c1_def)
  have least: "unat (c1 OR 1) \<le> m" if "odd m" "max 10 (unat c) \<le> m" for m
    using that or1 c1 by (cases "m = unat c1") (auto simp: unat_or_one)
  show ?thesis
    using next_prime_loop_spec [OF or1(1)] least ge or1(2) c1 unfolding r by fastforce
qed

lemma prime_nat_odd: "prime_nat p \<Longrightarrow> 2 < p \<Longrightarrow> odd p"
  by (auto simp: prime_nat_def)

lemma next_prime_correct:
  assumes "unat (next_prime c) \<le> prime_bound"
  shows "prime_nat (unat (next_prime c)) \<and> 11 \<le> unat (next_prime c) \<and> unat c \<le> unat (next_prime c)
    \<and> (\<forall>m. max 10 (unat c) \<le> m \<longrightarrow> m < unat (next_prime c) \<longrightarrow> \<not> prime_nat m)"
proof -
  note np = next_prime_spec [of c]
  have "next_prime c \<noteq> SIZE_MAX"
  proof
    assume "next_prime c = SIZE_MAX"
    with assms show False by (simp add: unsigned_minus_1_eq_mask mask_eq_exp_minus_1)
  qed
  with np have "is_prime (next_prime c)" by auto
  then have "prime_nat (unat (next_prime c))"
    using is_prime_correct [of "next_prime c"] np assms by auto
  moreover have "\<not> prime_nat m" if m: "max 10 (unat c) \<le> m" "m < unat (next_prime c)" for m
  proof
    assume p: "prime_nat m"
    then have odd: "odd m" using m(1) by (intro prime_nat_odd) auto
    have "m < 2 ^ 64" using m(2) size_t_lt [of "next_prime c"] by simp
    then have um: "unat (of_nat m :: size_t) = m" by (simp add: unat_of_nat)
    then have "is_prime (of_nat m)"
      using is_prime_correct [of "of_nat m"] odd m assms p by auto
    with np odd m show False by auto
  qed
  ultimately show ?thesis using np by auto
qed

lemma xalloc_oversized_nat: "xalloc_oversized n s \<longleftrightarrow> 9223372036854775807 < unat n * unat s"
proof -
  have "xalloc_oversized n s \<longleftrightarrow> int 9223372036854775807 < int (unat n * unat s)"
    unfolding xalloc_oversized_def uint_nat of_nat_mult of_nat_numeral ..
  then show ?thesis by (simp only: of_nat_less_iff)
qed

lemma xalloc_oversized_alt:
  assumes "0 < s"
  shows "xalloc_oversized n s \<longleftrightarrow> xalloc_oversized_div n s"
proof -
  have s: "0 < unat s" using assms by (simp add: word_less_nat_alt)
  have "xalloc_oversized_div n s \<longleftrightarrow> 9223372036854775807 div unat s < unat n"
    unfolding xalloc_oversized_div_def word_less_nat_alt unat_div by simp
  also have "\<dots> \<longleftrightarrow> 9223372036854775807 < unat n * unat s"
    by (rule div_less_iff_less_mult [OF s])
  finally show ?thesis unfolding xalloc_oversized_nat ..
qed

subsection \<open>Sizes computed under reasonable tuning\<close>

lemma compute_bucket_size_prime:
  assumes "compute_bucket_size c t = Inr r" and "r \<noteq> 0"
  shows "prime_nat (unat r) \<and> 11 \<le> unat r \<and> unat r < 2 ^ 60"
proof -
  obtain c' where r: "r = next_prime c'" and small: "\<not> xalloc_oversized r sizeof_ptr"
    using assms by (auto simp: compute_bucket_size_def Let_def split: if_splits option.splits)
  then have "unat r < 2 ^ 60"
    unfolding xalloc_oversized_nat sizeof_ptr_def by simp
  then show ?thesis using next_prime_correct [of c'] by (simp add: r)
qed

lemma one_minus_epsilon: "fl_sub (Fin 1) epsilon = Fin (15099494 / 16777216)"
  by code_simp

lemma tuning_reasonableD:
  assumes "tuning_reasonable t"
  shows "\<exists>g. growth_threshold t = Fin g \<and> 0 < g \<and> g < 1"
    and "\<exists>f. shrink_factor t = Fin f \<and> 0 \<le> f \<and> f \<le> 1"
    and "fl_nonneg (growth_factor t) \<and> growth_factor t \<noteq> Fin 0"
proof -
  show "\<exists>g. growth_threshold t = Fin g \<and> 0 < g \<and> g < 1"
    using assms unfolding tuning_reasonable_def one_minus_epsilon
    by (cases "growth_threshold t") (auto simp: epsilon_def)
  have "fl_nonneg (fl_add (shrink_threshold t) epsilon)"
    using assms fl_round_nonneg
    by (cases "shrink_threshold t") (auto simp: tuning_reasonable_def epsilon_def fl_nonneg_def)
  then show "\<exists>f. shrink_factor t = Fin f \<and> 0 \<le> f \<and> f \<le> 1"
    using assms by (cases "shrink_factor t") (auto simp: tuning_reasonable_def fl_nonneg_def)
  have "\<exists>y > 0. fl_add (Fin 1) epsilon = Fin y" by (rule exI [of _ "9227469 / 8388608"]) code_simp
  then show "fl_nonneg (growth_factor t) \<and> growth_factor t \<noteq> Fin 0"
    using assms by (cases "growth_factor t") (auto simp: tuning_reasonable_def fl_nonneg_def)
qed

lemma compute_bucket_size_defined:
  assumes "tuning_reasonable t"
  shows "\<exists>r. compute_bucket_size c t = Inr r"
proof -
  obtain g where g: "growth_threshold t = Fin g" "0 < g"
    using tuning_reasonableD(1) [OF assms] by blast
  have "fl_nonneg (fl_div (fl_of_size c) (Fin g))"
    using fl_of_size_nonneg [of c] g(2)
    by (auto simp: fl_nonneg_def) (metis divide_nonneg_pos fl_nonneg_def fl_round_nonneg)
  then show ?thesis
    using fl_to_size_defined g(1) by (fastforce simp: compute_bucket_size_def Let_def)
qed

lemma tuning_reasonable_default: "tuning_reasonable default_tuning"
  by code_simp

subsection \<open>Properties\<close>

text \<open>\<open>next_prime\<close> returns the least prime that is at least 10 and at least its argument, as long as
  this does not exceed the square of the largest 32-bit number (above, the square that bounds the
  trial division would wrap around).\<close>

theorem next_prime_least:
  assumes "unat (next_prime c) \<le> prime_bound"
  shows "prime_nat (unat (next_prime c)) \<and> max 10 (unat c) \<le> unat (next_prime c) \<and>
     (\<forall>m. max 10 (unat c) \<le> m \<and> prime_nat m \<longrightarrow> unat (next_prime c) \<le> m)"
  using next_prime_correct [OF assms] by (auto simp: not_less [symmetric])

theorem next_prime_least_witness:
  "prime_nat (unat (next_prime 24)) \<and> 24 \<le> unat (next_prime 24) \<and> unat (next_prime 24) = 29"
proof -
  have p: "next_prime 24 = 29" by code_simp
  then have "unat (next_prime 24) \<le> prime_bound" by simp
  from next_prime_least [OF this] p show ?thesis by simp
qed

text \<open>The trial division of \<open>is_prime\<close>, which computes the squares of the odd divisors by
  differences and modulo \<open>2 ^ 64\<close>, decides primality of every odd number from 9 on up to the square of
  the largest 32-bit number.\<close>

theorem is_prime_exact:
  assumes "odd (unat c)" and "9 \<le> unat c" and "unat c \<le> prime_bound"
  shows "is_prime c \<longleftrightarrow> prime_nat (unat c)"
  using is_prime_correct [OF assms] .

theorem is_prime_exact_witness:
  "(is_prime 10403 \<longleftrightarrow> prime_nat (unat (10403 :: size_t))) \<and> \<not> prime_nat (unat (10403 :: size_t))"
proof -
  have "\<not> is_prime 10403" by code_simp
  moreover have "is_prime 10403 \<longleftrightarrow> prime_nat (unat (10403 :: size_t))"
    by (rule is_prime_exact) simp_all
  ultimately show ?thesis by simp
qed

text \<open>With a reasonable tuning \<open>compute_bucket_size\<close> never converts an out-of-range number; it
  returns 0 or a prime from 11 on below \<open>2 ^ 60\<close>, so that an array of so many pointers does not
  exceed \<open>PTRDIFF_MAX\<close>, and for a candidate given as a number of buckets at least the candidate.\<close>

theorem compute_bucket_size_correct:
  assumes "tuning_reasonable t"
  shows "\<exists>r. compute_bucket_size cand t = Inr r \<and>
     (r = 0 \<or> prime_nat (unat r) \<and> 11 \<le> unat r \<and> int (unat r) * 8 \<le> PTRDIFF_MAX \<and>
        (is_n_buckets t \<longrightarrow> unat cand \<le> unat r))"
proof -
  obtain r where r: "compute_bucket_size cand t = Inr r"
    using compute_bucket_size_defined [OF assms] by blast
  have "prime_nat (unat r) \<and> 11 \<le> unat r \<and> int (unat r) * 8 \<le> PTRDIFF_MAX" if "r \<noteq> 0"
    using compute_bucket_size_prime [OF r that] by (simp del: of_nat_unat)
  moreover have "unat cand \<le> unat r" if "r \<noteq> 0" "is_n_buckets t"
  proof -
    have "r = next_prime cand"
      using r that by (auto simp: compute_bucket_size_def Let_def split: if_splits)
    with next_prime_correct [of cand] compute_bucket_size_prime [OF r that(1)] show ?thesis by simp
  qed
  ultimately show ?thesis using r by blast
qed

theorem compute_bucket_size_correct_witness:
  "\<exists>r. compute_bucket_size 20 default_tuning = Inr r \<and>
     (r = 0 \<or> prime_nat (unat r) \<and> 11 \<le> unat r \<and> int (unat r) * 8 \<le> PTRDIFF_MAX)"
  using compute_bucket_size_correct [OF tuning_reasonable_default, of 20] by blast

text \<open>The two implementations of \<open>xalloc_oversized\<close>, by the compiler's overflow check of the exact
  product and by division, agree for every element size but 0.\<close>

theorem xalloc_oversized_equiv:
  assumes "0 < s"
  shows "xalloc_oversized n s = xalloc_oversized_div n s"
  using xalloc_oversized_alt [OF assms] .

theorem xalloc_oversized_equiv_witness:
  "xalloc_oversized 576460752303423488 16 = xalloc_oversized_div 576460752303423488 16 \<and>
   xalloc_oversized 576460752303423488 16"
proof -
  have "xalloc_oversized 576460752303423488 16 = xalloc_oversized_div 576460752303423488 16"
    by (rule xalloc_oversized_equiv) simp
  moreover have "xalloc_oversized 576460752303423488 16" by code_simp
  ultimately show ?thesis by simp
qed

end
