(* ===== verification/CHeap.thy ===== *)
theory CHeap
  imports HashSize
begin

section \<open>The C allocator\<close>

text \<open>
  The allocator as a client sees it. Whether a request succeeds is not under the program's
  control: \<open>malloc_ok n\<close> says whether the \<open>n\<close>-th request of the run does. A successful request
  returns a block that was never handed out before (its address is the number of the request);
  \<open>free\<close> of a block that is not allocated is undefined behaviour. The heap also holds the tuning
  structures that the hash table points to and that the user may change between calls.
\<close>

record heap =
  malloc_ok :: "nat \<Rightarrow> bool"
  n_allocs :: nat
  live :: "nat set"
  tunings :: "nat \<Rightarrow> hash_tuning"

definition malloc :: "heap \<Rightarrow> nat option \<times> heap" where
  "malloc H =
     (let H' = H\<lparr>n_allocs := Suc (n_allocs H)\<rparr>
      in if malloc_ok H (n_allocs H)
         then (Some (n_allocs H), H'\<lparr>live := insert (n_allocs H) (live H)\<rparr>)
         else (None, H'))"

definition free :: "nat \<Rightarrow> heap \<Rightarrow> heap res" where
  "free a H = (if a \<in> live H then Inr (H\<lparr>live := live H - {a}\<rparr>) else Inl UndefBehav)"

fun free_list :: "nat list \<Rightarrow> heap \<Rightarrow> heap res" where
  "free_list [] H = Inr H"
| "free_list (a # as) H = bindR (free a H) (free_list as)"

text \<open>Well-formed heap: addresses still to be handed out are not in use.\<close>

definition heap_wf :: "heap \<Rightarrow> bool" where
  "heap_wf H \<longleftrightarrow> (\<forall>a \<in> live H. a < n_allocs H)"

subsection \<open>What an allocator promises\<close>

locale allocator =
  fixes alloc :: "'h \<Rightarrow> 'a option \<times> 'h"
    and dealloc :: "'a \<Rightarrow> 'h \<Rightarrow> c_fail + 'h"
    and blocks :: "'h \<Rightarrow> 'a set"
    and wf :: "'h \<Rightarrow> bool"
  assumes alloc_fresh: "wf h \<Longrightarrow> alloc h = (Some a, h') \<Longrightarrow> a \<notin> blocks h \<and> blocks h' = insert a (blocks h) \<and> wf h'"
    and alloc_fail: "wf h \<Longrightarrow> alloc h = (None, h') \<Longrightarrow> blocks h' = blocks h \<and> wf h'"
    and dealloc_ok: "wf h \<Longrightarrow> a \<in> blocks h \<Longrightarrow> \<exists>h'. dealloc a h = Inr h' \<and> blocks h' = blocks h - {a} \<and> wf h'"
    and dealloc_bad: "a \<notin> blocks h \<Longrightarrow> dealloc a h = Inl UndefBehav"
begin

lemma alloc_mono: "wf h \<Longrightarrow> alloc h = (r, h') \<Longrightarrow> blocks h \<subseteq> blocks h' \<and> wf h'"
  by (cases r) (auto dest: alloc_fresh alloc_fail)

lemma alloc_dealloc: "wf h \<Longrightarrow> alloc h = (Some a, h') \<Longrightarrow> \<exists>h''. dealloc a h' = Inr h'' \<and> blocks h'' = blocks h \<and> wf h''"
  using dealloc_ok [of h' a] alloc_fresh [of h a h'] by auto

lemma double_free: "wf h \<Longrightarrow> dealloc a h = Inr h' \<Longrightarrow> dealloc a h' = Inl UndefBehav"
  using dealloc_ok [of h a] dealloc_bad [of a h] dealloc_bad [of a h'] by (cases "a \<in> blocks h") auto

end

interpretation c_heap: allocator malloc free live heap_wf
  by unfold_locales
     (auto simp: malloc_def free_def heap_wf_def Let_def less_Suc_eq split: if_splits)

lemmas malloc_cases = c_heap.alloc_fresh c_heap.alloc_fail

text \<open>Freeing a list of distinct allocated blocks releases exactly these.\<close>

lemma free_list_ok:
  assumes "heap_wf H" and "distinct as" and "set as \<subseteq> live H"
  shows "\<exists>H'. free_list as H = Inr H' \<and> live H' = live H - set as \<and> heap_wf H'"
  using assms
proof (induction as arbitrary: H)
  case Nil
  then show ?case by simp
next
  case (Cons a as)
  obtain H1 where H1: "free a H = Inr H1" "live H1 = live H - {a}" "heap_wf H1"
    using c_heap.dealloc_ok [of H a] Cons.prems by auto
  with Cons.prems have "set as \<subseteq> live H1" by auto
  with Cons.IH [of H1] H1 Cons.prems(2) show ?case by auto
qed

lemma malloc_tunings [simp]: "malloc H = (r, H') \<Longrightarrow> tunings H' = tunings H"
  by (auto simp: malloc_def Let_def split: if_splits)

lemma free_tunings: "free a H = Inr H' \<Longrightarrow> tunings H' = tunings H"
  by (auto simp: free_def split: if_splits)

end
