(* ===== verification/HashTable.thy ===== *)
theory HashTable
  imports CHeap
begin

section \<open>The hash table (gnulib/lib/hash.c, hash.h)\<close>

text \<open>
  State and operations of the generic hash table. A bucket is the head entry, stored in the
  bucket array itself (\<open>bdata\<close>, NULL when the bucket is empty), and the chain of overflow
  entries hanging off its \<open>next\<close> pointer. An overflow entry is a heap block: the chain lists
  the address of each block with the data pointer it holds. \<open>free_entry_list\<close> is the list of
  recycled blocks. \<open>bucket_limit\<close> is the end of the list \<open>bucket\<close>. The client's functions are
  fields of the table as in the code; \<open>data_freer\<close> acts on a client state \<open>'w\<close>.
\<close>

subsection \<open>Data\<close>

type_synonym node = "nat \<times> ptr"

record hash_bucket =
  bdata :: ptr
  bnext :: "node list"

datatype tuning_ref = Default_tuning | User_tuning nat

record 'w hash_table =
  bucket :: "hash_bucket list"
  bucket_block :: nat
  n_buckets :: size_t
  n_buckets_used :: size_t
  n_entries :: size_t
  tuning :: tuning_ref
  hasher :: "ptr \<Rightarrow> size_t \<Rightarrow> size_t res"
  comparator :: "ptr \<Rightarrow> ptr \<Rightarrow> bool"
  data_freer :: "(ptr \<Rightarrow> 'w \<Rightarrow> 'w) option"
  free_entry_list :: "nat list"

definition empty_bucket :: hash_bucket where
  "empty_bucket = \<lparr>bdata = 0, bnext = []\<rparr>"

definition deref_tuning :: "heap \<Rightarrow> tuning_ref \<Rightarrow> hash_tuning" where
  "deref_tuning H r = (case r of Default_tuning \<Rightarrow> default_tuning | User_tuning a \<Rightarrow> tunings H a)"

subsection \<open>Information and lookup\<close>

definition hash_get_n_buckets :: "'w hash_table \<Rightarrow> size_t" where
  "hash_get_n_buckets table = n_buckets table"

definition hash_get_n_buckets_used :: "'w hash_table \<Rightarrow> size_t" where
  "hash_get_n_buckets_used table = n_buckets_used table"

definition hash_get_n_entries :: "'w hash_table \<Rightarrow> size_t" where
  "hash_get_n_entries table = n_entries table"

fun count_overflow :: "node list \<Rightarrow> size_t \<Rightarrow> size_t" where
  "count_overflow [] n = n"
| "count_overflow (_ # cursor) n = count_overflow cursor (n + 1)"

fun max_bucket_length_loop :: "hash_bucket list \<Rightarrow> size_t \<Rightarrow> size_t" where
  "max_bucket_length_loop [] max_bucket_length = max_bucket_length"
| "max_bucket_length_loop (b # bs) max_bucket_length =
     (if bdata b \<noteq> 0
      then let bucket_length = count_overflow (bnext b) 1
           in max_bucket_length_loop bs
                (if max_bucket_length < bucket_length then bucket_length else max_bucket_length)
      else max_bucket_length_loop bs max_bucket_length)"

definition hash_get_max_bucket_length :: "'w hash_table \<Rightarrow> size_t" where
  "hash_get_max_bucket_length table = max_bucket_length_loop (bucket table) 0"

fun table_ok_loop :: "hash_bucket list \<Rightarrow> size_t \<times> size_t \<Rightarrow> size_t \<times> size_t" where
  "table_ok_loop [] counts = counts"
| "table_ok_loop (b # bs) (buckets_used, entries) =
     (if bdata b \<noteq> 0
      then table_ok_loop bs (buckets_used + 1, count_overflow (bnext b) (entries + 1))
      else table_ok_loop bs (buckets_used, entries))"

definition hash_table_ok :: "'w hash_table \<Rightarrow> bool" where
  "hash_table_ok table =
     (let (buckets_used, entries) = table_ok_loop (bucket table) (0, 0)
      in buckets_used = n_buckets_used table \<and> entries = n_entries table)"

definition safe_hasher :: "'w hash_table \<Rightarrow> ptr \<Rightarrow> nat res" where
  "safe_hasher table key =
     bindR (hasher table key (n_buckets table)) (\<lambda>n.
       if n < n_buckets table then Inr (unat n) else Inl Abort)"

definition entry_matches :: "'w hash_table \<Rightarrow> ptr \<Rightarrow> ptr \<Rightarrow> bool" where
  "entry_matches table entry d = (entry = d \<or> comparator table entry d)"

definition bucket_chain :: "hash_bucket \<Rightarrow> ptr list" where
  "bucket_chain b = bdata b # map snd (bnext b)"

fun lookup_chain :: "'w hash_table \<Rightarrow> ptr \<Rightarrow> ptr list \<Rightarrow> ptr" where
  "lookup_chain table entry [] = 0"
| "lookup_chain table entry (d # cursor) =
     (if entry_matches table entry d then d else lookup_chain table entry cursor)"

definition hash_lookup :: "'w hash_table \<Rightarrow> ptr \<Rightarrow> ptr res" where
  "hash_lookup table entry =
     bindR (safe_hasher table entry) (\<lambda>i.
     bindR (nthR (bucket table) i) (\<lambda>b.
       if bdata b = 0 then Inr 0
       else Inr (lookup_chain table entry (bucket_chain b))))"

subsection \<open>Walking\<close>

fun first_used :: "hash_bucket list \<Rightarrow> ptr res" where
  "first_used [] = Inl Abort"
| "first_used (b # bs) = (if bdata b \<noteq> 0 then Inr (bdata b) else first_used bs)"

definition hash_get_first :: "'w hash_table \<Rightarrow> ptr res" where
  "hash_get_first table = (if n_entries table = 0 then Inr 0 else first_used (bucket table))"

fun next_in_chain :: "ptr \<Rightarrow> ptr list \<Rightarrow> ptr option" where
  "next_in_chain entry [] = None"
| "next_in_chain entry (d # cursor) =
     (if d = entry \<and> cursor \<noteq> [] then Some (hd cursor) else next_in_chain entry cursor)"

fun next_used :: "hash_bucket list \<Rightarrow> ptr" where
  "next_used [] = 0"
| "next_used (b # bs) = (if bdata b \<noteq> 0 then bdata b else next_used bs)"

definition hash_get_next :: "'w hash_table \<Rightarrow> ptr \<Rightarrow> ptr res" where
  "hash_get_next table entry =
     bindR (safe_hasher table entry) (\<lambda>i.
     bindR (nthR (bucket table) i) (\<lambda>b.
       case next_in_chain entry (bucket_chain b) of
         Some d \<Rightarrow> Inr d
       | None \<Rightarrow> Inr (next_used (drop (Suc i) (bucket table)))))"

text \<open>\<open>hash_get_entries\<close>: the result of the loops is whether the buffer was full, the counter
  and the buffer. A write past the end of the buffer is undefined.\<close>

fun get_entries_chain :: "size_t \<Rightarrow> ptr list \<Rightarrow> size_t \<Rightarrow> ptr list \<Rightarrow> (bool \<times> size_t \<times> ptr list) res" where
  "get_entries_chain buffer_size [] counter buffer = Inr (False, counter, buffer)"
| "get_entries_chain buffer_size (d # cursor) counter buffer =
     (if buffer_size \<le> counter then Inr (True, counter, buffer)
      else if unat counter < length buffer
      then get_entries_chain buffer_size cursor (counter + 1) (buffer[unat counter := d])
      else Inl UndefBehav)"

fun get_entries_loop :: "size_t \<Rightarrow> hash_bucket list \<Rightarrow> size_t \<Rightarrow> ptr list \<Rightarrow> (size_t \<times> ptr list) res" where
  "get_entries_loop buffer_size [] counter buffer = Inr (counter, buffer)"
| "get_entries_loop buffer_size (b # bs) counter buffer =
     (if bdata b \<noteq> 0
      then bindR (get_entries_chain buffer_size (bucket_chain b) counter buffer)
             (\<lambda>(full, counter, buffer).
               if full then Inr (counter, buffer) else get_entries_loop buffer_size bs counter buffer)
      else get_entries_loop buffer_size bs counter buffer)"

definition hash_get_entries :: "'w hash_table \<Rightarrow> ptr list \<Rightarrow> size_t \<Rightarrow> (size_t \<times> ptr list) res" where
  "hash_get_entries table buffer buffer_size = get_entries_loop buffer_size (bucket table) 0 buffer"

fun for_each_chain :: "(ptr \<Rightarrow> 'd \<Rightarrow> bool \<times> 'd) \<Rightarrow> ptr list \<Rightarrow> size_t \<Rightarrow> 'd \<Rightarrow> bool \<times> size_t \<times> 'd" where
  "for_each_chain processor [] counter pd = (False, counter, pd)"
| "for_each_chain processor (d # cursor) counter pd =
     (let (continue, pd) = processor d pd
      in if \<not> continue then (True, counter, pd)
         else for_each_chain processor cursor (counter + 1) pd)"

fun for_each_loop :: "(ptr \<Rightarrow> 'd \<Rightarrow> bool \<times> 'd) \<Rightarrow> hash_bucket list \<Rightarrow> size_t \<Rightarrow> 'd \<Rightarrow> size_t \<times> 'd" where
  "for_each_loop processor [] counter pd = (counter, pd)"
| "for_each_loop processor (b # bs) counter pd =
     (if bdata b \<noteq> 0
      then let (stopped, counter, pd) = for_each_chain processor (bucket_chain b) counter pd
           in if stopped then (counter, pd) else for_each_loop processor bs counter pd
      else for_each_loop processor bs counter pd)"

definition hash_do_for_each :: "'w hash_table \<Rightarrow> (ptr \<Rightarrow> 'd \<Rightarrow> bool \<times> 'd) \<Rightarrow> 'd \<Rightarrow> size_t \<times> 'd" where
  "hash_do_for_each table processor processor_data = for_each_loop processor (bucket table) 0 processor_data"

subsection \<open>Allocation and clean-up\<close>

text \<open>\<open>check_tuning\<close> compares the pointer with that of the defaults first.\<close>

definition check_tuning :: "heap \<Rightarrow> 'w hash_table \<Rightarrow> bool \<times> 'w hash_table" where
  "check_tuning H table =
     (if tuning table = Default_tuning then (True, table)
      else if tuning_reasonable (deref_tuning H (tuning table)) then (True, table)
      else (False, table\<lparr>tuning := Default_tuning\<rparr>))"

text \<open>\<open>hash_initialize\<close> returns the address of the table structure and its contents, or \<open>None\<close>
  for NULL.\<close>

definition hash_initialize ::
  "size_t \<Rightarrow> tuning_ref option \<Rightarrow> (ptr \<Rightarrow> size_t \<Rightarrow> size_t res) option \<Rightarrow> (ptr \<Rightarrow> ptr \<Rightarrow> bool) option \<Rightarrow>
   (ptr \<Rightarrow> 'w \<Rightarrow> 'w) option \<Rightarrow> heap \<Rightarrow> ((nat \<times> 'w hash_table) option \<times> heap) res" where
  "hash_initialize candidate tun hshr cmp freer H =
     (let hshr = (case hshr of None \<Rightarrow> raw_hasher | Some h \<Rightarrow> h);
          cmp = (case cmp of None \<Rightarrow> raw_comparator | Some c \<Rightarrow> c)
      in case malloc H of
           (None, H) \<Rightarrow> Inr (None, H)
         | (Some addr, H) \<Rightarrow>
             let fail = (\<lambda>H. bindR (free addr H) (\<lambda>H. Inr (None, H)));
                 tun = (case tun of None \<Rightarrow> Default_tuning | Some r \<Rightarrow> r);
                 table = \<lparr>bucket = [], bucket_block = 0, n_buckets = 0, n_buckets_used = 0, n_entries = 0,
                          tuning = tun, hasher = hshr, comparator = cmp, data_freer = freer,
                          free_entry_list = []\<rparr>;
                 (ok, table) = check_tuning H table
             in if \<not> ok then fail H
                else bindR (compute_bucket_size candidate (deref_tuning H tun)) (\<lambda>n.
                  if n = 0 then fail H
                  else case malloc H of
                         (None, H) \<Rightarrow> fail H
                       | (Some block, H) \<Rightarrow>
                           Inr (Some (addr, table\<lparr>n_buckets := n, bucket := replicate (unat n) empty_bucket,
                                                 bucket_block := block\<rparr>), H)))"

definition call_freer :: "'w hash_table \<Rightarrow> ptr \<Rightarrow> 'w \<Rightarrow> 'w" where
  "call_freer table d w = (case data_freer table of None \<Rightarrow> w | Some f \<Rightarrow> f d w)"

fun clear_overflow :: "'w hash_table \<Rightarrow> node list \<Rightarrow> nat list \<Rightarrow> 'w \<Rightarrow> nat list \<times> 'w" where
  "clear_overflow table [] free_entries w = (free_entries, w)"
| "clear_overflow table ((a, d) # cursor) free_entries w =
     clear_overflow table cursor (a # free_entries) (call_freer table d w)"

fun clear_loop :: "'w hash_table \<Rightarrow> hash_bucket list \<Rightarrow> nat list \<Rightarrow> 'w \<Rightarrow> hash_bucket list \<times> nat list \<times> 'w" where
  "clear_loop table [] free_entries w = ([], free_entries, w)"
| "clear_loop table (b # bs) free_entries w =
     (if bdata b \<noteq> 0
      then let (free_entries, w) = clear_overflow table (bnext b) free_entries w;
               w = call_freer table (bdata b) w;
               (bs, free_entries, w) = clear_loop table bs free_entries w
           in (\<lparr>bdata = 0, bnext = []\<rparr> # bs, free_entries, w)
      else let (bs, free_entries, w) = clear_loop table bs free_entries w
           in (b # bs, free_entries, w))"

definition hash_clear :: "'w hash_table \<Rightarrow> 'w \<Rightarrow> 'w hash_table \<times> 'w" where
  "hash_clear table w =
     (let (bs, free_entries, w) = clear_loop table (bucket table) (free_entry_list table) w
      in (table\<lparr>bucket := bs, free_entry_list := free_entries, n_buckets_used := 0, n_entries := 0\<rparr>, w))"

fun free_data_loop :: "'w hash_table \<Rightarrow> hash_bucket list \<Rightarrow> 'w \<Rightarrow> 'w" where
  "free_data_loop table [] w = w"
| "free_data_loop table (b # bs) w =
     free_data_loop table bs
       (if bdata b \<noteq> 0 then fold (call_freer table) (bucket_chain b) w else w)"

fun free_overflow_loop :: "hash_bucket list \<Rightarrow> heap \<Rightarrow> heap res" where
  "free_overflow_loop [] H = Inr H"
| "free_overflow_loop (b # bs) H = bindR (free_list (map fst (bnext b)) H) (free_overflow_loop bs)"

definition hash_free :: "nat \<Rightarrow> 'w hash_table \<Rightarrow> 'w \<Rightarrow> heap \<Rightarrow> ('w \<times> heap) res" where
  "hash_free addr table w H =
     (let w = (if data_freer table \<noteq> None \<and> n_entries table \<noteq> 0
               then free_data_loop table (bucket table) w else w)
      in bindR (free_overflow_loop (bucket table) H) (\<lambda>H.
         bindR (free_list (free_entry_list table) H) (\<lambda>H.
         bindR (free (bucket_block table) H) (\<lambda>H.
         bindR (free addr H) (\<lambda>H. Inr (w, H))))))"

subsection \<open>Insertion and deletion\<close>

definition allocate_entry :: "'w hash_table \<Rightarrow> heap \<Rightarrow> nat option \<times> 'w hash_table \<times> heap" where
  "allocate_entry table H =
     (case free_entry_list table of
        new # rest \<Rightarrow> (Some new, table\<lparr>free_entry_list := rest\<rparr>, H)
      | [] \<Rightarrow> let (new, H) = malloc H in (new, table, H))"

definition free_entry :: "'w hash_table \<Rightarrow> nat \<Rightarrow> 'w hash_table" where
  "free_entry table a = table\<lparr>free_entry_list := a # free_entry_list table\<rparr>"

definition set_bucket :: "'w hash_table \<Rightarrow> nat \<Rightarrow> hash_bucket \<Rightarrow> 'w hash_table" where
  "set_bucket table i b = table\<lparr>bucket := (bucket table)[i := b]\<rparr>"

text \<open>The scan of the overflow chain: the entries before the match, the match, the rest.\<close>

fun scan_overflow :: "'w hash_table \<Rightarrow> ptr \<Rightarrow> node list \<Rightarrow> node list \<Rightarrow> (node list \<times> node \<times> node list) option" where
  "scan_overflow table entry before [] = None"
| "scan_overflow table entry before ((a, d) # cursor) =
     (if entry_matches table entry d then Some (before, (a, d), cursor)
      else scan_overflow table entry (before @ [(a, d)]) cursor)"

text \<open>\<open>hash_find_entry\<close> returns the matching data (NULL if none), the selected bucket and the
  table, from which the match is unlinked when \<open>delete\<close> is set.\<close>

definition hash_find_entry :: "'w hash_table \<Rightarrow> ptr \<Rightarrow> bool \<Rightarrow> (ptr \<times> nat \<times> 'w hash_table) res" where
  "hash_find_entry table entry delete =
     bindR (safe_hasher table entry) (\<lambda>i.
     bindR (nthR (bucket table) i) (\<lambda>b.
       if bdata b = 0 then Inr (0, i, table)
       else if entry_matches table entry (bdata b)
       then Inr (bdata b, i,
              if delete
              then (case bnext b of
                      (a, d) # rest \<Rightarrow> free_entry (set_bucket table i \<lparr>bdata = d, bnext = rest\<rparr>) a
                    | [] \<Rightarrow> set_bucket table i (b\<lparr>bdata := 0\<rparr>))
              else table)
       else (case scan_overflow table entry [] (bnext b) of
               None \<Rightarrow> Inr (0, i, table)
             | Some (before, (a, d), rest) \<Rightarrow>
                 Inr (d, i, if delete
                            then free_entry (set_bucket table i (b\<lparr>bnext := before @ rest\<rparr>)) a
                            else table))))"

text \<open>\<open>transfer_entries\<close>: the overflow entries of one bucket, then its head, bucket by bucket.\<close>

fun transfer_overflow :: "'w hash_table \<Rightarrow> node list \<Rightarrow> 'w hash_table res" where
  "transfer_overflow dst [] = Inr dst"
| "transfer_overflow dst ((a, d) # cursor) =
     bindR (safe_hasher dst d) (\<lambda>i.
     bindR (nthR (bucket dst) i) (\<lambda>new_bucket.
       if bdata new_bucket \<noteq> 0
       then transfer_overflow (set_bucket dst i (new_bucket\<lparr>bnext := (a, d) # bnext new_bucket\<rparr>)) cursor
       else transfer_overflow
              (free_entry (set_bucket dst i (new_bucket\<lparr>bdata := d\<rparr>)
                             \<lparr>n_buckets_used := n_buckets_used dst + 1\<rparr>) a) cursor))"

definition transfer_head :: "'w hash_table \<Rightarrow> ptr \<Rightarrow> heap \<Rightarrow> (bool \<times> 'w hash_table \<times> heap) res" where
  "transfer_head dst d H =
     bindR (safe_hasher dst d) (\<lambda>i.
     bindR (nthR (bucket dst) i) (\<lambda>new_bucket.
       if bdata new_bucket \<noteq> 0
       then (case allocate_entry dst H of
               (None, dst, H) \<Rightarrow> Inr (False, dst, H)
             | (Some a, dst, H) \<Rightarrow>
                 Inr (True, set_bucket dst i (new_bucket\<lparr>bnext := (a, d) # bnext new_bucket\<rparr>), H))
       else Inr (True, set_bucket dst i (new_bucket\<lparr>bdata := d\<rparr>)
                         \<lparr>n_buckets_used := n_buckets_used dst + 1\<rparr>, H)))"

text \<open>One iteration of the loop over the source buckets.\<close>

definition transfer_bucket ::
  "bool \<Rightarrow> nat \<Rightarrow> 'w hash_table \<Rightarrow> 'w hash_table \<Rightarrow> heap \<Rightarrow> (bool \<times> 'w hash_table \<times> 'w hash_table \<times> heap) res" where
  "transfer_bucket safe j dst src H =
     bindR (nthR (bucket src) j) (\<lambda>b.
       if bdata b = 0 then Inr (True, dst, src, H)
       else bindR (transfer_overflow dst (bnext b)) (\<lambda>dst.
         let src = set_bucket src j (b\<lparr>bnext := []\<rparr>)
         in if safe then Inr (True, dst, src, H)
            else bindR (transfer_head dst (bdata b) H) (\<lambda>(ok, dst, H).
                   if \<not> ok then Inr (False, dst, src, H)
                   else Inr (True, dst,
                             set_bucket src j \<lparr>bdata = 0, bnext = []\<rparr>
                               \<lparr>n_buckets_used := n_buckets_used src - 1\<rparr>, H))))"

fun transfer_loop ::
  "bool \<Rightarrow> nat list \<Rightarrow> 'w hash_table \<Rightarrow> 'w hash_table \<Rightarrow> heap \<Rightarrow> (bool \<times> 'w hash_table \<times> 'w hash_table \<times> heap) res" where
  "transfer_loop safe [] dst src H = Inr (True, dst, src, H)"
| "transfer_loop safe (j # js) dst src H =
     bindR (transfer_bucket safe j dst src H) (\<lambda>(ok, dst, src, H).
       if ok then transfer_loop safe js dst src H else Inr (False, dst, src, H))"

definition transfer_entries ::
  "'w hash_table \<Rightarrow> 'w hash_table \<Rightarrow> bool \<Rightarrow> heap \<Rightarrow> (bool \<times> 'w hash_table \<times> 'w hash_table \<times> heap) res" where
  "transfer_entries dst src safe H = transfer_loop safe [0..<length (bucket src)] dst src H"

definition hash_rehash :: "'w hash_table \<Rightarrow> size_t \<Rightarrow> heap \<Rightarrow> (bool \<times> 'w hash_table \<times> heap) res" where
  "hash_rehash table candidate H =
     bindR (compute_bucket_size candidate (deref_tuning H (tuning table))) (\<lambda>new_size.
       if new_size = 0 then Inr (False, table, H)
       else if new_size = n_buckets table then Inr (True, table, H)
       else case malloc H of
              (None, H) \<Rightarrow> Inr (False, table, H)
            | (Some block, H) \<Rightarrow>
                let new_table = \<lparr>bucket = replicate (unat new_size) empty_bucket, bucket_block = block,
                      n_buckets = new_size, n_buckets_used = 0, n_entries = 0,
                      tuning = tuning table, hasher = hasher table, comparator = comparator table,
                      data_freer = data_freer table, free_entry_list = free_entry_list table\<rparr>
                in bindR (transfer_entries new_table table False H) (\<lambda>(ok, new_table, table, H).
                     if ok
                     then bindR (free (bucket_block table) H) (\<lambda>H.
                            Inr (True, table\<lparr>bucket := bucket new_table, bucket_block := bucket_block new_table,
                                  n_buckets := n_buckets new_table, n_buckets_used := n_buckets_used new_table,
                                  free_entry_list := free_entry_list new_table\<rparr>, H))
                     else let table = table\<lparr>free_entry_list := free_entry_list new_table\<rparr>
                          in bindR (transfer_entries table new_table True H) (\<lambda>(ok, table, new_table, H).
                               if \<not> ok then Inl Abort
                               else bindR (transfer_entries table new_table False H) (\<lambda>(ok, table, new_table, H).
                                      if \<not> ok then Inl Abort
                                      else bindR (free (bucket_block new_table) H) (\<lambda>H.
                                             Inr (False, table, H))))))"

text \<open>The float comparisons that trigger growing and shrinking.\<close>

definition above_growth_threshold :: "heap \<Rightarrow> 'w hash_table \<Rightarrow> bool" where
  "above_growth_threshold H table =
     fl_less (fl_mul (growth_threshold (deref_tuning H (tuning table))) (fl_of_size (n_buckets table)))
             (fl_of_size (n_buckets_used table))"

definition below_shrink_threshold :: "heap \<Rightarrow> 'w hash_table \<Rightarrow> bool" where
  "below_shrink_threshold H table =
     fl_less (fl_of_size (n_buckets_used table))
             (fl_mul (shrink_threshold (deref_tuning H (tuning table))) (fl_of_size (n_buckets table)))"

definition growth_candidate :: "heap \<Rightarrow> 'w hash_table \<Rightarrow> cfloat" where
  "growth_candidate H table =
     (let tun = deref_tuning H (tuning table)
      in if is_n_buckets tun then fl_mul (fl_of_size (n_buckets table)) (growth_factor tun)
         else fl_mul (fl_mul (fl_of_size (n_buckets table)) (growth_factor tun)) (growth_threshold tun))"

definition shrink_candidate :: "heap \<Rightarrow> 'w hash_table \<Rightarrow> cfloat" where
  "shrink_candidate H table =
     (let tun = deref_tuning H (tuning table)
      in if is_n_buckets tun then fl_mul (fl_of_size (n_buckets table)) (shrink_factor tun)
         else fl_mul (fl_mul (fl_of_size (n_buckets table)) (shrink_factor tun)) (growth_threshold tun))"

text \<open>The last part of \<open>hash_insert_if_absent\<close>, after the bucket has been selected.\<close>

definition insert_at :: "'w hash_table \<Rightarrow> nat \<Rightarrow> ptr \<Rightarrow> heap \<Rightarrow> (int \<times> ptr option \<times> 'w hash_table \<times> heap) res" where
  "insert_at table i entry H =
     bindR (nthR (bucket table) i) (\<lambda>b.
       if bdata b \<noteq> 0
       then (case allocate_entry table H of
               (None, table, H) \<Rightarrow> Inr (- 1, None, table, H)
             | (Some a, table, H) \<Rightarrow>
                 Inr (1, None, set_bucket table i (b\<lparr>bnext := (a, entry) # bnext b\<rparr>)
                                 \<lparr>n_entries := n_entries table + 1\<rparr>, H))
       else Inr (1, None, set_bucket table i (b\<lparr>bdata := entry\<rparr>)
                            \<lparr>n_entries := n_entries table + 1, n_buckets_used := n_buckets_used table + 1\<rparr>, H))"

text \<open>Result: the return code (-1, 0, 1) and what is stored through \<open>matched_ent\<close>.\<close>

definition hash_insert_if_absent ::
  "'w hash_table \<Rightarrow> ptr \<Rightarrow> heap \<Rightarrow> (int \<times> ptr option \<times> 'w hash_table \<times> heap) res" where
  "hash_insert_if_absent table entry H =
     (if entry = 0 then Inl Abort
      else bindR (hash_find_entry table entry False) (\<lambda>(d, i, table).
        if d \<noteq> 0 then Inr (0, Some d, table, H)
        else if above_growth_threshold H table
        then let (_, table) = check_tuning H table
             in if above_growth_threshold H table
                then let candidate = growth_candidate H table
                     in if fl_le (fl_of_size SIZE_MAX) candidate then Inr (- 1, None, table, H)
                        else (case fl_to_size candidate of
                                None \<Rightarrow> Inl UndefBehav
                              | Some candidate \<Rightarrow>
                                  bindR (hash_rehash table candidate H) (\<lambda>(ok, table, H).
                                    if \<not> ok then Inr (- 1, None, table, H)
                                    else bindR (hash_find_entry table entry False) (\<lambda>(d, i, table).
                                           if d \<noteq> 0 then Inl Abort else insert_at table i entry H)))
                else insert_at table i entry H
        else insert_at table i entry H))"

definition hash_insert :: "'w hash_table \<Rightarrow> ptr \<Rightarrow> heap \<Rightarrow> (ptr \<times> 'w hash_table \<times> heap) res" where
  "hash_insert table entry H =
     bindR (hash_insert_if_absent table entry H) (\<lambda>(err, matched_ent, table, H).
       if err = - 1 then Inr (0, table, H)
       else if err = 0
       then (case matched_ent of Some m \<Rightarrow> Inr (m, table, H) | None \<Rightarrow> Inl UndefBehav)
       else Inr (entry, table, H))"

definition hash_remove :: "'w hash_table \<Rightarrow> ptr \<Rightarrow> heap \<Rightarrow> (ptr \<times> 'w hash_table \<times> heap) res" where
  "hash_remove table entry H =
     bindR (hash_find_entry table entry True) (\<lambda>(d, i, table).
       if d = 0 then Inr (0, table, H)
       else let table = table\<lparr>n_entries := n_entries table - 1\<rparr>
            in bindR (nthR (bucket table) i) (\<lambda>b.
                 if bdata b \<noteq> 0 then Inr (d, table, H)
                 else let table = table\<lparr>n_buckets_used := n_buckets_used table - 1\<rparr>
                      in if \<not> below_shrink_threshold H table then Inr (d, table, H)
                         else let (_, table) = check_tuning H table
                              in if \<not> below_shrink_threshold H table then Inr (d, table, H)
                                 else (case fl_to_size (shrink_candidate H table) of
                                         None \<Rightarrow> Inl UndefBehav
                                       | Some candidate \<Rightarrow>
                                           bindR (hash_rehash table candidate H) (\<lambda>(ok, table, H).
                                             if ok then Inr (d, table, H)
                                             else bindR (free_list (free_entry_list table) H) (\<lambda>H.
                                                    Inr (d, table\<lparr>free_entry_list := []\<rparr>, H))))))"

definition hash_delete :: "'w hash_table \<Rightarrow> ptr \<Rightarrow> heap \<Rightarrow> (ptr \<times> 'w hash_table \<times> heap) res" where
  "hash_delete table entry H = hash_remove table entry H"

end
