(* ===== verification/HashInv.thy ===== *)
theory HashInv
  imports HashTable
begin

section \<open>Well-formed hash tables\<close>

text \<open>
  The structural invariant of a table, the multisets a table is measured by (entries, overflow
  blocks, recycled blocks), the ownership of heap blocks, and the laws a client's hasher and
  comparator must satisfy, as locales. The hashers of the package are instances.
\<close>

subsection \<open>Laws of the client's functions\<close>

locale hash_range =
  fixes h :: "ptr \<Rightarrow> size_t \<Rightarrow> size_t res"
  assumes in_range: "x \<noteq> 0 \<Longrightarrow> n \<noteq> 0 \<Longrightarrow> \<exists>v < n. h x n = Inr v"
begin

definition slot :: "size_t \<Rightarrow> ptr \<Rightarrow> nat" where
  "slot n x = (case h x n of Inr v \<Rightarrow> unat v | Inl _ \<Rightarrow> 0)"

lemma slot_less: "x \<noteq> 0 \<Longrightarrow> n \<noteq> 0 \<Longrightarrow> slot n x < unat n"
  using in_range [of x n] by (auto simp: slot_def word_less_nat_alt)

lemma hash_eq_slot: "x \<noteq> 0 \<Longrightarrow> n \<noteq> 0 \<Longrightarrow> h x n = Inr (of_nat (slot n x))"
  using in_range [of x n] by (auto simp: slot_def)

lemma safe_hasher_slot:
  "hasher t = h \<Longrightarrow> x \<noteq> 0 \<Longrightarrow> n_buckets t \<noteq> 0 \<Longrightarrow> safe_hasher t x = Inr (slot (n_buckets t) x)"
  using in_range [of x "n_buckets t"] by (auto simp: safe_hasher_def slot_def)

lemma slot_eqI: "x \<noteq> 0 \<Longrightarrow> n \<noteq> 0 \<Longrightarrow> i < unat n \<Longrightarrow> h x n = Inr (of_nat i) \<Longrightarrow> slot n x = i"
  using size_t_lt [of n] by (simp add: slot_def unat_of_nat)

end

locale hash_client = hash_range h
  for h :: "ptr \<Rightarrow> size_t \<Rightarrow> size_t res" +
  fixes c :: "ptr \<Rightarrow> ptr \<Rightarrow> bool"
  assumes cmp_sym: "c x y \<Longrightarrow> c y x"
    and cmp_trans: "c x y \<Longrightarrow> c y z \<Longrightarrow> c x z"
    and cmp_hash: "c x y \<Longrightarrow> h x n = h y n"
begin

definition same :: "ptr \<Rightarrow> ptr \<Rightarrow> bool" where
  "same x y \<longleftrightarrow> x = y \<or> c x y"

lemma same_refl [simp]: "same x x"
  by (simp add: same_def)

lemma same_sym: "same x y \<Longrightarrow> same y x"
  by (auto simp: same_def dest: cmp_sym)

lemma same_trans: "same x y \<Longrightarrow> same y z \<Longrightarrow> same x z"
  by (auto simp: same_def dest: cmp_trans)

lemma same_slot: "same x y \<Longrightarrow> slot n x = slot n y"
  using cmp_hash [of x y n] by (auto simp: same_def slot_def)

lemma entry_matches_same: "comparator t = c \<Longrightarrow> entry_matches t x y \<longleftrightarrow> same x y"
  by (simp add: entry_matches_def same_def)

end

lemma word_mod_less: "n \<noteq> 0 \<Longrightarrow> v mod n < (n :: size_t)"
  by (simp add: word_less_nat_alt unat_mod word_unat_eq_iff)

lemma raw_hasher_eq: "raw_hasher x n = (if n = 0 then Inl UndefBehav else Inr (word_rotr 3 x mod n))"
  by (simp add: raw_hasher_def rot_eqs)

interpretation raw: hash_client raw_hasher raw_comparator
  by unfold_locales (auto simp: raw_hasher_eq raw_comparator_def word_mod_less)

lemma hash_string_loop_range:
  "n \<noteq> 0 \<Longrightarrow> v < n \<Longrightarrow> \<exists>r < n. hash_string_loop n v s = Inr r"
  by (induction n v s rule: hash_string_loop.induct) (auto simp: word_mod_less)

lemma hash_string_range: "n \<noteq> 0 \<Longrightarrow> \<exists>r < n. hash_string s n = Inr r"
  unfolding hash_string_def by (rule hash_string_loop_range) (auto simp: word_neq_0_conv)

lemma hash_string_diff_loop_ok: "\<exists>r. hash_string_diff_loop v s = Inr r"
  by (induction v s rule: hash_string_diff_loop.induct) (auto simp: rot_eqs)

lemma hash_string_diff_range: "n \<noteq> 0 \<Longrightarrow> \<exists>r < n. hash_string_diff s n = Inr r"
  using hash_string_diff_loop_ok [of 0 s] by (auto simp: hash_string_diff_def word_mod_less)

text \<open>Both implementations of \<open>hash_string\<close> (the default one and the one compiled with \<open>USE_DIFF_HASH\<close>) return a
  slot below the number of buckets for every string, so that \<open>safe_hasher\<close> does not abort.\<close>

theorem hash_string_in_range:
  assumes "n \<noteq> 0"
  shows "(\<exists>r. hash_string s n = Inr r \<and> r < n) \<and> (\<exists>r. hash_string_diff s n = Inr r \<and> r < n)"
  using hash_string_range [OF assms, of s] hash_string_diff_range [OF assms, of s] by auto

theorem hash_string_in_range_witness:
  "(\<exists>r. hash_string ''centos'' 11 = Inr r \<and> r < 11) \<and> (\<exists>r. hash_string_diff ''centos'' 11 = Inr r \<and> r < 11)"
  by (rule hash_string_in_range) simp

text \<open>The usual client: entries are pointers to strings, hashed with \<open>hash_string\<close> and compared
  as strings; \<open>mem\<close> is the string a pointer points to.\<close>

definition string_hasher :: "(ptr \<Rightarrow> string) \<Rightarrow> ptr \<Rightarrow> size_t \<Rightarrow> size_t res" where
  "string_hasher mem p n = hash_string (mem p) n"

definition string_comparator :: "(ptr \<Rightarrow> string) \<Rightarrow> ptr \<Rightarrow> ptr \<Rightarrow> bool" where
  "string_comparator mem p q = (mem p = mem q)"

interpretation str: hash_client "string_hasher mem" "string_comparator mem" for mem
  by unfold_locales (auto simp: string_hasher_def string_comparator_def hash_string_range)

subsection \<open>Contents of a table\<close>

definition used :: "hash_bucket \<Rightarrow> bool" where
  "used b \<longleftrightarrow> bdata b \<noteq> 0"

definition bucket_entries :: "hash_bucket \<Rightarrow> ptr list" where
  "bucket_entries b = (if bdata b = 0 then [] else bucket_chain b)"

definition entries :: "'w hash_table \<Rightarrow> ptr list" where
  "entries t = concat (map bucket_entries (bucket t))"

definition overflow :: "'w hash_table \<Rightarrow> nat list" where
  "overflow t = concat (map (\<lambda>b. map fst (bnext b)) (bucket t))"

abbreviation Es :: "'w hash_table \<Rightarrow> ptr multiset" where "Es t \<equiv> mset (entries t)"
abbreviation Ov :: "'w hash_table \<Rightarrow> nat multiset" where "Ov t \<equiv> mset (overflow t)"
abbreviation Fr :: "'w hash_table \<Rightarrow> nat multiset" where "Fr t \<equiv> mset (free_entry_list t)"

definition bucket_wf :: "(ptr \<Rightarrow> size_t \<Rightarrow> size_t res) \<Rightarrow> size_t \<Rightarrow> nat \<Rightarrow> hash_bucket \<Rightarrow> bool" where
  "bucket_wf h n i b \<longleftrightarrow> (bdata b = 0 \<longrightarrow> bnext b = []) \<and>
     (\<forall>d \<in> set (bucket_entries b). d \<noteq> 0 \<and> h d n = Inr (of_nat i))"

definition table_wf :: "'w hash_table \<Rightarrow> bool" where
  "table_wf t \<longleftrightarrow> length (bucket t) = unat (n_buckets t) \<and> n_buckets t \<noteq> 0 \<and>
     (\<forall>i < length (bucket t). bucket_wf (hasher t) (n_buckets t) i (bucket t ! i)) \<and>
     unat (n_buckets_used t) = length (filter used (bucket t))"

lemma bucket_wf_empty [simp]: "bucket_wf h n i empty_bucket"
  by (simp add: bucket_wf_def empty_bucket_def bucket_entries_def)

lemma table_wfD:
  assumes "table_wf t"
  shows "length (bucket t) = unat (n_buckets t)" and "n_buckets t \<noteq> 0"
    and "i < length (bucket t) \<Longrightarrow> bucket_wf (hasher t) (n_buckets t) i (bucket t ! i)"
    and "unat (n_buckets_used t) = length (filter used (bucket t))"
  using assms by (auto simp: table_wf_def)

text \<open>Fields that moving entries about does not change.\<close>

definition same_config :: "'w hash_table \<Rightarrow> 'w hash_table \<Rightarrow> bool" where
  "same_config t t' \<longleftrightarrow> bucket_block t' = bucket_block t \<and> n_buckets t' = n_buckets t \<and>
     n_entries t' = n_entries t \<and> tuning t' = tuning t \<and> hasher t' = hasher t \<and>
     comparator t' = comparator t \<and> data_freer t' = data_freer t"

lemma same_config_refl [simp]: "same_config t t"
  by (simp add: same_config_def)

lemma same_config_trans: "same_config t u \<Longrightarrow> same_config u v \<Longrightarrow> same_config t v"
  by (simp add: same_config_def)

lemma same_configD:
  "same_config t t' \<Longrightarrow> n_buckets t' = n_buckets t"
  "same_config t t' \<Longrightarrow> hasher t' = hasher t"
  "same_config t t' \<Longrightarrow> comparator t' = comparator t"
  by (simp_all add: same_config_def)

subsection \<open>Replacing one bucket\<close>

lemma entries_set_bucket:
  "i < length (bucket t) \<Longrightarrow>
   Es (set_bucket t i b) + mset (bucket_entries (bucket t ! i)) = Es t + mset (bucket_entries b)"
  unfolding entries_def set_bucket_def by (simp add: mset_concat_map_update)

lemma overflow_set_bucket:
  "i < length (bucket t) \<Longrightarrow>
   Ov (set_bucket t i b) + mset (map fst (bnext (bucket t ! i))) = Ov t + mset (map fst (bnext b))"
  using mset_concat_map_update [of i "bucket t" "\<lambda>b. map fst (bnext b)" b]
  by (simp add: overflow_def set_bucket_def)

lemma set_bucket_simps [simp]:
  "free_entry_list (set_bucket t i b) = free_entry_list t"
  "n_buckets (set_bucket t i b) = n_buckets t"
  "n_buckets_used (set_bucket t i b) = n_buckets_used t"
  "n_entries (set_bucket t i b) = n_entries t"
  "hasher (set_bucket t i b) = hasher t"
  "comparator (set_bucket t i b) = comparator t"
  "tuning (set_bucket t i b) = tuning t"
  "data_freer (set_bucket t i b) = data_freer t"
  "bucket_block (set_bucket t i b) = bucket_block t"
  "bucket (set_bucket t i b) = (bucket t)[i := b]"
  "same_config t (set_bucket t i b)"
  by (simp_all add: set_bucket_def same_config_def)

lemma entries_update_simps [simp]:
  "entries (t\<lparr>n_buckets_used := x\<rparr>) = entries t" "overflow (t\<lparr>n_buckets_used := x\<rparr>) = overflow t"
  "entries (t\<lparr>n_entries := x\<rparr>) = entries t" "overflow (t\<lparr>n_entries := x\<rparr>) = overflow t"
  "entries (t\<lparr>free_entry_list := fl\<rparr>) = entries t" "overflow (t\<lparr>free_entry_list := fl\<rparr>) = overflow t"
  "entries (t\<lparr>tuning := tn\<rparr>) = entries t" "overflow (t\<lparr>tuning := tn\<rparr>) = overflow t"
  by (simp_all add: entries_def overflow_def)

lemma table_wf_update_simps [simp]:
  "table_wf (t\<lparr>n_entries := x\<rparr>) = table_wf t"
  "table_wf (t\<lparr>free_entry_list := fl\<rparr>) = table_wf t"
  "table_wf (t\<lparr>tuning := tn\<rparr>) = table_wf t"
  by (simp_all add: table_wf_def)

lemma table_wf_set_bucket:
  assumes "table_wf t" and "i < length (bucket t)" and "bucket_wf (hasher t) (n_buckets t) i b"
  shows "used b = used (bucket t ! i) \<Longrightarrow> table_wf (set_bucket t i b)"
    and "used b \<Longrightarrow> \<not> used (bucket t ! i) \<Longrightarrow> table_wf (set_bucket t i b\<lparr>n_buckets_used := n_buckets_used t + 1\<rparr>)"
    and "\<not> used b \<Longrightarrow> used (bucket t ! i) \<Longrightarrow> table_wf (set_bucket t i b\<lparr>n_buckets_used := n_buckets_used t - 1\<rparr>)"
proof -
  note wf = table_wfD [OF assms(1)]
  let ?bs = "(bucket t)[i := b]"
  have all: "\<forall>j < length ?bs. bucket_wf (hasher t) (n_buckets t) j (?bs ! j)"
    by (rule all_update) (use wf(3) assms(3) in auto)
  have cnt: "length (filter used ?bs) + (if used (bucket t ! i) then 1 else 0)
      = unat (n_buckets_used t) + (if used b then 1 else 0)"
    using length_filter_update [OF assms(2), of used b] wf(4) by simp
  have bound: "length (filter used ?bs) < 2 ^ 64"
    using length_filter_le [of used ?bs] size_t_lt [of "n_buckets t"] wf(1) by simp
  show "table_wf (set_bucket t i b)" if "used b = used (bucket t ! i)"
    using wf all cnt that by (auto simp: table_wf_def split: if_splits)
  show "table_wf (set_bucket t i b\<lparr>n_buckets_used := n_buckets_used t + 1\<rparr>)"
    if "used b" "\<not> used (bucket t ! i)"
  proof -
    have "unat (n_buckets_used t + 1) = length (filter used ?bs)"
      using cnt bound that by (simp add: unat_word_ariths)
    then show ?thesis using wf all by (auto simp: table_wf_def)
  qed
  show "table_wf (set_bucket t i b\<lparr>n_buckets_used := n_buckets_used t - 1\<rparr>)"
    if "\<not> used b" "used (bucket t ! i)"
  proof -
    have "1 \<le> n_buckets_used t" using cnt that by (simp add: word_le_nat_alt)
    then have "unat (n_buckets_used t - 1) = length (filter used ?bs)"
      using cnt that by (simp add: unat_sub)
    then show ?thesis using wf all by (auto simp: table_wf_def)
  qed
qed

text \<open>Adding an entry: to the overflow chain of a used bucket, or as the head of an empty one.\<close>

lemma table_wf_add_overflow:
  fixes a :: nat
  assumes "table_wf t" and "i < length (bucket t)" and "bdata (bucket t ! i) \<noteq> 0"
    and "d \<noteq> 0" and "hasher t d (n_buckets t) = Inr (of_nat i)"
  defines "t' \<equiv> set_bucket t i ((bucket t ! i)\<lparr>bnext := (a, d) # bnext (bucket t ! i)\<rparr>)"
  shows "table_wf t'" and "Es t' = add_mset d (Es t)" and "Ov t' = add_mset a (Ov t)"
proof -
  let ?b = "bucket t ! i" and ?b' = "(bucket t ! i)\<lparr>bnext := (a, d) # bnext (bucket t ! i)\<rparr>"
  have ents: "mset (bucket_entries ?b') = add_mset d (mset (bucket_entries ?b))"
    using assms(3) by (simp add: bucket_entries_def bucket_chain_def)
  have "set (bucket_entries ?b') = insert d (set (bucket_entries ?b))"
    using arg_cong [OF ents, of set_mset] by simp
  then have "bucket_wf (hasher t) (n_buckets t) i ?b'"
    using table_wfD(3) [OF assms(1,2)] assms by (auto simp: bucket_wf_def)
  then show "table_wf t'"
    unfolding t'_def using assms by (intro table_wf_set_bucket(1)) (auto simp: used_def)
  show "Es t' = add_mset d (Es t)"
    using entries_set_bucket [OF assms(2), of ?b'] by (simp add: ents t'_def)
  show "Ov t' = add_mset a (Ov t)"
    using overflow_set_bucket [OF assms(2), of ?b'] by (simp add: t'_def)
qed

lemma table_wf_add_head:
  assumes "table_wf t" and "i < length (bucket t)" and "bdata (bucket t ! i) = 0"
    and "d \<noteq> 0" and "hasher t d (n_buckets t) = Inr (of_nat i)"
  defines "t' \<equiv> set_bucket t i ((bucket t ! i)\<lparr>bdata := d\<rparr>)\<lparr>n_buckets_used := n_buckets_used t + 1\<rparr>"
  shows "table_wf t'" and "Es t' = add_mset d (Es t)" and "Ov t' = Ov t"
proof -
  let ?b = "bucket t ! i" and ?b' = "(bucket t ! i)\<lparr>bdata := d\<rparr>"
  have "bnext ?b = []"
    using table_wfD(3) [OF assms(1,2)] assms(3) by (simp add: bucket_wf_def)
  then have ents: "bucket_entries ?b' = [d]" "bucket_entries ?b = []" "map fst (bnext ?b') = []"
    using assms by (simp_all add: bucket_entries_def bucket_chain_def)
  then have "bucket_wf (hasher t) (n_buckets t) i ?b'"
    using assms by (simp add: bucket_wf_def)
  then show "table_wf t'"
    unfolding t'_def using assms by (intro table_wf_set_bucket(2)) (auto simp: used_def)
  show "Es t' = add_mset d (Es t)"
    using entries_set_bucket [OF assms(2), of ?b'] by (simp add: ents t'_def)
  show "Ov t' = Ov t"
    using overflow_set_bucket [OF assms(2), of ?b'] by (simp add: \<open>bnext ?b = []\<close> t'_def)
qed

text \<open>Emptying the overflow chain of a bucket, and emptying a bucket.\<close>

lemma table_wf_drop_overflow:
  assumes "table_wf t" and "i < length (bucket t)" and "bdata (bucket t ! i) \<noteq> 0"
  defines "t' \<equiv> set_bucket t i ((bucket t ! i)\<lparr>bnext := []\<rparr>)"
  shows "table_wf t'" and "Es t = Es t' + mset (map snd (bnext (bucket t ! i)))"
    and "Ov t = Ov t' + mset (map fst (bnext (bucket t ! i)))"
    and "bdata (bucket t' ! i) = bdata (bucket t ! i)"
proof -
  let ?b = "bucket t ! i" and ?b' = "(bucket t ! i)\<lparr>bnext := []\<rparr>"
  have ents: "mset (bucket_entries ?b) = mset (bucket_entries ?b') + mset (map snd (bnext ?b))"
    using assms(3) by (simp add: bucket_entries_def bucket_chain_def)
  have "bucket_wf (hasher t) (n_buckets t) i ?b'"
    using table_wfD(3) [OF assms(1,2)] assms by (auto simp: bucket_wf_def bucket_entries_def bucket_chain_def)
  then show "table_wf t'"
    unfolding t'_def using assms by (intro table_wf_set_bucket(1)) (auto simp: used_def)
  show "Es t = Es t' + mset (map snd (bnext ?b))"
    using entries_set_bucket [OF assms(2), of ?b'] by (simp add: ents t'_def)
  show "Ov t = Ov t' + mset (map fst (bnext ?b))"
    using overflow_set_bucket [OF assms(2), of ?b'] by (simp add: t'_def)
  show "bdata (bucket t' ! i) = bdata ?b" using assms(2) by (simp add: t'_def)
qed

lemma table_wf_drop_head:
  assumes "table_wf t" and "i < length (bucket t)" and "bdata (bucket t ! i) \<noteq> 0" and "bnext (bucket t ! i) = []"
  defines "t' \<equiv> set_bucket t i \<lparr>bdata = 0, bnext = []\<rparr>\<lparr>n_buckets_used := n_buckets_used t - 1\<rparr>"
  shows "table_wf t'" and "Es t = add_mset (bdata (bucket t ! i)) (Es t')" and "Ov t' = Ov t"
proof -
  let ?b = "bucket t ! i" and ?b' = "\<lparr>bdata = 0, bnext = []\<rparr>"
  have ents: "bucket_entries ?b = [bdata ?b]" "bucket_entries ?b' = []"
    using assms(3,4) by (simp_all add: bucket_entries_def bucket_chain_def)
  have "bucket_wf (hasher t) (n_buckets t) i ?b'"
    using bucket_wf_empty by (simp add: empty_bucket_def)
  then show "table_wf t'"
    unfolding t'_def using assms by (intro table_wf_set_bucket(3)) (auto simp: used_def)
  show "Es t = add_mset (bdata ?b) (Es t')"
    using entries_set_bucket [OF assms(2), of ?b'] by (simp add: ents t'_def)
  show "Ov t' = Ov t"
    using overflow_set_bucket [OF assms(2), of ?b'] by (simp add: assms(4) t'_def)
qed

subsection \<open>Counting\<close>

lemma length_entries:
  assumes "table_wf t"
  shows "length (entries t) = length (filter used (bucket t)) + length (overflow t)"
proof -
  have "length (concat (map bucket_entries bs)) =
        length (filter used bs) + length (concat (map (\<lambda>b. map fst (bnext b)) bs))"
    if "\<forall>b \<in> set bs. bdata b = 0 \<longrightarrow> bnext b = []" for bs
    using that by (induction bs) (auto simp: bucket_entries_def bucket_chain_def used_def)
  moreover have "\<forall>b \<in> set (bucket t). bdata b = 0 \<longrightarrow> bnext b = []"
    using table_wfD(3) [OF assms] by (auto simp: in_set_conv_nth bucket_wf_def)
  ultimately show ?thesis by (simp add: entries_def overflow_def)
qed

lemma entries_iff:
  assumes "table_wf t"
  shows "d \<in> set (entries t) \<longleftrightarrow> (\<exists>i < length (bucket t). d \<in> set (bucket_entries (bucket t ! i)))"
  by (auto simp: entries_def in_set_conv_nth [of _ "bucket t"]) (metis nth_mem)

lemma entries_nonnull: "table_wf t \<Longrightarrow> d \<in> set (entries t) \<Longrightarrow> d \<noteq> 0"
  by (metis entries_iff table_wfD(3) bucket_wf_def)

context hash_range
begin

lemma entry_slot:
  assumes "table_wf t" and "hasher t = h" and "i < length (bucket t)" and "d \<in> set (bucket_entries (bucket t ! i))"
  shows "slot (n_buckets t) d = i"
  using table_wfD [OF assms(1)] assms by (intro slot_eqI) (auto simp: bucket_wf_def)

lemma in_entries_slot:
  assumes "table_wf t" and "hasher t = h" and "d \<noteq> 0"
  shows "d \<in> set (entries t) \<longleftrightarrow> d \<in> set (bucket_entries (bucket t ! slot (n_buckets t) d))"
proof -
  have "slot (n_buckets t) d < length (bucket t)"
    using slot_less [OF assms(3)] table_wfD [OF assms(1)] by simp
  then show ?thesis
    using entries_iff [OF assms(1)] entry_slot [OF assms(1,2)] by auto
qed

lemma used_slots:
  assumes "table_wf t" and "hasher t = h"
  shows "length (filter used (bucket t)) = card (slot (n_buckets t) ` set (entries t))"
proof -
  have "{i. i < length (bucket t) \<and> used (bucket t ! i)} = slot (n_buckets t) ` set (entries t)"
  proof (intro equalityI subsetI)
    fix i assume "i \<in> {i. i < length (bucket t) \<and> used (bucket t ! i)}"
    then have i: "i < length (bucket t)" "bdata (bucket t ! i) \<in> set (bucket_entries (bucket t ! i))"
      by (auto simp: used_def bucket_entries_def bucket_chain_def)
    then show "i \<in> slot (n_buckets t) ` set (entries t)"
      using entry_slot [OF assms i] entries_iff [OF assms(1)] by (metis image_eqI)
  next
    fix i assume "i \<in> slot (n_buckets t) ` set (entries t)"
    then obtain d j where "i = slot (n_buckets t) d" "j < length (bucket t)" "d \<in> set (bucket_entries (bucket t ! j))"
      using entries_iff [OF assms(1)] by auto
    with entry_slot [OF assms, of j d] show "i \<in> {i. i < length (bucket t) \<and> used (bucket t ! i)}"
      by (auto simp: bucket_entries_def used_def split: if_splits)
  qed
  then show ?thesis by (simp add: length_filter_conv_card)
qed

end

end
