(* ===== verification/HashRehash.thy ===== *)
theory HashRehash
  imports HashInv
begin

section \<open>Moving entries between tables and resizing\<close>

text \<open>
  \<open>transfer_entries\<close> and \<open>hash_rehash\<close>: no entry is lost, no heap block is lost or shared, and
  when an allocation fails half way the code's undo always succeeds, because the blocks the
  original layout needed are all still at hand.
\<close>

subsection \<open>Ownership of heap blocks\<close>

definition owned :: "heap \<Rightarrow> nat multiset \<Rightarrow> bool" where
  "owned H M \<longleftrightarrow> heap_wf H \<and> (\<forall>a. count M a \<le> 1) \<and> set_mset M \<subseteq> live H"

text \<open>From a heap in which the blocks \<open>M\<close> are owned to one in which \<open>M'\<close> are: whatever else
  is owned stays owned, and the blocks that belong to nobody are the same.\<close>

definition own_step :: "heap \<Rightarrow> nat multiset \<Rightarrow> heap \<Rightarrow> nat multiset \<Rightarrow> bool" where
  "own_step H M H' M' \<longleftrightarrow> tunings H' = tunings H \<and>
     (\<forall>X. owned H (M + X) \<longrightarrow> owned H' (M' + X) \<and>
            live H' - set_mset (M' + X) = live H - set_mset (M + X))"

lemma own_step_refl [simp]: "own_step H M H M"
  by (simp add: own_step_def)

lemma own_step_trans: "own_step H M H' M' \<Longrightarrow> own_step H' M' H'' M'' \<Longrightarrow> own_step H M H'' M''"
  by (simp add: own_step_def)

lemma own_step_frame: "own_step H M H' M' \<Longrightarrow> own_step H (M + X) H' (M' + X)"
  unfolding own_step_def add.assoc by blast

lemma own_stepD: "own_step H M H' M' \<Longrightarrow> owned H (M + X) \<Longrightarrow> owned H' (M' + X)"
  by (simp add: own_step_def)

lemma own_step_live:
  assumes "own_step H M H' M'" and "owned H M"
  shows "heap_wf H'" and "set_mset M' \<subseteq> live H'" and "live H' - set_mset M' = live H - set_mset M"
  using spec [OF conjunct2 [OF assms(1) [unfolded own_step_def]], of "{#}"] assms(2)
  by (simp_all add: owned_def)

lemma owned_sub: "owned H (M + X) \<Longrightarrow> owned H M"
  unfolding owned_def by (auto intro: order_trans [OF le_add1])

lemma malloc_own_step:
  assumes "malloc H = (Some a, H')"
  shows "own_step H M H' (add_mset a M)"
proof -
  have "a \<notin> live H \<and> live H' = insert a (live H) \<and> heap_wf H'" if "heap_wf H"
    using c_heap.alloc_fresh [OF that assms] .
  moreover have "count M' a = 0" if "owned H M'" "a \<notin> live H" for M'
    using that by (auto simp: owned_def not_in_iff)
  ultimately show ?thesis
    using malloc_tunings [OF assms] unfolding own_step_def owned_def
    by (auto simp: not_in_iff)
qed

lemma malloc_fail_own_step:
  assumes "malloc H = (None, H')"
  shows "own_step H M H' M"
  using c_heap.alloc_fail [OF _ assms] malloc_tunings [OF assms]
  by (auto simp: own_step_def owned_def)

lemma free_own_step:
  assumes "free a H = Inr H'"
  shows "own_step H (add_mset a M) H' M"
proof -
  have H': "live H' = live H - {a}" "heap_wf H \<Longrightarrow> heap_wf H'"
    using assms by (auto simp: free_def heap_wf_def split: if_splits)
  have "owned H' (M + X) \<and> live H' - set_mset (M + X) = live H - set_mset (add_mset a M + X)"
    if own: "owned H (add_mset a M + X)" for X
  proof -
    have le: "count (add_mset a (M + X)) b \<le> 1" for b
      using own unfolding owned_def by auto
    have "a \<notin># M + X" using le [of a] by (simp add: not_in_iff)
    moreover have "count (M + X) b \<le> 1" for b
      using le [of b] by (simp split: if_splits)
    ultimately show ?thesis
      using own H' unfolding owned_def by auto
  qed
  then show ?thesis
    using free_tunings [OF assms] unfolding own_step_def by blast
qed

lemma owned_free: "owned H (add_mset a M) \<Longrightarrow> \<exists>H'. free a H = Inr H'"
  by (simp add: owned_def free_def)

lemma owned_free_list:
  assumes "owned H (mset as + M)"
  shows "\<exists>H'. free_list as H = Inr H' \<and> own_step H (mset as + M) H' M"
  using assms
proof (induction as arbitrary: H)
  case Nil
  then show ?case by simp
next
  case (Cons a as)
  obtain H1 where H1: "free a H = Inr H1" using owned_free [of H a "mset as + M"] Cons.prems by auto
  note step = free_own_step [OF H1, of "mset as + M"]
  have "owned H1 (mset as + M)" using own_stepD [OF step, of "{#}"] Cons.prems by simp
  from Cons.IH [OF this] H1 step show ?case by (auto intro: own_step_trans)
qed

subsection \<open>Overflow entries\<close>

context hash_range
begin

lemma slot_bucket:
  assumes "table_wf t" and "hasher t = h" and "d \<noteq> 0"
  defines "i \<equiv> slot (n_buckets t) d"
  shows "safe_hasher t d = Inr i" and "i < length (bucket t)" and "hasher t d (n_buckets t) = Inr (of_nat i)"
  using assms(2,3) table_wfD(1,2) [OF assms(1)] slot_less [of d "n_buckets t"]
    safe_hasher_slot [of t d] hash_eq_slot [of d "n_buckets t"]
  by (simp_all add: i_def)

lemma transfer_overflow_ok:
  assumes "table_wf dst" and "hasher dst = h" and "\<forall>d \<in> snd ` set ns. d \<noteq> 0"
  shows "\<exists>dst'. transfer_overflow dst ns = Inr dst' \<and> table_wf dst' \<and> same_config dst dst' \<and>
     Es dst' = Es dst + mset (map snd ns) \<and> Ov dst' + Fr dst' = Ov dst + Fr dst + mset (map fst ns)"
  using assms
proof (induction ns arbitrary: dst)
  case Nil
  then show ?case by simp
next
  case (Cons n ns)
  obtain a d where n: "n = (a, d)" by (cases n)
  define i where "i = slot (n_buckets dst) d"
  have d: "d \<noteq> 0" using Cons.prems n by auto
  note s = slot_bucket [OF Cons.prems(1,2) d, folded i_def]
  let ?b = "bucket dst ! i"
  define dst1 where "dst1 = (if bdata ?b \<noteq> 0 then set_bucket dst i (?b\<lparr>bnext := (a, d) # bnext ?b\<rparr>)
     else free_entry (set_bucket dst i (?b\<lparr>bdata := d\<rparr>)\<lparr>n_buckets_used := n_buckets_used dst + 1\<rparr>) a)"
  have eq: "transfer_overflow dst (n # ns) = transfer_overflow dst1 ns"
    using s by (simp add: n dst1_def)
  have wf: "table_wf dst1" and es: "Es dst1 = add_mset d (Es dst)"
    and ov: "Ov dst1 + Fr dst1 = add_mset a (Ov dst + Fr dst)" and cfg: "same_config dst dst1"
    using table_wf_add_overflow [OF Cons.prems(1) s(2) _ d s(3), of a]
      table_wf_add_head [OF Cons.prems(1) s(2) _ d s(3)]
    by (cases "bdata ?b = 0"; simp add: dst1_def free_entry_def same_config_def)+
  obtain dst' where "transfer_overflow dst1 ns = Inr dst'" "table_wf dst'" "same_config dst1 dst'"
    "Es dst' = Es dst1 + mset (map snd ns)" "Ov dst' + Fr dst' = Ov dst1 + Fr dst1 + mset (map fst ns)"
    using Cons.IH [OF wf] same_configD(2) [OF cfg] Cons.prems by auto
  then show ?case
    unfolding eq using same_config_trans [OF cfg] by (auto simp: es ov n)
qed

subsection \<open>Bucket heads\<close>

lemma allocate_entry_cases:
  obtains (recycled) a rest where "free_entry_list t = a # rest"
      "allocate_entry t H = (Some a, t\<lparr>free_entry_list := rest\<rparr>, H)"
  | (fresh) a H' where "free_entry_list t = []" "malloc H = (Some a, H')" "allocate_entry t H = (Some a, t, H')"
  | (failed) H' where "free_entry_list t = []" "malloc H = (None, H')" "allocate_entry t H = (None, t, H')"
proof (cases "free_entry_list t")
  case Nil
  then show thesis
    using fresh failed by (cases "malloc H"; cases "fst (malloc H)") (auto simp: allocate_entry_def)
next
  case (Cons a rest)
  then show thesis using recycled by (simp add: allocate_entry_def)
qed

text \<open>A head is moved, unless its new bucket is used, nothing can be recycled and \<open>malloc\<close> fails.\<close>

lemma transfer_head_ok:
  assumes "table_wf dst" and "hasher dst = h" and "d \<noteq> 0"
  shows "\<exists>ok dst' H'. transfer_head dst d H = Inr (ok, dst', H') \<and> table_wf dst' \<and> same_config dst dst' \<and>
     Es dst' = (if ok then add_mset d (Es dst) else Es dst) \<and>
     own_step H (Ov dst + Fr dst) H' (Ov dst' + Fr dst') \<and> Ov dst + Fr dst \<subseteq># Ov dst' + Fr dst' \<and>
     (\<not> ok \<longrightarrow> free_entry_list dst = [] \<and> slot (n_buckets dst) d \<in> slot (n_buckets dst) ` set (entries dst))"
proof -
  define i where "i = slot (n_buckets dst) d"
  note s = slot_bucket [OF assms, folded i_def]
  note add = table_wf_add_overflow [OF _ _ _ assms(3)]
  let ?b = "bucket dst ! i"
  have head: "transfer_head dst d H = (if bdata ?b \<noteq> 0
       then (case allocate_entry dst H of
               (None, dst, H) \<Rightarrow> Inr (False, dst, H)
             | (Some a, dst, H) \<Rightarrow> Inr (True, set_bucket dst i (?b\<lparr>bnext := (a, d) # bnext ?b\<rparr>), H))
       else Inr (True, set_bucket dst i (?b\<lparr>bdata := d\<rparr>)\<lparr>n_buckets_used := n_buckets_used dst + 1\<rparr>, H))"
    using s by (simp add: transfer_head_def)
  show ?thesis
  proof (cases "bdata ?b = 0")
    case True
    then show ?thesis
      using table_wf_add_head [OF assms(1) s(2) True assms(3) s(3)] head
      by (intro exI [of _ True]) (simp add: same_config_def)
  next
    case used: False
    then have mem: "bdata ?b \<in> set (bucket_entries ?b)"
      by (simp add: bucket_entries_def bucket_chain_def)
    have slot: "i \<in> slot (n_buckets dst) ` set (entries dst)"
      using entry_slot [OF assms(1,2) s(2) mem] entries_iff [OF assms(1)] s(2) mem by (metis image_eqI)
    show ?thesis
    proof (cases rule: allocate_entry_cases [of dst H])
      case (recycled a rest)
      have "table_wf (dst\<lparr>free_entry_list := rest\<rparr>)" using assms(1) by simp
      from add [OF this, of i a] recycled used s show ?thesis
        by (intro exI [of _ True]) (simp add: head same_config_def)
    next
      case (fresh a H')
      from add [OF assms(1) s(2) used s(3), of a] malloc_own_step [OF fresh(2)] fresh used show ?thesis
        by (intro exI [of _ True]) (simp add: head)
    next
      case (failed H')
      with malloc_fail_own_step [OF failed(2)] used slot assms(1) show ?thesis
        by (intro exI [of _ False]) (simp add: head i_def)
    qed
  qed
qed

end

subsection \<open>One source bucket, all source buckets\<close>

text \<open>What one run of the loop, from \<open>(dst, src, H)\<close> to \<open>(dst', src', H')\<close>, keeps.\<close>

definition transfer_rel ::
  "'w hash_table \<Rightarrow> 'w hash_table \<Rightarrow> heap \<Rightarrow> 'w hash_table \<Rightarrow> 'w hash_table \<Rightarrow> heap \<Rightarrow> bool" where
  "transfer_rel dst src H dst' src' H' \<longleftrightarrow>
     table_wf dst' \<and> table_wf src' \<and> same_config dst dst' \<and> same_config src src' \<and>
     free_entry_list src' = free_entry_list src \<and>
     Es dst' + Es src' = Es dst + Es src \<and>
     own_step H (Ov dst + Fr dst + Ov src) H' (Ov dst' + Fr dst' + Ov src') \<and>
     Ov dst + Fr dst + Ov src \<subseteq># Ov dst' + Fr dst' + Ov src'"

lemma transfer_rel_refl: "table_wf dst \<Longrightarrow> table_wf src \<Longrightarrow> transfer_rel dst src H dst src H"
  by (simp add: transfer_rel_def)

lemma transfer_rel_trans:
  "transfer_rel dst src H dst1 src1 H1 \<Longrightarrow> transfer_rel dst1 src1 H1 dst2 src2 H2 \<Longrightarrow>
   transfer_rel dst src H dst2 src2 H2"
  unfolding transfer_rel_def
  by (elim conjE, intro conjI)
     (blast intro: own_step_trans same_config_trans subset_mset.order_trans | simp)+

text \<open>What is left of source bucket \<open>j\<close> after its turn.\<close>

definition bucket_done :: "bool \<Rightarrow> 'w hash_table \<Rightarrow> nat \<Rightarrow> bool" where
  "bucket_done safe src j \<longleftrightarrow> bnext (bucket src ! j) = [] \<and> (\<not> safe \<longrightarrow> bdata (bucket src ! j) = 0)"

lemma bucket_snd_nonnull:
  assumes "table_wf t" and "i < length (bucket t)"
  shows "\<forall>d \<in> snd ` set (bnext (bucket t ! i)). d \<noteq> 0"
  using table_wfD(3) [OF assms]
  by (cases "bdata (bucket t ! i) = 0") (auto simp: bucket_wf_def bucket_entries_def bucket_chain_def)

context hash_range
begin

lemma transfer_bucket_ok:
  assumes "table_wf dst" and "table_wf src" and "hasher dst = h" and "j < length (bucket src)"
  shows "\<exists>ok dst' src' H'. transfer_bucket safe j dst src H = Inr (ok, dst', src', H') \<and>
     transfer_rel dst src H dst' src' H' \<and> (safe \<longrightarrow> ok) \<and> (ok \<longrightarrow> bucket_done safe src' j) \<and>
     (\<forall>k. k \<noteq> j \<longrightarrow> bucket src' ! k = bucket src ! k) \<and> length (bucket src') = length (bucket src) \<and>
     Ov src' \<subseteq># Ov src \<and>
     (\<not> ok \<longrightarrow> (\<exists>dst1 d. transfer_rel dst src H dst1 src' H \<and> free_entry_list dst1 = [] \<and> d \<in># Es src' \<and>
        slot (n_buckets dst) d \<in> slot (n_buckets dst) ` set (entries dst1)))"
proof (cases "bdata (bucket src ! j) = 0")
  case True
  then have "bnext (bucket src ! j) = []"
    using table_wfD(3) [OF assms(2,4)] by (simp add: bucket_wf_def)
  with True assms show ?thesis
    by (intro exI [of _ True]) (simp add: transfer_bucket_def transfer_rel_refl bucket_done_def)
next
  case False
  let ?b = "bucket src ! j"
  obtain dst1 where dst1: "transfer_overflow dst (bnext ?b) = Inr dst1" "table_wf dst1" "same_config dst dst1"
    "Es dst1 = Es dst + mset (map snd (bnext ?b))" "Ov dst1 + Fr dst1 = Ov dst + Fr dst + mset (map fst (bnext ?b))"
    using transfer_overflow_ok [OF assms(1,3) bucket_snd_nonnull [OF assms(2,4)]] by blast
  define src1 where "src1 = set_bucket src j (?b\<lparr>bnext := []\<rparr>)"
  note drop = table_wf_drop_overflow [OF assms(2,4) False, folded src1_def]
  have src1: "bucket src1 ! j = ?b\<lparr>bnext := []\<rparr>" "length (bucket src1) = length (bucket src)"
    "same_config src src1" "free_entry_list src1 = free_entry_list src"
    "\<And>k. k \<noteq> j \<Longrightarrow> bucket src1 ! k = bucket src ! k"
    using assms(4) by (simp_all add: src1_def)
  have rel1: "transfer_rel dst src H dst1 src1 H"
    using dst1 drop src1 by (simp add: transfer_rel_def add_ac)
  have body: "transfer_bucket safe j dst src H =
     (if safe then Inr (True, dst1, src1, H)
      else bindR (transfer_head dst1 (bdata ?b) H) (\<lambda>(ok, dst, H).
             if \<not> ok then Inr (False, dst, src1, H)
             else Inr (True, dst, set_bucket src1 j \<lparr>bdata = 0, bnext = []\<rparr>
                               \<lparr>n_buckets_used := n_buckets_used src1 - 1\<rparr>, H)))"
    unfolding src1_def transfer_bucket_def Let_def using assms(4) False dst1(1) by simp
  show ?thesis
  proof (cases safe)
    case True
    then show ?thesis
      using body rel1 src1 drop(3) by (intro exI [of _ True]) (simp add: bucket_done_def)
  next
    case unsafe: False
    have "hasher dst1 = h" using same_configD(2) [OF dst1(3)] assms(3) by simp
    from transfer_head_ok [OF dst1(2) this False, of H]
    obtain ok dst2 H2 where head: "transfer_head dst1 (bdata ?b) H = Inr (ok, dst2, H2)"
      "table_wf dst2" "same_config dst1 dst2"
      "Es dst2 = (if ok then add_mset (bdata ?b) (Es dst1) else Es dst1)"
      "own_step H (Ov dst1 + Fr dst1) H2 (Ov dst2 + Fr dst2)" "Ov dst1 + Fr dst1 \<subseteq># Ov dst2 + Fr dst2"
      "\<not> ok \<longrightarrow> free_entry_list dst1 = [] \<and> slot (n_buckets dst1) (bdata ?b) \<in> slot (n_buckets dst1) ` set (entries dst1)"
      by blast
    define src2 where "src2 = (if ok then set_bucket src1 j \<lparr>bdata = 0, bnext = []\<rparr>
                               \<lparr>n_buckets_used := n_buckets_used src1 - 1\<rparr> else src1)"
    have run: "transfer_bucket safe j dst src H = Inr (ok, dst2, src2, H2)"
      using body unsafe head(1) by (simp add: src2_def)
    have b1: "j < length (bucket src1)" "bdata (bucket src1 ! j) \<noteq> 0" "bnext (bucket src1 ! j) = []"
      using assms(4) False src1 by simp_all
    note dropped = table_wf_drop_head [OF drop(1) b1]
    have rel2: "transfer_rel dst1 src1 H dst2 src2 H2"
      unfolding transfer_rel_def
      using head(1-6) dropped drop(1) own_step_frame [OF head(5), of "Ov src1"] src1(1)
      by (simp add: src2_def same_config_def)
    have "bdata ?b \<in># Es src1"
      using dropped(2) src1(1) by (metis union_single_eq_member hash_bucket.select_convs(1) hash_bucket.update_convs(2) drop(4))
    moreover have "Ov src2 \<subseteq># Ov src"
      using dropped(3) drop(3) by (simp add: src2_def)
    ultimately show ?thesis
      using run transfer_rel_trans [OF rel1 rel2] rel1 head(7) src1 unsafe same_configD(1) [OF dst1(3)] assms(4)
      by (intro exI [of _ ok]) (auto simp: bucket_done_def src2_def)
  qed
qed

lemma transfer_loop_ok:
  assumes "table_wf dst" and "table_wf src" and "hasher dst = h" and "\<forall>j \<in> set js. j < length (bucket src)"
  shows "\<exists>ok dst' src' H'. transfer_loop safe js dst src H = Inr (ok, dst', src', H') \<and>
     transfer_rel dst src H dst' src' H' \<and> (safe \<longrightarrow> ok) \<and>
     (ok \<longrightarrow> (\<forall>j. j \<in> set js \<or> bucket_done safe src j \<longrightarrow> bucket_done safe src' j)) \<and>
     length (bucket src') = length (bucket src)"
  using assms
proof (induction js arbitrary: dst src H)
  case Nil
  then show ?case by (intro exI [of _ True]) (simp add: transfer_rel_refl)
next
  case (Cons j js)
  obtain ok dst1 src1 H1 where step: "transfer_bucket safe j dst src H = Inr (ok, dst1, src1, H1)"
    "transfer_rel dst src H dst1 src1 H1" "safe \<longrightarrow> ok" "ok \<longrightarrow> bucket_done safe src1 j"
    "\<forall>k. k \<noteq> j \<longrightarrow> bucket src1 ! k = bucket src ! k" "length (bucket src1) = length (bucket src)"
    using transfer_bucket_ok [OF Cons.prems(1-3), of j safe H] Cons.prems(4) by auto
  have wf1: "table_wf dst1" "table_wf src1" "hasher dst1 = h"
    using step(2) Cons.prems(3) by (auto simp: transfer_rel_def same_config_def)
  show ?case
  proof (cases ok)
    case False
    with step show ?thesis by (intro exI [of _ False]) simp
  next
    case True
    have done1: "bucket_done safe src k \<or> k = j \<Longrightarrow> bucket_done safe src1 k" for k
      using step(4,5) True by (cases "k = j") (auto simp: bucket_done_def)
    obtain ok' dst2 src2 H2 where rest: "transfer_loop safe js dst1 src1 H1 = Inr (ok', dst2, src2, H2)"
      "transfer_rel dst1 src1 H1 dst2 src2 H2" "safe \<longrightarrow> ok'"
      "ok' \<longrightarrow> (\<forall>j. j \<in> set js \<or> bucket_done safe src1 j \<longrightarrow> bucket_done safe src2 j)"
      "length (bucket src2) = length (bucket src1)"
      using Cons.IH [OF wf1, of H1] Cons.prems(4) step(6) by auto
    with step True done1 transfer_rel_trans [OF step(2) rest(2)] show ?thesis
      by (intro exI [of _ ok']) auto
  qed
qed

lemma bucket_done_overflow:
  assumes "\<forall>j < length (bucket src). bucket_done safe src j"
  shows "overflow src = []" and "\<not> safe \<Longrightarrow> entries src = []"
  using assms
  by (auto simp: overflow_def entries_def in_set_conv_nth [of _ "bucket src"] bucket_done_def bucket_entries_def)

lemma transfer_entries_ok:
  assumes "table_wf dst" and "table_wf src" and "hasher dst = h"
  shows "\<exists>ok dst' src' H'. transfer_entries dst src safe H = Inr (ok, dst', src', H') \<and>
     transfer_rel dst src H dst' src' H' \<and> (safe \<longrightarrow> ok) \<and>
     (ok \<longrightarrow> overflow src' = [] \<and> (\<not> safe \<longrightarrow> entries src' = []))"
proof -
  obtain ok dst' src' H' where l: "transfer_loop safe [0..<length (bucket src)] dst src H = Inr (ok, dst', src', H')"
    "transfer_rel dst src H dst' src' H'" "safe \<longrightarrow> ok"
    "ok \<longrightarrow> (\<forall>j. j \<in> set [0..<length (bucket src)] \<or> bucket_done safe src j \<longrightarrow> bucket_done safe src' j)"
    "length (bucket src') = length (bucket src)"
    using transfer_loop_ok [OF assms, of "[0..<length (bucket src)]" safe H] by auto
  then have "ok \<longrightarrow> overflow src' = [] \<and> (\<not> safe \<longrightarrow> entries src' = [])"
    using bucket_done_overflow [of src' safe] by auto
  with l show ?thesis by (auto simp: transfer_entries_def)
qed

subsection \<open>Enough recycled entries\<close>

text \<open>A bijection-free counting argument: the overflow blocks a layout needs are its entries less
  the slots they occupy, and this number only grows with the entries.\<close>

lemma overflow_size:
  assumes "table_wf t" and "hasher t = h"
  shows "size (Es t) = card (slot (n_buckets t) ` set_mset (Es t)) + size (Ov t)"
  using length_entries [OF assms(1)] used_slots [OF assms] by simp

lemma slots_grow:
  fixes f :: "'a \<Rightarrow> 'b"
  shows "size D + card (f ` set_mset (D + R)) \<le> size (D + R) + card (f ` set_mset D)"
proof -
  have "card (f ` set_mset (D + R)) \<le> card (f ` set_mset D) + card (f ` set_mset R)"
    by (simp add: image_Un card_Un_le)
  moreover have "card (f ` set_mset R) \<le> card (set_mset R)"
    by (rule card_image_le) simp
  moreover have "card (set_mset R) \<le> size R"
    by (induction R) (auto intro: order_trans [OF card_insert_le_m1] simp: card_insert_if)
  ultimately show ?thesis by simp
qed

lemma free_entry_at_hand:
  assumes "table_wf dst" and "hasher dst = h" and "E = add_mset d (Es dst + R)"
    and "slot (n_buckets dst) d \<in> slot (n_buckets dst) ` set (entries dst)"
    and "size E \<le> size (Ov dst + Fr dst) + card (slot (n_buckets dst) ` set_mset E)"
  shows "free_entry_list dst \<noteq> []"
proof
  assume empty: "free_entry_list dst = []"
  let ?f = "slot (n_buckets dst)"
  have "?f ` set_mset E = ?f ` set_mset (Es dst + R)"
    using assms(3,4) by auto
  then have "Suc (size (Es dst + R)) \<le> size (Ov dst) + card (?f ` set_mset (Es dst + R))"
    using assms(3,5) empty by simp
  moreover have "size (Es dst) + card (?f ` set_mset (Es dst + R)) \<le> size (Es dst + R) + card (?f ` set_mset (Es dst))"
    by (rule slots_grow)
  ultimately show False
    using overflow_size [OF assms(1,2)] by simp
qed

lemma transfer_loop_enough:
  assumes "table_wf dst" and "table_wf src" and "hasher dst = h" and "\<forall>j \<in> set js. j < length (bucket src)"
    and "size (Es dst + Es src) \<le> size (Ov dst + Fr dst + Ov src) + card (slot (n_buckets dst) ` set_mset (Es dst + Es src))"
    and "overflow src = []"
  shows "\<exists>dst' src' H'. transfer_loop False js dst src H = Inr (True, dst', src', H')"
  using assms
proof (induction js arbitrary: dst src H)
  case Nil
  then show ?case by simp
next
  case (Cons j js)
  let ?f = "slot (n_buckets dst)"
  have j: "j < length (bucket src)" using Cons.prems(4) by simp
  obtain ok dst1 src1 H1 where step: "transfer_bucket False j dst src H = Inr (ok, dst1, src1, H1)"
    "transfer_rel dst src H dst1 src1 H1" "length (bucket src1) = length (bucket src)"
    "Ov src1 \<subseteq># Ov src"
    "\<not> ok \<longrightarrow> (\<exists>dst' d. transfer_rel dst src H dst' src1 H \<and> free_entry_list dst' = [] \<and> d \<in># Es src1 \<and>
        ?f d \<in> ?f ` set (entries dst'))"
    using transfer_bucket_ok [OF Cons.prems(1-3) j, of False H] by blast
  have o1: "overflow src1 = []" using step(4) Cons.prems(6) by simp
  have enough: "size (Es dst' + Es src1) \<le> size (Ov dst' + Fr dst') + card (?f ` set_mset (Es dst' + Es src1))"
    if "transfer_rel dst src H dst' src1 H'" for dst' H'
    using that Cons.prems(5) o1 size_mset_mono [of "Ov dst + Fr dst + Ov src" "Ov dst' + Fr dst' + Ov src1"]
    unfolding transfer_rel_def by (auto simp del: size_union)
  show ?case
  proof (cases ok)
    case False
    then obtain dst' d where dst': "transfer_rel dst src H dst' src1 H" "free_entry_list dst' = []"
      "d \<in># Es src1" "?f d \<in> ?f ` set (entries dst')"
      using step(5) by blast
    then have cfg: "table_wf dst'" "hasher dst' = h" "n_buckets dst' = n_buckets dst"
      using Cons.prems(3) by (auto simp: transfer_rel_def same_config_def)
    have "Es dst' + Es src1 = add_mset d (Es dst' + (Es src1 - {#d#}))"
      using dst'(3) by simp
    from free_entry_at_hand [OF cfg(1,2) this] dst'(2,4) enough [OF dst'(1)] show ?thesis
      by (simp add: cfg(3) del: size_union)
  next
    case True
    have "table_wf dst1" "table_wf src1" "hasher dst1 = h" "n_buckets dst1 = n_buckets dst"
      using step(2) Cons.prems(3) by (auto simp: transfer_rel_def same_config_def)
    then show ?thesis
      using Cons.IH [of dst1 src1 H1] enough [OF step(2)] o1 Cons.prems(4) step(1,3) True by simp
  qed
qed

lemma transfer_entries_enough:
  assumes "table_wf dst" and "table_wf src" and "hasher dst = h" and "overflow src = []"
    and "size (Es dst + Es src) \<le> size (Ov dst + Fr dst) + card (slot (n_buckets dst) ` set_mset (Es dst + Es src))"
  shows "\<exists>dst' src' H'. transfer_entries dst src False H = Inr (True, dst', src', H') \<and>
     transfer_rel dst src H dst' src' H' \<and> overflow src' = [] \<and> entries src' = []"
proof -
  have "\<forall>j \<in> set [0..<length (bucket src)]. j < length (bucket src)" by simp
  then obtain dst1 src1 H1 where "transfer_entries dst src False H = Inr (True, dst1, src1, H1)"
    using transfer_loop_enough [OF assms(1-3)] assms(4,5) unfolding transfer_entries_def by fastforce
  with transfer_entries_ok [OF assms(1-3), of False H] show ?thesis by auto
qed

text \<open>The undo of a failed transfer: two passes back into the old table succeed, because the
  recycled entries include all those of the original layout.\<close>

lemma undo_ok:
  assumes "table_wf t" and "table_wf new" and "hasher t = h" and "hasher new = h"
    and orig: "Es t + Es new = E" "size E \<le> K + card (slot (n_buckets t) ` set_mset E)"
    and K: "K \<le> size (Ov t + Fr t + Ov new)"
  shows "\<exists>t2 new2 H2 t3 new3 H3. transfer_entries t new True H = Inr (True, t2, new2, H2) \<and>
     transfer_entries t2 new2 False H2 = Inr (True, t3, new3, H3) \<and>
     transfer_rel t new H t3 new3 H3 \<and> overflow new3 = [] \<and> entries new3 = []"
proof -
  obtain t2 new2 H2 where p1: "transfer_entries t new True H = Inr (True, t2, new2, H2)"
    "transfer_rel t new H t2 new2 H2" "overflow new2 = []"
    using transfer_entries_ok [OF assms(1-3), of True H] by auto
  then have wf: "table_wf t2" "table_wf new2" "hasher t2 = h" "n_buckets t2 = n_buckets t"
    and E: "Es t2 + Es new2 = E" and sub: "Ov t + Fr t + Ov new \<subseteq># Ov t2 + Fr t2 + Ov new2"
    using assms(3) orig(1) by (auto simp: transfer_rel_def same_config_def)
  have "size E \<le> size (Ov t2 + Fr t2) + card (slot (n_buckets t2) ` set_mset E)"
    using orig(2) K size_mset_mono [OF sub] p1(3) wf(4) by (simp del: size_union)
  then obtain t3 new3 H3 where "transfer_entries t2 new2 False H2 = Inr (True, t3, new3, H3)"
    "transfer_rel t2 new2 H2 t3 new3 H3" "overflow new3 = []" "entries new3 = []"
    using transfer_entries_enough [OF wf(1-3) p1(3), of H2] E by auto
  with p1 transfer_rel_trans [OF p1(2)] show ?thesis by blast
qed

end

subsection \<open>Resizing\<close>

definition blocks_of :: "'w hash_table \<Rightarrow> nat multiset" where
  "blocks_of t = add_mset (bucket_block t) (Ov t + Fr t)"

text \<open>What \<open>hash_rehash\<close> leaves alone: the entries, their number, the client's functions.\<close>

definition rehash_rel :: "'w hash_table \<Rightarrow> heap \<Rightarrow> 'w hash_table \<Rightarrow> heap \<Rightarrow> bool" where
  "rehash_rel t H t' H' \<longleftrightarrow> table_wf t' \<and> Es t' = Es t \<and> n_entries t' = n_entries t \<and>
     tuning t' = tuning t \<and> hasher t' = hasher t \<and> comparator t' = comparator t \<and>
     data_freer t' = data_freer t \<and> own_step H (blocks_of t) H' (blocks_of t')"

definition new_table_for :: "'w hash_table \<Rightarrow> size_t \<Rightarrow> nat \<Rightarrow> 'w hash_table" where
  "new_table_for table new_size block =
     \<lparr>bucket = replicate (unat new_size) empty_bucket, bucket_block = block,
      n_buckets = new_size, n_buckets_used = 0, n_entries = 0,
      tuning = tuning table, hasher = hasher table, comparator = comparator table,
      data_freer = data_freer table, free_entry_list = free_entry_list table\<rparr>"

lemma entries_replicate:
  "concat (map bucket_entries (replicate n empty_bucket)) = []"
  "concat (map (\<lambda>b. map fst (bnext b)) (replicate n empty_bucket)) = []"
  "filter used (replicate n empty_bucket) = []"
  by (induction n) (simp_all add: bucket_entries_def empty_bucket_def used_def)

lemma new_table_for_props:
  assumes "n \<noteq> 0"
  shows "table_wf (new_table_for t n block)" and "entries (new_table_for t n block) = []"
    and "overflow (new_table_for t n block) = []"
  using assms entries_replicate by (auto simp: new_table_for_def table_wf_def entries_def overflow_def)

context hash_range
begin

lemma hash_rehash_transfer:
  assumes "table_wf t" and "hasher t = h" and "owned H (blocks_of t + X)" and "n \<noteq> 0"
    and "compute_bucket_size cand (deref_tuning H (tuning t)) = Inr n" and "n \<noteq> n_buckets t"
    and "malloc H = (Some block, H1)"
  shows "\<exists>ok t' H'. hash_rehash t cand H = Inr (ok, t', H') \<and> rehash_rel t H t' H' \<and>
     n_buckets t' = (if ok then n else n_buckets t)"
proof -
  define new where "new = new_table_for t n block"
  note nw = new_table_for_props [OF assms(4), of t block, folded new_def]
  have new: "hasher new = h" "free_entry_list new = free_entry_list t" "bucket_block new = block" "n_buckets new = n"
    using assms(2) by (simp_all add: new_def new_table_for_def)
  obtain ok new' t' H2 where tr: "transfer_entries new t False H1 = Inr (ok, new', t', H2)"
    "transfer_rel new t H1 new' t' H2" "ok \<longrightarrow> overflow t' = [] \<and> entries t' = []"
    using transfer_entries_ok [OF nw(1) assms(1) new(1), of False H1] by auto
  then have wf: "table_wf new'" "table_wf t'" "same_config t t'" "same_config new new'"
    and es: "Es new' + Es t' = Es t" and sub: "Ov t + Fr t \<subseteq># Ov new' + Fr new' + Ov t'"
    and own2: "own_step H1 (Ov t + Fr t) H2 (Ov new' + Fr new' + Ov t')"
    by (simp_all add: transfer_rel_def nw new add_ac)
  let ?B = "{#bucket_block t, block#}"
  have own1: "own_step H (blocks_of t) H2 (Ov new' + Fr new' + Ov t' + ?B)"
    using own_step_trans [OF malloc_own_step [OF assms(7), of "blocks_of t"]] own_step_frame [OF own2, of ?B]
    by (simp add: blocks_of_def add_mset_commute)
  have owned2: "owned H2 (Ov new' + Fr new' + Ov t' + ?B + X)"
    using own_stepD [OF own1 assms(3)] .
  have body: "hash_rehash t cand H =
     (if ok
      then bindR (free (bucket_block t') H2) (\<lambda>H.
             Inr (True, t'\<lparr>bucket := bucket new', bucket_block := bucket_block new',
                  n_buckets := n_buckets new', n_buckets_used := n_buckets_used new',
                  free_entry_list := free_entry_list new'\<rparr>, H))
      else bindR (transfer_entries (t'\<lparr>free_entry_list := free_entry_list new'\<rparr>) new' True H2) (\<lambda>(ok, table, new_table, H).
             if \<not> ok then Inl Abort
             else bindR (transfer_entries table new_table False H) (\<lambda>(ok, table, new_table, H).
                    if \<not> ok then Inl Abort
                    else bindR (free (bucket_block new_table) H) (\<lambda>H. Inr (False, table, H)))))"
    unfolding hash_rehash_def using assms(4-7) tr(1)
    by (simp add: new_def new_table_for_def Let_def)
  have cfg: "bucket_block t' = bucket_block t" "bucket_block new' = block" "n_buckets new' = n"
    "hasher t' = hasher t" "hasher new' = hasher t" "n_buckets t' = n_buckets t"
    using wf(3,4) new assms(2) by (simp_all add: same_config_def)
  show ?thesis
  proof (cases ok)
    case True
    let ?t = "t'\<lparr>bucket := bucket new', bucket_block := bucket_block new', n_buckets := n_buckets new',
       n_buckets_used := n_buckets_used new', free_entry_list := free_entry_list new'\<rparr>"
    have ov: "overflow t' = []" "entries t' = []" using True tr(3) by auto
    have contents: "entries ?t = entries new'" "overflow ?t = overflow new'" "table_wf ?t"
      using wf(1) cfg by (simp_all add: entries_def overflow_def table_wf_def)
    have "owned H2 (add_mset (bucket_block t) (add_mset block (Ov new' + Fr new') + X))"
      using owned2 ov by simp
    from owned_free [OF this] obtain H3 where H3: "free (bucket_block t) H2 = Inr H3" by blast
    have blk: "blocks_of ?t = add_mset block (Ov new' + Fr new')"
      unfolding blocks_of_def contents by (simp add: cfg)
    have "own_step H (blocks_of t) H3 (blocks_of ?t)"
      unfolding blk using own_step_trans [OF own1] free_own_step [OF H3, of "add_mset block (Ov new' + Fr new')"] ov
      by (simp add: add_mset_commute)
    then have "rehash_rel t H ?t H3"
      unfolding rehash_rel_def contents(1) using contents(3) wf(3) es ov by (simp add: same_config_def)
    then show ?thesis
      using body True H3 cfg by (intro exI [of _ True]) simp
  next
    case False
    let ?t = "t'\<lparr>free_entry_list := free_entry_list new'\<rparr>"
    have "size (Es t) \<le> size (Ov t) + card (slot (n_buckets t') ` set_mset (Es t))"
      using overflow_size [OF assms(1,2)] cfg by simp
    moreover have "size (Ov t) \<le> size (Ov ?t + Fr ?t + Ov new')"
      using size_mset_mono [OF sub] by simp
    ultimately obtain t2 new2 H4 t3 new3 H3 where undo:
      "transfer_entries ?t new' True H2 = Inr (True, t2, new2, H4)"
      "transfer_entries t2 new2 False H4 = Inr (True, t3, new3, H3)"
      "transfer_rel ?t new' H2 t3 new3 H3" "overflow new3 = []" "entries new3 = []"
      using undo_ok [of ?t new' "Es t" "size (Ov t)" H2] wf(1,2) cfg assms(2) es by (auto simp: add_ac)
    then have rel: "table_wf t3" "same_config t' t3" "bucket_block new3 = block" "Es t3 = Es t"
      and own3: "own_step H2 (Ov t' + Fr new' + Ov new') H3 (Ov t3 + Fr t3)"
      using es cfg by (auto simp: transfer_rel_def same_config_def add_ac)
    have own4: "own_step H (blocks_of t) H3 (Ov t3 + Fr t3 + ?B)"
      using own_step_trans [OF own1] own_step_frame [OF own3, of ?B] by (simp add: add_ac)
    then have "owned H3 (add_mset block (blocks_of t3 + X))"
      using own_stepD [OF own4 assms(3)] rel(2) cfg by (simp add: blocks_of_def same_config_def add_mset_commute)
    from owned_free [OF this] obtain H5 where H5: "free block H3 = Inr H5" by blast
    have "own_step H (blocks_of t) H5 (blocks_of t3)"
      using own_step_trans [OF own4, of H5 "blocks_of t3"] free_own_step [OF H5, of "blocks_of t3"] rel(2) cfg
      by (simp add: blocks_of_def same_config_def add_mset_commute)
    then have "rehash_rel t H t3 H5"
      using rel wf(3) by (simp add: rehash_rel_def same_config_def)
    then show ?thesis
      using body False undo(1,2) rel H5 cfg
      by (intro exI [of _ False] exI [of _ t3] exI [of _ H5]) (simp add: same_config_def)
  qed
qed

text \<open>All outcomes of \<open>hash_rehash\<close>.\<close>

lemma hash_rehash_ok:
  assumes "table_wf t" and "hasher t = h" and "owned H (blocks_of t + X)"
    and "compute_bucket_size cand (deref_tuning H (tuning t)) = Inr n"
  shows "\<exists>ok t' H'. hash_rehash t cand H = Inr (ok, t', H') \<and> rehash_rel t H t' H' \<and>
     n_buckets t' = (if ok then n else n_buckets t) \<and> (n = 0 \<longrightarrow> \<not> ok)"
proof (cases "n = 0 \<or> n = n_buckets t")
  case True
  moreover have "rehash_rel t H t H" using assms(1) by (simp add: rehash_rel_def)
  ultimately show ?thesis
    using assms(4) table_wfD(2) [OF assms(1)] by (auto simp: hash_rehash_def)
next
  case False
  show ?thesis
  proof (cases "malloc H")
    case (Pair r H1)
    show ?thesis
    proof (cases r)
      case None
      then have "rehash_rel t H t H1"
        using assms(1) Pair malloc_fail_own_step by (simp add: rehash_rel_def)
      then show ?thesis
        using assms(4) False Pair None by (intro exI [of _ False]) (simp add: hash_rehash_def)
    next
      case (Some block)
      then show ?thesis
        using hash_rehash_transfer [OF assms(1-3) _ assms(4)] False Pair by fastforce
    qed
  qed
qed

end

end
