(* ===== verification/HashOps.thy ===== *)
theory HashOps
  imports HashRehash
begin

section \<open>Looking up, inserting and removing entries\<close>

text \<open>
  The operations of the hash table meet their contract. \<open>hash_inv\<close> is the invariant of a table
  in use; the contract of each operation is proved once, for every client whose hasher and
  comparator satisfy the laws of \<open>hash_client\<close>.
\<close>

subsection \<open>The invariant\<close>

definition hash_inv :: "heap \<Rightarrow> 'w hash_table \<Rightarrow> bool" where
  "hash_inv H t \<longleftrightarrow> table_wf t \<and> unat (n_buckets t) < 2 ^ 60 \<and> unat (n_entries t) = length (entries t) \<and>
     distinct (entries t) \<and>
     (\<forall>x \<in> set (entries t). \<forall>y \<in> set (entries t). entry_matches t x y \<longrightarrow> x = y) \<and>
     owned H (blocks_of t)"

lemma hash_invD:
  assumes "hash_inv H t"
  shows "table_wf t" and "unat (n_buckets t) < 2 ^ 60" and "unat (n_entries t) = length (entries t)"
    and "distinct (entries t)" and "owned H (blocks_of t)"
    and "x \<in> set (entries t) \<Longrightarrow> y \<in> set (entries t) \<Longrightarrow> entry_matches t x y \<Longrightarrow> x = y"
  using assms by (auto simp: hash_inv_def)

text \<open>The entry of a table that matches a key, NULL if there is none.\<close>

definition find_match :: "'w hash_table \<Rightarrow> ptr \<Rightarrow> ptr" where
  "find_match t e = (case find (entry_matches t e) (entries t) of Some d \<Rightarrow> d | None \<Rightarrow> 0)"

lemma find_matchD:
  assumes "table_wf t"
  shows "find_match t e \<noteq> 0 \<Longrightarrow> find_match t e \<in> set (entries t) \<and> entry_matches t e (find_match t e)"
    and "find_match t e = 0 \<longleftrightarrow> (\<forall>d \<in> set (entries t). \<not> entry_matches t e d)"
  using entries_nonnull [OF assms]
  by (auto simp: find_match_def find_None_iff find_Some_iff split: option.splits)

lemma mset_exchange:
  fixes X Y B :: "'a multiset"
  shows "X + B = Y + B' \<Longrightarrow> B' + A = B \<Longrightarrow> X + (A + F) = Y + F"
  by (metis add.assoc add.commute add_right_cancel)

lemma find_append: "find P (xs @ ys) = (case find P xs of Some x \<Rightarrow> Some x | None \<Rightarrow> find P ys)"
  by (induction xs) auto

lemma find_none: "(\<forall>x \<in> set xs. \<not> P x) \<Longrightarrow> find P xs = None"
  by (auto simp: find_None_iff)

lemma find_in_one_block:
  assumes "i < length xs" and "\<forall>j < length xs. j \<noteq> i \<longrightarrow> (\<forall>x \<in> set (f (xs ! j)). \<not> P x)"
  shows "find P (concat (map f xs)) = find P (f (xs ! i))"
proof -
  have no: "find P (concat (map f ys)) = None" if "\<forall>y \<in> set ys. \<exists>j < length xs. j \<noteq> i \<and> y = xs ! j" for ys
    using that assms(2) by (intro find_none) auto
  have "\<exists>j < length xs. j \<noteq> i \<and> y = xs ! j" if "y \<in> set (take i xs) \<union> set (drop (Suc i) xs)" for y
  proof (cases "y \<in> set (take i xs)")
    case True
    then obtain k where "k < i" "y = xs ! k" by (auto simp: in_set_conv_nth)
    with assms(1) show ?thesis by (intro exI [of _ k]) auto
  next
    case False
    with that have "y \<in> set (drop (Suc i) xs)" by blast
    then obtain k where "k < length xs - Suc i" "y = xs ! Suc (i + k)" by (auto simp: in_set_conv_nth)
    then show ?thesis by (intro exI [of _ "Suc (i + k)"]) auto
  qed
  then have "find P (concat (map f (take i xs))) = None" "find P (concat (map f (drop (Suc i) xs))) = None"
    by (auto intro!: no simp del: in_set_takeD in_set_dropD)
  then show ?thesis
    by (simp add: concat_map_split [OF assms(1)] find_append split: option.splits)
qed

lemma lookup_chain_find:
  "lookup_chain t e ds = (case find (entry_matches t e) ds of Some d \<Rightarrow> d | None \<Rightarrow> 0)"
  by (induction ds) auto

lemma scan_overflow_find:
  "scan_overflow t e acc ns =
     (if \<exists>n \<in> set ns. entry_matches t e (snd n)
      then Some (acc @ takeWhile (\<lambda>n. \<not> entry_matches t e (snd n)) ns,
                 hd (dropWhile (\<lambda>n. \<not> entry_matches t e (snd n)) ns),
                 tl (dropWhile (\<lambda>n. \<not> entry_matches t e (snd n)) ns))
      else None)"
  by (induction t e acc ns rule: scan_overflow.induct) auto

lemma scan_overflow_cases:
  obtains (absent) "scan_overflow t e [] ns = None" "find (entry_matches t e) (map snd ns) = None"
  | (present) before a d rest where "scan_overflow t e [] ns = Some (before, (a, d), rest)"
      "ns = before @ (a, d) # rest" "find (entry_matches t e) (map snd ns) = Some d"
proof (cases "\<exists>n \<in> set ns. entry_matches t e (snd n)")
  case False
  then have "find (entry_matches t e) (map snd ns) = None" by (intro find_none) auto
  with False show thesis using absent by (simp add: scan_overflow_find)
next
  case True
  let ?P = "\<lambda>n. \<not> entry_matches t e (snd n)"
  obtain a d rest where r: "dropWhile ?P ns = (a, d) # rest"
    using True by (cases "dropWhile ?P ns") (auto simp: dropWhile_eq_Nil_conv)
  have ns: "ns = takeWhile ?P ns @ (a, d) # rest"
    using takeWhile_dropWhile_id [of ?P ns] r by simp
  have "entry_matches t e d"
    using hd_dropWhile [of ?P ns] r by auto
  moreover have "find (entry_matches t e) (map snd (takeWhile ?P ns)) = None"
    by (rule find_none) (auto dest: set_takeWhileD)
  ultimately have "find (entry_matches t e) (map snd ns) = Some d"
    by (subst ns) (simp add: find_append)
  with True r ns show thesis
    using present [of "takeWhile ?P ns" a d rest] by (simp add: scan_overflow_find)
qed

context hash_client
begin

lemma find_match_bucket:
  assumes "table_wf t" and "hasher t = h" and "comparator t = c" and "e \<noteq> 0"
  defines "b \<equiv> bucket t ! slot (n_buckets t) e"
  shows "find_match t e = (case find (entry_matches t e) (bucket_entries b) of Some d \<Rightarrow> d | None \<Rightarrow> 0)"
proof -
  have i: "slot (n_buckets t) e < length (bucket t)"
    using slot_less [OF assms(4)] table_wfD [OF assms(1)] by simp
  have "\<not> entry_matches t e d"
    if "j < length (bucket t)" "j \<noteq> slot (n_buckets t) e" "d \<in> set (bucket_entries (bucket t ! j))" for j d
    using entry_slot [OF assms(1,2) that(1,3)] same_slot [of e d] that(2) entry_matches_same [OF assms(3)]
    by auto
  then have "find (entry_matches t e) (entries t) = find (entry_matches t e) (bucket_entries b)"
    unfolding entries_def b_def by (intro find_in_one_block [OF i]) auto
  then show ?thesis by (simp add: find_match_def)
qed

lemma hash_lookup_ok:
  assumes "table_wf t" and "hasher t = h" and "comparator t = c" and "e \<noteq> 0"
  shows "hash_lookup t e = Inr (find_match t e)"
  using find_match_bucket [OF assms] slot_bucket [OF assms(1,2,4)]
  by (simp add: hash_lookup_def bucket_entries_def lookup_chain_find)

lemma hash_find_entry_ok:
  assumes "table_wf t" and "hasher t = h" and "comparator t = c" and "e \<noteq> 0"
  shows "hash_find_entry t e False = Inr (find_match t e, slot (n_buckets t) e, t)"
proof -
  let ?b = "bucket t ! slot (n_buckets t) e"
  have "hash_find_entry t e False = Inr (case find (entry_matches t e) (bucket_entries ?b) of Some d \<Rightarrow> d | None \<Rightarrow> 0,
          slot (n_buckets t) e, t)"
    using slot_bucket [OF assms(1,2,4)]
    by (cases rule: scan_overflow_cases [of t e "bnext ?b"])
       (auto simp: hash_find_entry_def bucket_entries_def bucket_chain_def)
  then show ?thesis by (simp add: find_match_bucket [OF assms])
qed

text \<open>Deleting the match: its entry goes, its block (or that of the entry that moves into the head)
  is recycled, and the bucket is empty afterwards if it held nothing else.\<close>

lemma hash_find_entry_delete:
  assumes "table_wf t" and "hasher t = h" and "comparator t = c" and "e \<noteq> 0"
  defines "i \<equiv> slot (n_buckets t) e"
  shows "\<exists>t1. hash_find_entry t e True = Inr (find_match t e, i, t1) \<and> i < length (bucket t1) \<and>
     same_config t t1 \<and> n_buckets_used t1 = n_buckets_used t \<and>
     (find_match t e = 0 \<longrightarrow> t1 = t) \<and>
     (find_match t e \<noteq> 0 \<longrightarrow> Es t = add_mset (find_match t e) (Es t1) \<and> Ov t1 + Fr t1 = Ov t + Fr t \<and>
        table_wf (if bdata (bucket t1 ! i) = 0 then t1\<lparr>n_buckets_used := n_buckets_used t - 1\<rparr> else t1))"
proof -
  let ?b = "bucket t ! i" and ?d = "find_match t e"
  note sb = slot_bucket [OF assms(1,2,4), folded i_def]
  note wfb = table_wfD(3) [OF assms(1) sb(2)]
  note fm = find_match_bucket [OF assms(1-4), folded i_def]
  have replace: ?thesis
    if b: "hash_find_entry t e True = Inr (?d, i, t1)" "t1 = (set_bucket t i b)\<lparr>free_entry_list := as @ free_entry_list t\<rparr>"
      "mset (bucket_entries ?b) = add_mset ?d (mset (bucket_entries b))"
      "mset (map fst (bnext b)) + mset as = mset (map fst (bnext ?b))"
      "bdata b = 0 \<longrightarrow> bnext b = []" "?d \<noteq> 0" "used ?b"
    for t1 b as
  proof -
    have "set (bucket_entries b) \<subseteq> set (bucket_entries ?b)"
      using arg_cong [OF b(3), of set_mset] by auto
    then have "bucket_wf (hasher t) (n_buckets t) i b"
      using wfb b(5) by (auto simp: bucket_wf_def)
    note set = table_wf_set_bucket [OF assms(1) sb(2) this]
    have "Es t = add_mset ?d (Es t1)" "Ov t1 + Fr t1 = Ov t + Fr t"
      using entries_set_bucket [OF sb(2), of b] overflow_set_bucket [OF sb(2), of b] b(2,3,4)
      by (simp_all add: mset_exchange)
    moreover have "table_wf (if bdata (bucket t1 ! i) = 0 then t1\<lparr>n_buckets_used := n_buckets_used t - 1\<rparr> else t1)"
      using set b(2,7) sb(2) by (auto simp: used_def table_wf_def)
    ultimately show ?thesis
      using b(1,2,6) sb(2) by (auto simp: same_config_def)
  qed
  show ?thesis
  proof (cases "bdata ?b = 0 \<or> entry_matches t e (bdata ?b)")
    case True
    then consider "bdata ?b = 0" | "bdata ?b \<noteq> 0" "entry_matches t e (bdata ?b)" "bnext ?b = []"
      | a d rest where "bdata ?b \<noteq> 0" "entry_matches t e (bdata ?b)" "bnext ?b = (a, d) # rest"
      by (cases "bnext ?b") auto
    then show ?thesis
    proof cases
      case 1
      then show ?thesis
        using sb fm by (auto simp: hash_find_entry_def bucket_entries_def)
    next
      case 2
      then have d: "?d = bdata ?b" using fm by (simp add: bucket_entries_def bucket_chain_def)
      show ?thesis
        using 2 d sb by (intro replace [where b = "?b\<lparr>bdata := 0\<rparr>" and as = "[]"])
          (auto simp: hash_find_entry_def bucket_entries_def bucket_chain_def used_def)
    next
      case 3
      then have d: "?d = bdata ?b" using fm by (simp add: bucket_entries_def bucket_chain_def)
      have "d \<noteq> 0" using bucket_snd_nonnull [OF assms(1) sb(2)] 3(3) by simp
      with 3 d sb show ?thesis
        by (intro replace [where b = "\<lparr>bdata = d, bnext = rest\<rparr>" and as = "[a]"])
           (auto simp: hash_find_entry_def bucket_entries_def bucket_chain_def used_def free_entry_def)
    qed
  next
    case False
    show ?thesis
    proof (cases rule: scan_overflow_cases [of t e "bnext ?b"])
      case absent
      then show ?thesis
        using False sb fm by (auto simp: hash_find_entry_def bucket_entries_def bucket_chain_def)
    next
      case (present before a d rest)
      then have d: "?d = d" using False fm by (simp add: bucket_entries_def bucket_chain_def)
      have "d \<noteq> 0" using bucket_snd_nonnull [OF assms(1) sb(2)] present(2) by simp
      with False present d sb show ?thesis
        by (intro replace [where b = "?b\<lparr>bnext := before @ rest\<rparr>" and as = "[a]"])
           (auto simp: hash_find_entry_def bucket_entries_def bucket_chain_def used_def free_entry_def)
    qed
  qed
qed

end

subsection \<open>Growing and shrinking\<close>

text \<open>The conversions of the new size from \<open>float\<close> are defined whenever the tuning is reasonable,
  and after \<open>check_tuning\<close> it is, whatever the user has written there.\<close>

lemma check_tuning_props:
  assumes "check_tuning H t = (ok, t')"
  shows "tuning_reasonable (deref_tuning H (tuning t'))" and "t' = t \<or> t' = t\<lparr>tuning := Default_tuning\<rparr>"
  using assms tuning_reasonable_default
  by (auto simp: check_tuning_def deref_tuning_def split: if_splits)

lemma fl_mul_pos_nonneg: "fl_nonneg v \<Longrightarrow> 0 < g \<Longrightarrow> fl_nonneg (fl_mul v (Fin g))"
  using fl_round_nonneg [of "_ * g"] by (auto simp: fl_nonneg_def) (metis fl_nonneg_def fl_round_nonneg mult_nonneg_nonneg order_less_imp_le)

lemma growth_candidate_defined:
  assumes "tuning_reasonable (deref_tuning H (tuning t))" and "n_buckets t \<noteq> 0"
    and "\<not> fl_le (fl_of_size SIZE_MAX) (growth_candidate H t)"
  shows "\<exists>n. fl_to_size (growth_candidate H t) = Some n"
proof -
  have "1 \<le> uint (n_buckets t)"
    using assms(2) by (simp add: word_neq_0_conv word_less_def)
  then have "fl_of_size (n_buckets t) = Inf False \<or> (\<exists>y > 0. fl_of_size (n_buckets t) = Fin y)"
    unfolding fl_of_size_def by (intro fl_round_pos) (simp del: of_int_uint)
  then have "fl_nonneg (fl_mul (fl_of_size (n_buckets t)) (growth_factor (deref_tuning H (tuning t))))"
    using tuning_reasonableD(3) [OF assms(1)] by (intro fl_mul_nonneg) auto
  then have "fl_nonneg (growth_candidate H t)"
    using tuning_reasonableD(1) [OF assms(1)] fl_mul_pos_nonneg
    by (auto simp: growth_candidate_def Let_def)
  then show ?thesis using fl_to_size_defined assms(3) by blast
qed

lemma shrink_candidate_defined:
  assumes "tuning_reasonable (deref_tuning H (tuning t))" and "unat (n_buckets t) < 2 ^ 60"
  shows "\<exists>n. fl_to_size (shrink_candidate H t) = Some n"
proof -
  obtain f where f: "shrink_factor (deref_tuning H (tuning t)) = Fin f" "0 \<le> f" "f \<le> 1"
    using tuning_reasonableD(2) [OF assms(1)] by blast
  obtain g where g: "growth_threshold (deref_tuning H (tuning t)) = Fin g" "0 < g" "g < 1"
    using tuning_reasonableD(1) [OF assms(1)] by blast
  have "fl_below 60 (fl_of_size (n_buckets t))"
    using assms(2) by (intro fl_of_size_below) auto
  then have "fl_below 60 (fl_mul (fl_of_size (n_buckets t)) (Fin f))"
    using f by (intro fl_mul_below_one) auto
  moreover from this have "fl_below 60 (fl_mul (fl_mul (fl_of_size (n_buckets t)) (Fin f)) (Fin g))"
    using g by (intro fl_mul_below_one [where v = "fl_mul _ _"]) auto
  ultimately show ?thesis
    using fl_to_size_below [of 60] f(1) g(1) by (auto simp: shrink_candidate_def Let_def)
qed

subsection \<open>Steps of a table\<close>

text \<open>What every operation keeps: the client's functions, and the blocks of everybody else.\<close>

definition table_step :: "heap \<Rightarrow> 'w hash_table \<Rightarrow> heap \<Rightarrow> 'w hash_table \<Rightarrow> bool" where
  "table_step H t H' t' \<longleftrightarrow> hasher t' = hasher t \<and> comparator t' = comparator t \<and>
     data_freer t' = data_freer t \<and> (tuning t' = tuning t \<or> tuning t' = Default_tuning) \<and>
     own_step H (blocks_of t) H' (blocks_of t')"

lemma table_step_refl [simp]: "table_step H t H t"
  by (simp add: table_step_def)

lemma table_step_trans: "table_step H t H1 t1 \<Longrightarrow> table_step H1 t1 H2 t2 \<Longrightarrow> table_step H t H2 t2"
  unfolding table_step_def by (metis own_step_trans)

lemma blocks_of_update [simp]:
  "blocks_of (t\<lparr>tuning := tn\<rparr>) = blocks_of t"
  "blocks_of (t\<lparr>n_entries := x\<rparr>) = blocks_of t"
  "blocks_of (t\<lparr>n_buckets_used := x\<rparr>) = blocks_of t"
  by (simp_all add: blocks_of_def)

lemma entry_matches_cong: "comparator t' = comparator t \<Longrightarrow> entry_matches t' = entry_matches t"
  by (simp add: entry_matches_def fun_eq_iff)

lemma hash_inv_tuning [simp]: "hash_inv H (t\<lparr>tuning := tn\<rparr>) = hash_inv H t"
  by (simp add: hash_inv_def entry_matches_cong [of "t\<lparr>tuning := tn\<rparr>" t])

text \<open>The invariant depends on the entries only as a multiset.\<close>

lemma hash_inv_same_entries:
  assumes "hash_inv H t" and "table_wf t'" and "Es t' = Es t" and "n_entries t' = n_entries t"
    and "unat (n_buckets t') < 2 ^ 60" and "comparator t' = comparator t" and "owned H' (blocks_of t')"
  shows "hash_inv H' t'"
  using assms mset_eq_length [OF assms(3)] mset_eq_setD [OF assms(3)] mset_eq_imp_distinct_iff [OF assms(3)]
  by (simp add: hash_inv_def entry_matches_cong [OF assms(6)])

lemma hash_inv_remove_entry:
  assumes "hash_inv H t" and "table_wf t'" and "Es t = add_mset d (Es t')" and "n_entries t' = n_entries t - 1"
    and "n_buckets t' = n_buckets t" and "comparator t' = comparator t" and "owned H' (blocks_of t')"
  shows "hash_inv H' t'"
proof -
  note inv = hash_invD [OF assms(1)]
  have sub: "set (entries t') \<subseteq> set (entries t)"
    using assms(3) by (metis set_mset_mset subset_insertI set_mset_add_mset_insert)
  have len: "length (entries t) = Suc (length (entries t'))"
    using arg_cong [OF assms(3), of size] by simp
  have "distinct (entries t')"
    using inv(4) assms(3) by (metis distinct.simps(2) mset.simps(2) mset_eq_imp_distinct_iff)
  moreover have "1 \<le> n_entries t"
    using inv(3) len by (simp add: word_le_nat_alt)
  then have "unat (n_entries t') = length (entries t')"
    using inv(3) len assms(4) by (simp add: unat_sub)
  ultimately show ?thesis
    using assms inv sub by (auto simp: hash_inv_def entry_matches_cong [OF assms(6)])
qed

context hash_client
begin

lemma hash_inv_add_entry:
  assumes "hash_inv H t" and "comparator t = c" and "table_wf t'" and "Es t' = add_mset e (Es t)"
    and "find_match t e = 0" and "n_entries t' = n_entries t + 1"
    and "n_buckets t' = n_buckets t" and "comparator t' = comparator t" and "owned H' (blocks_of t')"
  shows "hash_inv H' t'"
proof -
  note inv = hash_invD [OF assms(1)]
  have "mset (entries t') = mset (e # entries t)" using assms(4) by simp
  note es = mset_eq_setD [OF this] mset_eq_length [OF this] mset_eq_imp_distinct_iff [OF this]
  have none: "\<not> same e d" if "d \<in> set (entries t)" for d
    using assms(2,5) find_matchD(2) [OF inv(1), of e] that by (simp add: entry_matches_same)
  then have dist: "distinct (entries t')" using es(3) inv(4) none [of e] by auto
  have "0 \<notin> set (entries t')" using entries_nonnull [OF assms(3)] by auto
  then have "Suc (length (entries t)) < 2 ^ 64"
    using distinct_ptrs_bound [OF dist] es(2) by simp
  then have "unat (n_entries t') = length (entries t')"
    using inv(3) es(2) assms(6) by (simp add: unat_word_ariths)
  moreover have "x = y" if "x \<in> set (entries t')" "y \<in> set (entries t')" "same x y" for x y
    using that es(1) none inv(6) [of x y] same_sym [of x y] assms(2) by (auto simp: entry_matches_same)
  ultimately show ?thesis
    using assms inv dist by (simp add: hash_inv_def entry_matches_same)
qed

lemma hash_rehash_inv:
  assumes "hash_inv H t" and "hasher t = h"
    and "compute_bucket_size cand (deref_tuning H (tuning t)) = Inr n"
  shows "\<exists>ok t' H'. hash_rehash t cand H = Inr (ok, t', H') \<and> hash_inv H' t' \<and> table_step H t H' t' \<and>
     Es t' = Es t \<and> n_buckets t' = (if ok then n else n_buckets t)"
proof -
  note inv = hash_invD [OF assms(1)]
  obtain ok t' H' where r: "hash_rehash t cand H = Inr (ok, t', H')" "rehash_rel t H t' H'"
    "n_buckets t' = (if ok then n else n_buckets t)" "n = 0 \<longrightarrow> \<not> ok"
    using hash_rehash_ok [OF inv(1) assms(2) _ assms(3), of "{#}"] inv(5) by auto
  have "unat (n_buckets t') < 2 ^ 60"
    using r(3,4) inv(2) compute_bucket_size_prime [OF assms(3)] by (auto split: if_splits)
  moreover have "owned H' (blocks_of t')"
    using r(2) inv(5) own_stepD [of H "blocks_of t" H' "blocks_of t'" "{#}"] by (simp add: rehash_rel_def)
  ultimately have "hash_inv H' t'"
    using r(2) by (intro hash_inv_same_entries [OF assms(1)]) (simp_all add: rehash_rel_def)
  with r show ?thesis by (simp add: rehash_rel_def table_step_def)
qed

text \<open>The last part of an insertion.\<close>

lemma insert_at_ok:
  assumes "hash_inv H t" and "hasher t = h" and "comparator t = c" and "e \<noteq> 0" and "find_match t e = 0"
  shows "\<exists>r t' H'. insert_at t (slot (n_buckets t) e) e H = Inr (r, None, t', H') \<and> hash_inv H' t' \<and>
     table_step H t H' t' \<and> (r = 1 \<and> Es t' = add_mset e (Es t) \<or> r = - 1 \<and> Es t' = Es t)"
proof -
  note inv = hash_invD [OF assms(1)]
  define i where "i = slot (n_buckets t) e"
  note sb = slot_bucket [OF inv(1) assms(2,4), folded i_def]
  let ?b = "bucket t ! i"
  have added: "hash_inv H' t' \<and> table_step H t H' t'"
    if "table_wf t'" "Es t' = add_mset e (Es t)" "n_entries t' = n_entries t + 1" "n_buckets t' = n_buckets t"
      "hasher t' = hasher t" "comparator t' = comparator t" "data_freer t' = data_freer t"
      "own_step H (blocks_of t) H' (blocks_of t')" "tuning t' = tuning t" for t' H'
    using that hash_inv_add_entry [OF assms(1,3) that(1,2) assms(5) that(3,4,6), of H']
      own_stepD [OF that(8), of "{#}"] inv(5) by (simp add: table_step_def)
  show ?thesis
  proof (cases "bdata ?b = 0")
    case True
    let ?t = "set_bucket t i (?b\<lparr>bdata := e\<rparr>)\<lparr>n_entries := n_entries t + 1, n_buckets_used := n_buckets_used t + 1\<rparr>"
    note add = table_wf_add_head [OF inv(1) sb(2) True assms(4) sb(3)]
    have "hash_inv H ?t \<and> table_step H t H ?t"
      using add by (intro added) (simp_all add: blocks_of_def table_wf_def)
    then show ?thesis
      using True sb add(2) by (intro exI [of _ 1] exI [of _ ?t] exI [of _ H]) (simp add: insert_at_def i_def)
  next
    case False
    let ?t = "\<lambda>a t. set_bucket t i (?b\<lparr>bnext := (a, e) # bnext ?b\<rparr>)\<lparr>n_entries := n_entries t + 1\<rparr>"
    have body: "insert_at t i e H = (case allocate_entry t H of
               (None, table, H) \<Rightarrow> Inr (- 1, None, table, H)
             | (Some a, table, H) \<Rightarrow> Inr (1, None, ?t a table, H))"
      using False sb by (simp add: insert_at_def)
    show ?thesis
    proof (cases rule: allocate_entry_cases [of t H])
      case (recycled a rest)
      let ?u = "t\<lparr>free_entry_list := rest\<rparr>"
      have "table_wf ?u" using inv(1) by simp
      note add = table_wf_add_overflow [OF this, of i e a, simplified, OF sb(2) False assms(4) sb(3)]
      have "hash_inv H (?t a ?u) \<and> table_step H t H (?t a ?u)"
        using add recycled(1) by (intro added) (simp_all add: blocks_of_def)
      then show ?thesis using body recycled(2) add(2) i_def by auto
    next
      case (fresh a H')
      note add = table_wf_add_overflow [OF inv(1) sb(2) False assms(4) sb(3), of a]
      have "hash_inv H' (?t a t) \<and> table_step H t H' (?t a t)"
        using add malloc_own_step [OF fresh(2), of "blocks_of t"]
        by (intro added) (simp_all add: blocks_of_def add_mset_commute)
      then show ?thesis using body fresh(3) add(2) i_def by auto
    next
      case (failed H')
      have "own_step H (blocks_of t) H' (blocks_of t)" by (rule malloc_fail_own_step [OF failed(2)])
      then have "hash_inv H' t \<and> table_step H t H' t"
        using hash_inv_same_entries [OF assms(1) inv(1) _ _ inv(2), of H'] inv(5) own_stepD [of H "blocks_of t" H' "blocks_of t" "{#}"]
        by (simp add: table_step_def)
      then show ?thesis using body failed(3) i_def by auto
    qed
  qed
qed

lemma find_match_none:
  assumes "table_wf t" and "table_wf t'" and "Es t' = Es t" and "comparator t' = comparator t" and "find_match t e = 0"
  shows "find_match t' e = 0"
  using assms find_matchD(2) [OF assms(1)] find_matchD(2) [OF assms(2)] mset_eq_setD [OF assms(3)]
  by (simp add: entry_matches_cong [OF assms(4)])

lemma check_tuning_inv:
  assumes "hash_inv H t" and "check_tuning H t = (ok, t')"
  shows "hash_inv H t'" and "table_step H t H t'" and "Es t' = Es t" and "n_buckets t' = n_buckets t"
  using check_tuning_props(2) [OF assms(2)] assms(1) by (auto simp: table_step_def)

text \<open>An insertion that has to grow the table first.\<close>

lemma insert_grow_ok:
  assumes "hash_inv H t" and "hasher t = h" and "comparator t = c" and "e \<noteq> 0" and "find_match t e = 0"
    and "tuning_reasonable (deref_tuning H (tuning t))"
  shows "\<exists>r t' H'. hash_inv H' t' \<and> table_step H t H' t' \<and>
     (r = 1 \<and> Es t' = add_mset e (Es t) \<or> r = - 1 \<and> Es t' = Es t) \<and>
     bindR (hash_rehash t cand H) (\<lambda>(ok, table, H).
         if \<not> ok then Inr (- 1, None, table, H)
         else bindR (hash_find_entry table e False) (\<lambda>(d, i, table).
                if d \<noteq> 0 then Inl Abort else insert_at table i e H)) = Inr (r, None, t', H')"
proof -
  note inv = hash_invD [OF assms(1)]
  obtain n where "compute_bucket_size cand (deref_tuning H (tuning t)) = Inr n"
    using compute_bucket_size_defined [OF assms(6)] by blast
  from hash_rehash_inv [OF assms(1,2) this]
  obtain ok t1 H1 where re: "hash_rehash t cand H = Inr (ok, t1, H1)" "hash_inv H1 t1"
    "table_step H t H1 t1" "Es t1 = Es t" by blast
  have cfg: "hasher t1 = h" "comparator t1 = c"
    using re(3) assms(2,3) by (simp_all add: table_step_def)
  note inv1 = hash_invD [OF re(2)]
  have none: "find_match t1 e = 0"
    using find_match_none [OF inv(1) inv1(1) re(4) _ assms(5)] cfg assms(3) by simp
  show ?thesis
  proof (cases ok)
    case False
    with re show ?thesis by auto
  next
    case True
    obtain r t2 H2 where "insert_at t1 (slot (n_buckets t1) e) e H1 = Inr (r, None, t2, H2)" "hash_inv H2 t2"
      "table_step H1 t1 H2 t2" "r = 1 \<and> Es t2 = add_mset e (Es t1) \<or> r = - 1 \<and> Es t2 = Es t1"
      using insert_at_ok [OF re(2) cfg assms(4) none] by blast
    with True re show ?thesis
      using hash_find_entry_ok [OF inv1(1) cfg assms(4)] none table_step_trans [OF re(3)]
      by (intro exI [of _ r] exI [of _ t2] exI [of _ H2]) auto
  qed
qed

lemma hash_insert_if_absent_ok:
  assumes "hash_inv H t" and "hasher t = h" and "comparator t = c" and "e \<noteq> 0"
  shows "\<exists>r m t' H'. hash_insert_if_absent t e H = Inr (r, m, t', H') \<and> hash_inv H' t' \<and> table_step H t H' t' \<and>
     (if find_match t e \<noteq> 0 then r = 0 \<and> m = Some (find_match t e) \<and> t' = t \<and> H' = H
      else m = None \<and> (r = 1 \<and> Es t' = add_mset e (Es t) \<or> r = - 1 \<and> Es t' = Es t))"
proof (cases "find_match t e = 0")
  case False
  then show ?thesis
    using assms hash_find_entry_ok [OF hash_invD(1) [OF assms(1)] assms(2-4)]
    by (simp add: hash_insert_if_absent_def)
next
  case True
  note find = hash_find_entry_ok [OF hash_invD(1) [OF assms(1)] assms(2-4)]
  note plain = insert_at_ok [OF assms True]
  obtain ok t1 where ct: "check_tuning H t = (ok, t1)" by fastforce
  note t1 = check_tuning_inv [OF assms(1) ct]
  have cfg: "hasher t1 = h" "comparator t1 = c"
    using t1(2) assms(2,3) by (simp_all add: table_step_def)
  have none: "find_match t1 e = 0"
    using find_match_none [OF hash_invD(1) [OF assms(1)] hash_invD(1) [OF t1(1)] t1(3) _ True] cfg assms(3) by simp
  note good = check_tuning_props(1) [OF ct]
  note plain1 = insert_at_ok [OF t1(1) cfg assms(4) none, unfolded t1(3,4)]
  note grow = insert_grow_ok [OF t1(1) cfg assms(4) none good, unfolded t1(3)]
  note big = growth_candidate_defined [OF good table_wfD(2) [OF hash_invD(1) [OF t1(1)]]]
  note trans = table_step_trans [OF t1(2)]
  consider "\<not> above_growth_threshold H t" | "above_growth_threshold H t" "\<not> above_growth_threshold H t1"
    | "above_growth_threshold H t" "above_growth_threshold H t1" "fl_le (fl_of_size SIZE_MAX) (growth_candidate H t1)"
    | cand where "above_growth_threshold H t" "above_growth_threshold H t1"
        "\<not> fl_le (fl_of_size SIZE_MAX) (growth_candidate H t1)" "fl_to_size (growth_candidate H t1) = Some cand"
    using big by blast
  then show ?thesis
  proof cases
    case 1
    then show ?thesis
      using plain find True assms(4) by (auto simp: hash_insert_if_absent_def)
  next
    case 2
    then show ?thesis
      using plain1 trans find True assms(4) ct by (fastforce simp: hash_insert_if_absent_def)
  next
    case 3
    then show ?thesis
      using t1 find True assms(4) ct by (auto simp: hash_insert_if_absent_def)
  next
    case 4
    obtain r t' H' where g: "hash_inv H' t'" "table_step H t1 H' t'"
      "r = 1 \<and> Es t' = add_mset e (Es t) \<or> r = - 1 \<and> Es t' = Es t"
      "bindR (hash_rehash t1 cand H) (\<lambda>(ok, table, H).
         if \<not> ok then Inr (- 1, None, table, H)
         else bindR (hash_find_entry table e False) (\<lambda>(d, i, table).
                if d \<noteq> 0 then Inl Abort else insert_at table i e H)) = Inr (r, None, t', H')"
      using grow [of cand] by blast
    have "hash_insert_if_absent t e H = Inr (r, None, t', H')"
      using 4 g(4) find True assms(4) ct by (simp add: hash_insert_if_absent_def Let_def)
    with g trans True show ?thesis by auto
  qed
qed

text \<open>The shrinking at the end of a removal.\<close>

lemma remove_shrink_ok:
  assumes "hash_inv H t" and "hasher t = h" and "tuning_reasonable (deref_tuning H (tuning t))"
  shows "\<exists>t' H'. hash_inv H' t' \<and> table_step H t H' t' \<and> Es t' = Es t \<and>
     bindR (hash_rehash t cand H) (\<lambda>(ok, table, H).
        if ok then Inr (d, table, H)
        else bindR (free_list (free_entry_list table) H) (\<lambda>H.
               Inr (d, table\<lparr>free_entry_list := []\<rparr>, H))) = Inr (d, t', H')"
proof -
  obtain n where "compute_bucket_size cand (deref_tuning H (tuning t)) = Inr n"
    using compute_bucket_size_defined [OF assms(3)] by blast
  from hash_rehash_inv [OF assms(1,2) this]
  obtain ok t1 H1 where re: "hash_rehash t cand H = Inr (ok, t1, H1)" "hash_inv H1 t1"
    "table_step H t H1 t1" "Es t1 = Es t" by blast
  note inv1 = hash_invD [OF re(2)]
  show ?thesis
  proof (cases ok)
    case True
    with re show ?thesis by auto
  next
    case False
    let ?t = "t1\<lparr>free_entry_list := []\<rparr>"
    have blk: "blocks_of t1 = Fr t1 + blocks_of ?t" by (simp add: blocks_of_def)
    obtain H2 where H2: "free_list (free_entry_list t1) H1 = Inr H2" "own_step H1 (blocks_of t1) H2 (blocks_of ?t)"
      using owned_free_list [of H1 "free_entry_list t1" "blocks_of ?t"] inv1(5) blk by auto
    have "owned H2 (blocks_of ?t)" using own_stepD [OF H2(2), of "{#}"] inv1(5) by simp
    then have "hash_inv H2 ?t"
      using hash_inv_same_entries [OF re(2), of ?t H2] inv1(1,2) by simp
    moreover have "table_step H1 t1 H2 ?t" using H2(2) by (simp add: table_step_def)
    ultimately show ?thesis
      using re H2(1) False table_step_trans [OF re(3)] by auto
  qed
qed

lemma hash_remove_ok:
  assumes "hash_inv H t" and "hasher t = h" and "comparator t = c" and "e \<noteq> 0"
  shows "\<exists>t' H'. hash_remove t e H = Inr (find_match t e, t', H') \<and> hash_inv H' t' \<and> table_step H t H' t' \<and>
     (if find_match t e = 0 then t' = t \<and> H' = H else Es t = add_mset (find_match t e) (Es t'))"
proof -
  note inv = hash_invD [OF assms(1)]
  let ?i = "slot (n_buckets t) e" and ?d = "find_match t e"
  obtain t1 where f: "hash_find_entry t e True = Inr (?d, ?i, t1)" "?i < length (bucket t1)"
    "same_config t t1" "n_buckets_used t1 = n_buckets_used t" "?d = 0 \<longrightarrow> t1 = t"
    "?d \<noteq> 0 \<longrightarrow> Es t = add_mset ?d (Es t1) \<and> Ov t1 + Fr t1 = Ov t + Fr t \<and>
       table_wf (if bdata (bucket t1 ! ?i) = 0 then t1\<lparr>n_buckets_used := n_buckets_used t - 1\<rparr> else t1)"
    using hash_find_entry_delete [OF inv(1) assms(2-4)] by blast
  show ?thesis
  proof (cases "?d = 0")
    case True
    then show ?thesis using f assms(1) by (auto simp: hash_remove_def)
  next
    case False
    define t2 where "t2 = (if bdata (bucket t1 ! ?i) = 0
       then t1\<lparr>n_entries := n_entries t1 - 1, n_buckets_used := n_buckets_used t1 - 1\<rparr>
       else t1\<lparr>n_entries := n_entries t1 - 1\<rparr>)"
    have fields: "Es t = add_mset ?d (Es t2)" "blocks_of t2 = blocks_of t" "hasher t2 = h" "comparator t2 = c"
      "data_freer t2 = data_freer t" "tuning t2 = tuning t" "n_buckets t2 = n_buckets t" "n_entries t2 = n_entries t - 1" "table_wf t2"
      using f(3-6) False assms(2,3)
      by (auto simp: t2_def blocks_of_def same_config_def table_wf_def split: if_splits)
    have inv2: "hash_inv H t2" "table_step H t H t2"
      using hash_inv_remove_entry [OF assms(1) fields(9,1,8,7), of H] fields inv(5) assms(2,3)
      by (simp_all add: table_step_def)
    have es: "Es t' = Es t2 \<Longrightarrow> Es t = add_mset ?d (Es t')" for t' :: "'a hash_table" using fields(1) by simp
    obtain ok t3 where ct: "check_tuning H t2 = (ok, t3)" by fastforce
    note t3 = check_tuning_inv [OF inv2(1) ct] and good = check_tuning_props(1) [OF ct]
    obtain cand where cand: "fl_to_size (shrink_candidate H t3) = Some cand"
      using shrink_candidate_defined [OF good hash_invD(2) [OF t3(1)]] by blast
    have "hasher t3 = h" using t3(2) fields(3) by (simp add: table_step_def)
    from remove_shrink_ok [OF t3(1) this good, of cand ?d] obtain t' H' where sh:
      "hash_inv H' t'" "table_step H t3 H' t'" "Es t' = Es t3"
      "bindR (hash_rehash t3 cand H) (\<lambda>(ok, table, H).
        if ok then Inr (?d, table, H)
        else bindR (free_list (free_entry_list table) H) (\<lambda>H.
               Inr (?d, table\<lparr>free_entry_list := []\<rparr>, H))) = Inr (?d, t', H')"
      by blast
    have body: "hash_remove t e H = Inr (if bdata (bucket t1 ! ?i) \<noteq> 0 \<or> \<not> below_shrink_threshold H t2 then (?d, t2, H)
         else if \<not> below_shrink_threshold H t3 then (?d, t3, H) else (?d, t', H'))"
    proof (cases "bdata (bucket t1 ! ?i) = 0")
      case True
      then have "t1\<lparr>n_entries := n_entries t1 - 1, n_buckets_used := n_buckets_used t1 - 1\<rparr> = t2"
        by (simp add: t2_def)
      then show ?thesis
        using f(1,2) False ct cand sh(4) True by (simp add: hash_remove_def Let_def)
    next
      case used: False
      then show ?thesis using f(1,2) False by (simp add: hash_remove_def Let_def t2_def)
    qed
    show ?thesis
      unfolding body using inv2 t3 sh False fields(1) table_step_trans [OF inv2(2)] table_step_trans [OF t3(2)]
      by auto
  qed
qed

end

end
