(* ===== verification/HashLife.thy ===== *)
theory HashLife
  imports HashOps
begin

section \<open>Creating, clearing and freeing a table\<close>

text \<open>
  \<open>hash_initialize\<close> establishes the invariant or returns NULL and gives back what it had
  allocated; \<open>hash_clear\<close> calls the client's freer once per entry and keeps every block for
  reuse; \<open>hash_free\<close> releases exactly the blocks of the table.
\<close>

subsection \<open>Initialisation\<close>

definition hash_defaults ::
  "(ptr \<Rightarrow> size_t \<Rightarrow> size_t res) option \<Rightarrow> (ptr \<Rightarrow> ptr \<Rightarrow> bool) option \<Rightarrow>
   (ptr \<Rightarrow> size_t \<Rightarrow> size_t res) \<times> (ptr \<Rightarrow> ptr \<Rightarrow> bool)" where
  "hash_defaults hshr cmp =
     (case hshr of None \<Rightarrow> raw_hasher | Some h \<Rightarrow> h, case cmp of None \<Rightarrow> raw_comparator | Some c \<Rightarrow> c)"

lemma check_tuning_eq:
  "check_tuning H t = (if tuning_reasonable (deref_tuning H (tuning t)) then (True, t)
     else (False, t\<lparr>tuning := Default_tuning\<rparr>))"
  using tuning_reasonable_default by (auto simp: check_tuning_def deref_tuning_def)

lemma hash_inv_fresh:
  fixes n :: size_t and block :: nat
  assumes "n \<noteq> 0" and "unat n < 2 ^ 60" and "owned H {#block#}"
    and "bucket t = replicate (unat n) empty_bucket" and "bucket_block t = block" and "n_buckets t = n"
    and "n_buckets_used t = 0" and "n_entries t = 0" and "free_entry_list t = []"
  shows "hash_inv H t" and "entries t = []" and "blocks_of t = {#block#}"
proof -
  have e: "entries t = []" and o: "overflow t = []"
    using assms(4) entries_replicate(1,2) [of "unat n"] by (simp_all add: entries_def overflow_def)
  show "entries t = []" by fact
  show b: "blocks_of t = {#block#}" using assms o by (simp add: blocks_of_def)
  have "table_wf t" using assms entries_replicate(3) by (simp add: table_wf_def)
  then show "hash_inv H t" using assms e b by (simp add: hash_inv_def)
qed

text \<open>The body after the structure has been allocated at \<open>addr\<close>.\<close>

definition table_shell :: "tuning_ref \<Rightarrow> (ptr \<Rightarrow> size_t \<Rightarrow> size_t res) \<times> (ptr \<Rightarrow> ptr \<Rightarrow> bool) \<Rightarrow>
    (ptr \<Rightarrow> 'w \<Rightarrow> 'w) option \<Rightarrow> size_t \<Rightarrow> nat \<Rightarrow> 'w hash_table" where
  "table_shell tun fs freer n block =
     \<lparr>bucket = replicate (unat n) empty_bucket, bucket_block = block, n_buckets = n, n_buckets_used = 0,
      n_entries = 0, tuning = tun, hasher = fst fs, comparator = snd fs, data_freer = freer, free_entry_list = []\<rparr>"

lemma hash_initialize_unfold:
  fixes tn :: "tuning_ref option"
  assumes "malloc H = (Some addr, H1)"
  defines "tun \<equiv> (case tn of None \<Rightarrow> Default_tuning | Some r \<Rightarrow> r)"
  shows "hash_initialize cand tn hshr cmp freer H =
     (if \<not> tuning_reasonable (deref_tuning H tun) then bindR (free addr H1) (\<lambda>H. Inr (None, H))
      else bindR (compute_bucket_size cand (deref_tuning H tun)) (\<lambda>n.
         if n = 0 then bindR (free addr H1) (\<lambda>H. Inr (None, H))
         else case malloc H1 of (None, H) \<Rightarrow> bindR (free addr H) (\<lambda>H. Inr (None, H))
              | (Some block, H) \<Rightarrow> Inr (Some (addr, table_shell tun (hash_defaults hshr cmp) freer n block), H)))"
proof -
  have "deref_tuning H1 tun = deref_tuning H tun"
    using malloc_tunings [OF assms(1)] by (simp add: deref_tuning_def split: tuning_ref.splits)
  then show ?thesis
    using assms(1)
    by (simp add: hash_initialize_def table_shell_def tun_def [symmetric] hash_defaults_def check_tuning_eq
        Let_def bindR_def [of "compute_bucket_size _ _"] split: sum.split prod.split option.split)
qed

lemma release_shell:
  assumes "owned H X" and "own_step H {#} H2 {#addr#}"
  shows "\<exists>H3. free addr H2 = Inr H3 \<and> own_step H {#} H3 {#}"
proof -
  have "owned H2 (add_mset addr X)" using own_stepD [OF assms(2), of X] assms(1) by simp
  then obtain H3 where "free addr H2 = Inr H3" using owned_free by blast
  with own_step_trans [OF assms(2) free_own_step [OF this, of "{#}"]] show ?thesis by simp
qed

lemma hash_initialize_ok:
  fixes tn :: "tuning_ref option"
  assumes "owned H X"
  defines "tun \<equiv> (case tn of None \<Rightarrow> Default_tuning | Some r \<Rightarrow> r)"
  shows "\<exists>r H'. hash_initialize cand tn hshr cmp freer H = Inr (r, H') \<and>
     (case r of
        None \<Rightarrow> own_step H {#} H' {#}
      | Some (addr, t) \<Rightarrow> tuning_reasonable (deref_tuning H tun) \<and> hash_inv H' t \<and> entries t = [] \<and>
          blocks_of t = {#bucket_block t#} \<and> own_step H {#} H' (add_mset addr (blocks_of t)) \<and>
          (hasher t, comparator t) = hash_defaults hshr cmp \<and> data_freer t = freer \<and> tuning t = tun \<and>
          compute_bucket_size cand (deref_tuning H tun) = Inr (n_buckets t))"
proof (cases "malloc H")
  case (Pair p H1)
  show ?thesis
  proof (cases p)
    case None
    with Pair malloc_fail_own_step show ?thesis by (auto simp: hash_initialize_def)
  next
    case (Some addr)
    note m1 = malloc_own_step [OF Pair [unfolded Some], of "{#}"]
    note body = hash_initialize_unfold [OF Pair [unfolded Some], of cand tn hshr cmp freer, folded tun_def]
    note failed = release_shell [OF assms(1)]
    show ?thesis
    proof (cases "tuning_reasonable (deref_tuning H tun)")
      case False
      with body failed [OF m1] show ?thesis by auto
    next
      case True
      then obtain n where n: "compute_bucket_size cand (deref_tuning H tun) = Inr n"
        using compute_bucket_size_defined by blast
      obtain q H2 where m2: "malloc H1 = (q, H2)" by fastforce
      consider "n = 0" | "n \<noteq> 0" "q = None" | block where "n \<noteq> 0" "q = Some block" by auto
      then show ?thesis
      proof cases
        case 1
        with body n failed [OF m1] True show ?thesis by auto
      next
        case 2
        with failed [OF own_step_trans [OF m1 malloc_fail_own_step]] body True n m2 show ?thesis by fastforce
      next
        case 3
        let ?t = "table_shell tun (hash_defaults hshr cmp) freer n block"
        have s2: "own_step H {#} H2 {#block, addr#}"
          using own_step_trans [OF m1] malloc_own_step [OF m2 [unfolded 3], of "{#addr#}"] by simp
        have "owned H2 {#block#}"
          using own_stepD [OF s2, of X] assms(1) owned_sub [of H2 "{#block#}" "add_mset addr X"]
          by (simp add: add_mset_commute)
        moreover have "unat n < 2 ^ 60" using compute_bucket_size_prime [OF n 3(1)] by simp
        ultimately have "hash_inv H2 ?t" "entries ?t = []" "blocks_of ?t = {#block#}"
          using hash_inv_fresh [of n H2 block ?t] 3(1) by (simp_all add: table_shell_def)
        then show ?thesis
          using body True n 3 m2 s2 by (auto simp: table_shell_def add_mset_commute)
      qed
    qed
  qed
qed

subsection \<open>Clearing\<close>

text \<open>The order in which \<open>hash_clear\<close> hands the entries of a bucket to the freer.\<close>

definition clear_order :: "hash_bucket \<Rightarrow> ptr list" where
  "clear_order b = (if bdata b = 0 then [] else map snd (bnext b) @ [bdata b])"

lemma clear_order_mset: "mset (clear_order b) = mset (bucket_entries b)"
  by (simp add: clear_order_def bucket_entries_def bucket_chain_def)

lemma clear_overflow_eq:
  "clear_overflow t ns fl w = (rev (map fst ns) @ fl, fold (call_freer t) (map snd ns) w)"
  by (induction t ns fl w rule: clear_overflow.induct) auto

lemma clear_loop_eq:
  assumes "\<forall>b \<in> set bs. bdata b = 0 \<longrightarrow> bnext b = []"
  shows "\<exists>fl'. clear_loop t bs fl w =
       (replicate (length bs) empty_bucket, fl', fold (call_freer t) (concat (map clear_order bs)) w) \<and>
     mset fl' = mset (concat (map (\<lambda>b. map fst (bnext b)) bs)) + mset fl"
  using assms
proof (induction bs arbitrary: fl w)
  case Nil
  then show ?case by simp
next
  case (Cons b bs)
  have "bdata b = 0 \<Longrightarrow> b = empty_bucket" using Cons.prems by (simp add: empty_bucket_def)
  then show ?case
    using Cons.IH [of fl w] Cons.IH [of "rev (map fst (bnext b)) @ fl" "fold (call_freer t) (clear_order b) w"] Cons.prems
    by (cases "bdata b = 0") (auto simp: clear_overflow_eq clear_order_def empty_bucket_def)
qed

lemma hash_clear_ok:
  assumes "hash_inv H t"
  shows "\<exists>t' ds. hash_clear t w = (t', fold (call_freer t) ds w) \<and> mset ds = Es t \<and>
     hash_inv H t' \<and> entries t' = [] \<and> table_step H t H t' \<and> blocks_of t' = blocks_of t \<and> n_buckets t' = n_buckets t"
proof -
  note inv = hash_invD [OF assms]
  have "\<forall>b \<in> set (bucket t). bdata b = 0 \<longrightarrow> bnext b = []"
    using table_wfD(3) [OF inv(1)] by (auto simp: in_set_conv_nth bucket_wf_def)
  from clear_loop_eq [OF this, of t "free_entry_list t" w] obtain fl where
    cl: "clear_loop t (bucket t) (free_entry_list t) w =
       (replicate (length (bucket t)) empty_bucket, fl, fold (call_freer t) (concat (map clear_order (bucket t))) w)"
    "mset fl = Ov t + Fr t" by (auto simp: overflow_def)
  define t' where "t' = t\<lparr>bucket := replicate (length (bucket t)) empty_bucket, free_entry_list := fl,
     n_buckets_used := 0, n_entries := 0\<rparr>"
  have e: "entries t' = []" "overflow t' = []"
    using entries_replicate(1,2) [of "length (bucket t)"] by (simp_all add: t'_def entries_def overflow_def)
  have b: "blocks_of t' = blocks_of t" unfolding blocks_of_def e using cl(2) by (simp add: t'_def)
  have "table_wf t'" using table_wfD [OF inv(1)] entries_replicate(3) by (simp add: t'_def table_wf_def)
  then have "hash_inv H t'" using e b inv by (simp add: hash_inv_def t'_def)
  moreover have "mset (concat (map clear_order (bucket t))) = Es t"
    by (simp add: entries_def mset_concat image_mset.compositionality comp_def clear_order_mset flip: mset_map)
  ultimately show ?thesis
    using cl e b by (auto simp: hash_clear_def table_step_def t'_def)
qed

subsection \<open>Freeing\<close>

lemma free_data_loop_eq: "free_data_loop t bs w = fold (call_freer t) (concat (map bucket_entries bs)) w"
  by (induction bs arbitrary: w) (auto simp: bucket_entries_def)

lemma free_list_append: "free_list (as @ bs) H = bindR (free_list as H) (free_list bs)"
  by (induction as arbitrary: H) (simp_all add: bindR_def split: sum.splits)

lemma free_overflow_loop_eq: "free_overflow_loop bs H = free_list (concat (map (\<lambda>b. map fst (bnext b)) bs)) H"
proof (induction bs arbitrary: H)
  case (Cons b bs)
  then have "free_overflow_loop bs = free_list (concat (map (\<lambda>b. map fst (bnext b)) bs))" by (simp add: fun_eq_iff)
  then show ?case by (simp add: free_list_append)
qed simp

lemma hash_free_eq:
  "hash_free addr t w H =
     bindR (free_list (overflow t @ free_entry_list t @ [bucket_block t, addr]) H) (\<lambda>H'.
       Inr (if data_freer t \<noteq> None \<and> n_entries t \<noteq> 0 then fold (call_freer t) (entries t) w else w, H'))"
  by (simp add: hash_free_def free_overflow_loop_eq free_data_loop_eq free_list_append overflow_def entries_def
      bindR_assoc Let_def)

lemma hash_free_ok:
  assumes "hash_inv H t" and "owned H (add_mset addr (blocks_of t))"
  shows "\<exists>H'. hash_free addr t w H = Inr (fold (call_freer t) (entries t) w, H') \<and>
     own_step H (add_mset addr (blocks_of t)) H' {#}"
proof -
  let ?as = "overflow t @ free_entry_list t @ [bucket_block t, addr]"
  have as: "add_mset addr (blocks_of t) = mset ?as + {#}" by (simp add: blocks_of_def add_mset_commute)
  obtain H' where H': "free_list ?as H = Inr H'" "own_step H (mset ?as + {#}) H' {#}"
    using owned_free_list [of H ?as "{#}"] assms(2) as by auto
  have "n_entries t = 0 \<Longrightarrow> entries t = []"
    using hash_invD(3) [OF assms(1)] by simp
  moreover have "data_freer t = None \<Longrightarrow> fold (call_freer t) ds w = w" for ds
    by (induction ds arbitrary: w) (simp_all add: call_freer_def)
  ultimately show ?thesis
    using H' unfolding hash_free_eq as by auto
qed

end
