(* ===== verification/HashWalk.thy ===== *)
theory HashWalk
  imports HashOps
begin

section \<open>Statistics and walks over a table\<close>

text \<open>
  What the read-only operations of \<open>hash.c\<close> return, in terms of the list of entries: the
  statistics, the consistency check, the walk by \<open>hash_get_first\<close> and \<open>hash_get_next\<close>, the copy
  of all entries into a buffer and the traversal with a callback.
\<close>

subsection \<open>Counting\<close>

lemma count_overflow_eq: "count_overflow ns n = n + of_nat (length ns)"
  by (induction ns n rule: count_overflow.induct) (simp_all add: algebra_simps)

lemma table_ok_loop_eq:
  "table_ok_loop bs (u, n) =
     (u + of_nat (length (filter used bs)), n + of_nat (length (concat (map bucket_entries bs))))"
  by (induction bs arbitrary: u n)
     (simp_all add: count_overflow_eq used_def bucket_entries_def bucket_chain_def algebra_simps)

lemma of_nat_size_eq: "n < 2 ^ 64 \<Longrightarrow> (of_nat n = (m :: size_t)) \<longleftrightarrow> unat m = n"
  by (auto simp: unat_of_nat)

lemma hash_table_ok_iff:
  assumes "length (entries t) < 2 ^ 64" and "length (bucket t) < 2 ^ 64"
  shows "hash_table_ok t \<longleftrightarrow>
     unat (n_buckets_used t) = length (filter used (bucket t)) \<and> unat (n_entries t) = length (entries t)"
proof -
  have "length (filter used (bucket t)) < 2 ^ 64"
    using length_filter_le assms(2) by (rule le_less_trans)
  then show ?thesis
    using assms(1) by (simp add: hash_table_ok_def table_ok_loop_eq entries_def [symmetric] of_nat_size_eq)
qed

lemma hash_inv_sizes:
  assumes "hash_inv H t"
  shows "length (entries t) < 2 ^ 64" and "length (bucket t) < 2 ^ 64"
    and "b \<in> set (bucket t) \<Longrightarrow> length (bucket_entries b) \<le> length (entries t)"
proof -
  note inv = hash_invD [OF assms]
  show "length (entries t) < 2 ^ 64" using inv(3) size_t_lt [of "n_entries t"] by simp
  show "length (bucket t) < 2 ^ 64" using table_wfD(1) [OF inv(1)] size_t_lt [of "n_buckets t"] by simp
  show "length (bucket_entries b) \<le> length (entries t)" if "b \<in> set (bucket t)"
    using that unfolding entries_def by (auto dest!: split_list)
qed

lemma max_bucket_length_loop_eq:
  assumes "\<forall>b \<in> set bs. length (bucket_entries b) < 2 ^ 64"
  shows "unat (max_bucket_length_loop bs m) = Max (insert (unat m) ((\<lambda>b. length (bucket_entries b)) ` set bs))"
  using assms
proof (induction bs arbitrary: m)
  case Nil
  then show ?case by simp
next
  case (Cons b bs)
  let ?n = "of_nat (length (bucket_entries b)) :: size_t"
  have n: "unat ?n = length (bucket_entries b)"
    using Cons.prems by (simp add: unat_of_nat)
  have "max_bucket_length_loop (b # bs) m = max_bucket_length_loop bs (if m < ?n then ?n else m)"
    by (cases "bdata b = 0") (simp_all add: count_overflow_eq bucket_entries_def bucket_chain_def)
  moreover have "unat (if m < ?n then ?n else m) = max (unat m) (length (bucket_entries b))"
    using n by (simp add: word_less_nat_alt max_def)
  ultimately show ?case
    using Cons by (cases "bs = []") (simp_all add: max.assoc max.left_commute max.commute)
qed

subsection \<open>Copying and visiting all entries\<close>

lemma get_entries_chain_eq:
  assumes "unat bsz \<le> length buf" and "unat k \<le> unat bsz"
  shows "get_entries_chain bsz ds k buf =
     (let m = min (length ds) (unat bsz - unat k)
      in Inr (m < length ds, k + of_nat m, take (unat k) buf @ take m ds @ drop (unat k + m) buf))"
  using assms
proof (induction ds arbitrary: k buf)
  case Nil
  then show ?case by simp
next
  case (Cons d ds)
  show ?case
  proof (cases "bsz \<le> k")
    case True
    with Cons.prems show ?thesis by (simp add: word_le_nat_alt)
  next
    case False
    then have lt: "unat k < unat bsz" by (simp add: word_le_nat_alt)
    then have k1: "unat (k + 1) = Suc (unat k)"
      using size_t_lt [of bsz] by (simp add: unat_word_ariths)
    have buf: "take (Suc (unat k)) (buf[unat k := d]) = take (unat k) buf @ [d]"
      using lt Cons.prems(1) by (simp add: take_Suc_conv_app_nth)
    have m: "min (length (d # ds)) (unat bsz - unat k) = Suc (min (length ds) (unat bsz - unat (k + 1)))"
      using lt k1 by simp
    have "get_entries_chain bsz (d # ds) k buf = get_entries_chain bsz ds (k + 1) (buf[unat k := d])"
      using False lt Cons.prems(1) by simp
    also have "\<dots> = (let m = min (length ds) (unat bsz - unat (k + 1)) in
        Inr (m < length ds, k + 1 + of_nat m, take (unat k) buf @ [d] @ take m ds @ drop (unat k + Suc m) buf))"
      using Cons.IH [of "buf[unat k := d]" "k + 1"] Cons.prems(1) lt k1
      by (simp add: buf k1 Let_def)
    finally show ?thesis
      unfolding m Let_def by (simp add: algebra_simps)
  qed
qed

text \<open>The buffer after copying \<open>ds\<close> from index \<open>k\<close> on, as far as it reaches.\<close>

lemma get_entries_loop_eq:
  fixes bs :: "hash_bucket list"
  assumes "unat bsz \<le> length buf" and "unat k \<le> unat bsz"
  defines "ds \<equiv> concat (map bucket_entries bs)"
  defines "m \<equiv> min (length ds) (unat bsz - unat k)"
  shows "get_entries_loop bsz bs k buf = Inr (k + of_nat m, take (unat k) buf @ take m ds @ drop (unat k + m) buf)"
  using assms(1,2) unfolding ds_def m_def
proof (induction bs arbitrary: k buf)
  case Nil
  then show ?case by simp
next
  case (Cons b bs)
  show ?case
  proof (cases "bdata b = 0")
    case True
    with Cons show ?thesis by (simp add: bucket_entries_def)
  next
    case False
    let ?es = "bucket_entries b" and ?ds = "concat (map bucket_entries bs)"
    define m where "m = min (length ?es) (unat bsz - unat k)"
    define k1 where "k1 = k + of_nat m"
    define buf1 where "buf1 = take (unat k) buf @ take m ?es @ drop (unat k + m) buf"
    have chain: "get_entries_chain bsz (bucket_chain b) k buf = Inr (m < length ?es, k1, buf1)"
      using get_entries_chain_eq [OF Cons.prems, of ?es] False
      by (simp add: Let_def m_def k1_def buf1_def bucket_entries_def)
    have "unat k + m \<le> unat bsz" using Cons.prems(2) by (simp add: m_def)
    then have uk1: "unat k1 = unat k + m"
      using size_t_lt [of bsz] by (simp add: k1_def unat_word_ariths unat_of_nat)
    have len: "length buf1 = length buf" using Cons.prems \<open>unat k + m \<le> unat bsz\<close> by (simp add: buf1_def m_def)
    show ?thesis
    proof (cases "m < length ?es")
      case True
      then have m: "m = unat bsz - unat k" by (simp add: m_def)
      then show ?thesis
        using chain False True by (simp add: k1_def buf1_def bucket_entries_def)
    next
      case fits: False
      then have m: "m = length ?es" by (simp add: m_def)
      let ?m = "min (length ?ds) (unat bsz - unat k1)"
      have tot: "min (length (?es @ ?ds)) (unat bsz - unat k) = m + ?m"
        using \<open>unat k + m \<le> unat bsz\<close> m uk1 by simp
      have "get_entries_loop bsz (b # bs) k buf = get_entries_loop bsz bs k1 buf1"
        using chain fits False by simp
      also have "\<dots> = Inr (k1 + of_nat ?m, take (unat k1) buf1 @ take ?m ?ds @ drop (unat k1 + ?m) buf1)"
        using Cons.IH [of buf1 k1] Cons.prems len uk1 \<open>unat k + m \<le> unat bsz\<close> by simp
      also have "take (unat k1) buf1 = take (unat k) buf @ ?es"
        using m uk1 Cons.prems by (simp add: buf1_def)
      also have "drop (unat k1 + ?m) buf1 = drop (unat k + (m + ?m)) buf"
        using m uk1 Cons.prems \<open>unat k + m \<le> unat bsz\<close> by (simp add: buf1_def add_ac)
      finally have "get_entries_loop bsz (b # bs) k buf = Inr (k + of_nat (m + ?m),
          take (unat k) buf @ take (m + ?m) (?es @ ?ds) @ drop (unat k + (m + ?m)) buf)"
        using m by (simp add: k1_def add_ac)
      then show ?thesis unfolding list.map concat.simps tot .
    qed
  qed
qed

lemma for_each_chain_eq:
  "for_each_chain p (xs @ ys) k pd =
     (let (stopped, k, pd) = for_each_chain p xs k pd
      in if stopped then (True, k, pd) else for_each_chain p ys k pd)"
  by (induction xs arbitrary: k pd) (auto simp: split_beta Let_def)

lemma for_each_loop_eq: "for_each_loop p bs k pd = snd (for_each_chain p (concat (map bucket_entries bs)) k pd)"
  by (induction bs arbitrary: k pd)
     (auto simp: bucket_entries_def for_each_chain_eq split_beta Let_def)

lemma for_each_chain_all:
  assumes "\<forall>d \<in> set ds. \<forall>s. fst (p d s)"
  shows "for_each_chain p ds k pd = (False, k + of_nat (length ds), fold (\<lambda>d s. snd (p d s)) ds pd)"
  using assms by (induction ds arbitrary: k pd) (auto simp: split_beta Let_def algebra_simps)

subsection \<open>First and next\<close>

lemma first_used_eq: "concat (map bucket_entries bs) \<noteq> [] \<Longrightarrow> first_used bs = Inr (hd (concat (map bucket_entries bs)))"
  by (induction bs) (auto simp: bucket_entries_def bucket_chain_def)

lemma next_used_eq: "next_used bs = (case concat (map bucket_entries bs) of [] \<Rightarrow> 0 | d # _ \<Rightarrow> d)"
  by (induction bs) (auto simp: bucket_entries_def bucket_chain_def)

lemma next_in_chain_eq:
  "e \<notin> set us \<Longrightarrow> next_in_chain e (us @ e # vs) = (case vs of [] \<Rightarrow> None | d # _ \<Rightarrow> Some d)"
  by (induction us) (auto split: list.splits)

context hash_range
begin

lemma hash_get_next_ok:
  assumes "hash_inv H t" and "hasher t = h" and "entries t = xs @ e # ys"
  shows "hash_get_next t e = Inr (case ys of [] \<Rightarrow> 0 | d # _ \<Rightarrow> d)"
proof -
  note inv = hash_invD [OF assms(1)]
  have e: "e \<in> set (entries t)" using assms(3) by simp
  have e0: "e \<noteq> 0" using entries_nonnull [OF inv(1) e] .
  define i where "i = slot (n_buckets t) e"
  note sb = slot_bucket [OF inv(1) assms(2) e0, folded i_def]
  let ?b = "bucket t ! i"
  have "e \<in> set (bucket_entries ?b)"
    using in_entries_slot [OF inv(1) assms(2) e0] e by (simp add: i_def)
  then obtain us vs where b: "bucket_entries ?b = us @ e # vs"
    by (auto dest: split_list)
  let ?rest = "concat (map bucket_entries (drop (Suc i) (bucket t)))"
  have "entries t = (concat (map bucket_entries (take i (bucket t))) @ us) @ e # vs @ ?rest"
    using concat_map_split [OF sb(2), of bucket_entries] b by (simp add: entries_def)
  then have eq: "xs @ e # ys = (concat (map bucket_entries (take i (bucket t))) @ us) @ e # vs @ ?rest"
    using assms(3) by simp
  have nin: "e \<notin> set xs" "e \<notin> set ys" using inv(4) assms(3) by auto
  have xy: "xs = concat (map bucket_entries (take i (bucket t))) @ us" "ys = vs @ ?rest"
    using iffD1 [OF append_Cons_eq_iff [OF nin] eq] by (blast, blast)
  have "e \<notin> set us" using nin(1) xy(1) by auto
  moreover have "bucket_chain ?b = us @ e # vs" using b by (simp add: bucket_entries_def split: if_splits)
  ultimately show ?thesis
    using sb xy(2) next_in_chain_eq [of e us vs]
    by (cases vs) (simp_all add: hash_get_next_def next_used_eq)
qed

end

lemma hash_get_first_ok:
  assumes "hash_inv H t"
  shows "hash_get_first t = Inr (case entries t of [] \<Rightarrow> 0 | d # _ \<Rightarrow> d)"
proof -
  have "n_entries t = 0 \<longleftrightarrow> entries t = []"
    using hash_invD(3) [OF assms] by (simp add: word_unat_eq_iff)
  moreover have "entries t \<noteq> [] \<Longrightarrow> first_used (bucket t) = Inr (hd (entries t))"
    using first_used_eq [of "bucket t"] unfolding entries_def .
  ultimately show ?thesis
    by (cases "entries t") (auto simp: hash_get_first_def)
qed

end
