(* ===== verification/HashSpec.thy ===== *)
theory HashSpec
  imports HashLife HashWalk
begin

section \<open>The hash table as a set with lookup\<close>

text \<open>
  The abstract specification of the table: a set of entries of which no two match, with lookup,
  insertion and removal by matching key. The contract is the locale \<open>lookup_set\<close>, whose
  consequences (what a lookup returns after an insertion or a removal) are proved once and
  instantiated for every client of the table. Sequences of operations are related to the
  abstract steps, from the creation of a table to its release.
\<close>

subsection \<open>The contract\<close>

locale lookup_set =
  fixes ok :: "'s \<Rightarrow> bool" and elems :: "'s \<Rightarrow> ptr set" and m :: "ptr \<Rightarrow> ptr \<Rightarrow> bool"
    and fnd :: "'s \<Rightarrow> ptr \<Rightarrow> ptr res"
    and ins :: "'s \<Rightarrow> ptr \<Rightarrow> (ptr \<times> 's) res"
    and del :: "'s \<Rightarrow> ptr \<Rightarrow> (ptr \<times> 's) res"
  assumes m_refl: "m x x" and m_sym: "m x y \<Longrightarrow> m y x" and m_trans: "m x y \<Longrightarrow> m y z \<Longrightarrow> m x z"
    and nonnull: "ok s \<Longrightarrow> 0 \<notin> elems s"
    and unique: "ok s \<Longrightarrow> x \<in> elems s \<Longrightarrow> y \<in> elems s \<Longrightarrow> m x y \<Longrightarrow> x = y"
    and fnd_law: "ok s \<Longrightarrow> e \<noteq> 0 \<Longrightarrow> \<exists>d. fnd s e = Inr d \<and>
      (if d = 0 then \<forall>x \<in> elems s. \<not> m e x else d \<in> elems s \<and> m e d)"
    and ins_law: "ok s \<Longrightarrow> e \<noteq> 0 \<Longrightarrow> \<exists>d s'. ins s e = Inr (d, s') \<and> ok s' \<and>
      (d \<in> elems s \<and> m e d \<and> elems s' = elems s \<or>
       (\<forall>x \<in> elems s. \<not> m e x) \<and> (d = e \<and> elems s' = insert e (elems s) \<or> d = 0 \<and> elems s' = elems s))"
    and del_law: "ok s \<Longrightarrow> e \<noteq> 0 \<Longrightarrow> \<exists>d s'. del s e = Inr (d, s') \<and> ok s' \<and>
      (d = 0 \<and> (\<forall>x \<in> elems s. \<not> m e x) \<and> elems s' = elems s \<or>
       d \<in> elems s \<and> m e d \<and> elems s' = elems s - {d})"
begin

lemma fnd_hit: "ok s \<Longrightarrow> e \<noteq> 0 \<Longrightarrow> d \<in> elems s \<Longrightarrow> m e d \<Longrightarrow> fnd s e = Inr d"
  using fnd_law [of s e] unique [of s] m_sym m_trans by (metis (full_types))

lemma fnd_miss: "ok s \<Longrightarrow> e \<noteq> 0 \<Longrightarrow> \<forall>x \<in> elems s. \<not> m e x \<Longrightarrow> fnd s e = Inr 0"
  using fnd_law [of s e] by (auto split: if_splits)

lemma fnd_cong:
  assumes "ok s" and "ok s'" and "k \<noteq> 0" and "\<And>x. m k x \<Longrightarrow> x \<in> elems s' \<longleftrightarrow> x \<in> elems s"
  shows "fnd s' k = fnd s k"
proof (cases "\<exists>x \<in> elems s. m k x")
  case True
  then show ?thesis using fnd_hit assms by metis
next
  case False
  then have "\<forall>x \<in> elems s'. \<not> m k x" using assms(4) by blast
  with False show ?thesis using fnd_miss assms(1-3) by metis
qed

lemma fnd_after_ins:
  assumes "ok s" and "e \<noteq> 0" and "ins s e = Inr (d, s')"
  shows "ok s'" and "d \<noteq> 0 \<Longrightarrow> fnd s' e = Inr d" and "k \<noteq> 0 \<Longrightarrow> \<not> m e k \<Longrightarrow> fnd s' k = fnd s k"
proof -
  have s': "ok s'" and cases: "d \<in> elems s \<and> m e d \<and> elems s' = elems s \<or>
       (\<forall>x \<in> elems s. \<not> m e x) \<and> (d = e \<and> elems s' = insert e (elems s) \<or> d = 0 \<and> elems s' = elems s)"
    using ins_law [OF assms(1,2)] assms(3) by auto
  show "ok s'" by fact
  show "fnd s' e = Inr d" if "d \<noteq> 0"
    using that cases by (intro fnd_hit [OF s' assms(2)]) (auto simp: m_refl)
  show "fnd s' k = fnd s k" if "k \<noteq> 0" "\<not> m e k"
    using that cases m_sym [of k e] by (intro fnd_cong [OF assms(1) s']) auto
qed

lemma fnd_after_del:
  assumes "ok s" and "e \<noteq> 0" and "del s e = Inr (d, s')"
  shows "ok s'" and "fnd s e = Inr d" and "fnd s' e = Inr 0" and "k \<noteq> 0 \<Longrightarrow> \<not> m e k \<Longrightarrow> fnd s' k = fnd s k"
proof -
  have s': "ok s'" and cases: "d = 0 \<and> (\<forall>x \<in> elems s. \<not> m e x) \<and> elems s' = elems s \<or>
       d \<in> elems s \<and> m e d \<and> elems s' = elems s - {d}"
    using del_law [OF assms(1,2)] assms(3) by auto
  show "ok s'" by fact
  show "fnd s e = Inr d"
    using cases fnd_hit [OF assms(1,2)] fnd_miss [OF assms(1,2)] by auto
  have "x = d" if "d \<in> elems s" "x \<in> elems s" "m e d" "m e x" for x
    using that unique [OF assms(1)] m_sym m_trans by blast
  then have "\<forall>x \<in> elems s'. \<not> m e x" using cases by blast
  then show "fnd s' e = Inr 0" by (rule fnd_miss [OF s' assms(2)])
  show "fnd s' k = fnd s k" if "k \<noteq> 0" "\<not> m e k"
    using that cases m_sym m_trans by (intro fnd_cong [OF assms(1) s']) blast+
qed

end

subsection \<open>The table meets it\<close>

definition table_ok :: "(ptr \<Rightarrow> size_t \<Rightarrow> size_t res) \<Rightarrow> (ptr \<Rightarrow> ptr \<Rightarrow> bool) \<Rightarrow> 'w hash_table \<times> heap \<Rightarrow> bool" where
  "table_ok h c s \<longleftrightarrow> hash_inv (snd s) (fst s) \<and> hasher (fst s) = h \<and> comparator (fst s) = c"

definition table_elems :: "'w hash_table \<times> heap \<Rightarrow> ptr set" where
  "table_elems s = set (entries (fst s))"

definition table_lookup :: "'w hash_table \<times> heap \<Rightarrow> ptr \<Rightarrow> ptr res" where
  "table_lookup s e = hash_lookup (fst s) e"

definition table_insert :: "'w hash_table \<times> heap \<Rightarrow> ptr \<Rightarrow> (ptr \<times> 'w hash_table \<times> heap) res" where
  "table_insert s e = hash_insert (fst s) e (snd s)"

definition table_delete :: "'w hash_table \<times> heap \<Rightarrow> ptr \<Rightarrow> (ptr \<times> 'w hash_table \<times> heap) res" where
  "table_delete s e = hash_delete (fst s) e (snd s)"

lemma set_of_mset_eq: "mset xs = add_mset x (mset ys) \<Longrightarrow> set xs = insert x (set ys)"
  by (metis set_mset_add_mset_insert set_mset_mset)

context hash_client
begin

lemma hash_insert_ok:
  assumes "hash_inv H t" and "hasher t = h" and "comparator t = c" and "e \<noteq> 0"
  shows "\<exists>d t' H'. hash_insert t e H = Inr (d, t', H') \<and> hash_inv H' t' \<and> table_step H t H' t' \<and>
     (if find_match t e \<noteq> 0 then d = find_match t e \<and> t' = t \<and> H' = H
      else d = e \<and> Es t' = add_mset e (Es t) \<or> d = 0 \<and> Es t' = Es t)"
proof -
  obtain r mt t' H' where "hash_insert_if_absent t e H = Inr (r, mt, t', H')" "hash_inv H' t'" "table_step H t H' t'"
    "if find_match t e \<noteq> 0 then r = 0 \<and> mt = Some (find_match t e) \<and> t' = t \<and> H' = H
      else mt = None \<and> (r = 1 \<and> Es t' = add_mset e (Es t) \<or> r = - 1 \<and> Es t' = Es t)"
    using hash_insert_if_absent_ok [OF assms] by blast
  then show ?thesis by (auto simp: hash_insert_def split: if_splits)
qed

lemma lookup_set_table:
  "lookup_set (table_ok h c :: 'w hash_table \<times> heap \<Rightarrow> bool) table_elems same table_lookup table_insert table_delete"
proof
  fix s :: "'w hash_table \<times> heap" and e x y z :: ptr
  show "same x x" by simp
  show "same x y \<Longrightarrow> same y x" by (rule same_sym)
  show "same x y \<Longrightarrow> same y z \<Longrightarrow> same x z" by (rule same_trans)
  obtain t H where s: "s = (t, H)" by (cases s)
  assume "table_ok h c s"
  then have inv: "hash_inv H t" "hasher t = h" "comparator t = c" by (simp_all add: table_ok_def s)
  note wf = hash_invD(1) [OF inv(1)]
  show "0 \<notin> table_elems s" using entries_nonnull [OF wf] by (auto simp: table_elems_def s)
  show "x \<in> table_elems s \<Longrightarrow> y \<in> table_elems s \<Longrightarrow> same x y \<Longrightarrow> x = y"
    using hash_invD(6) [OF inv(1)] by (simp add: table_elems_def s entry_matches_same [OF inv(3)])
  assume e: "e \<noteq> 0"
  note fm = find_matchD [OF wf, of e, unfolded entry_matches_same [OF inv(3)]]
  show "\<exists>d. table_lookup s e = Inr d \<and> (if d = 0 then \<forall>x \<in> table_elems s. \<not> same e x else d \<in> table_elems s \<and> same e d)"
    using hash_lookup_ok [OF wf inv(2,3) e] fm by (simp add: table_lookup_def table_elems_def s)
  show "\<exists>d s'. table_insert s e = Inr (d, s') \<and> table_ok h c s' \<and>
      (d \<in> table_elems s \<and> same e d \<and> table_elems s' = table_elems s \<or>
       (\<forall>x \<in> table_elems s. \<not> same e x) \<and>
         (d = e \<and> table_elems s' = insert e (table_elems s) \<or> d = 0 \<and> table_elems s' = table_elems s))"
    using hash_insert_ok [OF inv e] fm inv(2,3)
    by (fastforce simp: table_insert_def table_elems_def table_ok_def table_step_def s
        dest: set_of_mset_eq mset_eq_setD split: if_splits)
  show "\<exists>d s'. table_delete s e = Inr (d, s') \<and> table_ok h c s' \<and>
      (d = 0 \<and> (\<forall>x \<in> table_elems s. \<not> same e x) \<and> table_elems s' = table_elems s \<or>
       d \<in> table_elems s \<and> same e d \<and> table_elems s' = table_elems s - {d})"
  proof -
    obtain t' H' where r: "hash_remove t e H = Inr (find_match t e, t', H')" "hash_inv H' t'" "table_step H t H' t'"
      "if find_match t e = 0 then t' = t \<and> H' = H else Es t = add_mset (find_match t e) (Es t')"
      using hash_remove_ok [OF inv e] by blast
    have "find_match t e \<noteq> 0 \<Longrightarrow> set (entries t') = set (entries t) - {find_match t e}"
      using r(4) hash_invD(4) [OF inv(1)]
      by (metis Diff_insert_absorb distinct.simps(2) mset.simps(2) mset_eq_imp_distinct_iff set_of_mset_eq)
    then show ?thesis
      using r fm inv(2,3) by (auto simp: table_delete_def hash_delete_def table_elems_def table_ok_def table_step_def s)
  qed
qed

end

sublocale hash_client \<subseteq> tab: lookup_set "table_ok h c" table_elems same table_lookup table_insert table_delete
  by (rule lookup_set_table)

subsection \<open>Sequences of operations\<close>

datatype hash_op = Lookup ptr | Insert ptr | Delete ptr | Clear | Rehash size_t

fun op_key :: "hash_op \<Rightarrow> ptr option" where
  "op_key (Lookup e) = Some e"
| "op_key (Insert e) = Some e"
| "op_key (Delete e) = Some e"
| "op_key _ = None"

text \<open>One call on a table, a heap and the client's state; the result is the returned pointer
  (for \<open>hash_rehash\<close>, 1 for true).\<close>

fun run_op :: "hash_op \<Rightarrow> 'w hash_table \<times> heap \<times> 'w \<Rightarrow> (ptr \<times> 'w hash_table \<times> heap \<times> 'w) res" where
  "run_op (Lookup e) (t, H, w) = bindR (hash_lookup t e) (\<lambda>d. Inr (d, t, H, w))"
| "run_op (Insert e) (t, H, w) = bindR (hash_insert t e H) (\<lambda>(d, t, H). Inr (d, t, H, w))"
| "run_op (Delete e) (t, H, w) = bindR (hash_delete t e H) (\<lambda>(d, t, H). Inr (d, t, H, w))"
| "run_op Clear (t, H, w) = (let (t, w) = hash_clear t w in Inr (0, t, H, w))"
| "run_op (Rehash n) (t, H, w) = bindR (hash_rehash t n H) (\<lambda>(ok, t, H). Inr (if ok then 1 else 0, t, H, w))"

fun run_ops :: "hash_op list \<Rightarrow> 'w hash_table \<times> heap \<times> 'w \<Rightarrow> (ptr list \<times> 'w hash_table \<times> heap \<times> 'w) res" where
  "run_ops [] s = Inr ([], s)"
| "run_ops (p # ps) s =
     bindR (run_op p s) (\<lambda>(r, s). bindR (run_ops ps s) (\<lambda>(rs, s). Inr (r # rs, s)))"

text \<open>The abstract machine: its state is the set of entries; \<open>m\<close> is the matching of keys.\<close>

inductive spec_step :: "(ptr \<Rightarrow> ptr \<Rightarrow> bool) \<Rightarrow> ptr set \<Rightarrow> hash_op \<Rightarrow> ptr \<Rightarrow> ptr set \<Rightarrow> bool"
  for m :: "ptr \<Rightarrow> ptr \<Rightarrow> bool" where
  lookup_hit: "d \<in> S \<Longrightarrow> m e d \<Longrightarrow> spec_step m S (Lookup e) d S"
| lookup_miss: "\<forall>x \<in> S. \<not> m e x \<Longrightarrow> spec_step m S (Lookup e) 0 S"
| insert_hit: "d \<in> S \<Longrightarrow> m e d \<Longrightarrow> spec_step m S (Insert e) d S"
| insert_new: "\<forall>x \<in> S. \<not> m e x \<Longrightarrow> spec_step m S (Insert e) e (insert e S)"
| insert_nomem: "\<forall>x \<in> S. \<not> m e x \<Longrightarrow> spec_step m S (Insert e) 0 S"
| delete_hit: "d \<in> S \<Longrightarrow> m e d \<Longrightarrow> spec_step m S (Delete e) d (S - {d})"
| delete_miss: "\<forall>x \<in> S. \<not> m e x \<Longrightarrow> spec_step m S (Delete e) 0 S"
| cleared: "spec_step m S Clear 0 {}"
| rehashed: "r \<in> {0, 1} \<Longrightarrow> spec_step m S (Rehash n) r S"

inductive_simps spec_step_simps [simp]:
  "spec_step m S (Lookup e) r S'"
  "spec_step m S (Insert e) r S'"
  "spec_step m S (Delete e) r S'"
  "spec_step m S Clear r S'"
  "spec_step m S (Rehash n) r S'"

inductive spec_run :: "(ptr \<Rightarrow> ptr \<Rightarrow> bool) \<Rightarrow> ptr set \<Rightarrow> hash_op list \<Rightarrow> ptr list \<Rightarrow> ptr set \<Rightarrow> bool"
  for m :: "ptr \<Rightarrow> ptr \<Rightarrow> bool" where
  run_nil: "spec_run m S [] [] S"
| run_cons: "spec_step m S p r S1 \<Longrightarrow> spec_run m S1 ps rs S2 \<Longrightarrow> spec_run m S (p # ps) (r # rs) S2"

text \<open>The state of a run: the invariant, and a tuning that is reasonable.\<close>

definition run_inv :: "heap \<Rightarrow> 'w hash_table \<Rightarrow> bool" where
  "run_inv H t \<longleftrightarrow> hash_inv H t \<and> tuning_reasonable (deref_tuning H (tuning t))"

lemma table_step_tuning:
  "table_step H t H' t' \<Longrightarrow> tuning_reasonable (deref_tuning H (tuning t)) \<Longrightarrow>
   tuning_reasonable (deref_tuning H' (tuning t'))"
  using tuning_reasonable_default
  by (auto simp: table_step_def own_step_def deref_tuning_def split: tuning_ref.splits)

context hash_client
begin

lemma run_op_ok:
  assumes "run_inv H t" and "hasher t = h" and "comparator t = c" and "op_key p \<noteq> Some 0"
  shows "\<exists>r t' H' w'. run_op p (t, H, w) = Inr (r, t', H', w') \<and> run_inv H' t' \<and> table_step H t H' t' \<and>
     spec_step same (set (entries t)) p r (set (entries t'))"
proof -
  have inv: "hash_inv H t" and tun: "tuning_reasonable (deref_tuning H (tuning t))"
    using assms(1) by (simp_all add: run_inv_def)
  have inv': "hash_inv H' t' \<and> table_step H t H' t' \<Longrightarrow> run_inv H' t'" for H' t'
    using table_step_tuning [OF _ tun] by (simp add: run_inv_def)
  have ok: "table_ok h c (t, H)" using inv assms(2,3) by (simp add: table_ok_def)
  note wf = hash_invD(1) [OF inv]
  show ?thesis
  proof (cases p)
    case (Lookup e)
    then show ?thesis
      using assms tab.fnd_law [OF ok, of e]
      by (auto simp: table_lookup_def table_elems_def split: if_splits)
  next
    case (Insert e)
    then obtain d t' H' where "hash_insert t e H = Inr (d, t', H')" "hash_inv H' t'" "table_step H t H' t'"
      "if find_match t e \<noteq> 0 then d = find_match t e \<and> t' = t \<and> H' = H
       else d = e \<and> Es t' = add_mset e (Es t) \<or> d = 0 \<and> Es t' = Es t"
      using hash_insert_ok [OF inv assms(2,3), of e] assms(4) by auto
    with Insert inv' find_matchD [OF wf, of e] show ?thesis
      by (fastforce simp: entry_matches_same [OF assms(3)] dest: set_of_mset_eq mset_eq_setD split: if_splits)
  next
    case (Delete e)
    then have e: "e \<noteq> 0" using assms(4) by simp
    obtain t' H' where r: "hash_remove t e H = Inr (find_match t e, t', H')" "hash_inv H' t'" "table_step H t H' t'"
      using hash_remove_ok [OF inv assms(2,3) e] by blast
    have "table_delete (t, H) e = Inr (find_match t e, t', H')"
      using r(1) by (simp add: table_delete_def hash_delete_def)
    with tab.del_law [OF ok e] Delete r inv' show ?thesis
      by (fastforce simp: table_elems_def hash_delete_def)
  next
    case Clear
    then show ?thesis
      using hash_clear_ok [OF inv, of w] inv' by (fastforce simp: Let_def)
  next
    case (Rehash n)
    obtain k where "compute_bucket_size n (deref_tuning H (tuning t)) = Inr k"
      using compute_bucket_size_defined [OF tun] by blast
    from hash_rehash_inv [OF inv assms(2) this] Rehash inv' show ?thesis
      by (fastforce dest: mset_eq_setD)
  qed
qed

lemma run_ops_ok:
  assumes "run_inv H t" and "hasher t = h" and "comparator t = c" and "\<forall>p \<in> set ps. op_key p \<noteq> Some 0"
  shows "\<exists>rs t' H' w'. run_ops ps (t, H, w) = Inr (rs, t', H', w') \<and> run_inv H' t' \<and> table_step H t H' t' \<and>
     spec_run same (set (entries t)) ps rs (set (entries t'))"
  using assms
proof (induction ps arbitrary: t H w)
  case Nil
  then show ?case by (auto intro: run_nil)
next
  case (Cons p ps)
  obtain r t1 H1 w1 where s1: "run_op p (t, H, w) = Inr (r, t1, H1, w1)" "run_inv H1 t1" "table_step H t H1 t1"
    "spec_step same (set (entries t)) p r (set (entries t1))"
    using run_op_ok [OF Cons.prems(1-3), of p w] Cons.prems(4) by auto
  have "hasher t1 = h" "comparator t1 = c" using s1(3) Cons.prems by (simp_all add: table_step_def)
  from Cons.IH [OF s1(2) this, of w1] Cons.prems(4) obtain rs t2 H2 w2 where
    "run_ops ps (t1, H1, w1) = Inr (rs, t2, H2, w2)" "run_inv H2 t2" "table_step H1 t1 H2 t2"
    "spec_run same (set (entries t1)) ps rs (set (entries t2))" by auto
  with s1 table_step_trans [OF s1(3)] show ?case
    by (auto intro: run_cons)
qed

end

text \<open>The whole life of a table: creation, any calls, release.\<close>

definition table_life ::
  "size_t \<Rightarrow> tuning_ref option \<Rightarrow> (ptr \<Rightarrow> size_t \<Rightarrow> size_t res) option \<Rightarrow> (ptr \<Rightarrow> ptr \<Rightarrow> bool) option \<Rightarrow>
   (ptr \<Rightarrow> 'w \<Rightarrow> 'w) option \<Rightarrow> hash_op list \<Rightarrow> 'w \<Rightarrow> heap \<Rightarrow> (ptr list option \<times> 'w \<times> heap) res" where
  "table_life cand tn hshr cmp freer ps w H =
     bindR (hash_initialize cand tn hshr cmp freer H) (\<lambda>(r, H).
       case r of
         None \<Rightarrow> Inr (None, w, H)
       | Some (addr, t) \<Rightarrow>
           bindR (run_ops ps (t, H, w)) (\<lambda>(rs, t, H, w).
           bindR (hash_free addr t w H) (\<lambda>(w, H). Inr (Some rs, w, H))))"

lemma table_life_ok:
  fixes w :: 'w
  assumes "heap_wf H" and "hash_defaults hshr cmp = (h, c)" and "hash_client h c"
    and "\<forall>p \<in> set ps. op_key p \<noteq> Some 0"
  shows "\<exists>rs w' H'. table_life cand tn hshr cmp freer ps w H = Inr (rs, w', H') \<and>
     live H' = live H \<and> heap_wf H' \<and>
     (\<forall>r. rs = Some r \<longrightarrow> (\<exists>S. spec_run (\<lambda>x y. x = y \<or> c x y) {} ps r S))"
proof -
  have own: "owned H {#}" using assms(1) by (simp add: owned_def)
  have done_ok: "live H' = live H \<and> heap_wf H'" if "own_step H {#} H' {#}" for H'
    using own_step_live [OF that own] by simp
  obtain r H1 where init: "hash_initialize cand tn hshr cmp freer H = Inr (r, H1)"
    "case r of None \<Rightarrow> own_step H {#} H1 {#}
      | Some (addr, t) \<Rightarrow> tuning_reasonable (deref_tuning H (case tn of None \<Rightarrow> Default_tuning | Some r \<Rightarrow> r)) \<and>
          hash_inv H1 t \<and> entries t = [] \<and> blocks_of t = {#bucket_block t#} \<and> own_step H {#} H1 (add_mset addr (blocks_of t)) \<and>
          (hasher t, comparator t) = hash_defaults hshr cmp \<and> data_freer t = freer \<and>
          tuning t = (case tn of None \<Rightarrow> Default_tuning | Some r \<Rightarrow> r) \<and>
          compute_bucket_size cand (deref_tuning H (case tn of None \<Rightarrow> Default_tuning | Some r \<Rightarrow> r)) = Inr (n_buckets t)"
    using hash_initialize_ok [OF own, of cand tn hshr cmp freer] by blast
  show ?thesis
  proof (cases r)
    case None
    with init done_ok [of H1] show ?thesis
      by (intro exI [of _ None] exI [of _ w] exI [of _ H1]) (simp add: table_life_def)
  next
    case (Some shell)
    obtain addr t where at: "shell = (addr, t)" by (cases shell)
    have t: "hash_inv H1 t" "entries t = []" "hasher t = h" "comparator t = c"
      "own_step H {#} H1 (add_mset addr (blocks_of t))" "tuning_reasonable (deref_tuning H (tuning t))"
      using init(2) assms(2) by (auto simp: Some at)
    have "run_inv H1 t"
      using t(1,5,6) by (simp add: run_inv_def own_step_def deref_tuning_def split: tuning_ref.splits)
    from hash_client.run_ops_ok [OF assms(3) this t(3,4) assms(4), of w] obtain rs t2 H2 w2 where
      run: "run_ops ps (t, H1, w) = Inr (rs, t2, H2, w2)" "run_inv H2 t2" "table_step H1 t H2 t2"
      "spec_run (hash_client.same c) {} ps rs (set (entries t2))"
      using t(2) by auto
    have same: "hash_client.same c = (\<lambda>x y. x = y \<or> c x y)"
      using hash_client.same_def [OF assms(3)] by (simp add: fun_eq_iff)
    have "own_step H1 (blocks_of t + {#addr#}) H2 (blocks_of t2 + {#addr#})"
      using run(3) unfolding table_step_def by (blast intro: own_step_frame)
    with t(5) have s2: "own_step H {#} H2 (add_mset addr (blocks_of t2))"
      by (auto intro: own_step_trans)
    have "owned H2 (add_mset addr (blocks_of t2))" using own_stepD [OF s2, of "{#}"] own by simp
    with hash_free_ok [of H2 t2 addr w2] run(2) obtain w3 H3 where
      free: "hash_free addr t2 w2 H2 = Inr (w3, H3)" "own_step H2 (add_mset addr (blocks_of t2)) H3 {#}"
      unfolding run_inv_def by blast
    have "table_life cand tn hshr cmp freer ps w H = Inr (Some rs, w3, H3)"
      using run(1) init(1) free(1) by (simp add: table_life_def Some at)
    with done_ok [OF own_step_trans [OF s2 free(2)]] run(4) same show ?thesis
      by (intro exI [of _ "Some rs"] exI [of _ w3] exI [of _ H3]) auto
  qed
qed

end
