(* ===== verification/HashProps.thy ===== *)
theory HashProps
  imports HashSpec
begin

section \<open>What the hash table guarantees\<close>

text \<open>
  The contracts of the public functions of \<open>hash.h\<close>, for every client whose hasher and comparator
  obey the laws of \<open>hash_client\<close>, and instances of them on a small table.
\<close>

subsection \<open>A table to try things on\<close>

text \<open>Eleven buckets, the default functions and tuning; 8 and 96 share bucket 1, 24 is alone in 3.\<close>

definition demo_heap :: heap where
  "demo_heap = \<lparr>malloc_ok = (\<lambda>n. n \<noteq> 4), n_allocs = 4, live = {0, 1, 2, 3}, tunings = (\<lambda>_. default_tuning)\<rparr>"

definition demo_table :: "ptr list hash_table" where
  "demo_table = \<lparr>bucket = [empty_bucket, \<lparr>bdata = 8, bnext = [(2, 96)]\<rparr>, empty_bucket,
      \<lparr>bdata = 24, bnext = []\<rparr>, empty_bucket, empty_bucket, empty_bucket, empty_bucket, empty_bucket,
      empty_bucket, empty_bucket],
     bucket_block = 1, n_buckets = 11, n_buckets_used = 2, n_entries = 3, tuning = Default_tuning,
     hasher = raw_hasher, comparator = raw_comparator, data_freer = Some Cons, free_entry_list = [3]\<rparr>"

lemma demo_lists:
  "entries demo_table = [8, 96, 24]" "overflow demo_table = [2]" "length (bucket demo_table) = unat (n_buckets demo_table)"
  "unat (n_buckets_used demo_table) = length (filter used (bucket demo_table))" "n_buckets demo_table \<noteq> 0"
  by code_simp+

lemma demo_fields [simp]:
  "hasher demo_table = raw_hasher" "comparator demo_table = raw_comparator" "tuning demo_table = Default_tuning"
  "n_entries demo_table = 3" "n_buckets demo_table = 11" "data_freer demo_table = Some Cons"
  by (simp_all add: demo_table_def)

lemma demo_blocks: "blocks_of demo_table = {#1, 2, 3#}"
  unfolding blocks_of_def demo_lists by (simp add: demo_table_def)

lemma demo_owned: "owned demo_heap (add_mset 0 (blocks_of demo_table))"
  by (auto simp: demo_blocks owned_def heap_wf_def demo_heap_def)

lemma demo_wf: "table_wf demo_table"
proof -
  have "\<forall>i \<in> set [0..<11]. bucket_wf raw_hasher 11 i (bucket demo_table ! i)"
    by code_simp
  moreover have "length (bucket demo_table) = 11" by (simp add: demo_table_def)
  ultimately show ?thesis
    unfolding table_wf_def using demo_lists(3-5) by auto
qed

lemma demo_inv: "hash_inv demo_heap demo_table"
proof -
  have "owned demo_heap (blocks_of demo_table)"
    using owned_sub [of demo_heap "blocks_of demo_table" "{#0#}"] demo_owned by simp
  then show ?thesis
    using demo_wf unfolding hash_inv_def demo_lists(1)
    by (simp add: entry_matches_def raw_comparator_def)
qed

lemma demo_client: "hash_client (hasher demo_table) (comparator demo_table)"
  using raw.hash_client_axioms by simp

lemma demo_tuning: "tuning_reasonable (deref_tuning demo_heap (tuning demo_table))"
  using tuning_reasonable_default by (simp add: deref_tuning_def)

subsection \<open>The life of a table\<close>

text \<open>C1: Whatever calls a program makes on a table between its creation and its release, and
  whichever allocations fail on the way, no call aborts or is undefined, every result is one that
  the abstract set of entries allows, and afterwards exactly the blocks are allocated that were
  allocated before.\<close>

theorem table_life_safe:
  fixes w :: 'w
  assumes "heap_wf H" and "hash_defaults hshr cmp = (h, c)" and "hash_client h c"
    and "\<forall>p \<in> set ps. op_key p \<noteq> Some 0"
  shows "\<exists>rs w' H'. table_life cand tn hshr cmp freer ps w H = Inr (rs, w', H') \<and> live H' = live H \<and>
     (\<forall>r. rs = Some r \<longrightarrow> (\<exists>S. spec_run (\<lambda>x y. x = y \<or> c x y) {} ps r S))"
  using table_life_ok [OF assms, of cand tn freer w] by blast

theorem table_life_safe_witness:
  "\<exists>r w' H' S. table_life 10 None None None (Some Cons) [Insert 8, Insert 96, Lookup 8, Delete 96, Clear]
       ([] :: ptr list) (demo_heap\<lparr>malloc_ok := \<lambda>_. True\<rparr>) = Inr (Some r, w', H') \<and> live H' = {0, 1, 2, 3} \<and>
     spec_run (\<lambda>x y. x = y \<or> raw_comparator x y) {} [Insert 8, Insert 96, Lookup 8, Delete 96, Clear] r S"
proof -
  let ?ps = "[Insert 8, Insert 96, Lookup 8, Delete 96, Clear]" and ?H = "demo_heap\<lparr>malloc_ok := \<lambda>_. True\<rparr>"
  have wf: "heap_wf ?H" by (simp add: heap_wf_def demo_heap_def)
  have keys: "\<forall>p \<in> set ?ps. op_key p \<noteq> Some 0" by simp
  have fs: "hash_defaults None None = (raw_hasher, raw_comparator)" by (simp add: hash_defaults_def)
  have "case table_life 10 None None None (Some Cons) ?ps ([] :: ptr list) ?H of Inr (Some _, _) \<Rightarrow> True | _ \<Rightarrow> False"
    by code_simp
  with table_life_safe [OF wf fs raw.hash_client_axioms keys, of 10 None "Some Cons" "[]"] show ?thesis
    by (auto simp: demo_heap_def split: sum.splits option.splits)
qed

subsection \<open>Single operations\<close>

text \<open>C9: \<open>hash_rehash\<close> returns without aborting also when an allocation fails half way through
  the move and has to be undone. It keeps the entries, their number and the ownership of every
  heap block; after success the number of buckets is a prime, after failure it is the old one.\<close>

theorem hash_rehash_safe:
  assumes "hash_client (hasher t) (comparator t)" and "hash_inv H t"
    and "tuning_reasonable (deref_tuning H (tuning t))"
  shows "\<exists>ok t' H'. hash_rehash t cand H = Inr (ok, t', H') \<and> hash_inv H' t' \<and>
     mset (entries t') = mset (entries t) \<and> n_entries t' = n_entries t \<and>
     own_step H (blocks_of t) H' (blocks_of t') \<and>
     (if ok then prime_nat (unat (n_buckets t')) else n_buckets t' = n_buckets t)"
proof -
  obtain n where n: "compute_bucket_size cand (deref_tuning H (tuning t)) = Inr n"
    using compute_bucket_size_defined [OF assms(3)] by blast
  from hash_client.hash_rehash_inv [OF assms(1,2) refl this] obtain ok t' H' where
    r: "hash_rehash t cand H = Inr (ok, t', H')" "hash_inv H' t'" "table_step H t H' t'" "Es t' = Es t"
    "n_buckets t' = (if ok then n else n_buckets t)" by blast
  have "n_entries t' = n_entries t"
    using hash_invD(3) [OF assms(2)] hash_invD(3) [OF r(2)] mset_eq_length [OF r(4)]
    by (simp add: word_unat_eq_iff)
  moreover have "n \<noteq> 0" if ok
    using r(5) that table_wfD(2) [OF hash_invD(1) [OF r(2)]] by simp
  ultimately show ?thesis
    using r compute_bucket_size_prime [OF n] by (auto simp: table_step_def)
qed

theorem hash_rehash_safe_witness:
  "\<exists>ok t' H'. hash_rehash demo_table 20 demo_heap = Inr (ok, t', H') \<and> hash_inv H' t' \<and>
     mset (entries t') = mset (entries demo_table) \<and> n_entries t' = n_entries demo_table \<and>
     own_step demo_heap (blocks_of demo_table) H' (blocks_of t') \<and>
     (if ok then prime_nat (unat (n_buckets t')) else n_buckets t' = n_buckets demo_table)"
  by (rule hash_rehash_safe [OF demo_client demo_inv demo_tuning])

text \<open>C10: \<open>hash_insert_if_absent\<close> never aborts and never computes an undefined conversion, whatever
  the user wrote into the tuning. If an entry matches it returns 0, hands out that entry and
  changes nothing; otherwise it either returns 1 and has added exactly the new entry, or returns
  -1 and the entries are as before. The invariant is kept on every path.\<close>

theorem hash_insert_if_absent_correct:
  assumes "hash_client (hasher t) (comparator t)" and "hash_inv H t" and "e \<noteq> 0"
  shows "\<exists>r m t' H'. hash_insert_if_absent t e H = Inr (r, m, t', H') \<and> hash_inv H' t' \<and>
     own_step H (blocks_of t) H' (blocks_of t') \<and>
     ((\<exists>d \<in> set (entries t). entry_matches t e d \<and> r = 0 \<and> m = Some d \<and> t' = t \<and> H' = H) \<or>
      (\<forall>d \<in> set (entries t). \<not> entry_matches t e d) \<and> m = None \<and>
        (r = 1 \<and> mset (entries t') = add_mset e (mset (entries t)) \<or>
         r = - 1 \<and> mset (entries t') = mset (entries t)))"
  using hash_client.hash_insert_if_absent_ok [OF assms(1,2) refl refl assms(3)]
    find_matchD [OF hash_invD(1) [OF assms(2)], of e]
  by (cases "find_match t e = 0") (auto simp: table_step_def)

theorem hash_insert_if_absent_correct_witness:
  "\<exists>r t' H'. hash_insert_if_absent demo_table 184 demo_heap = Inr (r, None, t', H') \<and> hash_inv H' t' \<and>
     (r = 1 \<and> mset (entries t') = {#184, 8, 96, 24#} \<or> r = - 1 \<and> mset (entries t') = {#8, 96, 24#})"
  using hash_insert_if_absent_correct [OF demo_client demo_inv, of 184]
  by (auto simp: demo_lists entry_matches_def raw_comparator_def)

text \<open>C11: \<open>hash_remove\<close> returns the matching entry and removes exactly this one, or returns NULL and
  changes nothing when there is none; the invariant is kept, also when the table is shrunk or the
  shrinking fails and the recycled blocks are released.\<close>

theorem hash_remove_correct:
  assumes "hash_client (hasher t) (comparator t)" and "hash_inv H t" and "e \<noteq> 0"
  shows "\<exists>d t' H'. hash_remove t e H = Inr (d, t', H') \<and> hash_inv H' t' \<and>
     own_step H (blocks_of t) H' (blocks_of t') \<and>
     (if d = 0 then (\<forall>x \<in> set (entries t). \<not> entry_matches t e x) \<and> t' = t \<and> H' = H
      else entry_matches t e d \<and> mset (entries t) = add_mset d (mset (entries t')))"
proof -
  obtain t' H' where "hash_remove t e H = Inr (find_match t e, t', H')" "hash_inv H' t'" "table_step H t H' t'"
    "if find_match t e = 0 then t' = t \<and> H' = H else Es t = add_mset (find_match t e) (Es t')"
    using hash_client.hash_remove_ok [OF assms(1,2) refl refl assms(3)] by blast
  with find_matchD [OF hash_invD(1) [OF assms(2)], of e] show ?thesis
    by (intro exI [of _ "find_match t e"]) (auto simp: table_step_def)
qed

theorem hash_remove_correct_witness:
  "\<exists>t' H'. hash_remove demo_table 8 demo_heap = Inr (8, t', H') \<and> hash_inv H' t' \<and> mset (entries t') = {#96, 24#}"
  using hash_remove_correct [OF demo_client demo_inv, of 8]
  by (auto simp: demo_lists entry_matches_def raw_comparator_def split: if_splits)

text \<open>C12: \<open>hash_lookup\<close> returns the one entry that matches the key, and NULL if and only if none does;
  in particular it is found although only one bucket is searched.\<close>

theorem hash_lookup_correct:
  assumes "hash_client (hasher t) (comparator t)" and "hash_inv H t" and "e \<noteq> 0"
  shows "hash_lookup t e = Inr d \<longleftrightarrow>
     (if d = 0 then \<forall>x \<in> set (entries t). \<not> entry_matches t e x
      else \<forall>x. x \<in> set (entries t) \<and> entry_matches t e x \<longleftrightarrow> x = d)"
proof -
  note wf = hash_invD(1) [OF assms(2)]
  note fm = find_matchD [OF wf, of e]
  have l: "hash_lookup t e = Inr (find_match t e)"
    using hash_client.hash_lookup_ok [OF assms(1) wf refl refl assms(3)] .
  have "x = y" if "x \<in> set (entries t)" "y \<in> set (entries t)" "entry_matches t e x" "entry_matches t e y" for x y
    using that hash_invD(6) [OF assms(2)] hash_client.entry_matches_same [OF assms(1) refl]
      hash_client.same_sym [OF assms(1)] hash_client.same_trans [OF assms(1)] by metis
  with l fm show ?thesis by (cases "find_match t e = 0"; cases "d = 0"; simp) metis+
qed

theorem hash_lookup_correct_witness:
  "hash_lookup demo_table 96 = Inr 96 \<and> hash_lookup demo_table 16 = Inr 0"
  using hash_lookup_correct [OF demo_client demo_inv, of 96 96] hash_lookup_correct [OF demo_client demo_inv, of 16 0]
  by (simp add: demo_lists entry_matches_def raw_comparator_def) auto

text \<open>After an insertion that does not report lack of memory, a lookup of the inserted key returns
  the entry that \<open>hash_insert\<close> returned, and lookups of keys that do not match it return what they
  returned before.\<close>

theorem lookup_after_insert:
  assumes "hash_client (hasher t) (comparator t)" and "hash_inv H t" and "e \<noteq> 0"
    and "hash_insert t e H = Inr (d, t', H')" and "d \<noteq> 0"
  shows "hash_inv H' t' \<and> hash_lookup t' e = Inr d \<and>
     (\<forall>k. k \<noteq> 0 \<longrightarrow> \<not> entry_matches t e k \<longrightarrow> hash_lookup t' k = hash_lookup t k)"
proof -
  note ls = hash_client.lookup_set_table [OF assms(1)]
  have ok: "table_ok (hasher t) (comparator t) (t, H)" using assms(2) by (simp add: table_ok_def)
  have ins: "table_insert (t, H) e = Inr (d, t', H')" using assms(4) by (simp add: table_insert_def)
  note after = lookup_set.fnd_after_ins [OF ls ok assms(3) ins]
  show ?thesis
    using after assms(5) hash_client.entry_matches_same [OF assms(1) refl]
    by (simp add: table_lookup_def table_ok_def)
qed

theorem lookup_after_insert_witness:
  "\<exists>d t' H'. hash_insert demo_table 184 demo_heap = Inr (d, t', H') \<and> d \<noteq> 0 \<and> hash_inv H' t' \<and>
     hash_lookup t' 184 = Inr d \<and> hash_lookup t' 96 = hash_lookup demo_table 96"
proof -
  have "case hash_insert demo_table 184 demo_heap of Inr (d, _) \<Rightarrow> d = 184 | _ \<Rightarrow> False" by code_simp
  then obtain d t' H' where r: "hash_insert demo_table 184 demo_heap = Inr (d, t', H')" "d \<noteq> 0"
    by (auto split: sum.splits)
  from lookup_after_insert [OF demo_client demo_inv _ r] r show ?thesis
    by (auto simp: entry_matches_def raw_comparator_def)
qed

text \<open>\<open>hash_delete\<close> returns what a lookup would have returned; afterwards the key is not found any
  more, and lookups of other keys are unchanged.\<close>

theorem lookup_after_delete:
  assumes "hash_client (hasher t) (comparator t)" and "hash_inv H t" and "e \<noteq> 0"
    and "hash_delete t e H = Inr (d, t', H')"
  shows "hash_inv H' t' \<and> hash_lookup t e = Inr d \<and> hash_lookup t' e = Inr 0 \<and>
     (\<forall>k. k \<noteq> 0 \<longrightarrow> \<not> entry_matches t e k \<longrightarrow> hash_lookup t' k = hash_lookup t k)"
proof -
  note ls = hash_client.lookup_set_table [OF assms(1)]
  have ok: "table_ok (hasher t) (comparator t) (t, H)" using assms(2) by (simp add: table_ok_def)
  have del: "table_delete (t, H) e = Inr (d, t', H')" using assms(4) by (simp add: table_delete_def)
  note after = lookup_set.fnd_after_del [OF ls ok assms(3) del]
  show ?thesis
    using after hash_client.entry_matches_same [OF assms(1) refl]
    by (simp add: table_lookup_def table_ok_def)
qed

theorem lookup_after_delete_witness:
  "\<exists>t' H'. hash_delete demo_table 8 demo_heap = Inr (8, t', H') \<and> hash_inv H' t' \<and>
     hash_lookup t' 8 = Inr 0 \<and> hash_lookup t' 96 = hash_lookup demo_table 96"
proof -
  have "case hash_delete demo_table 8 demo_heap of Inr (d, _) \<Rightarrow> d = 8 | _ \<Rightarrow> False" by code_simp
  then obtain t' H' where r: "hash_delete demo_table 8 demo_heap = Inr (8, t', H')"
    by (auto split: sum.splits)
  from lookup_after_delete [OF demo_client demo_inv _ r] r show ?thesis
    by (auto simp: entry_matches_def raw_comparator_def)
qed

text \<open>\<open>hash_initialize\<close> returns NULL and leaves the allocated blocks as they were, or returns an
  empty table that satisfies the invariant, with the client's functions (the default ones for
  NULL), and owns exactly its structure and its bucket array. It returns NULL whenever the tuning
  is not reasonable.\<close>

theorem hash_initialize_correct:
  assumes "heap_wf H"
  shows "\<exists>r H'. hash_initialize cand tn hshr cmp freer H = Inr (r, H') \<and>
     (case r of
        None \<Rightarrow> live H' = live H
      | Some (addr, t) \<Rightarrow>
          tuning_reasonable (deref_tuning H (case tn of None \<Rightarrow> Default_tuning | Some a \<Rightarrow> a)) \<and>
          hash_inv H' t \<and> entries t = [] \<and> n_entries t = 0 \<and> addr \<notin> live H \<and>
          live H' = live H \<union> {addr, bucket_block t} \<and>
          hasher t = (case hshr of None \<Rightarrow> raw_hasher | Some h \<Rightarrow> h) \<and>
          comparator t = (case cmp of None \<Rightarrow> raw_comparator | Some c \<Rightarrow> c) \<and> data_freer t = freer)"
proof -
  have own: "owned H {#}" using assms by (simp add: owned_def)
  obtain r H' where r: "hash_initialize cand tn hshr cmp freer H = Inr (r, H')"
    "case r of None \<Rightarrow> own_step H {#} H' {#}
      | Some (addr, t) \<Rightarrow> tuning_reasonable (deref_tuning H (case tn of None \<Rightarrow> Default_tuning | Some r \<Rightarrow> r)) \<and>
          hash_inv H' t \<and> entries t = [] \<and> blocks_of t = {#bucket_block t#} \<and> own_step H {#} H' (add_mset addr (blocks_of t)) \<and>
          (hasher t, comparator t) = hash_defaults hshr cmp \<and> data_freer t = freer \<and>
          tuning t = (case tn of None \<Rightarrow> Default_tuning | Some r \<Rightarrow> r) \<and>
          compute_bucket_size cand (deref_tuning H (case tn of None \<Rightarrow> Default_tuning | Some r \<Rightarrow> r)) = Inr (n_buckets t)"
    using hash_initialize_ok [OF own, of cand tn hshr cmp freer] by blast
  have step: "own_step H {#} H' M \<Longrightarrow> set_mset M \<subseteq> live H' \<and> live H' - set_mset M = live H" for M
    using own_step_live [OF _ own] by simp
  show ?thesis
  proof (cases r)
    case None
    with r step [of "{#}"] show ?thesis by auto
  next
    case (Some shell)
    obtain addr t where shell: "shell = (addr, t)" by (cases shell)
    have t: "hash_inv H' t" "entries t = []" "own_step H {#} H' {#addr, bucket_block t#}"
      using r(2) by (auto simp: Some shell)
    have "n_entries t = 0" using hash_invD(3) [OF t(1)] t(2) by (simp add: word_unat_eq_iff)
    moreover have "addr \<notin> live H" "live H' = live H \<union> {addr, bucket_block t}"
      using step [OF t(3)] by auto
    ultimately show ?thesis
      using r by (simp add: Some shell hash_defaults_def)
  qed
qed

theorem hash_initialize_correct_witness:
  "\<exists>r H'. hash_initialize 10 (Some (User_tuning 7)) None None (Some Cons :: (ptr \<Rightarrow> ptr list \<Rightarrow> ptr list) option) demo_heap = Inr (r, H') \<and>
     (case r of
        None \<Rightarrow> live H' = live demo_heap
      | Some (addr, t) \<Rightarrow>
          tuning_reasonable (deref_tuning demo_heap (User_tuning 7)) \<and>
          hash_inv H' t \<and> entries t = [] \<and> n_entries t = 0 \<and> addr \<notin> live demo_heap \<and>
          live H' = live demo_heap \<union> {addr, bucket_block t} \<and>
          hasher t = raw_hasher \<and> comparator t = raw_comparator \<and> data_freer t = Some Cons)"
  using hash_initialize_correct [OF own_step_live(1) [OF own_step_refl demo_owned],
      of 10 "Some (User_tuning 7)" None None "Some Cons", unfolded option.case] .

text \<open>\<open>hash_free\<close> calls the client's freer exactly once on every entry and releases the structure,
  the bucket array, the overflow entries and the recycled entries: each of these blocks once, and
  no other block.\<close>

theorem hash_free_correct:
  assumes "hash_inv H t" and "owned H (add_mset addr (blocks_of t))"
  shows "\<exists>H'. hash_free addr t w H = Inr (fold (call_freer t) (entries t) w, H') \<and>
     live H' = live H - set_mset (add_mset addr (blocks_of t))"
proof -
  obtain H' where "hash_free addr t w H = Inr (fold (call_freer t) (entries t) w, H')"
    "own_step H (add_mset addr (blocks_of t)) H' {#}"
    using hash_free_ok [OF assms] by blast
  with own_step_live [OF this(2) assms(2)] show ?thesis by simp
qed

theorem hash_free_correct_witness:
  "\<exists>H'. hash_free 0 demo_table [] demo_heap = Inr ([24, 96, 8], H') \<and> live H' = {}"
proof -
  obtain H' where "hash_free 0 demo_table [] demo_heap = Inr (fold (call_freer demo_table) (entries demo_table) [], H')"
    "live H' = live demo_heap - set_mset (add_mset 0 (blocks_of demo_table))"
    using hash_free_correct [OF demo_inv demo_owned] by blast
  then show ?thesis by (auto simp: demo_lists demo_blocks call_freer_def demo_heap_def)
qed

text \<open>\<open>hash_clear\<close> empties the table, calls the freer exactly once on every entry, keeps every block
  (overflow entries are recycled, none is lost) and the number of buckets.\<close>

theorem hash_clear_correct:
  assumes "hash_inv H t"
  shows "\<exists>t' ds. hash_clear t w = (t', fold (call_freer t) ds w) \<and> mset ds = mset (entries t) \<and>
     hash_inv H t' \<and> entries t' = [] \<and> n_entries t' = 0 \<and> n_buckets t' = n_buckets t \<and> blocks_of t' = blocks_of t"
proof -
  obtain t' ds where "hash_clear t w = (t', fold (call_freer t) ds w)" "mset ds = Es t" "hash_inv H t'"
    "entries t' = []" "blocks_of t' = blocks_of t" "n_buckets t' = n_buckets t"
    using hash_clear_ok [OF assms] by blast
  moreover from this have "n_entries t' = 0" using hash_invD(3) [of H t'] by (simp add: word_unat_eq_iff)
  ultimately show ?thesis by blast
qed

theorem hash_clear_correct_witness:
  "\<exists>t' ds. hash_clear demo_table [] = (t', fold (call_freer demo_table) ds []) \<and> mset ds = {#8, 24, 96#} \<and>
     hash_inv demo_heap t' \<and> entries t' = [] \<and> n_entries t' = 0 \<and> n_buckets t' = 11 \<and> blocks_of t' = {#1, 2, 3#}"
proof -
  have "mset (entries demo_table) = {#8, 24, 96#}" by (simp add: demo_lists add_mset_commute)
  then show ?thesis
    using hash_clear_correct [OF demo_inv, of "[]"] by (simp add: demo_blocks)
qed

subsection \<open>Walks and statistics\<close>

text \<open>\<open>hash_get_first\<close> and \<open>hash_get_next\<close> walk over the entries: the first call returns the first
  entry (NULL for an empty table), a call with an entry returns the one after it, NULL for the
  last. Neither aborts.\<close>

theorem hash_walk_correct:
  assumes "hash_client (hasher t) (comparator t)" and "hash_inv H t"
  shows "hash_get_first t = Inr (case entries t of [] \<Rightarrow> 0 | d # _ \<Rightarrow> d) \<and>
     (\<forall>k < length (entries t). hash_get_next t (entries t ! k) =
        Inr (if Suc k < length (entries t) then entries t ! Suc k else 0))"
proof (intro conjI allI impI)
  have rng: "hash_range (hasher t)" using assms(1) by (simp add: hash_client_def)
  show "hash_get_first t = Inr (case entries t of [] \<Rightarrow> 0 | d # _ \<Rightarrow> d)"
    using hash_get_first_ok [OF assms(2)] .
  fix k assume k: "k < length (entries t)"
  have "hash_get_next t (entries t ! k) = Inr (case drop (Suc k) (entries t) of [] \<Rightarrow> 0 | d # _ \<Rightarrow> d)"
    by (rule hash_range.hash_get_next_ok [OF rng assms(2) refl id_take_nth_drop [OF k]])
  then show "hash_get_next t (entries t ! k) = Inr (if Suc k < length (entries t) then entries t ! Suc k else 0)"
    by (cases "Suc k < length (entries t)") (simp_all add: Cons_nth_drop_Suc [symmetric])
qed

theorem hash_walk_correct_witness:
  "hash_get_first demo_table = Inr 8 \<and> hash_get_next demo_table 8 = Inr 96 \<and>
   hash_get_next demo_table 96 = Inr 24 \<and> hash_get_next demo_table 24 = Inr 0"
proof -
  note w = hash_walk_correct [OF demo_client demo_inv, unfolded demo_lists]
  show ?thesis
    using w spec [OF conjunct2 [OF w], of 0] spec [OF conjunct2 [OF w], of 1] spec [OF conjunct2 [OF w], of 2]
    by (simp add: numeral_2_eq_2)
qed

text \<open>\<open>hash_get_entries\<close> writes the first entries of the table to the buffer, as many as fit, leaves
  the rest of the buffer alone and returns their number; it never writes past a buffer of at least
  \<open>buffer_size\<close> elements.\<close>

theorem hash_get_entries_correct:
  assumes "hash_inv H t" and "unat buffer_size \<le> length buffer"
  defines "k \<equiv> min (length (entries t)) (unat buffer_size)"
  shows "\<exists>n. hash_get_entries t buffer buffer_size = Inr (n, take k (entries t) @ drop k buffer) \<and> unat n = k"
proof -
  have "k < 2 ^ 64" using size_t_lt [of buffer_size] unfolding k_def by linarith
  then show ?thesis
    using get_entries_loop_eq [of buffer_size buffer 0 "bucket t"] assms(2)
    by (simp add: hash_get_entries_def entries_def [symmetric] k_def unat_of_nat)
qed

theorem hash_get_entries_correct_witness:
  "\<exists>n. hash_get_entries demo_table [1, 2, 3] 2 = Inr (n, [8, 96, 3]) \<and> unat n = 2"
  unfolding numeral_2_eq_2 using hash_get_entries_correct [OF demo_inv, of 2 "[1, 2, 3]"]
  by (simp add: demo_lists)

text \<open>\<open>hash_do_for_each\<close> calls the processor on the entries in table order; as long as it returns
  true each entry is processed exactly once and the result is the number of entries; it stops at
  the first entry for which it returns false.\<close>

theorem hash_do_for_each_correct:
  assumes "hash_inv H t" and "entries t = xs @ ys" and "\<forall>d \<in> set xs. \<forall>s. fst (p d s)"
    and "ys = [] \<or> (\<forall>s. \<not> fst (p (hd ys) s))"
  shows "\<exists>n. hash_do_for_each t p s =
     (n, if ys = [] then fold (\<lambda>d s. snd (p d s)) xs s else snd (p (hd ys) (fold (\<lambda>d s. snd (p d s)) xs s))) \<and>
     unat n = length xs"
proof -
  have "length xs < 2 ^ 64" using hash_inv_sizes(1) [OF assms(1)] assms(2) by simp
  then show ?thesis
    using for_each_chain_all [OF assms(3)] assms(4)
    by (cases ys) (auto simp: hash_do_for_each_def for_each_loop_eq entries_def [symmetric] assms(2)
        for_each_chain_eq split_beta Let_def unat_of_nat)
qed

theorem hash_do_for_each_correct_witness:
  "\<exists>n. hash_do_for_each demo_table (\<lambda>d s. (d \<noteq> 24, d # s)) [] = (n, [24, 96, 8]) \<and> unat n = 2"
  unfolding numeral_2_eq_2 using hash_do_for_each_correct [OF demo_inv, of "[8, 96]" "[24]" "\<lambda>d s. (d \<noteq> 24, d # s)" "[]"]
  by (simp add: demo_lists)

text \<open>\<open>hash_table_ok\<close> is true exactly when both counters of the table agree with its contents;
  under the invariant it is true.\<close>

theorem hash_table_ok_correct:
  assumes "hash_inv H t"
  shows "hash_table_ok t \<and>
     (hash_table_ok (t\<lparr>n_entries := m, n_buckets_used := u\<rparr>) \<longleftrightarrow> m = n_entries t \<and> u = n_buckets_used t)"
  using hash_table_ok_iff [OF hash_inv_sizes(1,2) [OF assms]]
    hash_table_ok_iff [of "t\<lparr>n_entries := m, n_buckets_used := u\<rparr>"] hash_inv_sizes(1,2) [OF assms]
    hash_invD(3) [OF assms] table_wfD(4) [OF hash_invD(1) [OF assms]]
  by (auto simp: word_unat_eq_iff)

theorem hash_table_ok_correct_witness:
  "hash_table_ok demo_table \<and> \<not> hash_table_ok (demo_table\<lparr>n_entries := 4, n_buckets_used := 2\<rparr>)"
  using hash_table_ok_correct [OF demo_inv, of 2 4] by simp

text \<open>\<open>hash_get_max_bucket_length\<close> is the greatest number of entries in one bucket.\<close>

theorem hash_get_max_bucket_length_correct:
  assumes "hash_inv H t"
  shows "unat (hash_get_max_bucket_length t) = Max ((\<lambda>b. length (bucket_entries b)) ` set (bucket t))"
proof -
  have "bucket t \<noteq> []" using table_wfD(1,2) [OF hash_invD(1) [OF assms]] by (auto simp: word_unat_eq_iff)
  moreover have "\<forall>b \<in> set (bucket t). length (bucket_entries b) < 2 ^ 64"
    using hash_inv_sizes(1,3) [OF assms] by (meson le_less_trans)
  ultimately show ?thesis
    using max_bucket_length_loop_eq [of "bucket t" 0] by (simp add: hash_get_max_bucket_length_def)
qed

theorem hash_get_max_bucket_length_correct_witness:
  "unat (hash_get_max_bucket_length demo_table) = Max ((\<lambda>b. length (bucket_entries b)) ` set (bucket demo_table)) \<and>
   unat (hash_get_max_bucket_length demo_table) = 2"
  using hash_get_max_bucket_length_correct [OF demo_inv] by (simp, code_simp)

end
