(* ===== verification/CamlFFI.thy ===== *)
theory CamlFFI
  imports Prelude
begin

section \<open>OCaml values as C code sees them\<close>

text \<open>
  What the C stubs of the program use of the OCaml run-time interface (\<open>caml/mlvalues.h\<close>,
  \<open>alloc.h\<close>, \<open>fail.h\<close>). A value is an immediate integer or points to a block: a structured block
  with a tag and fields, a string, a boxed 32-bit or 64-bit integer, a floating-point number (its
  64 bits), a closure, or a custom block that holds a C pointer (a \<open>VHandle\<close> also shows the
  identifier of its custom operations). Macros such as \<open>Field\<close> and \<open>Store_field\<close> do not check anything:
  used on the wrong kind of value or out of bounds they are undefined. A stub ends normally or by
  raising an OCaml exception.
\<close>

datatype mlvalue =
    VInt int
  | VBlock nat "mlvalue list"
  | VString string
  | VInt32 "32 word"
  | VInt64 "64 word"
  | VDouble "64 word"
  | VClosure nat
  | VCustom ptr
  | VHandle string ptr

datatype ml_exn =
    Unix_error int string mlvalue
  | Failure string
  | Not_found
  | Invalid_argument string
  | Out_of_memory
  | Virterror mlvalue

datatype ml_fail = CFail c_fail | Raise ml_exn

type_synonym 'a ml = "ml_fail + 'a"

definition undef :: "'a ml" where
  "undef = Inl (CFail UndefBehav)"

definition raise :: "ml_exn \<Rightarrow> 'a ml" where
  "raise e = Inl (Raise e)"

lemma ml_outcome_simps [simp]:
  "undef \<noteq> Inr x" "raise e \<noteq> Inr x" "Inr x \<noteq> undef" "Inr x \<noteq> raise e" "undef \<noteq> raise e" "raise e \<noteq> undef"
  "raise e = raise e' \<longleftrightarrow> e = e'" "bindR undef f = undef" "bindR (raise e) f = raise e"
  by (simp_all add: undef_def raise_def)

subsection \<open>Macros and allocation\<close>

abbreviation Val_unit :: mlvalue where "Val_unit \<equiv> VInt 0"
abbreviation Val_emptylist :: mlvalue where "Val_emptylist \<equiv> VInt 0"
abbreviation Val_none :: mlvalue where "Val_none \<equiv> VInt 0"

definition Val_bool :: "bool \<Rightarrow> mlvalue" where
  "Val_bool b = VInt (if b then 1 else 0)"

text \<open>An immediate integer has 63 bits. \<open>Val_int\<close> drops the top bit of its argument, and \<open>Int_val\<close> is a
  cast to the 32-bit \<open>int\<close>.\<close>

definition Val_int :: "int \<Rightarrow> mlvalue" where
  "Val_int i = VInt (signed_take_bit 62 i)"

fun Int_val :: "mlvalue \<Rightarrow> c_int ml" where
  "Int_val (VInt i) = Inr (word_of_int i)"
| "Int_val _ = undef"

fun Int32_val :: "mlvalue \<Rightarrow> 32 word ml" where
  "Int32_val (VInt32 i) = Inr i"
| "Int32_val _ = undef"

fun Int64_val :: "mlvalue \<Rightarrow> 64 word ml" where
  "Int64_val (VInt64 i) = Inr i"
| "Int64_val _ = undef"

fun Double_val :: "mlvalue \<Rightarrow> 64 word ml" where
  "Double_val (VDouble d) = Inr d"
| "Double_val _ = undef"

lemma Val_int_small: "- (2 ^ 62) \<le> i \<Longrightarrow> i < 2 ^ 62 \<Longrightarrow> Val_int i = VInt i"
  by (simp add: Val_int_def signed_take_bit_int_eq_self)

lemma Val_int_sint [simp]: "Val_int (sint (x :: c_int)) = VInt (sint x)"
  using sint_range_32 [of x] by (intro Val_int_small) auto

lemma Val_int_uint [simp]: "Val_int (uint (x :: c_int)) = VInt (uint x)"
proof (rule Val_int_small)
  have "- (2 ^ 62) \<le> (0 :: int)" by simp
  also have "0 \<le> uint x" using uint_lt_32 [of x] by blast
  finally show "- (2 ^ 62) \<le> uint x" .
  show "uint x < 2 ^ 62" using uint_lt_32 [of x] by simp
qed

lemma Int_Val_int [simp]: "Int_val (VInt (sint x)) = Inr x" "Int_val (VInt (uint x)) = Inr x"
  by simp_all

text \<open>A C function that is given an OCaml string reads it up to its first NUL.\<close>

definition c_string :: "string \<Rightarrow> string" where
  "c_string s = takeWhile (\<lambda>c. c \<noteq> CHR 0x00) s"

fun String_val :: "mlvalue \<Rightarrow> string ml" where
  "String_val (VString s) = Inr (c_string s)"
| "String_val _ = undef"

text \<open>A C function that is given the bytes together with \<open>caml_string_length\<close> reads all of them.\<close>

fun Bytes_val :: "mlvalue \<Rightarrow> string ml" where
  "Bytes_val (VString s) = Inr s"
| "Bytes_val _ = undef"

lemma c_string_id [simp]: "CHR 0x00 \<notin> set s \<Longrightarrow> c_string s = s"
  by (auto simp: c_string_def takeWhile_eq_all_conv)

fun Data_custom_val :: "mlvalue \<Rightarrow> ptr ml" where
  "Data_custom_val (VCustom p) = Inr p"
| "Data_custom_val (VHandle ops p) = Inr p"
| "Data_custom_val _ = undef"

fun Field :: "mlvalue \<Rightarrow> nat \<Rightarrow> mlvalue ml" where
  "Field (VBlock tag fs) i = (if i < length fs then Inr (fs ! i) else undef)"
| "Field _ i = undef"

fun Tag_val :: "mlvalue \<Rightarrow> nat ml" where
  "Tag_val (VBlock tag fs) = Inr tag"
| "Tag_val _ = undef"

fun Wosize_val :: "mlvalue \<Rightarrow> nat ml" where
  "Wosize_val (VBlock tag fs) = Inr (length fs)"
| "Wosize_val _ = undef"

text \<open>A freshly allocated block is filled field by field before anything else refers to it.\<close>

definition caml_alloc :: "nat \<Rightarrow> nat \<Rightarrow> mlvalue" where
  "caml_alloc n tag = VBlock tag (replicate n Val_unit)"

text \<open>Asked for a negative number of fields (converted to an unsigned size), the run time raises
  \<open>Out_of_memory\<close>.\<close>

definition caml_alloc_n :: "c_int \<Rightarrow> nat \<Rightarrow> mlvalue ml" where
  "caml_alloc_n n tag = (if sint n < 0 then raise Out_of_memory else Inr (caml_alloc (unat n) tag))"

abbreviation caml_alloc_tuple :: "nat \<Rightarrow> mlvalue" where
  "caml_alloc_tuple n \<equiv> caml_alloc n 0"

fun Store_field :: "mlvalue \<Rightarrow> nat \<Rightarrow> mlvalue \<Rightarrow> mlvalue ml" where
  "Store_field (VBlock tag fs) i v = (if i < length fs then Inr (VBlock tag (fs[i := v])) else undef)"
| "Store_field _ i v = undef"

abbreviation caml_copy_string :: "string \<Rightarrow> mlvalue" where
  "caml_copy_string s \<equiv> VString s"

abbreviation caml_copy_int64 :: "64 word \<Rightarrow> mlvalue" where
  "caml_copy_int64 i \<equiv> VInt64 i"

subsection \<open>Representation of OCaml types\<close>

fun ml_list :: "('a \<Rightarrow> mlvalue) \<Rightarrow> 'a list \<Rightarrow> mlvalue" where
  "ml_list f [] = Val_emptylist"
| "ml_list f (x # xs) = VBlock 0 [f x, ml_list f xs]"

fun ml_option :: "('a \<Rightarrow> mlvalue) \<Rightarrow> 'a option \<Rightarrow> mlvalue" where
  "ml_option f None = Val_none"
| "ml_option f (Some x) = VBlock 0 [f x]"

text \<open>A list cell is built by \<open>caml_alloc (2, 0)\<close> and two \<open>Store_field\<close>.\<close>

definition cons_cell :: "mlvalue \<Rightarrow> mlvalue \<Rightarrow> mlvalue ml" where
  "cons_cell x rest = bindR (Store_field (caml_alloc 2 0) 0 x) (\<lambda>v. Store_field v 1 rest)"

lemma cons_cell_eq [simp]: "cons_cell x xs = Inr (VBlock 0 [x, xs])"
  by (simp add: cons_cell_def caml_alloc_def numeral_2_eq_2)

text \<open>Filling the fields \<open>0, 1, \<dots>\<close> of a block in order.\<close>

fun store_fields :: "mlvalue \<Rightarrow> nat \<Rightarrow> mlvalue list \<Rightarrow> mlvalue ml" where
  "store_fields v i [] = Inr v"
| "store_fields v i (x # xs) = bindR (Store_field v i x) (\<lambda>v. store_fields v (Suc i) xs)"

lemma store_fields_eq:
  "i + length xs \<le> length fs \<Longrightarrow>
   store_fields (VBlock tag fs) i xs = Inr (VBlock tag (take i fs @ xs @ drop (i + length xs) fs))"
proof (induction xs arbitrary: i fs)
  case (Cons x xs)
  then have "store_fields (VBlock tag (fs[i := x])) (Suc i) xs =
      Inr (VBlock tag (take (Suc i) (fs[i := x]) @ xs @ drop (Suc i + length xs) (fs[i := x])))"
    by simp
  also have "take (Suc i) (fs[i := x]) = take i fs @ [x]"
    using Cons.prems by (simp add: take_Suc_conv_app_nth)
  finally show ?case using Cons.prems by simp
qed simp

lemma store_fields_overflow:
  "i \<le> length fs \<Longrightarrow> length fs < i + length xs \<Longrightarrow> store_fields (VBlock tag fs) i xs = undef"
  by (induction xs arbitrary: i fs) (auto simp: not_less)

lemma store_all_fields: "store_fields (caml_alloc (length xs) tag) 0 xs = Inr (VBlock tag xs)"
  by (simp add: caml_alloc_def store_fields_eq)

lemma field_size: "Field v i = Inr v' \<Longrightarrow> size v' < size v"
proof (cases v)
  case (VBlock tag fs)
  assume "Field v i = Inr v'"
  then have "v' \<in> set fs" by (auto simp: VBlock undef_def split: if_splits)
  then have "size v' < Suc (size_list size fs)" by (simp add: size_list_estimation less_Suc_eq_le size_list_estimation')
  then show ?thesis by (simp add: VBlock)
qed (auto simp: undef_def)

lemma cons_loop:
  "foreachR (\<lambda>x acc. cons_cell (g x) acc) (rev xs) (ml_list g ys) = Inr (ml_list g (xs @ ys))"
proof (induction xs arbitrary: ys rule: rev_induct)
  case (snoc x xs)
  from snoc [of "x # ys"] show ?case by simp
qed simp

lemma array_loop:
  "foreachR (\<lambda>i v. Store_field v i (g i)) [k..<k + n] (VBlock tag (map g [0..<k] @ replicate n Val_unit)) =
     Inr (VBlock tag (map g [0..<k + n]))"
proof (induction n arbitrary: k)
  case (Suc n)
  have "(map g [0..<k] @ replicate (Suc n) Val_unit)[k := g k] = map g [0..<Suc k] @ replicate n Val_unit"
    by (simp add: list_update_append)
  with Suc.IH [of "Suc k"] show ?case by (simp add: upt_conv_Cons del: upt_Suc)
qed simp

lemma array_filled:
  "foreachR (\<lambda>i v. Store_field v i (g i)) [0..<n] (caml_alloc n tag) = Inr (VBlock tag (map g [0..<n]))"
  using array_loop [where k = 0] by (simp add: caml_alloc_def)

subsection \<open>Stubs with effects\<close>

text \<open>A stub runs on a state \<open>'w\<close> (the C library it calls, the file descriptors) and ends with a
  value or an exception; the state changes made before an exception remain.\<close>

type_synonym ('w, 'a) stub = "'w \<Rightarrow> 'a ml \<times> 'w"

definition retS :: "'a \<Rightarrow> ('w, 'a) stub" where
  "retS x w = (Inr x, w)"

definition liftS :: "'a ml \<Rightarrow> ('w, 'a) stub" where
  "liftS r w = (r, w)"

definition raiseS :: "ml_exn \<Rightarrow> ('w, 'a) stub" where
  "raiseS e w = (raise e, w)"

definition bindS :: "('w, 'a) stub \<Rightarrow> ('a \<Rightarrow> ('w, 'b) stub) \<Rightarrow> ('w, 'b) stub" where
  "bindS m f w = (case m w of (Inl e, w') \<Rightarrow> (Inl e, w') | (Inr x, w') \<Rightarrow> f x w')"

named_theorems stub_simps \<open>running stubs\<close>

lemma stub_run [stub_simps]:
  "bindS (retS x) f = f x" "bindS (liftS (Inr x)) f = f x" "retS x w = (Inr x, w)" "liftS r w = (r, w)"
  "raiseS e w = (raise e, w)" "bindS (raiseS e) f w = (raise e, w)" "bindS (liftS undef) f w = (undef, w)"
  by (simp_all add: fun_eq_iff bindS_def retS_def liftS_def raiseS_def raise_def undef_def)

lemma bindS_Inl [stub_simps]: "bindS (liftS (Inl e)) f w = (Inl e, w)"
  by (simp add: bindS_def liftS_def)

lemma bindS_assoc: "bindS (bindS m f) g = bindS m (\<lambda>x. bindS (f x) g)"
  by (auto simp: fun_eq_iff bindS_def split: prod.splits sum.splits)

text \<open>Loops: over the elements of a C array or range, and over an OCaml list.\<close>

primrec foreachS :: "('a \<Rightarrow> 's \<Rightarrow> ('w, 's) stub) \<Rightarrow> 'a list \<Rightarrow> 's \<Rightarrow> ('w, 's) stub" where
  "foreachS f [] s = retS s"
| "foreachS f (x # xs) s = bindS (f x s) (foreachS f xs)"

lemma foreachS_append: "foreachS f (xs @ ys) s = bindS (foreachS f xs s) (foreachS f ys)"
proof (induction xs arbitrary: s)
  case (Cons x xs)
  then have "foreachS f (xs @ ys) = (\<lambda>s. bindS (foreachS f xs s) (foreachS f ys))" by (rule ext)
  then show ?case by (simp add: bindS_assoc)
qed (simp add: stub_simps)

function ml_iterS :: "(mlvalue \<Rightarrow> 's \<Rightarrow> ('w, 's) stub) \<Rightarrow> mlvalue \<Rightarrow> 's \<Rightarrow> ('w, 's) stub" where
  "ml_iterS f listv s =
     (if listv = Val_emptylist then retS s
      else bindS (bindS (liftS (Field listv 0)) (\<lambda>x. f x s)) (\<lambda>s.
             case Field listv 1 of Inl e \<Rightarrow> liftS (Inl e) | Inr rest \<Rightarrow> ml_iterS f rest s))"
  by pat_completeness auto
termination
  by (relation "measure (\<lambda>(f, listv, s). size listv)") (auto intro: field_size)

declare ml_iterS.simps [simp del]

definition ml_iter :: "(mlvalue \<Rightarrow> 's \<Rightarrow> 's ml) \<Rightarrow> mlvalue \<Rightarrow> 's \<Rightarrow> 's ml" where
  "ml_iter f listv s = fst (ml_iterS (\<lambda>x s. liftS (f x s)) listv s ())"

lemma ml_iterS_list: "ml_iterS f (ml_list g xs) s = foreachS (\<lambda>x. f (g x)) xs s"
  by (induction xs arbitrary: s) (subst ml_iterS.simps, simp add: stub_simps)+

lemma foreachS_lift: "foreachS (\<lambda>x s. liftS (f x s)) xs s = liftS (foreachR f xs s)"
proof (induction xs arbitrary: s)
  case (Cons x xs)
  then show ?case by (cases "f x s") (simp_all add: fun_eq_iff bindS_def liftS_def)
qed (simp add: fun_eq_iff retS_def liftS_def)

lemma ml_iter_list: "ml_iter f (ml_list g xs) s = foreachR (\<lambda>x. f (g x)) xs s"
  by (simp add: ml_iter_def ml_iterS_list foreachS_lift stub_simps)

end
