(* ===== verification/Qemuopts.thy ===== *)
theory Qemuopts
  imports CamlFFI
begin

section \<open>The binding of the qemu option library (output/qemuopts-c.c)\<close>

text \<open>
  The stubs behind \<open>Qemuopts\<close>. The library they call (\<open>qemuopts.h\<close>) is not part of the repository's
  sources: it is the parameter \<open>lib\<close>, one function per library call on the library's own state \<open>'q\<close>,
  each with the result and the value of \<open>errno\<close>. File descriptors are modelled: \<open>dup\<close> returns the
  lowest free one, a stream owns its descriptor and \<open>fclose\<close> closes it whatever it returns; which
  system calls fail is not under the program's control (\<open>sys_ok\<close>).
\<close>

subsection \<open>State\<close>

record 'q qemuopts_lib =
  qemuopts_create :: "'q \<Rightarrow> ptr \<times> int \<times> 'q"
  qemuopts_free :: "ptr \<Rightarrow> 'q \<Rightarrow> 'q"
  qemuopts_set_binary :: "ptr \<Rightarrow> string \<Rightarrow> 'q \<Rightarrow> int \<times> int \<times> 'q"
  qemuopts_set_binary_by_arch :: "ptr \<Rightarrow> string option \<Rightarrow> 'q \<Rightarrow> int \<times> int \<times> 'q"
  qemuopts_add_flag :: "ptr \<Rightarrow> string \<Rightarrow> 'q \<Rightarrow> int \<times> int \<times> 'q"
  qemuopts_add_arg :: "ptr \<Rightarrow> string \<Rightarrow> string \<Rightarrow> 'q \<Rightarrow> int \<times> int \<times> 'q"
  qemuopts_add_arg_noquote :: "ptr \<Rightarrow> string \<Rightarrow> string \<Rightarrow> 'q \<Rightarrow> int \<times> int \<times> 'q"
  qemuopts_start_arg_list :: "ptr \<Rightarrow> string \<Rightarrow> 'q \<Rightarrow> int \<times> int \<times> 'q"
  qemuopts_append_arg_list :: "ptr \<Rightarrow> string \<Rightarrow> 'q \<Rightarrow> int \<times> int \<times> 'q"
  qemuopts_end_arg_list :: "ptr \<Rightarrow> 'q \<Rightarrow> int \<times> int \<times> 'q"
  qemuopts_to_script :: "ptr \<Rightarrow> string \<Rightarrow> 'q \<Rightarrow> int \<times> int \<times> 'q"
  qemuopts_to_channel :: "ptr \<Rightarrow> int \<Rightarrow> 'q \<Rightarrow> int \<times> int \<times> 'q"

record 'q qworld =
  qlib :: 'q
  errno :: int
  fds :: "int list"
  sys_ok :: "nat \<Rightarrow> bool"
  n_sys :: nat

text \<open>A library call that reports failure by -1 sets \<open>errno\<close>.\<close>

definition call_lib :: "('q \<Rightarrow> int \<times> int \<times> 'q) \<Rightarrow> 'q qworld \<Rightarrow> int \<times> 'q qworld" where
  "call_lib f w = (let (r, e, q) = f (qlib w) in (r, w\<lparr>qlib := q, errno := if r = - 1 then e else errno w\<rparr>))"

text \<open>\<open>unix_error (errno, fname, arg)\<close>; \<open>Nothing\<close> is the empty string.\<close>

abbreviation Nothing :: mlvalue where "Nothing \<equiv> VString ''''"

definition unix_error :: "string \<Rightarrow> mlvalue \<Rightarrow> ('q qworld, 'a) stub" where
  "unix_error fname arg w = raiseS (Unix_error (errno w) fname arg) w"

definition checked :: "string \<Rightarrow> mlvalue \<Rightarrow> ('q \<Rightarrow> int \<times> int \<times> 'q) \<Rightarrow> ('q qworld, unit) stub" where
  "checked fname arg f w = (let (r, w) = call_lib f w in if r = - 1 then unix_error fname arg w else retS () w)"

subsection \<open>System calls\<close>

definition syscall :: "'q qworld \<Rightarrow> bool \<times> 'q qworld" where
  "syscall w = (sys_ok w (n_sys w), w\<lparr>n_sys := Suc (n_sys w)\<rparr>)"

definition lowest_free :: "int list \<Rightarrow> int" where
  "lowest_free used = hd (filter (\<lambda>i. i \<notin> set used) (map int [0..<Suc (length used)]))"

definition dup :: "int \<Rightarrow> 'q qworld \<Rightarrow> int \<times> 'q qworld" where
  "dup fd w =
     (let (ok, w) = syscall w
      in if fd \<notin> set (fds w) then (- 1, w\<lparr>errno := 9\<rparr>)
         else if \<not> ok then (- 1, w\<lparr>errno := 24\<rparr>)
         else (lowest_free (fds w), w\<lparr>fds := lowest_free (fds w) # fds w\<rparr>))"

definition fdopen :: "int \<Rightarrow> 'q qworld \<Rightarrow> int option \<times> 'q qworld" where
  "fdopen fd w = (let (ok, w) = syscall w in if ok then (Some fd, w) else (None, w\<lparr>errno := 12\<rparr>))"

definition close :: "int \<Rightarrow> 'q qworld \<Rightarrow> 'q qworld" where
  "close fd w = (let (ok, w) = syscall w in w\<lparr>fds := remove1 fd (fds w), errno := if ok then errno w else 5\<rparr>)"

definition fclose :: "int \<Rightarrow> 'q qworld \<Rightarrow> int \<times> 'q qworld" where
  "fclose fp w =
     (let (ok, w) = syscall w; w = w\<lparr>fds := remove1 fp (fds w)\<rparr>
      in if ok then (0, w) else (- 1, w\<lparr>errno := 28\<rparr>))"

subsection \<open>The stubs\<close>

definition qopts_finalize :: "'q qemuopts_lib \<Rightarrow> mlvalue \<Rightarrow> ('q qworld, unit) stub" where
  "qopts_finalize lib qoptsv =
     bindS (liftS (Data_custom_val qoptsv)) (\<lambda>qopts w.
       if qopts \<noteq> 0 then (Inr (), w\<lparr>qlib := qemuopts_free lib qopts (qlib w)\<rparr>) else (Inr (), w))"

definition guestfs_int_qemuopts_create :: "'q qemuopts_lib \<Rightarrow> mlvalue \<Rightarrow> ('q qworld, mlvalue) stub" where
  "guestfs_int_qemuopts_create lib unitv w =
     (let (qopts, e, q) = qemuopts_create lib (qlib w); w = w\<lparr>qlib := q\<rparr>
      in if qopts = 0 then unix_error ''qemuopts_create'' Nothing (w\<lparr>errno := e\<rparr>)
         else retS (VCustom qopts) w)"

definition guestfs_int_qemuopts_set_binary :: "'q qemuopts_lib \<Rightarrow> mlvalue \<Rightarrow> mlvalue \<Rightarrow> ('q qworld, mlvalue) stub" where
  "guestfs_int_qemuopts_set_binary lib qoptsv strv =
     bindS (liftS (Data_custom_val qoptsv)) (\<lambda>qopts.
     bindS (liftS (String_val strv)) (\<lambda>str.
     bindS (checked ''qemuopts_set_binary'' strv (qemuopts_set_binary lib qopts str)) (\<lambda>_. retS Val_unit)))"

definition guestfs_int_qemuopts_set_binary_by_arch ::
  "'q qemuopts_lib \<Rightarrow> mlvalue \<Rightarrow> mlvalue \<Rightarrow> ('q qworld, mlvalue) stub" where
  "guestfs_int_qemuopts_set_binary_by_arch lib qoptsv ostrv =
     bindS (liftS (Data_custom_val qoptsv)) (\<lambda>qopts.
     bindS (if ostrv \<noteq> VInt 0 then retS None
            else bindS (liftS (bindR (Field ostrv 0) String_val)) (\<lambda>s. retS (Some s))) (\<lambda>arch.
     bindS (checked ''qemuopts_set_binary_by_arch'' Nothing (qemuopts_set_binary_by_arch lib qopts arch)) (\<lambda>_.
       retS Val_unit)))"

definition guestfs_int_qemuopts_flag :: "'q qemuopts_lib \<Rightarrow> mlvalue \<Rightarrow> mlvalue \<Rightarrow> ('q qworld, mlvalue) stub" where
  "guestfs_int_qemuopts_flag lib qoptsv flagv =
     bindS (liftS (Data_custom_val qoptsv)) (\<lambda>qopts.
     bindS (liftS (String_val flagv)) (\<lambda>flag.
     bindS (checked ''qemuopts_add_flag'' flagv (qemuopts_add_flag lib qopts flag)) (\<lambda>_. retS Val_unit)))"

definition guestfs_int_qemuopts_arg :: "'q qemuopts_lib \<Rightarrow> mlvalue \<Rightarrow> mlvalue \<Rightarrow> mlvalue \<Rightarrow> ('q qworld, mlvalue) stub" where
  "guestfs_int_qemuopts_arg lib qoptsv flagv valv =
     bindS (liftS (Data_custom_val qoptsv)) (\<lambda>qopts.
     bindS (liftS (String_val flagv)) (\<lambda>flag.
     bindS (liftS (String_val valv)) (\<lambda>val.
     bindS (checked ''qemuopts_add_arg'' flagv (qemuopts_add_arg lib qopts flag val)) (\<lambda>_. retS Val_unit))))"

definition guestfs_int_qemuopts_arg_noquote ::
  "'q qemuopts_lib \<Rightarrow> mlvalue \<Rightarrow> mlvalue \<Rightarrow> mlvalue \<Rightarrow> ('q qworld, mlvalue) stub" where
  "guestfs_int_qemuopts_arg_noquote lib qoptsv flagv valv =
     bindS (liftS (Data_custom_val qoptsv)) (\<lambda>qopts.
     bindS (liftS (String_val flagv)) (\<lambda>flag.
     bindS (liftS (String_val valv)) (\<lambda>val.
     bindS (checked ''qemuopts_add_arg_noquote'' flagv (qemuopts_add_arg_noquote lib qopts flag val)) (\<lambda>_.
       retS Val_unit))))"

text \<open>The loop over the OCaml list.\<close>

function arg_list_loop :: "'q qemuopts_lib \<Rightarrow> ptr \<Rightarrow> mlvalue \<Rightarrow> mlvalue \<Rightarrow> ('q qworld, unit) stub" where
  "arg_list_loop lib qopts flagv valuesv =
     (if valuesv = Val_emptylist then retS ()
      else case Field valuesv 0 of
             Inl e \<Rightarrow> liftS (Inl e)
           | Inr x \<Rightarrow>
               bindS (liftS (String_val x)) (\<lambda>s.
               bindS (checked ''qemuopts_append_arg_list'' flagv (qemuopts_append_arg_list lib qopts s)) (\<lambda>_.
                 case Field valuesv 1 of
                   Inl e \<Rightarrow> liftS (Inl e)
                 | Inr rest \<Rightarrow> arg_list_loop lib qopts flagv rest)))"
  by pat_completeness auto
termination
  by (relation "measure (\<lambda>(lib, qopts, flagv, valuesv). size valuesv)") (auto intro: field_size)

declare arg_list_loop.simps [simp del]

definition guestfs_int_qemuopts_arg_list ::
  "'q qemuopts_lib \<Rightarrow> mlvalue \<Rightarrow> mlvalue \<Rightarrow> mlvalue \<Rightarrow> ('q qworld, mlvalue) stub" where
  "guestfs_int_qemuopts_arg_list lib qoptsv flagv valuesv =
     bindS (liftS (Data_custom_val qoptsv)) (\<lambda>qopts.
     bindS (liftS (String_val flagv)) (\<lambda>flag.
     bindS (checked ''qemuopts_start_arg_list'' flagv (qemuopts_start_arg_list lib qopts flag)) (\<lambda>_.
     bindS (arg_list_loop lib qopts flagv valuesv) (\<lambda>_.
     bindS (checked ''qemuopts_end_arg_list'' flagv (qemuopts_end_arg_list lib qopts)) (\<lambda>_. retS Val_unit)))))"

definition guestfs_int_qemuopts_to_script :: "'q qemuopts_lib \<Rightarrow> mlvalue \<Rightarrow> mlvalue \<Rightarrow> ('q qworld, mlvalue) stub" where
  "guestfs_int_qemuopts_to_script lib qoptsv strv =
     bindS (liftS (Data_custom_val qoptsv)) (\<lambda>qopts.
     bindS (liftS (String_val strv)) (\<lambda>str.
     bindS (checked ''qemuopts_to_script'' strv (qemuopts_to_script lib qopts str)) (\<lambda>_. retS Val_unit)))"

definition guestfs_int_qemuopts_to_chan :: "'q qemuopts_lib \<Rightarrow> mlvalue \<Rightarrow> mlvalue \<Rightarrow> ('q qworld, mlvalue) stub" where
  "guestfs_int_qemuopts_to_chan lib qoptsv fdv =
     bindS (liftS (Data_custom_val qoptsv)) (\<lambda>qopts.
     bindS (liftS (Int_val fdv)) (\<lambda>fd w.
       let (fd2, w) = dup (sint fd) w
       in if fd2 = - 1 then unix_error ''qemuopts_to_channel: dup'' Nothing w
          else case fdopen fd2 w of
                 (None, w) \<Rightarrow>
                   let saved_errno = errno w; w = close fd2 w
                   in raiseS (Unix_error saved_errno ''qemuopts_to_channel: fdopen'' Nothing) w
               | (Some fp, w) \<Rightarrow>
                   let (r, w) = call_lib (qemuopts_to_channel lib qopts fp) w
                   in if r = - 1
                      then let saved_errno = errno w; (_, w) = fclose fp w
                           in raiseS (Unix_error saved_errno ''qemuopts_to_channel'' Nothing) w
                      else let (r, w) = fclose fp w
                           in if r = - 1 then unix_error ''qemuopts_to_channel: fclose'' Nothing w
                              else retS Val_unit w))"

subsection \<open>Specification: calls until the first failure\<close>

fun run_calls :: "(string \<times> ('q \<Rightarrow> int \<times> int \<times> 'q)) list \<Rightarrow> 'q \<Rightarrow> (string \<times> int) option \<times> 'q" where
  "run_calls [] q = (None, q)"
| "run_calls ((name, f) # fs) q = (let (r, e, q) = f q in if r = - 1 then (Some (name, e), q) else run_calls fs q)"

definition stub_result :: "mlvalue \<Rightarrow> (string \<times> int) option \<times> 'q \<Rightarrow> 'a \<Rightarrow> 'q qworld \<Rightarrow> 'a ml \<times> 'q qworld" where
  "stub_result arg out x w =
     (case out of
        (None, q) \<Rightarrow> (Inr x, w\<lparr>qlib := q\<rparr>)
      | (Some (name, e), q) \<Rightarrow> (raise (Unix_error e name arg), w\<lparr>qlib := q, errno := e\<rparr>))"

lemma checked_eq: "checked name arg f w = stub_result arg (run_calls [(name, f)] (qlib w)) () w"
  by (simp add: checked_def call_lib_def stub_result_def unix_error_def stub_simps split: prod.splits)

lemma qworld_updates [simp]:
  "w\<lparr>qlib := q, errno := errno w\<rparr> = w\<lparr>qlib := q\<rparr>" "w\<lparr>qlib := qlib w\<rparr> = w"
  by simp_all

text \<open>Sequencing stubs is appending their calls.\<close>

lemma run_calls_append:
  "run_calls (fs @ gs) q = (case run_calls fs q of (None, q) \<Rightarrow> run_calls gs q | r \<Rightarrow> r)"
  by (induction fs q rule: run_calls.induct) (auto split: prod.splits)

lemma bind_calls:
  assumes "\<And>w. m w = stub_result arg (run_calls fs (qlib w)) () w"
    and "\<And>w. k () w = stub_result arg (run_calls gs (qlib w)) x w"
  shows "bindS m k w = stub_result arg (run_calls (fs @ gs) (qlib w)) x w"
  by (simp add: bindS_def assms run_calls_append stub_result_def raise_def split: prod.splits option.splits)

lemma ret_calls: "retS x w = stub_result arg (run_calls [] (qlib w)) x w"
  by (simp add: stub_result_def stub_simps)

lemma checked_ret:
  "bindS (checked name arg f) (\<lambda>_. retS x) w = stub_result arg (run_calls [(name, f)] (qlib w)) x w"
  using bind_calls [OF checked_eq, where k = "\<lambda>_. retS x", OF ret_calls] by simp

lemma arg_list_loop_eq:
  "arg_list_loop lib qopts arg (ml_list VString vals) w =
     stub_result arg (run_calls (map (\<lambda>v. (''qemuopts_append_arg_list'', qemuopts_append_arg_list lib qopts (c_string v))) vals)
       (qlib w)) () w"
proof (induction vals arbitrary: w)
  case Nil
  then show ?case by (subst arg_list_loop.simps) (simp add: stub_result_def stub_simps)
next
  case (Cons v vals)
  let ?c = "(''qemuopts_append_arg_list'', qemuopts_append_arg_list lib qopts (c_string v))"
  have "arg_list_loop lib qopts arg (ml_list VString (v # vals)) =
      bindS (checked ''qemuopts_append_arg_list'' arg (qemuopts_append_arg_list lib qopts (c_string v)))
        (\<lambda>_. arg_list_loop lib qopts arg (ml_list VString vals))"
    by (subst arg_list_loop.simps) (simp add: stub_simps)
  then show ?case
    using bind_calls [OF checked_eq, where k = "\<lambda>_. arg_list_loop lib qopts arg (ml_list VString vals)", OF Cons.IH] by simp
qed

subsection \<open>Properties\<close>

text \<open>C31: \<open>guestfs_int_qemuopts_arg_list\<close>, given any OCaml list of strings, starts the list, appends each
  string in order and ends it; it stops at the first call that fails and raises \<open>Unix_error\<close> with
  the error number and name of that call, and returns unit if none fails.\<close>

theorem arg_list_correct:
  "guestfs_int_qemuopts_arg_list lib (VCustom qopts) (VString flag) (ml_list VString vals) w =
     stub_result (VString flag)
       (run_calls ([(''qemuopts_start_arg_list'', qemuopts_start_arg_list lib qopts (c_string flag))] @
          map (\<lambda>v. (''qemuopts_append_arg_list'', qemuopts_append_arg_list lib qopts (c_string v))) vals @
          [(''qemuopts_end_arg_list'', qemuopts_end_arg_list lib qopts)]) (qlib w)) Val_unit w"
  unfolding guestfs_int_qemuopts_arg_list_def
  by (simp only: stub_simps Data_custom_val.simps String_val.simps)
     (rule bind_calls [OF checked_eq], rule bind_calls [OF arg_list_loop_eq], rule checked_ret)

text \<open>Each of the other stubs with string arguments makes exactly one library call, with the
  strings up to their first NUL, and turns the result -1 into \<open>Unix_error\<close> with the error number of
  the call and the documented function name.\<close>

theorem single_call_stubs:
  "guestfs_int_qemuopts_set_binary lib (VCustom qopts) (VString s) w =
     stub_result (VString s) (run_calls [(''qemuopts_set_binary'', qemuopts_set_binary lib qopts (c_string s))] (qlib w)) Val_unit w \<and>
   guestfs_int_qemuopts_flag lib (VCustom qopts) (VString s) w =
     stub_result (VString s) (run_calls [(''qemuopts_add_flag'', qemuopts_add_flag lib qopts (c_string s))] (qlib w)) Val_unit w \<and>
   guestfs_int_qemuopts_arg lib (VCustom qopts) (VString s) (VString v) w =
     stub_result (VString s) (run_calls [(''qemuopts_add_arg'', qemuopts_add_arg lib qopts (c_string s) (c_string v))] (qlib w)) Val_unit w \<and>
   guestfs_int_qemuopts_arg_noquote lib (VCustom qopts) (VString s) (VString v) w =
     stub_result (VString s) (run_calls [(''qemuopts_add_arg_noquote'', qemuopts_add_arg_noquote lib qopts (c_string s) (c_string v))] (qlib w)) Val_unit w \<and>
   guestfs_int_qemuopts_to_script lib (VCustom qopts) (VString s) w =
     stub_result (VString s) (run_calls [(''qemuopts_to_script'', qemuopts_to_script lib qopts (c_string s))] (qlib w)) Val_unit w"
  unfolding guestfs_int_qemuopts_set_binary_def guestfs_int_qemuopts_flag_def guestfs_int_qemuopts_arg_def
    guestfs_int_qemuopts_arg_noquote_def guestfs_int_qemuopts_to_script_def
  by (simp only: stub_simps Data_custom_val.simps String_val.simps checked_ret simp_thms)

text \<open>C39: \<open>guestfs_int_qemuopts_set_binary_by_arch\<close> has its condition the wrong way round: given
  \<open>Some arch\<close> it ignores the architecture and asks for the default binary, and given \<open>None\<close> it reads
  a field of an immediate value, which is undefined.\<close>

theorem set_binary_by_arch_inverted:
  "guestfs_int_qemuopts_set_binary_by_arch lib (VCustom qopts) (ml_option VString (Some arch)) w =
     stub_result Nothing (run_calls [(''qemuopts_set_binary_by_arch'', qemuopts_set_binary_by_arch lib qopts None)] (qlib w)) Val_unit w \<and>
   guestfs_int_qemuopts_set_binary_by_arch lib (VCustom qopts) (ml_option VString None) w = (undef, w)"
  by (simp add: guestfs_int_qemuopts_set_binary_by_arch_def stub_simps checked_ret bindS_assoc)

lemma lowest_free_fresh: "lowest_free used \<notin> set used \<and> 0 \<le> lowest_free used"
proof -
  let ?cs = "map int [0..<Suc (length used)]"
  have "card (set ?cs) = Suc (length used)" by (simp add: card_image del: upt_Suc)
  then have "\<not> set ?cs \<subseteq> set used"
    using card_mono [of "set used" "set ?cs"] card_length [of used] by auto
  then have "filter (\<lambda>i. i \<notin> set used) ?cs \<noteq> []" by (auto simp: filter_empty_conv simp del: upt_Suc)
  then have "hd (filter (\<lambda>i. i \<notin> set used) ?cs) \<in> set (filter (\<lambda>i. i \<notin> set used) ?cs)" by (rule hd_in_set)
  then show ?thesis by (auto simp: lowest_free_def simp del: upt_Suc)
qed

text \<open>C32: \<open>guestfs_int_qemuopts_to_chan\<close> leaves exactly the descriptors open that were open before, on
  success and on every error path: the duplicate is always closed and the caller's descriptor
  never. It returns unit, or raises \<open>Unix_error\<close> with the name of the call that failed and the error number that this call has
  set, whatever the calls that clean up afterwards do to \<open>errno\<close>: a descriptor that is not open or cannot be
  duplicated, a stream that cannot be made (where closing the duplicate may fail too), the library, and the final \<open>fclose\<close>. The library is
  called once when the stream has been made, and never otherwise.\<close>

theorem to_chan_keeps_descriptors:
  "\<exists>r w'. guestfs_int_qemuopts_to_chan lib (VCustom qopts) (VInt (sint (fd :: c_int))) w = (r, w') \<and> fds w' = fds w \<and>
     (case qemuopts_to_channel lib qopts (lowest_free (fds w)) (qlib w) of
        (res, e, q) \<Rightarrow>
          if sint fd \<notin> set (fds w) then r = raise (Unix_error 9 ''qemuopts_to_channel: dup'' Nothing) \<and> qlib w' = qlib w
          else if \<not> sys_ok w (n_sys w) then r = raise (Unix_error 24 ''qemuopts_to_channel: dup'' Nothing) \<and> qlib w' = qlib w
          else if \<not> sys_ok w (n_sys w + 1) then r = raise (Unix_error 12 ''qemuopts_to_channel: fdopen'' Nothing) \<and> qlib w' = qlib w
          else if res = - 1 then r = raise (Unix_error e ''qemuopts_to_channel'' Nothing) \<and> qlib w' = q
          else if \<not> sys_ok w (n_sys w + 2) then r = raise (Unix_error 28 ''qemuopts_to_channel: fclose'' Nothing) \<and> qlib w' = q
          else r = Inr Val_unit \<and> qlib w' = q)"
proof -
  obtain res e q where lib: "qemuopts_to_channel lib qopts (lowest_free (fds w)) (qlib w) = (res, e, q)"
    by (cases "qemuopts_to_channel lib qopts (lowest_free (fds w)) (qlib w)") auto
  show ?thesis
    unfolding lib using lib lowest_free_fresh [of "fds w"]
    by (auto simp: guestfs_int_qemuopts_to_chan_def dup_def fdopen_def close_def fclose_def call_lib_def syscall_def
        unix_error_def stub_simps Let_def numeral_2_eq_2 split: prod.splits if_splits)
qed

end
