(* ===== verification/Libosinfo.thy ===== *)
theory Libosinfo
  imports CamlFFI
begin

section \<open>The binding of libosinfo (convert/libosinfo-c.c)\<close>

text \<open>
  The stubs behind \<open>Libosinfo\<close>. The library (libosinfo and GObject) is the parameter \<open>lib\<close>: its
  functions on a state \<open>'w\<close>, with NULL as the pointer 0 or \<open>None\<close>. The names of the properties are
  macros of its headers and appear as constructors. A variable declared with \<open>g_autoptr\<close> is
  released when the function returns, in reverse order of declaration; raising an OCaml exception
  jumps out of the function without doing so.
\<close>

subsection \<open>Version test\<close>

definition MAKE_VERSION_HEX :: "int \<Rightarrow> int \<Rightarrow> int \<Rightarrow> int" where
  "MAKE_VERSION_HEX maj mn mic = (push_bit 16 maj OR push_bit 8 mn) OR push_bit 0 mic"

definition IS_LIBOSINFO_VERSION :: "int \<times> int \<times> int \<Rightarrow> int \<Rightarrow> int \<Rightarrow> int \<Rightarrow> bool" where
  "IS_LIBOSINFO_VERSION version maj mn mic =
     (case version of (a, b, c) \<Rightarrow> MAKE_VERSION_HEX maj mn mic \<le> MAKE_VERSION_HEX a b c)"

subsection \<open>The library\<close>

datatype prop_name =
    OSINFO_ENTITY_PROP_ID | OSINFO_DEVICE_PROP_VENDOR | OSINFO_DEVICE_PROP_VENDOR_ID
  | OSINFO_DEVICE_PROP_PRODUCT | OSINFO_DEVICE_PROP_PRODUCT_ID | OSINFO_DEVICE_PROP_NAME
  | OSINFO_DEVICE_PROP_CLASS | OSINFO_DEVICE_PROP_BUS_TYPE | OSINFO_DEVICE_PROP_SUBSYSTEM
  | OSINFO_PRODUCT_PROP_SHORT_ID

record 'w osinfo_lib =
  osinfo_version :: "int \<times> int \<times> int"
  osinfo_loader_new :: "'w \<Rightarrow> ptr \<times> 'w"
  osinfo_loader_process_default_path :: "ptr \<Rightarrow> 'w \<Rightarrow> string option \<times> 'w"
  asprintf_ok :: "'w \<Rightarrow> bool"
  osinfo_loader_get_db :: "ptr \<Rightarrow> 'w \<Rightarrow> ptr"
  g_object_ref :: "ptr \<Rightarrow> 'w \<Rightarrow> 'w"
  g_object_unref :: "ptr \<Rightarrow> 'w \<Rightarrow> 'w"
  osinfo_db_get_os_list :: "ptr \<Rightarrow> 'w \<Rightarrow> ptr \<times> 'w"
  osinfo_filter_new :: "'w \<Rightarrow> ptr \<times> 'w"
  osinfo_filter_add_constraint :: "ptr \<Rightarrow> prop_name \<Rightarrow> string \<Rightarrow> 'w \<Rightarrow> 'w"
  osinfo_list_new_filtered :: "ptr \<Rightarrow> ptr \<Rightarrow> 'w \<Rightarrow> ptr \<times> 'w"
  osinfo_list_get_length :: "ptr \<Rightarrow> 'w \<Rightarrow> nat"
  osinfo_list_get_nth :: "ptr \<Rightarrow> nat \<Rightarrow> 'w \<Rightarrow> ptr"
  osinfo_entity_get_id :: "ptr \<Rightarrow> 'w \<Rightarrow> string option"
  osinfo_entity_get_param_value :: "ptr \<Rightarrow> prop_name \<Rightarrow> 'w \<Rightarrow> string option"
  osinfo_os_get_device_drivers :: "ptr \<Rightarrow> 'w \<Rightarrow> ptr \<times> 'w"
  osinfo_device_driver_get_architecture :: "ptr \<Rightarrow> 'w \<Rightarrow> string option"
  osinfo_device_driver_get_location :: "ptr \<Rightarrow> 'w \<Rightarrow> string option"
  osinfo_device_driver_get_pre_installable :: "ptr \<Rightarrow> 'w \<Rightarrow> bool"
  osinfo_device_driver_get_signed :: "ptr \<Rightarrow> 'w \<Rightarrow> bool"
  osinfo_device_driver_get_priority :: "ptr \<Rightarrow> 'w \<Rightarrow> 64 word"
  osinfo_device_driver_get_files :: "ptr \<Rightarrow> 'w \<Rightarrow> string list \<times> 'w"
  g_list_free :: "string list \<Rightarrow> 'w \<Rightarrow> 'w"
  osinfo_device_driver_get_devices :: "ptr \<Rightarrow> 'w \<Rightarrow> ptr"
  osinfo_os_get_all_devices :: "ptr \<Rightarrow> 'w \<Rightarrow> ptr \<times> 'w"

text \<open>\<open>caml_copy_string\<close> of a NULL pointer is undefined.\<close>

definition copy_string :: "string option \<Rightarrow> mlvalue ml" where
  "copy_string s = (case s of None \<Rightarrow> undef | Some s \<Rightarrow> Inr (caml_copy_string s))"

definition autoptr_unref :: "'w osinfo_lib \<Rightarrow> ptr \<Rightarrow> 'w \<Rightarrow> 'w" where
  "autoptr_unref lib p w = (if p \<noteq> 0 then g_object_unref lib p w else w)"

subsection \<open>Handles\<close>

definition OsinfoDb_t_finalize :: "'w osinfo_lib \<Rightarrow> mlvalue \<Rightarrow> ('w, unit) stub" where
  "OsinfoDb_t_finalize lib tv =
     bindS (liftS (Data_custom_val tv)) (\<lambda>t w. (Inr (), if t \<noteq> 0 then g_object_unref lib t w else w))"

definition Val_OsinfoDb_t :: "ptr \<Rightarrow> mlvalue" where
  "Val_OsinfoDb_t t = VCustom t"

definition OsinfoOs_t_val :: "mlvalue \<Rightarrow> ptr ml" where
  "OsinfoOs_t_val rv = bindR (Field rv 0) Data_custom_val"

definition Val_OsinfoOs_t :: "mlvalue \<Rightarrow> ptr \<Rightarrow> mlvalue ml" where
  "Val_OsinfoOs_t dbv os =
     bindR (Store_field (caml_alloc_tuple 2) 0 (VCustom os)) (\<lambda>rv. Store_field rv 1 dbv)"

subsection \<open>The stubs\<close>

definition v2v_osinfo_db_load :: "'w osinfo_lib \<Rightarrow> mlvalue \<Rightarrow> ('w, mlvalue) stub" where
  "v2v_osinfo_db_load lib unitv w =
     (let (loader, w) = osinfo_loader_new lib w;
          (error, w) = osinfo_loader_process_default_path lib loader w
      in case error of
           Some message \<Rightarrow>
             raiseS (Failure (if asprintf_ok lib w
                              then ''libosinfo error: osinfo_loader_process_default_path: '' @ message
                              else ''osinfo_loader_process_default_path failed'')) w
         | None \<Rightarrow>
             let db = osinfo_loader_get_db lib loader w;
                 w = g_object_ref lib db w;
                 rv = Val_OsinfoDb_t db
             in retS rv (autoptr_unref lib loader w))"

definition v2v_osinfo_os_find_os_by_short_id :: "'w osinfo_lib \<Rightarrow> mlvalue \<Rightarrow> mlvalue \<Rightarrow> ('w, mlvalue) stub" where
  "v2v_osinfo_os_find_os_by_short_id lib dbv osv =
     bindS (liftS (Data_custom_val dbv)) (\<lambda>db.
     bindS (liftS (String_val osv)) (\<lambda>short_id w.
       let (os_list, w) = osinfo_db_get_os_list lib db w;
           (flt, w) = osinfo_filter_new lib w;
           w = osinfo_filter_add_constraint lib flt OSINFO_PRODUCT_PROP_SHORT_ID short_id w;
           (lst, w) = osinfo_list_new_filtered lib os_list flt w
       in if osinfo_list_get_length lib lst w = 0
          then raiseS Not_found (g_object_unref lib lst w)
          else let os = osinfo_list_get_nth lib lst 0 w
               in bindS (liftS (Val_OsinfoOs_t dbv os)) (\<lambda>rv w.
                    let w = g_object_unref lib lst w
                    in retS rv (autoptr_unref lib flt (autoptr_unref lib os_list w))) w))"

definition v2v_osinfo_os_get_id :: "'w osinfo_lib \<Rightarrow> mlvalue \<Rightarrow> ('w, mlvalue) stub" where
  "v2v_osinfo_os_get_id lib osv =
     bindS (liftS (OsinfoOs_t_val osv)) (\<lambda>os w. (copy_string (osinfo_entity_get_id lib os w), w))"

fun glist_loop :: "string list \<Rightarrow> mlvalue \<Rightarrow> mlvalue ml" where
  "glist_loop [] rv = Inr rv"
| "glist_loop (d # l) rv = bindR (cons_cell (caml_copy_string d) rv) (glist_loop l)"

definition glist_to_value_list :: "string list \<Rightarrow> mlvalue ml" where
  "glist_to_value_list l = glist_loop l Val_emptylist"

definition device_prop :: "prop_name list" where
  "device_prop = [OSINFO_ENTITY_PROP_ID, OSINFO_DEVICE_PROP_VENDOR, OSINFO_DEVICE_PROP_VENDOR_ID,
     OSINFO_DEVICE_PROP_PRODUCT, OSINFO_DEVICE_PROP_PRODUCT_ID, OSINFO_DEVICE_PROP_NAME,
     OSINFO_DEVICE_PROP_CLASS, OSINFO_DEVICE_PROP_BUS_TYPE, OSINFO_DEVICE_PROP_SUBSYSTEM]"

definition device_prop_value :: "'w osinfo_lib \<Rightarrow> 'w \<Rightarrow> ptr \<Rightarrow> prop_name \<Rightarrow> string" where
  "device_prop_value lib w ent prop =
     (case osinfo_entity_get_param_value lib ent prop w of None \<Rightarrow> '''' | Some s \<Rightarrow> s)"

text \<open>The loop over the properties of one device.\<close>

fun device_props_loop :: "'w osinfo_lib \<Rightarrow> 'w \<Rightarrow> ptr \<Rightarrow> nat \<Rightarrow> prop_name list \<Rightarrow> mlvalue \<Rightarrow> mlvalue ml" where
  "device_props_loop lib w ent prop_nr [] propsv = Inr propsv"
| "device_props_loop lib w ent prop_nr (p # ps) propsv =
     bindR (Store_field propsv prop_nr (caml_copy_string (device_prop_value lib w ent p)))
       (device_props_loop lib w ent (Suc prop_nr) ps)"

text \<open>The loop over the devices, from the last to the first.\<close>

fun device_list_loop :: "'w osinfo_lib \<Rightarrow> 'w \<Rightarrow> ptr \<Rightarrow> nat \<Rightarrow> mlvalue \<Rightarrow> mlvalue ml" where
  "device_list_loop lib w ent_list 0 retvalv = Inr retvalv"
| "device_list_loop lib w ent_list (Suc ent_nr) retvalv =
     bindR (device_props_loop lib w (osinfo_list_get_nth lib ent_list ent_nr w) 0 device_prop
              (caml_alloc (length device_prop) 0)) (\<lambda>propsv.
     bindR (cons_cell propsv retvalv) (device_list_loop lib w ent_list ent_nr))"

definition v2v_osinfo_device_list_to_value_list :: "'w osinfo_lib \<Rightarrow> ptr \<Rightarrow> 'w \<Rightarrow> mlvalue ml" where
  "v2v_osinfo_device_list_to_value_list lib dev_list w =
     device_list_loop lib w dev_list (osinfo_list_get_length lib dev_list w) Val_emptylist"

definition driver_priority :: "'w osinfo_lib \<Rightarrow> ptr \<Rightarrow> 'w \<Rightarrow> 64 word" where
  "driver_priority lib driver w =
     (if IS_LIBOSINFO_VERSION (osinfo_version lib) 1 7 0 then osinfo_device_driver_get_priority lib driver w else 50)"

text \<open>One driver: a block of six fields is allocated, and seven are stored.\<close>

definition driver_to_value :: "'w osinfo_lib \<Rightarrow> ptr \<Rightarrow> ('w, mlvalue) stub" where
  "driver_to_value lib driver w =
     bindS (liftS (copy_string (osinfo_device_driver_get_architecture lib driver w))) (\<lambda>archv.
     bindS (liftS (Store_field (caml_alloc 6 0) 0 archv)) (\<lambda>vi.
     bindS (liftS (copy_string (osinfo_device_driver_get_location lib driver w))) (\<lambda>locv.
     bindS (liftS (Store_field vi 1 locv)) (\<lambda>vi.
     bindS (liftS (Store_field vi 2 (Val_bool (osinfo_device_driver_get_pre_installable lib driver w)))) (\<lambda>vi.
     bindS (liftS (Store_field vi 3 (Val_bool (osinfo_device_driver_get_signed lib driver w)))) (\<lambda>vi.
     bindS (liftS (Store_field vi 4 (caml_copy_int64 (driver_priority lib driver w)))) (\<lambda>vi w.
       let (l, w) = osinfo_device_driver_get_files lib driver w
       in bindS (liftS (bindR (glist_to_value_list l) (Store_field vi 5))) (\<lambda>vi w.
            let w = g_list_free lib l w;
                dev_list = osinfo_device_driver_get_devices lib driver w
            in bindS (liftS (if dev_list = 0 then Inr Val_emptylist
                             else v2v_osinfo_device_list_to_value_list lib dev_list w)) (\<lambda>v.
                 liftS (Store_field vi 6 v)) w) w))))))) w"

fun drivers_loop :: "'w osinfo_lib \<Rightarrow> ptr \<Rightarrow> nat \<Rightarrow> mlvalue \<Rightarrow> ('w, mlvalue) stub" where
  "drivers_loop lib lst 0 rv = retS rv"
| "drivers_loop lib lst (Suc i) rv =
     (\<lambda>w. bindS (driver_to_value lib (osinfo_list_get_nth lib lst i w)) (\<lambda>vi.
          bindS (liftS (cons_cell vi rv)) (drivers_loop lib lst i)) w)"

definition v2v_osinfo_os_get_device_drivers :: "'w osinfo_lib \<Rightarrow> mlvalue \<Rightarrow> ('w, mlvalue) stub" where
  "v2v_osinfo_os_get_device_drivers lib osv =
     bindS (liftS (OsinfoOs_t_val osv)) (\<lambda>os w.
       let (lst, w) = osinfo_os_get_device_drivers lib os w
       in drivers_loop lib lst (osinfo_list_get_length lib lst w) Val_emptylist w)"

definition v2v_osinfo_os_get_all_devices :: "'w osinfo_lib \<Rightarrow> mlvalue \<Rightarrow> ('w, mlvalue) stub" where
  "v2v_osinfo_os_get_all_devices lib osv =
     bindS (liftS (OsinfoOs_t_val osv)) (\<lambda>os w.
       let (dev_list, w) = osinfo_os_get_all_devices lib os w
       in bindS (liftS (v2v_osinfo_device_list_to_value_list lib dev_list w)) (\<lambda>retvalv w.
            retS retvalv (autoptr_unref lib dev_list w)) w)"

subsection \<open>Lists of devices\<close>

text \<open>The OCaml record \<open>osinfo_device\<close>.\<close>

definition ml_device :: "string list \<Rightarrow> mlvalue" where
  "ml_device props = VBlock 0 (map VString props)"

lemma device_props_loop_eq:
  "device_props_loop lib w ent i ps v = store_fields v i (map (\<lambda>p. VString (device_prop_value lib w ent p)) ps)"
  by (induction lib w ent i ps v rule: device_props_loop.induct) (simp_all add: bindR_def split: sum.splits)

lemma device_list_loop_eq:
  "device_list_loop lib w lst n (ml_list ml_device ds) =
     Inr (ml_list ml_device (map (\<lambda>i. map (device_prop_value lib w (osinfo_list_get_nth lib lst i w)) device_prop) [0..<n] @ ds))"
proof (induction n arbitrary: ds)
  case (Suc n)
  let ?d = "map (device_prop_value lib w (osinfo_list_get_nth lib lst n w)) device_prop"
  have "device_props_loop lib w (osinfo_list_get_nth lib lst n w) 0 device_prop (caml_alloc (length device_prop) 0) =
      Inr (ml_device ?d)"
    using store_all_fields [of "map VString ?d" 0] by (simp add: device_props_loop_eq ml_device_def comp_def)
  with Suc [of "?d # ds"] show ?case by simp
qed simp

lemma device_list_eq:
  "v2v_osinfo_device_list_to_value_list lib lst w =
     Inr (ml_list ml_device (map (\<lambda>i. map (device_prop_value lib w (osinfo_list_get_nth lib lst i w)) device_prop)
            [0..<osinfo_list_get_length lib lst w]))"
  using device_list_loop_eq [of lib w lst _ "[]"] by (simp add: v2v_osinfo_device_list_to_value_list_def)

lemma glist_loop_eq: "glist_loop l (ml_list VString acc) = Inr (ml_list VString (rev l @ acc))"
proof (induction l arbitrary: acc)
  case (Cons d l)
  show ?case using Cons [of "d # acc"] by simp
qed simp

lemma handle_roundtrip: "Val_OsinfoOs_t dbv os = Inr (VBlock 0 [VCustom os, dbv])" "OsinfoOs_t_val (VBlock 0 [VCustom os, dbv]) = Inr os"
  by (simp_all add: Val_OsinfoOs_t_def OsinfoOs_t_val_def caml_alloc_def numeral_2_eq_2)

subsection \<open>Properties\<close>

text \<open>\<open>v2v_osinfo_os_get_all_devices\<close> returns the OCaml list of all devices of the list, in its order;
  each is a record of nine strings in the order of the OCaml type, a missing property being the
  empty string.\<close>

theorem get_all_devices_correct:
  "\<exists>w'. v2v_osinfo_os_get_all_devices lib (VBlock 0 [VCustom os, dbv]) w =
     (case osinfo_os_get_all_devices lib os w of (lst, w1) \<Rightarrow>
        Inr (ml_list ml_device
               (map (\<lambda>i. [device_prop_value lib w1 (osinfo_list_get_nth lib lst i w1) p.
                          p \<leftarrow> [OSINFO_ENTITY_PROP_ID, OSINFO_DEVICE_PROP_VENDOR, OSINFO_DEVICE_PROP_VENDOR_ID,
                                OSINFO_DEVICE_PROP_PRODUCT, OSINFO_DEVICE_PROP_PRODUCT_ID, OSINFO_DEVICE_PROP_NAME,
                                OSINFO_DEVICE_PROP_CLASS, OSINFO_DEVICE_PROP_BUS_TYPE, OSINFO_DEVICE_PROP_SUBSYSTEM]])
                  [0..<osinfo_list_get_length lib lst w1])), w')"
  by (auto simp: v2v_osinfo_os_get_all_devices_def handle_roundtrip stub_simps device_list_eq device_prop_def
      split: prod.splits)

lemma driver_to_value_undef: "fst (driver_to_value lib driver w) = undef"
proof -
  have copy: "copy_string x = undef \<or> (\<exists>v. copy_string x = Inr v)" for x
    by (cases x) (simp_all add: copy_string_def)
  have alloc: "caml_alloc 6 0 = VBlock 0 [Val_unit, Val_unit, Val_unit, Val_unit, Val_unit, Val_unit]"
    by (simp add: caml_alloc_def numeral_eq_Suc)
  show ?thesis
    using copy [of "osinfo_device_driver_get_architecture lib driver w"]
      copy [of "osinfo_device_driver_get_location lib driver w"]
    by (auto simp: driver_to_value_def alloc stub_simps glist_to_value_list_def glist_loop_eq [of _ "[]", simplified]
        device_list_eq Let_def split: prod.splits)
qed

text \<open>C40: \<open>v2v_osinfo_os_get_device_drivers\<close> returns the empty list for an operating system without drivers
  and is undefined for every other: it stores a seventh field into a block of six.\<close>

theorem get_device_drivers_overflows:
  "\<exists>r w'. v2v_osinfo_os_get_device_drivers lib (VBlock 0 [VCustom os, dbv]) w = (r, w') \<and>
     r = (case osinfo_os_get_device_drivers lib os w of (lst, w1) \<Rightarrow>
            if osinfo_list_get_length lib lst w1 = 0 then Inr Val_emptylist else undef)"
proof -
  obtain lst w1 where l: "osinfo_os_get_device_drivers lib os w = (lst, w1)" by fastforce
  have "fst (drivers_loop lib lst (Suc n) rv w1) = undef" for n rv
    using driver_to_value_undef [of lib "osinfo_list_get_nth lib lst n w1" w1]
    by (cases "driver_to_value lib (osinfo_list_get_nth lib lst n w1) w1") (auto simp: bindS_def undef_def)
  then show ?thesis
    by (cases "osinfo_list_get_length lib lst w1")
       (simp_all add: v2v_osinfo_os_get_device_drivers_def handle_roundtrip stub_simps l prod_eq_iff)
qed

text \<open>\<open>v2v_osinfo_os_find_os_by_short_id\<close> raises \<open>Not_found\<close> exactly when no operating system has the short
  identifier (then only the filtered list is released, not the filter and the full list), and
  otherwise returns a handle of the first one that also holds on to the database.\<close>

theorem find_os_correct:
  "v2v_osinfo_os_find_os_by_short_id lib (VCustom db) (VString s) w =
     (let (os_list, w1) = osinfo_db_get_os_list lib db w;
          (flt, w2) = osinfo_filter_new lib w1;
          w3 = osinfo_filter_add_constraint lib flt OSINFO_PRODUCT_PROP_SHORT_ID (c_string s) w2;
          (lst, w4) = osinfo_list_new_filtered lib os_list flt w3
      in if osinfo_list_get_length lib lst w4 = 0 then (raise Not_found, g_object_unref lib lst w4)
         else (Inr (VBlock 0 [VCustom (osinfo_list_get_nth lib lst 0 w4), VCustom db]),
               fold (\<lambda>p w. if p = 0 then w else g_object_unref lib p w) [os_list, flt] (g_object_unref lib lst w4)))"
  by (simp add: v2v_osinfo_os_find_os_by_short_id_def handle_roundtrip stub_simps autoptr_unref_def Let_def
      split: prod.splits)

lemma version_hex_value:
  assumes "0 \<le> mn" "mn < 256" "0 \<le> mic" "mic < 256"
  shows "MAKE_VERSION_HEX maj mn mic = maj * 65536 + mn * 256 + mic"
proof -
  have disj: "push_bit k x OR y = push_bit k x + y" if "0 \<le> y" "y < 2 ^ k" for k and x y :: int
  proof (rule disjunctive_add [symmetric])
    have "take_bit k y = y" using that by (rule take_bit_int_eq_self)
    then show "\<not> bit (push_bit k x) n \<or> \<not> bit y n" for n
      by (metis bit_push_bit_iff bit_take_bit_iff linorder_not_less)
  qed
  show ?thesis
    using assms disj [of mic 8 mn] disj [of "push_bit 8 mn + mic" 16 maj]
    by (simp add: MAKE_VERSION_HEX_def or.assoc push_bit_eq_mult)
qed

text \<open>The version test on the packed number is the lexicographic comparison of the three components, as
  long as minor and micro version stay below 256.\<close>

theorem version_test_lexicographic:
  assumes "0 \<le> b" "b < 256" "0 \<le> c" "c < 256" "0 \<le> mn" "mn < 256" "0 \<le> mic" "mic < 256"
  shows "IS_LIBOSINFO_VERSION (a, b, c) maj mn mic \<longleftrightarrow>
     maj < a \<or> maj = a \<and> (mn < b \<or> mn = b \<and> mic \<le> c)"
  using assms by (auto simp: IS_LIBOSINFO_VERSION_def version_hex_value)

theorem version_test_lexicographic_witness:
  "IS_LIBOSINFO_VERSION (1, 10, 0) 1 7 0 \<and> \<not> IS_LIBOSINFO_VERSION (1, 6, 255) 1 7 0"
  using version_test_lexicographic [of 10 0 7 0 1 1] version_test_lexicographic [of 6 255 7 0 1 1] by simp

end
