(* ===== verification/XStrtol.thy ===== *)
theory XStrtol
  imports Prelude
begin

section \<open>Parsing integers with suffixes (gnulib/lib/xstrtol.c)\<close>

text \<open>
  \<open>xstrtol.c\<close> is compiled once per integer type (\<open>xstrtoul.c\<close>, \<open>xstrtoll.c\<close>, \<open>xstrtoull.c\<close> and
  \<open>xstrtoumax.c\<close> only set its macros): the type is a parameter \<open>ty\<close> here, with its signedness and
  limits. A C string is the list of its characters before the NUL; reading the element after the
  last one gives NUL, reading beyond is undefined. A pointer into the string is an index.
  \<open>strtol\<close> is the function of the C library, in the C locale.
\<close>

subsection \<open>Integer types and errors\<close>

record int_type =
  type_signed :: bool
  t_minimum :: int
  t_maximum :: int

definition long_int :: int_type where
  "long_int = \<lparr>type_signed = True, t_minimum = - 9223372036854775808, t_maximum = 9223372036854775807\<rparr>"

definition long_long_int :: int_type where
  "long_long_int = \<lparr>type_signed = True, t_minimum = - 9223372036854775808, t_maximum = 9223372036854775807\<rparr>"

definition unsigned_long_int :: int_type where
  "unsigned_long_int = \<lparr>type_signed = False, t_minimum = 0, t_maximum = 18446744073709551615\<rparr>"

definition unsigned_long_long_int :: int_type where
  "unsigned_long_long_int = \<lparr>type_signed = False, t_minimum = 0, t_maximum = 18446744073709551615\<rparr>"

definition uintmax_t :: int_type where
  "uintmax_t = \<lparr>type_signed = False, t_minimum = 0, t_maximum = 18446744073709551615\<rparr>"

type_synonym strtol_error = "32 word"

definition LONGINT_OK :: strtol_error where "LONGINT_OK = 0"
definition LONGINT_OVERFLOW :: strtol_error where "LONGINT_OVERFLOW = 1"
definition LONGINT_INVALID_SUFFIX_CHAR :: strtol_error where "LONGINT_INVALID_SUFFIX_CHAR = 2"
definition LONGINT_INVALID_SUFFIX_CHAR_WITH_OVERFLOW :: strtol_error where
  "LONGINT_INVALID_SUFFIX_CHAR_WITH_OVERFLOW = LONGINT_INVALID_SUFFIX_CHAR OR LONGINT_OVERFLOW"
definition LONGINT_INVALID :: strtol_error where "LONGINT_INVALID = 4"

named_theorems err_defs \<open>error codes\<close>

lemmas [err_defs] = LONGINT_OK_def LONGINT_OVERFLOW_def LONGINT_INVALID_SUFFIX_CHAR_def LONGINT_INVALID_def
  LONGINT_INVALID_SUFFIX_CHAR_WITH_OVERFLOW_def

subsection \<open>The C library\<close>

definition char_at :: "string \<Rightarrow> nat \<Rightarrow> char res" where
  "char_at s i = (if i < length s then Inr (s ! i) else if i = length s then Inr (CHR 0x00) else Inl UndefBehav)"

definition isspace :: "char \<Rightarrow> bool" where
  "isspace c = (c \<in> set [CHR '' '', CHR 0x09, CHR 0x0A, CHR 0x0B, CHR 0x0C, CHR 0x0D])"

definition digit_value :: "char \<Rightarrow> int option" where
  "digit_value c =
     (let n = (of_char c :: nat)
      in if 48 \<le> n \<and> n \<le> 57 then Some (int n - 48)
         else if 97 \<le> n \<and> n \<le> 122 then Some (int n - 87)
         else if 65 \<le> n \<and> n \<le> 90 then Some (int n - 55)
         else None)"

definition is_digit_of :: "int \<Rightarrow> char \<Rightarrow> bool" where
  "is_digit_of base c = (case digit_value c of None \<Rightarrow> False | Some d \<Rightarrow> d < base)"

definition digits_value :: "int \<Rightarrow> string \<Rightarrow> int" where
  "digits_value base ds = foldl (\<lambda>a c. a * base + the (digit_value c)) 0 ds"

definition hex_prefix :: "string \<Rightarrow> bool" where
  "hex_prefix s = (case s of c0 # c1 # c2 # _ \<Rightarrow> c0 = CHR ''0'' \<and> (c1 = CHR ''x'' \<or> c1 = CHR ''X'') \<and> is_digit_of 16 c2
                   | _ \<Rightarrow> False)"

text \<open>The number in a string: whether it is negative, its base, where its digits start, the digits.\<close>

definition strtol_scan :: "string \<Rightarrow> int \<Rightarrow> bool \<times> int \<times> nat \<times> string" where
  "strtol_scan s base =
     (let i = length (takeWhile isspace s);
          neg = (i < length s \<and> s ! i = CHR ''-'');
          i = (if i < length s \<and> (s ! i = CHR ''-'' \<or> s ! i = CHR ''+'') then Suc i else i);
          hex = ((base = 0 \<or> base = 16) \<and> hex_prefix (drop i s));
          base = (if base \<noteq> 0 then base else if hex then 16
                  else if i < length s \<and> s ! i = CHR ''0'' then 8 else 10);
          i = (if hex then i + 2 else i)
      in (neg, base, i, takeWhile (is_digit_of base) (drop i s)))"

text \<open>The value, where the scan ended (0, the start, when there is no number), and whether
  \<open>errno\<close> was set to \<open>ERANGE\<close>. Base 1 is not supported and no end is stored.\<close>

definition strtol :: "int_type \<Rightarrow> string \<Rightarrow> int \<Rightarrow> (int \<times> nat \<times> bool) res" where
  "strtol ty s base =
     (if base = 1 then Inl UndefBehav
      else let (neg, base, i, ds) = strtol_scan s base;
               m = digits_value base ds;
               v = (if neg then - m else m);
               p = i + length ds
           in if ds = [] then Inr (0, 0, False)
              else if type_signed ty
              then if v < t_minimum ty then Inr (t_minimum ty, p, True)
                   else if t_maximum ty < v then Inr (t_maximum ty, p, True)
                   else Inr (v, p, False)
              else if t_maximum ty < m then Inr (t_maximum ty, p, True)
              else Inr (v mod (t_maximum ty + 1), p, False))"

text \<open>\<open>strchr (s, c)\<close> finds the NUL as well.\<close>

definition strchr :: "string \<Rightarrow> char \<Rightarrow> bool" where
  "strchr s c = (c \<in> set s \<or> c = CHR 0x00)"

subsection \<open>Scaling\<close>

text \<open>Integer division of C rounds towards zero.\<close>

definition c_div :: "int \<Rightarrow> int \<Rightarrow> int" where
  "c_div a b = (if a < 0 then - ((- a) div b) else a div b)"

definition bkm_scale :: "int_type \<Rightarrow> int \<Rightarrow> int \<Rightarrow> strtol_error \<times> int" where
  "bkm_scale ty x scale_factor =
     (if type_signed ty \<and> x < c_div (t_minimum ty) scale_factor then (LONGINT_OVERFLOW, t_minimum ty)
      else if c_div (t_maximum ty) scale_factor < x then (LONGINT_OVERFLOW, t_maximum ty)
      else (LONGINT_OK, x * scale_factor))"

fun scale_loop :: "int_type \<Rightarrow> int \<Rightarrow> nat \<Rightarrow> strtol_error \<Rightarrow> int \<Rightarrow> strtol_error \<times> int" where
  "scale_loop ty base 0 err x = (err, x)"
| "scale_loop ty base (Suc n) err x =
     (let (e, x) = bkm_scale ty x base in scale_loop ty base n (err OR e) x)"

definition bkm_scale_by_power :: "int_type \<Rightarrow> int \<Rightarrow> int \<Rightarrow> nat \<Rightarrow> strtol_error \<times> int" where
  "bkm_scale_by_power ty x base n = scale_loop ty base n LONGINT_OK x"

subsection \<open>The function\<close>

text \<open>The first \<open>switch\<close>: base and number of suffix characters.\<close>

definition suffix_base :: "string \<Rightarrow> string \<Rightarrow> nat \<Rightarrow> char \<Rightarrow> (int \<times> nat) res" where
  "suffix_base valid_suffixes s p c =
     (if c \<in> set ''EGgkKMmPTtYZ'' \<and> strchr valid_suffixes (CHR ''0'')
      then bindR (char_at s (p + 1)) (\<lambda>c1.
             if c1 = CHR ''i''
             then bindR (char_at s (p + 2)) (\<lambda>c2. Inr (1024, if c2 = CHR ''B'' then 3 else 1))
             else if c1 = CHR ''B'' \<or> c1 = CHR ''D'' then Inr (1000, 2)
             else Inr (1024, 1))
      else Inr (1024, 1))"

text \<open>The second \<open>switch\<close>: \<open>None\<close> is its default branch.\<close>

definition suffix_scale :: "int_type \<Rightarrow> int \<Rightarrow> char \<Rightarrow> int \<Rightarrow> (strtol_error \<times> int) option" where
  "suffix_scale ty base c tmp =
     (if c = CHR ''b'' then Some (bkm_scale ty tmp 512)
      else if c = CHR ''B'' then Some (bkm_scale ty tmp 1024)
      else if c = CHR ''c'' then Some (LONGINT_OK, tmp)
      else if c = CHR ''E'' then Some (bkm_scale_by_power ty tmp base 6)
      else if c = CHR ''G'' \<or> c = CHR ''g'' then Some (bkm_scale_by_power ty tmp base 3)
      else if c = CHR ''k'' \<or> c = CHR ''K'' then Some (bkm_scale_by_power ty tmp base 1)
      else if c = CHR ''M'' \<or> c = CHR ''m'' then Some (bkm_scale_by_power ty tmp base 2)
      else if c = CHR ''P'' then Some (bkm_scale_by_power ty tmp base 5)
      else if c = CHR ''T'' \<or> c = CHR ''t'' then Some (bkm_scale_by_power ty tmp base 4)
      else if c = CHR ''w'' then Some (bkm_scale ty tmp 2)
      else if c = CHR ''Y'' then Some (bkm_scale_by_power ty tmp base 8)
      else if c = CHR ''Z'' then Some (bkm_scale_by_power ty tmp base 7)
      else None)"

text \<open>Everything after the number has been read: \<open>tmp\<close> the number, \<open>p\<close> where it ended.\<close>

definition xstrtol_suffix ::
  "int_type \<Rightarrow> string \<Rightarrow> string option \<Rightarrow> strtol_error \<Rightarrow> int \<Rightarrow> nat \<Rightarrow> (strtol_error \<times> nat option \<times> int option) res" where
  "xstrtol_suffix ty s valid_suffixes err tmp p =
     (case valid_suffixes of
        None \<Rightarrow> Inr (err, Some p, Some tmp)
      | Some valid \<Rightarrow>
          bindR (char_at s p) (\<lambda>c.
            if c = CHR 0x00 then Inr (err, Some p, Some tmp)
            else if \<not> strchr valid c then Inr (err OR LONGINT_INVALID_SUFFIX_CHAR, Some p, Some tmp)
            else bindR (suffix_base valid s p c) (\<lambda>(base, suffixes).
                   case suffix_scale ty base c tmp of
                     None \<Rightarrow> Inr (err OR LONGINT_INVALID_SUFFIX_CHAR, Some p, Some tmp)
                   | Some (overflow, tmp) \<Rightarrow>
                       let err = err OR overflow; p = p + suffixes
                       in bindR (char_at s p) (\<lambda>c.
                            Inr (if c \<noteq> CHR 0x00 then err OR LONGINT_INVALID_SUFFIX_CHAR else err, Some p, Some tmp)))))"

text \<open>The result: the error code, what is stored through \<open>ptr\<close> and through \<open>val\<close> (\<open>None\<close> when
  nothing is stored).\<close>

definition xstrtol :: "int_type \<Rightarrow> string \<Rightarrow> int \<Rightarrow> string option \<Rightarrow> (strtol_error \<times> nat option \<times> int option) res" where
  "xstrtol ty s strtol_base valid_suffixes =
     (if \<not> (0 \<le> strtol_base \<and> strtol_base \<le> 36) then Inl Abort
      else if \<not> type_signed ty \<and> (case dropWhile isspace s of [] \<Rightarrow> False | ch # _ \<Rightarrow> ch = CHR ''-'')
      then Inr (LONGINT_INVALID, None, None)
      else bindR (strtol ty s strtol_base) (\<lambda>(tmp, p, erange).
             if p = 0
             then bindR (char_at s p) (\<lambda>c.
                    case valid_suffixes of
                      Some valid \<Rightarrow> if c \<noteq> CHR 0x00 \<and> strchr valid c
                                    then xstrtol_suffix ty s valid_suffixes LONGINT_OK 1 p
                                    else Inr (LONGINT_INVALID, Some p, None)
                    | None \<Rightarrow> Inr (LONGINT_INVALID, Some p, None))
             else xstrtol_suffix ty s valid_suffixes (if erange then LONGINT_OVERFLOW else LONGINT_OK) tmp p))"

subsection \<open>Clamping\<close>

definition int_type_ok :: "int_type \<Rightarrow> bool" where
  "int_type_ok ty \<longleftrightarrow> t_minimum ty \<le> 0 \<and> 0 < t_maximum ty \<and> (\<not> type_signed ty \<longrightarrow> t_minimum ty = 0)"

definition in_type :: "int_type \<Rightarrow> int \<Rightarrow> bool" where
  "in_type ty x \<longleftrightarrow> t_minimum ty \<le> x \<and> x \<le> t_maximum ty"

definition clamp :: "int_type \<Rightarrow> int \<Rightarrow> int" where
  "clamp ty x = max (t_minimum ty) (min (t_maximum ty) x)"

definition overflow_error :: "int_type \<Rightarrow> int \<Rightarrow> strtol_error" where
  "overflow_error ty x = (if in_type ty x then LONGINT_OK else LONGINT_OVERFLOW)"

lemma the_types_ok:
  "int_type_ok long_int" "int_type_ok long_long_int" "int_type_ok unsigned_long_int"
  "int_type_ok unsigned_long_long_int" "int_type_ok uintmax_t"
  by (simp_all add: int_type_ok_def long_int_def long_long_int_def unsigned_long_int_def
      unsigned_long_long_int_def uintmax_t_def)

lemma clamp_in_type: "int_type_ok ty \<Longrightarrow> in_type ty (clamp ty x)"
  by (auto simp: int_type_ok_def in_type_def clamp_def)

lemma clamp_id [simp]: "in_type ty x \<Longrightarrow> clamp ty x = x"
  by (auto simp: in_type_def clamp_def)

lemma div_less_iff:
  fixes k :: int
  assumes "0 < k"
  shows "a div k < x \<longleftrightarrow> a < x * k" and "x < - (a div k) \<longleftrightarrow> x * k < - a"
proof -
  show iff: "a div k < x \<longleftrightarrow> a < x * k" for x
  proof
    assume "a div k < x"
    then have "(a div k + 1) * k \<le> x * k" using assms by (intro mult_right_mono) auto
    moreover have "a < (a div k + 1) * k"
      using div_mult_mod_eq [of a k] pos_mod_bound [OF assms, of a] unfolding distrib_right by linarith
    ultimately show "a < x * k" by linarith
  next
    assume "a < x * k"
    then have "a div k * k < x * k"
      using div_mult_mod_eq [of a k] pos_mod_sign [OF assms, of a] by linarith
    then show "a div k < x" using assms by simp
  qed
  show "x < - (a div k) \<longleftrightarrow> x * k < - a"
    using iff [of "- x"] by auto
qed

lemma bkm_scale_clamp:
  assumes "int_type_ok ty" and "in_type ty x" and "0 < k"
  shows "bkm_scale ty x k = (overflow_error ty (x * k), clamp ty (x * k))"
proof -
  have max: "c_div (t_maximum ty) k < x \<longleftrightarrow> t_maximum ty < x * k"
    using assms(1,3) div_less_iff(1) [of k "t_maximum ty" x] by (simp add: c_div_def int_type_ok_def)
  have min: "x < c_div (t_minimum ty) k \<longleftrightarrow> x * k < t_minimum ty"
    using assms(1,3) div_less_iff(2) [of k x "- t_minimum ty"]
    by (auto simp: c_div_def int_type_ok_def mult_less_0_iff)
  have "\<not> type_signed ty \<Longrightarrow> 0 \<le> x * k \<and> t_minimum ty = 0"
    using assms by (auto simp: int_type_ok_def in_type_def)
  then show ?thesis
    using assms(1) unfolding bkm_scale_def max min
    by (cases "type_signed ty") (auto simp: overflow_error_def in_type_def clamp_def int_type_ok_def err_defs)
qed

lemma clamp_mult:
  assumes "int_type_ok ty" and "0 < k"
  shows "clamp ty (clamp ty x * k) = clamp ty (x * k)"
    and "in_type ty (x * k) \<Longrightarrow> in_type ty x"
proof -
  have mono: "0 \<le> y \<Longrightarrow> y \<le> y * k" "y \<le> 0 \<Longrightarrow> y * k \<le> y" for y
    using assms(2) mult_left_mono [of 1 k y] mult_left_mono_neg [of 1 k y] by simp_all
  show "in_type ty (x * k) \<Longrightarrow> in_type ty x"
  proof (cases "0 \<le> x")
    case True
    then show "in_type ty (x * k) \<Longrightarrow> in_type ty x"
      using assms(1) mono(1) [of x] unfolding in_type_def int_type_ok_def by linarith
  next
    case False
    then show "in_type ty (x * k) \<Longrightarrow> in_type ty x"
      using assms(1) mono(2) [of x] unfolding in_type_def int_type_ok_def by linarith
  qed
  consider "in_type ty x" | "t_maximum ty < x" | "x < t_minimum ty" unfolding in_type_def by linarith
  then show "clamp ty (clamp ty x * k) = clamp ty (x * k)"
  proof cases
    case 1
    then show ?thesis by simp
  next
    case 2
    then have "clamp ty x = t_maximum ty" using assms(1) by (simp add: clamp_def int_type_ok_def)
    moreover have "t_maximum ty < x * k" "t_maximum ty \<le> t_maximum ty * k"
      using 2 assms(1) mono(1) [of x] mono(1) [of "t_maximum ty"] unfolding int_type_ok_def by linarith+
    ultimately show ?thesis using assms(1) by (simp add: clamp_def int_type_ok_def)
  next
    case 3
    then have "clamp ty x = t_minimum ty" using assms(1) by (simp add: clamp_def int_type_ok_def)
    moreover have "x * k < t_minimum ty" "t_minimum ty * k \<le> t_minimum ty"
      using 3 assms(1) mono(2) [of x] mono(2) [of "t_minimum ty"] unfolding int_type_ok_def by linarith+
    ultimately show ?thesis using assms(1) by (simp add: clamp_def int_type_ok_def)
  qed
qed

lemma or_overflow_error:
  assumes "int_type_ok ty" and "0 < k"
  shows "overflow_error ty x OR overflow_error ty (clamp ty x * k) = overflow_error ty (x * k)"
  using clamp_mult(2) [OF assms, of x]
  by (cases "in_type ty x") (auto simp: overflow_error_def err_defs)

lemma scale_loop_clamp:
  assumes "int_type_ok ty" and "0 < base"
  shows "scale_loop ty base n (overflow_error ty x) (clamp ty x) =
     (overflow_error ty (x * base ^ n), clamp ty (x * base ^ n))"
proof (induction n arbitrary: x)
  case (Suc n)
  have "scale_loop ty base (Suc n) (overflow_error ty x) (clamp ty x) =
      scale_loop ty base n (overflow_error ty (x * base)) (clamp ty (x * base))"
    using bkm_scale_clamp [OF assms(1) clamp_in_type [OF assms(1)] assms(2), of x]
    by (simp add: or_overflow_error [OF assms] clamp_mult(1) [OF assms])
  with Suc [of "x * base"] show ?case by (simp add: mult.assoc)
qed simp

lemma bkm_scale_by_power_clamp:
  assumes "int_type_ok ty" and "in_type ty x" and "0 < base"
  shows "bkm_scale_by_power ty x base n = (overflow_error ty (x * base ^ n), clamp ty (x * base ^ n))"
  using scale_loop_clamp [OF assms(1,3), of n x] assms(2)
  by (simp add: bkm_scale_by_power_def overflow_error_def err_defs)

subsection \<open>The number\<close>

lemma strtol_scan_end:
  assumes "strtol_scan s base = (neg, base', i, ds)" and "ds \<noteq> []"
  shows "i + length ds \<le> length s"
proof -
  have ds: "ds = takeWhile (is_digit_of base') (drop i s)"
    using assms(1) by (auto simp: strtol_scan_def Let_def)
  have "drop i s \<noteq> []" using assms(2) ds by auto
  then show ?thesis using length_takeWhile_le [of "is_digit_of base'" "drop i s"] ds by simp
qed

lemma strtol_ok:
  assumes "int_type_ok ty" and "base \<noteq> 1"
  shows "\<exists>v p er. strtol ty s base = Inr (v, p, er) \<and> in_type ty v \<and> p \<le> length s \<and> (p = 0 \<longrightarrow> \<not> er)"
proof -
  obtain neg base' i ds where scan: "strtol_scan s base = (neg, base', i, ds)" by (metis prod_cases4)
  have md: "in_type ty (v mod (t_maximum ty + 1))" if "\<not> type_signed ty" for v
    using assms(1) that pos_mod_bound [of "t_maximum ty + 1" v] pos_mod_sign [of "t_maximum ty + 1" v]
    by (auto simp: int_type_ok_def in_type_def)
  have lim: "in_type ty (t_minimum ty)" "in_type ty (t_maximum ty)" "in_type ty 0"
    using assms(1) by (auto simp: int_type_ok_def in_type_def)
  show ?thesis
    using assms(2) md lim strtol_scan_end [OF scan]
    by (cases "ds = []"; cases "type_signed ty") (auto simp: strtol_def scan Let_def in_type_def)
qed

subsection \<open>The suffix\<close>

text \<open>The documented meaning of the suffixes: multiplier and number of characters.\<close>

definition suffix_power :: "char \<Rightarrow> nat option" where
  "suffix_power = map_of (zip ''kKmMgGtTPEZY'' [1, 1, 2, 2, 3, 3, 4, 4, 5, 6, 7, 8])"

definition suffix_multiplier :: "string \<Rightarrow> string \<Rightarrow> (int \<times> nat) option" where
  "suffix_multiplier valid rest =
     (case map_of (zip ''bBcw'' [512, 1024, 1, 2]) (hd rest) of
        Some m \<Rightarrow> Some (m, 1)
      | None \<Rightarrow>
          (case suffix_power (hd rest) of
             None \<Rightarrow> None
           | Some n \<Rightarrow>
               Some (if CHR ''0'' \<in> set valid \<and> take 2 (tl rest) = ''iB'' then (1024 ^ n, 3)
                     else if CHR ''0'' \<in> set valid \<and> (take 1 (tl rest) = ''B'' \<or> take 1 (tl rest) = ''D'') then (1000 ^ n, 2)
                     else (1024 ^ n, 1))))"

lemma suffix_base_cases:
  assumes "c \<noteq> CHR 0x00" and "drop p s = c # rest" and "CHR 0x00 \<notin> set s"
  shows "suffix_base valid s p c =
     Inr (if c \<in> set ''EGgkKMmPTtYZ'' \<and> CHR ''0'' \<in> set valid then
            if take 2 rest = ''iB'' then (1024, 3)
            else if take 1 rest = ''B'' \<or> take 1 rest = ''D'' then (1000, 2) else (1024, 1)
          else (1024, 1))"
proof -
  have len: "length s = p + 1 + length rest"
    using arg_cong [OF assms(2), of length] by (cases "p < length s") auto
  have nth: "s ! (p + 1 + k) = rest ! k" if "k < length rest" for k
    using nth_drop [of p s "Suc k"] assms(2) len that by simp
  have at: "char_at s (p + 1 + k) = Inr (if k < length rest then rest ! k else CHR 0x00)" if "k \<le> length rest" for k
    using that nth [of k] len by (auto simp: char_at_def)
  show ?thesis
    using at [of 0] at [of 1]
    by (cases rest; cases "tl rest") (auto simp: suffix_base_def strchr_def)
qed

lemma suffix_scale_cases:
  shows "suffix_power c = Some n \<Longrightarrow> suffix_scale ty base c x = Some (bkm_scale_by_power ty x base n)"
    and "int_type_ok ty \<Longrightarrow> in_type ty x \<Longrightarrow> map_of (zip ''bBcw'' [512, 1024, 1, 2]) c = Some m \<Longrightarrow>
      suffix_scale ty base c x = Some (overflow_error ty (x * m), clamp ty (x * m))"
    and "suffix_power c = None \<Longrightarrow> map_of (zip ''bBcw'' [512, 1024, 1, 2]) c = (None :: int option) \<Longrightarrow>
      suffix_scale ty base c x = None"
    and "c \<in> set ''EGgkKMmPTtYZ'' \<longleftrightarrow> suffix_power c \<noteq> None"
  by (auto simp: suffix_power_def suffix_scale_def bkm_scale_clamp overflow_error_def [of ty x] numeral_eq_Suc split: if_splits)

lemma suffix_disjoint: "map_of (zip ''bBcw'' [512, 1024, 1, 2]) c = Some (m :: int) \<Longrightarrow> suffix_power c = None"
  by (auto simp: suffix_power_def split: if_splits)

text \<open>The two switches together compute the documented multiplier.\<close>

lemma suffix_switches:
  assumes "int_type_ok ty" and "in_type ty x" and "c \<noteq> CHR 0x00" and "drop p s = c # rest" and "CHR 0x00 \<notin> set s"
  shows "bindR (suffix_base valid s p c) (\<lambda>(base, suffixes). case suffix_scale ty base c x of
            None \<Rightarrow> N | Some (overflow, tmp) \<Rightarrow> F overflow tmp suffixes) =
     (case suffix_multiplier valid (c # rest) of
        None \<Rightarrow> N | Some (m, k) \<Rightarrow> F (overflow_error ty (x * m)) (clamp ty (x * m)) k)"
proof (cases "suffix_power c")
  case (Some n)
  then have "map_of (zip ''bBcw'' [512, 1024, 1, 2]) c = (None :: int option)"
    using suffix_disjoint [of c] by (metis not_Some_eq option.distinct(1))
  then show ?thesis
    using Some suffix_scale_cases(4) [of c]
    unfolding suffix_base_cases [OF assms(3-5)]
    by (simp add: suffix_scale_cases(1) [OF Some] suffix_multiplier_def bkm_scale_by_power_clamp [OF assms(1,2)])
next
  case None
  then show ?thesis
    using suffix_scale_cases(4) [of c] unfolding suffix_base_cases [OF assms(3-5)]
    by (cases "map_of (zip ''bBcw'' [512, 1024, 1, 2]) c :: int option")
       (simp_all add: suffix_multiplier_def suffix_scale_cases(2) [OF assms(1,2)] suffix_scale_cases(3))
qed

lemma suffix_multiplier_length:
  assumes "suffix_multiplier valid rest = Some (m, k)" and "rest \<noteq> []"
  shows "k \<le> length rest"
  using assms by (cases rest; cases "tl rest"; cases "tl (tl rest)")
    (auto simp: suffix_multiplier_def split: option.splits if_splits)

lemma xstrtol_suffix_eq:
  assumes "int_type_ok ty" and "in_type ty x" and "p < length s" and "CHR 0x00 \<notin> set s"
  shows "xstrtol_suffix ty s (Some valid) err x p =
     (case if s ! p \<in> set valid then suffix_multiplier valid (drop p s) else None of
        None \<Rightarrow> Inr (err OR LONGINT_INVALID_SUFFIX_CHAR, Some p, Some x)
      | Some (m, k) \<Rightarrow>
          Inr (err OR overflow_error ty (x * m) OR (if p + k < length s then LONGINT_INVALID_SUFFIX_CHAR else LONGINT_OK),
               Some (p + k), Some (clamp ty (x * m))))"
proof -
  have c: "s ! p \<noteq> CHR 0x00" using assms(3,4) by (metis nth_mem)
  have d: "drop p s = s ! p # drop (Suc p) s" using assms(3) by (simp add: Cons_nth_drop_Suc)
  have at: "char_at s (p + k) = Inr (if p + k < length s then s ! (p + k) else CHR 0x00)"
    if "suffix_multiplier valid (drop p s) = Some (m, k)" for m k
    using suffix_multiplier_length [OF that] assms(3) by (auto simp: char_at_def)
  have nz: "p + k < length s \<Longrightarrow> s ! (p + k) \<noteq> CHR 0x00" for k using assms(4) by (metis nth_mem)
  show ?thesis
    using assms(3) c at nz
    by (auto simp: xstrtol_suffix_def char_at_def [of s p] strchr_def suffix_switches [OF assms(1,2) c d assms(4)]
        d [symmetric] Let_def err_defs or.assoc split: option.splits)
qed

lemma xstrtol_suffix_safe:
  assumes "int_type_ok ty" and "CHR 0x00 \<notin> set s"
    and "in_type ty x" and "p \<le> length s" and "err \<in> {LONGINT_OK, LONGINT_OVERFLOW}"
  shows "\<exists>err' p' v. xstrtol_suffix ty s suf err x p = Inr (err', Some p', Some v) \<and> p' \<le> length s \<and>
      in_type ty v \<and> err' \<in> {0, 1, 2, 3}"
proof (cases "\<exists>valid. suf = Some valid \<and> p < length s")
  case False
  then show ?thesis
    using assms by (cases suf) (auto simp: xstrtol_suffix_def char_at_def err_defs)
next
  case True
  then obtain valid where v: "suf = Some valid" "p < length s" by blast
  let ?m = "if s ! p \<in> set valid then suffix_multiplier valid (drop p s) else None"
  have k: "p + k \<le> length s" if "?m = Some (m, k)" for m k
    using suffix_multiplier_length [of valid "drop p s" m k] v(2) that by (auto split: if_splits)
  show ?thesis
    unfolding v(1) xstrtol_suffix_eq [OF assms(1,3) v(2) assms(2)]
  proof (cases ?m)
    case None
    then show "\<exists>err' p' v. (case ?m of None \<Rightarrow> Inr (err OR LONGINT_INVALID_SUFFIX_CHAR, Some p, Some x)
      | Some (m, k) \<Rightarrow> Inr (err OR overflow_error ty (x * m) OR (if p + k < length s then LONGINT_INVALID_SUFFIX_CHAR else LONGINT_OK),
               Some (p + k), Some (clamp ty (x * m)))) = Inr (err', Some p', Some v) \<and> p' \<le> length s \<and>
      in_type ty v \<and> err' \<in> {0, 1, 2, 3}"
      using assms by (auto simp: err_defs)
  next
    case (Some mk)
    then show "\<exists>err' p' v. (case ?m of None \<Rightarrow> Inr (err OR LONGINT_INVALID_SUFFIX_CHAR, Some p, Some x)
      | Some (m, k) \<Rightarrow> Inr (err OR overflow_error ty (x * m) OR (if p + k < length s then LONGINT_INVALID_SUFFIX_CHAR else LONGINT_OK),
               Some (p + k), Some (clamp ty (x * m)))) = Inr (err', Some p', Some v) \<and> p' \<le> length s \<and>
      in_type ty v \<and> err' \<in> {0, 1, 2, 3}"
      using k [of "fst mk" "snd mk"] assms(5) clamp_in_type [OF assms(1)]
      by (cases mk) (auto simp: overflow_error_def err_defs)
  qed
qed

definition leading_minus :: "string \<Rightarrow> bool" where
  "leading_minus s = (case dropWhile isspace s of [] \<Rightarrow> False | ch # _ \<Rightarrow> ch = CHR ''-'')"

lemma xstrtol_unfold:
  assumes "0 \<le> base" and "base \<le> 36" and "type_signed ty \<or> \<not> leading_minus s" and "CHR 0x00 \<notin> set s"
    and "strtol ty s base = Inr (v, p, er)"
  shows "xstrtol ty s base suf =
     (if 0 < p then xstrtol_suffix ty s suf (if er then LONGINT_OVERFLOW else LONGINT_OK) v p
      else if suf \<noteq> None \<and> s \<noteq> [] \<and> hd s \<in> set (the suf) then xstrtol_suffix ty s suf LONGINT_OK 1 0
      else Inr (LONGINT_INVALID, Some 0, None))"
proof -
  have "\<not> (\<not> type_signed ty \<and> (case dropWhile isspace s of [] \<Rightarrow> False | ch # _ \<Rightarrow> ch = CHR ''-''))"
    using assms(3) by (auto simp: leading_minus_def)
  moreover have "char_at s 0 = Inr (if s = [] then CHR 0x00 else hd s)" "s \<noteq> [] \<Longrightarrow> hd s \<noteq> CHR 0x00"
    using assms(4) by (cases s; auto simp: char_at_def)+
  ultimately show ?thesis
    using assms(1,2,5) by (auto simp: xstrtol_def strchr_def split: option.splits)
qed

subsection \<open>Printing numbers\<close>

fun dec :: "nat \<Rightarrow> string" where
  "dec n = (if n < 10 then [char_of (48 + n)] else dec (n div 10) @ [char_of (48 + n mod 10)])"

declare dec.simps [simp del]

definition print_int :: "int \<Rightarrow> string" where
  "print_int x = (if x < 0 then CHR ''-'' # dec (nat (- x)) else dec (nat x))"

lemma digit_value_char: "d < 10 \<Longrightarrow> digit_value (char_of (48 + d)) = Some (int d)"
  by (simp add: digit_value_def of_char_of Let_def take_bit_eq_mod)

lemma dec_digits: "c \<in> set (dec n) \<Longrightarrow> \<exists>d < (10 :: nat). c = char_of (48 + d)"
proof (induction n rule: dec.induct)
  case (1 n)
  show ?case
  proof (cases "n < 10 \<or> c \<notin> set (dec (n div 10))")
    case True
    then have "c = char_of (48 + n mod 10)" using 1(2) by (subst (asm) dec.simps) (auto split: if_splits)
    then show ?thesis by (intro exI [of _ "n mod 10"]) simp
  next
    case False
    then show ?thesis using 1(1) by blast
  qed
qed

lemma digit_char_plain:
  assumes "d < (10 :: nat)"
  shows "is_digit_of 10 (char_of (48 + d))" and "\<not> isspace (char_of (48 + d))"
    and "char_of (48 + d) \<noteq> CHR ''-''" and "char_of (48 + d) \<noteq> CHR ''+''" and "char_of (48 + d) \<noteq> CHR 0x00"
proof -
  show "is_digit_of 10 (char_of (48 + d))" using digit_value_char [OF assms] assms by (simp add: is_digit_of_def)
  have ne: "char_of (48 + d) \<noteq> c" if "of_char c < (48 :: nat)" for c
    using that assms by (auto simp: of_char_of take_bit_eq_mod)
  show "\<not> isspace (char_of (48 + d))" "char_of (48 + d) \<noteq> CHR ''-''" "char_of (48 + d) \<noteq> CHR ''+''"
    "char_of (48 + d) \<noteq> CHR 0x00"
    using ne by (auto simp: isspace_def)
qed

lemma dec_plain:
  assumes "c \<in> set (dec n)"
  shows "is_digit_of 10 c" and "\<not> isspace c" and "c \<noteq> CHR ''-''" and "c \<noteq> CHR ''+''" and "c \<noteq> CHR 0x00"
  using dec_digits [OF assms] digit_char_plain by auto

lemma dec_not_empty: "dec n \<noteq> []"
  by (subst dec.simps) simp

lemma dec_value: "digits_value 10 (dec n) = int n"
proof (induction n rule: dec.induct)
  case (1 n)
  show ?case
  proof (cases "n < 10")
    case True
    then show ?thesis by (subst dec.simps) (simp add: digits_value_def digit_value_char)
  next
    case False
    then have "digits_value 10 (dec n) = digits_value 10 (dec (n div 10)) * 10 + int (n mod 10)"
      by (subst dec.simps) (simp add: digits_value_def digit_value_char)
    also have "\<dots> = int (n div 10) * 10 + int (n mod 10)" using 1 [OF False] by simp
    also have "\<dots> = int (n div 10 * 10 + n mod 10)" by (simp only: of_nat_add of_nat_mult of_nat_numeral)
    finally show ?thesis by (simp only: div_mult_mod_eq)
  qed
qed

text \<open>A printed number is scanned as a whole, and nothing of a suffix that does not start with a digit.\<close>

lemma scan_dec:
  assumes "rest = [] \<or> \<not> is_digit_of 10 (hd rest)"
  shows "strtol_scan (dec n @ rest) 10 = (False, 10, 0, dec n)"
    and "strtol_scan (CHR ''-'' # dec n @ rest) 10 = (True, 10, 1, dec n)"
proof -
  obtain c cs where d: "dec n = c # cs" using dec_not_empty by (cases "dec n") auto
  note c = dec_plain [of c n, unfolded d, simplified]
  have tw: "takeWhile (is_digit_of 10) (dec n @ rest) = dec n"
    using dec_plain(1) [of _ n] assms by (cases rest) (auto simp: takeWhile_append)
  show "strtol_scan (dec n @ rest) 10 = (False, 10, 0, dec n)"
    using tw c by (simp add: strtol_scan_def Let_def d)
  show "strtol_scan (CHR ''-'' # dec n @ rest) 10 = (True, 10, 1, dec n)"
    using tw c by (simp add: strtol_scan_def Let_def isspace_def)
qed

lemma strtol_dec:
  assumes "rest = [] \<or> \<not> is_digit_of 10 (hd rest)" and "int_type_ok ty"
  shows "in_type ty (int n) \<Longrightarrow> strtol ty (dec n @ rest) 10 = Inr (int n, length (dec n), False)"
    and "type_signed ty \<Longrightarrow> in_type ty (- int n) \<Longrightarrow>
      strtol ty (CHR ''-'' # dec n @ rest) 10 = Inr (- int n, Suc (length (dec n)), False)"
  using dec_not_empty [of n] assms(2)
  by (auto simp: strtol_def scan_dec [OF assms(1)] dec_value in_type_def int_type_ok_def Let_def)

text \<open>Every printed number, also one that does not fit.\<close>

lemma strtol_print:
  assumes "rest = [] \<or> \<not> is_digit_of 10 (hd rest)" and "int_type_ok ty" and "0 \<le> x \<or> type_signed ty"
  shows "strtol ty (print_int x @ rest) 10 = Inr (clamp ty x, length (print_int x), \<not> in_type ty x)"
proof (cases "x < 0")
  case True
  then have "print_int x @ rest = CHR ''-'' # dec (nat (- x)) @ rest" "length (print_int x) = Suc (length (dec (nat (- x))))"
    by (simp_all add: print_int_def)
  then show ?thesis
    using True assms(2,3) dec_not_empty [of "nat (- x)"]
    by (auto simp: strtol_def scan_dec [OF assms(1)] dec_value in_type_def clamp_def int_type_ok_def Let_def)
next
  case False
  then have "print_int x @ rest = dec (nat x) @ rest" "length (print_int x) = length (dec (nat x))" by (simp_all add: print_int_def)
  then show ?thesis
    using False assms(2) dec_not_empty [of "nat x"]
    by (auto simp: strtol_def scan_dec [OF assms(1)] dec_value in_type_def clamp_def int_type_ok_def Let_def)
qed

lemma suffix_multiplier_pos: "suffix_multiplier valid rest = Some (m, k) \<Longrightarrow> 0 < m"
  by (auto simp: suffix_multiplier_def split: option.splits if_splits)

subsection \<open>Properties\<close>

text \<open>Scaling by a power, one multiplication at a time with a check before each, gives the exact
  product clamped to the limits of the type, and reports overflow exactly when the product does
  not fit.\<close>

theorem bkm_scale_by_power_correct:
  assumes "int_type_ok ty" and "in_type ty x" and "0 < base"
  shows "bkm_scale_by_power ty x base n =
     (if in_type ty (x * base ^ n) then (LONGINT_OK, x * base ^ n)
      else (LONGINT_OVERFLOW, if x < 0 then t_minimum ty else t_maximum ty))"
proof -
  have "t_minimum ty \<le> 0" "0 < t_maximum ty" using assms(1) by (simp_all add: int_type_ok_def)
  moreover have "x < 0 \<Longrightarrow> x * base ^ n < 0" "0 \<le> x \<Longrightarrow> 0 \<le> x * base ^ n"
    using assms(3) by (simp_all add: mult_neg_pos)
  ultimately have "\<not> in_type ty (x * base ^ n) \<Longrightarrow> clamp ty (x * base ^ n) = (if x < 0 then t_minimum ty else t_maximum ty)"
    unfolding in_type_def clamp_def by (cases "x < 0") auto
  then show ?thesis
    using bkm_scale_by_power_clamp [OF assms, of n] by (simp add: overflow_error_def)
qed

theorem bkm_scale_by_power_correct_witness:
  "bkm_scale_by_power long_int (- 9) 1024 6 = (LONGINT_OVERFLOW, - 9223372036854775808) \<and>
   bkm_scale_by_power long_int (- 8) 1024 6 = (LONGINT_OK, - 9223372036854775808)"
  using bkm_scale_by_power_correct [OF the_types_ok(1), of "- 9" 1024 6]
    bkm_scale_by_power_correct [OF the_types_ok(1), of "- 8" 1024 6]
  by (simp add: in_type_def long_int_def)

text \<open>For every supported base and every string \<open>xstrtol\<close> reads nothing beyond the terminating
  NUL and returns; what it stores is a position inside the string and a value of the type, and it
  stores a value exactly when it does not return \<open>LONGINT_INVALID\<close>.\<close>

theorem xstrtol_safe:
  assumes "int_type_ok ty" and "0 \<le> base" and "base \<le> 36" and "base \<noteq> 1" and "CHR 0x00 \<notin> set s"
  shows "\<exists>err p v. xstrtol ty s base suf = Inr (err, p, v) \<and>
     (case p of None \<Rightarrow> True | Some i \<Rightarrow> i \<le> length s) \<and>
     (case v of None \<Rightarrow> err = LONGINT_INVALID | Some x \<Rightarrow> in_type ty x \<and> err \<in> {0, 1, 2, 3})"
proof -
  note suffix = xstrtol_suffix_safe [OF assms(1,5)]
  obtain v p er where num: "strtol ty s base = Inr (v, p, er)" "in_type ty v" "p \<le> length s"
    using strtol_ok [OF assms(1,4)] by blast
  have one: "in_type ty 1" using assms(1) by (auto simp: in_type_def int_type_ok_def)
  show ?thesis
  proof (cases "type_signed ty \<or> \<not> leading_minus s")
    case False
    then show ?thesis using assms(2,3) by (auto simp: xstrtol_def leading_minus_def)
  next
    case True
    show ?thesis
      unfolding xstrtol_unfold [OF assms(2,3) True assms(5) num(1)]
      using suffix [OF one, of 0 LONGINT_OK suf] suffix [OF num(2,3), of "if er then LONGINT_OVERFLOW else LONGINT_OK" suf]
      by auto
  qed
qed

theorem xstrtol_safe_witness:
  "\<exists>err p v. xstrtol unsigned_long_int ''12345678901234567890123G!'' 0 (Some ''kMG0'') = Inr (err, p, v) \<and>
     (case p of None \<Rightarrow> True | Some i \<Rightarrow> i \<le> length ''12345678901234567890123G!'') \<and>
     (case v of None \<Rightarrow> err = LONGINT_INVALID | Some x \<Rightarrow> in_type unsigned_long_int x \<and> err \<in> {0, 1, 2, 3})"
  using xstrtol_safe [OF the_types_ok(3), of 0 "''12345678901234567890123G!''" "Some ''kMG0''"]
  by simp

text \<open>C27: any decimal number, positive or negative, in the range of the type or not, followed by any text that does not start with a
  digit. For an unsigned type a negative number is invalid and nothing is stored. Otherwise, when nothing follows or a known
  suffix from the list of valid ones follows, the value is the number times the documented multiplier (powers of 1024, or of 1000 after a
  second suffix \<open>B\<close> or \<open>D\<close>, which is allowed if the list contains 0), clamped to the limits of the type, the minimum as well as the maximum;
  overflow is reported exactly when the product does not fit, and an invalid suffix exactly when more characters follow. With
  another suffix the clamped number itself is stored and the suffix is reported, and overflow exactly when the number does not fit.\<close>

theorem xstrtol_scaled:
  assumes "int_type_ok ty" and "sfx = [] \<or> \<not> is_digit_of 10 (hd sfx)" and "CHR 0x00 \<notin> set sfx"
  shows "xstrtol ty (print_int x @ sfx) 10 (Some valid) =
     (if x < 0 \<and> \<not> type_signed ty then Inr (LONGINT_INVALID, None, None)
      else case if sfx = [] then Some (1, 0) else if hd sfx \<in> set valid then suffix_multiplier valid sfx else None of
        Some (m, k) \<Rightarrow>
          Inr ((if in_type ty (x * m) then LONGINT_OK else LONGINT_OVERFLOW) OR
                 (if k < length sfx then LONGINT_INVALID_SUFFIX_CHAR else LONGINT_OK),
               Some (length (print_int x) + k), Some (clamp ty (x * m)))
      | None \<Rightarrow>
          Inr ((if in_type ty x then LONGINT_OK else LONGINT_OVERFLOW) OR LONGINT_INVALID_SUFFIX_CHAR,
               Some (length (print_int x)), Some (clamp ty x)))"
proof (cases "x < 0 \<and> \<not> type_signed ty")
  case True
  then show ?thesis by (simp add: xstrtol_def print_int_def isspace_def)
next
  case False
  let ?s = "print_int x @ sfx" and ?p = "length (print_int x)"
  have num: "strtol ty ?s 10 = Inr (clamp ty x, ?p, \<not> in_type ty x)" using strtol_print [OF assms(2,1)] False by auto
  have nul: "CHR 0x00 \<notin> set ?s" using assms(3) dec_plain(5) by (auto simp: print_int_def)
  have p: "0 < ?p" using dec_not_empty by (auto simp: print_int_def)
  obtain c cs where d: "dec (nat x) = c # cs" using dec_not_empty by (cases "dec (nat x)") auto
  have "type_signed ty \<or> \<not> leading_minus ?s"
    using False dec_plain(2,3) [of c "nat x"] d by (auto simp: leading_minus_def print_int_def)
  then have run: "xstrtol ty ?s 10 (Some valid) = xstrtol_suffix ty ?s (Some valid) (overflow_error ty x) (clamp ty x) ?p"
    using xstrtol_unfold [OF _ _ _ nul num, of "Some valid"] p by (simp add: overflow_error_def)
  show ?thesis
  proof (cases "sfx = []")
    case True
    then show ?thesis using False run by (auto simp: xstrtol_suffix_def char_at_def overflow_error_def err_defs)
  next
    case sfx: False
    then have hd: "?s ! ?p = hd sfx" "?p < length ?s" by (simp_all add: nth_append hd_conv_nth)
    note suffix = xstrtol_suffix_eq [OF assms(1) clamp_in_type [OF assms(1)] hd(2) nul, where valid = valid and err = "overflow_error ty x"]
    show ?thesis
    proof (cases "if hd sfx \<in> set valid then suffix_multiplier valid sfx else None")
      case None
      then show ?thesis using False sfx run suffix by (auto simp: hd(1) overflow_error_def split: if_splits)
    next
      case (Some mk)
      obtain m k where mk: "mk = (m, k)" by force
      have h: "hd sfx \<in> set valid" "suffix_multiplier valid sfx = Some (m, k)" using Some mk by (auto split: if_splits)
      then have "0 < m" using suffix_multiplier_pos by blast
      note scale = or_overflow_error [OF assms(1) this, of x] clamp_mult(1) [OF assms(1) this, of x]
      have "xstrtol ty ?s 10 (Some valid) = Inr ((overflow_error ty x OR overflow_error ty (clamp ty x * m)) OR
          (if k < length sfx then LONGINT_INVALID_SUFFIX_CHAR else LONGINT_OK), Some (?p + k), Some (clamp ty (clamp ty x * m)))"
        using run suffix by (simp add: hd(1) h or.assoc)
      then have "xstrtol ty ?s 10 (Some valid) = Inr (overflow_error ty (x * m) OR
          (if k < length sfx then LONGINT_INVALID_SUFFIX_CHAR else LONGINT_OK), Some (?p + k), Some (clamp ty (x * m)))"
        by (simp only: scale)
      then show ?thesis unfolding if_not_P [OF False] overflow_error_def using h sfx by simp
    qed
  qed
qed

theorem xstrtol_scaled_witness:
  "xstrtol long_int (print_int 100 @ ''MB'') 10 (Some ''kMG0'') = Inr (LONGINT_OK, Some (length (print_int 100) + 2), Some 100000000) \<and>
   xstrtol long_int (print_int (- 9223372036854775808) @ ''k'') 10 (Some ''kMG0'') =
     Inr (LONGINT_OVERFLOW, Some (length (print_int (- 9223372036854775808)) + 1), Some (- 9223372036854775808))"
proof -
  have m: "suffix_multiplier ''kMG0'' ''MB'' = Some (1000 ^ 2, 2)" "suffix_multiplier ''kMG0'' ''k'' = Some (1024 ^ 1, 1)" by code_simp+
  have "\<not> is_digit_of 10 (CHR ''M'')" "\<not> is_digit_of 10 (CHR ''k'')" by code_simp+
  then show ?thesis
    using xstrtol_scaled [OF the_types_ok(1), of "''MB''" 100 "''kMG0''"]
      xstrtol_scaled [OF the_types_ok(1), of "''k''" "- 9223372036854775808" "''kMG0''"]
    by (simp add: m in_type_def clamp_def long_int_def err_defs)
qed

text \<open>C28: parsing a printed number gives the number back, for every value of every type.\<close>

theorem xstrtol_roundtrip:
  assumes "int_type_ok ty" and "in_type ty x"
  shows "xstrtol ty (print_int x) 10 (Some []) = Inr (LONGINT_OK, Some (length (print_int x)), Some x)"
proof -
  let ?s = "print_int x"
  have sgn: "x < 0 \<Longrightarrow> type_signed ty" using assms by (auto simp: in_type_def int_type_ok_def)
  have num: "strtol ty ?s 10 = Inr (x, length ?s, False)"
    using strtol_dec(1) [of "[]" ty "nat x"] strtol_dec(2) [of "[]" ty "nat (- x)"] assms sgn
    by (auto simp: print_int_def)
  have nul: "CHR 0x00 \<notin> set ?s" using dec_plain(5) by (auto simp: print_int_def)
  obtain c cs where d: "dec (nat x) = c # cs" using dec_not_empty by (cases "dec (nat x)") auto
  have "type_signed ty \<or> \<not> leading_minus ?s"
    using sgn dec_plain(2,3) [of c "nat x"] d by (auto simp: leading_minus_def print_int_def)
  moreover have "0 < length ?s" using dec_not_empty by (auto simp: print_int_def)
  ultimately show ?thesis
    using xstrtol_unfold [OF _ _ _ nul num, of "Some []"] by (simp add: xstrtol_suffix_def char_at_def)
qed

theorem xstrtol_roundtrip_witness:
  "xstrtol long_long_int (print_int (- 9223372036854775808)) 10 (Some []) =
     Inr (LONGINT_OK, Some (length (print_int (- 9223372036854775808))), Some (- 9223372036854775808))"
  by (rule xstrtol_roundtrip [OF the_types_ok(2)]) (simp add: in_type_def long_long_int_def)

end
