(* ===== verification/CCtype.thy ===== *)
theory CCtype
  imports Prelude
begin

section \<open>Locale-independent character classes (gnulib/lib/c-ctype.h)\<close>

text \<open>
  The header's functions take a C \<open>int\<close> and are \<open>switch\<close> statements over case labels that the
  preprocessor assembles. Each label macro is a list of character codes here (the ASCII
  branch, \<open>C_CTYPE_ASCII\<close>), each function a membership test in the labels of its \<open>switch\<close>.
\<close>

definition codes :: "string \<Rightarrow> int list" where
  "codes s = map of_char s"

subsection \<open>Case label macros\<close>

definition C_CTYPE_OTHER_CNTRL :: "int list" where
  "C_CTYPE_OTHER_CNTRL =
     [0x00, 0x01, 0x02, 0x03, 0x04, 0x05, 0x06, 0x0e, 0x0f, 0x10, 0x11, 0x12,
      0x13, 0x14, 0x15, 0x16, 0x17, 0x18, 0x19, 0x1a, 0x1b, 0x1c, 0x1d, 0x1e, 0x1f, 0x7f]"

definition C_CTYPE_CNTRL :: "int list" where
  \<comment> \<open>\<open>\a \b \f \n \r \t \v\<close>, then the others\<close>
  "C_CTYPE_CNTRL = [7, 8, 12, 10, 13, 9, 11] @ C_CTYPE_OTHER_CNTRL"

definition C_CTYPE_LOWER_A_THRU_F_N :: "int \<Rightarrow> int list" where
  "C_CTYPE_LOWER_A_THRU_F_N N = map (\<lambda>c. c + N) (codes ''abcdef'')"

definition C_CTYPE_LOWER_N :: "int \<Rightarrow> int list" where
  "C_CTYPE_LOWER_N N = C_CTYPE_LOWER_A_THRU_F_N N @ map (\<lambda>c. c + N) (codes ''ghijklmnopqrstuvwxyz'')"

definition C_CTYPE_A_THRU_F :: "int list" where
  "C_CTYPE_A_THRU_F =
     C_CTYPE_LOWER_A_THRU_F_N 0 @ C_CTYPE_LOWER_A_THRU_F_N (of_char CHR ''A'' - of_char CHR ''a'')"

definition C_CTYPE_DIGIT :: "int list" where
  "C_CTYPE_DIGIT = codes ''0123456789''"

definition C_CTYPE_LOWER :: "int list" where
  "C_CTYPE_LOWER = C_CTYPE_LOWER_N 0"

definition C_CTYPE_PUNCT :: "int list" where
  "C_CTYPE_PUNCT = codes (''!'' @ [CHR 0x22] @ ''#$%&'' @ [CHR 0x27] @ ''()*+,-./:;<=>?@['' @
     [CHR 0x5c] @ '']^_'' @ [CHR 0x60] @ ''{|}~'')"

definition C_CTYPE_UPPER :: "int list" where
  "C_CTYPE_UPPER = C_CTYPE_LOWER_N (of_char CHR ''A'' - of_char CHR ''a'')"

subsection \<open>Functions\<close>

definition c_isalnum :: "int \<Rightarrow> bool" where
  "c_isalnum c = (c \<in> set (C_CTYPE_DIGIT @ C_CTYPE_LOWER @ C_CTYPE_UPPER))"

definition c_isalpha :: "int \<Rightarrow> bool" where
  "c_isalpha c = (c \<in> set (C_CTYPE_LOWER @ C_CTYPE_UPPER))"

definition c_isascii :: "int \<Rightarrow> bool" where
  "c_isascii c = (c \<in> set ([of_char CHR '' ''] @ C_CTYPE_CNTRL @ C_CTYPE_DIGIT @ C_CTYPE_LOWER @
     C_CTYPE_PUNCT @ C_CTYPE_UPPER))"

definition c_isblank :: "int \<Rightarrow> bool" where
  "c_isblank c = (c = of_char CHR '' '' \<or> c = 9)"

definition c_iscntrl :: "int \<Rightarrow> bool" where
  "c_iscntrl c = (c \<in> set C_CTYPE_CNTRL)"

definition c_isdigit :: "int \<Rightarrow> bool" where
  "c_isdigit c = (c \<in> set C_CTYPE_DIGIT)"

definition c_isgraph :: "int \<Rightarrow> bool" where
  "c_isgraph c = (c \<in> set (C_CTYPE_DIGIT @ C_CTYPE_LOWER @ C_CTYPE_PUNCT @ C_CTYPE_UPPER))"

definition c_islower :: "int \<Rightarrow> bool" where
  "c_islower c = (c \<in> set C_CTYPE_LOWER)"

definition c_isprint :: "int \<Rightarrow> bool" where
  "c_isprint c = (c \<in> set ([of_char CHR '' ''] @ C_CTYPE_DIGIT @ C_CTYPE_LOWER @ C_CTYPE_PUNCT @ C_CTYPE_UPPER))"

definition c_ispunct :: "int \<Rightarrow> bool" where
  "c_ispunct c = (c \<in> set C_CTYPE_PUNCT)"

definition c_isspace :: "int \<Rightarrow> bool" where
  "c_isspace c = (c \<in> set [of_char CHR '' '', 9, 10, 11, 12, 13])"

definition c_isupper :: "int \<Rightarrow> bool" where
  "c_isupper c = (c \<in> set C_CTYPE_UPPER)"

definition c_isxdigit :: "int \<Rightarrow> bool" where
  "c_isxdigit c = (c \<in> set (C_CTYPE_DIGIT @ C_CTYPE_A_THRU_F))"

definition c_tolower :: "int \<Rightarrow> int" where
  "c_tolower c = (if c \<in> set C_CTYPE_UPPER then c - of_char CHR ''A'' + of_char CHR ''a'' else c)"

definition c_toupper :: "int \<Rightarrow> int" where
  "c_toupper c = (if c \<in> set C_CTYPE_LOWER then c - of_char CHR ''a'' + of_char CHR ''A'' else c)"

subsection \<open>The label lists are ranges\<close>

named_theorems ctype_ranges \<open>the case labels as intervals of codes\<close>

lemma set_upto_eq: "set xs = {a..b} \<longleftrightarrow> sort (remdups xs) = [a..b]" for a b :: int
proof
  assume "set xs = {a..b}"
  then have "set (sort (remdups xs)) = set [a..b]" by simp
  moreover have "sorted (sort (remdups xs))" "distinct (sort (remdups xs))" by simp_all
  ultimately show "sort (remdups xs) = [a..b]"
    by (metis distinct_upto sorted_distinct_set_unique sorted_upto)
next
  assume "sort (remdups xs) = [a..b]"
  then have "set (sort (remdups xs)) = {a..b}" by simp
  then show "set xs = {a..b}" by simp
qed

lemma digit_range [ctype_ranges]: "set C_CTYPE_DIGIT = {48..57}"
  unfolding set_upto_eq by code_simp

lemma lower_range [ctype_ranges]: "set C_CTYPE_LOWER = {97..122}"
  unfolding set_upto_eq by code_simp

lemma upper_range [ctype_ranges]: "set C_CTYPE_UPPER = {65..90}"
  unfolding set_upto_eq by code_simp

lemma a_thru_f_range [ctype_ranges]: "set C_CTYPE_A_THRU_F = {65..70} \<union> {97..102}"
  by (auto simp: C_CTYPE_A_THRU_F_def C_CTYPE_LOWER_A_THRU_F_N_def codes_def)

lemma cntrl_range [ctype_ranges]: "set C_CTYPE_CNTRL = {0..31} \<union> {127}"
proof -
  have "set (butlast C_CTYPE_CNTRL) = {0..31}"
    unfolding set_upto_eq by code_simp
  moreover have "C_CTYPE_CNTRL = butlast C_CTYPE_CNTRL @ [127]"
    by code_simp
  ultimately show ?thesis
    by (metis set_append list.set(1) list.set(2))
qed

lemma punct_range [ctype_ranges]:
  "set C_CTYPE_PUNCT = {33..47} \<union> {58..64} \<union> {91..96} \<union> {123..126}"
proof -
  have "C_CTYPE_PUNCT = [33..47] @ [58..64] @ [91..96] @ [123..126]"
    by code_simp
  then have "set C_CTYPE_PUNCT = set ([33..47] @ [58..64] @ [91..96] @ [123..126])"
    by (rule arg_cong)
  then show ?thesis by (simp only: set_append set_upto Un_assoc)
qed

named_theorems ctype_iffs \<open>the classes as conditions on the code\<close>

lemma ctype_letter_iffs [ctype_iffs]:
  "c_isdigit c \<longleftrightarrow> 48 \<le> c \<and> c \<le> 57"
  "c_islower c \<longleftrightarrow> 97 \<le> c \<and> c \<le> 122"
  "c_isupper c \<longleftrightarrow> 65 \<le> c \<and> c \<le> 90"
  "c_isalpha c \<longleftrightarrow> 97 \<le> c \<and> c \<le> 122 \<or> 65 \<le> c \<and> c \<le> 90"
  "c_isalnum c \<longleftrightarrow> 48 \<le> c \<and> c \<le> 57 \<or> 97 \<le> c \<and> c \<le> 122 \<or> 65 \<le> c \<and> c \<le> 90"
  "c_isxdigit c \<longleftrightarrow> 48 \<le> c \<and> c \<le> 57 \<or> 65 \<le> c \<and> c \<le> 70 \<or> 97 \<le> c \<and> c \<le> 102"
  by (simp_all add: c_isdigit_def c_islower_def c_isupper_def c_isalpha_def c_isalnum_def
      c_isxdigit_def ctype_ranges)

lemma ctype_other_iffs [ctype_iffs]:
  "c_iscntrl c \<longleftrightarrow> 0 \<le> c \<and> c \<le> 31 \<or> c = 127"
  "c_ispunct c \<longleftrightarrow> 33 \<le> c \<and> c \<le> 47 \<or> 58 \<le> c \<and> c \<le> 64 \<or> 91 \<le> c \<and> c \<le> 96 \<or> 123 \<le> c \<and> c \<le> 126"
  "c_isspace c \<longleftrightarrow> c = 32 \<or> c = 9 \<or> c = 10 \<or> c = 11 \<or> c = 12 \<or> c = 13"
  "c_isblank c \<longleftrightarrow> c = 32 \<or> c = 9"
  by (simp_all add: c_iscntrl_def c_ispunct_def c_isspace_def c_isblank_def ctype_ranges disj_comms)

lemma ctype_union_iffs [ctype_iffs]:
  "c_isgraph c \<longleftrightarrow> 33 \<le> c \<and> c \<le> 126"
  "c_isprint c \<longleftrightarrow> 32 \<le> c \<and> c \<le> 126"
  "c_isascii c \<longleftrightarrow> 0 \<le> c \<and> c \<le> 127"
  unfolding c_isgraph_def c_isprint_def c_isascii_def set_append ctype_ranges Un_iff
    atLeastAtMost_iff list.set insert_iff empty_iff
  by simp_all presburger+

lemma ctype_conv_eqs [ctype_iffs]:
  "c_tolower c = (if 65 \<le> c \<and> c \<le> 90 then c + 32 else c)"
  "c_toupper c = (if 97 \<le> c \<and> c \<le> 122 then c - 32 else c)"
  by (simp_all add: c_tolower_def c_toupper_def ctype_ranges)

subsection \<open>Properties\<close>

text \<open>The classes are the ASCII classes: an argument is ASCII exactly when it lies in
  0..127, every ASCII code is exactly one of control, space and graphic, the graphic codes are
  split into alphanumeric and punctuation, the alphanumeric ones into digits, lower case and
  upper case, and the hexadecimal digits, printable and blank codes are the expected
  subclasses. Values outside 0..127, negative ones included, are in no class.\<close>

theorem ctype_partition:
  "(c_isascii c \<longleftrightarrow> 0 \<le> c \<and> c \<le> 127) \<and>
   (c_isascii c \<longleftrightarrow> c_iscntrl c \<noteq> (c_isgraph c \<noteq> (c = 32))) \<and>
   (c_isgraph c \<longleftrightarrow> c_isalnum c \<noteq> c_ispunct c) \<and>
   (c_isalnum c \<longleftrightarrow> c_isalpha c \<noteq> c_isdigit c) \<and>
   (c_isalpha c \<longleftrightarrow> c_islower c \<noteq> c_isupper c) \<and>
   (c_isprint c \<longleftrightarrow> 32 \<le> c \<and> c < 127) \<and>
   (c_isblank c \<longleftrightarrow> c_isspace c \<and> (c = 32 \<or> c = 9)) \<and>
   (c_isspace c \<longleftrightarrow> c = 32 \<or> 9 \<le> c \<and> c \<le> 13) \<and>
   (c_isxdigit c \<longleftrightarrow> c_isdigit c \<or> c_isalpha c \<and> c_toupper c \<le> 70) \<and>
   (c_isdigit c \<longleftrightarrow> 48 \<le> c \<and> c \<le> 57) \<and> (c_islower c \<longleftrightarrow> 97 \<le> c \<and> c \<le> 122)"
  unfolding ctype_iffs by (intro conjI; presburger)

text \<open>Case conversion: the two functions are inverse on the letters of their target case,
  change nothing but letters, map a letter to a letter of the other case 32 codes away, and
  converting twice is converting once.\<close>

theorem ctype_case_conversion:
  "(c_islower c \<longrightarrow> c_isupper (c_toupper c) \<and> c_tolower (c_toupper c) = c \<and> c_toupper c = c - 32) \<and>
   (c_isupper c \<longrightarrow> c_islower (c_tolower c) \<and> c_toupper (c_tolower c) = c \<and> c_tolower c = c + 32) \<and>
   (\<not> c_islower c \<longrightarrow> c_toupper c = c) \<and> (\<not> c_isupper c \<longrightarrow> c_tolower c = c) \<and>
   c_toupper (c_toupper c) = c_toupper c \<and> c_tolower (c_tolower c) = c_tolower c"
  unfolding ctype_iffs by (intro conjI; presburger)

theorem ctype_case_conversion_witness:
  "c_islower 97 \<and> c_toupper 97 = 65 \<and> c_tolower (c_toupper 97) = 97"
  using ctype_case_conversion [of 97] by (simp add: ctype_iffs)

end
