(* ===== verification/InternalAll.thy ===== *)
theory InternalAll
  imports CCtype "HOL-Library.Sublist"
begin

section \<open>Shared macros (lib/guestfs-internal-all.h)\<close>

text \<open>
  The string comparison macros, the check that a buffer is all zero bytes, the macro that
  builds argument vectors, and the macro for regular expressions. C strings are lists of characters without NUL; the comparison functions
  of the C library compare bytes as \<open>unsigned char\<close> (in the C locale for the case-insensitive
  ones). A buffer is a list of bytes; reading past its end is undefined.
\<close>

subsection \<open>String comparison\<close>

definition byte_cmp :: "int \<Rightarrow> int \<Rightarrow> int" where
  "byte_cmp x y = (if x < y then - 1 else if y < x then 1 else 0)"

fun str_cmp :: "(char \<Rightarrow> int) \<Rightarrow> string \<Rightarrow> string \<Rightarrow> int" where
  "str_cmp f [] [] = 0"
| "str_cmp f [] (b # bs) = - 1"
| "str_cmp f (a # as) [] = 1"
| "str_cmp f (a # as) (b # bs) = (if f a = f b then str_cmp f as bs else byte_cmp (f a) (f b))"

abbreviation fold_case :: "char \<Rightarrow> int" where
  "fold_case c \<equiv> c_tolower (of_char c)"

definition strcmp :: "string \<Rightarrow> string \<Rightarrow> int" where "strcmp a b = str_cmp of_char a b"
definition strcasecmp :: "string \<Rightarrow> string \<Rightarrow> int" where "strcasecmp a b = str_cmp fold_case a b"
definition strncmp :: "string \<Rightarrow> string \<Rightarrow> nat \<Rightarrow> int" where "strncmp a b n = str_cmp of_char (take n a) (take n b)"
definition strncasecmp :: "string \<Rightarrow> string \<Rightarrow> nat \<Rightarrow> int" where
  "strncasecmp a b n = str_cmp fold_case (take n a) (take n b)"

definition STREQ :: "string \<Rightarrow> string \<Rightarrow> bool" where "STREQ a b = (strcmp a b = 0)"
definition STRCASEEQ :: "string \<Rightarrow> string \<Rightarrow> bool" where "STRCASEEQ a b = (strcasecmp a b = 0)"
definition STRNEQ :: "string \<Rightarrow> string \<Rightarrow> bool" where "STRNEQ a b = (strcmp a b \<noteq> 0)"
definition STRCASENEQ :: "string \<Rightarrow> string \<Rightarrow> bool" where "STRCASENEQ a b = (strcasecmp a b \<noteq> 0)"
definition STREQLEN :: "string \<Rightarrow> string \<Rightarrow> nat \<Rightarrow> bool" where "STREQLEN a b n = (strncmp a b n = 0)"
definition STRCASEEQLEN :: "string \<Rightarrow> string \<Rightarrow> nat \<Rightarrow> bool" where "STRCASEEQLEN a b n = (strncasecmp a b n = 0)"
definition STRNEQLEN :: "string \<Rightarrow> string \<Rightarrow> nat \<Rightarrow> bool" where "STRNEQLEN a b n = (strncmp a b n \<noteq> 0)"
definition STRCASENEQLEN :: "string \<Rightarrow> string \<Rightarrow> nat \<Rightarrow> bool" where "STRCASENEQLEN a b n = (strncasecmp a b n \<noteq> 0)"
definition STRPREFIX :: "string \<Rightarrow> string \<Rightarrow> bool" where "STRPREFIX a b = (strncmp a b (length b) = 0)"
definition STRCASEPREFIX :: "string \<Rightarrow> string \<Rightarrow> bool" where "STRCASEPREFIX a b = (strncasecmp a b (length b) = 0)"
definition STRSUFFIX :: "string \<Rightarrow> string \<Rightarrow> bool" where
  "STRSUFFIX a b = (length b \<le> length a \<and> STREQ (drop (length a - length b) a) b)"

named_theorems streq_defs \<open>the comparison macros\<close>

lemmas [streq_defs] = STREQ_def STRCASEEQ_def STRNEQ_def STRCASENEQ_def STREQLEN_def STRCASEEQLEN_def
  STRNEQLEN_def STRCASENEQLEN_def STRPREFIX_def STRCASEPREFIX_def STRSUFFIX_def
  strcmp_def strcasecmp_def strncmp_def strncasecmp_def

lemma str_cmp_zero: "str_cmp f a b = 0 \<longleftrightarrow> map f a = map f b"
  by (induction f a b rule: str_cmp.induct) (auto simp: byte_cmp_def)

lemma str_cmp_char: "str_cmp of_char a b = 0 \<longleftrightarrow> a = b"
  unfolding str_cmp_zero by (rule inj_map_eq_map) (simp add: inj_on_def)

subsection \<open>Zero buffers\<close>

fun zero_loop :: "8 word list \<Rightarrow> nat \<Rightarrow> nat \<Rightarrow> bool res" where
  "zero_loop buffer i 0 = Inr True"
| "zero_loop buffer i (Suc n) = bindR (nthR buffer i) (\<lambda>b. if b \<noteq> 0 then Inr False else zero_loop buffer (Suc i) n)"

definition memcmp_eq :: "8 word list \<Rightarrow> nat \<Rightarrow> nat \<Rightarrow> nat \<Rightarrow> bool res" where
  "memcmp_eq buffer i j n =
     (if i + n \<le> length buffer \<and> j + n \<le> length buffer
      then Inr (take n (drop i buffer) = take n (drop j buffer)) else Inl UndefBehav)"

definition is_zero :: "8 word list \<Rightarrow> nat \<Rightarrow> bool res" where
  "is_zero buffer sz =
     (let limit = min sz 16
      in bindR (zero_loop buffer 0 limit) (\<lambda>ok.
           if \<not> ok then Inr False
           else if sz \<noteq> limit then memcmp_eq buffer 0 16 (sz - 16)
           else Inr True))"

lemma zero_loop_eq: "i + n \<le> length buf \<Longrightarrow> zero_loop buf i n = Inr (\<forall>j < n. buf ! (i + j) = 0)"
  by (induction buf i n rule: zero_loop.induct) (auto simp: All_less_Suc2)

text \<open>A buffer whose first 16 bytes are zero and that equals itself shifted by 16 is all zero.\<close>

lemma shifted_zero:
  fixes i k n :: nat
  assumes "\<forall>j < k. f j = (0 :: 8 word)" and "\<forall>j < n - k. f j = f (j + k)" and "0 < k" and "i < n"
  shows "f i = 0"
  using assms(4)
proof (induction i rule: less_induct)
  case (less i)
  show ?case
  proof (cases "i < k")
    case False
    then have "i - k < n - k" "i - k + k = i" using less.prems by auto
    then have "f i = f (i - k)" using assms(2) by metis
    also have "\<dots> = 0" using False assms(3) less by simp
    finally show ?thesis .
  qed (use assms(1) in simp)
qed

subsection \<open>Argument vectors\<close>

text \<open>\<open>ADD_ARG (argv, i, v)\<close>: the vector and the index after it.\<close>

definition ADD_ARG :: "nat \<Rightarrow> 'a list \<Rightarrow> nat \<Rightarrow> 'a \<Rightarrow> ('a list \<times> nat) res" where
  "ADD_ARG MAX_ARGS argv i v =
     (if MAX_ARGS \<le> i then Inl Abort
      else if i < length argv then Inr (argv[i := v], Suc i) else Inl UndefBehav)"

fun add_args :: "nat \<Rightarrow> 'a list \<Rightarrow> nat \<Rightarrow> 'a list \<Rightarrow> ('a list \<times> nat) res" where
  "add_args MAX_ARGS argv i [] = Inr (argv, i)"
| "add_args MAX_ARGS argv i (v # vs) = bindR (ADD_ARG MAX_ARGS argv i v) (\<lambda>(argv, i). add_args MAX_ARGS argv i vs)"

lemma add_args_eq:
  assumes "length argv = MAX_ARGS" and "i \<le> MAX_ARGS"
  shows "add_args MAX_ARGS argv i vs =
     (if i + length vs \<le> MAX_ARGS then Inr (take i argv @ vs @ drop (i + length vs) argv, i + length vs) else Inl Abort)"
  using assms
proof (induction vs arbitrary: argv i)
  case (Cons v vs)
  show ?case
  proof (cases "i < MAX_ARGS")
    case True
    then have "take (Suc i) (argv[i := v]) = take i argv @ [v]"
      using Cons.prems(1) by (simp add: take_Suc_conv_app_nth)
    with True Cons.IH [of "argv[i := v]" "Suc i"] Cons.prems show ?thesis by (simp add: ADD_ARG_def)
  next
    case False
    then show ?thesis by (simp add: ADD_ARG_def)
  qed
qed simp

subsection \<open>Regular expressions compiled when the program is loaded\<close>

text \<open>\<open>COMPILE_REGEXP (name, pattern, options)\<close> defines a constructor and a destructor around PCRE2, which is a
  parameter over its own state. \<open>name\<close> is the static variable; a pattern that does not compile writes
  the message to standard error and aborts.\<close>

record 'p pcre2_lib =
  pcre2_compile :: "string \<Rightarrow> 32 word \<Rightarrow> 'p \<Rightarrow> (ptr \<times> c_int) \<times> 'p"
  pcre2_get_error_message :: "c_int \<Rightarrow> nat \<Rightarrow> string"
  pcre2_code_free :: "ptr \<Rightarrow> 'p \<Rightarrow> 'p"

record 'p regexp_state =
  pcre :: 'p
  re_name :: ptr
  re_stderr :: string

definition compile_regexp :: "'p pcre2_lib \<Rightarrow> string \<Rightarrow> 32 word \<Rightarrow> 'p regexp_state \<Rightarrow> unit res \<times> 'p regexp_state" where
  "compile_regexp lib pattern options s =
     (case pcre2_compile lib pattern options (pcre s) of
        ((code, errnum), p) \<Rightarrow>
          let s = s\<lparr>pcre := p, re_name := code\<rparr>
          in if code = 0
             then let err = pcre2_get_error_message lib errnum 256
                  in (Inl Abort, s\<lparr>re_stderr := re_stderr s @ err\<rparr>)
             else (Inr (), s))"

definition free_regexp :: "'p pcre2_lib \<Rightarrow> 'p regexp_state \<Rightarrow> 'p regexp_state" where
  "free_regexp lib s = s\<lparr>pcre := pcre2_code_free lib (re_name s) (pcre s)\<rparr>"

text \<open>Loading and unloading: the code that was compiled is the one freed, and so PCRE2 is back in the state it
  was in, if freeing undoes compiling.\<close>

lemma regexp_load_unload:
  assumes "\<And>p. pcre2_code_free lib (fst (fst (pcre2_compile lib pattern options p))) (snd (pcre2_compile lib pattern options p)) = p"
    and "compile_regexp lib pattern options s = (Inr (), s')"
  shows "re_name s' \<noteq> 0 \<and> pcre (free_regexp lib s') = pcre s \<and> re_stderr s' = re_stderr s"
  using assms(1) [of "pcre s"] assms(2)
  by (auto simp: compile_regexp_def free_regexp_def Let_def split: prod.splits if_splits)

lemma regexp_abort:
  "compile_regexp lib pattern options s = (Inl e, s') \<Longrightarrow>
     e = Abort \<and> re_name s' = 0 \<and> (\<exists>errnum. re_stderr s' = re_stderr s @ pcre2_get_error_message lib errnum 256)"
  by (auto simp: compile_regexp_def Let_def split: prod.splits if_splits)

subsection \<open>Other definitions\<close>

definition MAX_macro :: "int \<Rightarrow> int \<Rightarrow> int" where "MAX_macro a b = (if a > b then a else b)"
definition MIN_macro :: "int \<Rightarrow> int \<Rightarrow> int" where "MIN_macro a b = (if a < b then a else b)"

datatype mountable_type_t = MOUNTABLE_DEVICE | MOUNTABLE_BTRFSVOL | MOUNTABLE_PATH

lemma MAX_MIN_macros: "MAX_macro a b = max a b" "MIN_macro a b = min a b" "MAX_macro a b + MIN_macro a b = a + b"
  by (auto simp: MAX_macro_def MIN_macro_def)

subsection \<open>Properties\<close>

text \<open>\<open>is_zero\<close>, which compares the buffer with itself shifted by 16 bytes, is true exactly when every
  byte is zero, and reads no byte outside the buffer.\<close>

theorem is_zero_correct:
  assumes "sz \<le> length buffer"
  shows "is_zero buffer sz = Inr (\<forall>i < sz. buffer ! i = 0)"
proof -
  let ?z = "\<forall>i < sz. buffer ! i = 0"
  have loop: "zero_loop buffer 0 (min sz 16) = Inr (\<forall>j < min sz 16. buffer ! j = 0)"
    using zero_loop_eq [of 0 "min sz 16" buffer] assms by simp
  show ?thesis
  proof (cases "sz \<le> 16 \<or> \<not> (\<forall>j < 16. buffer ! j = 0)")
    case True
    then show ?thesis using loop by (auto simp: is_zero_def min_def)
  next
    case False
    have "take (sz - 16) buffer = take (sz - 16) (drop 16 buffer) \<longleftrightarrow>
        (\<forall>j < sz - 16. buffer ! j = buffer ! (j + 16))"
      using assms False by (simp add: list_eq_iff_nth_eq add.commute)
    moreover have "(\<forall>j < sz - 16. buffer ! j = buffer ! (j + 16)) \<longleftrightarrow> ?z"
    proof
      assume "\<forall>j < sz - 16. buffer ! j = buffer ! (j + 16)"
      then show ?z using shifted_zero [of 16 "(!) buffer" sz] False by simp
    qed simp
    ultimately show ?thesis
      using loop False assms by (simp add: is_zero_def memcmp_eq_def)
  qed
qed

theorem is_zero_correct_witness:
  "is_zero (replicate 40 0 @ [1]) 40 = Inr True"
proof -
  have "40 \<le> length (replicate 40 0 @ [1 :: 8 word])" by (simp only: length_append length_replicate le_add1)
  note z = is_zero_correct [OF this]
  have "(replicate 40 0 @ [1 :: 8 word]) ! i = 0" if "i < 40" for i
    using that by (simp only: nth_append length_replicate nth_replicate if_True)
  then show ?thesis unfolding z by blast
qed

text \<open>The comparison macros are equality of strings, equality up to ASCII case, prefix and suffix.\<close>

theorem string_macros_correct:
  "(STREQ a b \<longleftrightarrow> a = b) \<and> (STRNEQ a b \<longleftrightarrow> a \<noteq> b) \<and>
   (STRCASEEQ a b \<longleftrightarrow> map fold_case a = map fold_case b) \<and> (STRCASENEQ a b \<longleftrightarrow> \<not> STRCASEEQ a b) \<and>
   (STREQLEN a b n \<longleftrightarrow> take n a = take n b) \<and> (STRNEQLEN a b n \<longleftrightarrow> \<not> STREQLEN a b n) \<and>
   (STRCASEEQLEN a b n \<longleftrightarrow> STRCASEEQ (take n a) (take n b)) \<and> (STRCASENEQLEN a b n \<longleftrightarrow> \<not> STRCASEEQLEN a b n) \<and>
   (STRPREFIX a b \<longleftrightarrow> prefix b a) \<and> (STRCASEPREFIX a b \<longleftrightarrow> prefix (map fold_case b) (map fold_case a)) \<and>
   (STRSUFFIX a b \<longleftrightarrow> suffix b a)"
proof -
  have pre: "take (length b) a = b \<longleftrightarrow> prefix b a" for a b :: "'x list"
    using take_is_prefix [of "length b" a] by (auto simp: prefix_def)
  have suf: "length b \<le> length a \<and> drop (length a - length b) a = b \<longleftrightarrow> suffix b a"
    using suffix_drop [of "length a - length b" a] by (auto simp: suffix_def)
  show ?thesis
    unfolding streq_defs str_cmp_char unfolding str_cmp_zero take_map [symmetric] using pre suf
    by (simp add: pre [of "map fold_case b", simplified])
qed

end
