(* ===== verification/LibvirtIsVersion.thy ===== *)
theory LibvirtIsVersion
  imports XStrtol
begin

section \<open>Comparing the libvirt version (tests/libvirt-is-version.c)\<close>

text \<open>
  The test program that succeeds when the installed libvirt is at least a given version. Its
  arithmetic is in \<open>unsigned int\<close> (32 bits, wrapping), the comparison in \<open>unsigned long\<close>. The answer
  of \<open>virGetVersion\<close> is a parameter, \<open>None\<close> when the call fails. The result is the exit status.
\<close>

type_synonym uint = "32 word"

text \<open>\<open>argtoint\<close> exits with status 1 (here \<open>None\<close>) when \<open>strtol\<close> reports an error or stops before the
  end of the argument.\<close>

definition argtoint :: "string \<Rightarrow> uint option" where
  "argtoint arg =
     (case strtol long_int arg 10 of
        Inl _ \<Rightarrow> None
      | Inr (res, endptr, erange) \<Rightarrow>
          if erange \<or> char_at arg endptr \<noteq> Inr (CHR 0x00) then None else Some (word_of_int res))"

definition exit_of :: "64 word option \<Rightarrow> uint \<Rightarrow> uint \<Rightarrow> uint \<Rightarrow> nat" where
  "exit_of ver major minor release =
     (case ver of
        None \<Rightarrow> 1
      | Some ver \<Rightarrow> if ucast (major * 1000000 + minor * 1000 + release) \<le> ver then 0 else 1)"

text \<open>The arguments after the program name; the \<open>switch\<close> on \<open>argc\<close> falls through from the last
  argument to the first, and has no case for more than three.\<close>

definition main :: "64 word option \<Rightarrow> string list \<Rightarrow> nat" where
  "main ver args =
     (case args of
        [] \<Rightarrow> 1
      | [a] \<Rightarrow> (case argtoint a of None \<Rightarrow> 1 | Some major \<Rightarrow> exit_of ver major 0 0)
      | [a, b] \<Rightarrow> (case argtoint b of None \<Rightarrow> 1 | Some minor \<Rightarrow>
                   (case argtoint a of None \<Rightarrow> 1 | Some major \<Rightarrow> exit_of ver major minor 0))
      | [a, b, c] \<Rightarrow> (case argtoint c of None \<Rightarrow> 1 | Some release \<Rightarrow>
                     (case argtoint b of None \<Rightarrow> 1 | Some minor \<Rightarrow>
                     (case argtoint a of None \<Rightarrow> 1 | Some major \<Rightarrow> exit_of ver major minor release)))
      | _ \<Rightarrow> exit_of ver 0 0 0)"

lemma argtoint_dec:
  assumes "n < 2 ^ 32"
  shows "argtoint (dec n) = Some (of_nat n)"
proof -
  have "in_type long_int (int n)" using assms by (simp add: in_type_def long_int_def)
  from strtol_dec(1) [of "[]", OF _ the_types_ok(1) this] show ?thesis
    by (simp add: argtoint_def char_at_def)
qed

lemma exit_of_exact:
  assumes "major < 4294" and "minor < 1000" and "release < 1000"
  shows "exit_of (Some ver) (of_nat major) (of_nat minor) (of_nat release) =
     (if major * 1000000 + minor * 1000 + release \<le> unat ver then 0 else 1)"
proof -
  have "unat (of_nat major * 1000000 + of_nat minor * 1000 + of_nat release :: uint) =
      major * 1000000 + minor * 1000 + release"
    using assms by (simp add: unat_word_ariths unat_of_nat)
  moreover have "unat (ucast x :: 64 word) = unat (x :: uint)" for x
  proof -
    have "unat x < 2 ^ LENGTH(32)" by (rule unsigned_less)
    then show ?thesis by (simp add: unsigned_ucast_eq take_bit_nat_eq_self_iff)
  qed
  ultimately show ?thesis
    by (simp add: exit_of_def word_le_nat_alt)
qed

text \<open>Given three decimal components (major below 4294, the others below 1000) the program succeeds
  exactly when the version of libvirt, packed as libvirt does, is lexicographically at least the
  requested one; nothing wraps around in this range.\<close>

theorem libvirt_is_version_correct:
  assumes "major < 4294" and "minor < 1000" and "release < 1000" and "vmin < 1000" and "vrel < 1000"
    and "unat ver = vmaj * 1000000 + vmin * 1000 + vrel"
  shows "main (Some ver) [dec major, dec minor, dec release] = 0 \<longleftrightarrow>
     major < vmaj \<or> major = vmaj \<and> (minor < vmin \<or> minor = vmin \<and> release \<le> vrel)"
proof -
  have "main (Some ver) [dec major, dec minor, dec release] =
      (if major * 1000000 + minor * 1000 + release \<le> unat ver then 0 else 1)"
    using assms(1-3) by (simp add: main_def argtoint_dec exit_of_exact)
  then show ?thesis using assms by auto
qed

theorem libvirt_is_version_correct_witness:
  "main (Some 8006001) [dec 8, dec 6, dec 0] = 0 \<and> main (Some 8005999) [dec 8, dec 6, dec 0] \<noteq> 0"
  using libvirt_is_version_correct [of 8 6 0 6 1 8006001 8] libvirt_is_version_correct [of 8 6 0 5 999 8005999 8]
  by simp

end
