(* ===== verification/LibvirtCommon.thy ===== *)
theory LibvirtCommon
  imports CamlFFI CHeap
begin

section \<open>The libvirt binding: errors, handles and memory (libvirt_c.h, libvirt_c_common.c)\<close>

text \<open>
  The helpers that the stubs of the binding share. Libvirt itself is not part of the repository's
  sources: it is the parameter \<open>lib\<close>, a record with one function per library call on the library's
  own state \<open>'v\<close>. The record declared here holds what the helpers use; the theories of the stubs
  extend it. The values of the library's enumerators are part of the parameter (\<open>vc\<close>).

  Besides the library, the stubs act on the C heap: blocks they allocate themselves and blocks the
  library hands over to them (\<open>recvS\<close>) are tracked, so that every path that loses one is visible.
\<close>

subsection \<open>State\<close>

record 'v lvworld =
  vir :: 'v
  cheap :: heap
  cells :: "nat \<Rightarrow> 64 word" \<comment> \<open>contents of the blocks passed as opaque data of callbacks\<close>

record virError =
  err_code :: c_int
  err_domain :: c_int
  err_message :: "string option"
  err_level :: c_int
  err_str1 :: "string option"
  err_str2 :: "string option"
  err_str3 :: "string option"
  err_int1 :: c_int
  err_int2 :: c_int

record virConnectCredential =
  cred_type :: c_int
  prompt :: string
  challenge :: "string option"
  defresult :: "string option"
  cred_result :: "(nat \<times> string) option" \<comment> \<open>a block and its contents\<close>
  resultlen :: c_int

datatype vir_const =
    VIR_ERR_INTERNAL_ERROR | VIR_FROM_NONE | VIR_ERR_ERROR | VIR_CONNECT_RO
  | VIR_MIGRATE_LIVE | VIR_MEMORY_VIRTUAL
  | VIR_DOMAIN_XML_SECURE | VIR_DOMAIN_XML_INACTIVE | VIR_DOMAIN_XML_UPDATE_CPU | VIR_DOMAIN_XML_MIGRATABLE
  | VIR_DOMAIN_STATS_STATE | VIR_DOMAIN_STATS_CPU_TOTAL | VIR_DOMAIN_STATS_BALLOON | VIR_DOMAIN_STATS_VCPU
  | VIR_DOMAIN_STATS_INTERFACE | VIR_DOMAIN_STATS_BLOCK | VIR_DOMAIN_STATS_PERF
  | VIR_CONNECT_GET_ALL_DOMAINS_STATS_ACTIVE | VIR_CONNECT_GET_ALL_DOMAINS_STATS_INACTIVE
  | VIR_CONNECT_GET_ALL_DOMAINS_STATS_OTHER | VIR_CONNECT_GET_ALL_DOMAINS_STATS_PAUSED
  | VIR_CONNECT_GET_ALL_DOMAINS_STATS_PERSISTENT | VIR_CONNECT_GET_ALL_DOMAINS_STATS_RUNNING
  | VIR_CONNECT_GET_ALL_DOMAINS_STATS_SHUTOFF | VIR_CONNECT_GET_ALL_DOMAINS_STATS_TRANSIENT
  | VIR_CONNECT_GET_ALL_DOMAINS_STATS_BACKING | VIR_CONNECT_GET_ALL_DOMAINS_STATS_ENFORCE_STATS
  | VIR_DOMAIN_EVENT_ID_LIFECYCLE | VIR_DOMAIN_EVENT_ID_REBOOT | VIR_DOMAIN_EVENT_ID_RTC_CHANGE
  | VIR_DOMAIN_EVENT_ID_WATCHDOG | VIR_DOMAIN_EVENT_ID_IO_ERROR | VIR_DOMAIN_EVENT_ID_GRAPHICS
  | VIR_DOMAIN_EVENT_ID_IO_ERROR_REASON | VIR_DOMAIN_EVENT_ID_CONTROL_ERROR | VIR_DOMAIN_EVENT_ID_BLOCK_JOB
  | VIR_DOMAIN_EVENT_ID_DISK_CHANGE | VIR_DOMAIN_EVENT_ID_TRAY_CHANGE | VIR_DOMAIN_EVENT_ID_PMWAKEUP
  | VIR_DOMAIN_EVENT_ID_PMSUSPEND | VIR_DOMAIN_EVENT_ID_BALLOON_CHANGE | VIR_DOMAIN_EVENT_ID_PMSUSPEND_DISK

record 'v libvirt =
  vc :: "vir_const \<Rightarrow> c_int"
  virGetLastError :: "'v \<Rightarrow> virError option"
  virConnectClose :: "ptr \<Rightarrow> 'v \<Rightarrow> 'v"
  virDomainFree :: "ptr \<Rightarrow> 'v \<Rightarrow> 'v"
  virNetworkFree :: "ptr \<Rightarrow> 'v \<Rightarrow> 'v"
  virStoragePoolFree :: "ptr \<Rightarrow> 'v \<Rightarrow> 'v"
  virStorageVolFree :: "ptr \<Rightarrow> 'v \<Rightarrow> 'v"
  virSecretFree :: "ptr \<Rightarrow> 'v \<Rightarrow> 'v"

subsection \<open>Calls and memory\<close>

text \<open>\<open>callV\<close> is a library call (with or without \<open>NONBLOCKING\<close>). \<open>mallocS\<close> may fail; \<open>mallocN\<close> asks
  for an array with an \<open>int\<close> number of elements, which fails for a negative number, since it becomes
  a size beyond the address space. \<open>recvS\<close> takes over a block that the library has allocated.\<close>

definition callV :: "('v \<Rightarrow> 'r \<times> 'v) \<Rightarrow> ('v lvworld, 'r) stub" where
  "callV f w = (let (r, v) = f (vir w) in (Inr r, w\<lparr>vir := v\<rparr>))"

definition mallocS :: "('v lvworld, nat option) stub" where
  "mallocS w = (let (a, H) = malloc (cheap w) in (Inr a, w\<lparr>cheap := H\<rparr>))"

definition mallocN :: "c_int \<Rightarrow> ('v lvworld, nat option) stub" where
  "mallocN n = (if sint n < 0 then retS None else mallocS)"

definition recvS :: "('v lvworld, nat) stub" where
  "recvS w = (let a = n_allocs (cheap w)
              in (Inr a, w\<lparr>cheap := (cheap w)\<lparr>n_allocs := Suc a, live := insert a (live (cheap w))\<rparr>\<rparr>))"

definition freeS :: "nat \<Rightarrow> ('v lvworld, unit) stub" where
  "freeS a w = (case free a (cheap w) of Inl e \<Rightarrow> (undef, w) | Inr H \<Rightarrow> (Inr (), w\<lparr>cheap := H\<rparr>))"

text \<open>\<open>free (NULL)\<close> does nothing.\<close>

definition free_opt :: "nat option \<Rightarrow> ('v lvworld, unit) stub" where
  "free_opt a = (case a of None \<Rightarrow> retS () | Some a \<Rightarrow> freeS a)"

text \<open>The allocation followed by \<open>caml_raise_out_of_memory\<close> if it fails.\<close>

definition malloc_or_raise :: "('v lvworld, nat option) stub \<Rightarrow> ('v lvworld, nat) stub" where
  "malloc_or_raise m = bindS m (\<lambda>a. case a of None \<Rightarrow> raiseS Out_of_memory | Some a \<Rightarrow> retS a)"

definition strdup_opt :: "string option \<Rightarrow> ('v lvworld, nat option) stub" where
  "strdup_opt s = (case s of None \<Rightarrow> retS None | Some _ \<Rightarrow> bindS (malloc_or_raise mallocS) (\<lambda>a. retS (Some a)))"

text \<open>Reading a C array; outside it the behaviour is undefined.\<close>

definition readM :: "'a list \<Rightarrow> nat \<Rightarrow> 'a ml" where
  "readM xs i = (if i < length xs then Inr (xs ! i) else undef)"

lemma readM_ok [simp]: "i < length xs \<Longrightarrow> readM xs i = Inr (xs ! i)"
  by (simp add: readM_def)

text \<open>Signed increment; overflow is undefined.\<close>

definition c_inc :: "c_int \<Rightarrow> c_int ml" where
  "c_inc n = (if n = 0x7FFFFFFF then undef else Inr (n + 1))"

subsection \<open>Options, lists and errors\<close>

definition Optstring_val :: "mlvalue \<Rightarrow> string option ml" where
  "Optstring_val strv =
     (if strv = VInt 0 then Inr None else bindR (bindR (Field strv 0) String_val) (\<lambda>s. Inr (Some s)))"

definition Val_opt :: "'p option \<Rightarrow> ('p \<Rightarrow> mlvalue ml) \<Rightarrow> mlvalue ml" where
  "Val_opt p Val_ptr =
     (case p of
        Some q \<Rightarrow> bindR (Val_ptr q) (\<lambda>ptrv. Store_field (caml_alloc 1 0) 0 ptrv)
      | None \<Rightarrow> Inr (VInt 0))"

definition Val_opt_const :: "'p option \<Rightarrow> ('p \<Rightarrow> mlvalue ml) \<Rightarrow> mlvalue ml" where
  "Val_opt_const p Val_ptr =
     (case p of
        Some q \<Rightarrow> bindR (Val_ptr q) (\<lambda>ptrv. Store_field (caml_alloc 1 0) 0 ptrv)
      | None \<Rightarrow> Inr (VInt 0))"

abbreviation copy_opt :: "string option \<Rightarrow> mlvalue ml" where
  "copy_opt s \<equiv> Val_opt s (\<lambda>s. Inr (caml_copy_string s))"

definition list_length :: "mlvalue \<Rightarrow> c_int ml" where
  "list_length listv = ml_iter (\<lambda>_ len. c_inc len) listv 0"

text \<open>Evaluating the fields of a block one after the other.\<close>

fun seqR :: "'a ml list \<Rightarrow> 'a list ml" where
  "seqR [] = Inr []"
| "seqR (x # xs) = bindR x (\<lambda>x. bindR (seqR xs) (\<lambda>xs. Inr (x # xs)))"

definition alloc_fields :: "nat \<Rightarrow> nat \<Rightarrow> mlvalue ml list \<Rightarrow> mlvalue ml" where
  "alloc_fields n tag vs = bindR (seqR vs) (store_fields (caml_alloc n tag) 0)"

definition Val_virconnectcredential :: "virConnectCredential \<Rightarrow> mlvalue ml" where
  "Val_virconnectcredential cred =
     alloc_fields 4 0
       [Inr (Val_int (sint (cred_type cred - 1))),
        Inr (caml_copy_string (prompt cred)),
        Val_opt_const (challenge cred) (\<lambda>s. Inr (caml_copy_string s)),
        Val_opt_const (defresult cred) (\<lambda>s. Inr (caml_copy_string s))]"

abbreviation MAX_VIR_CODE :: c_int where "MAX_VIR_CODE \<equiv> 107"
abbreviation MAX_VIR_DOMAIN :: c_int where "MAX_VIR_DOMAIN \<equiv> 71"

text \<open>An enumeration value is an unsigned 32-bit integer.\<close>

definition Val_err_number :: "c_int \<Rightarrow> mlvalue ml" where
  "Val_err_number code =
     (if 0 \<le> sint code \<and> code \<le> MAX_VIR_CODE then Inr (Val_int (uint code))
      else Store_field (caml_alloc 1 0) 0 (Val_int (uint code)))"

definition Val_err_domain :: "c_int \<Rightarrow> mlvalue ml" where
  "Val_err_domain code =
     (if 0 \<le> sint code \<and> code \<le> MAX_VIR_DOMAIN then Inr (Val_int (uint code))
      else Store_field (caml_alloc 1 0) 0 (Val_int (uint code)))"

definition Val_err_level :: "('v, 'z) libvirt_scheme \<Rightarrow> c_int \<Rightarrow> mlvalue ml" where
  "Val_err_level lib code =
     (if 0 \<le> sint code \<and> code \<le> vc lib VIR_ERR_ERROR then Inr (Val_int (uint code))
      else Store_field (caml_alloc 1 0) 0 (Val_int (uint code)))"

definition Val_virterror :: "('v, 'z) libvirt_scheme \<Rightarrow> virError \<Rightarrow> mlvalue ml" where
  "Val_virterror lib err =
     alloc_fields 9 0
       [Val_err_number (err_code err), Val_err_domain (err_domain err), copy_opt (err_message err),
        Val_err_level lib (err_level err), copy_opt (err_str1 err), copy_opt (err_str2 err),
        copy_opt (err_str3 err), Inr (VInt32 (err_int1 err)), Inr (VInt32 (err_int2 err))]"

definition fake_error :: "('v, 'z) libvirt_scheme \<Rightarrow> string \<Rightarrow> virError" where
  "fake_error lib fn =
     \<lparr>err_code = vc lib VIR_ERR_INTERNAL_ERROR, err_domain = vc lib VIR_FROM_NONE, err_message = Some fn,
      err_level = vc lib VIR_ERR_ERROR, err_str1 = None, err_str2 = None, err_str3 = None,
      err_int1 = 0, err_int2 = 0\<rparr>"

definition raise_virterror :: "('v, 'z) libvirt_scheme \<Rightarrow> string \<Rightarrow> ('v lvworld, 'a) stub" where
  "raise_virterror lib fn w =
     (let errp = (case virGetLastError lib (vir w) of None \<Rightarrow> fake_error lib fn | Some e \<Rightarrow> e)
      in bindS (liftS (Val_virterror lib errp)) (\<lambda>rv. raiseS (Virterror rv)) w)"

definition CHECK_ERROR_CLEANUP ::
  "('v, 'z) libvirt_scheme \<Rightarrow> bool \<Rightarrow> ('v lvworld, unit) stub \<Rightarrow> string \<Rightarrow> ('v lvworld, unit) stub" where
  "CHECK_ERROR_CLEANUP lib cond cleanup fn =
     (if cond then bindS cleanup (\<lambda>_. raise_virterror lib fn) else retS ())"

definition CHECK_ERROR :: "('v, 'z) libvirt_scheme \<Rightarrow> bool \<Rightarrow> string \<Rightarrow> ('v lvworld, unit) stub" where
  "CHECK_ERROR lib cond fn = CHECK_ERROR_CLEANUP lib cond (retS ()) fn"

subsection \<open>Handles\<close>

definition Val_connect :: "ptr \<Rightarrow> mlvalue" where "Val_connect conn = VHandle ''conn_custom_operations'' conn"
definition Val_dom :: "ptr \<Rightarrow> mlvalue" where "Val_dom d = VHandle ''dom_custom_operations'' d"
definition Val_net :: "ptr \<Rightarrow> mlvalue" where "Val_net net = VHandle ''net_custom_operations'' net"
definition Val_pol :: "ptr \<Rightarrow> mlvalue" where "Val_pol pol = VHandle ''pol_custom_operations'' pol"
definition Val_vol :: "ptr \<Rightarrow> mlvalue" where "Val_vol vol = VHandle ''vol_custom_operations'' vol"
definition Val_sec :: "ptr \<Rightarrow> mlvalue" where "Val_sec sec = VHandle ''sec_custom_operations'' sec"

definition Val_domain :: "ptr \<Rightarrow> mlvalue \<Rightarrow> mlvalue ml" where
  "Val_domain d connv = store_fields (caml_alloc_tuple 2) 0 [Val_dom d, connv]"

definition Val_network :: "ptr \<Rightarrow> mlvalue \<Rightarrow> mlvalue ml" where
  "Val_network net connv = store_fields (caml_alloc_tuple 2) 0 [Val_net net, connv]"

definition Val_pool :: "ptr \<Rightarrow> mlvalue \<Rightarrow> mlvalue ml" where
  "Val_pool pol connv = store_fields (caml_alloc_tuple 2) 0 [Val_pol pol, connv]"

definition Val_volume :: "ptr \<Rightarrow> mlvalue \<Rightarrow> mlvalue ml" where
  "Val_volume vol connv = store_fields (caml_alloc_tuple 2) 0 [Val_vol vol, connv]"

definition Val_secret :: "ptr \<Rightarrow> mlvalue \<Rightarrow> mlvalue ml" where
  "Val_secret sec connv = store_fields (caml_alloc_tuple 2) 0 [Val_sec sec, connv]"

text \<open>\<open>Connect_val\<close>, \<open>Dom_val\<close> and so on are \<open>Data_custom_val\<close> at a type; \<open>Domain_val\<close>, \<open>Network_val\<close>,
  \<open>Pool_val\<close>, \<open>Volume_val\<close> and \<open>Secret_val\<close> read the first component of a pair.\<close>

definition Connect_val :: "mlvalue \<Rightarrow> ptr ml" where
  "Connect_val rv = Data_custom_val rv"

definition Domain_val :: "mlvalue \<Rightarrow> ptr ml" where
  "Domain_val rv = bindR (Field rv 0) Data_custom_val"

definition Network_val :: "mlvalue \<Rightarrow> ptr ml" where
  "Network_val rv = bindR (Field rv 0) Data_custom_val"

definition Pool_val :: "mlvalue \<Rightarrow> ptr ml" where
  "Pool_val rv = bindR (Field rv 0) Data_custom_val"

definition Volume_val :: "mlvalue \<Rightarrow> ptr ml" where
  "Volume_val rv = bindR (Field rv 0) Data_custom_val"

definition Secret_val :: "mlvalue \<Rightarrow> ptr ml" where
  "Secret_val rv = bindR (Field rv 0) Data_custom_val"

text \<open>The connection is the second component of a pair.\<close>

definition Connect_domv :: "mlvalue \<Rightarrow> ptr ml" where "Connect_domv rv = bindR (Field rv 1) Connect_val"
definition Connect_netv :: "mlvalue \<Rightarrow> ptr ml" where "Connect_netv rv = bindR (Field rv 1) Connect_val"
definition Connect_polv :: "mlvalue \<Rightarrow> ptr ml" where "Connect_polv rv = bindR (Field rv 1) Connect_val"
definition Connect_volv :: "mlvalue \<Rightarrow> ptr ml" where "Connect_volv rv = bindR (Field rv 1) Connect_val"
definition Connect_secv :: "mlvalue \<Rightarrow> ptr ml" where "Connect_secv rv = bindR (Field rv 1) Connect_val"

definition finalize_with :: "(ptr \<Rightarrow> 'v \<Rightarrow> 'v) \<Rightarrow> mlvalue \<Rightarrow> ('v lvworld, unit) stub" where
  "finalize_with release v =
     bindS (liftS (Data_custom_val v)) (\<lambda>p. if p \<noteq> 0 then callV (\<lambda>v. ((), release p v)) else retS ())"

definition conn_finalize :: "('v, 'z) libvirt_scheme \<Rightarrow> mlvalue \<Rightarrow> ('v lvworld, unit) stub" where
  "conn_finalize lib connv = finalize_with (virConnectClose lib) connv"
definition dom_finalize :: "('v, 'z) libvirt_scheme \<Rightarrow> mlvalue \<Rightarrow> ('v lvworld, unit) stub" where
  "dom_finalize lib domv = finalize_with (virDomainFree lib) domv"
definition net_finalize :: "('v, 'z) libvirt_scheme \<Rightarrow> mlvalue \<Rightarrow> ('v lvworld, unit) stub" where
  "net_finalize lib netv = finalize_with (virNetworkFree lib) netv"
definition pol_finalize :: "('v, 'z) libvirt_scheme \<Rightarrow> mlvalue \<Rightarrow> ('v lvworld, unit) stub" where
  "pol_finalize lib polv = finalize_with (virStoragePoolFree lib) polv"
definition vol_finalize :: "('v, 'z) libvirt_scheme \<Rightarrow> mlvalue \<Rightarrow> ('v lvworld, unit) stub" where
  "vol_finalize lib volv = finalize_with (virStorageVolFree lib) volv"
definition sec_finalize :: "('v, 'z) libvirt_scheme \<Rightarrow> mlvalue \<Rightarrow> ('v lvworld, unit) stub" where
  "sec_finalize lib secv = finalize_with (virSecretFree lib) secv"

text \<open>The custom operations of the six kinds of handles, by identifier.\<close>

definition custom_operations ::
  "('v, 'z) libvirt_scheme \<Rightarrow> (string \<times> (mlvalue \<Rightarrow> ('v lvworld, unit) stub)) list" where
  "custom_operations lib =
     [(''conn_custom_operations'', conn_finalize lib), (''dom_custom_operations'', dom_finalize lib),
      (''net_custom_operations'', net_finalize lib), (''pol_custom_operations'', pol_finalize lib),
      (''vol_custom_operations'', vol_finalize lib), (''sec_custom_operations'', sec_finalize lib)]"

subsection \<open>Running the helpers\<close>

lemma store_fields_alloc [simp]: "length xs = n \<Longrightarrow> store_fields (caml_alloc n tag) 0 xs = Inr (VBlock tag xs)"
  using store_all_fields by auto

declare store_fields.simps [simp del]

lemma copy_opt_eq [simp]: "copy_opt s = Inr (ml_option VString s)"
  by (cases s) (simp_all add: Val_opt_def caml_alloc_def)

lemma Val_opt_const_eq [simp]: "Val_opt_const s (\<lambda>s. Inr (caml_copy_string s)) = Inr (ml_option VString s)"
  by (cases s) (simp_all add: Val_opt_const_def caml_alloc_def)

lemma Optstring_val_option [simp]: "Optstring_val (ml_option VString s) = Inr (map_option c_string s)"
  by (cases s) (simp_all add: Optstring_val_def)

lemma alloc_fields_eq [simp]: "alloc_fields n tag vs = bindR (seqR vs) (store_fields (caml_alloc n tag) 0)"
  by (simp add: alloc_fields_def)

lemma handle_simps [simp]:
  "Val_domain d c = Inr (VBlock 0 [Val_dom d, c])" "Val_network d c = Inr (VBlock 0 [Val_net d, c])"
  "Val_pool d c = Inr (VBlock 0 [Val_pol d, c])" "Val_volume d c = Inr (VBlock 0 [Val_vol d, c])"
  "Val_secret d c = Inr (VBlock 0 [Val_sec d, c])"
  "Domain_val (VBlock 0 [Val_dom d, c]) = Inr d" "Pool_val (VBlock 0 [Val_pol d, c]) = Inr d"
  "Volume_val (VBlock 0 [Val_vol d, c]) = Inr d" "Secret_val (VBlock 0 [Val_sec d, c]) = Inr d"
  "Connect_val (Val_connect d) = Inr d"
  by (simp_all add: Val_domain_def Val_network_def Val_pool_def Val_volume_def Val_secret_def Domain_val_def
      Pool_val_def Volume_val_def Secret_val_def Connect_val_def Val_dom_def Val_pol_def Val_vol_def Val_sec_def
      Val_connect_def)

text \<open>What is wrapped can be unwrapped: the object and its connection.\<close>

lemma unwrap_pairs:
  "bindR (Val_domain p (Val_connect c)) Domain_val = Inr p" "bindR (Val_domain p (Val_connect c)) Connect_domv = Inr c"
  "bindR (Val_network p (Val_connect c)) Network_val = Inr p" "bindR (Val_network p (Val_connect c)) Connect_netv = Inr c"
  "bindR (Val_pool p (Val_connect c)) Pool_val = Inr p" "bindR (Val_pool p (Val_connect c)) Connect_polv = Inr c"
  "bindR (Val_volume p (Val_connect c)) Volume_val = Inr p" "bindR (Val_volume p (Val_connect c)) Connect_volv = Inr c"
  "bindR (Val_secret p (Val_connect c)) Secret_val = Inr p" "bindR (Val_secret p (Val_connect c)) Connect_secv = Inr c"
  by (simp_all add: Network_val_def Val_net_def Connect_domv_def Connect_netv_def Connect_polv_def Connect_volv_def Connect_secv_def)

lemma foreach_inc:
  "sint n + int (length xs) < 2 ^ 31 \<Longrightarrow> 0 \<le> sint n \<Longrightarrow> foreachR (\<lambda>_. c_inc) xs n = Inr (n + of_nat (length xs))"
proof (induction xs arbitrary: n)
  case (Cons x xs)
  from Cons.prems have lt: "sint n + 1 < 2 ^ 31" by simp
  then have "n \<noteq> 0x7FFFFFFF" by auto
  moreover have "sint (n + 1) = sint n + 1"
    using lt Cons.prems(2) by (simp add: sint_word_ariths signed_take_bit_int_eq_self)
  ultimately show ?case using Cons by (simp add: c_inc_def add.assoc)
qed simp

lemma list_length_list [simp]:
  "length xs < 2 ^ 31 \<Longrightarrow> list_length (ml_list f xs) = Inr (of_nat (length xs))"
  using foreach_inc [of 0 xs] by (simp add: list_length_def ml_iter_list)

text \<open>The argument of the exception, as OCaml sees it.\<close>

definition enum_value :: "c_int \<Rightarrow> c_int \<Rightarrow> mlvalue" where
  "enum_value mx code = (if 0 \<le> sint code \<and> code \<le> mx then VInt (uint code) else VBlock 0 [VInt (uint code)])"

definition virterror_value :: "('v, 'z) libvirt_scheme \<Rightarrow> virError \<Rightarrow> mlvalue" where
  "virterror_value lib e =
     VBlock 0 [enum_value MAX_VIR_CODE (err_code e), enum_value MAX_VIR_DOMAIN (err_domain e),
       ml_option VString (err_message e), enum_value (vc lib VIR_ERR_ERROR) (err_level e),
       ml_option VString (err_str1 e), ml_option VString (err_str2 e), ml_option VString (err_str3 e),
       VInt32 (err_int1 e), VInt32 (err_int2 e)]"

definition last_error :: "('v, 'z) libvirt_scheme \<Rightarrow> string \<Rightarrow> 'v \<Rightarrow> virError" where
  "last_error lib fn v = (case virGetLastError lib v of None \<Rightarrow> fake_error lib fn | Some e \<Rightarrow> e)"

lemma known_code: "0 \<le> sint (c :: c_int) \<and> c \<le> MAX_VIR_CODE \<longleftrightarrow> unat c \<le> 107"
proof -
  have "0 \<le> sint c" if "unat c \<le> 107"
  proof -
    have "uint c = int (unat c)" by simp
    with that have "uint c \<le> 107" by linarith
    moreover have "0 \<le> uint c" using uint_lt_32 [of c] by blast
    ultimately have "signed_take_bit 31 (uint c) = uint c"
      by (intro signed_take_bit_int_eq_self) (auto intro: order_trans [of _ 0])
    then show ?thesis using \<open>0 \<le> uint c\<close> by (simp add: sint_uint)
  qed
  then show ?thesis by (auto simp: word_le_nat_alt)
qed

lemma Val_enum_eq:
  "Val_err_number c = Inr (enum_value MAX_VIR_CODE c)" "Val_err_domain c = Inr (enum_value MAX_VIR_DOMAIN c)"
  "Val_err_level lib c = Inr (enum_value (vc lib VIR_ERR_ERROR) c)"
  by (simp_all add: Val_err_number_def Val_err_domain_def Val_err_level_def enum_value_def caml_alloc_def)

lemma Val_virterror_eq [simp]: "Val_virterror lib e = Inr (virterror_value lib e)"
  by (simp add: Val_virterror_def Val_enum_eq virterror_value_def)

definition virterror_exn :: "('v, 'z) libvirt_scheme \<Rightarrow> string \<Rightarrow> 'v \<Rightarrow> ml_exn" where
  "virterror_exn lib fn v = Virterror (virterror_value lib (last_error lib fn v))"

lemma raise_virterror_eq [stub_simps]: "raise_virterror lib fn w = (raise (virterror_exn lib fn (vir w)), w)"
  by (simp add: raise_virterror_def stub_simps virterror_exn_def last_error_def Let_def)

lemma CHECK_ERROR_eq [stub_simps]:
  "CHECK_ERROR lib False fn = retS ()" "CHECK_ERROR lib True fn w = (raise (virterror_exn lib fn (vir w)), w)"
  "CHECK_ERROR_CLEANUP lib False c fn = retS ()" "CHECK_ERROR_CLEANUP lib True c fn = bindS c (\<lambda>_. raise_virterror lib fn)"
  by (simp_all add: CHECK_ERROR_def CHECK_ERROR_CLEANUP_def stub_simps)

text \<open>One library call whose failure is reported.\<close>

lemma bind_callV [stub_simps]:
  "bindS (callV f) k w = (case f (vir w) of (r, v) \<Rightarrow> k r (w\<lparr>vir := v\<rparr>))"
  by (simp add: bindS_def callV_def split: prod.splits)

lemma bind_CHECK_ERROR [stub_simps]:
  "bindS (CHECK_ERROR lib b fn) k w = (if b then (raise (virterror_exn lib fn (vir w)), w) else k () w)"
  by (cases b) (simp_all add: stub_simps bindS_def raise_def)

lemma bind_CLEANUP [stub_simps]:
  "bindS (CHECK_ERROR_CLEANUP lib b c fn) k w = (if b then bindS c (\<lambda>_. raise_virterror lib fn) w else k () w)"
  by (cases b) (auto simp: stub_simps bindS_def raise_def undef_def split: prod.splits sum.splits)

lemma bind_raise_virterror [stub_simps]:
  "bindS (raise_virterror lib fn) k w = (raise (virterror_exn lib fn (vir w)), w)"
  by (simp add: bindS_def raise_virterror_eq raise_def)

subsection \<open>Arrays\<close>

lemma array_of_reads:
  assumes "n \<le> length xs" and "\<And>x. x \<in> set (take n xs) \<Longrightarrow> F x = Inr (g x)"
  shows "foreachR (\<lambda>i rv. bindR (bindR (readM xs i) F) (Store_field rv i)) [0..<n] (caml_alloc n tag) =
    Inr (VBlock tag (map g (take n xs)))"
proof -
  have "F (xs ! i) = Inr (g (xs ! i))" if "i < n" for i
    using assms(1) that by (intro assms(2)) (auto simp: in_set_conv_nth intro!: exI [of _ i])
  then have "foreachR (\<lambda>i rv. bindR (bindR (readM xs i) F) (Store_field rv i)) [0..<n] (caml_alloc n tag) =
      foreachR (\<lambda>i rv. Store_field rv i (g (xs ! i))) [0..<n] (caml_alloc n tag)"
    using assms(1) by (intro foreachR_cong) auto
  also have "\<dots> = Inr (VBlock tag (map (\<lambda>i. g (xs ! i)) [0..<n]))" by (rule array_filled)
  also have "map (\<lambda>i. g (xs ! i)) [0..<n] = map g (take n xs)"
    using assms(1) by (intro nth_equalityI) auto
  finally show ?thesis .
qed

subsection \<open>Decoding an error\<close>

fun enum_of :: "mlvalue \<Rightarrow> c_int option" where
  "enum_of (VInt i) = Some (word_of_int i)"
| "enum_of (VBlock 0 [VInt i]) = Some (word_of_int i)"
| "enum_of _ = None"

fun optstr_of :: "mlvalue \<Rightarrow> string option option" where
  "optstr_of (VInt i) = (if i = 0 then Some None else None)"
| "optstr_of (VBlock 0 [VString s]) = Some (Some s)"
| "optstr_of _ = None"

fun virterror_of :: "mlvalue \<Rightarrow> virError option" where
  "virterror_of (VBlock 0 [c, d, m, l, s1, s2, s3, VInt32 i1, VInt32 i2]) =
     (case (enum_of c, enum_of d, optstr_of m, enum_of l, optstr_of s1, optstr_of s2, optstr_of s3) of
        (Some c, Some d, Some m, Some l, Some s1, Some s2, Some s3) \<Rightarrow>
          Some \<lparr>err_code = c, err_domain = d, err_message = m, err_level = l, err_str1 = s1, err_str2 = s2,
                err_str3 = s3, err_int1 = i1, err_int2 = i2\<rparr>
      | _ \<Rightarrow> None)"
| "virterror_of _ = None"

lemma enum_of_value: "enum_of (enum_value mx c) = Some c"
  by (simp add: enum_value_def)

lemma optstr_of_value: "optstr_of (ml_option VString s) = Some s"
  by (cases s) simp_all

lemma virterror_of_value: "virterror_of (virterror_value lib e) = Some e"
  by (simp add: virterror_value_def enum_of_value optstr_of_value)

subsection \<open>The heap\<close>

text \<open>What is allocated after each of the memory operations.\<close>

lemma mallocS_run [stub_simps]:
  "mallocS w = (Inr (fst (malloc (cheap w))), w\<lparr>cheap := snd (malloc (cheap w))\<rparr>)"
  by (simp add: mallocS_def split: prod.splits)

lemma bind_mallocS [stub_simps]:
  "bindS mallocS k w = (case malloc (cheap w) of (a, H) \<Rightarrow> k a (w\<lparr>cheap := H\<rparr>))"
  by (simp add: bindS_def mallocS_def split: prod.splits)

lemma bind_malloc_or_raise [stub_simps]:
  "bindS (malloc_or_raise m) k = bindS m (\<lambda>a. case a of None \<Rightarrow> raiseS Out_of_memory | Some a \<Rightarrow> k a)"
  by (rule ext) (simp add: malloc_or_raise_def bindS_def retS_def raiseS_def raise_def
      split: prod.splits sum.splits option.splits)

lemma bind_freeS [stub_simps]:
  "a \<in> live (cheap w) \<Longrightarrow>
   bindS (freeS a) k w = k () (w\<lparr>cheap := (cheap w)\<lparr>live := live (cheap w) - {a}\<rparr>\<rparr>)"
  by (simp add: bindS_def freeS_def free_def)

lemma bind_recvS [stub_simps]:
  "bindS recvS k w =
     k (n_allocs (cheap w)) (w\<lparr>cheap := (cheap w)\<lparr>n_allocs := Suc (n_allocs (cheap w)),
                                live := insert (n_allocs (cheap w)) (live (cheap w))\<rparr>\<rparr>)"
  by (simp add: bindS_def recvS_def Let_def)

lemma malloc_succeeds:
  assumes "heap_wf H" and "\<And>n. malloc_ok H n"
  obtains a H' where "malloc H = (Some a, H')" "a \<notin> live H" "live H' = insert a (live H)" "heap_wf H'"
    "\<And>n. malloc_ok H' n"
proof -
  obtain a H' where m: "malloc H = (Some a, H')" "malloc_ok H' = malloc_ok H"
    using assms(2) by (auto simp: malloc_def Let_def)
  from that [OF m(1)] c_heap.alloc_fresh [OF assms(1) m(1)] m(2) assms(2) show ?thesis by simp
qed

lemma freed_wf: "heap_wf H \<Longrightarrow> heap_wf (H\<lparr>live := live H - B\<rparr>)"
  by (auto simp: heap_wf_def)

subsection \<open>Properties\<close>

text \<open>C25: a failing libvirt call is reported as the exception \<open>Virterror\<close> whose argument carries the whole
  last error of the library (or, when it recorded none, an internal error with the name of the
  function): every field can be read back. Codes the binding knows are constant constructors, any
  other code, from a newer libvirt, arrives in \<open>VIR_ERR_UNKNOWN\<close> with its value. Nothing else
  changes.\<close>

theorem check_error_reports:
  "\<exists>number rest.
     CHECK_ERROR lib True fn w = (raise (Virterror (VBlock 0 (number # rest))), w) \<and>
     virterror_of (VBlock 0 (number # rest)) = Some (last_error lib fn (vir w)) \<and>
     number = (let code = err_code (last_error lib fn (vir w))
               in if unat code \<le> 107 then VInt (uint code) else VBlock 0 [VInt (uint code)])"
proof -
  let ?e = "last_error lib fn (vir w)"
  obtain rest where v: "virterror_value lib ?e = VBlock 0 (enum_value MAX_VIR_CODE (err_code ?e) # rest)"
    by (simp add: virterror_value_def)
  moreover have "0 \<le> sint c \<and> c \<le> MAX_VIR_CODE \<longleftrightarrow> unat c \<le> 107" for c :: c_int
    using known_code .
  ultimately show ?thesis
    using virterror_of_value [of lib ?e]
    by (intro exI [of _ "enum_value MAX_VIR_CODE (err_code ?e)"] exI [of _ rest])
       (simp add: stub_simps virterror_exn_def enum_value_def Let_def)
qed

end
