(* ===== verification/LibvirtConn.thy ===== *)
theory LibvirtConn
  imports LibvirtCommon
begin

section \<open>The libvirt binding: connections and authentication (libvirt_c_oneoffs.c)\<close>

text \<open>
  The stubs on connections, from \<open>ocaml_libvirt_get_version\<close> to
  \<open>ocaml_libvirt_connect_get_domain_capabilities\<close>. Opening a connection with authentication calls
  back from libvirt into C and from there into OCaml: \<open>virConnectOpenAuth\<close> is given the callback as a
  function on the whole state, and OCaml code that the callback runs is the parameter
  \<open>caml_callback_exn\<close> (\<open>None\<close> is an exception).
\<close>

record virNodeInfo =
  ni_model :: string
  ni_memory :: "64 word"
  ni_cpus :: c_int
  ni_mhz :: c_int
  ni_nodes :: c_int
  ni_sockets :: c_int
  ni_cores :: c_int
  ni_threads :: c_int

type_synonym 'v auth_cb = "virConnectCredential list \<Rightarrow> ('v lvworld, c_int \<times> virConnectCredential list) stub"

record 'v libvirt_conn = "'v libvirt" +
  virGetVersion :: "string option \<Rightarrow> 'v \<Rightarrow> (c_int \<times> 64 word \<times> 64 word) \<times> 'v"
  virConnectOpen :: "string option \<Rightarrow> 'v \<Rightarrow> ptr \<times> 'v"
  virConnectOpenReadOnly :: "string option \<Rightarrow> 'v \<Rightarrow> ptr \<times> 'v"
  virConnectOpenAuth :: "string option \<Rightarrow> c_int list \<Rightarrow> 'v auth_cb \<Rightarrow> c_int \<Rightarrow> ('v lvworld, ptr) stub"
  caml_callback_exn :: "mlvalue \<Rightarrow> mlvalue \<Rightarrow> 'v lvworld \<Rightarrow> mlvalue option \<times> 'v lvworld"
  virConnectGetVersion :: "ptr \<Rightarrow> 'v \<Rightarrow> (c_int \<times> 64 word) \<times> 'v"
  virConnectGetMaxVcpus :: "ptr \<Rightarrow> string option \<Rightarrow> 'v \<Rightarrow> c_int \<times> 'v"
  virNodeGetInfo :: "ptr \<Rightarrow> 'v \<Rightarrow> (c_int \<times> virNodeInfo) \<times> 'v"
  virNodeGetFreeMemory :: "ptr \<Rightarrow> 'v \<Rightarrow> 64 word \<times> 'v"
  virNodeGetCellsFreeMemory :: "ptr \<Rightarrow> c_int \<Rightarrow> c_int \<Rightarrow> 'v \<Rightarrow> (c_int \<times> 64 word list) \<times> 'v"
  virConnectSetKeepAlive :: "ptr \<Rightarrow> c_int \<Rightarrow> c_int \<Rightarrow> 'v \<Rightarrow> c_int \<times> 'v"
  virConnectAuthPtrDefault :: "(c_int list \<times> 'v auth_cb option) option"
  virConnectGetDomainCapabilities ::
    "ptr \<Rightarrow> string option \<Rightarrow> string option \<Rightarrow> string option \<Rightarrow> string option \<Rightarrow> c_int \<Rightarrow> 'v \<Rightarrow> string option \<times> 'v"

subsection \<open>Opening\<close>

definition ocaml_libvirt_get_version :: "('v, 'z) libvirt_conn_scheme \<Rightarrow> mlvalue \<Rightarrow> mlvalue \<Rightarrow> ('v lvworld, mlvalue) stub" where
  "ocaml_libvirt_get_version lib driverv unitv =
     bindS (liftS (Optstring_val driverv)) (\<lambda>driver.
     bindS (callV (virGetVersion lib driver)) (\<lambda>(r, libVer, typeVer).
     bindS (CHECK_ERROR lib (r = - 1) ''virGetVersion'') (\<lambda>_.
       let typeVer = (if driver = None then 0 else typeVer)
       in liftS (store_fields (caml_alloc_tuple 2) 0 [Val_int (uint libVer), Val_int (uint typeVer)]))))"

definition ocaml_libvirt_connect_open :: "('v, 'z) libvirt_conn_scheme \<Rightarrow> mlvalue \<Rightarrow> mlvalue \<Rightarrow> ('v lvworld, mlvalue) stub" where
  "ocaml_libvirt_connect_open lib namev unitv =
     bindS (liftS (Optstring_val namev)) (\<lambda>name.
     bindS (callV (virConnectOpen lib name)) (\<lambda>conn.
     bindS (CHECK_ERROR lib (conn = 0) ''virConnectOpen'') (\<lambda>_. retS (Val_connect conn))))"

definition ocaml_libvirt_connect_open_readonly ::
  "('v, 'z) libvirt_conn_scheme \<Rightarrow> mlvalue \<Rightarrow> mlvalue \<Rightarrow> ('v lvworld, mlvalue) stub" where
  "ocaml_libvirt_connect_open_readonly lib namev unitv =
     bindS (liftS (Optstring_val namev)) (\<lambda>name.
     bindS (callV (virConnectOpenReadOnly lib name)) (\<lambda>conn.
     bindS (CHECK_ERROR lib (conn = 0) ''virConnectOpen'') (\<lambda>_. retS (Val_connect conn))))"

subsection \<open>Authentication\<close>

text \<open>Storing one result of the OCaml callback into \<open>cred[i]\<close>; \<open>False\<close> when the copy cannot be allocated.
  The length of the string is kept in an \<open>int\<close>.\<close>

definition auth_result ::
  "mlvalue \<Rightarrow> nat \<Rightarrow> virConnectCredential list \<Rightarrow> ('v lvworld, bool \<times> virConnectCredential list) stub" where
  "auth_result elemv i cred =
     bindS (liftS (readM cred i)) (\<lambda>c.
       if elemv = VInt 0 then retS (True, cred[i := c\<lparr>cred_result := None, resultlen := 0\<rparr>])
       else bindS (liftS (bindR (Field elemv 0) Bytes_val)) (\<lambda>v.
              let len = of_nat (length v) :: c_int
              in bindS (liftS (c_inc len)) (\<lambda>len1.
                 bindS (mallocN len1) (\<lambda>a.
                   case a of
                     None \<Rightarrow> retS (False, cred[i := c\<lparr>cred_result := None\<rparr>])
                   | Some a \<Rightarrow>
                       if len = - 1 then liftS undef
                       else retS (True, cred[i := c\<lparr>cred_result := Some (a, take (unat len) v), resultlen := len\<rparr>])))))"

function auth_results :: "mlvalue \<Rightarrow> nat \<Rightarrow> virConnectCredential list \<Rightarrow> ('v lvworld, c_int \<times> virConnectCredential list) stub" where
  "auth_results rv i cred =
     (if rv = Val_emptylist then retS (0, cred)
      else bindS (bindS (liftS (Field rv 0)) (\<lambda>elemv. auth_result elemv i cred)) (\<lambda>(ok, cred).
             if \<not> ok then retS (- 1, cred)
             else case Field rv 1 of Inl e \<Rightarrow> liftS (Inl e) | Inr rest \<Rightarrow> auth_results rest (Suc i) cred))"
  by pat_completeness auto
termination
  by (relation "measure (\<lambda>(rv, i, cred). size rv)") (auto intro: field_size)

declare auth_results.simps [simp del]

definition ocaml_auth_callback :: "('v, 'z) libvirt_conn_scheme \<Rightarrow> mlvalue \<Rightarrow> 'v auth_cb" where
  "ocaml_auth_callback lib fv cred =
     bindS (liftS (foreachR (\<lambda>c listv. bindR (Val_virconnectcredential c) (\<lambda>v. cons_cell v listv)) (rev cred) Val_emptylist)) (\<lambda>listv w.
       case caml_callback_exn lib fv listv w of
         (None, w) \<Rightarrow> retS (- 1, cred) w
       | (Some rv, w) \<Rightarrow>
           bindS (liftS (list_length rv)) (\<lambda>len.
             if len \<noteq> of_nat (length cred) then retS (- 1, cred) else auth_results rv 0 cred) w)"

text \<open>The name is duplicated, the list of credential types becomes an array; both blocks are freed after
  the call.\<close>

definition ocaml_libvirt_connect_open_auth_common ::
  "('v, 'z) libvirt_conn_scheme \<Rightarrow> mlvalue \<Rightarrow> mlvalue \<Rightarrow> c_int \<Rightarrow> ('v lvworld, ptr) stub" where
  "ocaml_libvirt_connect_open_auth_common lib namev authv flags =
     bindS (liftS (Optstring_val namev)) (\<lambda>name.
     bindS (strdup_opt name) (\<lambda>name_block.
     bindS (liftS (Field authv 1)) (\<lambda>fv.
     bindS (liftS (Field authv 0)) (\<lambda>listv.
     bindS (liftS (list_length listv)) (\<lambda>ncredtype.
     bindS (malloc_or_raise (mallocN ncredtype)) (\<lambda>credtype_block.
     bindS (liftS (ml_iter (\<lambda>v credtype. bindR (Int_val v) (\<lambda>i. bindR (c_inc i) (\<lambda>i. Inr (credtype @ [i])))) listv [])) (\<lambda>credtype.
     bindS (virConnectOpenAuth lib name credtype (ocaml_auth_callback lib fv) flags) (\<lambda>conn.
     bindS (freeS credtype_block) (\<lambda>_.
     bindS (free_opt name_block) (\<lambda>_.
     bindS (CHECK_ERROR lib (conn = 0) ''virConnectOpenAuth'') (\<lambda>_. retS conn)))))))))))"

definition ocaml_libvirt_connect_open_auth ::
  "('v, 'z) libvirt_conn_scheme \<Rightarrow> mlvalue \<Rightarrow> mlvalue \<Rightarrow> ('v lvworld, mlvalue) stub" where
  "ocaml_libvirt_connect_open_auth lib namev authv =
     bindS (ocaml_libvirt_connect_open_auth_common lib namev authv 0) (\<lambda>conn. retS (Val_connect conn))"

definition ocaml_libvirt_connect_open_auth_readonly ::
  "('v, 'z) libvirt_conn_scheme \<Rightarrow> mlvalue \<Rightarrow> mlvalue \<Rightarrow> ('v lvworld, mlvalue) stub" where
  "ocaml_libvirt_connect_open_auth_readonly lib namev authv =
     bindS (ocaml_libvirt_connect_open_auth_common lib namev authv (vc lib VIR_CONNECT_RO)) (\<lambda>conn. retS (Val_connect conn))"

text \<open>The loop starts at \<open>ncredtype\<close>.\<close>

definition ocaml_libvirt_connect_credtypes_from_auth_default ::
  "('v, 'z) libvirt_conn_scheme \<Rightarrow> mlvalue \<Rightarrow> ('v lvworld, mlvalue) stub" where
  "ocaml_libvirt_connect_credtypes_from_auth_default lib unitv =
     (case virConnectAuthPtrDefault lib of
        None \<Rightarrow> retS Val_emptylist
      | Some (credtype, cb) \<Rightarrow>
          liftS (foreachR (\<lambda>i listv. bindR (readM credtype i) (\<lambda>ty. cons_cell (Val_int (sint (ty - 1))) listv))
                   (rev [0..<Suc (length credtype)]) Val_emptylist))"

text \<open>One credential of the argument: its strings are duplicated; the blocks are listed in the order in
  which they are freed.\<close>

definition auth_credential :: "mlvalue \<Rightarrow> ('v lvworld, virConnectCredential \<times> nat option list) stub" where
  "auth_credential credv =
     bindS (liftS (bindR (bindR (Field credv 0) Int_val) c_inc)) (\<lambda>ty.
     bindS (liftS (bindR (Field credv 1) String_val)) (\<lambda>p.
     bindS (malloc_or_raise mallocS) (\<lambda>pb.
     bindS (liftS (bindR (Field credv 2) Optstring_val)) (\<lambda>c.
     bindS (strdup_opt c) (\<lambda>cb.
     bindS (liftS (bindR (Field credv 3) Optstring_val)) (\<lambda>d.
     bindS (strdup_opt d) (\<lambda>db.
       retS (\<lparr>cred_type = ty, prompt = p, challenge = c, defresult = d, cred_result = None, resultlen = 0\<rparr>,
             [Some pb, cb, db]))))))))"

definition auth_result_value :: "virConnectCredential \<Rightarrow> mlvalue ml" where
  "auth_result_value cred =
     (case cred_result cred of
        Some (a, s) \<Rightarrow>
          if resultlen cred > 0
          then if unat (resultlen cred) \<le> length s
               then Store_field (caml_alloc 1 0) 0 (VString (take (unat (resultlen cred)) s))
               else undef
          else Inr (VInt 0)
      | None \<Rightarrow> Inr (VInt 0))"

definition ocaml_libvirt_connect_call_auth_default_callback ::
  "('v, 'z) libvirt_conn_scheme \<Rightarrow> mlvalue \<Rightarrow> ('v lvworld, mlvalue) stub" where
  "ocaml_libvirt_connect_call_auth_default_callback lib listv =
     (case virConnectAuthPtrDefault lib of
        Some (credtype, Some cb) \<Rightarrow>
          bindS (liftS (list_length listv)) (\<lambda>len.
          bindS (malloc_or_raise (mallocN len)) (\<lambda>creds_block.
          bindS (ml_iterS (\<lambda>credv acc. bindS (auth_credential credv) (\<lambda>c. retS (acc @ [c]))) listv []) (\<lambda>creds.
          bindS (cb (map fst creds)) (\<lambda>(ret, cred).
          bindS (liftS (if 0 \<le> sint ret
                        then foreachR (\<lambda>i retv. bindR (bindR (readM cred i) auth_result_value) (\<lambda>optv. cons_cell optv retv))
                               (rev [0..<unat len]) Val_emptylist
                        else Inr Val_unit)) (\<lambda>retv.
          bindS (foreachS (\<lambda>(c, blocks) _. foreachS (\<lambda>b _. free_opt b) blocks ()) creds ()) (\<lambda>_.
          bindS (freeS creds_block) (\<lambda>_.
            if sint ret < 0 then raiseS (Failure ''virConnectAuthPtrDefault callback failed'') else retS retv)))))))
      | _ \<Rightarrow> retS Val_unit)"

subsection \<open>Queries\<close>

definition ocaml_libvirt_connect_get_version :: "('v, 'z) libvirt_conn_scheme \<Rightarrow> mlvalue \<Rightarrow> ('v lvworld, mlvalue) stub" where
  "ocaml_libvirt_connect_get_version lib connv =
     bindS (liftS (Connect_val connv)) (\<lambda>conn.
     bindS (callV (virConnectGetVersion lib conn)) (\<lambda>(r, hvVer).
     bindS (CHECK_ERROR lib (r = - 1) ''virConnectGetVersion'') (\<lambda>_. retS (Val_int (uint hvVer)))))"

definition ocaml_libvirt_connect_get_max_vcpus ::
  "('v, 'z) libvirt_conn_scheme \<Rightarrow> mlvalue \<Rightarrow> mlvalue \<Rightarrow> ('v lvworld, mlvalue) stub" where
  "ocaml_libvirt_connect_get_max_vcpus lib connv typev =
     bindS (liftS (Connect_val connv)) (\<lambda>conn.
     bindS (liftS (Optstring_val typev)) (\<lambda>ty.
     bindS (callV (virConnectGetMaxVcpus lib conn ty)) (\<lambda>r.
     bindS (CHECK_ERROR lib (r = - 1) ''virConnectGetMaxVcpus'') (\<lambda>_. retS (Val_int (sint r))))))"

definition ocaml_libvirt_connect_get_node_info :: "('v, 'z) libvirt_conn_scheme \<Rightarrow> mlvalue \<Rightarrow> ('v lvworld, mlvalue) stub" where
  "ocaml_libvirt_connect_get_node_info lib connv =
     bindS (liftS (Connect_val connv)) (\<lambda>conn.
     bindS (callV (virNodeGetInfo lib conn)) (\<lambda>(r, info).
     bindS (CHECK_ERROR lib (r = - 1) ''virNodeGetInfo'') (\<lambda>_.
       liftS (store_fields (caml_alloc 8 0) 0
         [caml_copy_string (ni_model info), caml_copy_int64 (ni_memory info), Val_int (uint (ni_cpus info)),
          Val_int (uint (ni_mhz info)), Val_int (uint (ni_nodes info)), Val_int (uint (ni_sockets info)),
          Val_int (uint (ni_cores info)), Val_int (uint (ni_threads info))]))))"

definition ocaml_libvirt_connect_node_get_free_memory ::
  "('v, 'z) libvirt_conn_scheme \<Rightarrow> mlvalue \<Rightarrow> ('v lvworld, mlvalue) stub" where
  "ocaml_libvirt_connect_node_get_free_memory lib connv =
     bindS (liftS (Connect_val connv)) (\<lambda>conn.
     bindS (callV (virNodeGetFreeMemory lib conn)) (\<lambda>r.
     bindS (CHECK_ERROR lib (r = 0) ''virNodeGetFreeMemory'') (\<lambda>_. retS (caml_copy_int64 r))))"

definition ocaml_libvirt_connect_node_get_cells_free_memory ::
  "('v, 'z) libvirt_conn_scheme \<Rightarrow> mlvalue \<Rightarrow> mlvalue \<Rightarrow> mlvalue \<Rightarrow> ('v lvworld, mlvalue) stub" where
  "ocaml_libvirt_connect_node_get_cells_free_memory lib connv startv maxv =
     bindS (liftS (Connect_val connv)) (\<lambda>conn.
     bindS (liftS (Int_val startv)) (\<lambda>start.
     bindS (liftS (Int_val maxv)) (\<lambda>mx.
     bindS (malloc_or_raise (mallocN mx)) (\<lambda>block.
     bindS (callV (virNodeGetCellsFreeMemory lib conn start mx)) (\<lambda>(r, freemems).
     bindS (CHECK_ERROR_CLEANUP lib (r = - 1) (freeS block) ''virNodeGetCellsFreeMemory'') (\<lambda>_.
     bindS (liftS (caml_alloc_n r 0)) (\<lambda>rv.
     bindS (liftS (foreachR (\<lambda>i rv. bindR (readM freemems i) (\<lambda>m. Store_field rv i (caml_copy_int64 m))) [0..<unat r] rv)) (\<lambda>rv.
     bindS (freeS block) (\<lambda>_. retS rv)))))))))"

definition ocaml_libvirt_connect_set_keep_alive ::
  "('v, 'z) libvirt_conn_scheme \<Rightarrow> mlvalue \<Rightarrow> mlvalue \<Rightarrow> mlvalue \<Rightarrow> ('v lvworld, mlvalue) stub" where
  "ocaml_libvirt_connect_set_keep_alive lib connv intervalv countv =
     bindS (liftS (Connect_val connv)) (\<lambda>conn.
     bindS (liftS (Int_val intervalv)) (\<lambda>interval.
     bindS (liftS (Int_val countv)) (\<lambda>count.
     bindS (callV (virConnectSetKeepAlive lib conn interval count)) (\<lambda>r.
     bindS (CHECK_ERROR lib (r = - 1) ''virConnectSetKeepAlive'') (\<lambda>_. retS Val_unit)))))"

text \<open>A string that the library allocates is copied and freed.\<close>

definition copy_and_free :: "string \<Rightarrow> ('v lvworld, mlvalue) stub" where
  "copy_and_free r = bindS recvS (\<lambda>block. bindS (freeS block) (\<lambda>_. retS (caml_copy_string r)))"

definition ocaml_libvirt_connect_get_domain_capabilities ::
  "('v, 'z) libvirt_conn_scheme \<Rightarrow> mlvalue \<Rightarrow> mlvalue \<Rightarrow> mlvalue \<Rightarrow> mlvalue \<Rightarrow> mlvalue \<Rightarrow> ('v lvworld, mlvalue) stub" where
  "ocaml_libvirt_connect_get_domain_capabilities lib emulatorbinv archv machinev virttypev connv =
     bindS (liftS (Connect_val connv)) (\<lambda>conn.
     bindS (liftS (Optstring_val emulatorbinv)) (\<lambda>emulatorbin.
     bindS (liftS (Optstring_val archv)) (\<lambda>arch.
     bindS (liftS (Optstring_val machinev)) (\<lambda>machine.
     bindS (liftS (Optstring_val virttypev)) (\<lambda>virttype.
     bindS (callV (virConnectGetDomainCapabilities lib conn emulatorbin arch machine virttype 0)) (\<lambda>r.
     bindS (CHECK_ERROR lib (r = None) ''virConnectGetDomainCapabilities'') (\<lambda>_.
       case r of None \<Rightarrow> liftS undef | Some r \<Rightarrow> copy_and_free r)))))))"

subsection \<open>The authentication callback\<close>

definition cred_value :: "virConnectCredential \<Rightarrow> mlvalue" where
  "cred_value c = VBlock 0 [VInt (sint (cred_type c - 1)), VString (prompt c),
     ml_option VString (challenge c), ml_option VString (defresult c)]"

lemma Val_virconnectcredential_eq: "Val_virconnectcredential c = Inr (cred_value c)"
  by (simp add: Val_virconnectcredential_def cred_value_def)

lemma cred_list_eq:
  "foreachR (\<lambda>c listv. bindR (Val_virconnectcredential c) (\<lambda>v. cons_cell v listv)) (rev cred) Val_emptylist =
     Inr (ml_list cred_value cred)"
  using cons_loop [where ys = "[]"] by (simp add: Val_virconnectcredential_eq)

text \<open>A credential without its result, and the result OCaml gave.\<close>

definition request :: "virConnectCredential \<Rightarrow> c_int \<times> string \<times> string option \<times> string option" where
  "request c = (cred_type c, prompt c, challenge c, defresult c)"

definition answer :: "virConnectCredential \<Rightarrow> string option" where
  "answer c = map_option (\<lambda>(a, s). take (unat (resultlen c)) s) (cred_result c)"

definition answer_blocks :: "virConnectCredential list \<Rightarrow> nat list" where
  "answer_blocks cs = concat (map (\<lambda>c. case cred_result c of None \<Rightarrow> [] | Some (a, s) \<Rightarrow> [a]) cs)"

definition small_string :: "string \<Rightarrow> bool" where
  "small_string s \<longleftrightarrow> length s < 2 ^ 31 - 1"

lemma small_length:
  assumes "small_string s"
  defines "len \<equiv> of_nat (length s) :: c_int"
  shows "unat len = length s" "len \<noteq> - 1" "c_inc len = Inr (len + 1)" "0 \<le> sint (len + 1)"
proof -
  have lt: "length s < 2147483647" using assms(1) by (simp add: small_string_def)
  then show u: "unat len = length s"
    by (simp add: len_def unat_of_nat)
  have "unat (0x7FFFFFFF :: c_int) = 2147483647" "unat (- 1 :: c_int) = 4294967295"
    by (simp_all add: unsigned_minus_1_eq_mask mask_eq_exp_minus_1)
  with u lt have "len \<noteq> 0x7FFFFFFF" and ne: "len \<noteq> - 1" by (metis less_irrefl, auto)
  then show "c_inc len = Inr (len + 1)" "len \<noteq> - 1" by (simp_all add: c_inc_def)
  have "len + 1 = of_nat (Suc (length s))" by (simp add: len_def add.commute)
  moreover have "sint (of_nat (Suc (length s)) :: c_int) = int (Suc (length s))"
    using lt by (intro sint_of_nat_32) simp
  ultimately have "sint (len + 1) = int (Suc (length s))" by metis
  then show "0 \<le> sint (len + 1)" by simp
qed

lemma auth_result_run:
  assumes "i < length cred" and "\<And>s. r = Some s \<Longrightarrow> small_string s"
  shows "auth_result (ml_option VString r) i cred w =
    (case r of
       None \<Rightarrow> (Inr (True, cred[i := (cred ! i)\<lparr>cred_result := None, resultlen := 0\<rparr>]), w)
     | Some s \<Rightarrow>
         (case malloc (cheap w) of
            (None, H) \<Rightarrow> (Inr (False, cred[i := (cred ! i)\<lparr>cred_result := None\<rparr>]), w\<lparr>cheap := H\<rparr>)
          | (Some a, H) \<Rightarrow>
              (Inr (True, cred[i := (cred ! i)\<lparr>cred_result := Some (a, s), resultlen := of_nat (length s)\<rparr>]), w\<lparr>cheap := H\<rparr>)))"
proof (cases r)
  case None
  then show ?thesis using assms(1) by (simp add: auth_result_def stub_simps)
next
  case (Some s)
  note s = small_length [OF assms(2) [OF Some]]
  show ?thesis
    using assms(1) s
    by (simp add: Some auth_result_def stub_simps Let_def mallocN_def not_less [symmetric] split: prod.splits option.splits)
qed

text \<open>What the loop over the results promises. The requests are untouched. The first \<open>k\<close> answers are stored in order, each string in a new
  block of its own and with its length, and no other block is allocated. The result is 0 when these are all answers. It is -1 when
  answer \<open>k\<close> is a string and its allocation fails: then the result of credential \<open>k\<close> is \<open>NULL\<close>, the later ones are
  as before. The allocations before that one have succeeded.\<close>

definition strings_in :: "string option list \<Rightarrow> nat" where
  "strings_in rs = length (filter (\<lambda>r. r \<noteq> None) rs)"

lemma strings_in_simps [simp]: "strings_in [] = 0" "strings_in (None # rs) = strings_in rs" "strings_in (Some s # rs) = Suc (strings_in rs)"
  by (simp_all add: strings_in_def)

definition answers_stored ::
  "string option list \<Rightarrow> heap \<Rightarrow> virConnectCredential list \<Rightarrow> c_int \<Rightarrow> virConnectCredential list \<Rightarrow> heap \<Rightarrow> bool" where
  "answers_stored rs H cred ret cred' H' \<longleftrightarrow>
     map request cred' = map request cred \<and> heap_wf H' \<and>
     (\<exists>k \<le> length rs.
        map answer (take k cred') = take k rs \<and> distinct (answer_blocks (take k cred')) \<and>
        set (answer_blocks (take k cred')) \<inter> live H = {} \<and> live H' = live H \<union> set (answer_blocks (take k cred')) \<and>
        (\<forall>i < strings_in (take k rs). malloc_ok H (n_allocs H + i)) \<and>
        (if k = length rs then ret = 0
         else ret = - 1 \<and> rs ! k \<noteq> None \<and> \<not> malloc_ok H (n_allocs H + strings_in (take k rs)) \<and>
              cred' ! k = (cred ! k)\<lparr>cred_result := None\<rparr> \<and> drop (Suc k) cred' = drop (Suc k) cred))"

lemma answers_stored_None:
  assumes "answers_stored rs H cs ret cs' H'"
  shows "answers_stored (None # rs) H (c # cs) ret (c\<lparr>cred_result := None, resultlen := 0\<rparr> # cs') H'"
proof -
  let ?c = "c\<lparr>cred_result := None, resultlen := 0\<rparr>"
  have "request ?c = request c" "answer ?c = None" "answer_blocks (?c # xs) = answer_blocks xs" for xs
    by (simp_all add: request_def answer_def answer_blocks_def)
  moreover obtain k where "k \<le> length rs" "map answer (take k cs') = take k rs" "distinct (answer_blocks (take k cs'))"
    "set (answer_blocks (take k cs')) \<inter> live H = {}" "live H' = live H \<union> set (answer_blocks (take k cs'))"
    "\<forall>i < strings_in (take k rs). malloc_ok H (n_allocs H + i)"
    "if k = length rs then ret = 0
     else ret = - 1 \<and> rs ! k \<noteq> None \<and> \<not> malloc_ok H (n_allocs H + strings_in (take k rs)) \<and>
          cs' ! k = (cs ! k)\<lparr>cred_result := None\<rparr> \<and> drop (Suc k) cs' = drop (Suc k) cs"
    using assms unfolding answers_stored_def by blast
  moreover have "map request cs' = map request cs" "heap_wf H'" using assms unfolding answers_stored_def by blast+
  ultimately show ?thesis
    unfolding answers_stored_def by (intro conjI exI [of _ "Suc k"]) simp_all
qed

lemma answers_stored_Some:
  assumes "heap_wf H" "malloc H = (Some a, H1)" "small_string s" "answers_stored rs H1 cs ret cs' H'"
  shows "answers_stored (Some s # rs) H (c # cs) ret
    (c\<lparr>cred_result := Some (a, s), resultlen := of_nat (length s)\<rparr> # cs') H'"
proof -
  let ?c = "c\<lparr>cred_result := Some (a, s), resultlen := of_nat (length s)\<rparr>"
  have c: "request ?c = request c" "answer ?c = Some s" "answer_blocks (?c # xs) = a # answer_blocks xs" for xs
    by (simp_all add: request_def answer_def answer_blocks_def small_length(1) [OF assms(3)])
  have H1: "malloc_ok H1 = malloc_ok H" "n_allocs H1 = Suc (n_allocs H)" "malloc_ok H (n_allocs H)"
    using assms(2) by (auto simp: malloc_def Let_def split: if_splits)
  note a = c_heap.alloc_fresh [OF assms(1,2)]
  obtain k where k: "k \<le> length rs" "map answer (take k cs') = take k rs" "distinct (answer_blocks (take k cs'))"
    "set (answer_blocks (take k cs')) \<inter> live H1 = {}" "live H' = live H1 \<union> set (answer_blocks (take k cs'))"
    "\<forall>i < strings_in (take k rs). malloc_ok H1 (n_allocs H1 + i)"
    "if k = length rs then ret = 0
     else ret = - 1 \<and> rs ! k \<noteq> None \<and> \<not> malloc_ok H1 (n_allocs H1 + strings_in (take k rs)) \<and>
          cs' ! k = (cs ! k)\<lparr>cred_result := None\<rparr> \<and> drop (Suc k) cs' = drop (Suc k) cs"
    using assms(4) unfolding answers_stored_def by blast
  have r: "map request cs' = map request cs" "heap_wf H'" using assms(4) unfolding answers_stored_def by blast+
  have "\<forall>i < Suc (strings_in (take k rs)). malloc_ok H (n_allocs H + i)"
    using k(6) H1 by (simp add: less_Suc_eq_0_disj) auto
  then show ?thesis
    using r k a H1 unfolding answers_stored_def by (intro conjI exI [of _ "Suc k"]) (auto simp: c)
qed

lemma answers_stored_fail:
  assumes "heap_wf H" "malloc H = (None, H1)" "length rs = length cs"
  shows "answers_stored (Some s # rs) H (c # cs) (- 1) (c\<lparr>cred_result := None\<rparr> # cs) H1"
proof -
  have "\<not> malloc_ok H (n_allocs H)" using assms(2) by (auto simp: malloc_def Let_def split: if_splits)
  then show ?thesis
    using c_heap.alloc_fail [OF assms(1,2)] unfolding answers_stored_def
    by (intro conjI exI [of _ 0]) (simp_all add: request_def answer_blocks_def)
qed

lemma auth_results_Cons:
  "auth_results (ml_list (ml_option VString) (r # rs)) (length pre) (pre @ c # todo) w =
     bindS (auth_result (ml_option VString r) (length pre) (pre @ c # todo)) (\<lambda>(ok, cred).
       if \<not> ok then retS (- 1, cred) else auth_results (ml_list (ml_option VString) rs) (length (pre @ [c])) cred) w"
  by (subst auth_results.simps) (simp add: stub_simps cong: if_cong)

text \<open>The credentials already answered are \<open>pre\<close>.\<close>

lemma auth_results_run:
  assumes "length rs = length todo" and "\<And>s. Some s \<in> set rs \<Longrightarrow> small_string s" and "heap_wf (cheap w)"
  shows "\<exists>ret todo' H. auth_results (ml_list (ml_option VString) rs) (length pre) (pre @ todo) w =
      (Inr (ret, pre @ todo'), w\<lparr>cheap := H\<rparr>) \<and> answers_stored rs (cheap w) todo ret todo' H"
  using assms
proof (induction rs arbitrary: pre todo w)
  case Nil
  then show ?case
    by (intro exI [of _ 0] exI [of _ "[]"] exI [of _ "cheap w"])
       (simp add: auth_results.simps [of "VInt 0"] stub_simps answer_blocks_def answers_stored_def)
next
  case (Cons r rs)
  then obtain c todo1 where todo: "todo = c # todo1" "length rs = length todo1" by (cases todo) auto
  have small: "\<And>s. r = Some s \<Longrightarrow> small_string s" and smalls: "\<And>s. Some s \<in> set rs \<Longrightarrow> small_string s"
    using Cons.prems(2) by auto
  note one = auth_result_run [of "length pre" "pre @ c # todo1" r w, OF _ small, simplified]
  note IH = Cons.IH [OF todo(2) smalls]
  show ?case
  proof (cases r)
    case None
    obtain ret todo' H where
      "auth_results (ml_list (ml_option VString) rs) (length (pre @ [c])) (pre @ c\<lparr>cred_result := None, resultlen := 0\<rparr> # todo1) w =
        (Inr (ret, pre @ c\<lparr>cred_result := None, resultlen := 0\<rparr> # todo'), w\<lparr>cheap := H\<rparr>)"
      "answers_stored rs (cheap w) todo1 ret todo' H"
      using IH [OF _ Cons.prems(3), of "pre @ [c\<lparr>cred_result := None, resultlen := 0\<rparr>]"] by auto
    moreover have "auth_result (ml_option VString r) (length pre) (pre @ c # todo1) w =
        (Inr (True, pre @ c\<lparr>cred_result := None, resultlen := 0\<rparr> # todo1), w)"
      using one None by simp
    ultimately show ?thesis
      unfolding todo(1) auth_results_Cons using answers_stored_None None by (auto simp: bindS_def)
  next
    case (Some s)
    obtain m H1 where m: "malloc (cheap w) = (m, H1)" by force
    show ?thesis
    proof (cases m)
      case None
      have "auth_result (ml_option VString r) (length pre) (pre @ c # todo1) w =
          (Inr (False, pre @ c\<lparr>cred_result := None\<rparr> # todo1), w\<lparr>cheap := H1\<rparr>)"
        using one Some None m by simp
      then show ?thesis
        unfolding todo(1) auth_results_Cons using answers_stored_fail [OF Cons.prems(3)] Some None m todo(2)
        by (auto simp: bindS_def retS_def)
    next
      case (Some a)
      let ?c = "c\<lparr>cred_result := Some (a, s), resultlen := of_nat (length s)\<rparr>"
      have "heap_wf H1" using m Some c_heap.alloc_fresh [OF Cons.prems(3)] by blast
      then obtain ret todo' H where
        "auth_results (ml_list (ml_option VString) rs) (length (pre @ [c])) (pre @ ?c # todo1) (w\<lparr>cheap := H1\<rparr>) =
          (Inr (ret, pre @ ?c # todo'), w\<lparr>cheap := H\<rparr>)"
        "answers_stored rs H1 todo1 ret todo' H"
        using IH [of "w\<lparr>cheap := H1\<rparr>" "pre @ [?c]"] by auto
      moreover have "auth_result (ml_option VString r) (length pre) (pre @ c # todo1) w =
          (Inr (True, pre @ ?c # todo1), w\<lparr>cheap := H1\<rparr>)"
        using one \<open>r = Some s\<close> Some m by simp
      ultimately show ?thesis
        unfolding todo(1) auth_results_Cons
        using answers_stored_Some [OF Cons.prems(3)] small m Some \<open>r = Some s\<close> by (auto simp: bindS_def)
    qed
  qed
qed

text \<open>C18: the authentication callback hands OCaml the requested credentials in order. If OCaml raises an
  exception or answers with a list of another length, libvirt gets -1 and nothing is stored. Otherwise
  libvirt gets 0, with every answer stored in order, each in a new block of its own and with its length,
  or -1 when the allocation for an answer fails: then the answers before that one are stored in the same way and stay allocated, its own
  result is \<open>NULL\<close>, and the later credentials are as before. The requests themselves are never changed. (Answers are strings
  shorter than \<open>INT_MAX\<close>.)\<close>

theorem auth_callback_correct:
  assumes "length cred < 2 ^ 31" and "length rs < 2 ^ 31" and "\<And>s. Some s \<in> set rs \<Longrightarrow> small_string s"
    and ocaml: "caml_callback_exn lib fv (ml_list cred_value cred) w = (reply, w1)" "heap_wf (cheap w1)"
    and reply: "reply = None \<or> reply = Some (ml_list (ml_option VString) rs)"
  shows "if reply = None \<or> length rs \<noteq> length cred
         then ocaml_auth_callback lib fv cred w = (Inr (- 1, cred), w1)
         else \<exists>ret cred' H. ocaml_auth_callback lib fv cred w = (Inr (ret, cred'), w1\<lparr>cheap := H\<rparr>) \<and>
                answers_stored rs (cheap w1) cred ret cred' H"
proof -
  have run: "ocaml_auth_callback lib fv cred w =
      (case reply of
         None \<Rightarrow> (Inr (- 1, cred), w1)
       | Some rv \<Rightarrow> bindS (liftS (list_length rv)) (\<lambda>len.
             if len \<noteq> of_nat (length cred) then retS (- 1, cred) else auth_results rv 0 cred) w1)"
    unfolding ocaml_auth_callback_def cred_list_eq
    by (simp add: stub_simps ocaml(1) split: option.splits)
  have len: "(of_nat (length rs) :: c_int) = of_nat (length cred) \<longleftrightarrow> length rs = length cred"
    using assms(1,2) by (simp add: word_of_nat_eq_iff take_bit_nat_eq_self)
  show ?thesis
    using reply auth_results_run [of rs cred w1 "[]"] assms(2,3) ocaml(2)
    by (auto simp: run stub_simps len)
qed

subsection \<open>Opening with authentication\<close>

lemma credtypes_eq:
  assumes "0x7FFFFFFF \<notin> set ts"
  shows "ml_iter (\<lambda>v credtype. bindR (Int_val v) (\<lambda>i. bindR (c_inc i) (\<lambda>i. Inr (credtype @ [i])))) (ml_list (\<lambda>t. VInt (sint t)) ts) [] =
    Inr (map (\<lambda>t. t + 1) ts)"
proof -
  have "foreachR (\<lambda>t credtype. bindR (c_inc t) (\<lambda>i. Inr (credtype @ [i]))) ts acc = Inr (acc @ map (\<lambda>t. t + 1) ts)" for acc
    using assms by (induction ts arbitrary: acc) (simp_all add: c_inc_def)
  then show ?thesis by (simp add: ml_iter_list)
qed

lemma free_opt_run:
  assumes "set_option b \<subseteq> live (cheap w)"
  shows "bindS (free_opt b) k w = k () (w\<lparr>cheap := (cheap w)\<lparr>live := live (cheap w) - set_option b\<rparr>\<rparr>)"
  using assms by (cases b) (simp_all add: free_opt_def stub_simps)

text \<open>C19: opening a connection with authentication duplicates the name if there is one, passes libvirt the credential types in
  order, one more than their OCaml numbers, the callback above and the flags; it frees both blocks after
  the call and returns the handle of the connection or raises libvirt's error. When the name cannot be duplicated it raises
  \<open>Out_of_memory\<close> and nothing stays allocated; when the array of types cannot be allocated it raises \<open>Out_of_memory\<close> too, and
  the copy of the name, if there is one, is never freed. (Of libvirt it is assumed that the call with this callback returns and leaves no block behind and
  frees none it does not own; the numbers of the types are below \<open>INT_MAX\<close>.)\<close>

theorem open_auth_correct:
  assumes "heap_wf (cheap w)" and ts: "length ts < 2 ^ 31" "0x7FFFFFFF \<notin> set ts"
    and libvirt: "\<And>nm types w1. \<exists>conn w2. virConnectOpenAuth lib nm types (ocaml_auth_callback lib fv) 0 w1 = (Inr conn, w2) \<and>
      live (cheap w2) = live (cheap w1)"
  shows "\<exists>H.
     if name \<noteq> None \<and> \<not> malloc_ok (cheap w) (n_allocs (cheap w))
     then live H = live (cheap w) \<and>
       ocaml_libvirt_connect_open_auth lib (ml_option VString name) (VBlock 0 [ml_list (\<lambda>t. VInt (sint t)) ts, fv]) w =
         (raise Out_of_memory, w\<lparr>cheap := H\<rparr>)
     else if \<not> malloc_ok (cheap w) (n_allocs (cheap w) + (if name = None then 0 else 1))
     then live H = live (cheap w) \<union> (if name = None then {} else {n_allocs (cheap w)}) \<and>
       ocaml_libvirt_connect_open_auth lib (ml_option VString name) (VBlock 0 [ml_list (\<lambda>t. VInt (sint t)) ts, fv]) w =
         (raise Out_of_memory, w\<lparr>cheap := H\<rparr>)
     else live H = live (cheap w) \<and>
       (\<exists>w1 conn w2.
         virConnectOpenAuth lib (map_option c_string name) (map (\<lambda>t. t + 1) ts) (ocaml_auth_callback lib fv) 0 w1 = (Inr conn, w2) \<and>
         vir w1 = vir w \<and>
         ocaml_libvirt_connect_open_auth lib (ml_option VString name) (VBlock 0 [ml_list (\<lambda>t. VInt (sint t)) ts, fv]) w =
           (if conn = 0 then raise (virterror_exn lib ''virConnectOpenAuth'' (vir w2)) else Inr (Val_connect conn), w2\<lparr>cheap := H\<rparr>))"
    (is "\<exists>H. ?P H")
proof -
  let ?N = "n_allocs (cheap w)" and ?ok = "malloc_ok (cheap w)"
  let ?H0 = "(cheap w)\<lparr>n_allocs := Suc ?N, live := insert ?N (live (cheap w))\<rparr>"
  let ?open = "ocaml_libvirt_connect_open_auth lib (ml_option VString name) (VBlock 0 [ml_list (\<lambda>t. VInt (sint t)) ts, fv]) w"
  have nonneg: "\<not> sint (of_nat (length ts) :: c_int) < 0" using sint_of_nat_32 [OF ts(1)] by simp
  let ?common = "ocaml_libvirt_connect_open_auth_common lib (ml_option VString name) (VBlock 0 [ml_list (\<lambda>t. VInt (sint t)) ts, fv]) 0 w"
  have wrap: "?open = (case ?common of (Inl e, w') \<Rightarrow> (Inl e, w') | (Inr conn, w') \<Rightarrow> (Inr (Val_connect conn), w'))"
    by (simp add: ocaml_libvirt_connect_open_auth_def bindS_def retS_def split: prod.split sum.split)
  note run = ocaml_libvirt_connect_open_auth_common_def credtypes_eq [OF ts(2)] list_length_list [OF ts(1)] nonneg
    stub_simps mallocN_def bindS_def [of "strdup_opt _"]
  consider (no_name) "name \<noteq> None" "\<not> ?ok ?N" | (no_array) "name = None \<or> ?ok ?N" "\<not> ?ok (?N + (if name = None then 0 else 1))"
    | (both) "name = None \<or> ?ok ?N" "?ok (?N + (if name = None then 0 else 1))" by argo
  then show ?thesis
  proof cases
    case no_name
    then obtain nm where nm: "name = Some nm" by blast
    let ?H = "(cheap w)\<lparr>n_allocs := Suc ?N\<rparr>"
    have "strdup_opt (map_option c_string name) w = (raise Out_of_memory, w\<lparr>cheap := ?H\<rparr>)"
      using no_name(2) by (simp add: nm strdup_opt_def stub_simps malloc_def)
    then have "?common = (raise Out_of_memory, w\<lparr>cheap := ?H\<rparr>)" by (simp add: run raise_def)
    then show ?thesis using no_name by (intro exI [of _ ?H]) (simp add: wrap raise_def)
  next
    case no_array
    have "\<exists>b H. strdup_opt (map_option c_string name) w = (Inr b, w\<lparr>cheap := H\<rparr>) \<and> fst (malloc H) = None \<and>
        live (snd (malloc H)) = live (cheap w) \<union> (if name = None then {} else {?N})"
    proof (cases name)
      case None
      with no_array show ?thesis
        by (intro exI [of _ None] exI [of _ "cheap w"]) (simp add: strdup_opt_def stub_simps malloc_def)
    next
      case (Some nm)
      with no_array show ?thesis
        by (intro exI [of _ "Some ?N"] exI [of _ ?H0]) (simp add: strdup_opt_def stub_simps malloc_def)
    qed
    then obtain b H H1 where m: "strdup_opt (map_option c_string name) w = (Inr b, w\<lparr>cheap := H\<rparr>)" "malloc H = (None, H1)"
      "live H1 = live (cheap w) \<union> (if name = None then {} else {?N})" by (metis prod.collapse)
    have "?common = (raise Out_of_memory, w\<lparr>cheap := H1\<rparr>)" using m(1,2) by (simp add: run raise_def)
    then have "?open = (raise Out_of_memory, w\<lparr>cheap := H1\<rparr>)" by (simp add: wrap raise_def)
    then show ?thesis using no_array m(3) by (intro exI [of _ H1]) (simp split: if_splits)
  next
    case both
    have "\<exists>b H a H1. strdup_opt (map_option c_string name) w = (Inr b, w\<lparr>cheap := H\<rparr>) \<and> malloc H = (Some a, H1) \<and>
        set_option b \<inter> live (cheap w) = {} \<and> a \<notin> live (cheap w) \<union> set_option b \<and>
        live H1 = live (cheap w) \<union> set_option b \<union> {a}"
    proof (cases name)
      case None
      with both assms(1) show ?thesis
        by (intro exI [of _ None] exI [of _ "cheap w"]) (auto simp: strdup_opt_def stub_simps malloc_def heap_wf_def)
    next
      case (Some nm)
      with both assms(1) show ?thesis
        by (intro exI [of _ "Some ?N"] exI [of _ ?H0]) (auto simp: strdup_opt_def stub_simps malloc_def heap_wf_def)
    qed
    then obtain b H a H1 where m: "strdup_opt (map_option c_string name) w = (Inr b, w\<lparr>cheap := H\<rparr>)" "malloc H = (Some a, H1)"
      "set_option b \<inter> live (cheap w) = {}" "a \<notin> live (cheap w) \<union> set_option b" "live H1 = live (cheap w) \<union> set_option b \<union> {a}"
      by blast
    let ?w1 = "w\<lparr>cheap := H1\<rparr>"
    obtain conn w2 where call:
      "virConnectOpenAuth lib (map_option c_string name) (map (\<lambda>t. t + 1) ts) (ocaml_auth_callback lib fv) 0 ?w1 = (Inr conn, w2)"
      "live (cheap w2) = live H1" using libvirt [of "map_option c_string name" "map (\<lambda>t. t + 1) ts" ?w1] by auto
    let ?H2 = "(cheap w2)\<lparr>live := live H1 - {a} - set_option b\<rparr>"
    have sub: "a \<in> live (cheap w2)" "set_option b \<subseteq> live (cheap w2) - {a}" using m call(2) by auto
    have "?common = (if conn = 0 then raise (virterror_exn lib ''virConnectOpenAuth'' (vir w2)) else Inr conn, w2\<lparr>cheap := ?H2\<rparr>)"
      using m(1,2) call sub by (simp add: run bindS_def [of "virConnectOpenAuth _ _ _ _ _"] free_opt_run)
    then have "?open = (if conn = 0 then raise (virterror_exn lib ''virConnectOpenAuth'' (vir w2)) else Inr (Val_connect conn), w2\<lparr>cheap := ?H2\<rparr>)"
      by (simp add: wrap raise_def)
    moreover have "live ?H2 = live (cheap w)" using m by auto
    moreover have "vir ?w1 = vir w" by simp
    moreover have c: "\<not> (name \<noteq> None \<and> \<not> ?ok ?N)" "\<not> \<not> ?ok (?N + (if name = None then 0 else 1))" using both by blast+
    ultimately show ?thesis unfolding if_not_P [OF c(1)] if_not_P [OF c(2)] using call(1) by blast
  qed
qed

text \<open>\<open>ocaml_libvirt_connect_credtypes_from_auth_default\<close> starts its loop one element past the end of the
  array of credential types: whenever libvirt has a default authentication handler, even one without
  credential types, the stub reads outside the array.\<close>

theorem credtypes_from_auth_default_overreads:
  "ocaml_libvirt_connect_credtypes_from_auth_default lib unitv w =
     (case virConnectAuthPtrDefault lib of None \<Rightarrow> (Inr Val_emptylist, w) | Some _ \<Rightarrow> (undef, w))"
  by (simp add: ocaml_libvirt_connect_credtypes_from_auth_default_def stub_simps readM_def split: option.splits)

text \<open>\<open>ocaml_libvirt_connect_node_get_cells_free_memory\<close> returns the array of the values that libvirt has
  stored, and frees its buffer whatever happens; a negative number of cells and a failed allocation raise
  \<open>Out_of_memory\<close>.\<close>

theorem cells_free_memory_correct:
  assumes "heap_wf (cheap w)"
    and libvirt: "virNodeGetCellsFreeMemory lib conn start mx (vir w) = ((r, mems), v)"
      "r = - 1 \<or> 0 \<le> sint r \<and> unat r \<le> length mems"
  shows "\<exists>H. live H = live (cheap w) \<and>
    ocaml_libvirt_connect_node_get_cells_free_memory lib (Val_connect conn) (VInt (sint start)) (VInt (sint mx)) w =
      (if sint mx < 0 \<or> \<not> malloc_ok (cheap w) (n_allocs (cheap w)) then (raise Out_of_memory, w\<lparr>cheap := H\<rparr>)
       else (if r = - 1 then raise (virterror_exn lib ''virNodeGetCellsFreeMemory'' v)
             else Inr (VBlock 0 (map VInt64 (take (unat r) mems))), w\<lparr>cheap := H, vir := v\<rparr>))"
proof (cases "sint mx < 0 \<or> \<not> malloc_ok (cheap w) (n_allocs (cheap w))")
  case True
  then show ?thesis
    by (intro exI [of _ "if sint mx < 0 then cheap w else (cheap w)\<lparr>n_allocs := Suc (n_allocs (cheap w))\<rparr>"])
       (auto simp: ocaml_libvirt_connect_node_get_cells_free_memory_def stub_simps mallocN_def malloc_def Let_def)
next
  case False
  obtain a H where m: "malloc (cheap w) = (Some a, H)" using False by (auto simp: malloc_def Let_def)
  note a = c_heap.alloc_fresh [OF assms(1) m]
  have fill: "foreachR (\<lambda>i rv. bindR (readM mems i) (\<lambda>m. Store_field rv i (caml_copy_int64 m))) [0..<unat r] (caml_alloc (unat r) 0) =
      Inr (VBlock 0 (map VInt64 (take (unat r) mems)))" if "unat r \<le> length mems"
    using array_of_reads [OF that, of "\<lambda>m. Inr (VInt64 m)" VInt64 0] by (simp add: bindR_assoc)
  have "H\<lparr>live := live H - {a}\<rparr> = H\<lparr>live := live (cheap w)\<rparr>" using a by simp
  then show ?thesis
    using False m a libvirt fill
    by (intro exI [of _ "H\<lparr>live := live (cheap w)\<rparr>"])
       (auto simp: ocaml_libvirt_connect_node_get_cells_free_memory_def stub_simps mallocN_def caml_alloc_n_def not_less)
qed

subsection \<open>Witnesses\<close>

definition demo_heap0 :: heap where
  "demo_heap0 = \<lparr>malloc_ok = (\<lambda>n. True), n_allocs = 0, live = {}, tunings = (\<lambda>_. default_tuning)\<rparr>"

definition demo_world :: "nat lvworld" where
  "demo_world = \<lparr>vir = 0, cheap = demo_heap0, cells = (\<lambda>_. 0)\<rparr>"

definition demo_conn :: "nat libvirt_conn" where
  "demo_conn = \<lparr>vc = (\<lambda>_. 1), virGetLastError = (\<lambda>v. None), virConnectClose = (\<lambda>p v. v), virDomainFree = (\<lambda>p v. v),
     virNetworkFree = (\<lambda>p v. v), virStoragePoolFree = (\<lambda>p v. v), virStorageVolFree = (\<lambda>p v. v), virSecretFree = (\<lambda>p v. v),
     virGetVersion = (\<lambda>d v. ((0, 5, 6), v)), virConnectOpen = (\<lambda>n v. (7, v)), virConnectOpenReadOnly = (\<lambda>n v. (7, v)),
     virConnectOpenAuth = (\<lambda>n types cb fl w. (Inr 7, w\<lparr>vir := Suc (vir w)\<rparr>)),
     caml_callback_exn = (\<lambda>f arg w. (Some (ml_list (ml_option VString) [Some ''root'', None]), w)),
     virConnectGetVersion = (\<lambda>c v. ((0, 5), v)), virConnectGetMaxVcpus = (\<lambda>c t v. (4, v)),
     virNodeGetInfo = (\<lambda>c v. ((- 1, \<lparr>ni_model = ''x'', ni_memory = 0, ni_cpus = 0, ni_mhz = 0, ni_nodes = 0, ni_sockets = 0, ni_cores = 0, ni_threads = 0\<rparr>), v)),
     virNodeGetFreeMemory = (\<lambda>c v. (9, v)), virNodeGetCellsFreeMemory = (\<lambda>c s m v. ((2, [10, 20]), Suc v)),
     virConnectSetKeepAlive = (\<lambda>c i n v. (0, v)), virConnectAuthPtrDefault = None,
     virConnectGetDomainCapabilities = (\<lambda>c a b d e f v. (None, v))\<rparr>"

definition demo_cred :: "string \<Rightarrow> virConnectCredential" where
  "demo_cred p = \<lparr>cred_type = 2, prompt = p, challenge = None, defresult = None, cred_result = None, resultlen = 0\<rparr>"

lemma demo_world_wf: "heap_wf (cheap demo_world)"
  by (simp add: demo_world_def demo_heap0_def heap_wf_def)

theorem auth_callback_correct_witness:
  "\<exists>ret cred' H. ocaml_auth_callback demo_conn (VClosure 0) [demo_cred ''user'', demo_cred ''password''] demo_world =
      (Inr (ret, cred'), demo_world\<lparr>cheap := H\<rparr>) \<and>
    answers_stored [Some ''root'', None] (cheap demo_world) [demo_cred ''user'', demo_cred ''password''] ret cred' H"
  using auth_callback_correct [of "[demo_cred ''user'', demo_cred ''password'']" "[Some ''root'', None]" demo_conn
      "VClosure 0" demo_world "Some (ml_list (ml_option VString) [Some ''root'', None])" demo_world] demo_world_wf
  by (simp add: demo_conn_def small_string_def)

theorem open_auth_correct_witness:
  "(\<exists>w1 conn w2 H.
      virConnectOpenAuth demo_conn (Some ''qemu:///system'') [2, 5] (ocaml_auth_callback demo_conn (VClosure 0)) 0 w1 = (Inr conn, w2) \<and>
      live H = live (cheap demo_world) \<and>
      ocaml_libvirt_connect_open_auth demo_conn (ml_option VString (Some ''qemu:///system''))
        (VBlock 0 [ml_list (\<lambda>t. VInt (sint t)) [1 :: c_int, 4], VClosure 0]) demo_world =
        (if conn = 0 then raise (virterror_exn demo_conn ''virConnectOpenAuth'' (vir w2)) else Inr (Val_connect conn), w2\<lparr>cheap := H\<rparr>)) \<and>
   (\<exists>H. live H = {0} \<and>
      ocaml_libvirt_connect_open_auth demo_conn (ml_option VString (Some ''qemu:///system''))
        (VBlock 0 [ml_list (\<lambda>t. VInt (sint t)) [1 :: c_int, 4], VClosure 0]) (demo_world\<lparr>cheap := demo_heap0\<lparr>malloc_ok := (\<lambda>n. n = 0)\<rparr>\<rparr>) =
        (raise Out_of_memory, demo_world\<lparr>cheap := H\<rparr>))"
proof -
  let ?low = "demo_world\<lparr>cheap := demo_heap0\<lparr>malloc_ok := (\<lambda>n. n = 0)\<rparr>\<rparr>"
  have law: "\<And>nm types w1. \<exists>conn w2. virConnectOpenAuth demo_conn nm types (ocaml_auth_callback demo_conn (VClosure 0)) 0 w1 = (Inr conn, w2) \<and>
      live (cheap w2) = live (cheap w1)"
    by (simp add: demo_conn_def)
  have wf: "heap_wf (cheap ?low)" by (simp add: demo_heap0_def heap_wf_def)
  have name: "map_option c_string (Some ''qemu:///system'') = Some ''qemu:///system''" by (simp add: c_string_def)
  have mok: "malloc_ok (cheap demo_world) n" "malloc_ok (cheap ?low) n \<longleftrightarrow> n = 0" "n_allocs (cheap ?low) = 0" "live (cheap ?low) = {}" for n
    by (simp_all add: demo_world_def demo_heap0_def)
  have types: "length [1 :: c_int, 4] < 2 ^ 31" "(0x7FFFFFFF :: c_int) \<notin> set [1, 4]" by simp_all
  note run = open_auth_correct [OF demo_world_wf types law, of "Some ''qemu:///system''"]
  note low = open_auth_correct [OF wf types law, of "Some ''qemu:///system''"]
  have "map (\<lambda>t. t + 1) [1 :: c_int, 4] = [2, 5]" "0 + 1 \<noteq> (0 :: nat)"
    "Some ''qemu:///system'' \<noteq> None" "{} \<union> {0 :: nat} = {0}" "?low\<lparr>cheap := H\<rparr> = demo_world\<lparr>cheap := H\<rparr>" for H
    by simp_all
  note eval = this mok name simp_thms if_True if_False not_True_eq_False not_False_eq_True
  show ?thesis
  proof
    show "\<exists>w1 conn w2 H.
      virConnectOpenAuth demo_conn (Some ''qemu:///system'') [2, 5] (ocaml_auth_callback demo_conn (VClosure 0)) 0 w1 = (Inr conn, w2) \<and>
      live H = live (cheap demo_world) \<and>
      ocaml_libvirt_connect_open_auth demo_conn (ml_option VString (Some ''qemu:///system''))
        (VBlock 0 [ml_list (\<lambda>t. VInt (sint t)) [1 :: c_int, 4], VClosure 0]) demo_world =
        (if conn = 0 then raise (virterror_exn demo_conn ''virConnectOpenAuth'' (vir w2)) else Inr (Val_connect conn), w2\<lparr>cheap := H\<rparr>)"
      using run by (simp only: eval) blast
    show "\<exists>H. live H = {0} \<and>
      ocaml_libvirt_connect_open_auth demo_conn (ml_option VString (Some ''qemu:///system''))
        (VBlock 0 [ml_list (\<lambda>t. VInt (sint t)) [1 :: c_int, 4], VClosure 0]) ?low = (raise Out_of_memory, demo_world\<lparr>cheap := H\<rparr>)"
      using low by (simp only: eval)
  qed
qed

theorem cells_free_memory_correct_witness:
  "\<exists>H. live H = live (cheap demo_world) \<and>
    ocaml_libvirt_connect_node_get_cells_free_memory demo_conn (Val_connect 7) (VInt (sint (0 :: c_int))) (VInt (sint (4 :: c_int))) demo_world =
      (Inr (VBlock 0 [VInt64 10, VInt64 20]), demo_world\<lparr>cheap := H, vir := 1\<rparr>)"
proof -
  have "virNodeGetCellsFreeMemory demo_conn 7 0 4 (vir demo_world) = ((2, [10, 20]), 1)"
    by (simp add: demo_conn_def demo_world_def)
  from cells_free_memory_correct [OF demo_world_wf this] show ?thesis
    by (simp add: demo_world_def demo_heap0_def)
qed

end
