(* ===== verification/LibvirtDomain.thy ===== *)
theory LibvirtDomain
  imports LibvirtConn
begin

section \<open>The libvirt binding: domains (libvirt_c_oneoffs.c)\<close>

text \<open>
  The stubs on one domain: memory, information, scheduler, virtual processors, migration, peeking into
  disks and memory, and the XML description. A buffer that libvirt fills is a list: what the library
  call returns for it is its contents after the call. A stub that writes into an OCaml \<open>bytes\<close> buffer
  returns the buffer's new contents with its result.
\<close>

subsection \<open>Data\<close>

record virDomainInfo =
  di_state :: c_int
  di_maxMem :: "64 word"
  di_memory :: "64 word"
  di_nrVirtCpu :: "16 word"
  di_cpuTime :: "64 word"

datatype sched_value =
    VIR_DOMAIN_SCHED_FIELD_INT c_int
  | VIR_DOMAIN_SCHED_FIELD_UINT c_int
  | VIR_DOMAIN_SCHED_FIELD_LLONG "64 word"
  | VIR_DOMAIN_SCHED_FIELD_ULLONG "64 word"
  | VIR_DOMAIN_SCHED_FIELD_DOUBLE "64 word"
  | VIR_DOMAIN_SCHED_FIELD_BOOLEAN "8 word"
  | Other_sched_type c_int

record virSchedParameter =
  sp_field :: string
  sp_value :: sched_value

record virVcpuInfo =
  vi_number :: c_int
  vi_state :: c_int
  vi_cpuTime :: "64 word"
  vi_cpu :: c_int

record virDomainBlockStatsStruct =
  rd_req :: "64 word"
  rd_bytes :: "64 word"
  wr_req :: "64 word"
  wr_bytes :: "64 word"
  errs :: "64 word"

record virDomainInterfaceStatsStruct =
  rx_bytes :: "64 word"
  rx_packets :: "64 word"
  rx_errs :: "64 word"
  rx_drop :: "64 word"
  tx_bytes :: "64 word"
  tx_packets :: "64 word"
  tx_errs :: "64 word"
  tx_drop :: "64 word"

record 'v libvirt_dom = "'v libvirt" +
  VIR_DOMAIN_SCHED_FIELD_LENGTH :: nat
  virDomainGetID :: "ptr \<Rightarrow> 'v \<Rightarrow> c_int \<times> 'v"
  virDomainGetMaxMemory :: "ptr \<Rightarrow> 'v \<Rightarrow> 64 word \<times> 'v"
  virDomainSetMaxMemory :: "ptr \<Rightarrow> 64 word \<Rightarrow> 'v \<Rightarrow> c_int \<times> 'v"
  virDomainSetMemory :: "ptr \<Rightarrow> 64 word \<Rightarrow> 'v \<Rightarrow> c_int \<times> 'v"
  virDomainGetInfo :: "ptr \<Rightarrow> 'v \<Rightarrow> (c_int \<times> virDomainInfo) \<times> 'v"
  virDomainGetSchedulerType :: "ptr \<Rightarrow> 'v \<Rightarrow> (string option \<times> c_int) \<times> 'v"
  virDomainGetSchedulerParameters :: "ptr \<Rightarrow> c_int \<Rightarrow> 'v \<Rightarrow> (c_int \<times> c_int \<times> virSchedParameter list) \<times> 'v"
  virDomainSetSchedulerParameters :: "ptr \<Rightarrow> virSchedParameter list \<Rightarrow> 'v \<Rightarrow> c_int \<times> 'v"
  virDomainSetVcpus :: "ptr \<Rightarrow> c_int \<Rightarrow> 'v \<Rightarrow> c_int \<times> 'v"
  virDomainPinVcpu :: "ptr \<Rightarrow> c_int \<Rightarrow> string \<Rightarrow> c_int \<Rightarrow> 'v \<Rightarrow> c_int \<times> 'v"
  virDomainGetVcpus :: "ptr \<Rightarrow> c_int \<Rightarrow> c_int \<Rightarrow> 'v \<Rightarrow> (c_int \<times> virVcpuInfo list \<times> string) \<times> 'v"
  virDomainMigrate :: "ptr \<Rightarrow> ptr \<Rightarrow> c_int \<Rightarrow> string option \<Rightarrow> string option \<Rightarrow> 64 word \<Rightarrow> 'v \<Rightarrow> ptr \<times> 'v"
  virDomainBlockStats :: "ptr \<Rightarrow> string \<Rightarrow> 'v \<Rightarrow> (c_int \<times> virDomainBlockStatsStruct) \<times> 'v"
  virDomainInterfaceStats :: "ptr \<Rightarrow> string \<Rightarrow> 'v \<Rightarrow> (c_int \<times> virDomainInterfaceStatsStruct) \<times> 'v"
  virDomainBlockPeek :: "ptr \<Rightarrow> string \<Rightarrow> 64 word \<Rightarrow> size_t \<Rightarrow> c_int \<Rightarrow> 'v \<Rightarrow> (c_int \<times> string) \<times> 'v"
  virDomainMemoryPeek :: "ptr \<Rightarrow> 64 word \<Rightarrow> size_t \<Rightarrow> c_int \<Rightarrow> 'v \<Rightarrow> (c_int \<times> string) \<times> 'v"
  virDomainGetXMLDesc :: "ptr \<Rightarrow> c_int \<Rightarrow> 'v \<Rightarrow> string option \<times> 'v"

subsection \<open>Memory and information\<close>

definition ocaml_libvirt_domain_get_id :: "('v, 'z) libvirt_dom_scheme \<Rightarrow> mlvalue \<Rightarrow> ('v lvworld, mlvalue) stub" where
  "ocaml_libvirt_domain_get_id lib domv =
     bindS (liftS (Domain_val domv)) (\<lambda>d. bindS (callV (virDomainGetID lib d)) (\<lambda>r. retS (Val_int (sint r))))"

definition ocaml_libvirt_domain_get_max_memory :: "('v, 'z) libvirt_dom_scheme \<Rightarrow> mlvalue \<Rightarrow> ('v lvworld, mlvalue) stub" where
  "ocaml_libvirt_domain_get_max_memory lib domv =
     bindS (liftS (Domain_val domv)) (\<lambda>d.
     bindS (callV (virDomainGetMaxMemory lib d)) (\<lambda>r.
     bindS (CHECK_ERROR lib (r = 0) ''virDomainGetMaxMemory'') (\<lambda>_. retS (caml_copy_int64 r))))"

definition ocaml_libvirt_domain_set_max_memory ::
  "('v, 'z) libvirt_dom_scheme \<Rightarrow> mlvalue \<Rightarrow> mlvalue \<Rightarrow> ('v lvworld, mlvalue) stub" where
  "ocaml_libvirt_domain_set_max_memory lib domv memv =
     bindS (liftS (Domain_val domv)) (\<lambda>d.
     bindS (liftS (Int64_val memv)) (\<lambda>mem.
     bindS (callV (virDomainSetMaxMemory lib d mem)) (\<lambda>r.
     bindS (CHECK_ERROR lib (r = - 1) ''virDomainSetMaxMemory'') (\<lambda>_. retS Val_unit))))"

definition ocaml_libvirt_domain_set_memory ::
  "('v, 'z) libvirt_dom_scheme \<Rightarrow> mlvalue \<Rightarrow> mlvalue \<Rightarrow> ('v lvworld, mlvalue) stub" where
  "ocaml_libvirt_domain_set_memory lib domv memv =
     bindS (liftS (Domain_val domv)) (\<lambda>d.
     bindS (liftS (Int64_val memv)) (\<lambda>mem.
     bindS (callV (virDomainSetMemory lib d mem)) (\<lambda>r.
     bindS (CHECK_ERROR lib (r = - 1) ''virDomainSetMemory'') (\<lambda>_. retS Val_unit))))"

definition ocaml_libvirt_domain_get_info :: "('v, 'z) libvirt_dom_scheme \<Rightarrow> mlvalue \<Rightarrow> ('v lvworld, mlvalue) stub" where
  "ocaml_libvirt_domain_get_info lib domv =
     bindS (liftS (Domain_val domv)) (\<lambda>d.
     bindS (callV (virDomainGetInfo lib d)) (\<lambda>(r, info).
     bindS (CHECK_ERROR lib (r = - 1) ''virDomainGetInfo'') (\<lambda>_.
       liftS (store_fields (caml_alloc 5 0) 0
         [Val_int (uint (di_state info)), caml_copy_int64 (di_maxMem info), caml_copy_int64 (di_memory info),
          Val_int (uint (di_nrVirtCpu info)), caml_copy_int64 (di_cpuTime info)]))))"

subsection \<open>Scheduler\<close>

text \<open>A C integer stored where an OCaml value is expected: an odd one is an immediate value, an even one
  a pointer to nowhere.\<close>

definition raw_value :: "c_int \<Rightarrow> mlvalue ml" where
  "raw_value n = (if odd (sint n) then Inr (VInt (sint n div 2)) else undef)"

definition ocaml_libvirt_domain_get_scheduler_type :: "('v, 'z) libvirt_dom_scheme \<Rightarrow> mlvalue \<Rightarrow> ('v lvworld, mlvalue) stub" where
  "ocaml_libvirt_domain_get_scheduler_type lib domv =
     bindS (liftS (Domain_val domv)) (\<lambda>d.
     bindS (callV (virDomainGetSchedulerType lib d)) (\<lambda>(r, nparams).
     bindS (CHECK_ERROR lib (r = None) ''virDomainGetSchedulerType'') (\<lambda>_.
       case r of
         None \<Rightarrow> liftS undef
       | Some r \<Rightarrow>
           bindS (copy_and_free r) (\<lambda>strv.
           bindS (liftS (Store_field (caml_alloc_tuple 2) 0 strv)) (\<lambda>rv.
             liftS (bindR (raw_value nparams) (Store_field rv 1)))))))"

definition sched_block :: "nat \<Rightarrow> mlvalue \<Rightarrow> mlvalue ml" where
  "sched_block tag v = Store_field (caml_alloc 1 tag) 0 v"

text \<open>The two switches; \<open>default\<close> raises \<open>Failure\<close> with the name of the function.\<close>

fun Val_sched_value :: "sched_value \<Rightarrow> mlvalue ml" where
  "Val_sched_value (VIR_DOMAIN_SCHED_FIELD_INT i) = sched_block 0 (VInt32 i)"
| "Val_sched_value (VIR_DOMAIN_SCHED_FIELD_UINT i) = sched_block 1 (VInt32 i)"
| "Val_sched_value (VIR_DOMAIN_SCHED_FIELD_LLONG l) = sched_block 2 (VInt64 l)"
| "Val_sched_value (VIR_DOMAIN_SCHED_FIELD_ULLONG l) = sched_block 3 (VInt64 l)"
| "Val_sched_value (VIR_DOMAIN_SCHED_FIELD_DOUBLE d) = sched_block 4 (VDouble d)"
| "Val_sched_value (VIR_DOMAIN_SCHED_FIELD_BOOLEAN b) = sched_block 5 (Val_int (sint b))"
| "Val_sched_value (Other_sched_type t) = raise (Failure ''ocaml_libvirt_domain_get_scheduler_parameters'')"

definition Sched_value_val :: "mlvalue \<Rightarrow> sched_value ml" where
  "Sched_value_val v =
     bindR (Tag_val v) (\<lambda>tag.
       if tag = 0 then bindR (bindR (Field v 0) Int32_val) (\<lambda>i. Inr (VIR_DOMAIN_SCHED_FIELD_INT i))
       else if tag = 1 then bindR (bindR (Field v 0) Int32_val) (\<lambda>i. Inr (VIR_DOMAIN_SCHED_FIELD_UINT i))
       else if tag = 2 then bindR (bindR (Field v 0) Int64_val) (\<lambda>i. Inr (VIR_DOMAIN_SCHED_FIELD_LLONG i))
       else if tag = 3 then bindR (bindR (Field v 0) Int64_val) (\<lambda>i. Inr (VIR_DOMAIN_SCHED_FIELD_ULLONG i))
       else if tag = 4 then bindR (bindR (Field v 0) Double_val) (\<lambda>d. Inr (VIR_DOMAIN_SCHED_FIELD_DOUBLE d))
       else if tag = 5 then bindR (bindR (Field v 0) Int_val) (\<lambda>b. Inr (VIR_DOMAIN_SCHED_FIELD_BOOLEAN (ucast b)))
       else raise (Failure ''ocaml_libvirt_domain_set_scheduler_parameters''))"

definition Val_sched_param :: "virSchedParameter \<Rightarrow> mlvalue ml" where
  "Val_sched_param p =
     bindR (Store_field (caml_alloc_tuple 2) 0 (caml_copy_string (sp_field p))) (\<lambda>v.
     bindR (Val_sched_value (sp_value p)) (Store_field v 1))"

definition ocaml_libvirt_domain_get_scheduler_parameters ::
  "('v, 'z) libvirt_dom_scheme \<Rightarrow> mlvalue \<Rightarrow> mlvalue \<Rightarrow> ('v lvworld, mlvalue) stub" where
  "ocaml_libvirt_domain_get_scheduler_parameters lib domv nparamsv =
     bindS (liftS (Domain_val domv)) (\<lambda>d.
     bindS (liftS (Int_val nparamsv)) (\<lambda>nparams.
     bindS (malloc_or_raise (mallocN nparams)) (\<lambda>block.
     bindS (callV (virDomainGetSchedulerParameters lib d nparams)) (\<lambda>(r, nparams, params).
     bindS (CHECK_ERROR_CLEANUP lib (r = - 1) (freeS block) ''virDomainGetSchedulerParameters'') (\<lambda>_.
     bindS (liftS (caml_alloc_n nparams 0)) (\<lambda>rv.
     bindS (liftS (foreachR (\<lambda>i rv. bindR (bindR (readM params i) Val_sched_param) (Store_field rv i)) [0..<unat nparams] rv)) (\<lambda>rv.
     bindS (freeS block) (\<lambda>_. retS rv))))))))"

text \<open>\<open>strncpy\<close> and the terminating NUL: at most the first \<open>VIR_DOMAIN_SCHED_FIELD_LENGTH - 1\<close> characters.\<close>

definition Sched_param_val :: "('v, 'z) libvirt_dom_scheme \<Rightarrow> mlvalue \<Rightarrow> virSchedParameter ml" where
  "Sched_param_val lib v =
     bindR (bindR (Field v 0) String_val) (\<lambda>name.
     bindR (bindR (Field v 1) Sched_value_val) (\<lambda>x.
       Inr \<lparr>sp_field = take (VIR_DOMAIN_SCHED_FIELD_LENGTH lib - 1) name, sp_value = x\<rparr>))"

definition ocaml_libvirt_domain_set_scheduler_parameters ::
  "('v, 'z) libvirt_dom_scheme \<Rightarrow> mlvalue \<Rightarrow> mlvalue \<Rightarrow> ('v lvworld, mlvalue) stub" where
  "ocaml_libvirt_domain_set_scheduler_parameters lib domv paramsv =
     bindS (liftS (Domain_val domv)) (\<lambda>d.
     bindS (liftS (Wosize_val paramsv)) (\<lambda>nparams.
     bindS (malloc_or_raise mallocS) (\<lambda>block.
     bindS (liftS (foreachR (\<lambda>i params. bindR (bindR (Field paramsv i) (Sched_param_val lib)) (\<lambda>p. Inr (params @ [p]))) [0..<nparams] [])) (\<lambda>params.
     bindS (callV (virDomainSetSchedulerParameters lib d params)) (\<lambda>r.
     bindS (freeS block) (\<lambda>_.
     bindS (CHECK_ERROR lib (r = - 1) ''virDomainSetSchedulerParameters'') (\<lambda>_. retS Val_unit)))))))"

subsection \<open>Virtual processors\<close>

definition ocaml_libvirt_domain_set_vcpus ::
  "('v, 'z) libvirt_dom_scheme \<Rightarrow> mlvalue \<Rightarrow> mlvalue \<Rightarrow> ('v lvworld, mlvalue) stub" where
  "ocaml_libvirt_domain_set_vcpus lib domv nvcpusv =
     bindS (liftS (Domain_val domv)) (\<lambda>d.
     bindS (liftS (Int_val nvcpusv)) (\<lambda>nvcpus.
     bindS (callV (virDomainSetVcpus lib d nvcpus)) (\<lambda>r.
     bindS (CHECK_ERROR lib (r = - 1) ''virDomainSetVcpus'') (\<lambda>_. retS Val_unit))))"

definition ocaml_libvirt_domain_pin_vcpu ::
  "('v, 'z) libvirt_dom_scheme \<Rightarrow> mlvalue \<Rightarrow> mlvalue \<Rightarrow> mlvalue \<Rightarrow> ('v lvworld, mlvalue) stub" where
  "ocaml_libvirt_domain_pin_vcpu lib domv vcpuv cpumapv =
     bindS (liftS (Domain_val domv)) (\<lambda>d.
     bindS (liftS (Bytes_val cpumapv)) (\<lambda>cpumap.
     bindS (liftS (Int_val vcpuv)) (\<lambda>vcpu.
     bindS (callV (virDomainPinVcpu lib d vcpu cpumap (of_nat (length cpumap)))) (\<lambda>r.
     bindS (CHECK_ERROR lib (r = - 1) ''virDomainPinVcpu'') (\<lambda>_. retS Val_unit)))))"

text \<open>Signed multiplication; overflow is undefined.\<close>

definition c_mult :: "c_int \<Rightarrow> c_int \<Rightarrow> c_int ml" where
  "c_mult a b = (let p = sint a * sint b in if - (2 ^ 31) \<le> p \<and> p < 2 ^ 31 then Inr (word_of_int p) else undef)"

definition Val_vcpu_info :: "virVcpuInfo \<Rightarrow> mlvalue ml" where
  "Val_vcpu_info info =
     store_fields (caml_alloc 4 0) 0
       [Val_int (uint (vi_number info)), Val_int (sint (vi_state info)), caml_copy_int64 (vi_cpuTime info),
        Val_int (sint (vi_cpu info))]"

definition ocaml_libvirt_domain_get_vcpus ::
  "('v, 'z) libvirt_dom_scheme \<Rightarrow> mlvalue \<Rightarrow> mlvalue \<Rightarrow> mlvalue \<Rightarrow> ('v lvworld, mlvalue) stub" where
  "ocaml_libvirt_domain_get_vcpus lib domv maxinfov maplenv =
     bindS (liftS (Domain_val domv)) (\<lambda>d.
     bindS (liftS (Int_val maxinfov)) (\<lambda>maxinfo.
     bindS (liftS (Int_val maplenv)) (\<lambda>maplen.
     bindS (malloc_or_raise (mallocN maxinfo)) (\<lambda>info_block.
     bindS (liftS (c_mult maxinfo maplen)) (\<lambda>len.
     bindS (bindS (mallocN len) (\<lambda>a. case a of None \<Rightarrow> bindS (freeS info_block) (\<lambda>_. raiseS Out_of_memory) | Some a \<Rightarrow> retS a)) (\<lambda>cpumaps_block.
     bindS (callV (virDomainGetVcpus lib d maxinfo maplen)) (\<lambda>(r, info, cpumaps).
     bindS (CHECK_ERROR_CLEANUP lib (r = - 1) (bindS (freeS info_block) (\<lambda>_. freeS cpumaps_block)) ''virDomainPinVcpu'') (\<lambda>_.
     bindS (liftS (caml_alloc_n maxinfo 0)) (\<lambda>infov.
     bindS (liftS (foreachR (\<lambda>i infov. bindR (bindR (readM info i) Val_vcpu_info) (Store_field infov i)) [0..<unat maxinfo] infov)) (\<lambda>infov.
     bindS (liftS (if unat len \<le> length cpumaps then Inr (VString (take (unat len) cpumaps)) else undef)) (\<lambda>strv.
     bindS (liftS (store_fields (caml_alloc_tuple 3) 0 [Val_int (sint r), infov, strv])) (\<lambda>rv.
     bindS (freeS info_block) (\<lambda>_.
     bindS (freeS cpumaps_block) (\<lambda>_. retS rv))))))))))))))"

subsection \<open>Flags, migration and statistics\<close>

text \<open>The loops over a list of flags: a constant constructor with number \<open>k\<close> adds the \<open>k\<close>-th of the named
  bits, anything else adds nothing.\<close>

definition flag_bit :: "('v, 'z) libvirt_scheme \<Rightarrow> vir_const list \<Rightarrow> mlvalue \<Rightarrow> c_int" where
  "flag_bit lib names v =
     (case v of VInt i \<Rightarrow> if 0 \<le> i \<and> nat i < length names then vc lib (names ! nat i) else 0 | _ \<Rightarrow> 0)"

definition flags_loop :: "('v, 'z) libvirt_scheme \<Rightarrow> vir_const list \<Rightarrow> mlvalue \<Rightarrow> c_int ml" where
  "flags_loop lib names flagsv = ml_iter (\<lambda>v flags. Inr (flags OR flag_bit lib names v)) flagsv 0"

definition ocaml_libvirt_domain_migrate_native ::
  "('v, 'z) libvirt_dom_scheme \<Rightarrow> mlvalue \<Rightarrow> mlvalue \<Rightarrow> mlvalue \<Rightarrow> mlvalue \<Rightarrow> mlvalue \<Rightarrow> mlvalue \<Rightarrow> mlvalue \<Rightarrow> ('v lvworld, mlvalue) stub" where
  "ocaml_libvirt_domain_migrate_native lib domv dconnv flagsv optdnamev opturiv optbandwidthv unitv =
     bindS (liftS (Domain_val domv)) (\<lambda>d.
     bindS (liftS (Connect_val dconnv)) (\<lambda>dconn.
     bindS (liftS (Optstring_val optdnamev)) (\<lambda>dname.
     bindS (liftS (Optstring_val opturiv)) (\<lambda>uri.
     bindS (liftS (flags_loop lib [VIR_MIGRATE_LIVE] flagsv)) (\<lambda>flags.
     bindS (liftS (if optbandwidthv = VInt 0 then Inr 0
                   else bindR (bindR (Field optbandwidthv 0) Int_val) (\<lambda>b. Inr (scast b)))) (\<lambda>bandwidth.
     bindS (callV (virDomainMigrate lib d dconn flags dname uri bandwidth)) (\<lambda>r.
     bindS (CHECK_ERROR lib (r = 0) ''virDomainMigrate'') (\<lambda>_. liftS (Val_domain r dconnv)))))))))"

definition ocaml_libvirt_domain_migrate_bytecode ::
  "('v, 'z) libvirt_dom_scheme \<Rightarrow> mlvalue list \<Rightarrow> c_int \<Rightarrow> ('v lvworld, mlvalue) stub" where
  "ocaml_libvirt_domain_migrate_bytecode lib argv argn =
     (case argv of
        a0 # a1 # a2 # a3 # a4 # a5 # a6 # _ \<Rightarrow> ocaml_libvirt_domain_migrate_native lib a0 a1 a2 a3 a4 a5 a6
      | _ \<Rightarrow> liftS undef)"

definition ocaml_libvirt_domain_block_stats ::
  "('v, 'z) libvirt_dom_scheme \<Rightarrow> mlvalue \<Rightarrow> mlvalue \<Rightarrow> ('v lvworld, mlvalue) stub" where
  "ocaml_libvirt_domain_block_stats lib domv pathv =
     bindS (liftS (Domain_val domv)) (\<lambda>d.
     bindS (liftS (String_val pathv)) (\<lambda>path.
     bindS (callV (virDomainBlockStats lib d path)) (\<lambda>(r, stats).
     bindS (CHECK_ERROR lib (r = - 1) ''virDomainBlockStats'') (\<lambda>_.
       liftS (store_fields (caml_alloc 5 0) 0
         [caml_copy_int64 (rd_req stats), caml_copy_int64 (rd_bytes stats), caml_copy_int64 (wr_req stats),
          caml_copy_int64 (wr_bytes stats), caml_copy_int64 (errs stats)])))))"

definition ocaml_libvirt_domain_interface_stats ::
  "('v, 'z) libvirt_dom_scheme \<Rightarrow> mlvalue \<Rightarrow> mlvalue \<Rightarrow> ('v lvworld, mlvalue) stub" where
  "ocaml_libvirt_domain_interface_stats lib domv pathv =
     bindS (liftS (Domain_val domv)) (\<lambda>d.
     bindS (liftS (String_val pathv)) (\<lambda>path.
     bindS (callV (virDomainInterfaceStats lib d path)) (\<lambda>(r, stats).
     bindS (CHECK_ERROR lib (r = - 1) ''virDomainInterfaceStats'') (\<lambda>_.
       liftS (store_fields (caml_alloc 8 0) 0
         [caml_copy_int64 (rx_bytes stats), caml_copy_int64 (rx_packets stats), caml_copy_int64 (rx_errs stats),
          caml_copy_int64 (rx_drop stats), caml_copy_int64 (tx_bytes stats), caml_copy_int64 (tx_packets stats),
          caml_copy_int64 (tx_errs stats), caml_copy_int64 (tx_drop stats)])))))"

subsection \<open>Peeking\<close>

text \<open>\<open>caml_string_length (bufferv) < boff + size\<close>, computed in \<open>size_t\<close>.\<close>

definition buffer_too_short :: "string \<Rightarrow> c_int \<Rightarrow> size_t \<Rightarrow> bool" where
  "buffer_too_short buf boff n \<longleftrightarrow> of_nat (length buf) < scast boff + n"

text \<open>The library writes its bytes at \<open>buffer + boff\<close>; writing outside the buffer is undefined.\<close>

definition write_at :: "string \<Rightarrow> c_int \<Rightarrow> string \<Rightarrow> string ml" where
  "write_at buf boff bytes =
     (if 0 \<le> sint boff \<and> nat (sint boff) + length bytes \<le> length buf
      then Inr (take (nat (sint boff)) buf @ bytes @ drop (nat (sint boff) + length bytes) buf)
      else undef)"

definition ocaml_libvirt_domain_block_peek_native ::
  "('v, 'z) libvirt_dom_scheme \<Rightarrow> mlvalue \<Rightarrow> mlvalue \<Rightarrow> mlvalue \<Rightarrow> mlvalue \<Rightarrow> mlvalue \<Rightarrow> mlvalue \<Rightarrow> ('v lvworld, mlvalue \<times> mlvalue) stub" where
  "ocaml_libvirt_domain_block_peek_native lib domv pathv offsetv sizev bufferv boffv =
     bindS (liftS (Domain_val domv)) (\<lambda>d.
     bindS (liftS (String_val pathv)) (\<lambda>path.
     bindS (liftS (Int64_val offsetv)) (\<lambda>offset.
     bindS (liftS (Int_val sizev)) (\<lambda>n.
     bindS (liftS (Bytes_val bufferv)) (\<lambda>buffer.
     bindS (liftS (Int_val boffv)) (\<lambda>boff.
       if buffer_too_short buffer boff (scast n) then raiseS (Failure ''virDomainBlockPeek: return buffer too short'')
       else bindS (callV (virDomainBlockPeek lib d path offset (scast n) 0)) (\<lambda>(r, bytes).
            bindS (CHECK_ERROR lib (r = - 1) ''virDomainBlockPeek'') (\<lambda>_.
            bindS (liftS (write_at buffer boff bytes)) (\<lambda>buffer. retS (Val_unit, VString buffer))))))))))"

definition ocaml_libvirt_domain_block_peek_bytecode ::
  "('v, 'z) libvirt_dom_scheme \<Rightarrow> mlvalue list \<Rightarrow> c_int \<Rightarrow> ('v lvworld, mlvalue \<times> mlvalue) stub" where
  "ocaml_libvirt_domain_block_peek_bytecode lib argv argn =
     (case argv of
        a0 # a1 # a2 # a3 # a4 # a5 # _ \<Rightarrow> ocaml_libvirt_domain_block_peek_native lib a0 a1 a2 a3 a4 a5
      | _ \<Rightarrow> liftS undef)"

definition ocaml_libvirt_domain_memory_peek_native ::
  "('v, 'z) libvirt_dom_scheme \<Rightarrow> mlvalue \<Rightarrow> mlvalue \<Rightarrow> mlvalue \<Rightarrow> mlvalue \<Rightarrow> mlvalue \<Rightarrow> mlvalue \<Rightarrow> ('v lvworld, mlvalue \<times> mlvalue) stub" where
  "ocaml_libvirt_domain_memory_peek_native lib domv flagsv offsetv sizev bufferv boffv =
     bindS (liftS (Domain_val domv)) (\<lambda>d.
     bindS (liftS (Int64_val offsetv)) (\<lambda>offset.
     bindS (liftS (Int_val sizev)) (\<lambda>n.
     bindS (liftS (Bytes_val bufferv)) (\<lambda>buffer.
     bindS (liftS (Int_val boffv)) (\<lambda>boff.
       if buffer_too_short buffer boff (scast n) then raiseS (Failure ''virDomainMemoryPeek: return buffer too short'')
       else bindS (liftS (flags_loop lib [VIR_MEMORY_VIRTUAL] flagsv)) (\<lambda>flags.
            bindS (callV (virDomainMemoryPeek lib d offset (scast n) flags)) (\<lambda>(r, bytes).
            bindS (CHECK_ERROR lib (r = - 1) ''virDomainMemoryPeek'') (\<lambda>_.
            bindS (liftS (write_at buffer boff bytes)) (\<lambda>buffer. retS (Val_unit, VString buffer))))))))))"

definition ocaml_libvirt_domain_memory_peek_bytecode ::
  "('v, 'z) libvirt_dom_scheme \<Rightarrow> mlvalue list \<Rightarrow> c_int \<Rightarrow> ('v lvworld, mlvalue \<times> mlvalue) stub" where
  "ocaml_libvirt_domain_memory_peek_bytecode lib argv argn =
     (case argv of
        a0 # a1 # a2 # a3 # a4 # a5 # _ \<Rightarrow> ocaml_libvirt_domain_memory_peek_native lib a0 a1 a2 a3 a4 a5
      | _ \<Rightarrow> liftS undef)"

subsection \<open>The XML description\<close>

definition xml_flags :: "vir_const list" where
  "xml_flags = [VIR_DOMAIN_XML_SECURE, VIR_DOMAIN_XML_INACTIVE, VIR_DOMAIN_XML_UPDATE_CPU, VIR_DOMAIN_XML_MIGRATABLE]"

definition ocaml_libvirt_domain_get_xml_desc_flags ::
  "('v, 'z) libvirt_dom_scheme \<Rightarrow> mlvalue \<Rightarrow> mlvalue \<Rightarrow> ('v lvworld, mlvalue) stub" where
  "ocaml_libvirt_domain_get_xml_desc_flags lib domv flagsv =
     bindS (liftS (Domain_val domv)) (\<lambda>d.
     bindS (liftS (flags_loop lib xml_flags flagsv)) (\<lambda>flags.
     bindS (callV (virDomainGetXMLDesc lib d flags)) (\<lambda>r.
     bindS (CHECK_ERROR lib (r = None) ''virDomainGetXMLDesc'') (\<lambda>_.
       case r of None \<Rightarrow> liftS undef | Some r \<Rightarrow> copy_and_free r))))"

subsection \<open>Scheduler parameters\<close>

fun sched_value_ml :: "sched_value \<Rightarrow> mlvalue" where
  "sched_value_ml (VIR_DOMAIN_SCHED_FIELD_INT i) = VBlock 0 [VInt32 i]"
| "sched_value_ml (VIR_DOMAIN_SCHED_FIELD_UINT i) = VBlock 1 [VInt32 i]"
| "sched_value_ml (VIR_DOMAIN_SCHED_FIELD_LLONG l) = VBlock 2 [VInt64 l]"
| "sched_value_ml (VIR_DOMAIN_SCHED_FIELD_ULLONG l) = VBlock 3 [VInt64 l]"
| "sched_value_ml (VIR_DOMAIN_SCHED_FIELD_DOUBLE d) = VBlock 4 [VDouble d]"
| "sched_value_ml (VIR_DOMAIN_SCHED_FIELD_BOOLEAN b) = VBlock 5 [VInt (sint b)]"
| "sched_value_ml (Other_sched_type t) = Val_unit"

definition sched_ml :: "virSchedParameter \<Rightarrow> mlvalue" where
  "sched_ml p = VBlock 0 [VString (sp_field p), sched_value_ml (sp_value p)]"

definition sched_ok :: "('v, 'z) libvirt_dom_scheme \<Rightarrow> virSchedParameter \<Rightarrow> bool" where
  "sched_ok lib p \<longleftrightarrow> length (sp_field p) < VIR_DOMAIN_SCHED_FIELD_LENGTH lib \<and> CHR 0x00 \<notin> set (sp_field p) \<and>
     (case sp_value p of Other_sched_type t \<Rightarrow> False | _ \<Rightarrow> True)"

lemma Val_int_sint8 [simp]: "Val_int (sint (b :: 8 word)) = VInt (sint b)"
proof (rule Val_int_small)
  have "- (2 ^ 7) \<le> sint b" "sint b < 2 ^ 7" using sint_ge [of b] sint_lt [of b] by simp_all
  then show "- (2 ^ 62) \<le> sint b" "sint b < 2 ^ 62" by simp_all
qed

lemma char_of_bool_value: "ucast (scast (b :: 8 word) :: c_int) = b"
  by (rule bit_word_eqI) (simp add: bit_simps)

lemma Val_sched_value_ok: "sched_ok lib p \<Longrightarrow> Val_sched_value (sp_value p) = Inr (sched_value_ml (sp_value p))"
  by (cases "sp_value p") (auto simp: sched_ok_def sched_block_def caml_alloc_def)

lemma Val_sched_param_ok: "sched_ok lib p \<Longrightarrow> Val_sched_param p = Inr (sched_ml p)"
  by (simp add: Val_sched_param_def Val_sched_value_ok sched_ml_def caml_alloc_def numeral_2_eq_2)

lemma Sched_value_val_ok: "sched_ok lib p \<Longrightarrow> Sched_value_val (sched_value_ml (sp_value p)) = Inr (sp_value p)"
  by (cases "sp_value p") (auto simp: sched_ok_def Sched_value_val_def char_of_bool_value)

lemma Sched_param_val_ok:
  assumes "sched_ok lib p"
  shows "Sched_param_val lib (sched_ml p) = Inr p"
proof -
  have "c_string (sp_field p) = sp_field p" "take (VIR_DOMAIN_SCHED_FIELD_LENGTH lib - 1) (sp_field p) = sp_field p"
    using assms by (auto simp: sched_ok_def)
  with Sched_value_val_ok [OF assms] show ?thesis
    by (simp add: Sched_param_val_def sched_ml_def)
qed

lemma read_params:
  assumes "\<And>p. p \<in> set ps \<Longrightarrow> sched_ok lib p"
  shows "foreachR (\<lambda>i params. bindR (bindR (Field (VBlock 0 (map sched_ml ps)) i) (Sched_param_val lib)) (\<lambda>p. Inr (params @ [p])))
           [0..<length ps] [] = Inr ps"
proof -
  have "foreachR (\<lambda>i params. bindR (bindR (Field (VBlock 0 (map sched_ml ps)) i) (Sched_param_val lib)) (\<lambda>p. Inr (params @ [p])))
           [0..<n] [] = Inr (take n ps)" if "n \<le> length ps" for n
    using that
  proof (induction n)
    case (Suc n)
    moreover have "sched_ok lib (ps ! n)" using assms Suc.prems by simp
    ultimately show ?case by (simp add: Sched_param_val_ok take_Suc_conv_app_nth)
  qed simp
  then show ?thesis by simp
qed

text \<open>C21: scheduler parameters survive the round trip: if libvirt stores the parameters it is given by
  \<open>ocaml_libvirt_domain_set_scheduler_parameters\<close>, then
  \<open>ocaml_libvirt_domain_get_scheduler_parameters\<close> returns the OCaml array that was passed, for every kind
  of value and every name that fits its field; both stubs free their arrays.\<close>

theorem scheduler_parameters_roundtrip:
  assumes "heap_wf (cheap w)" "\<And>n. malloc_ok (cheap w) n" "length ps < 2 ^ 31" "list_all (sched_ok lib) ps"
    and libvirt: "virDomainSetSchedulerParameters lib d ps (vir w) = (r, v)" "r \<noteq> - 1"
      "virDomainGetSchedulerParameters lib d (of_nat (length ps)) v = ((r', of_nat (length ps), ps), v')" "r' \<noteq> - 1"
  shows "\<exists>w1 w2.
    ocaml_libvirt_domain_set_scheduler_parameters lib (VBlock 0 [Val_dom d, connv]) (VBlock 0 (map sched_ml ps)) w = (Inr Val_unit, w1) \<and>
    ocaml_libvirt_domain_get_scheduler_parameters lib (VBlock 0 [Val_dom d, connv]) (VInt (int (length ps))) w1 =
      (Inr (VBlock 0 (map sched_ml ps)), w2) \<and> live (cheap w2) = live (cheap w)"
proof -
  have ok: "\<And>p. p \<in> set ps \<Longrightarrow> sched_ok lib p" using assms(4) by (simp add: list_all_iff)
  obtain a H where m: "malloc (cheap w) = (Some a, H)" "a \<notin> live (cheap w)" "live H = insert a (live (cheap w))"
    "heap_wf H" "\<And>n. malloc_ok H n"
    using malloc_succeeds [OF assms(1,2)] by blast
  let ?H1 = "H\<lparr>live := live H - {a}\<rparr>"
  let ?w1 = "w\<lparr>cheap := ?H1, vir := v\<rparr>"
  have "\<And>n. malloc_ok ?H1 n" using m(5) by simp
  then obtain a2 H2 where m2: "malloc ?H1 = (Some a2, H2)" "a2 \<notin> live ?H1" "live H2 = insert a2 (live ?H1)"
    using malloc_succeeds [OF freed_wf [OF m(4)]] by metis
  have set1: "ocaml_libvirt_domain_set_scheduler_parameters lib (VBlock 0 [Val_dom d, connv]) (VBlock 0 (map sched_ml ps)) w = (Inr Val_unit, ?w1)"
    using m(1-3) libvirt read_params [of ps lib, OF ok]
    by (simp add: ocaml_libvirt_domain_set_scheduler_parameters_def stub_simps)
  have n: "unat (of_nat (length ps) :: c_int) = length ps" "\<not> sint (of_nat (length ps) :: c_int) < 0"
    using assms(3) sint_of_nat_32 [OF assms(3)] by (simp_all add: unat_of_nat)
  have "ocaml_libvirt_domain_get_scheduler_parameters lib (VBlock 0 [Val_dom d, connv]) (VInt (int (length ps))) ?w1 =
      (Inr (VBlock 0 (map sched_ml ps)), ?w1\<lparr>cheap := H2\<lparr>live := live H2 - {a2}\<rparr>, vir := v'\<rparr>)"
    using m2 libvirt array_of_reads [of "length ps" ps Val_sched_param sched_ml 0] Val_sched_param_ok [OF ok]
    by (simp add: ocaml_libvirt_domain_get_scheduler_parameters_def stub_simps mallocN_def caml_alloc_n_def n)
  moreover have "live (H2\<lparr>live := live H2 - {a2}\<rparr>) = live (cheap w)" using m2 m(2,3) by simp
  ultimately show ?thesis using set1 by (intro exI [of _ ?w1] exI conjI) (assumption | simp)+
qed

text \<open>\<open>ocaml_libvirt_domain_get_scheduler_type\<close> stores the C number of parameters itself in the result, not
  its OCaml representation: an odd number \<open>n\<close> arrives as \<open>(n - 1) / 2\<close>, an even one as an invalid pointer.\<close>

theorem get_scheduler_type_raw:
  "fst (ocaml_libvirt_domain_get_scheduler_type lib (VBlock 0 [Val_dom d, connv]) w) =
     (case virDomainGetSchedulerType lib d (vir w) of
        ((None, n), v) \<Rightarrow> raise (virterror_exn lib ''virDomainGetSchedulerType'' v)
      | ((Some s, n), v) \<Rightarrow> if odd (sint n) then Inr (VBlock 0 [VString s, VInt ((sint n - 1) div 2)]) else undef)"
proof -
  have "odd i \<Longrightarrow> i div 2 = (i - 1) div 2" for i :: int by presburger
  then show ?thesis
    by (auto simp: ocaml_libvirt_domain_get_scheduler_type_def stub_simps copy_and_free_def bindS_assoc raw_value_def
        caml_alloc_def numeral_2_eq_2 split: prod.splits option.splits)
qed

subsection \<open>Virtual processors\<close>

definition vcpu_value :: "virVcpuInfo \<Rightarrow> mlvalue" where
  "vcpu_value i = VBlock 0 [VInt (uint (vi_number i)), VInt (sint (vi_state i)), VInt64 (vi_cpuTime i), VInt (sint (vi_cpu i))]"

lemma Val_vcpu_info_eq: "Val_vcpu_info i = Inr (vcpu_value i)"
  by (simp add: Val_vcpu_info_def vcpu_value_def)

text \<open>\<open>ocaml_libvirt_domain_get_vcpus\<close> returns the number libvirt reports, one record per requested
  virtual processor and the bytes of all processor maps, or raises libvirt's error, and frees both
  buffers in either case; but if \<open>maxinfo * maplen\<close> exceeds the largest \<open>int\<close> its size computation
  overflows and the behaviour is undefined.\<close>

theorem get_vcpus_correct:
  assumes "heap_wf (cheap w)" "\<And>n. malloc_ok (cheap w) n" "0 \<le> sint maxinfo" "0 \<le> sint maplen"
    and libvirt: "virDomainGetVcpus lib d maxinfo maplen (vir w) = ((r, info, cpumaps), v)"
      "length info = nat (sint maxinfo)" "length cpumaps = nat (sint maxinfo * sint maplen)"
  shows "if 2 ^ 31 \<le> sint maxinfo * sint maplen
    then fst (ocaml_libvirt_domain_get_vcpus lib (VBlock 0 [Val_dom d, connv]) (VInt (sint maxinfo)) (VInt (sint maplen)) w) = undef
    else \<exists>H. live H = live (cheap w) \<and>
      ocaml_libvirt_domain_get_vcpus lib (VBlock 0 [Val_dom d, connv]) (VInt (sint maxinfo)) (VInt (sint maplen)) w =
        (if r = - 1 then raise (virterror_exn lib ''virDomainPinVcpu'' v)
         else Inr (VBlock 0 [VInt (sint r), VBlock 0 (map vcpu_value info), VString cpumaps]), w\<lparr>cheap := H, vir := v\<rparr>)"
proof -
  obtain a H1 where m1: "malloc (cheap w) = (Some a, H1)" "a \<notin> live (cheap w)" "live H1 = insert a (live (cheap w))"
    "heap_wf H1" "\<And>n. malloc_ok H1 n"
    using malloc_succeeds [OF assms(1,2)] by blast
  obtain b H2 where m2: "malloc H1 = (Some b, H2)" "b \<notin> live H1" "live H2 = insert b (live H1)"
    using malloc_succeeds [OF m1(4,5)] by metis
  have mx: "unat maxinfo = length info"
    using assms(3) libvirt(2) by (simp add: unat_nonneg_32)
  show ?thesis
  proof (cases "2 ^ 31 \<le> sint maxinfo * sint maplen")
    case True
    then show ?thesis
      using m1 assms(3) by (simp add: ocaml_libvirt_domain_get_vcpus_def stub_simps mallocN_def c_mult_def Let_def)
  next
    case False
    let ?p = "sint maxinfo * sint maplen"
    have p: "0 \<le> ?p" "?p < 2 ^ 31" using False assms(3,4) by simp_all
    then have q: "sint (maxinfo * maplen) = ?p" "unat (maxinfo * maplen) = nat ?p"
      using sint_of_int_32 [of ?p] unat_of_int_32 [of ?p] by simp_all
    with p have len: "c_mult maxinfo maplen = Inr (maxinfo * maplen)" "\<not> sint (maxinfo * maplen) < 0"
        "unat (maxinfo * maplen) = length cpumaps"
      using libvirt(3) by (simp_all add: c_mult_def Let_def)
    let ?H = "H2\<lparr>live := live H2 - {a} - {b}\<rparr>"
    have "ocaml_libvirt_domain_get_vcpus lib (VBlock 0 [Val_dom d, connv]) (VInt (sint maxinfo)) (VInt (sint maplen)) w =
        (if r = - 1 then raise (virterror_exn lib ''virDomainPinVcpu'' v)
         else Inr (VBlock 0 [VInt (sint r), VBlock 0 (map vcpu_value info), VString cpumaps]), w\<lparr>cheap := ?H, vir := v\<rparr>)"
    proof (cases "r = - 1")
      case True
      with libvirt(1) m1(2,3) m2(2,3) assms(3) show ?thesis
        by (simp add: ocaml_libvirt_domain_get_vcpus_def stub_simps mallocN_def len m1(1) m2(1) bindS_assoc)
    next
      case False
      have "foreachR (\<lambda>i infov. bindR (bindR (readM info i) Val_vcpu_info) (Store_field infov i)) [0..<length info] (caml_alloc (length info) 0) =
          Inr (VBlock 0 (map vcpu_value info))"
        using array_of_reads [of "length info" info Val_vcpu_info vcpu_value 0] by (simp add: Val_vcpu_info_eq)
      with False libvirt(1) m1(2,3) m2(2,3) assms(3) show ?thesis
        by (simp add: ocaml_libvirt_domain_get_vcpus_def stub_simps mallocN_def caml_alloc_n_def len mx m1(1) m2(1) bindS_assoc)
    qed
    moreover have "live ?H = live (cheap w)" using m1 m2 by auto
    ultimately show ?thesis unfolding if_not_P [OF False] by (intro exI conjI) (assumption | rule refl)+
  qed
qed

subsection \<open>Peeking\<close>






subsection \<open>Flags and the XML description\<close>

lemma flags_loop_bits:
  obtains flags where "flags_loop lib names (ml_list (\<lambda>k. VInt (int k)) ks) = Inr flags"
    "\<And>b. bit flags b \<longleftrightarrow> (\<exists>k. k \<in> set ks \<and> k < length names \<and> bit (vc lib (names ! k)) b)"
proof -
  have "\<exists>flags. foreachR (\<lambda>k flags. Inr (flags OR flag_bit lib names (VInt (int k)))) ks acc = (Inr flags :: c_int ml) \<and>
      (\<forall>b. bit flags b \<longleftrightarrow> bit acc b \<or> (\<exists>k. k \<in> set ks \<and> k < length names \<and> bit (vc lib (names ! k)) b))" for acc
  proof (induction ks arbitrary: acc)
    case (Cons k ks)
    obtain flags where
      "foreachR (\<lambda>k flags. Inr (flags OR flag_bit lib names (VInt (int k)))) ks (acc OR flag_bit lib names (VInt (int k))) = (Inr flags :: c_int ml)"
      "\<forall>b. bit flags b \<longleftrightarrow> bit (acc OR flag_bit lib names (VInt (int k))) b \<or> (\<exists>k. k \<in> set ks \<and> k < length names \<and> bit (vc lib (names ! k)) b)"
      using Cons.IH by blast
    then show ?case by (intro exI [of _ flags]) (auto simp: bit_or_iff flag_bit_def)
  qed simp
  from this [of 0] that show ?thesis by (auto simp: flags_loop_def ml_iter_list)
qed

text \<open>\<open>ocaml_libvirt_domain_get_xml_desc_flags\<close> passes libvirt the union of the bits of the listed flags,
  whatever their order or repetition, and returns the description, freeing libvirt's copy.\<close>

theorem xml_desc_flags_correct:
  assumes "heap_wf (cheap w)"
  shows "\<exists>flags H. (\<forall>b. bit flags b \<longleftrightarrow> (\<exists>k. k \<in> set ks \<and> k < 4 \<and> bit (vc lib (xml_flags ! k)) b)) \<and> live H = live (cheap w) \<and>
     (case virDomainGetXMLDesc lib d flags (vir w) of
        (None, v) \<Rightarrow> ocaml_libvirt_domain_get_xml_desc_flags lib (VBlock 0 [Val_dom d, connv]) (ml_list (\<lambda>k. VInt (int k)) ks) w =
                       (raise (virterror_exn lib ''virDomainGetXMLDesc'' v), w\<lparr>vir := v\<rparr>)
      | (Some xml, v) \<Rightarrow> ocaml_libvirt_domain_get_xml_desc_flags lib (VBlock 0 [Val_dom d, connv]) (ml_list (\<lambda>k. VInt (int k)) ks) w =
                       (Inr (VString xml), w\<lparr>cheap := H, vir := v\<rparr>))"
proof -
  obtain flags where f: "flags_loop lib xml_flags (ml_list (\<lambda>k. VInt (int k)) ks) = Inr flags"
    "\<And>b. bit flags b \<longleftrightarrow> (\<exists>k. k \<in> set ks \<and> k < length xml_flags \<and> bit (vc lib (xml_flags ! k)) b)"
    using flags_loop_bits [of lib xml_flags ks] by blast
  have "length xml_flags = 4" by (simp add: xml_flags_def)
  moreover have "n_allocs (cheap w) \<notin> live (cheap w)" using assms by (auto simp: heap_wf_def)
  ultimately show ?thesis
    using f
    by (intro exI [of _ flags] exI [of _ "(cheap w)\<lparr>n_allocs := Suc (n_allocs (cheap w))\<rparr>"])
       (auto simp: ocaml_libvirt_domain_get_xml_desc_flags_def copy_and_free_def stub_simps split: prod.splits option.splits)
qed

subsection \<open>A leak\<close>

lemma array_of_reads_stops:
  assumes "k < n" "n \<le> length xs" and "\<And>i. i < k \<Longrightarrow> \<exists>y. F (xs ! i) = Inr y" and "F (xs ! k) = Inl e"
  shows "foreachR (\<lambda>i rv. bindR (bindR (readM xs i) F) (Store_field rv i)) [0..<n] (caml_alloc n tag) = Inl e"
proof -
  let ?f = "\<lambda>i rv. bindR (bindR (readM xs i) F) (Store_field rv i)"
  have "\<exists>fs. length fs = n \<and> foreachR ?f [0..<j] (caml_alloc n tag) = Inr (VBlock tag fs)" if "j \<le> k" for j
    using that
  proof (induction j)
    case 0
    then show ?case by (simp add: caml_alloc_def)
  next
    case (Suc j)
    then obtain fs y where "length fs = n" "foreachR ?f [0..<j] (caml_alloc n tag) = Inr (VBlock tag fs)" "F (xs ! j) = Inr y"
      using assms(3) [of j] by auto
    with Suc.prems assms(1,2) show ?case by (intro exI [of _ "fs[j := y]"]) simp
  qed
  then obtain fs where "foreachR ?f [0..<k] (caml_alloc n tag) = Inr (VBlock tag fs)" by blast
  moreover have "[0..<n] = [0..<k] @ k # [Suc k..<n]"
    using assms(1) by (metis less_imp_le_nat upt_add_eq_append upt_conv_Cons le_add_diff_inverse zero_le)
  ultimately show ?thesis using assms by simp
qed

text \<open>If libvirt reports a scheduler parameter of a type the binding does not know, the stub raises
  \<open>Failure\<close> and its array of parameters is never freed.\<close>

theorem scheduler_parameters_leak:
  assumes "heap_wf (cheap w)" "\<And>n. malloc_ok (cheap w) n" "0 \<le> sint n"
    and libvirt: "virDomainGetSchedulerParameters lib d n (vir w) = ((r, of_nat (length ps), ps), v)" "r \<noteq> - 1" "length ps < 2 ^ 31"
      "ps = good @ \<lparr>sp_field = f, sp_value = Other_sched_type t\<rparr> # rest" "list_all (sched_ok lib) good"
  shows "\<exists>a H. ocaml_libvirt_domain_get_scheduler_parameters lib (VBlock 0 [Val_dom d, connv]) (VInt (sint n)) w =
      (raise (Failure ''ocaml_libvirt_domain_get_scheduler_parameters''), w\<lparr>cheap := H, vir := v\<rparr>) \<and>
    a \<notin> live (cheap w) \<and> live H = insert a (live (cheap w))"
proof -
  obtain a H where m: "malloc (cheap w) = (Some a, H)" "a \<notin> live (cheap w)" "live H = insert a (live (cheap w))"
    using malloc_succeeds [OF assms(1,2)] by metis
  have k: "unat (of_nat (length ps) :: c_int) = length ps" "\<not> sint (of_nat (length ps) :: c_int) < 0"
    using libvirt(3) sint_of_nat_32 [OF libvirt(3)] by (simp_all add: unat_of_nat)
  have "\<exists>y. Val_sched_param (ps ! i) = Inr y" if "i < length good" for i
    using that libvirt(5) Val_sched_param_ok [of lib "good ! i"] by (auto simp: libvirt(4) nth_append list_all_length)
  moreover have "Val_sched_param (ps ! length good) = raise (Failure ''ocaml_libvirt_domain_get_scheduler_parameters'')"
    by (simp add: libvirt(4) Val_sched_param_def caml_alloc_def numeral_2_eq_2)
  ultimately have "foreachR (\<lambda>i rv. bindR (bindR (readM ps i) Val_sched_param) (Store_field rv i)) [0..<length ps] (caml_alloc (length ps) 0) =
      raise (Failure ''ocaml_libvirt_domain_get_scheduler_parameters'')"
    unfolding raise_def by (intro array_of_reads_stops [of "length good"]) (auto simp: libvirt(4))
  then have "ocaml_libvirt_domain_get_scheduler_parameters lib (VBlock 0 [Val_dom d, connv]) (VInt (sint n)) w =
      (raise (Failure ''ocaml_libvirt_domain_get_scheduler_parameters''), w\<lparr>cheap := H, vir := v\<rparr>)"
    using m(1) assms(3) libvirt(1,2)
    by (simp add: ocaml_libvirt_domain_get_scheduler_parameters_def stub_simps mallocN_def caml_alloc_n_def k)
       (simp add: raise_def stub_simps)
  with m show ?thesis by blast
qed

subsection \<open>Witnesses\<close>

definition demo_dom :: "virSchedParameter list libvirt_dom" where
  "demo_dom = \<lparr>vc = (\<lambda>_. 1), virGetLastError = (\<lambda>v. None), virConnectClose = (\<lambda>p v. v), virDomainFree = (\<lambda>p v. v),
     virNetworkFree = (\<lambda>p v. v), virStoragePoolFree = (\<lambda>p v. v), virStorageVolFree = (\<lambda>p v. v), virSecretFree = (\<lambda>p v. v),
     VIR_DOMAIN_SCHED_FIELD_LENGTH = 80, virDomainGetID = (\<lambda>d v. (3, v)), virDomainGetMaxMemory = (\<lambda>d v. (1024, v)),
     virDomainSetMaxMemory = (\<lambda>d m v. (0, v)), virDomainSetMemory = (\<lambda>d m v. (0, v)),
     virDomainGetInfo = (\<lambda>d v. ((- 1, \<lparr>di_state = 0, di_maxMem = 0, di_memory = 0, di_nrVirtCpu = 0, di_cpuTime = 0\<rparr>), v)),
     virDomainGetSchedulerType = (\<lambda>d v. ((Some ''credit'', 2), v)),
     virDomainGetSchedulerParameters = (\<lambda>d n v. ((0, of_nat (length v), v), v)),
     virDomainSetSchedulerParameters = (\<lambda>d ps v. (0, ps)), virDomainSetVcpus = (\<lambda>d n v. (0, v)),
     virDomainPinVcpu = (\<lambda>d i m n v. (0, v)),
     virDomainGetVcpus = (\<lambda>d m l v. ((1, [\<lparr>vi_number = 0, vi_state = 1, vi_cpuTime = 99, vi_cpu = 2\<rparr>], [CHR 0x01]), v)),
     virDomainMigrate = (\<lambda>d c f n u b v. (0, v)),
     virDomainBlockStats = (\<lambda>d p v. ((0, \<lparr>rd_req = 1, rd_bytes = 2, wr_req = 3, wr_bytes = 4, errs = 5\<rparr>), v)),
     virDomainInterfaceStats = (\<lambda>d p v. ((0, \<lparr>rx_bytes = 1, rx_packets = 2, rx_errs = 3, rx_drop = 4, tx_bytes = 5, tx_packets = 6, tx_errs = 7, tx_drop = 8\<rparr>), v)),
     virDomainBlockPeek = (\<lambda>d p off n f v. ((0, ''xy''), v)), virDomainMemoryPeek = (\<lambda>d off n f v. ((0, ''zw''), v)),
     virDomainGetXMLDesc = (\<lambda>d f v. (Some ''<domain/>'', v))\<rparr>"

definition demo_params :: "virSchedParameter list" where
  "demo_params = [\<lparr>sp_field = ''weight'', sp_value = VIR_DOMAIN_SCHED_FIELD_UINT 256\<rparr>,
     \<lparr>sp_field = ''cap'', sp_value = VIR_DOMAIN_SCHED_FIELD_BOOLEAN 1\<rparr>]"

definition demo_dworld :: "virSchedParameter list lvworld" where
  "demo_dworld = \<lparr>vir = [\<lparr>sp_field = ''x'', sp_value = Other_sched_type 42\<rparr>], cheap = demo_heap0, cells = (\<lambda>_. 0)\<rparr>"

lemma demo_dwf: "heap_wf (cheap demo_dworld)" "malloc_ok (cheap demo_dworld) n"
  by (simp_all add: demo_dworld_def demo_heap0_def heap_wf_def)

theorem scheduler_parameters_roundtrip_witness:
  "\<exists>w1 w2.
    ocaml_libvirt_domain_set_scheduler_parameters demo_dom (VBlock 0 [Val_dom 5, Val_connect 7]) (VBlock 0 (map sched_ml demo_params)) demo_dworld = (Inr Val_unit, w1) \<and>
    ocaml_libvirt_domain_get_scheduler_parameters demo_dom (VBlock 0 [Val_dom 5, Val_connect 7]) (VInt (int (length demo_params))) w1 =
      (Inr (VBlock 0 (map sched_ml demo_params)), w2) \<and> live (cheap w2) = live (cheap demo_dworld)"
  by (rule scheduler_parameters_roundtrip [OF demo_dwf, where r = 0 and r' = 0 and v = demo_params and v' = demo_params])
     (simp_all add: demo_params_def demo_dom_def sched_ok_def)

theorem scheduler_parameters_leak_witness:
  "\<exists>a H. ocaml_libvirt_domain_get_scheduler_parameters demo_dom (VBlock 0 [Val_dom 5, Val_connect 7]) (VInt (sint (1 :: c_int))) demo_dworld =
      (raise (Failure ''ocaml_libvirt_domain_get_scheduler_parameters''), demo_dworld\<lparr>cheap := H, vir := vir demo_dworld\<rparr>) \<and>
    a \<notin> live (cheap demo_dworld) \<and> live H = insert a (live (cheap demo_dworld))"
  by (rule scheduler_parameters_leak [OF demo_dwf, where r = 0 and good = "[]" and rest = "[]" and ps = "vir demo_dworld"])
     (simp_all add: demo_dom_def demo_dworld_def)

theorem get_vcpus_correct_witness:
  "\<exists>H. live H = live (cheap demo_dworld) \<and>
      ocaml_libvirt_domain_get_vcpus demo_dom (VBlock 0 [Val_dom 5, Val_connect 7]) (VInt (sint (1 :: c_int))) (VInt (sint (1 :: c_int))) demo_dworld =
        (Inr (VBlock 0 [VInt (sint (1 :: c_int)), VBlock 0 (map vcpu_value [\<lparr>vi_number = 0, vi_state = 1, vi_cpuTime = 99, vi_cpu = 2\<rparr>]), VString [CHR 0x01]]),
         demo_dworld\<lparr>cheap := H, vir := vir demo_dworld\<rparr>)"
proof -
  have "virDomainGetVcpus demo_dom 5 1 1 (vir demo_dworld) =
      ((1, [\<lparr>vi_number = 0, vi_state = 1, vi_cpuTime = 99, vi_cpu = 2\<rparr>], [CHR 0x01]), vir demo_dworld)"
    by (simp add: demo_dom_def)
  from get_vcpus_correct [OF demo_dwf _ _ this] show ?thesis by simp
qed


theorem xml_desc_flags_correct_witness:
  "\<exists>flags H. (\<forall>b. bit flags b \<longleftrightarrow> (\<exists>k. k \<in> {0, 3} \<and> k < 4 \<and> bit (vc demo_dom (xml_flags ! k)) b)) \<and> live H = live (cheap demo_dworld) \<and>
     (case virDomainGetXMLDesc demo_dom 5 flags (vir demo_dworld) of
        (None, v) \<Rightarrow> False
      | (Some xml, v) \<Rightarrow> ocaml_libvirt_domain_get_xml_desc_flags demo_dom (VBlock 0 [Val_dom 5, Val_connect 7]) (ml_list (\<lambda>k. VInt (int k)) [0, 3]) demo_dworld =
                       (Inr (VString ''<domain/>''), demo_dworld\<lparr>cheap := H, vir := v\<rparr>))"
  using xml_desc_flags_correct [OF demo_dwf(1), of "[0, 3]" demo_dom 5 "Val_connect 7"]
  by (simp add: demo_dom_def)

end
