(* ===== verification/LibvirtStats.thy ===== *)
theory LibvirtStats
  imports LibvirtDomain
begin

section \<open>The libvirt binding: typed parameters and statistics (libvirt_c_oneoffs.c)\<close>

text \<open>
  The two stubs that translate arrays of typed parameters: the statistics of the processors of a domain,
  which are fetched in chunks of at most 128 processors, and the statistics of all domains. A typed
  parameter is a tagged union; type 0 marks an entry that libvirt has not set. The blocks of the string
  parameters that libvirt allocates are tracked (\<open>recv_strings\<close>).
\<close>

subsection \<open>Data\<close>

datatype typed_value =
    Typed_unset
  | VIR_TYPED_PARAM_INT c_int
  | VIR_TYPED_PARAM_UINT c_int
  | VIR_TYPED_PARAM_LLONG "64 word"
  | VIR_TYPED_PARAM_ULLONG "64 word"
  | VIR_TYPED_PARAM_DOUBLE "64 word"
  | VIR_TYPED_PARAM_BOOLEAN "8 word"
  | VIR_TYPED_PARAM_STRING string
  | Other_typed_param c_int

record virTypedParameter =
  tp_field :: string
  tp_value :: typed_value

record virDomainStatsRecord =
  ds_dom :: ptr
  ds_params :: "virTypedParameter list"

record 'v libvirt_stats = "'v libvirt" +
  virDomainGetCPUStats :: "ptr \<Rightarrow> bool \<Rightarrow> c_int \<Rightarrow> c_int \<Rightarrow> c_int \<Rightarrow> c_int \<Rightarrow> 'v \<Rightarrow> (c_int \<times> virTypedParameter list) \<times> 'v"
  virConnectGetAllDomainStats :: "ptr \<Rightarrow> c_int \<Rightarrow> c_int \<Rightarrow> 'v \<Rightarrow> (c_int \<times> virDomainStatsRecord list) \<times> 'v"
  virDomainGetUUID :: "ptr \<Rightarrow> 'v \<Rightarrow> string \<times> 'v"

text \<open>The switch on the type: the tag of the OCaml constructor and its argument; \<open>None\<close> is the default
  branch.\<close>

fun typed_switch :: "typed_value \<Rightarrow> (nat \<times> mlvalue) option" where
  "typed_switch (VIR_TYPED_PARAM_INT i) = Some (0, VInt32 i)"
| "typed_switch (VIR_TYPED_PARAM_UINT i) = Some (1, VInt32 i)"
| "typed_switch (VIR_TYPED_PARAM_LLONG l) = Some (2, VInt64 l)"
| "typed_switch (VIR_TYPED_PARAM_ULLONG l) = Some (3, VInt64 l)"
| "typed_switch (VIR_TYPED_PARAM_DOUBLE d) = Some (4, VDouble d)"
| "typed_switch (VIR_TYPED_PARAM_BOOLEAN b) = Some (5, Val_bool (b \<noteq> 0))"
| "typed_switch (VIR_TYPED_PARAM_STRING s) = Some (6, caml_copy_string s)"
| "typed_switch _ = None"

definition Val_typed_param :: "string \<Rightarrow> nat \<times> mlvalue \<Rightarrow> mlvalue ml" where
  "Val_typed_param field = (\<lambda>(tag, v).
     bindR (Store_field (caml_alloc 1 tag) 0 v) (\<lambda>tv. store_fields (caml_alloc 2 0) 0 [caml_copy_string field, tv]))"

text \<open>The blocks of the string values that a call has stored into the array.\<close>

definition is_string :: "virTypedParameter \<Rightarrow> bool" where
  "is_string p \<longleftrightarrow> (case tp_value p of VIR_TYPED_PARAM_STRING s \<Rightarrow> True | _ \<Rightarrow> False)"

definition recv_string :: "virTypedParameter \<Rightarrow> nat option list \<Rightarrow> ('v lvworld, nat option list) stub" where
  "recv_string p blocks = (if is_string p then bindS recvS (\<lambda>a. retS (blocks @ [Some a])) else retS (blocks @ [None]))"

definition recv_strings :: "virTypedParameter list \<Rightarrow> ('v lvworld, nat option list) stub" where
  "recv_strings params = foreachS recv_string params []"

subsection \<open>Statistics of the processors\<close>

text \<open>The indices are computed in \<open>int\<close>: an index that is too big is undefined behaviour.\<close>

definition int_expr :: "int \<Rightarrow> int ml" where
  "int_expr x = (if - (2 ^ 31) \<le> x \<and> x < 2 ^ 31 then Inr x else undef)"

lemma int_expr_nat: "n < 2 ^ 31 \<Longrightarrow> int_expr (int n) = Inr (int n)"
  by (simp add: int_expr_def)

text \<open>What the call of libvirt has stored into the buffer, which has room for \<open>params_size\<close> parameters; a
  write past its end is undefined behaviour.\<close>

definition stored_params :: "nat \<Rightarrow> virTypedParameter list \<Rightarrow> virTypedParameter list ml" where
  "stored_params params_size params = (if length params \<le> params_size then Inr params else undef)"

text \<open>One parameter, at \<open>pos = i * nparams + j\<close>: consed onto the list, its string freed.\<close>

definition cpu_stats_param ::
  "nat \<Rightarrow> virTypedParameter list \<Rightarrow> nat option list \<Rightarrow> nat \<Rightarrow> nat \<Rightarrow> nat \<Rightarrow> mlvalue \<Rightarrow> ('v lvworld, mlvalue) stub" where
  "cpu_stats_param params_block params blocks nparams i j param_head =
     bindS (liftS (bindR (int_expr (int i * int nparams)) (\<lambda>x. bindR (int_expr (x + int j)) (\<lambda>y. Inr (nat y))))) (\<lambda>pos.
     bindS (liftS (readM params pos)) (\<lambda>p.
       if tp_value p = Typed_unset then retS param_head
       else case typed_switch (tp_value p) of
              None \<Rightarrow> bindS (freeS params_block) (\<lambda>_.
                        raiseS (Failure ''virDomainGetCPUStats: unknown parameter type returned''))
            | Some x \<Rightarrow>
                bindS (free_opt (if pos < length blocks then blocks ! pos else None)) (\<lambda>_.
                  liftS (bindR (Val_typed_param (tp_field p) x) (\<lambda>tp. cons_cell tp param_head)))))"

definition cpu_stats_cpu ::
  "nat \<Rightarrow> virTypedParameter list \<Rightarrow> nat option list \<Rightarrow> nat \<Rightarrow> nat \<Rightarrow> nat \<Rightarrow> nat \<Rightarrow> mlvalue \<Rightarrow> ('v lvworld, mlvalue) stub" where
  "cpu_stats_cpu params_block params blocks nparams r cpu i cpustats =
     bindS (liftS (bindR (int_expr (int i * int nparams)) (\<lambda>x. readM params (nat x)))) (\<lambda>p.
     bindS (if tp_value p = Typed_unset then retS Val_emptylist
            else foreachS (cpu_stats_param params_block params blocks nparams i) (rev [0..<r]) Val_emptylist) (\<lambda>param_head.
       liftS (Store_field cpustats (cpu + i) param_head)))"

text \<open>The loop over the chunks. The numbers of processors stay below the \<open>nr_pcpus\<close> that libvirt returned as an
  \<open>int\<close>, so that these cannot overflow.\<close>

function cpu_stats_loop ::
  "('v, 'z) libvirt_stats_scheme \<Rightarrow> ptr \<Rightarrow> nat \<Rightarrow> nat \<Rightarrow> c_int \<Rightarrow> nat \<Rightarrow> nat \<Rightarrow> mlvalue \<Rightarrow> ('v lvworld, mlvalue) stub" where
  "cpu_stats_loop lib d params_block params_size nparams nr_pcpus cpu cpustats =
     (if cpu < nr_pcpus
      then let ncpus = (if nr_pcpus - cpu > 128 then 128 else nr_pcpus - cpu)
           in bindS (callV (virDomainGetCPUStats lib d True nparams (of_nat cpu) (of_nat ncpus) 0)) (\<lambda>(r, params).
              bindS (liftS (stored_params params_size params)) (\<lambda>params.
              bindS (CHECK_ERROR lib (sint r < 0) ''virDomainGetCPUStats'') (\<lambda>_.
              bindS (recv_strings params) (\<lambda>blocks.
              bindS (foreachS (cpu_stats_cpu params_block params blocks (unat nparams) (unat r) cpu) [0..<ncpus] cpustats) (\<lambda>cpustats.
                cpu_stats_loop lib d params_block params_size nparams nr_pcpus (cpu + ncpus) cpustats)))))
      else retS cpustats)"
  by pat_completeness auto
termination
  by (relation "measure (\<lambda>(lib, d, b, m, n, nr, cpu, v). nr - cpu)") auto

declare cpu_stats_loop.simps [simp del]

definition ocaml_libvirt_domain_get_cpu_stats :: "('v, 'z) libvirt_stats_scheme \<Rightarrow> mlvalue \<Rightarrow> ('v lvworld, mlvalue) stub" where
  "ocaml_libvirt_domain_get_cpu_stats lib domv =
     bindS (liftS (Domain_val domv)) (\<lambda>d.
     bindS (callV (virDomainGetCPUStats lib d False 0 0 0 0)) (\<lambda>(nr_pcpus, _).
     bindS (CHECK_ERROR lib (sint nr_pcpus < 0) ''virDomainGetCPUStats'') (\<lambda>_.
     bindS (callV (virDomainGetCPUStats lib d False 0 0 1 0)) (\<lambda>(nparams, _).
     bindS (CHECK_ERROR lib (sint nparams < 0) ''virDomainGetCPUStats'') (\<lambda>_.
     bindS (malloc_or_raise mallocS) (\<lambda>params_block.
     bindS (liftS (caml_alloc_n nr_pcpus 0)) (\<lambda>cpustats.
     bindS (cpu_stats_loop lib d params_block (unat nparams * 128) nparams (unat nr_pcpus) 0 cpustats) (\<lambda>cpustats.
     bindS (freeS params_block) (\<lambda>_. retS cpustats)))))))))"

subsection \<open>Statistics of all domains\<close>

definition stats_flags :: "vir_const list" where
  "stats_flags = [VIR_DOMAIN_STATS_STATE, VIR_DOMAIN_STATS_CPU_TOTAL, VIR_DOMAIN_STATS_BALLOON, VIR_DOMAIN_STATS_VCPU,
     VIR_DOMAIN_STATS_INTERFACE, VIR_DOMAIN_STATS_BLOCK, VIR_DOMAIN_STATS_PERF]"

definition all_domains_flags :: "vir_const list" where
  "all_domains_flags = [VIR_CONNECT_GET_ALL_DOMAINS_STATS_ACTIVE, VIR_CONNECT_GET_ALL_DOMAINS_STATS_INACTIVE,
     VIR_CONNECT_GET_ALL_DOMAINS_STATS_OTHER, VIR_CONNECT_GET_ALL_DOMAINS_STATS_PAUSED,
     VIR_CONNECT_GET_ALL_DOMAINS_STATS_PERSISTENT, VIR_CONNECT_GET_ALL_DOMAINS_STATS_RUNNING,
     VIR_CONNECT_GET_ALL_DOMAINS_STATS_SHUTOFF, VIR_CONNECT_GET_ALL_DOMAINS_STATS_TRANSIENT,
     VIR_CONNECT_GET_ALL_DOMAINS_STATS_BACKING, VIR_CONNECT_GET_ALL_DOMAINS_STATS_ENFORCE_STATS]"

text \<open>One parameter of one domain; in the default branch the list of records is freed first.\<close>

definition domain_stats_param :: "nat \<Rightarrow> virTypedParameter list \<Rightarrow> nat \<Rightarrow> mlvalue \<Rightarrow> ('v lvworld, mlvalue) stub" where
  "domain_stats_param rstats_block params j tpv =
     bindS (liftS (readM params j)) (\<lambda>p.
       case typed_switch (tp_value p) of
         None \<Rightarrow> bindS (freeS rstats_block) (\<lambda>_.
                   raiseS (Failure ''virConnectGetAllDomainStats: unknown parameter type returned''))
       | Some x \<Rightarrow> liftS (bindR (Val_typed_param (tp_field p) x) (Store_field tpv j)))"

definition domain_stats_record ::
  "('v, 'z) libvirt_stats_scheme \<Rightarrow> nat \<Rightarrow> virDomainStatsRecord list \<Rightarrow> nat \<Rightarrow> mlvalue \<Rightarrow> ('v lvworld, mlvalue) stub" where
  "domain_stats_record lib rstats_block rstats i rv =
     bindS (liftS (readM rstats i)) (\<lambda>rec.
     bindS (callV (virDomainGetUUID lib (ds_dom rec))) (\<lambda>uuid.
     bindS (liftS (Store_field (caml_alloc 2 0) 0 (VString uuid))) (\<lambda>dsv.
     bindS (foreachS (domain_stats_param rstats_block (ds_params rec)) [0..<length (ds_params rec)]
              (caml_alloc (length (ds_params rec)) 0)) (\<lambda>tpv.
       liftS (bindR (Store_field dsv 1 tpv) (Store_field rv i))))))"

definition ocaml_libvirt_domain_get_all_domain_stats ::
  "('v, 'z) libvirt_stats_scheme \<Rightarrow> mlvalue \<Rightarrow> mlvalue \<Rightarrow> mlvalue \<Rightarrow> ('v lvworld, mlvalue) stub" where
  "ocaml_libvirt_domain_get_all_domain_stats lib connv statsv flagsv =
     bindS (liftS (Connect_val connv)) (\<lambda>conn.
     bindS (liftS (flags_loop lib stats_flags statsv)) (\<lambda>stats.
     bindS (liftS (flags_loop lib all_domains_flags flagsv)) (\<lambda>flags.
     bindS (callV (virConnectGetAllDomainStats lib conn stats flags)) (\<lambda>(r, rstats).
     bindS (CHECK_ERROR lib (r = - 1) ''virConnectGetAllDomainStats'') (\<lambda>_.
     bindS recvS (\<lambda>rstats_block.
     bindS (liftS (caml_alloc_n r 0)) (\<lambda>rv.
     bindS (foreachS (domain_stats_record lib rstats_block rstats) [0..<unat r] rv) (\<lambda>rv.
     bindS (freeS rstats_block) (\<lambda>_. retS rv)))))))))"

subsection \<open>Typed parameters\<close>

text \<open>A typed parameter as OCaml sees it: the pair of the name and a value of \<open>typed_param_value\<close>, whose constructors are numbered
  in the order of \<open>libvirt.ml\<close>. The other types have no constructor.\<close>

definition typed_value_ml :: "typed_value \<Rightarrow> mlvalue" where
  "typed_value_ml v =
     (case v of
        VIR_TYPED_PARAM_INT i \<Rightarrow> VBlock 0 [VInt32 i]
      | VIR_TYPED_PARAM_UINT i \<Rightarrow> VBlock 1 [VInt32 i]
      | VIR_TYPED_PARAM_LLONG l \<Rightarrow> VBlock 2 [VInt64 l]
      | VIR_TYPED_PARAM_ULLONG l \<Rightarrow> VBlock 3 [VInt64 l]
      | VIR_TYPED_PARAM_DOUBLE d \<Rightarrow> VBlock 4 [VDouble d]
      | VIR_TYPED_PARAM_BOOLEAN b \<Rightarrow> VBlock 5 [VInt (if b = 0 then 0 else 1)]
      | VIR_TYPED_PARAM_STRING s \<Rightarrow> VBlock 6 [VString s]
      | _ \<Rightarrow> Val_unit)"

definition typed_ml :: "virTypedParameter \<Rightarrow> mlvalue" where
  "typed_ml p = VBlock 0 [VString (tp_field p), typed_value_ml (tp_value p)]"

definition typed_known :: "virTypedParameter \<Rightarrow> bool" where
  "typed_known p \<longleftrightarrow> tp_value p \<noteq> Typed_unset \<and> (\<forall>n. tp_value p \<noteq> Other_typed_param n)"

lemma typed_known_switch: "typed_known p \<longleftrightarrow> typed_switch (tp_value p) \<noteq> None"
  by (cases "tp_value p") (simp_all add: typed_known_def)

definition unset :: "virTypedParameter \<Rightarrow> bool" where
  "unset p \<longleftrightarrow> tp_value p = Typed_unset"

lemma Val_typed_param_eq:
  "typed_switch (tp_value p) = Some x \<Longrightarrow> Val_typed_param (tp_field p) x = Inr (typed_ml p)"
  by (cases "tp_value p")
     (auto simp: Val_typed_param_def typed_ml_def typed_value_ml_def caml_alloc_def [of "Suc 0"] Val_bool_def)

text \<open>The blocks of the strings: one for each string parameter, all different and new.\<close>

definition block_list :: "nat option list \<Rightarrow> nat list" where
  "block_list blocks = concat (map (\<lambda>b. case b of None \<Rightarrow> [] | Some a \<Rightarrow> [a]) blocks)"

lemma recv_strings_run:
  assumes "heap_wf (cheap w)"
  shows "\<exists>bs H. foreachS recv_string params pre w = (Inr (pre @ bs), w\<lparr>cheap := H\<rparr>) \<and>
    list_all2 (\<lambda>p b. is_string p \<longleftrightarrow> b \<noteq> None) params bs \<and> distinct (block_list bs) \<and>
    set (block_list bs) \<inter> live (cheap w) = {} \<and> live H = live (cheap w) \<union> set (block_list bs) \<and> heap_wf H"
  using assms
proof (induction params arbitrary: pre w)
  case Nil
  then show ?case
    by (intro exI [of _ "[]"] exI [of _ "cheap w"]) (simp add: stub_simps block_list_def)
next
  case (Cons p params)
  show ?case
  proof (cases "is_string p")
    case True
    let ?a = "n_allocs (cheap w)"
    let ?w = "w\<lparr>cheap := (cheap w)\<lparr>n_allocs := Suc ?a, live := insert ?a (live (cheap w))\<rparr>\<rparr>"
    have new: "?a \<notin> live (cheap w)" and "heap_wf (cheap ?w)" using Cons.prems by (auto simp: heap_wf_def less_Suc_eq)
    from Cons.IH [OF this(2), of "pre @ [Some ?a]"] obtain bs H where
      "foreachS recv_string params (pre @ [Some ?a]) ?w = (Inr (pre @ Some ?a # bs), w\<lparr>cheap := H\<rparr>)"
      "list_all2 (\<lambda>p b. is_string p \<longleftrightarrow> b \<noteq> None) params bs" "distinct (block_list bs)"
      "set (block_list bs) \<inter> insert ?a (live (cheap w)) = {}" "live H = insert ?a (live (cheap w)) \<union> set (block_list bs)" "heap_wf H"
      by auto
    then show ?thesis
      using True new by (intro exI [of _ "Some ?a # bs"] exI [of _ H])
        (auto simp: recv_string_def [of p] stub_simps bindS_assoc block_list_def)
  next
    case False
    obtain bs H where
      "foreachS recv_string params (pre @ [None]) w = (Inr (pre @ None # bs), w\<lparr>cheap := H\<rparr>)"
      "list_all2 (\<lambda>p b. is_string p \<longleftrightarrow> b \<noteq> None) params bs" "distinct (block_list bs)"
      "set (block_list bs) \<inter> live (cheap w) = {}" "live H = live (cheap w) \<union> set (block_list bs)" "heap_wf H"
      using Cons.IH [OF Cons.prems, of "pre @ [None]"] by auto
    then show ?thesis
      using False by (intro exI [of _ "None # bs"] exI [of _ H]) (auto simp: recv_string_def [of p] stub_simps block_list_def)
  qed
qed

lemma disjoint_diff_subset: "A \<subseteq> L \<Longrightarrow> B \<inter> A = {} \<Longrightarrow> A \<subseteq> L - B"
  by blast

text \<open>The parameters of one processor, from the last to the first: the strings among them are freed.\<close>

definition cpu_value :: "virTypedParameter list \<Rightarrow> mlvalue" where
  "cpu_value ps = ml_list typed_ml (filter (\<lambda>p. \<not> unset p) ps)"

definition freed :: "nat option list \<Rightarrow> heap \<Rightarrow> heap" where
  "freed bs H = H\<lparr>live := live H - set (block_list bs)\<rparr>"

lemma block_list_append: "block_list (as @ bs) = block_list as @ block_list bs"
  by (simp add: block_list_def)

lemma freed_append: "freed (as @ bs) H = freed bs (freed as H)"
  by (simp add: freed_def block_list_append Diff_Un Diff_Int_distrib set_diff_eq conj_ac)

lemma cpu_stats_param_run:
  assumes "pos < length params" "length blocks = length params" "unset (params ! pos) \<or> typed_known (params ! pos)"
    and "is_string (params ! pos) \<longleftrightarrow> blocks ! pos \<noteq> None" "set (block_list [blocks ! pos]) \<subseteq> live (cheap w)"
    and "pos = i * np + j" "length params \<le> 2 ^ 31"
  shows "cpu_stats_param b params blocks np i j acc w =
    (Inr (if unset (params ! pos) then acc else VBlock 0 [typed_ml (params ! pos), acc]),
     w\<lparr>cheap := freed [blocks ! pos] (cheap w)\<rparr>)"
proof -
  have "i * np < 2 ^ 31" "pos < 2 ^ 31" using assms(1,6,7) by simp_all
  from int_expr_nat [OF this(1)] int_expr_nat [OF this(2)]
  have idx: "bindR (int_expr (int i * int np)) (\<lambda>x. bindR (int_expr (x + int j)) (\<lambda>y. Inr (nat y))) = Inr pos"
    by (simp add: assms(6) nat_add_distrib nat_mult_distrib)
  show ?thesis
  proof (cases "unset (params ! pos)")
    case True
    then have "blocks ! pos = None" using assms(4) by (auto simp: unset_def is_string_def)
    with True assms(1) show ?thesis by (simp add: cpu_stats_param_def idx stub_simps unset_def freed_def block_list_def)
  next
    case False
    then obtain x where x: "typed_switch (tp_value (params ! pos)) = Some x" using assms(3) by (auto simp: typed_known_switch)
    have sub: "set_option (blocks ! pos) \<subseteq> live (cheap w)" "set_option (blocks ! pos) = set (block_list [blocks ! pos])"
      using assms(5) by (auto simp: block_list_def split: option.splits)
    show ?thesis
      using False assms(1,2) x
      by (simp add: cpu_stats_param_def idx stub_simps unset_def Val_typed_param_eq [OF x] freed_def free_opt_run [OF sub(1)] sub(2))
  qed
qed

lemma cpu_params_run:
  assumes "length as = length xs" "length cs = length ys" "list_all (\<lambda>p. unset p \<or> typed_known p) ps"
    and "list_all2 (\<lambda>p b. is_string p \<longleftrightarrow> b \<noteq> None) ps bs" "distinct (block_list bs)" "set (block_list bs) \<subseteq> live (cheap w)"
    and "length xs = i * np" "length (xs @ ps @ ys) \<le> 2 ^ 31"
  shows "foreachS (cpu_stats_param b (xs @ ps @ ys) (as @ bs @ cs) np i) (rev [0..<length ps]) (ml_list typed_ml acc) w =
    (Inr (ml_list typed_ml (filter (\<lambda>p. \<not> unset p) ps @ acc)), w\<lparr>cheap := freed bs (cheap w)\<rparr>)"
  using assms
proof (induction ps arbitrary: acc w bs ys cs rule: rev_induct)
  case Nil
  then show ?case by (simp add: stub_simps freed_def block_list_def)
next
  case (snoc p ps)
  then obtain bs' c where bs: "bs = bs' @ [c]" "list_all2 (\<lambda>p b. is_string p \<longleftrightarrow> b \<noteq> None) ps bs'" "is_string p \<longleftrightarrow> c \<noteq> None"
    by (auto simp: list_all2_append1 list_all2_Cons1)
  note len = list_all2_lengthD [OF bs(2)]
  let ?P = "xs @ ps @ p # ys" and ?B = "as @ bs' @ c # cs"
  have nth: "?P ! (length xs + length ps) = p" "?B ! (length xs + length ps) = c"
    using snoc.prems(1) len by (simp_all add: nth_append)
  have c: "set (block_list [c]) \<subseteq> live (cheap w)" "set (block_list [c]) \<inter> set (block_list bs') = {}"
    "set (block_list bs') \<subseteq> live (cheap w)" "distinct (block_list bs')"
    using snoc.prems(5,6) by (auto simp: bs(1) block_list_append)
  have step: "cpu_stats_param b ?P ?B np i (length ps) (ml_list typed_ml acc) w =
      (Inr (ml_list typed_ml (if unset p then acc else p # acc)), w\<lparr>cheap := freed [c] (cheap w)\<rparr>)"
    using snoc.prems(1-3,7,8) len bs(3) c(1)
    by (subst cpu_stats_param_run [of "length xs + length ps" ?P ?B w i np "length ps" b "ml_list typed_ml acc", unfolded nth]) auto
  have rest: "foreachS (cpu_stats_param b ?P ?B np i) (rev [0..<length ps]) (ml_list typed_ml (if unset p then acc else p # acc))
      (w\<lparr>cheap := freed [c] (cheap w)\<rparr>) =
      (Inr (ml_list typed_ml (filter (\<lambda>p. \<not> unset p) ps @ (if unset p then acc else p # acc))), w\<lparr>cheap := freed bs' (freed [c] (cheap w))\<rparr>)"
    using snoc.IH [of "c # cs" "p # ys" bs' "w\<lparr>cheap := freed [c] (cheap w)\<rparr>" "if unset p then acc else p # acc"]
      snoc.prems(1-3,7,8) bs(2) c by (simp add: freed_def disjoint_diff_subset)
  have "freed bs' (freed [c] (cheap w)) = freed bs (cheap w)"
    by (simp add: freed_def bs(1) block_list_append set_diff_eq conj_ac)
  then show ?case
    using step rest by (simp add: bs(1) bindS_def split: if_splits)
qed

text \<open>One chunk: \<open>pss\<close> are the parameters of its processors.\<close>

definition cpu_ok :: "nat \<Rightarrow> virTypedParameter list \<Rightarrow> bool" where
  "cpu_ok np ps \<longleftrightarrow> 0 < np \<and> length ps = np \<and> list_all (\<lambda>p. unset p \<or> typed_known p) ps \<and> (unset (ps ! 0) \<longrightarrow> list_all unset ps)"

lemma length_concat_uniform: "list_all (\<lambda>ps. length ps = np) pss \<Longrightarrow> length (concat pss) = length pss * np"
  by (induction pss) auto

lemma no_strings:
  "list_all unset ps \<Longrightarrow> list_all2 (\<lambda>p b. is_string p \<longleftrightarrow> b \<noteq> None) ps bs \<Longrightarrow> block_list bs = []"
  by (induction ps arbitrary: bs) (auto simp: list_all2_Cons1 unset_def is_string_def block_list_def)

lemma split_blocks:
  "list_all2 R (concat pss) bs \<Longrightarrow> \<exists>bss. bs = concat bss \<and> list_all2 (list_all2 R) pss bss"
proof (induction pss arbitrary: bs)
  case (Cons ps pss)
  then obtain b1 b2 where "bs = b1 @ b2" "list_all2 R ps b1" "list_all2 R (concat pss) b2"
    by (auto simp: list_all2_append1)
  with Cons.IH [of b2] show ?case by (metis concat.simps(2) list_all2_Cons)
qed (auto intro: exI [of _ "[]"])

lemma cpu_stats_cpu_run:
  assumes "cpu_ok np ps" "length xs = i * np" "length as = length xs" "length cs = length ys"
    and "list_all2 (\<lambda>p b. is_string p \<longleftrightarrow> b \<noteq> None) ps bs" "distinct (block_list bs)" "set (block_list bs) \<subseteq> live (cheap w)"
    and "cpu + i < length fs" "length (xs @ ps @ ys) \<le> 2 ^ 31"
  shows "cpu_stats_cpu b (xs @ ps @ ys) (as @ bs @ cs) np np cpu i (VBlock 0 fs) w =
    (Inr (VBlock 0 (fs[cpu + i := cpu_value ps])), w\<lparr>cheap := freed bs (cheap w)\<rparr>)"
proof -
  have "i * np < 2 ^ 31" using assms(1,2,9) by (simp add: cpu_ok_def)
  then have "int_expr (int i * int np) = Inr (int (i * np))" using int_expr_nat [of "i * np"] by simp
  then have read: "bindR (int_expr (int i * int np)) (\<lambda>x. readM (xs @ ps @ ys) (nat x)) = Inr (ps ! 0)"
    using assms(1,2) by (auto simp: cpu_ok_def readM_def nth_append nat_mult_distrib)
  show ?thesis
  proof (cases "unset (ps ! 0)")
    case True
    with assms(1) have "list_all unset ps" by (simp add: cpu_ok_def)
    then have "block_list bs = []" "cpu_value ps = Val_emptylist"
      using no_strings [OF _ assms(5)] by (auto simp: cpu_value_def list_all_iff filter_empty_conv)
    then show ?thesis
      using True read assms(8) by (simp add: cpu_stats_cpu_def stub_simps unset_def freed_def)
  next
    case False
    have "foreachS (cpu_stats_param b (xs @ ps @ ys) (as @ bs @ cs) np i) (rev [0..<np]) Val_emptylist w =
        (Inr (cpu_value ps), w\<lparr>cheap := freed bs (cheap w)\<rparr>)"
      using cpu_params_run [of as xs cs ys ps bs w i np b "[]"] assms(1-7,9) by (simp add: cpu_ok_def cpu_value_def)
    then show ?thesis
      using False read assms(8) by (simp add: cpu_stats_cpu_def stub_simps unset_def bindS_def)
  qed
qed

lemma chunk_run:
  assumes "list_all (cpu_ok np) pss" "list_all2 (list_all2 (\<lambda>p b. is_string p \<longleftrightarrow> b \<noteq> None)) pss bss"
    and "distinct (block_list (concat bss))" "set (block_list (concat bss)) \<subseteq> live (cheap w)"
    and "length pre = cpu" "length (concat pss) \<le> 2 ^ 31" "n \<le> length pss" "n \<le> m"
  shows "foreachS (cpu_stats_cpu b (concat pss) (concat bss) np np cpu) [0..<n] (VBlock 0 (pre @ replicate m Val_unit)) w =
    (Inr (VBlock 0 (pre @ map cpu_value (take n pss) @ replicate (m - n) Val_unit)), w\<lparr>cheap := freed (concat (take n bss)) (cheap w)\<rparr>)"
  using assms(7,8)
proof (induction n)
  case 0
  then show ?case by (simp add: stub_simps freed_def block_list_def)
next
  case (Suc n)
  let ?xs = "concat (take n pss)" and ?ys = "concat (drop (Suc n) pss)"
  let ?as = "concat (take n bss)" and ?cs = "concat (drop (Suc n) bss)"
  have n: "n < length pss" "length bss = length pss" using Suc.prems list_all2_lengthD [OF assms(2)] by simp_all
  have split: "concat pss = ?xs @ pss ! n @ ?ys" "concat bss = ?as @ bss ! n @ ?cs"
    using n by (metis concat.simps(2) concat_append id_take_nth_drop)+
  have ok: "cpu_ok np (pss ! n)" using assms(1) n by (simp add: list_all_length)
  have R: "list_all2 (\<lambda>p b. is_string p \<longleftrightarrow> b \<noteq> None) (pss ! n) (bss ! n)"
    using assms(2) n by (simp add: list_all2_conv_all_nth)
  have "list_all2 (\<lambda>p b. is_string p \<longleftrightarrow> b \<noteq> None) ?xs ?as" "list_all2 (\<lambda>p b. is_string p \<longleftrightarrow> b \<noteq> None) ?ys ?cs"
    using assms(2) by (auto intro!: concat_transfer [THEN rel_funD] list_all2_takeI list_all2_dropI)
  then have len: "length ?as = length ?xs" "length ?cs = length ?ys" by (simp_all add: list_all2_lengthD)
  have "list_all (\<lambda>ps. length ps = np) (take n pss)"
    using assms(1) n by (auto simp: list_all_length cpu_ok_def)
  then have lx: "length ?xs = n * np" using n by (simp add: length_concat_uniform)
  have B: "distinct (block_list (bss ! n))" "set (block_list (bss ! n)) \<subseteq> live (freed ?as (cheap w))"
    using assms(3,4) by (auto simp: split block_list_append freed_def)
  let ?fs = "pre @ map cpu_value (take n pss) @ replicate (m - n) Val_unit"
  have step: "cpu_stats_cpu b (concat pss) (concat bss) np np cpu n (VBlock 0 ?fs) (w\<lparr>cheap := freed ?as (cheap w)\<rparr>) =
      (Inr (VBlock 0 (?fs[cpu + n := cpu_value (pss ! n)])), w\<lparr>cheap := freed (bss ! n) (freed ?as (cheap w))\<rparr>)"
    unfolding split using cpu_stats_cpu_run [OF ok lx len R B(1), of "w\<lparr>cheap := freed ?as (cheap w)\<rparr>" cpu ?fs b] B(2) n assms(5,6) Suc.prems
    by (simp add: split [symmetric])
  have fs: "?fs[cpu + n := cpu_value (pss ! n)] = pre @ map cpu_value (take (Suc n) pss) @ replicate (m - Suc n) Val_unit"
  proof -
    have "replicate (m - n) Val_unit = Val_unit # replicate (m - Suc n) Val_unit"
      using Suc.prems(2) by (metis Suc_diff_le diff_Suc_Suc replicate_Suc)
    then show ?thesis using n assms(5) by (simp add: list_update_append take_Suc_conv_app_nth)
  qed
  have "freed (bss ! n) (freed ?as (cheap w)) = freed (concat (take (Suc n) bss)) (cheap w)"
    using n by (simp add: take_Suc_conv_app_nth freed_append)
  with step fs Suc show ?case by (simp add: foreachS_append bindS_def stub_simps)
qed

text \<open>The loop over the chunks.\<close>

definition chunk_size :: "nat \<Rightarrow> nat \<Rightarrow> nat" where
  "chunk_size nr cpu = (if nr - cpu > 128 then 128 else nr - cpu)"

lemma cpu_stats_loop_step:
  assumes "cpu < nr" "virDomainGetCPUStats lib d True nparams (of_nat cpu) (of_nat (chunk_size nr cpu)) 0 (vir w) = ((r, params), v)"
    and "\<not> sint r < 0" "recv_strings params (w\<lparr>vir := v\<rparr>) = (Inr bs, w1)" "length params \<le> m"
  shows "cpu_stats_loop lib d b m nparams nr cpu cs w =
    bindS (foreachS (cpu_stats_cpu b params bs (unat nparams) (unat r) cpu) [0..<chunk_size nr cpu] cs)
      (cpu_stats_loop lib d b m nparams nr (cpu + chunk_size nr cpu)) w1"
  using assms
  by (subst cpu_stats_loop.simps) (simp add: chunk_size_def [symmetric] Let_def stub_simps stored_params_def bindS_def [of "recv_strings _"])

lemma cpu_stats_loop_run:
  assumes "0 \<le> sint nparams" "\<And>i. i < nr \<Longrightarrow> cpu_ok (unat nparams) (stats i)" "unat nparams \<le> 2 ^ 24"
    and libvirt: "\<And>start n v. 0 < n \<Longrightarrow> start + n \<le> nr \<Longrightarrow>
      \<exists>v'. virDomainGetCPUStats lib d True nparams (of_nat start) (of_nat n) 0 v = ((nparams, concat (map stats [start..<start + n])), v')"
    and "heap_wf (cheap w)" "cpu \<le> nr"
  shows "\<exists>v H. cpu_stats_loop lib d b (unat nparams * 128) nparams nr cpu (VBlock 0 (map (\<lambda>i. cpu_value (stats i)) [0..<cpu] @ replicate (nr - cpu) Val_unit)) w =
      (Inr (VBlock 0 (map (\<lambda>i. cpu_value (stats i)) [0..<nr])), w\<lparr>vir := v, cheap := H\<rparr>) \<and> heap_wf H \<and> live H = live (cheap w)"
  using assms(5,6)
proof (induction "nr - cpu" arbitrary: cpu w rule: less_induct)
  case less
  show ?case
  proof (cases "cpu < nr")
    case False
    then show ?thesis
      using less.prems by (intro exI [of _ "vir w"] exI [of _ "cheap w"]) (simp add: cpu_stats_loop.simps stub_simps)
  next
    case True
    let ?n = "chunk_size nr cpu"
    let ?pss = "map stats [cpu..<cpu + ?n]"
    have n: "0 < ?n" "cpu + ?n \<le> nr" "?n \<le> nr - cpu" "length ?pss = ?n" using True by (auto simp: chunk_size_def)
    obtain v1 where call: "virDomainGetCPUStats lib d True nparams (of_nat cpu) (of_nat ?n) 0 (vir w) = ((nparams, concat ?pss), v1)"
      using libvirt [OF n(1,2)] by blast
    have wf: "heap_wf (cheap (w\<lparr>vir := v1\<rparr>))" using less.prems(1) by simp
    obtain bs H1 where recv: "recv_strings (concat ?pss) (w\<lparr>vir := v1\<rparr>) = (Inr bs, w\<lparr>vir := v1, cheap := H1\<rparr>)"
      "list_all2 (\<lambda>p b. is_string p \<longleftrightarrow> b \<noteq> None) (concat ?pss) bs" "distinct (block_list bs)"
      "set (block_list bs) \<inter> live (cheap w) = {}" "live H1 = live (cheap w) \<union> set (block_list bs)" "heap_wf H1"
      using recv_strings_run [OF wf, of "concat ?pss" "[]"] by (auto simp: recv_strings_def)
    obtain bss where bss: "bs = concat bss" "list_all2 (list_all2 (\<lambda>p b. is_string p \<longleftrightarrow> b \<noteq> None)) ?pss bss"
      using split_blocks [OF recv(2)] by blast
    have ok: "list_all (cpu_ok (unat nparams)) ?pss" using assms(2) n(2) by (auto simp: list_all_iff)
    have "list_all (\<lambda>ps. length ps = unat nparams) ?pss" using ok by (simp add: list_all_iff cpu_ok_def)
    then have "length (concat ?pss) = ?n * unat nparams" by (simp add: length_concat_uniform)
    also have "\<dots> \<le> 128 * unat nparams" by (intro mult_right_mono) (simp_all add: chunk_size_def)
    finally have room: "length (concat ?pss) \<le> unat nparams * 128" "length (concat ?pss) \<le> 2 ^ 31" using assms(3) by simp_all
    let ?w2 = "w\<lparr>vir := v1, cheap := freed bs H1\<rparr>"
    have chunk: "foreachS (cpu_stats_cpu b (concat ?pss) bs (unat nparams) (unat nparams) cpu) [0..<?n]
        (VBlock 0 (map (\<lambda>i. cpu_value (stats i)) [0..<cpu] @ replicate (nr - cpu) Val_unit)) (w\<lparr>vir := v1, cheap := H1\<rparr>) =
        (Inr (VBlock 0 (map (\<lambda>i. cpu_value (stats i)) [0..<cpu + ?n] @ replicate (nr - (cpu + ?n)) Val_unit)), ?w2)"
    proof -
      have "take ?n bss = bss" using list_all2_lengthD [OF bss(2)] n(4) by simp
      moreover have "map (\<lambda>i. cpu_value (stats i)) [0..<cpu + ?n] = map (\<lambda>i. cpu_value (stats i)) [0..<cpu] @ map cpu_value ?pss"
        by (subst upt_add_eq_append) simp_all
      ultimately show ?thesis
        using chunk_run [OF ok bss(2), of "w\<lparr>vir := v1, cheap := H1\<rparr>" "map (\<lambda>i. cpu_value (stats i)) [0..<cpu]" cpu ?n "nr - cpu" b]
          recv(3,5) n(3,4) room(2) by (simp add: bss(1) del: length_concat)
    qed
    have wf2: "heap_wf (cheap ?w2)" using recv(6) by (auto simp: freed_def heap_wf_def)
    have live2: "live (cheap ?w2) = live (cheap w)" using recv(4,5) by (auto simp: freed_def)
    have "nr - (cpu + ?n) < nr - cpu" using n(1) True by simp
    from less.hyps [OF this wf2 n(2)] obtain v H where
      "cpu_stats_loop lib d b (unat nparams * 128) nparams nr (cpu + ?n) (VBlock 0 (map (\<lambda>i. cpu_value (stats i)) [0..<cpu + ?n] @ replicate (nr - (cpu + ?n)) Val_unit)) ?w2 =
        (Inr (VBlock 0 (map (\<lambda>i. cpu_value (stats i)) [0..<nr])), ?w2\<lparr>vir := v, cheap := H\<rparr>)" "heap_wf H" "live H = live (cheap w)"
      using live2 by auto
    moreover note cpu_stats_loop_step [OF True call _ recv(1) room(1), of b]
    ultimately show ?thesis using chunk assms(1) by (auto simp: bindS_def)
  qed
qed

text \<open>C17: when memory is available, \<open>ocaml_libvirt_domain_get_cpu_stats\<close> ends for every number of processors, fetching them in
  chunks of at most 128, and returns an array with one entry per processor: the list of the parameters
  that libvirt has set for it, in order, empty for an absent processor. No index overflows and the buffer, which has room for 128
  processors, is never written or read outside its bounds. Every string libvirt allocated
  and the buffer are freed. Of libvirt it is assumed that it reports \<open>nr\<close> processors and between one and \<open>2 ^ 24\<close>
  parameters per processor, stores the parameters of the processors asked for and returns known types.\<close>

theorem cpu_stats_correct:
  assumes "heap_wf (cheap w)" "\<And>n. malloc_ok (cheap w) n" "nr < 2 ^ 31" "0 \<le> sint nparams" "unat nparams \<le> 2 ^ 24"
    and "\<And>i. i < nr \<Longrightarrow> cpu_ok (unat nparams) (stats i)"
    and libvirt: "\<And>v. \<exists>v'. virDomainGetCPUStats lib d False 0 0 0 0 v = ((of_nat nr, []), v')"
      "\<And>v. \<exists>v'. virDomainGetCPUStats lib d False 0 0 1 0 v = ((nparams, []), v')"
      "\<And>start n v. 0 < n \<Longrightarrow> start + n \<le> nr \<Longrightarrow>
        \<exists>v'. virDomainGetCPUStats lib d True nparams (of_nat start) (of_nat n) 0 v = ((nparams, concat (map stats [start..<start + n])), v')"
  shows "\<exists>v H. ocaml_libvirt_domain_get_cpu_stats lib (VBlock 0 [Val_dom d, connv]) w =
      (Inr (VBlock 0 (map (\<lambda>i. cpu_value (stats i)) [0..<nr])), w\<lparr>vir := v, cheap := H\<rparr>) \<and> live H = live (cheap w)"
proof -
  obtain v1 v2 where calls: "virDomainGetCPUStats lib d False 0 0 0 0 (vir w) = ((of_nat nr, []), v1)"
    "virDomainGetCPUStats lib d False 0 0 1 0 v1 = ((nparams, []), v2)" using libvirt(1,2) by blast
  obtain b H1 where m: "malloc (cheap w) = (Some b, H1)" "b \<notin> live (cheap w)" "live H1 = insert b (live (cheap w))" "heap_wf H1"
    using malloc_succeeds [OF assms(1,2)] by metis
  let ?w1 = "w\<lparr>vir := v2, cheap := H1\<rparr>"
  have "heap_wf (cheap ?w1)" using m(4) by simp
  from cpu_stats_loop_run [OF assms(4,6,5) libvirt(3) this, where cpu = 0 and b = b and nr = nr] obtain v H where loop:
    "cpu_stats_loop lib d b (unat nparams * 128) nparams nr 0 (VBlock 0 (replicate nr Val_unit)) ?w1 =
      (Inr (VBlock 0 (map (\<lambda>i. cpu_value (stats i)) [0..<nr])), w\<lparr>vir := v, cheap := H\<rparr>)" "live H = live H1" by auto
  have nr: "sint (of_nat nr :: c_int) = int nr" "unat (of_nat nr :: c_int) = nr"
    using assms(3) sint_of_nat_32 [OF assms(3)] by (simp_all add: unat_of_nat)
  have "ocaml_libvirt_domain_get_cpu_stats lib (VBlock 0 [Val_dom d, connv]) w =
      (Inr (VBlock 0 (map (\<lambda>i. cpu_value (stats i)) [0..<nr])), w\<lparr>vir := v, cheap := H\<lparr>live := live H - {b}\<rparr>\<rparr>)"
    using calls m(1,3) loop nr assms(4)
    by (simp add: ocaml_libvirt_domain_get_cpu_stats_def stub_simps caml_alloc_n_def caml_alloc_def
        bindS_def [of "cpu_stats_loop _ _ _ _ _ _ _ _"])
  moreover have "live (H\<lparr>live := live H - {b}\<rparr>) = live (cheap w)" using m(2,3) loop(2) by simp
  ultimately show ?thesis by blast
qed

text \<open>When fetching a chunk fails, \<open>ocaml_libvirt_domain_get_cpu_stats\<close> raises libvirt's error without
  freeing its buffer.\<close>

theorem cpu_stats_leak:
  assumes "heap_wf (cheap w)" "\<And>n. malloc_ok (cheap w) n" "0 < nr" "nr < 2 ^ 31" "0 \<le> sint nparams"
    and libvirt: "virDomainGetCPUStats lib d False 0 0 0 0 (vir w) = ((of_nat nr, []), v1)"
      "virDomainGetCPUStats lib d False 0 0 1 0 v1 = ((nparams, []), v2)"
      "virDomainGetCPUStats lib d True nparams 0 (of_nat (chunk_size nr 0)) 0 v2 = ((- 1, []), v3)"
  shows "\<exists>a H. ocaml_libvirt_domain_get_cpu_stats lib (VBlock 0 [Val_dom d, connv]) w =
      (raise (virterror_exn lib ''virDomainGetCPUStats'' v3), w\<lparr>vir := v3, cheap := H\<rparr>) \<and>
    a \<notin> live (cheap w) \<and> live H = insert a (live (cheap w))"
proof -
  obtain b H1 where m: "malloc (cheap w) = (Some b, H1)" "b \<notin> live (cheap w)" "live H1 = insert b (live (cheap w))"
    using malloc_succeeds [OF assms(1,2)] by metis
  have nr: "sint (of_nat nr :: c_int) = int nr" "unat (of_nat nr :: c_int) = nr"
    using assms(4) sint_of_nat_32 [OF assms(4)] by (simp_all add: unat_of_nat)
  have "cpu_stats_loop lib d b m nparams nr 0 cs (w\<lparr>vir := v2, cheap := H1\<rparr>) =
      (raise (virterror_exn lib ''virDomainGetCPUStats'' v3), w\<lparr>vir := v3, cheap := H1\<rparr>)" for m cs
    using assms(3) libvirt(3)
    by (subst cpu_stats_loop.simps) (simp add: chunk_size_def [of nr 0, simplified, symmetric] Let_def stub_simps stored_params_def)
  then have "ocaml_libvirt_domain_get_cpu_stats lib (VBlock 0 [Val_dom d, connv]) w =
      (raise (virterror_exn lib ''virDomainGetCPUStats'' v3), w\<lparr>vir := v3, cheap := H1\<rparr>)"
    using libvirt(1,2) m(1) nr assms(5)
    by (simp add: ocaml_libvirt_domain_get_cpu_stats_def stub_simps caml_alloc_n_def bindS_def [of "cpu_stats_loop _ _ _ _ _ _ _ _"] raise_def)
  with m show ?thesis by blast
qed

subsection \<open>Statistics of all domains\<close>

text \<open>Filling an array whose elements may make the whole stub fail.\<close>

lemma fill_or_fail:
  assumes "\<And>i fs. i < length fs \<Longrightarrow> i < m \<Longrightarrow> f i (VBlock 0 fs) w = (if P i then (Inr (VBlock 0 (fs[i := g i])), w) else (Inl e, w'))"
  shows "n \<le> m \<Longrightarrow> foreachS f [0..<n] (VBlock 0 (replicate m u)) w =
    (if \<forall>i < n. P i then (Inr (VBlock 0 (map g [0..<n] @ replicate (m - n) u)), w) else (Inl e, w'))"
proof (induction n)
  case (Suc n)
  let ?fs = "map g [0..<n] @ replicate (m - n) u"
  have rep: "replicate (m - n) u = u # replicate (m - Suc n) u"
    using Suc.prems by (metis Suc_diff_le diff_Suc_Suc replicate_Suc)
  have step: "f n (VBlock 0 ?fs) w = (if P n then (Inr (VBlock 0 (?fs[n := g n])), w) else (Inl e, w'))"
    using assms [of n ?fs] Suc.prems by simp
  have "?fs[n := g n] = map g [0..<Suc n] @ replicate (m - Suc n) u"
    by (simp add: rep list_update_append)
  with step Suc show ?case
    by (auto simp: foreachS_append bindS_def less_Suc_eq retS_def)
qed (simp add: stub_simps)

lemma map_upt_nth: "map (\<lambda>i. g (xs ! i)) [0..<length xs] = map g xs"
  by (intro nth_equalityI) auto

definition record_known :: "virDomainStatsRecord \<Rightarrow> bool" where
  "record_known r \<longleftrightarrow> list_all typed_known (ds_params r)"

definition record_ml :: "(ptr \<Rightarrow> string) \<Rightarrow> virDomainStatsRecord \<Rightarrow> mlvalue" where
  "record_ml uuid r = VBlock 0 [VString (uuid (ds_dom r)), VBlock 0 (map typed_ml (ds_params r))]"

abbreviation unknown_type :: ml_exn where
  "unknown_type \<equiv> Failure ''virConnectGetAllDomainStats: unknown parameter type returned''"

lemma domain_params_run:
  assumes "b \<in> live (cheap w)"
  shows "foreachS (domain_stats_param b ps) [0..<length ps] (caml_alloc (length ps) 0) w =
    (if list_all typed_known ps then (Inr (VBlock 0 (map typed_ml ps)), w)
     else (raise unknown_type, w\<lparr>cheap := (cheap w)\<lparr>live := live (cheap w) - {b}\<rparr>\<rparr>))"
proof -
  let ?w' = "w\<lparr>cheap := (cheap w)\<lparr>live := live (cheap w) - {b}\<rparr>\<rparr>"
  have "domain_stats_param b ps i (VBlock 0 fs) w =
      (if typed_known (ps ! i) then (Inr (VBlock 0 (fs[i := typed_ml (ps ! i)])), w) else (Inl (Raise unknown_type), ?w'))"
    if "i < length fs" "i < length ps" for i fs
    using that assms
    by (auto simp: domain_stats_param_def stub_simps typed_known_switch raise_def Val_typed_param_eq split: option.splits)
  from fill_or_fail [where P = "\<lambda>i. typed_known (ps ! i)" and f = "domain_stats_param b ps" and m = "length ps"
      and g = "\<lambda>i. typed_ml (ps ! i)" and n = "length ps" and u = Val_unit, OF this]
  show ?thesis
    by (simp add: caml_alloc_def list_all_length raise_def map_upt_nth)
qed

lemma domain_records_run:
  assumes "b \<in> live (cheap w)" and libvirt: "\<And>p v. virDomainGetUUID lib p v = (uuid p, v)"
  shows "foreachS (domain_stats_record lib b rs) [0..<length rs] (caml_alloc (length rs) 0) w =
    (if list_all record_known rs then (Inr (VBlock 0 (map (record_ml uuid) rs)), w)
     else (raise unknown_type, w\<lparr>cheap := (cheap w)\<lparr>live := live (cheap w) - {b}\<rparr>\<rparr>))"
proof -
  let ?w' = "w\<lparr>cheap := (cheap w)\<lparr>live := live (cheap w) - {b}\<rparr>\<rparr>"
  have "domain_stats_record lib b rs i (VBlock 0 fs) w =
      (if record_known (rs ! i) then (Inr (VBlock 0 (fs[i := record_ml uuid (rs ! i)])), w) else (Inl (Raise unknown_type), ?w'))"
    if "i < length fs" "i < length rs" for i fs
    using that domain_params_run [OF assms(1), of "ds_params (rs ! i)"]
    by (simp add: domain_stats_record_def stub_simps libvirt record_known_def record_ml_def raise_def caml_alloc_def [of "Suc (Suc 0)"]
        numeral_2_eq_2 bindS_def [of "foreachS _ _ _"])
  from fill_or_fail [where P = "\<lambda>i. record_known (rs ! i)" and f = "domain_stats_record lib b rs" and m = "length rs"
      and g = "\<lambda>i. record_ml uuid (rs ! i)" and n = "length rs" and u = Val_unit, OF this]
  show ?thesis
    by (simp add: caml_alloc_def list_all_length raise_def map_upt_nth)
qed

text \<open>C20: \<open>ocaml_libvirt_domain_get_all_domain_stats\<close> asks libvirt for the union of the listed statistics and
  flags and returns one record per domain with its UUID and all its typed parameters in order; a
  parameter of an unknown type raises \<open>Failure\<close>. The list of records is freed on every path.\<close>

theorem all_domain_stats_correct:
  assumes "heap_wf (cheap w)"
    and libvirt: "\<And>p v. virDomainGetUUID lib p v = (uuid p, v)"
      "\<And>st fl v. \<exists>r rs v'. virConnectGetAllDomainStats lib conn st fl v = ((r, rs), v') \<and> (r = - 1 \<or> length rs < 2 ^ 31 \<and> r = of_nat (length rs))"
  shows "\<exists>st fl H.
     (\<forall>b. bit st b \<longleftrightarrow> (\<exists>k. k \<in> set ks \<and> k < 7 \<and> bit (vc lib (stats_flags ! k)) b)) \<and>
     (\<forall>b. bit fl b \<longleftrightarrow> (\<exists>k. k \<in> set ls \<and> k < 10 \<and> bit (vc lib (all_domains_flags ! k)) b)) \<and> live H = live (cheap w) \<and>
     ocaml_libvirt_domain_get_all_domain_stats lib (Val_connect conn) (ml_list (\<lambda>k. VInt (int k)) ks) (ml_list (\<lambda>k. VInt (int k)) ls) w =
       (case virConnectGetAllDomainStats lib conn st fl (vir w) of
          ((r, rs), v) \<Rightarrow>
            (if r = - 1 then raise (virterror_exn lib ''virConnectGetAllDomainStats'' v)
             else if list_all record_known rs then Inr (VBlock 0 (map (record_ml uuid) rs)) else raise unknown_type,
             w\<lparr>vir := v, cheap := H\<rparr>))"
proof -
  obtain st where st: "flags_loop lib stats_flags (ml_list (\<lambda>k. VInt (int k)) ks) = Inr st"
    "\<And>b. bit st b \<longleftrightarrow> (\<exists>k. k \<in> set ks \<and> k < length stats_flags \<and> bit (vc lib (stats_flags ! k)) b)"
    using flags_loop_bits [of lib stats_flags ks] by blast
  obtain fl where fl: "flags_loop lib all_domains_flags (ml_list (\<lambda>k. VInt (int k)) ls) = Inr fl"
    "\<And>b. bit fl b \<longleftrightarrow> (\<exists>k. k \<in> set ls \<and> k < length all_domains_flags \<and> bit (vc lib (all_domains_flags ! k)) b)"
    using flags_loop_bits [of lib all_domains_flags ls] by blast
  have lens: "length stats_flags = 7" "length all_domains_flags = 10" by (simp_all add: stats_flags_def all_domains_flags_def)
  obtain r rs v where call: "virConnectGetAllDomainStats lib conn st fl (vir w) = ((r, rs), v)"
    "r = - 1 \<or> length rs < 2 ^ 31 \<and> r = of_nat (length rs)" using libvirt(2) by blast
  let ?a = "n_allocs (cheap w)"
  have a: "?a \<notin> live (cheap w)" using assms(1) by (auto simp: heap_wf_def)
  let ?H1 = "(cheap w)\<lparr>n_allocs := Suc ?a, live := insert ?a (live (cheap w))\<rparr>"
  let ?H = "if r = - 1 then cheap w else (cheap w)\<lparr>n_allocs := Suc ?a\<rparr>"
  have n: "sint r = int (length rs)" "unat r = length rs" if "r \<noteq> - 1"
    using call(2) that sint_of_nat_32 [of "length rs"] by (auto simp: unat_of_nat)
  have "ocaml_libvirt_domain_get_all_domain_stats lib (Val_connect conn) (ml_list (\<lambda>k. VInt (int k)) ks) (ml_list (\<lambda>k. VInt (int k)) ls) w =
      (if r = - 1 then raise (virterror_exn lib ''virConnectGetAllDomainStats'' v)
       else if list_all record_known rs then Inr (VBlock 0 (map (record_ml uuid) rs)) else raise unknown_type,
       w\<lparr>vir := v, cheap := ?H\<rparr>)"
  proof (cases "r = - 1")
    case True
    then show ?thesis
      using call(1) by (simp add: ocaml_libvirt_domain_get_all_domain_stats_def st(1) fl(1) stub_simps)
  next
    case False
    have "foreachS (domain_stats_record lib ?a rs) [0..<length rs] (caml_alloc (length rs) 0) (w\<lparr>vir := v, cheap := ?H1\<rparr>) =
      (if list_all record_known rs then (Inr (VBlock 0 (map (record_ml uuid) rs)), w\<lparr>vir := v, cheap := ?H1\<rparr>)
       else (raise unknown_type, w\<lparr>vir := v, cheap := ?H\<rparr>))"
      using domain_records_run [of ?a "w\<lparr>vir := v, cheap := ?H1\<rparr>" lib uuid rs, OF _ libvirt(1)] a False by simp
    then show ?thesis
      using call(1) False n a
      by (simp add: ocaml_libvirt_domain_get_all_domain_stats_def st(1) fl(1) stub_simps caml_alloc_n_def
          bindS_def [of "foreachS _ _ _"] raise_def)
  qed
  moreover have "live ?H = live (cheap w)" by simp
  ultimately show ?thesis using st(2) fl(2) call(1) lens by (intro exI [of _ st] exI [of _ fl] exI [of _ ?H]) simp
qed

subsection \<open>Witnesses\<close>

text \<open>Two processors, the second one absent, with a counter and a string each.\<close>

definition demo_stats :: "nat \<Rightarrow> virTypedParameter list" where
  "demo_stats i = (if i = 0
     then [\<lparr>tp_field = ''cpu_time'', tp_value = VIR_TYPED_PARAM_ULLONG 5\<rparr>, \<lparr>tp_field = ''name'', tp_value = VIR_TYPED_PARAM_STRING ''a''\<rparr>]
     else [\<lparr>tp_field = [], tp_value = Typed_unset\<rparr>, \<lparr>tp_field = [], tp_value = Typed_unset\<rparr>])"

definition demo_stats_lib :: "bool \<Rightarrow> nat libvirt_stats" where
  "demo_stats_lib fails = \<lparr>vc = (\<lambda>_. 1), virGetLastError = (\<lambda>v. None), virConnectClose = (\<lambda>p v. v), virDomainFree = (\<lambda>p v. v),
     virNetworkFree = (\<lambda>p v. v), virStoragePoolFree = (\<lambda>p v. v), virStorageVolFree = (\<lambda>p v. v), virSecretFree = (\<lambda>p v. v),
     virDomainGetCPUStats = (\<lambda>d ps np start n fl v.
       if ps then if fails then ((- 1, []), v) else ((2, concat (map demo_stats [unat start..<unat start + unat n])), v) else ((2, []), v)),
     virConnectGetAllDomainStats = (\<lambda>c st fl v. ((1, [\<lparr>ds_dom = 5, ds_params = demo_stats 0\<rparr>]), v)),
     virDomainGetUUID = (\<lambda>p v. (''0123456789abcdef'', v))\<rparr>"

theorem cpu_stats_correct_witness:
  "\<exists>v H. ocaml_libvirt_domain_get_cpu_stats (demo_stats_lib False) (VBlock 0 [Val_dom 5, Val_connect 7]) demo_world =
      (Inr (VBlock 0 (map (\<lambda>i. cpu_value (demo_stats i)) [0..<2])), demo_world\<lparr>vir := v, cheap := H\<rparr>) \<and> live H = live (cheap demo_world)"
proof (rule cpu_stats_correct [where nparams = 2, OF demo_world_wf])
  show "malloc_ok (cheap demo_world) n" for n by (simp add: demo_world_def demo_heap0_def)
  show "cpu_ok (unat (2 :: c_int)) (demo_stats i)" if "i < 2" for i
    by (simp add: cpu_ok_def demo_stats_def unset_def typed_known_def)
  show "\<exists>v'. virDomainGetCPUStats (demo_stats_lib False) 5 True 2 (of_nat start) (of_nat n) 0 v =
      ((2, concat (map demo_stats [start..<start + n])), v')" if "0 < n" "start + n \<le> 2" for start n v
  proof -
    have "unat (of_nat start :: c_int) = start" "unat (of_nat n :: c_int) = n" using that by (simp_all add: unat_of_nat)
    then show ?thesis by (simp add: demo_stats_lib_def)
  qed
qed (simp_all add: demo_stats_lib_def)

theorem cpu_stats_leak_witness:
  "\<exists>a H. ocaml_libvirt_domain_get_cpu_stats (demo_stats_lib True) (VBlock 0 [Val_dom 5, Val_connect 7]) demo_world =
      (raise (virterror_exn (demo_stats_lib True) ''virDomainGetCPUStats'' 0), demo_world\<lparr>vir := 0, cheap := H\<rparr>) \<and>
    a \<notin> live (cheap demo_world) \<and> live H = insert a (live (cheap demo_world))"
  by (rule cpu_stats_leak [where nparams = 2 and nr = 2 and ?v1.0 = 0 and ?v2.0 = 0, OF demo_world_wf])
     (simp_all add: demo_stats_lib_def demo_world_def demo_heap0_def chunk_size_def)

theorem all_domain_stats_correct_witness:
  "\<exists>H. live H = live (cheap demo_world) \<and>
     ocaml_libvirt_domain_get_all_domain_stats (demo_stats_lib False) (Val_connect 7) (ml_list (\<lambda>k. VInt (int k)) [0, 6]) (ml_list (\<lambda>k. VInt (int k)) [1]) demo_world =
       (Inr (VBlock 0 [record_ml (\<lambda>_. ''0123456789abcdef'') \<lparr>ds_dom = 5, ds_params = demo_stats 0\<rparr>]), demo_world\<lparr>vir := 0, cheap := H\<rparr>)"
proof -
  have "\<And>p v. virDomainGetUUID (demo_stats_lib False) p v = (''0123456789abcdef'', v)"
    and "\<And>st fl v. \<exists>r rs v'. virConnectGetAllDomainStats (demo_stats_lib False) 7 st fl v = ((r, rs), v') \<and>
       (r = - 1 \<or> length rs < 2 ^ 31 \<and> r = of_nat (length rs))"
    by (simp_all add: demo_stats_lib_def)
  note stats = all_domain_stats_correct [where ks = "[0, 6]" and ls = "[1]", OF demo_world_wf this]
  have call: "virConnectGetAllDomainStats (demo_stats_lib False) 7 st fl (vir demo_world) = ((1, [\<lparr>ds_dom = 5, ds_params = demo_stats 0\<rparr>]), 0)" for st fl
    by (simp add: demo_stats_lib_def demo_world_def)
  have "record_known \<lparr>ds_dom = 5, ds_params = demo_stats 0\<rparr>"
    by (simp add: record_known_def demo_stats_def typed_known_def)
  with stats show ?thesis
    unfolding call by (auto simp del: ml_list.simps)
qed

end
