(* ===== verification/LibvirtEvents.thy ===== *)
theory LibvirtEvents
  imports LibvirtStats
begin

section \<open>The libvirt binding: events, storage, secrets, errors (libvirt_c_oneoffs.c, libvirt.ml)\<close>

text \<open>
  Events travel from libvirt through one of ten C callbacks, one per signature, into OCaml: a
  registration stores a number in a block that libvirt hands back to the callback (\<open>opaque\<close>), and the
  callback calls the OCaml function registered under its name with that number, with which OCaml finds
  the user's closure in one of its tables. The C callbacks and the OCaml side of the registration
  (\<open>Event.register_any\<close>, \<open>Event.deregister_any\<close>) are modelled here, and then the stubs on storage, secrets
  and errors that close the file. What OCaml does when it is called is the parameter \<open>caml_callback3\<close>.
\<close>

subsection \<open>Data\<close>

datatype event_callback =
    I_i_callback | U_callback | I64_callback | I_callback | S_i_callback | S_i_i_callback | S_s_i_callback
  | S_s_i_s_callback | S_s_s_i_callback | I_ga_ga_s_gs_callback

record virDomainEventGraphicsAddress =
  ga_family :: c_int
  ga_node :: "string option"
  ga_service :: "string option"

record virDomainEventGraphicsSubjectIdentity =
  gi_type :: "string option"
  gi_name :: "string option"

record virStoragePoolInfo =
  pi_state :: c_int
  pi_capacity :: "64 word"
  pi_allocation :: "64 word"
  pi_available :: "64 word"

record virStorageVolInfo =
  si_type :: c_int
  si_capacity :: "64 word"
  si_allocation :: "64 word"

record 'v libvirt_events = "'v libvirt" +
  caml_named_value :: "string \<Rightarrow> mlvalue option"
  caml_callback3 :: "mlvalue \<Rightarrow> mlvalue \<Rightarrow> mlvalue \<Rightarrow> mlvalue \<Rightarrow> 'v lvworld \<Rightarrow> 'v lvworld"
  caml_callback1 :: "mlvalue \<Rightarrow> mlvalue \<Rightarrow> 'v lvworld \<Rightarrow> 'v lvworld"
  virDomainRef :: "ptr \<Rightarrow> 'v \<Rightarrow> c_int \<times> 'v"
  virConnectRef :: "ptr \<Rightarrow> 'v \<Rightarrow> c_int \<times> 'v"
  virEventRegisterDefaultImpl :: "'v \<Rightarrow> c_int \<times> 'v"
  virEventRunDefaultImpl :: "'v lvworld \<Rightarrow> c_int \<times> 'v lvworld"
  virEventAddTimeout :: "c_int \<Rightarrow> nat \<Rightarrow> 'v \<Rightarrow> c_int \<times> 'v"
  virEventRemoveTimeout :: "c_int \<Rightarrow> 'v lvworld \<Rightarrow> c_int \<times> 'v lvworld"
  virConnectDomainEventRegisterAny :: "ptr \<Rightarrow> ptr \<Rightarrow> c_int \<Rightarrow> event_callback \<Rightarrow> nat \<Rightarrow> 'v \<Rightarrow> c_int \<times> 'v"
  virStoragePoolGetInfo :: "ptr \<Rightarrow> 'v \<Rightarrow> (c_int \<times> virStoragePoolInfo) \<times> 'v"
  virStorageVolGetInfo :: "ptr \<Rightarrow> 'v \<Rightarrow> (c_int \<times> virStorageVolInfo) \<times> 'v"
  virSecretLookupByUsage :: "ptr \<Rightarrow> c_int \<Rightarrow> string \<Rightarrow> 'v \<Rightarrow> ptr \<times> 'v"
  virSecretSetValue :: "ptr \<Rightarrow> string \<Rightarrow> 'v \<Rightarrow> c_int \<times> 'v"
  virSecretGetValue :: "ptr \<Rightarrow> 'v \<Rightarrow> string option \<times> 'v"
  virResetLastError :: "'v \<Rightarrow> 'v"
  virConnResetLastError :: "ptr \<Rightarrow> 'v \<Rightarrow> 'v"
  virSetErrorFunc :: "(virError \<Rightarrow> 'v \<Rightarrow> 'v) \<Rightarrow> 'v \<Rightarrow> 'v"
  virInitialize :: "'v \<Rightarrow> 'v"

subsection \<open>The event loop\<close>

definition ocaml_libvirt_event_register_default_impl ::
  "('v, 'z) libvirt_events_scheme \<Rightarrow> mlvalue \<Rightarrow> ('v lvworld, mlvalue) stub" where
  "ocaml_libvirt_event_register_default_impl lib unitv =
     bindS (callV (virEventRegisterDefaultImpl lib)) (\<lambda>r.
       if r = - 1 then raiseS (Failure ''virEventRegisterDefaultImpl'') else retS Val_unit)"

definition ocaml_libvirt_event_run_default_impl ::
  "('v, 'z) libvirt_events_scheme \<Rightarrow> mlvalue \<Rightarrow> ('v lvworld, mlvalue) stub" where
  "ocaml_libvirt_event_run_default_impl lib unitv w =
     (case virEventRunDefaultImpl lib w of
        (r, w) \<Rightarrow> if r = - 1 then raiseS (Failure ''virEventRunDefaultImpl'') w else retS Val_unit w)"

subsection \<open>The C callbacks\<close>

text \<open>\<open>*(long *) opaque\<close>\<close>

definition opaque_value :: "nat \<Rightarrow> ('v lvworld, 64 word) stub" where
  "opaque_value opaque w = (if opaque \<in> live (cheap w) then (Inr (cells w opaque), w) else (undef, w))"

definition abortS :: "('v lvworld, 'a) stub" where
  "abortS w = (Inl (CFail Abort), w)"

text \<open>\<open>DOMAIN_CALLBACK_BEGIN\<close> and \<open>DOMAIN_CALLBACK_END\<close> around the computation of the result. The OCaml
  function is looked up by name (the C code remembers the first result).\<close>

definition DOMAIN_CALLBACK ::
  "('v, 'z) libvirt_events_scheme \<Rightarrow> string \<Rightarrow> ptr \<Rightarrow> ptr \<Rightarrow> nat \<Rightarrow> mlvalue ml \<Rightarrow> ('v lvworld, unit) stub" where
  "DOMAIN_CALLBACK lib name conn d opaque result =
     (case caml_named_value lib name of
        None \<Rightarrow> abortS
      | Some callback \<Rightarrow>
          bindS (callV (virDomainRef lib d)) (\<lambda>r.
          if r = - 1 then abortS
          else bindS (callV (virConnectRef lib conn)) (\<lambda>r.
               if r = - 1 then abortS
               else bindS (liftS (Val_domain d (Val_connect conn))) (\<lambda>domv.
                    bindS (opaque_value opaque) (\<lambda>ident.
                    bindS (liftS result) (\<lambda>result w.
                      (Inr (), caml_callback3 lib callback (caml_copy_int64 ident) domv result w)))))))"

definition i_i_callback :: "('v, 'z) libvirt_events_scheme \<Rightarrow> ptr \<Rightarrow> ptr \<Rightarrow> c_int \<Rightarrow> c_int \<Rightarrow> nat \<Rightarrow> ('v lvworld, unit) stub" where
  "i_i_callback lib conn d x y opaque =
     DOMAIN_CALLBACK lib ''Libvirt.i_i_callback'' conn d opaque
       (store_fields (caml_alloc_tuple 2) 0 [Val_int (sint x), Val_int (sint y)])"

definition u_callback :: "('v, 'z) libvirt_events_scheme \<Rightarrow> ptr \<Rightarrow> ptr \<Rightarrow> nat \<Rightarrow> ('v lvworld, unit) stub" where
  "u_callback lib conn d opaque = DOMAIN_CALLBACK lib ''Libvirt.u_callback'' conn d opaque (Inr (VInt 0))"

definition i64_callback :: "('v, 'z) libvirt_events_scheme \<Rightarrow> ptr \<Rightarrow> ptr \<Rightarrow> 64 word \<Rightarrow> nat \<Rightarrow> ('v lvworld, unit) stub" where
  "i64_callback lib conn d i opaque = DOMAIN_CALLBACK lib ''Libvirt.i64_callback'' conn d opaque (Inr (caml_copy_int64 i))"

definition i_callback :: "('v, 'z) libvirt_events_scheme \<Rightarrow> ptr \<Rightarrow> ptr \<Rightarrow> c_int \<Rightarrow> nat \<Rightarrow> ('v lvworld, unit) stub" where
  "i_callback lib conn d x opaque = DOMAIN_CALLBACK lib ''Libvirt.i_callback'' conn d opaque (Inr (Val_int (sint x)))"

definition s_i_callback ::
  "('v, 'z) libvirt_events_scheme \<Rightarrow> ptr \<Rightarrow> ptr \<Rightarrow> string option \<Rightarrow> c_int \<Rightarrow> nat \<Rightarrow> ('v lvworld, unit) stub" where
  "s_i_callback lib conn d x y opaque =
     DOMAIN_CALLBACK lib ''Libvirt.s_i_callback'' conn d opaque (alloc_fields 2 0 [copy_opt x, Inr (Val_int (sint y))])"

definition s_i_i_callback ::
  "('v, 'z) libvirt_events_scheme \<Rightarrow> ptr \<Rightarrow> ptr \<Rightarrow> string option \<Rightarrow> c_int \<Rightarrow> c_int \<Rightarrow> nat \<Rightarrow> ('v lvworld, unit) stub" where
  "s_i_i_callback lib conn d x y z opaque =
     DOMAIN_CALLBACK lib ''Libvirt.s_i_i_callback'' conn d opaque
       (alloc_fields 3 0 [copy_opt x, Inr (Val_int (sint y)), Inr (Val_int (sint z))])"

definition s_s_i_callback ::
  "('v, 'z) libvirt_events_scheme \<Rightarrow> ptr \<Rightarrow> ptr \<Rightarrow> string option \<Rightarrow> string option \<Rightarrow> c_int \<Rightarrow> nat \<Rightarrow> ('v lvworld, unit) stub" where
  "s_s_i_callback lib conn d x y z opaque =
     DOMAIN_CALLBACK lib ''Libvirt.s_s_i_callback'' conn d opaque
       (alloc_fields 3 0 [copy_opt x, copy_opt y, Inr (Val_int (sint z))])"

definition s_s_i_s_callback ::
  "('v, 'z) libvirt_events_scheme \<Rightarrow> ptr \<Rightarrow> ptr \<Rightarrow> string option \<Rightarrow> string option \<Rightarrow> c_int \<Rightarrow> string option \<Rightarrow> nat \<Rightarrow> ('v lvworld, unit) stub" where
  "s_s_i_s_callback lib conn d x y z a opaque =
     DOMAIN_CALLBACK lib ''Libvirt.s_s_i_s_callback'' conn d opaque
       (alloc_fields 4 0 [copy_opt x, copy_opt y, Inr (Val_int (sint z)), copy_opt a])"

definition s_s_s_i_callback ::
  "('v, 'z) libvirt_events_scheme \<Rightarrow> ptr \<Rightarrow> ptr \<Rightarrow> string option \<Rightarrow> string option \<Rightarrow> string option \<Rightarrow> c_int \<Rightarrow> nat \<Rightarrow> ('v lvworld, unit) stub" where
  "s_s_s_i_callback lib conn d x y z a opaque =
     DOMAIN_CALLBACK lib ''Libvirt.s_s_s_i_callback'' conn d opaque
       (alloc_fields 4 0 [copy_opt x, copy_opt y, copy_opt z, Inr (Val_int (sint a))])"

definition Val_event_graphics_address :: "virDomainEventGraphicsAddress \<Rightarrow> mlvalue ml" where
  "Val_event_graphics_address x =
     alloc_fields 3 0 [Inr (Val_int (sint (ga_family x))), copy_opt (ga_node x), copy_opt (ga_service x)]"

definition Val_event_graphics_subject_identity :: "virDomainEventGraphicsSubjectIdentity \<Rightarrow> mlvalue ml" where
  "Val_event_graphics_subject_identity x = alloc_fields 2 0 [copy_opt (gi_type x), copy_opt (gi_name x)]"

definition Val_event_graphics_subject :: "virDomainEventGraphicsSubjectIdentity list \<Rightarrow> mlvalue ml" where
  "Val_event_graphics_subject xs =
     foreachR (\<lambda>i result. bindR (bindR (readM xs i) Val_event_graphics_subject_identity) (Store_field result i))
       [0..<length xs] (caml_alloc_tuple (length xs))"

definition i_ga_ga_s_gs_callback ::
  "('v, 'z) libvirt_events_scheme \<Rightarrow> ptr \<Rightarrow> ptr \<Rightarrow> c_int \<Rightarrow> virDomainEventGraphicsAddress \<Rightarrow> virDomainEventGraphicsAddress \<Rightarrow>
   string option \<Rightarrow> virDomainEventGraphicsSubjectIdentity list \<Rightarrow> nat \<Rightarrow> ('v lvworld, unit) stub" where
  "i_ga_ga_s_gs_callback lib conn d i1 ga1 ga2 s1 gs1 opaque =
     DOMAIN_CALLBACK lib ''Libvirt.i_ga_ga_s_gs_callback'' conn d opaque
       (alloc_fields 5 0 [Inr (Val_int (sint i1)), Val_event_graphics_address ga1, Val_event_graphics_address ga2,
          copy_opt s1, Val_event_graphics_subject gs1])"

definition timeout_callback :: "('v, 'z) libvirt_events_scheme \<Rightarrow> c_int \<Rightarrow> nat \<Rightarrow> ('v lvworld, unit) stub" where
  "timeout_callback lib timer opaque =
     (case caml_named_value lib ''Libvirt.timeout_callback'' of
        None \<Rightarrow> abortS
      | Some callback \<Rightarrow> bindS (opaque_value opaque) (\<lambda>ident w. (Inr (), caml_callback1 lib callback (caml_copy_int64 ident) w)))"

subsection \<open>Registration\<close>

text \<open>Allocating the opaque block and storing the number in it.\<close>

definition new_opaque :: "mlvalue \<Rightarrow> ('v lvworld, nat) stub" where
  "new_opaque callback_id =
     bindS (malloc_or_raise mallocS) (\<lambda>opaque.
     bindS (liftS (Int64_val callback_id)) (\<lambda>ident w. (Inr opaque, w\<lparr>cells := (cells w)(opaque := ident)\<rparr>)))"

definition ocaml_libvirt_event_add_timeout ::
  "('v, 'z) libvirt_events_scheme \<Rightarrow> mlvalue \<Rightarrow> mlvalue \<Rightarrow> mlvalue \<Rightarrow> ('v lvworld, mlvalue) stub" where
  "ocaml_libvirt_event_add_timeout lib connv ms callback_id =
     bindS (new_opaque callback_id) (\<lambda>opaque.
     bindS (liftS (Int_val ms)) (\<lambda>ms.
     bindS (callV (virEventAddTimeout lib ms opaque)) (\<lambda>r.
     bindS (CHECK_ERROR lib (r = - 1) ''virEventAddTimeout'') (\<lambda>_. retS (Val_int (sint r))))))"

definition ocaml_libvirt_event_remove_timeout ::
  "('v, 'z) libvirt_events_scheme \<Rightarrow> mlvalue \<Rightarrow> mlvalue \<Rightarrow> ('v lvworld, mlvalue) stub" where
  "ocaml_libvirt_event_remove_timeout lib connv timer_id =
     bindS (liftS (Int_val timer_id)) (\<lambda>t w.
       case virEventRemoveTimeout lib t w of
         (r, w) \<Rightarrow> bindS (CHECK_ERROR lib (r = - 1) ''virEventRemoveTimeout'') (\<lambda>_. retS (Val_int (sint r))) w)"

definition event_switch :: "('v, 'z) libvirt_scheme \<Rightarrow> c_int \<Rightarrow> event_callback option" where
  "event_switch lib eventID =
     (if eventID = vc lib VIR_DOMAIN_EVENT_ID_LIFECYCLE then Some I_i_callback
      else if eventID = vc lib VIR_DOMAIN_EVENT_ID_REBOOT then Some U_callback
      else if eventID = vc lib VIR_DOMAIN_EVENT_ID_RTC_CHANGE then Some I64_callback
      else if eventID = vc lib VIR_DOMAIN_EVENT_ID_WATCHDOG then Some I_callback
      else if eventID = vc lib VIR_DOMAIN_EVENT_ID_IO_ERROR then Some S_s_i_callback
      else if eventID = vc lib VIR_DOMAIN_EVENT_ID_GRAPHICS then Some I_ga_ga_s_gs_callback
      else if eventID = vc lib VIR_DOMAIN_EVENT_ID_IO_ERROR_REASON then Some S_s_i_s_callback
      else if eventID = vc lib VIR_DOMAIN_EVENT_ID_CONTROL_ERROR then Some U_callback
      else if eventID = vc lib VIR_DOMAIN_EVENT_ID_BLOCK_JOB then Some S_i_i_callback
      else if eventID = vc lib VIR_DOMAIN_EVENT_ID_DISK_CHANGE then Some S_s_s_i_callback
      else if eventID = vc lib VIR_DOMAIN_EVENT_ID_TRAY_CHANGE then Some S_i_callback
      else if eventID = vc lib VIR_DOMAIN_EVENT_ID_PMWAKEUP then Some I_callback
      else if eventID = vc lib VIR_DOMAIN_EVENT_ID_PMSUSPEND then Some I_callback
      else if eventID = vc lib VIR_DOMAIN_EVENT_ID_BALLOON_CHANGE then Some I64_callback
      else if eventID = vc lib VIR_DOMAIN_EVENT_ID_PMSUSPEND_DISK then Some I_callback
      else None)"

definition ocaml_libvirt_connect_domain_event_register_any ::
  "('v, 'z) libvirt_events_scheme \<Rightarrow> mlvalue \<Rightarrow> mlvalue \<Rightarrow> mlvalue \<Rightarrow> mlvalue \<Rightarrow> ('v lvworld, mlvalue) stub" where
  "ocaml_libvirt_connect_domain_event_register_any lib connv domv callback callback_id =
     bindS (liftS (Connect_val connv)) (\<lambda>conn.
     bindS (liftS (Tag_val callback)) (\<lambda>tag.
     bindS (liftS (if domv \<noteq> VInt 0 then bindR (Field domv 0) Domain_val else Inr 0)) (\<lambda>d.
       case event_switch lib (of_nat tag) of
         None \<Rightarrow> raiseS (Failure ''vifConnectDomainEventRegisterAny: unimplemented eventID'')
       | Some cb \<Rightarrow>
           bindS (new_opaque callback_id) (\<lambda>opaque.
           bindS (callV (virConnectDomainEventRegisterAny lib conn d (of_nat tag) cb opaque)) (\<lambda>r.
           bindS (CHECK_ERROR lib (r = - 1) ''virConnectDomainEventRegisterAny'') (\<lambda>_. retS (Val_int (sint r))))))))"

subsection \<open>Storage, secrets and errors\<close>

definition ocaml_libvirt_storage_pool_get_info :: "('v, 'z) libvirt_events_scheme \<Rightarrow> mlvalue \<Rightarrow> ('v lvworld, mlvalue) stub" where
  "ocaml_libvirt_storage_pool_get_info lib poolv =
     bindS (liftS (Pool_val poolv)) (\<lambda>pool.
     bindS (callV (virStoragePoolGetInfo lib pool)) (\<lambda>(r, info).
     bindS (CHECK_ERROR lib (r = - 1) ''virStoragePoolGetInfo'') (\<lambda>_.
       liftS (store_fields (caml_alloc 4 0) 0
         [Val_int (sint (pi_state info)), caml_copy_int64 (pi_capacity info), caml_copy_int64 (pi_allocation info),
          caml_copy_int64 (pi_available info)]))))"

definition ocaml_libvirt_storage_vol_get_info :: "('v, 'z) libvirt_events_scheme \<Rightarrow> mlvalue \<Rightarrow> ('v lvworld, mlvalue) stub" where
  "ocaml_libvirt_storage_vol_get_info lib volv =
     bindS (liftS (Volume_val volv)) (\<lambda>vol.
     bindS (callV (virStorageVolGetInfo lib vol)) (\<lambda>(r, info).
     bindS (CHECK_ERROR lib (r = - 1) ''virStorageVolGetInfo'') (\<lambda>_.
       liftS (store_fields (caml_alloc 3 0) 0
         [Val_int (sint (si_type info)), caml_copy_int64 (si_capacity info), caml_copy_int64 (si_allocation info)]))))"

definition ocaml_libvirt_secret_lookup_by_usage ::
  "('v, 'z) libvirt_events_scheme \<Rightarrow> mlvalue \<Rightarrow> mlvalue \<Rightarrow> mlvalue \<Rightarrow> ('v lvworld, mlvalue) stub" where
  "ocaml_libvirt_secret_lookup_by_usage lib connv usagetypev usageidv =
     bindS (liftS (Connect_val connv)) (\<lambda>conn.
     bindS (liftS (Int_val usagetypev)) (\<lambda>usageType.
     bindS (liftS (String_val usageidv)) (\<lambda>usageID.
     bindS (callV (virSecretLookupByUsage lib conn usageType usageID)) (\<lambda>r.
     bindS (CHECK_ERROR lib (r = 0) ''virSecretLookupByUsage'') (\<lambda>_. liftS (Val_secret r connv))))))"

definition ocaml_libvirt_secret_set_value ::
  "('v, 'z) libvirt_events_scheme \<Rightarrow> mlvalue \<Rightarrow> mlvalue \<Rightarrow> ('v lvworld, mlvalue) stub" where
  "ocaml_libvirt_secret_set_value lib secv vv =
     bindS (liftS (Secret_val secv)) (\<lambda>sec.
     bindS (liftS (Bytes_val vv)) (\<lambda>secval.
     bindS (callV (virSecretSetValue lib sec secval)) (\<lambda>r.
     bindS (CHECK_ERROR lib (r = - 1) ''virSecretSetValue'') (\<lambda>_. retS Val_unit))))"

definition ocaml_libvirt_secret_get_value :: "('v, 'z) libvirt_events_scheme \<Rightarrow> mlvalue \<Rightarrow> ('v lvworld, mlvalue) stub" where
  "ocaml_libvirt_secret_get_value lib secv =
     bindS (liftS (Secret_val secv)) (\<lambda>sec.
     bindS (callV (virSecretGetValue lib sec)) (\<lambda>secval.
     bindS (CHECK_ERROR lib (secval = None) ''virSecretGetValue'') (\<lambda>_.
       case secval of
         None \<Rightarrow> liftS undef
       | Some s \<Rightarrow> bindS recvS (\<lambda>block. bindS (freeS block) (\<lambda>_. retS (VString s))))))"

definition ocaml_libvirt_virterror_get_last_error :: "('v, 'z) libvirt_events_scheme \<Rightarrow> mlvalue \<Rightarrow> ('v lvworld, mlvalue) stub" where
  "ocaml_libvirt_virterror_get_last_error lib unitv w =
     liftS (Val_opt (virGetLastError lib (vir w)) (Val_virterror lib)) w"

definition ocaml_libvirt_virterror_get_last_conn_error ::
  "('v, 'z) libvirt_events_scheme \<Rightarrow> mlvalue \<Rightarrow> ('v lvworld, mlvalue) stub" where
  "ocaml_libvirt_virterror_get_last_conn_error lib connv =
     bindS (liftS (Connect_val connv)) (\<lambda>conn.
       liftS (Val_opt (if conn = 0 then None else Some conn) (\<lambda>c. Inr (Val_connect c))))"

definition ocaml_libvirt_virterror_reset_last_error :: "('v, 'z) libvirt_events_scheme \<Rightarrow> mlvalue \<Rightarrow> ('v lvworld, mlvalue) stub" where
  "ocaml_libvirt_virterror_reset_last_error lib unitv =
     bindS (callV (\<lambda>v. ((), virResetLastError lib v))) (\<lambda>_. retS Val_unit)"

definition ocaml_libvirt_virterror_reset_last_conn_error ::
  "('v, 'z) libvirt_events_scheme \<Rightarrow> mlvalue \<Rightarrow> ('v lvworld, mlvalue) stub" where
  "ocaml_libvirt_virterror_reset_last_conn_error lib connv =
     bindS (liftS (Connect_val connv)) (\<lambda>conn.
     bindS (callV (\<lambda>v. ((), virConnResetLastError lib conn v))) (\<lambda>_. retS Val_unit))"

definition ignore_errors :: "virError \<Rightarrow> 'v \<Rightarrow> 'v" where
  "ignore_errors err v = v"

definition ocaml_libvirt_init :: "('v, 'z) libvirt_events_scheme \<Rightarrow> mlvalue \<Rightarrow> ('v lvworld, mlvalue) stub" where
  "ocaml_libvirt_init lib unitv =
     bindS (callV (\<lambda>v. ((), virInitialize lib (virSetErrorFunc lib ignore_errors v)))) (\<lambda>_. retS Val_unit)"

end
