(* ===== verification/CallbackTables.thy ===== *)
theory CallbackTables
  imports LibvirtEvents
begin

section \<open>The libvirt binding: tables of callbacks (libvirt.ml, module Event)\<close>

text \<open>
  Domain events and timers reach OCaml closures in the same way: a number is drawn, the closure is
  stored in a table under it, libvirt keeps a block of memory with the number, and the number libvirt
  returns is stored in a second table. This theory has OCaml's hash tables, the state the two uses share,
  its invariant, and the changes that keep it; \<open>EventDispatch\<close> and \<open>LibvirtTimers\<close> show that their
  operations make no other change.
\<close>

subsection \<open>Hash tables of the OCaml library\<close>

text \<open>A table binds a key to a stack of values: \<open>Hashtbl.add\<close> hides the previous binding, \<open>Hashtbl.remove\<close>
  restores it, \<open>Hashtbl.replace\<close> replaces the current one.\<close>

type_synonym ('k, 'a) hashtbl = "'k \<Rightarrow> 'a list"

definition Hashtbl_add :: "('k, 'a) hashtbl \<Rightarrow> 'k \<Rightarrow> 'a \<Rightarrow> ('k, 'a) hashtbl" where
  "Hashtbl_add t k x = t(k := x # t k)"
definition Hashtbl_mem :: "('k, 'a) hashtbl \<Rightarrow> 'k \<Rightarrow> bool" where
  "Hashtbl_mem t k \<longleftrightarrow> t k \<noteq> []"
definition Hashtbl_find :: "('k, 'a) hashtbl \<Rightarrow> 'k \<Rightarrow> 'a ml" where
  "Hashtbl_find t k = (case t k of [] \<Rightarrow> raise Not_found | x # _ \<Rightarrow> Inr x)"
definition Hashtbl_remove :: "('k, 'a) hashtbl \<Rightarrow> 'k \<Rightarrow> ('k, 'a) hashtbl" where
  "Hashtbl_remove t k = t(k := tl (t k))"
definition Hashtbl_replace :: "('k, 'a) hashtbl \<Rightarrow> 'k \<Rightarrow> 'a \<Rightarrow> ('k, 'a) hashtbl" where
  "Hashtbl_replace t k x = t(k := x # tl (t k))"

lemmas hashtbl_defs = Hashtbl_add_def Hashtbl_mem_def Hashtbl_find_def Hashtbl_remove_def Hashtbl_replace_def

subsection \<open>The shared state\<close>

text \<open>The next number, the tables (one for each kind of callback), the table of libvirt's numbers,
  libvirt's registrations with their kind and block, the contents of the blocks, the blocks allocated.\<close>

record ('k, 'cb) demux =
  d_next :: "64 word"
  d_tab :: "'k \<Rightarrow> (64 word, 'cb) hashtbl"
  d_ids :: "(64 word, int) hashtbl"
  d_reg :: "c_int \<Rightarrow> ('k \<times> nat) option"
  d_cell :: "nat \<Rightarrow> 64 word"
  d_live :: "nat set"

text \<open>A number that has not been drawn is in no table, and no table has two bindings for one number.
  Libvirt's registrations and the tables match: the block of a registration is allocated and
  holds a number that the table of its callback binds and that is associated with the registration,
  and every number that is associated with a registration is in its block.\<close>

definition demux_inv :: "('k, 'cb) demux \<Rightarrow> bool" where
  "demux_inv D \<longleftrightarrow>
     (\<forall>k i. unat (d_next D) \<le> unat i \<longrightarrow> d_tab D k i = [] \<and> d_ids D i = []) \<and>
     (\<forall>k i. length (d_tab D k i) \<le> 1) \<and> (\<forall>i. length (d_ids D i) \<le> 1) \<and>
     (\<forall>n k opaque. d_reg D n = Some (k, opaque) \<longrightarrow>
        opaque \<in> d_live D \<and> (\<exists>cb. d_tab D k (d_cell D opaque) = [cb]) \<and> d_ids D (d_cell D opaque) = [sint n]) \<and>
     (\<forall>i x. d_ids D i = [x] \<longrightarrow> (\<exists>n k opaque. x = sint n \<and> d_reg D n = Some (k, opaque) \<and> d_cell D opaque = i))"

text \<open>What the tables say: the closure of a number and the number libvirt has given it.\<close>

definition bound :: "('k, 'cb) demux \<Rightarrow> 64 word \<Rightarrow> (c_int \<times> 'cb) option" where
  "bound D ident =
     (case d_ids D ident of
        [] \<Rightarrow> None
      | n # _ \<Rightarrow> (case d_reg D (word_of_int n) of
                   None \<Rightarrow> None
                 | Some (k, opaque) \<Rightarrow>
                     (case d_tab D k ident of [] \<Rightarrow> None | cb # _ \<Rightarrow> Some (word_of_int n, cb))))"

lemma demux_invD:
  assumes "demux_inv D"
  shows "\<And>k i. unat (d_next D) \<le> unat i \<Longrightarrow> d_tab D k i = []"
    "\<And>i. unat (d_next D) \<le> unat i \<Longrightarrow> d_ids D i = []"
    "\<And>k i. length (d_tab D k i) \<le> 1" "\<And>i. length (d_ids D i) \<le> 1"
    "\<And>n k opaque. d_reg D n = Some (k, opaque) \<Longrightarrow> opaque \<in> d_live D"
    "\<And>n k opaque. d_reg D n = Some (k, opaque) \<Longrightarrow> \<exists>cb. d_tab D k (d_cell D opaque) = [cb]"
    "\<And>n k opaque. d_reg D n = Some (k, opaque) \<Longrightarrow> d_ids D (d_cell D opaque) = [sint n]"
    "\<And>i x. d_ids D i = [x] \<Longrightarrow> \<exists>n k opaque. x = sint n \<and> d_reg D n = Some (k, opaque) \<and> d_cell D opaque = i"
  using assms unfolding demux_inv_def by blast+

lemma demux_unused:
  assumes "demux_inv D"
  shows "d_tab D k (d_next D) = []" "d_ids D (d_next D) = []" "d_reg D n = Some (k, opaque) \<Longrightarrow> d_cell D opaque \<noteq> d_next D"
  using demux_invD(1,2) [OF assms] demux_invD(7) [OF assms, of n k opaque] by force+

lemma demux_unique:
  assumes "demux_inv D" and "d_reg D n = Some (k, opaque)" and "d_reg D n' = Some (k', opaque')"
    and "d_cell D opaque = d_cell D opaque'"
  shows "n = n'"
proof -
  have "[sint n] = [sint n']" using demux_invD(7) [OF assms(1)] assms(2-4) by metis
  then show ?thesis by (simp add: signed_word_eqI)
qed

lemma bound_iff:
  assumes "demux_inv D"
  shows "bound D i = Some (n, cb) \<longleftrightarrow> (\<exists>k opaque. d_reg D n = Some (k, opaque) \<and> d_cell D opaque = i \<and> d_tab D k i = [cb])"
proof
  assume s: "bound D i = Some (n, cb)"
  then obtain x xs where "d_ids D i = x # xs" by (auto simp: bound_def split: list.splits)
  with demux_invD(4) [OF assms, of i] have x: "d_ids D i = [x]" by simp
  from demux_invD(8) [OF assms x] obtain n' k opaque
    where r: "x = sint n'" "d_reg D n' = Some (k, opaque)" "d_cell D opaque = i" by blast
  obtain cb' where "d_tab D k i = [cb']" using demux_invD(6) [OF assms r(2)] r(3) by auto
  with s x r show "\<exists>k opaque. d_reg D n = Some (k, opaque) \<and> d_cell D opaque = i \<and> d_tab D k i = [cb]"
    by (auto simp: bound_def)
next
  assume "\<exists>k opaque. d_reg D n = Some (k, opaque) \<and> d_cell D opaque = i \<and> d_tab D k i = [cb]"
  then obtain k opaque where "d_reg D n = Some (k, opaque)" "d_cell D opaque = i" "d_tab D k i = [cb]" by blast
  with demux_invD(7) [OF assms] show "bound D i = Some (n, cb)" by (auto simp: bound_def)
qed

subsection \<open>The changes\<close>

text \<open>The blocks of the registrations that stay are left alone.\<close>

definition blocks_kept :: "('k, 'cb) demux \<Rightarrow> ('k, 'cb) demux \<Rightarrow> bool" where
  "blocks_kept D D' \<longleftrightarrow>
     (\<forall>n k opaque. d_reg D n = Some (k, opaque) \<and> d_reg D' n = Some (k, opaque) \<longrightarrow>
        opaque \<in> d_live D' \<and> d_cell D' opaque = d_cell D opaque)"

lemma blocks_keptD:
  assumes "blocks_kept D D'" and "d_reg D n = Some (k, opaque)" and "d_reg D' n = Some (k, opaque)"
  shows "opaque \<in> d_live D'" and "d_cell D' opaque = d_cell D opaque"
  using assms unfolding blocks_kept_def by blast+

datatype 'cb change = Unchanged | Bound "64 word" c_int 'cb | Unbound "64 word"

fun apply_change :: "'cb change \<Rightarrow> (64 word \<Rightarrow> (c_int \<times> 'cb) option) \<Rightarrow> 64 word \<Rightarrow> (c_int \<times> 'cb) option" where
  "apply_change Unchanged m = m"
| "apply_change (Bound i n cb) m = m(i \<mapsto> (n, cb))"
| "apply_change (Unbound i) m = m(i := None)"

text \<open>The tables may stay as they are (with or without a number drawn for something else); a registration may be
  refused after its closure has been stored; it may succeed; a number that is not registered may be removed
  from the tables; a registration may be removed.\<close>

inductive demux_step :: "('k, 'cb) demux \<Rightarrow> 'cb change \<Rightarrow> ('k, 'cb) demux \<Rightarrow> bool" where
  kept: "d_next D' = d_next D \<or> d_next D' = d_next D + 1 \<Longrightarrow> d_tab D' = d_tab D \<Longrightarrow> d_ids D' = d_ids D \<Longrightarrow>
    d_reg D' = d_reg D \<Longrightarrow> blocks_kept D D' \<Longrightarrow> demux_step D Unchanged D'"
| refused: "d_next D' = d_next D + 1 \<Longrightarrow> d_tab D' = (d_tab D)(k := (d_tab D k)(d_next D := [cb])) \<Longrightarrow>
    d_ids D' = d_ids D \<Longrightarrow> d_reg D' = d_reg D \<Longrightarrow> blocks_kept D D' \<Longrightarrow> demux_step D Unchanged D'"
| registered: "d_next D' = d_next D + 1 \<Longrightarrow> d_tab D' = (d_tab D)(k := (d_tab D k)(d_next D := [cb])) \<Longrightarrow>
    d_ids D' = (d_ids D)(d_next D := [sint n]) \<Longrightarrow> d_reg D n = None \<Longrightarrow> d_reg D' = (d_reg D)(n \<mapsto> (k, opaque)) \<Longrightarrow>
    opaque \<in> d_live D' \<Longrightarrow> d_cell D' opaque = d_next D \<Longrightarrow> blocks_kept D D' \<Longrightarrow>
    demux_step D (Bound (d_next D) n cb) D'"
| forgotten: "d_ids D i = [] \<Longrightarrow> d_next D' = d_next D \<Longrightarrow> d_tab D' = (\<lambda>k. Hashtbl_remove (d_tab D k) i) \<Longrightarrow>
    d_ids D' = d_ids D \<Longrightarrow> d_reg D' = d_reg D \<Longrightarrow> blocks_kept D D' \<Longrightarrow> demux_step D (Unbound i) D'"
| removed: "d_reg D n = Some (k, opaque) \<Longrightarrow> d_cell D opaque = i \<Longrightarrow> d_next D' = d_next D \<Longrightarrow>
    d_tab D' = (\<lambda>k. Hashtbl_remove (d_tab D k) i) \<Longrightarrow> d_ids D' = (d_ids D)(i := []) \<Longrightarrow>
    d_reg D' = (d_reg D)(n := None) \<Longrightarrow> blocks_kept D D' \<Longrightarrow> demux_step D (Unbound i) D'"

lemma next_id_Suc: "unat (x :: 64 word) < 2 ^ 64 - 1 \<Longrightarrow> unat (x + 1) = Suc (unat x)"
  by (simp add: unat_word_ariths)

lemma some_pair_eqI: "(\<And>n cb. a = Some (n, cb) \<longleftrightarrow> b = Some (n, cb)) \<Longrightarrow> a = b"
  by (cases a; cases b) auto

text \<open>The part of the invariant about numbers, and the part about links, for a new state that keeps or drops registrations.\<close>

lemma demux_invI:
  assumes "\<And>k i. unat (d_next D) \<le> unat i \<Longrightarrow> d_tab D k i = [] \<and> d_ids D i = []"
    and "\<And>k i. length (d_tab D k i) \<le> 1" and "\<And>i. length (d_ids D i) \<le> 1"
    and "\<And>n k opaque. d_reg D n = Some (k, opaque) \<Longrightarrow>
      opaque \<in> d_live D \<and> (\<exists>cb. d_tab D k (d_cell D opaque) = [cb]) \<and> d_ids D (d_cell D opaque) = [sint n]"
    and "\<And>i x. d_ids D i = [x] \<Longrightarrow> \<exists>n k opaque. x = sint n \<and> d_reg D n = Some (k, opaque) \<and> d_cell D opaque = i"
  shows "demux_inv D"
  using assms unfolding demux_inv_def by simp

lemma demux_inv_same_reg:
  assumes "demux_inv D" and "d_reg D' = d_reg D" and "d_ids D' = d_ids D" and "blocks_kept D D'"
    and "unat (d_next D) \<le> unat (d_next D')"
    and "\<And>k i. unat (d_next D') \<le> unat i \<Longrightarrow> d_tab D' k i = []" and "\<And>k i. length (d_tab D' k i) \<le> 1"
    and "\<And>k i. d_ids D i \<noteq> [] \<Longrightarrow> d_tab D' k i = d_tab D k i"
  shows "demux_inv D'" and "bound D' = bound D"
proof -
  have blk: "opaque \<in> d_live D' \<and> d_cell D' opaque = d_cell D opaque" if "d_reg D n = Some (k, opaque)" for n k opaque
    using blocks_keptD [OF assms(4) that] that by (simp add: assms(2))
  show inv: "demux_inv D'"
  proof (rule demux_invI)
    show "opaque \<in> d_live D' \<and> (\<exists>cb. d_tab D' k (d_cell D' opaque) = [cb]) \<and> d_ids D' (d_cell D' opaque) = [sint n]"
      if "d_reg D' n = Some (k, opaque)" for n k opaque
      using that assms(2,3,8) blk [of n k opaque] demux_invD(6,7) [OF assms(1), of n k opaque] by simp
    show "\<exists>n k opaque. x = sint n \<and> d_reg D' n = Some (k, opaque) \<and> d_cell D' opaque = i" if "d_ids D' i = [x]" for i x
      using that assms(2,3) blk demux_invD(8) [OF assms(1), of i x] by auto
  qed (use assms(3,5-7) demux_invD(2,4) [OF assms(1)] in auto)
  show "bound D' = bound D"
  proof (intro ext some_pair_eqI)
    show "bound D' i = Some (n, cb) \<longleftrightarrow> bound D i = Some (n, cb)" for i n cb
      using assms(2,8) blk demux_invD(7) [OF assms(1)] unfolding bound_iff [OF inv] bound_iff [OF assms(1)] by force
  qed
qed

lemma demux_registered:
  assumes "demux_inv D" and "unat (d_next D') = Suc (unat (d_next D))"
    and "d_tab D' = (d_tab D)(k := (d_tab D k)(d_next D := [cb]))" and "d_ids D' = (d_ids D)(d_next D := [sint n])"
    and "d_reg D n = None" and "d_reg D' = (d_reg D)(n \<mapsto> (k, opaque))"
    and "opaque \<in> d_live D'" and "d_cell D' opaque = d_next D" and "blocks_kept D D'"
  shows "demux_inv D'" and "bound D' = (bound D)(d_next D \<mapsto> (n, cb))"
proof -
  have blk: "n' \<noteq> n \<and> op \<in> d_live D' \<and> d_cell D' op = d_cell D op \<and> d_cell D op \<noteq> d_next D \<and> d_reg D' n' = Some (k', op)"
    if "d_reg D n' = Some (k', op)" for n' k' op
    using assms(5,6) that demux_unused(3) [OF assms(1) that] blocks_keptD [OF assms(9) that] by auto
  show inv: "demux_inv D'"
  proof (rule demux_invI)
    show "op \<in> d_live D' \<and> (\<exists>cb. d_tab D' k' (d_cell D' op) = [cb]) \<and> d_ids D' (d_cell D' op) = [sint n']"
      if "d_reg D' n' = Some (k', op)" for n' k' op
    proof (cases "n' = n")
      case False
      with that have "d_reg D n' = Some (k', op)" by (simp add: assms(6))
      with blk demux_invD(6,7) [OF assms(1) this] show ?thesis by (auto simp: assms(3,4))
    qed (use that assms(7,8) in \<open>auto simp: assms(3,4,6)\<close>)
    show "\<exists>n' k' op. x = sint n' \<and> d_reg D' n' = Some (k', op) \<and> d_cell D' op = i" if "d_ids D' i = [x]" for i x
    proof (cases "i = d_next D")
      case False
      with that demux_invD(8) [OF assms(1), of i x] blk show ?thesis by (auto simp: assms(4))
    qed (use that in \<open>auto simp: assms(4,6,8)\<close>)
  qed (use assms(2) demux_invD(1-4) [OF assms(1)] in \<open>auto simp: assms(3,4)\<close>)
  show "bound D' = (bound D)(d_next D \<mapsto> (n, cb))"
  proof (intro ext some_pair_eqI)
    fix j n' cb'
    have "bound D' j = Some (n', cb') \<longleftrightarrow>
        (if n' = n then j = d_next D \<and> cb' = cb
         else \<exists>k' op. d_reg D n' = Some (k', op) \<and> d_cell D' op = j \<and> d_tab D' k' j = [cb'])"
      by (auto simp: bound_iff [OF inv] assms(3,6,8))
    also have "(\<exists>k' op. d_reg D n' = Some (k', op) \<and> d_cell D' op = j \<and> d_tab D' k' j = [cb']) \<longleftrightarrow>
        j \<noteq> d_next D \<and> bound D j = Some (n', cb')"
      unfolding bound_iff [OF assms(1)] using blk by (auto simp: assms(3))
    finally show "bound D' j = Some (n', cb') \<longleftrightarrow> ((bound D)(d_next D \<mapsto> (n, cb))) j = Some (n', cb')"
      using assms(5) bound_iff [OF assms(1), of j n cb'] by auto
  qed
qed

lemma demux_removed:
  assumes "demux_inv D" and "d_reg D n = Some (k, opaque)" and "d_cell D opaque = i" and "d_next D' = d_next D"
    and "d_tab D' = (\<lambda>k. Hashtbl_remove (d_tab D k) i)" and "d_ids D' = (d_ids D)(i := [])"
    and "d_reg D' = (d_reg D)(n := None)" and "blocks_kept D D'"
  shows "demux_inv D'" and "bound D' = (bound D)(i := None)"
proof -
  have blk: "op \<in> d_live D' \<and> d_cell D' op = d_cell D op \<and> d_cell D op \<noteq> i \<and> d_reg D' n' = Some (k', op)"
    if "d_reg D n' = Some (k', op)" "n' \<noteq> n" for n' k' op
    using assms(3,7) that demux_unique [OF assms(1,2) that(1)] blocks_keptD [OF assms(8) that(1)] by auto
  have short: "length (tl (d_tab D k i)) \<le> 1" for k i using demux_invD(3) [OF assms(1), of k i] by simp
  show inv: "demux_inv D'"
  proof (rule demux_invI)
    show "op \<in> d_live D' \<and> (\<exists>cb. d_tab D' k' (d_cell D' op) = [cb]) \<and> d_ids D' (d_cell D' op) = [sint n']"
      if "d_reg D' n' = Some (k', op)" for n' k' op
    proof -
      from that have "n' \<noteq> n" "d_reg D n' = Some (k', op)" by (auto simp: assms(7) split: if_splits)
      with blk [of n' k' op] demux_invD(6,7) [OF assms(1), of n' k' op] show ?thesis by (simp add: assms(5,6) Hashtbl_remove_def)
    qed
    show "\<exists>n' k' op. x = sint n' \<and> d_reg D' n' = Some (k', op) \<and> d_cell D' op = j" if "d_ids D' j = [x]" for j x
    proof -
      from that have j: "j \<noteq> i" "d_ids D j = [x]" by (auto simp: assms(6) split: if_splits)
      from demux_invD(8) [OF assms(1) j(2)] obtain n' k' op where "x = sint n'" "d_reg D n' = Some (k', op)" "d_cell D op = j" by blast
      moreover from this j(1) assms(2,3) have "n' \<noteq> n" by auto
      ultimately show ?thesis using blk by metis
    qed
  qed (use demux_invD(1-4) [OF assms(1)] short in \<open>auto simp: assms(4-6) Hashtbl_remove_def\<close>)
  show "bound D' = (bound D)(i := None)"
  proof (intro ext some_pair_eqI)
    fix j n' cb'
    have "bound D' j = Some (n', cb') \<longleftrightarrow> n' \<noteq> n \<and> j \<noteq> i \<and> bound D j = Some (n', cb')"
      unfolding bound_iff [OF inv] bound_iff [OF assms(1)] using blk by (auto simp: assms(5,7) Hashtbl_remove_def) metis+
    then show "bound D' j = Some (n', cb') \<longleftrightarrow> ((bound D)(i := None)) j = Some (n', cb')"
      using assms(2,3) bound_iff [OF assms(1), of j n cb'] by auto
  qed
qed

text \<open>Every change keeps the invariant and does to the closures bound what it says.\<close>

lemma demux_step_inv:
  assumes "demux_step D c D'" and "demux_inv D" and "unat (d_next D) < 2 ^ 64 - 1"
  shows "demux_inv D'" and "bound D' = apply_change c (bound D)" and "unat (d_next D') \<le> Suc (unat (d_next D))"
proof -
  note Suc = next_id_Suc [OF assms(3)]
  note unused = demux_unused [OF assms(2)]
  from assms(1) have "demux_inv D' \<and> bound D' = apply_change c (bound D) \<and> unat (d_next D') \<le> Suc (unat (d_next D))"
  proof cases
    case kept
    then have "unat (d_next D) \<le> unat (d_next D')" using Suc by auto
    with kept demux_invD(1,3) [OF assms(2)] have "demux_inv D'" "bound D' = bound D"
      by (auto intro!: demux_inv_same_reg [OF assms(2), of D'])
    with kept Suc show ?thesis by auto
  next
    case (refused k cb)
    then have "unat (d_next D') = Suc (unat (d_next D))" using Suc by auto
    with refused demux_invD(1,3) [OF assms(2)] unused(2) have "demux_inv D'" "bound D' = bound D"
      by (auto intro!: demux_inv_same_reg [OF assms(2), of D'])
    with refused Suc show ?thesis by auto
  next
    case (registered k cb n opaque)
    with demux_registered [OF assms(2), of D' k cb n opaque] Suc show ?thesis by simp
  next
    case (forgotten i)
    have rem: "Hashtbl_remove (d_tab D k) i j = (if j = i then [] else d_tab D k j)" for k j
      using demux_invD(3) [OF assms(2), of k i] by (cases "d_tab D k i") (auto simp: Hashtbl_remove_def)
    have "demux_inv D'" "bound D' = bound D"
      using demux_invD(1,3) [OF assms(2)] forgotten by (auto intro!: demux_inv_same_reg [OF assms(2), of D'] simp: rem)
    moreover have "(bound D)(i := None) = bound D" using forgotten(2) by (simp add: fun_upd_idem bound_def)
    ultimately show ?thesis using forgotten by simp
  next
    case (removed n k opaque i)
    with demux_removed [OF assms(2), of n k opaque i D'] show ?thesis by simp
  qed
  then show "demux_inv D'" and "bound D' = apply_change c (bound D)" and "unat (d_next D') \<le> Suc (unat (d_next D))" by blast+
qed

text \<open>A number that is drawn is not in use, and neither is one that libvirt is about to give out.\<close>

lemma bound_fresh:
  assumes "demux_inv D"
  shows "bound D (d_next D) = None" and "d_reg D n = None \<Longrightarrow> bound D i \<noteq> Some (n, cb)"
  using demux_unused(2) [OF assms] by (simp add: bound_def) (simp add: bound_iff [OF assms])

lemma step_bound_fresh:
  assumes "demux_step D (Bound i n cb) D'" and "demux_inv D"
  shows "i = d_next D" and "bound D i = None" and "bound D j \<noteq> Some (n, cb')"
  using assms(1) bound_fresh [OF assms(2)] by (auto elim: demux_step.cases)

end
