(* ===== verification/EventDispatch.thy ===== *)
theory EventDispatch
  imports CallbackTables
begin

section \<open>The libvirt binding: delivering domain events to OCaml closures (libvirt.ml, module Event)\<close>

text \<open>
  The OCaml half of the event machinery and its composition with the C half of \<open>LibvirtEvents\<close>. A
  registration draws a number, stores the user's function in the table of its event's signature and
  passes the number down to the C stub; the C callback that libvirt invokes later passes the number
  up again, to the function registered under the callback's name, which looks in its table. The
  program, libvirt and the heap form a transition system; it implements a simple specification, in
  which subscriptions are a map and an event is delivered to the function subscribed.
\<close>

subsection \<open>The OCaml side\<close>

text \<open>The user's functions are closures, given by a number.\<close>

datatype callback =
    Lifecycle nat | Reboot nat | RtcChange nat | Watchdog nat | IOError nat | Graphics nat | IOErrorReason nat
  | ControlError nat | BlockJob nat | DiskChange nat | TrayChange nat | PMWakeUp nat | PMSuspend nat
  | BalloonChange nat | PMSuspendDisk nat

text \<open>How a constructor is laid out: a block with its position as the tag.\<close>

fun callback_value :: "callback \<Rightarrow> mlvalue" where
  "callback_value (Lifecycle f) = VBlock 0 [VClosure f]"
| "callback_value (Reboot f) = VBlock 1 [VClosure f]"
| "callback_value (RtcChange f) = VBlock 2 [VClosure f]"
| "callback_value (Watchdog f) = VBlock 3 [VClosure f]"
| "callback_value (IOError f) = VBlock 4 [VClosure f]"
| "callback_value (Graphics f) = VBlock 5 [VClosure f]"
| "callback_value (IOErrorReason f) = VBlock 6 [VClosure f]"
| "callback_value (ControlError f) = VBlock 7 [VClosure f]"
| "callback_value (BlockJob f) = VBlock 8 [VClosure f]"
| "callback_value (DiskChange f) = VBlock 9 [VClosure f]"
| "callback_value (TrayChange f) = VBlock 10 [VClosure f]"
| "callback_value (PMWakeUp f) = VBlock 11 [VClosure f]"
| "callback_value (PMSuspend f) = VBlock 12 [VClosure f]"
| "callback_value (BalloonChange f) = VBlock 13 [VClosure f]"
| "callback_value (PMSuspendDisk f) = VBlock 14 [VClosure f]"

text \<open>The state of the module: the counter, the ten tables, the table of libvirt's numbers. \<open>called\<close>
  records the calls of user functions (the callback stored, the domain and the event's data, to
  which the stored closure applies the \<open>make\<close> function of the event: see \<open>EventData\<close>).\<close>

record ocaml_events =
  next_id :: "64 word"
  table :: "event_callback \<Rightarrow> (64 word, callback) hashtbl"
  our_id_to_libvirt_id :: "(64 word, int) hashtbl"
  called :: "(callback \<times> mlvalue \<times> mlvalue) list"

definition fresh_callback_id :: "ocaml_events \<Rightarrow> 64 word \<times> ocaml_events" where
  "fresh_callback_id s = (next_id s, s\<lparr>next_id := next_id s + 1\<rparr>)"

fun value_name :: "event_callback \<Rightarrow> string" where
  "value_name U_callback = ''Libvirt.u_callback''"
| "value_name I_callback = ''Libvirt.i_callback''"
| "value_name I64_callback = ''Libvirt.i64_callback''"
| "value_name I_i_callback = ''Libvirt.i_i_callback''"
| "value_name S_i_callback = ''Libvirt.s_i_callback''"
| "value_name S_i_i_callback = ''Libvirt.s_i_i_callback''"
| "value_name S_s_i_callback = ''Libvirt.s_s_i_callback''"
| "value_name S_s_i_s_callback = ''Libvirt.s_s_i_s_callback''"
| "value_name S_s_s_i_callback = ''Libvirt.s_s_s_i_callback''"
| "value_name I_ga_ga_s_gs_callback = ''Libvirt.i_ga_ga_s_gs_callback''"

definition all_tables :: "event_callback list" where
  "all_tables = [U_callback, I_callback, I64_callback, I_i_callback, S_i_callback, S_i_i_callback, S_s_i_callback,
     S_s_i_s_callback, S_s_s_i_callback, I_ga_ga_s_gs_callback]"

text \<open>The function that \<open>make_table\<close> registers under the name of the table.\<close>

definition table_callback :: "event_callback \<Rightarrow> 64 word \<Rightarrow> mlvalue \<Rightarrow> mlvalue \<Rightarrow> ocaml_events \<Rightarrow> ocaml_events" where
  "table_callback k callback_id generic x s =
     (if Hashtbl_mem (table s k) callback_id
      then (case Hashtbl_find (table s k) callback_id of
              Inl e \<Rightarrow> s
            | Inr cb \<Rightarrow> s\<lparr>called := called s @ [(cb, generic, x)]\<rparr>)
      else s)"

definition table_add :: "event_callback \<Rightarrow> 64 word \<Rightarrow> callback \<Rightarrow> ocaml_events \<Rightarrow> ocaml_events" where
  "table_add k ident cb s = s\<lparr>table := (table s)(k := Hashtbl_add (table s k) ident cb)\<rparr>"

text \<open>The match of \<open>register_any\<close>.\<close>

fun add_callback :: "callback \<Rightarrow> 64 word \<Rightarrow> ocaml_events \<Rightarrow> ocaml_events" where
  "add_callback (Lifecycle f) ident s = table_add I_i_callback ident (Lifecycle f) s"
| "add_callback (Reboot f) ident s = table_add U_callback ident (Reboot f) s"
| "add_callback (RtcChange f) ident s = table_add I64_callback ident (RtcChange f) s"
| "add_callback (Watchdog f) ident s = table_add I_callback ident (Watchdog f) s"
| "add_callback (IOError f) ident s = table_add S_s_i_callback ident (IOError f) s"
| "add_callback (Graphics f) ident s = table_add I_ga_ga_s_gs_callback ident (Graphics f) s"
| "add_callback (IOErrorReason f) ident s = table_add S_s_i_s_callback ident (IOErrorReason f) s"
| "add_callback (ControlError f) ident s = table_add U_callback ident (ControlError f) s"
| "add_callback (BlockJob f) ident s = table_add S_i_i_callback ident (BlockJob f) s"
| "add_callback (DiskChange f) ident s = table_add S_s_s_i_callback ident (DiskChange f) s"
| "add_callback (TrayChange f) ident s = table_add S_i_callback ident (TrayChange f) s"
| "add_callback (PMWakeUp f) ident s = table_add I_callback ident (PMWakeUp f) s"
| "add_callback (PMSuspend f) ident s = table_add I_callback ident (PMSuspend f) s"
| "add_callback (BalloonChange f) ident s = table_add I64_callback ident (BalloonChange f) s"
| "add_callback (PMSuspendDisk f) ident s = table_add I_callback ident (PMSuspendDisk f) s"

text \<open>Libvirt's state as the program sees it: the registrations of the connection, each with the C
  callback and the opaque block. It is part of the world together with the OCaml module.\<close>

record 'l event_env =
  oc :: ocaml_events
  regs :: "c_int \<Rightarrow> (event_callback \<times> nat) option"
  rest :: 'l

type_synonym 'l evworld = "'l event_env lvworld"

definition mapO :: "(ocaml_events \<Rightarrow> ocaml_events) \<Rightarrow> 'l evworld \<Rightarrow> 'l evworld" where
  "mapO f w = w\<lparr>vir := (vir w)\<lparr>oc := f (oc (vir w))\<rparr>\<rparr>"

abbreviation ocw :: "'l evworld \<Rightarrow> ocaml_events" where "ocw w \<equiv> oc (vir w)"
abbreviation regw :: "'l evworld \<Rightarrow> c_int \<Rightarrow> (event_callback \<times> nat) option" where "regw w \<equiv> regs (vir w)"

text \<open>The C library linked with the module: \<open>make_table\<close> has registered the ten functions by name (the
  closure is the position of its table), and calling one runs it on the tables.\<close>

fun table_position :: "event_callback list \<Rightarrow> string \<Rightarrow> nat \<Rightarrow> mlvalue option" where
  "table_position [] name i = None"
| "table_position (k # ks) name i = (if value_name k = name then Some (VClosure i) else table_position ks name (Suc i))"

definition linked :: "('l event_env, 'z) libvirt_events_scheme \<Rightarrow> ('l event_env, 'z) libvirt_events_scheme" where
  "linked lib = lib\<lparr>
     caml_named_value := (\<lambda>name. table_position all_tables name 0),
     caml_callback3 := (\<lambda>f ident d x w.
       case (f, ident) of
         (VClosure i, VInt64 n) \<Rightarrow> mapO (table_callback (all_tables ! i) n d x) w
       | _ \<Rightarrow> w)\<rparr>"

definition register_any ::
  "('l event_env, 'z) libvirt_events_scheme \<Rightarrow> ptr \<Rightarrow> ptr option \<Rightarrow> callback \<Rightarrow> ('l evworld, 64 word) stub" where
  "register_any lib conn d cb w =
     (let (ident, s) = fresh_callback_id (ocw w)
      in bindS (ocaml_libvirt_connect_domain_event_register_any (linked lib) (Val_connect conn)
                  (ml_option (\<lambda>d. VBlock 0 [Val_dom d, Val_connect conn]) d) (callback_value cb) (VInt64 ident))
               (\<lambda>r w. case r of
                  VInt libvirt_id \<Rightarrow>
                    (Inr ident,
                     mapO (\<lambda>s. s\<lparr>our_id_to_libvirt_id := Hashtbl_replace (our_id_to_libvirt_id s) ident libvirt_id\<rparr>) w)
                | _ \<Rightarrow> (undef, w))
               (mapO (\<lambda>_. add_callback cb ident s) w))"

text \<open>\<open>deregister_any'\<close> is a stub of the generated part of the binding: the parameter \<open>dereg\<close>.\<close>

definition remove_from_tables :: "64 word \<Rightarrow> ocaml_events \<Rightarrow> ocaml_events" where
  "remove_from_tables ident s =
     fold (\<lambda>k s. s\<lparr>table := (table s)(k := Hashtbl_remove (table s k) ident)\<rparr>) all_tables
       (s\<lparr>our_id_to_libvirt_id := Hashtbl_remove (our_id_to_libvirt_id s) ident\<rparr>)"

definition deregister_any ::
  "(mlvalue \<Rightarrow> mlvalue \<Rightarrow> ('l evworld, mlvalue) stub) \<Rightarrow> ptr \<Rightarrow> 64 word \<Rightarrow> ('l evworld, unit) stub" where
  "deregister_any dereg conn ident w =
     bindS (if Hashtbl_mem (our_id_to_libvirt_id (ocw w)) ident
            then bindS (liftS (Hashtbl_find (our_id_to_libvirt_id (ocw w)) ident)) (\<lambda>libvirt_id.
                 bindS (dereg (Val_connect conn) (VInt libvirt_id)) (\<lambda>_. retS ()))
            else retS ())
       (\<lambda>_ w. (Inr (), mapO (remove_from_tables ident) w)) w"

subsection \<open>Events\<close>

text \<open>An event as libvirt raises it: the arguments of the C callback of its signature.\<close>

datatype event =
    Ev_u | Ev_i c_int | Ev_i64 "64 word" | Ev_i_i c_int c_int
  | Ev_s_i "string option" c_int | Ev_s_i_i "string option" c_int c_int
  | Ev_s_s_i "string option" "string option" c_int | Ev_s_s_i_s "string option" "string option" c_int "string option"
  | Ev_s_s_s_i "string option" "string option" "string option" c_int
  | Ev_graphics c_int virDomainEventGraphicsAddress virDomainEventGraphicsAddress "string option"
      "virDomainEventGraphicsSubjectIdentity list"

fun event_signature :: "event \<Rightarrow> event_callback" where
  "event_signature Ev_u = U_callback"
| "event_signature (Ev_i x) = I_callback"
| "event_signature (Ev_i64 x) = I64_callback"
| "event_signature (Ev_i_i x y) = I_i_callback"
| "event_signature (Ev_s_i x y) = S_i_callback"
| "event_signature (Ev_s_i_i x y z) = S_i_i_callback"
| "event_signature (Ev_s_s_i x y z) = S_s_i_callback"
| "event_signature (Ev_s_s_i_s x y z a) = S_s_i_s_callback"
| "event_signature (Ev_s_s_s_i x y z a) = S_s_s_i_callback"
| "event_signature (Ev_graphics i a b s g) = I_ga_ga_s_gs_callback"

text \<open>The C function behind each callback.\<close>

fun invoke :: "('v, 'z) libvirt_events_scheme \<Rightarrow> event \<Rightarrow> ptr \<Rightarrow> ptr \<Rightarrow> nat \<Rightarrow> ('v lvworld, unit) stub" where
  "invoke lib Ev_u conn d opaque = u_callback lib conn d opaque"
| "invoke lib (Ev_i x) conn d opaque = i_callback lib conn d x opaque"
| "invoke lib (Ev_i64 x) conn d opaque = i64_callback lib conn d x opaque"
| "invoke lib (Ev_i_i x y) conn d opaque = i_i_callback lib conn d x y opaque"
| "invoke lib (Ev_s_i x y) conn d opaque = s_i_callback lib conn d x y opaque"
| "invoke lib (Ev_s_i_i x y z) conn d opaque = s_i_i_callback lib conn d x y z opaque"
| "invoke lib (Ev_s_s_i x y z) conn d opaque = s_s_i_callback lib conn d x y z opaque"
| "invoke lib (Ev_s_s_i_s x y z a) conn d opaque = s_s_i_s_callback lib conn d x y z a opaque"
| "invoke lib (Ev_s_s_s_i x y z a) conn d opaque = s_s_s_i_callback lib conn d x y z a opaque"
| "invoke lib (Ev_graphics i a b s g) conn d opaque = i_ga_ga_s_gs_callback lib conn d i a b s g opaque"

text \<open>The value OCaml expects for each event: a tuple of its arguments.\<close>

definition ml_address :: "virDomainEventGraphicsAddress \<Rightarrow> mlvalue" where
  "ml_address a = VBlock 0 [VInt (sint (ga_family a)), ml_option VString (ga_node a), ml_option VString (ga_service a)]"

definition ml_identity :: "virDomainEventGraphicsSubjectIdentity \<Rightarrow> mlvalue" where
  "ml_identity i = VBlock 0 [ml_option VString (gi_type i), ml_option VString (gi_name i)]"

fun event_value :: "event \<Rightarrow> mlvalue" where
  "event_value Ev_u = VInt 0"
| "event_value (Ev_i x) = VInt (sint x)"
| "event_value (Ev_i64 x) = VInt64 x"
| "event_value (Ev_i_i x y) = VBlock 0 [VInt (sint x), VInt (sint y)]"
| "event_value (Ev_s_i x y) = VBlock 0 [ml_option VString x, VInt (sint y)]"
| "event_value (Ev_s_i_i x y z) = VBlock 0 [ml_option VString x, VInt (sint y), VInt (sint z)]"
| "event_value (Ev_s_s_i x y z) = VBlock 0 [ml_option VString x, ml_option VString y, VInt (sint z)]"
| "event_value (Ev_s_s_i_s x y z a) = VBlock 0 [ml_option VString x, ml_option VString y, VInt (sint z), ml_option VString a]"
| "event_value (Ev_s_s_s_i x y z a) = VBlock 0 [ml_option VString x, ml_option VString y, ml_option VString z, VInt (sint a)]"
| "event_value (Ev_graphics i a b s g) =
     VBlock 0 [VInt (sint i), ml_address a, ml_address b, ml_option VString s, VBlock 0 (map ml_identity g)]"

subsection \<open>What libvirt and the generated stub promise\<close>

text \<open>The numbers of the enumerators (libvirt-domain.h). The constructors of \<open>callback\<close> have to be in this
  order.\<close>

definition event_ids_ok :: "('v, 'z) libvirt_scheme \<Rightarrow> bool" where
  "event_ids_ok lib \<longleftrightarrow>
     map (vc lib) [VIR_DOMAIN_EVENT_ID_LIFECYCLE, VIR_DOMAIN_EVENT_ID_REBOOT, VIR_DOMAIN_EVENT_ID_RTC_CHANGE,
       VIR_DOMAIN_EVENT_ID_WATCHDOG, VIR_DOMAIN_EVENT_ID_IO_ERROR, VIR_DOMAIN_EVENT_ID_GRAPHICS,
       VIR_DOMAIN_EVENT_ID_IO_ERROR_REASON, VIR_DOMAIN_EVENT_ID_CONTROL_ERROR, VIR_DOMAIN_EVENT_ID_BLOCK_JOB,
       VIR_DOMAIN_EVENT_ID_DISK_CHANGE, VIR_DOMAIN_EVENT_ID_TRAY_CHANGE, VIR_DOMAIN_EVENT_ID_PMWAKEUP,
       VIR_DOMAIN_EVENT_ID_PMSUSPEND, VIR_DOMAIN_EVENT_ID_BALLOON_CHANGE, VIR_DOMAIN_EVENT_ID_PMSUSPEND_DISK] =
     [0, 1, 2, 3, 4, 5, 6, 7, 8, 9, 10, 11, 12, 13, 14]"

text \<open>Taking a reference to a domain or connection that libvirt has passed to a callback succeeds.\<close>

definition refs_ok :: "('l event_env, 'z) libvirt_events_scheme \<Rightarrow> bool" where
  "refs_ok lib \<longleftrightarrow>
     (\<forall>p v. fst (virDomainRef lib p v) \<noteq> - 1 \<and> oc (snd (virDomainRef lib p v)) = oc v \<and> regs (snd (virDomainRef lib p v)) = regs v) \<and>
     (\<forall>p v. fst (virConnectRef lib p v) \<noteq> - 1 \<and> oc (snd (virConnectRef lib p v)) = oc v \<and> regs (snd (virConnectRef lib p v)) = regs v)"

text \<open>A registration fails or adds the callback under a number that is not in use.\<close>

definition register_ok :: "('l event_env, 'z) libvirt_events_scheme \<Rightarrow> ptr \<Rightarrow> bool" where
  "register_ok lib conn \<longleftrightarrow>
     (\<forall>d ev k opaque v. case virConnectDomainEventRegisterAny lib conn d ev k opaque v of (r, v') \<Rightarrow>
        oc v' = oc v \<and>
        (if r = - 1 then regs v' = regs v else regs v r = None \<and> regs v' = (regs v)(r \<mapsto> (k, opaque))))"

text \<open>The generated stub of \<open>virConnectDomainEventDeregisterAny\<close> raises an exception and leaves the registrations alone, or
  libvirt drops the registration; the opaque block, and no other, is released (with \<open>freecb\<close>, which is \<open>free\<close>) then or
  later, when libvirt next cleans up.\<close>

definition deregister_ok :: "(mlvalue \<Rightarrow> mlvalue \<Rightarrow> ('l evworld, mlvalue) stub) \<Rightarrow> ptr \<Rightarrow> bool" where
  "deregister_ok dereg conn \<longleftrightarrow>
     (\<forall>n w. case dereg (Val_connect conn) (VInt (sint (n :: c_int))) w of
        (Inl e, w') \<Rightarrow> ocw w' = ocw w \<and> regw w' = regw w \<and> cells w' = cells w \<and> cheap w' = cheap w
      | (Inr _, w') \<Rightarrow> ocw w' = ocw w \<and> cells w' = cells w \<and> regw w' = (regw w)(n := None) \<and>
          (cheap w' = cheap w \<or> (\<exists>k opaque. regw w n = Some (k, opaque) \<and> free opaque (cheap w) = Inr (cheap w'))))"

subsection \<open>The transition system\<close>

datatype action =
    Registering callback "64 word ml"
  | Deregistering "64 word" "unit ml"
  | Raising c_int ptr event "unit ml"
  | Other

text \<open>What the rest of the program does meanwhile: it leaves the event tables, the registrations and their
  opaque blocks alone; it may draw a number (timers use the same counter).\<close>

definition unrelated :: "'l evworld \<Rightarrow> 'l evworld \<Rightarrow> bool" where
  "unrelated w w' \<longleftrightarrow>
     (ocw w' = ocw w \<or> ocw w' = snd (fresh_callback_id (ocw w))) \<and> regw w' = regw w \<and> heap_wf (cheap w') \<and>
     (\<forall>n k opaque. regw w n = Some (k, opaque) \<longrightarrow> opaque \<in> live (cheap w') \<and> cells w' opaque = cells w opaque)"

inductive event_step ::
  "('l event_env, 'z) libvirt_events_scheme \<Rightarrow> (mlvalue \<Rightarrow> mlvalue \<Rightarrow> ('l evworld, mlvalue) stub) \<Rightarrow> ptr \<Rightarrow>
   'l evworld \<Rightarrow> action \<Rightarrow> 'l evworld \<Rightarrow> bool" for lib dereg conn where
  step_register: "register_any lib conn d cb w = (r, w') \<Longrightarrow> event_step lib dereg conn w (Registering cb r) w'"
| step_deregister: "deregister_any dereg conn ident w = (r, w') \<Longrightarrow> event_step lib dereg conn w (Deregistering ident r) w'"
| step_event: "regw w n = Some (event_signature ev, opaque) \<Longrightarrow> invoke (linked lib) ev conn d opaque w = (r, w') \<Longrightarrow>
    event_step lib dereg conn w (Raising n d ev r) w'"
| step_other: "unrelated w w' \<Longrightarrow> event_step lib dereg conn w Other w'"

definition initial :: "'l evworld \<Rightarrow> bool" where
  "initial w \<longleftrightarrow> heap_wf (cheap w) \<and> regw w = (\<lambda>_. None) \<and>
     ocw w = \<lparr>next_id = 0, table = (\<lambda>_ _. []), our_id_to_libvirt_id = (\<lambda>_. []), called = []\<rparr>"

inductive event_reach ::
  "('l event_env, 'z) libvirt_events_scheme \<Rightarrow> (mlvalue \<Rightarrow> mlvalue \<Rightarrow> ('l evworld, mlvalue) stub) \<Rightarrow> ptr \<Rightarrow>
   nat \<Rightarrow> 'l evworld \<Rightarrow> bool" for lib dereg conn where
  reach_initial: "initial w \<Longrightarrow> event_reach lib dereg conn 0 w"
| reach_step: "event_reach lib dereg conn n w \<Longrightarrow> event_step lib dereg conn w a w' \<Longrightarrow> event_reach lib dereg conn (Suc n) w'"

subsection \<open>The specification\<close>

text \<open>Subscriptions map the user's number to libvirt's number and the function; deliveries are a list.\<close>

type_synonym spec_state = "(64 word \<Rightarrow> (c_int \<times> callback) option) \<times> (callback \<times> mlvalue \<times> mlvalue) list"

inductive spec_step :: "ptr \<Rightarrow> spec_state \<Rightarrow> action \<Rightarrow> spec_state \<Rightarrow> bool" for conn where
  subscribed: "subs ident = None \<Longrightarrow> (\<And>i cb'. subs i \<noteq> Some (n, cb')) \<Longrightarrow>
    spec_step conn (subs, out) (Registering cb (Inr ident)) (subs(ident \<mapsto> (n, cb)), out)"
| not_subscribed: "spec_step conn (subs, out) (Registering cb (raise e)) (subs, out)"
| unsubscribed: "spec_step conn (subs, out) (Deregistering ident (Inr ())) (subs(ident := None), out)"
| not_unsubscribed: "spec_step conn (subs, out) (Deregistering ident (Inl e)) (subs, out)"
| delivered: "subs ident = Some (n, cb) \<Longrightarrow>
    spec_step conn (subs, out) (Raising n d ev (Inr ()))
      (subs, out @ [(cb, VBlock 0 [Val_dom d, Val_connect conn], event_value ev)])"
| unaffected: "spec_step conn s Other s"

text \<open>The state that the events share with \<open>CallbackTables\<close>.\<close>

definition event_view :: "'l evworld \<Rightarrow> (event_callback, callback) demux" where
  "event_view w = \<lparr>d_next = next_id (ocw w), d_tab = table (ocw w), d_ids = our_id_to_libvirt_id (ocw w), d_reg = regw w,
     d_cell = cells w, d_live = live (cheap w)\<rparr>"

abbreviation subscriptions :: "'l evworld \<Rightarrow> 64 word \<Rightarrow> (c_int \<times> callback) option" where
  "subscriptions w \<equiv> bound (event_view w)"

definition event_abs :: "'l evworld \<Rightarrow> spec_state" where
  "event_abs w = (subscriptions w, called (ocw w))"

subsection \<open>Invariant\<close>

definition events_inv :: "nat \<Rightarrow> 'l evworld \<Rightarrow> bool" where
  "events_inv m w \<longleftrightarrow> heap_wf (cheap w) \<and> unat (next_id (ocw w)) \<le> m \<and> demux_inv (event_view w)"

lemma event_view_simps [simp]:
  "d_next (event_view w) = next_id (ocw w)" "d_tab (event_view w) = table (ocw w)" "d_ids (event_view w) = our_id_to_libvirt_id (ocw w)"
  "d_reg (event_view w) = regw w" "d_cell (event_view w) = cells w" "d_live (event_view w) = live (cheap w)"
  by (simp_all add: event_view_def)

lemma linked_simps [simp]:
  "vc (linked lib) = vc lib" "virDomainRef (linked lib) = virDomainRef lib" "virConnectRef (linked lib) = virConnectRef lib"
  "virConnectDomainEventRegisterAny (linked lib) = virConnectDomainEventRegisterAny lib"
  "virGetLastError (linked lib) = virGetLastError lib"
  by (simp_all add: linked_def)

lemma mapO_simps [simp]:
  "ocw (mapO f w) = f (ocw w)" "regw (mapO f w) = regw w" "cheap (mapO f w) = cheap w" "cells (mapO f w) = cells w"
  by (simp_all add: mapO_def)

text \<open>The signature libvirt documents for the callback of each event (\<open>virConnectDomainEventGenericCallback\<close>
  and its variants).\<close>

fun callback_signature :: "callback \<Rightarrow> event_callback" where
  "callback_signature (Lifecycle f) = I_i_callback"
| "callback_signature (Reboot f) = U_callback"
| "callback_signature (RtcChange f) = I64_callback"
| "callback_signature (Watchdog f) = I_callback"
| "callback_signature (IOError f) = S_s_i_callback"
| "callback_signature (Graphics f) = I_ga_ga_s_gs_callback"
| "callback_signature (IOErrorReason f) = S_s_i_s_callback"
| "callback_signature (ControlError f) = U_callback"
| "callback_signature (BlockJob f) = S_i_i_callback"
| "callback_signature (DiskChange f) = S_s_s_i_callback"
| "callback_signature (TrayChange f) = S_i_callback"
| "callback_signature (PMWakeUp f) = I_callback"
| "callback_signature (PMSuspend f) = I_callback"
| "callback_signature (BalloonChange f) = I64_callback"
| "callback_signature (PMSuspendDisk f) = I_callback"

text \<open>The table of the OCaml side and the callback of the C side agree for every kind of event.\<close>

lemma callback_kind:
  assumes "event_ids_ok lib"
  obtains tag f k where "callback_value cb = VBlock tag [VClosure f]" "event_switch lib (of_nat tag) = Some k"
    "\<And>ident s. add_callback cb ident s = table_add k ident cb s" "k = callback_signature cb"
proof -
  have "\<exists>tag f k. callback_value cb = VBlock tag [VClosure f] \<and> event_switch lib (of_nat tag) = Some k \<and>
      (\<forall>ident s. add_callback cb ident s = table_add k ident cb s) \<and> k = callback_signature cb"
    using assms by (cases cb) (simp_all add: event_ids_ok_def event_switch_def)
  with that show ?thesis by blast
qed

text \<open>The function found under the name of a table runs on that table.\<close>

lemma named_callback [simp]:
  "\<exists>f. caml_named_value (linked lib) (value_name k) = Some f \<and>
    (\<forall>ident d x w. caml_callback3 (linked lib) f (VInt64 ident) d x w = mapO (table_callback k ident d x) w)"
  by (cases k) (simp_all add: linked_def all_tables_def)

lemma graphics_values:
  "Val_event_graphics_address a = Inr (ml_address a)" "Val_event_graphics_subject_identity i = Inr (ml_identity i)"
  "Val_event_graphics_subject g = Inr (VBlock 0 (map ml_identity g))"
  by (simp_all add: Val_event_graphics_address_def Val_event_graphics_subject_identity_def
      Val_event_graphics_subject_def ml_address_def ml_identity_def array_of_reads [where g = ml_identity])

text \<open>Every C callback encodes its arguments and goes to the function of its signature.\<close>

lemma invoke_eq:
  "invoke lib ev conn d opaque =
     DOMAIN_CALLBACK lib (value_name (event_signature ev)) conn d opaque (Inr (event_value ev))"
  by (cases ev)
     (simp_all add: u_callback_def i_callback_def i64_callback_def i_i_callback_def s_i_callback_def s_i_i_callback_def
      s_s_i_callback_def s_s_i_s_callback_def s_s_s_i_callback_def i_ga_ga_s_gs_callback_def graphics_values)

lemma callback_run:
  assumes "refs_ok lib" and "opaque \<in> live (cheap w)"
  obtains v where "DOMAIN_CALLBACK (linked lib) (value_name k) conn d opaque (Inr x) w =
      (Inr (), mapO (table_callback k (cells w opaque) (VBlock 0 [Val_dom d, Val_connect conn]) x) (w\<lparr>vir := v\<rparr>))"
    "oc v = ocw w" "regs v = regw w" "v = snd (virConnectRef lib conn (snd (virDomainRef lib d (vir w))))"
proof -
  obtain f where f: "caml_named_value (linked lib) (value_name k) = Some f"
    "\<And>ident d x w. caml_callback3 (linked lib) f (VInt64 ident) d x w = mapO (table_callback k ident d x) w"
    using named_callback [of lib k] by blast
  obtain r1 v1 where v1: "virDomainRef lib d (vir w) = (r1, v1)" by fastforce
  obtain r2 v2 where v2: "virConnectRef lib conn v1 = (r2, v2)" by fastforce
  from assms(1) v1 have 1: "r1 \<noteq> - 1" "oc v1 = ocw w" "regs v1 = regw w"
    unfolding refs_ok_def by (metis fst_conv snd_conv)+
  from assms(1) v2 have 2: "r2 \<noteq> - 1" "oc v2 = oc v1" "regs v2 = regs v1"
    unfolding refs_ok_def by (metis fst_conv snd_conv)+
  show ?thesis
    using assms(2) 1 2 by (intro that [of v2])
      (simp_all add: DOMAIN_CALLBACK_def f stub_simps v1 v2 bindS_def [of "opaque_value _"] opaque_value_def)
qed

text \<open>A registration: the table entry is made first, then the C stub allocates the opaque block and calls
  libvirt.\<close>

lemma bind_new_opaque [stub_simps]:
  "bindS (new_opaque (VInt64 ident)) f w =
     (case malloc (cheap w) of
        (None, H) \<Rightarrow> (raise Out_of_memory, w\<lparr>cheap := H\<rparr>)
      | (Some a, H) \<Rightarrow> f a (w\<lparr>cheap := H, cells := (cells w)(a := ident)\<rparr>))"
  by (simp add: new_opaque_def bindS_assoc stub_simps)
     (simp add: bindS_def raiseS_def raise_def split: prod.splits option.splits)

lemma register_stub:
  assumes "event_switch lib (of_nat tag) = Some k"
  shows "ocaml_libvirt_connect_domain_event_register_any lib (Val_connect conn)
      (ml_option (\<lambda>d. VBlock 0 [Val_dom d, Val_connect conn]) d) (VBlock tag fs) (VInt64 ident) w =
    (case malloc (cheap w) of
       (None, H) \<Rightarrow> (raise Out_of_memory, w\<lparr>cheap := H\<rparr>)
     | (Some opaque, H) \<Rightarrow>
         (case virConnectDomainEventRegisterAny lib conn (case d of None \<Rightarrow> 0 | Some d \<Rightarrow> d) (of_nat tag) k opaque (vir w) of
            (r, v) \<Rightarrow>
              let w2 = w\<lparr>cheap := H, cells := (cells w)(opaque := ident), vir := v\<rparr>
              in (if r = - 1 then raise (virterror_exn lib ''virConnectDomainEventRegisterAny'' v) else Inr (VInt (sint r)), w2)))"
  by (cases d) (simp_all add: ocaml_libvirt_connect_domain_event_register_any_def assms stub_simps Let_def
      split: prod.splits option.splits)

lemma register_run:
  assumes "callback_value cb = VBlock tag [VClosure f]" and "event_switch lib (of_nat tag) = Some k"
  shows "register_any lib conn d cb w =
    (let ident = next_id (ocw w); w1 = mapO (\<lambda>s. add_callback cb ident (snd (fresh_callback_id s))) w
     in case malloc (cheap w) of
          (None, H) \<Rightarrow> (raise Out_of_memory, w1\<lparr>cheap := H\<rparr>)
        | (Some opaque, H) \<Rightarrow>
            (case virConnectDomainEventRegisterAny lib conn (case d of None \<Rightarrow> 0 | Some d \<Rightarrow> d) (of_nat tag) k opaque (vir w1) of
               (r, v) \<Rightarrow>
                 let w2 = w1\<lparr>cheap := H, cells := (cells w)(opaque := ident), vir := v\<rparr>
                 in if r = - 1 then (raise (virterror_exn (linked lib) ''virConnectDomainEventRegisterAny'' v), w2)
                    else (Inr ident, mapO (\<lambda>s. s\<lparr>our_id_to_libvirt_id :=
                           Hashtbl_replace (our_id_to_libvirt_id s) ident (sint r)\<rparr>) w2)))"
proof -
  have "event_switch (linked lib) (of_nat tag) = Some k"
    using assms(2) by (simp only: event_switch_def linked_simps)
  from register_stub [OF this] show ?thesis
    by (simp add: register_any_def fresh_callback_id_def assms(1) bindS_def raise_def Let_def mapO_def
        split: prod.splits option.splits)
qed

text \<open>The two outcomes of a registration.\<close>

lemma register_cases:
  assumes "event_ids_ok lib" and "register_ok lib conn" and "register_any lib conn d cb w = (r, w')"
    and "heap_wf (cheap w)"
  obtains
    (fails) k e where "r = raise e" "ocw w' = table_add k (next_id (ocw w)) cb (snd (fresh_callback_id (ocw w)))"
      "regw w' = regw w" "live (cheap w) \<subseteq> live (cheap w')" "heap_wf (cheap w')"
      "\<forall>a \<in> live (cheap w). cells w' a = cells w a"
  | (registered) k n opaque where "r = Inr (next_id (ocw w))"
      "ocw w' = (let s = table_add k (next_id (ocw w)) cb (snd (fresh_callback_id (ocw w)))
         in s\<lparr>our_id_to_libvirt_id := Hashtbl_replace (our_id_to_libvirt_id s) (next_id (ocw w)) (sint n)\<rparr>)"
      "regw w n = None" "regw w' = (regw w)(n \<mapsto> (k, opaque))" "cells w' = (cells w)(opaque := next_id (ocw w))"
      "opaque \<notin> live (cheap w)" "live (cheap w') = insert opaque (live (cheap w))" "heap_wf (cheap w')"
      "k = callback_signature cb"
proof -
  let ?id = "next_id (ocw w)" and ?s = "snd (fresh_callback_id (ocw w))"
  obtain tag f k where k: "callback_value cb = VBlock tag [VClosure f]" "event_switch lib (of_nat tag) = Some k"
    "\<And>ident s. add_callback cb ident s = table_add k ident cb s" "k = callback_signature cb"
    using callback_kind [OF assms(1), of cb] by metis
  obtain a H where H: "malloc (cheap w) = (a, H)" by fastforce
  let ?w1 = "mapO (\<lambda>s. table_add k ?id cb (snd (fresh_callback_id s))) w"
  note run = register_run [OF k(1,2), of conn d w, unfolded assms(3) k(3) H]
  show ?thesis
  proof (cases a)
    case None
    then show ?thesis
      using run c_heap.alloc_fail [OF assms(4)] H by (intro fails [of Out_of_memory k]) (simp_all add: Let_def)
  next
    case (Some opaque)
    note fresh = c_heap.alloc_fresh [OF assms(4) H [unfolded Some]]
    obtain n v where v: "virConnectDomainEventRegisterAny lib conn (case d of None \<Rightarrow> 0 | Some d \<Rightarrow> d) (of_nat tag) k opaque (vir ?w1) = (n, v)"
      by fastforce
    from assms(2) have "case virConnectDomainEventRegisterAny lib conn p ev k opaque x of (r, v') \<Rightarrow> oc v' = oc x \<and>
        (if r = - 1 then regs v' = regs x else regs x r = None \<and> regs v' = (regs x)(r \<mapsto> (k, opaque)))" for p ev x
      unfolding register_ok_def by auto
    from this [where p = "case d of None \<Rightarrow> 0 | Some d \<Rightarrow> d" and ev = "of_nat tag" and x = "vir ?w1", unfolded v]
    have law: "oc v = ocw ?w1" "if n = - 1 then regs v = regw ?w1 else regw ?w1 n = None \<and> regs v = (regw ?w1)(n \<mapsto> (k, opaque))"
      by (simp_all split: if_splits)
    show ?thesis
    proof (cases "n = - 1")
      case True
      with run law fresh v show ?thesis
        by (intro fails [of "virterror_exn (linked lib) ''virConnectDomainEventRegisterAny'' v" k]) (auto simp: Some Let_def)
    next
      case False
      with run law fresh v show ?thesis
        by (intro registered [where n = n and k = k and opaque = opaque]) (auto simp: Some Let_def k(4))
    qed
  qed
qed

lemma remove_from_tables_eq:
  "remove_from_tables i s =
     s\<lparr>table := (\<lambda>k. Hashtbl_remove (table s k) i), our_id_to_libvirt_id := Hashtbl_remove (our_id_to_libvirt_id s) i\<rparr>"
proof -
  have "(table s)(U_callback := Hashtbl_remove (table s U_callback) i, I_callback := Hashtbl_remove (table s I_callback) i,
      I64_callback := Hashtbl_remove (table s I64_callback) i, I_i_callback := Hashtbl_remove (table s I_i_callback) i,
      S_i_callback := Hashtbl_remove (table s S_i_callback) i, S_i_i_callback := Hashtbl_remove (table s S_i_i_callback) i,
      S_s_i_callback := Hashtbl_remove (table s S_s_i_callback) i, S_s_i_s_callback := Hashtbl_remove (table s S_s_i_s_callback) i,
      S_s_s_i_callback := Hashtbl_remove (table s S_s_s_i_callback) i,
      I_ga_ga_s_gs_callback := Hashtbl_remove (table s I_ga_ga_s_gs_callback) i) = (\<lambda>k. Hashtbl_remove (table s k) i)"
    (is "?t = _")
  proof
    show "?t k = Hashtbl_remove (table s k) i" for k by (cases k) simp_all
  qed
  then show ?thesis by (simp add: remove_from_tables_def all_tables_def)
qed

text \<open>Consequences of the invariant.\<close>

lemma events_invD:
  assumes "events_inv m w"
  shows "heap_wf (cheap w)" "unat (next_id (ocw w)) \<le> m" "demux_inv (event_view w)"
  using assms unfolding events_inv_def by blast+

lemmas events_demuxD = demux_invD [OF events_invD(3), simplified]
lemmas events_unused = demux_unused [OF events_invD(3), simplified]

lemma deregister_cases:
  assumes "deregister_ok dereg conn" and "events_inv m w" and "deregister_any dereg conn ident w = (r, w')"
  obtains
    (fails) e where "r = Inl e" "ocw w' = ocw w" "regw w' = regw w" "cells w' = cells w" "cheap w' = cheap w"
  | (unknown) "r = Inr ()" "our_id_to_libvirt_id (ocw w) ident = []" "w' = mapO (remove_from_tables ident) w"
  | (removed) n k opaque where "r = Inr ()" "our_id_to_libvirt_id (ocw w) ident = [sint n]" "regw w n = Some (k, opaque)"
      "cells w opaque = ident" "ocw w' = remove_from_tables ident (ocw w)" "cells w' = cells w"
      "regw w' = (regw w)(n := None)" "live (cheap w) - {opaque} \<subseteq> live (cheap w')" "heap_wf (cheap w')"
proof (cases "our_id_to_libvirt_id (ocw w) ident")
  case Nil
  with assms(3) have "r = Inr ()" "w' = mapO (remove_from_tables ident) w"
    by (simp_all add: deregister_any_def Hashtbl_mem_def stub_simps)
  with Nil show ?thesis by (intro unknown)
next
  case (Cons x xs)
  with events_demuxD(4) [OF assms(2), of ident] have x: "our_id_to_libvirt_id (ocw w) ident = [x]" by simp
  from events_demuxD(8) [OF assms(2) x] obtain n k opaque
    where n: "x = sint n" "regw w n = Some (k, opaque)" "cells w opaque = ident" by blast
  obtain r1 w1 where d: "dereg (Val_connect conn) (VInt (sint n)) w = (r1, w1)" by fastforce
  have run: "(r, w') = (case r1 of Inl e \<Rightarrow> (Inl e, w1) | Inr y \<Rightarrow> (Inr (), mapO (remove_from_tables ident) w1))"
    using assms(3) by (simp add: deregister_any_def Hashtbl_mem_def Hashtbl_find_def x n stub_simps bindS_def d split: sum.splits)
  from assms(1) have law: "case (r1, w1) of
        (Inl e, w') \<Rightarrow> ocw w' = ocw w \<and> regw w' = regw w \<and> cells w' = cells w \<and> cheap w' = cheap w
      | (Inr _, w') \<Rightarrow> ocw w' = ocw w \<and> cells w' = cells w \<and> regw w' = (regw w)(n := None) \<and>
          (cheap w' = cheap w \<or> (\<exists>k opaque. regw w n = Some (k, opaque) \<and> free opaque (cheap w) = Inr (cheap w')))"
    unfolding deregister_ok_def d [symmetric] by (elim allE)
  show ?thesis
  proof (cases r1)
    case (Inl e)
    with run law show ?thesis by (intro fails [of e]) simp_all
  next
    case (Inr y)
    with law have l: "ocw w1 = ocw w" "cells w1 = cells w" "regw w1 = (regw w)(n := None)"
      "cheap w1 = cheap w \<or> free opaque (cheap w) = Inr (cheap w1)" by (simp_all add: n(2))
    with c_heap.dealloc_ok [of "cheap w" opaque] events_invD(1) [OF assms(2)] events_demuxD(5) [OF assms(2)] n(2)
    have h: "live (cheap w) - {opaque} \<subseteq> live (cheap w1)" "heap_wf (cheap w1)" by auto
    from run Inr x n l h show ?thesis by (intro removed [where n = n and k = k and opaque = opaque]) simp_all
  qed
qed


text \<open>Each kind of step makes one of the changes of \<open>CallbackTables\<close>.\<close>

definition events_change :: "'l evworld \<Rightarrow> callback change \<Rightarrow> 'l evworld \<Rightarrow> bool" where
  "events_change w c w' \<longleftrightarrow> heap_wf (cheap w') \<and> demux_step (event_view w) c (event_view w')"

lemma events_change_inv:
  assumes "events_inv m w" and "m < 2 ^ 64 - 1" and "events_change w c w'"
  shows "events_inv (Suc m) w'" and "subscriptions w' = apply_change c (subscriptions w)"
proof -
  from events_invD(2) [OF assms(1)] assms(2) have less: "unat (d_next (event_view w)) < 2 ^ 64 - 1" by simp
  from assms(3) have "demux_step (event_view w) c (event_view w')" by (simp add: events_change_def)
  from demux_step_inv [OF this events_invD(3) [OF assms(1)] less] assms(3) events_invD(2) [OF assms(1)]
  show "events_inv (Suc m) w'" "subscriptions w' = apply_change c (subscriptions w)"
    by (auto simp: events_change_def events_inv_def)
qed

lemma register_change:
  assumes "event_ids_ok lib" "register_ok lib conn" "events_inv m w" and "register_any lib conn d cb w = (r, w')"
  obtains (fails) e where "r = raise e" "events_change w Unchanged w'" "called (ocw w') = called (ocw w)"
  | (registered) n where "r = Inr (next_id (ocw w))" "events_change w (Bound (next_id (ocw w)) n cb) w'"
      "called (ocw w') = called (ocw w)"
  using assms(1,2,4) events_invD(1) [OF assms(3)]
proof (cases rule: register_cases)
  case (fails k e)
  have "demux_step (event_view w) Unchanged (event_view w')"
    using fails(3,4,6) events_demuxD(5) [OF assms(3)] events_unused [OF assms(3)]
    by (intro refused [where k = k and cb = cb])
       (auto simp: fails(2) table_add_def Hashtbl_add_def fresh_callback_id_def blocks_kept_def)
  with fails that(1) [of e] show ?thesis by (simp add: events_change_def table_add_def fresh_callback_id_def)
next
  case (registered k n opaque)
  have "demux_step (event_view w) (Bound (d_next (event_view w)) n cb) (event_view w')"
    using registered(3) events_demuxD(5) [OF assms(3)] events_unused [OF assms(3)] registered(6)
    by (intro CallbackTables.registered [where k = k and opaque = opaque])
       (auto simp: registered(2,4,5,7) table_add_def hashtbl_defs fresh_callback_id_def blocks_kept_def Let_def)
  with registered that(2) [of n] show ?thesis by (simp add: events_change_def table_add_def fresh_callback_id_def Let_def)
qed

lemma deregister_change:
  assumes "deregister_ok dereg conn" "events_inv m w" and "deregister_any dereg conn ident w = (r, w')"
  obtains (fails) e where "r = Inl e" "events_change w Unchanged w'" "called (ocw w') = called (ocw w)"
  | (removed) "r = Inr ()" "events_change w (Unbound ident) w'" "called (ocw w') = called (ocw w)"
  using assms
proof (cases rule: deregister_cases)
  case (fails e)
  then have "events_change w Unchanged w'"
    using events_invD(1) [OF assms(2)] events_demuxD(5) [OF assms(2)]
    by (auto simp: events_change_def blocks_kept_def intro!: kept)
  with that(1) fails show ?thesis by simp
next
  case unknown
  have "demux_step (event_view w) (Unbound ident) (event_view w')"
    using unknown(2) events_demuxD(5) [OF assms(2)]
    by (intro forgotten) (auto simp: unknown(3) remove_from_tables_eq Hashtbl_remove_def blocks_kept_def fun_upd_idem)
  with that(2) unknown events_invD(1) [OF assms(2)] show ?thesis by (simp add: events_change_def remove_from_tables_eq)
next
  case (removed n k opaque)
  have "op \<in> live (cheap w')" if "regw w n' = Some (k', op)" "n' \<noteq> n" for n' k' op
    using demux_unique [OF events_invD(3) [OF assms(2)], of n k opaque n' k' op] removed(3,8) that
      events_demuxD(5) [OF assms(2) that(1)] by auto
  then have "demux_step (event_view w) (Unbound ident) (event_view w')"
    using removed(2-4)
    by (intro CallbackTables.removed [where n = n and k = k and opaque = opaque])
       (auto simp: removed(5-7) remove_from_tables_eq Hashtbl_remove_def blocks_kept_def)
  with that(2) removed show ?thesis by (simp add: events_change_def remove_from_tables_eq)
qed

lemma other_change:
  assumes "unrelated w w'"
  shows "events_change w Unchanged w'" and "called (ocw w') = called (ocw w)"
  using assms by (auto simp: unrelated_def events_change_def fresh_callback_id_def blocks_kept_def intro!: kept)

lemma event_run:
  assumes "refs_ok lib" and "events_inv m w" and "regw w n = Some (event_signature ev, opaque)"
    and "invoke (linked lib) ev conn d opaque w = (r, w')"
  obtains cb where "r = Inr ()" "table (ocw w) (event_signature ev) (cells w opaque) = [cb]"
    "ocw w' = (ocw w)\<lparr>called := called (ocw w) @ [(cb, VBlock 0 [Val_dom d, Val_connect conn], event_value ev)]\<rparr>"
    "regw w' = regw w" "cheap w' = cheap w" "cells w' = cells w"
proof -
  obtain cb where cb: "table (ocw w) (event_signature ev) (cells w opaque) = [cb]"
    using events_demuxD(6) [OF assms(2,3)] ..
  obtain v where "DOMAIN_CALLBACK (linked lib) (value_name (event_signature ev)) conn d opaque (Inr (event_value ev)) w =
      (Inr (), mapO (table_callback (event_signature ev) (cells w opaque) (VBlock 0 [Val_dom d, Val_connect conn]) (event_value ev)) (w\<lparr>vir := v\<rparr>))"
    "oc v = ocw w" "regs v = regw w"
    using callback_run [OF assms(1) events_demuxD(5) [OF assms(2,3)]] by metis
  with assms(4) cb show ?thesis
    by (intro that [of cb]) (auto simp: invoke_eq table_callback_def Hashtbl_mem_def Hashtbl_find_def)
qed

lemma event_change:
  assumes "refs_ok lib" and "events_inv m w" and "regw w n = Some (event_signature ev, opaque)"
    and "invoke (linked lib) ev conn d opaque w = (r, w')"
  obtains cb where "r = Inr ()" "subscriptions w (cells w opaque) = Some (n, cb)" "events_change w Unchanged w'"
    "called (ocw w') = called (ocw w) @ [(cb, VBlock 0 [Val_dom d, Val_connect conn], event_value ev)]"
proof (rule event_run [OF assms])
  fix cb
  assume run: "r = Inr ()" "table (ocw w) (event_signature ev) (cells w opaque) = [cb]"
    "ocw w' = (ocw w)\<lparr>called := called (ocw w) @ [(cb, VBlock 0 [Val_dom d, Val_connect conn], event_value ev)]\<rparr>"
    "regw w' = regw w" "cheap w' = cheap w" "cells w' = cells w"
  have "subscriptions w (cells w opaque) = Some (n, cb)"
    using assms(3) run(2) by (auto simp: bound_iff [OF events_invD(3) [OF assms(2)]])
  moreover have "events_change w Unchanged w'"
    using run events_invD(1) [OF assms(2)] events_demuxD(5) [OF assms(2)]
    by (auto simp: events_change_def blocks_kept_def intro!: kept)
  ultimately show thesis using that [of cb] run by simp
qed

text \<open>Every step keeps the invariant and refines the specification.\<close>

lemma step_inv_refines:
  assumes "event_ids_ok lib" "refs_ok lib" "register_ok lib conn" "deregister_ok dereg conn"
    and inv: "events_inv m w" and "m < 2 ^ 64 - 1" and "event_step lib dereg conn w a w'"
  shows "events_inv (Suc m) w' \<and> spec_step conn (event_abs w) a (event_abs w')"
  using assms(7)
proof cases
  case (step_register d cb r)
  from assms(1,3) inv step_register(2) show ?thesis
  proof (cases rule: register_change)
    case (fails e)
    with step_register events_change_inv [OF inv assms(6) fails(2)] spec_step.not_subscribed show ?thesis
      by (simp add: event_abs_def)
  next
    case (registered n)
    from step_bound_fresh [OF registered(2) [unfolded events_change_def, THEN conjunct2] events_invD(3) [OF inv]]
      events_change_inv [OF inv assms(6) registered(2)] step_register registered
    show ?thesis by (simp add: event_abs_def spec_step.subscribed)
  qed
next
  case (step_deregister ident r)
  from assms(4) inv step_deregister(2) show ?thesis
  proof (cases rule: deregister_change)
    case (fails e)
    with events_change_inv [OF inv assms(6) fails(2)] step_deregister spec_step.not_unsubscribed show ?thesis
      by (simp add: event_abs_def)
  next
    case removed
    with events_change_inv [OF inv assms(6) removed(2)] step_deregister spec_step.unsubscribed show ?thesis
      by (simp add: event_abs_def)
  qed
next
  case (step_event n ev opaque d r)
  from assms(2) inv step_event(2,3) show ?thesis
  proof (rule event_change)
    fix cb
    assume cb: "r = Inr ()" "subscriptions w (cells w opaque) = Some (n, cb)" "events_change w Unchanged w'"
      "called (ocw w') = called (ocw w) @ [(cb, VBlock 0 [Val_dom d, Val_connect conn], event_value ev)]"
    with events_change_inv [OF inv assms(6) cb(3)] step_event show ?thesis
      by (simp add: event_abs_def spec_step.delivered)
  qed
next
  case step_other
  from events_change_inv [OF inv assms(6) other_change(1) [OF step_other(2)]] other_change(2) [OF step_other(2)] step_other
  show ?thesis by (simp add: event_abs_def spec_step.unaffected)
qed

lemma reach_inv:
  assumes "event_ids_ok lib" "refs_ok lib" "register_ok lib conn" "deregister_ok dereg conn"
    and "event_reach lib dereg conn m w" and "m < 2 ^ 64"
  shows "events_inv m w"
  using assms(5,6)
proof induction
  case (reach_initial w)
  then show ?case by (auto simp: initial_def events_inv_def demux_inv_def)
next
  case (reach_step n w a w')
  with step_inv_refines [OF assms(1-4), of n w a w'] show ?case by simp
qed

subsection \<open>Properties\<close>

text \<open>C23: the tables of the module and the registrations of libvirt agree in every reachable state, for fewer than \<open>2 ^ 64\<close> steps:
  each registration has a live opaque block with the number under which exactly one function is in the table of its
  signature, and under which libvirt's number is found; every number that is found belongs to a registration; no
  table has two entries for a number, and numbers that were not given out are in no table.\<close>

theorem event_tables_invariant:
  assumes "event_ids_ok lib" and "refs_ok lib" and "register_ok lib conn" and "deregister_ok dereg conn"
    and "event_reach lib dereg conn m w" and "m < 2 ^ 64"
  shows "(\<forall>n k opaque. regw w n = Some (k, opaque) \<longrightarrow>
      opaque \<in> live (cheap w) \<and> (\<exists>cb. table (ocw w) k (cells w opaque) = [cb]) \<and>
      our_id_to_libvirt_id (ocw w) (cells w opaque) = [sint n]) \<and>
    (\<forall>i x. our_id_to_libvirt_id (ocw w) i = [x] \<longrightarrow>
      (\<exists>n k opaque. x = sint n \<and> regw w n = Some (k, opaque) \<and> cells w opaque = i)) \<and>
    (\<forall>k i. length (table (ocw w) k i) \<le> 1) \<and>
    (\<forall>k i. unat (next_id (ocw w)) \<le> unat i \<longrightarrow> table (ocw w) k i = [])"
  using events_invD(3) [OF reach_inv [OF assms]] unfolding demux_inv_def event_view_simps by (elim conjE) (intro conjI; blast)

text \<open>C2: the event machinery implements its specification. Whatever sequence of registrations,
  deregistrations and events has happened (fewer than \<open>2 ^ 64 - 1\<close> steps, so that no number is drawn
  twice), every further step is one of the specification: a successful registration subscribes the
  function under a new number, a failing one subscribes nothing, a deregistration removes exactly its
  subscription, and an event that libvirt raises for a registration calls exactly the function that was
  registered with it, once, with the domain and all arguments of the event; no C callback aborts or
  reads released memory.\<close>

theorem event_dispatch_refines:
  assumes "event_ids_ok lib" and "refs_ok lib" and "register_ok lib conn" and "deregister_ok dereg conn"
    and "event_reach lib dereg conn m w" and "m < 2 ^ 64 - 1" and "event_step lib dereg conn w a w'"
  shows "spec_step conn (event_abs w) a (event_abs w')"
  using step_inv_refines [OF assms(1-4) reach_inv [OF assms(1-5)] assms(6,7)] assms(6) by simp

text \<open>C24: a registered function receives its events: after a successful registration libvirt holds a
  registration with the C callback of the event's signature, and whenever it raises an event for it
  the callback returns normally after the function has been called once with the domain and the
  event's arguments as OCaml represents them.\<close>

theorem registered_event_delivered:
  assumes "event_ids_ok lib" and "refs_ok lib" and "register_ok lib conn" and "deregister_ok dereg conn"
    and "event_reach lib dereg conn m w" and "m < 2 ^ 64 - 1" and "register_any lib conn d cb w = (Inr ident, w')"
  shows "\<exists>n opaque. regw w' n = Some (callback_signature cb, opaque) \<and>
    (\<forall>ev d. event_signature ev = callback_signature cb \<longrightarrow>
       (\<exists>w''. invoke (linked lib) ev conn d opaque w' = (Inr (), w'') \<and>
          called (ocw w'') = called (ocw w) @ [(cb, VBlock 0 [Val_dom d, Val_connect conn], event_value ev)]))"
proof -
  have inv: "events_inv m w" using reach_inv [OF assms(1-5)] assms(6) by simp
  have inv': "events_inv (Suc m) w'"
    using step_inv_refines [OF assms(1-4) inv assms(6) step_register [OF assms(7)]] by blast
  from assms(1,3,7) events_invD(1) [OF inv] show ?thesis
  proof (cases rule: register_cases)
    case (registered k n opaque)
    have unused: "table (ocw w) k (next_id (ocw w)) = []" using events_unused(1) [OF inv] .
    have tab: "table (ocw w') k (cells w' opaque) = [cb]" "called (ocw w') = called (ocw w)"
      by (simp_all add: registered(2,5) table_add_def Hashtbl_add_def fresh_callback_id_def Let_def unused)
    have reg: "regw w' n = Some (callback_signature cb, opaque)" by (simp add: registered(4,9))
    have "\<exists>w''. invoke (linked lib) ev conn d opaque w' = (Inr (), w'') \<and>
        called (ocw w'') = called (ocw w) @ [(cb, VBlock 0 [Val_dom d, Val_connect conn], event_value ev)]"
      if ev: "event_signature ev = callback_signature cb" for ev d
    proof -
      obtain r w'' where run: "invoke (linked lib) ev conn d opaque w' = (r, w'')" by fastforce
      obtain cb' where "r = Inr ()" "table (ocw w') (event_signature ev) (cells w' opaque) = [cb']"
        "ocw w'' = (ocw w')\<lparr>called := called (ocw w') @ [(cb', VBlock 0 [Val_dom d, Val_connect conn], event_value ev)]\<rparr>"
        using event_run [OF assms(2) inv' reg [folded ev] run] .
      with tab run registered(9) ev show ?thesis by simp
    qed
    with reg show ?thesis by blast
  qed (simp add: raise_def)
qed

text \<open>A registration that libvirt refuses is not undone. The block allocated for the opaque data
  stays allocated although no registration refers to it, and the function stays in its table
  under a number that the caller never learns.\<close>

theorem failed_registration_leaks:
  assumes "event_ids_ok lib" and "heap_wf (cheap w)" and "malloc_ok (cheap w) (n_allocs (cheap w))"
    and "\<And>d ev k opaque v. virConnectDomainEventRegisterAny lib conn d ev k opaque v = (- 1, v)"
  shows "\<exists>e w' opaque. register_any lib conn d cb w = (raise e, w') \<and>
    opaque \<notin> live (cheap w) \<and> live (cheap w') = insert opaque (live (cheap w)) \<and> regw w' = regw w \<and>
    table (ocw w') (callback_signature cb) (next_id (ocw w)) =
      cb # table (ocw w) (callback_signature cb) (next_id (ocw w))"
proof -
  obtain tag f where k: "callback_value cb = VBlock tag [VClosure f]" "event_switch lib (of_nat tag) = Some (callback_signature cb)"
    "\<And>ident s. add_callback cb ident s = table_add (callback_signature cb) ident cb s"
    using callback_kind [OF assms(1), of cb] by metis
  obtain H where H: "malloc (cheap w) = (Some (n_allocs (cheap w)), H)"
    using assms(3) by (auto simp: malloc_def Let_def)
  show ?thesis
    using c_heap.alloc_fresh [OF assms(2) H]
    by (auto simp: register_run [OF k(1,2)] k(3) H assms(4) Let_def table_add_def Hashtbl_add_def fresh_callback_id_def)
qed

text \<open>Asked for the last error of a connection, the binding returns the connection's handle itself, as
  a new handle with the same pointer; when the garbage collector finalises both, the connection is closed
  twice.\<close>

theorem last_conn_error_is_handle:
  "ocaml_libvirt_virterror_get_last_conn_error lib (Val_connect conn) w =
     (Inr (ml_option Val_connect (if conn = 0 then None else Some conn)), w) \<and>
   bindS (conn_finalize lib (Val_connect conn)) (\<lambda>_. conn_finalize lib (Val_connect conn)) w =
     (Inr (), if conn = 0 then w else w\<lparr>vir := virConnectClose lib conn (virConnectClose lib conn (vir w))\<rparr>)"
proof
  show "ocaml_libvirt_virterror_get_last_conn_error lib (Val_connect conn) w =
     (Inr (ml_option Val_connect (if conn = 0 then None else Some conn)), w)"
    by (simp add: ocaml_libvirt_virterror_get_last_conn_error_def stub_simps Val_opt_def caml_alloc_def)
  show "bindS (conn_finalize lib (Val_connect conn)) (\<lambda>_. conn_finalize lib (Val_connect conn)) w =
     (Inr (), if conn = 0 then w else w\<lparr>vir := virConnectClose lib conn (virConnectClose lib conn (vir w))\<rparr>)"
    by (simp add: stub_simps bindS_def conn_finalize_def finalize_with_def Val_connect_def callV_def)
qed

text \<open>A secret survives the round trip byte for byte, NUL bytes included, provided libvirt returns the
  value that was set; the buffer libvirt hands over is released.\<close>

theorem secret_roundtrip:
  assumes "heap_wf (cheap w)" and "virSecretSetValue lib p s (vir w) = (0, v1)" and "virSecretGetValue lib p v1 = (Some s, v2)"
  shows "\<exists>w1 w2. ocaml_libvirt_secret_set_value lib (VBlock 0 [Val_sec p, connv]) (VString s) w = (Inr Val_unit, w1) \<and>
    ocaml_libvirt_secret_get_value lib (VBlock 0 [Val_sec p, connv]) w1 = (Inr (VString s), w2) \<and>
    vir w2 = v2 \<and> live (cheap w2) = live (cheap w)"
proof -
  have "n_allocs (cheap w) \<notin> live (cheap w)" using assms(1) by (auto simp: heap_wf_def)
  then show ?thesis
    using assms(2,3) by (simp add: ocaml_libvirt_secret_set_value_def ocaml_libvirt_secret_get_value_def stub_simps)
qed


subsection \<open>Instances\<close>

text \<open>A library with one registration slot, a stub for the deregistration and an initial state.\<close>

definition demo_vc :: "vir_const \<Rightarrow> c_int" where
  "demo_vc c =
     (case map_of (zip [VIR_DOMAIN_EVENT_ID_LIFECYCLE, VIR_DOMAIN_EVENT_ID_REBOOT, VIR_DOMAIN_EVENT_ID_RTC_CHANGE,
       VIR_DOMAIN_EVENT_ID_WATCHDOG, VIR_DOMAIN_EVENT_ID_IO_ERROR, VIR_DOMAIN_EVENT_ID_GRAPHICS,
       VIR_DOMAIN_EVENT_ID_IO_ERROR_REASON, VIR_DOMAIN_EVENT_ID_CONTROL_ERROR, VIR_DOMAIN_EVENT_ID_BLOCK_JOB,
       VIR_DOMAIN_EVENT_ID_DISK_CHANGE, VIR_DOMAIN_EVENT_ID_TRAY_CHANGE, VIR_DOMAIN_EVENT_ID_PMWAKEUP,
       VIR_DOMAIN_EVENT_ID_PMSUSPEND, VIR_DOMAIN_EVENT_ID_BALLOON_CHANGE, VIR_DOMAIN_EVENT_ID_PMSUSPEND_DISK]
       [0, 1, 2, 3, 4, 5, 6, 7, 8, 9, 10, 11, 12, 13, 14]) c of None \<Rightarrow> 99 | Some n \<Rightarrow> n)"

definition demo_ev :: "string event_env libvirt_events" where
  "demo_ev = \<lparr>vc = demo_vc, virGetLastError = (\<lambda>v. None), virConnectClose = (\<lambda>p v. v), virDomainFree = (\<lambda>p v. v),
     virNetworkFree = (\<lambda>p v. v), virStoragePoolFree = (\<lambda>p v. v), virStorageVolFree = (\<lambda>p v. v), virSecretFree = (\<lambda>p v. v),
     caml_named_value = (\<lambda>_. None), caml_callback3 = (\<lambda>f a b c w. w), caml_callback1 = (\<lambda>f a w. w),
     virDomainRef = (\<lambda>p v. (0, v)), virConnectRef = (\<lambda>p v. (0, v)), virEventRegisterDefaultImpl = (\<lambda>v. (0, v)),
     virEventRunDefaultImpl = (\<lambda>w. (0, w)), virEventAddTimeout = (\<lambda>t opaque v. (0, v)), virEventRemoveTimeout = (\<lambda>t w. (0, w)),
     virConnectDomainEventRegisterAny = (\<lambda>conn d ev k opaque v.
       if regs v 5 = None then (5, v\<lparr>regs := (regs v)(5 \<mapsto> (k, opaque))\<rparr>) else (- 1, v)),
     virStoragePoolGetInfo = (\<lambda>p v. ((0, \<lparr>pi_state = 0, pi_capacity = 0, pi_allocation = 0, pi_available = 0\<rparr>), v)),
     virStorageVolGetInfo = (\<lambda>p v. ((0, \<lparr>si_type = 0, si_capacity = 0, si_allocation = 0\<rparr>), v)),
     virSecretLookupByUsage = (\<lambda>p t s v. (0, v)), virSecretSetValue = (\<lambda>p s v. (0, v\<lparr>rest := s\<rparr>)),
     virSecretGetValue = (\<lambda>p v. (Some (rest v), v)), virResetLastError = (\<lambda>v. v), virConnResetLastError = (\<lambda>p v. v),
     virSetErrorFunc = (\<lambda>f v. v), virInitialize = (\<lambda>v. v)\<rparr>"

definition demo_dereg :: "mlvalue \<Rightarrow> mlvalue \<Rightarrow> ('l evworld, mlvalue) stub" where
  "demo_dereg c x w =
     (case x of
        VInt i \<Rightarrow>
          (let n = word_of_int i; w1 = w\<lparr>vir := (vir w)\<lparr>regs := (regw w)(n := None)\<rparr>\<rparr>
           in case regw w n of
                None \<Rightarrow> (Inr Val_unit, w1)
              | Some (k, opaque) \<Rightarrow> (case free opaque (cheap w) of Inl e \<Rightarrow> (undef, w) | Inr H \<Rightarrow> (Inr Val_unit, w1\<lparr>cheap := H\<rparr>)))
      | _ \<Rightarrow> (undef, w))"

definition demo_ev0 :: "string evworld" where
  "demo_ev0 = \<lparr>vir = \<lparr>oc = \<lparr>next_id = 0, table = (\<lambda>_ _. []), our_id_to_libvirt_id = (\<lambda>_. []), called = []\<rparr>,
     regs = (\<lambda>_. None), rest = []\<rparr>, cheap = demo_heap0, cells = (\<lambda>_. 0)\<rparr>"

lemma demo_laws:
  "event_ids_ok demo_ev" "refs_ok demo_ev" "register_ok demo_ev conn" "deregister_ok demo_dereg conn" "initial demo_ev0"
  by (auto simp: event_ids_ok_def refs_ok_def register_ok_def deregister_ok_def demo_ev_def demo_vc_def demo_dereg_def
      demo_ev0_def initial_def heap_wf_def demo_heap0_def undef_def Let_def split: option.splits sum.splits)

lemma demo_registers:
  obtains w where "register_any demo_ev 7 None (Lifecycle 3) demo_ev0 = (Inr 0, w)" "regw w 5 = Some (I_i_callback, 0)"
  by (simp add: register_run [where tag = 0 and f = 3 and k = I_i_callback] demo_ev_def demo_vc_def event_switch_def
      demo_ev0_def demo_heap0_def malloc_def Let_def mapO_def table_add_def fresh_callback_id_def)

theorem event_dispatch_refines_witness:
  "\<exists>w. event_reach demo_ev demo_dereg 7 1 w \<and> regw w 5 = Some (I_i_callback, 0) \<and>
     spec_step 7 (event_abs w) (Raising 5 11 (Ev_i_i 1 2) (fst (invoke (linked demo_ev) (Ev_i_i 1 2) 7 11 0 w)))
       (event_abs (snd (invoke (linked demo_ev) (Ev_i_i 1 2) 7 11 0 w)))"
proof -
  obtain w where w: "register_any demo_ev 7 None (Lifecycle 3) demo_ev0 = (Inr 0, w)" "regw w 5 = Some (I_i_callback, 0)"
    using demo_registers .
  have reach: "event_reach demo_ev demo_dereg 7 1 w"
    using reach_step [OF reach_initial [OF demo_laws(5)] step_register [OF w(1)]] by simp
  have "event_step demo_ev demo_dereg 7 w (Raising 5 11 (Ev_i_i 1 2) (fst (invoke (linked demo_ev) (Ev_i_i 1 2) 7 11 0 w)))
      (snd (invoke (linked demo_ev) (Ev_i_i 1 2) 7 11 0 w))"
    using w(2) by (intro step_event [where opaque = 0]) simp_all
  from event_dispatch_refines [OF demo_laws(1-4) reach _ this] reach w(2) show ?thesis by (intro exI [of _ w]) simp
qed

theorem event_tables_invariant_witness:
  "\<exists>w. event_reach demo_ev demo_dereg 7 1 w \<and> regw w 5 = Some (I_i_callback, 0) \<and> 0 \<in> live (cheap w) \<and>
     our_id_to_libvirt_id (ocw w) (cells w 0) = [5]"
proof -
  obtain w where w: "register_any demo_ev 7 None (Lifecycle 3) demo_ev0 = (Inr 0, w)" "regw w 5 = Some (I_i_callback, 0)"
    using demo_registers .
  have reach: "event_reach demo_ev demo_dereg 7 1 w"
    using reach_step [OF reach_initial [OF demo_laws(5)] step_register [OF w(1)]] by simp
  have "(1::nat) < 2 ^ 64" by simp
  from conjunct1 [OF event_tables_invariant [OF demo_laws(1-4) reach this]] w(2)
  have "0 \<in> live (cheap w)" "our_id_to_libvirt_id (ocw w) (cells w 0) = [sint (5 :: c_int)]" by blast+
  with reach w(2) show ?thesis by (intro exI [of _ w]) simp
qed

theorem registered_event_delivered_witness:
  "\<exists>w w'' n opaque. regw w n = Some (I_i_callback, opaque) \<and>
     invoke (linked demo_ev) (Ev_i_i 1 2) 7 11 opaque w = (Inr (), w'') \<and>
     called (ocw w'') = [(Lifecycle 3, VBlock 0 [Val_dom 11, Val_connect 7], VBlock 0 [VInt 1, VInt 2])]"
proof -
  obtain w where w: "register_any demo_ev 7 None (Lifecycle 3) demo_ev0 = (Inr 0, w)"
    using demo_registers .
  obtain n opaque where r: "regw w n = Some (callback_signature (Lifecycle 3), opaque)"
    and d: "\<And>ev d. event_signature ev = callback_signature (Lifecycle 3) \<Longrightarrow>
       \<exists>w''. invoke (linked demo_ev) ev 7 d opaque w = (Inr (), w'') \<and>
          called (ocw w'') = called (ocw demo_ev0) @ [(Lifecycle 3, VBlock 0 [Val_dom d, Val_connect 7], event_value ev)]"
    using registered_event_delivered [OF demo_laws(1-4) reach_initial [OF demo_laws(5)] _ w] by auto
  from d [of "Ev_i_i 1 2" 11] r show ?thesis by (auto simp: demo_ev0_def)
qed

theorem failed_registration_leaks_witness:
  "\<exists>e w' opaque. register_any (demo_ev\<lparr>virConnectDomainEventRegisterAny := \<lambda>conn d ev k opaque v. (- 1, v)\<rparr>) 7 None (Reboot 4) demo_ev0 = (raise e, w') \<and>
    opaque \<notin> live (cheap demo_ev0) \<and> live (cheap w') = insert opaque (live (cheap demo_ev0)) \<and> regw w' = regw demo_ev0 \<and>
    table (ocw w') U_callback 0 = [Reboot 4]"
proof -
  have "event_ids_ok (demo_ev\<lparr>virConnectDomainEventRegisterAny := \<lambda>conn d ev k opaque v. (- 1, v)\<rparr>)"
    using demo_laws(1) by (simp add: event_ids_ok_def)
  from failed_registration_leaks [OF this, of demo_ev0 7 None "Reboot 4"] show ?thesis
    by (simp add: demo_ev0_def demo_heap0_def heap_wf_def)
qed

theorem secret_roundtrip_witness:
  "\<exists>w1 w2. ocaml_libvirt_secret_set_value demo_ev (VBlock 0 [Val_sec 9, Val_connect 7]) (VString [CHR ''a'', CHR 0x00, CHR ''b'']) demo_ev0 = (Inr Val_unit, w1) \<and>
    ocaml_libvirt_secret_get_value demo_ev (VBlock 0 [Val_sec 9, Val_connect 7]) w1 = (Inr (VString [CHR ''a'', CHR 0x00, CHR ''b'']), w2) \<and>
    vir w2 = (vir demo_ev0)\<lparr>rest := [CHR ''a'', CHR 0x00, CHR ''b'']\<rparr> \<and> live (cheap w2) = live (cheap demo_ev0)"
  by (rule secret_roundtrip [where ?v1.0 = "(vir demo_ev0)\<lparr>rest := [CHR ''a'', CHR 0x00, CHR ''b'']\<rparr>"])
     (simp_all add: demo_ev0_def demo_heap0_def heap_wf_def demo_ev_def)

end
