(* ===== verification/LibvirtTimers.thy ===== *)
theory LibvirtTimers
  imports EventDispatch
begin

section \<open>The libvirt binding: timers, beside the domain events (libvirt.ml, module Event)\<close>

text \<open>
  The second half of module \<open>Event\<close>: functions called when a timer of libvirt's event loop expires. Timers draw
  their numbers from the counter of the domain events and have tables of their own; the C side is in
  \<open>LibvirtEvents\<close>, the argument about tables in \<open>CallbackTables\<close>. Timers and domain events are then run together
  in one transition system: neither disturbs the other, and both implement their specification.
\<close>

subsection \<open>The OCaml side\<close>

text \<open>\<open>fired\<close> records the calls of the user's functions, which are closures given by a number.\<close>

record ocaml_timers =
  timeout_table :: "(64 word, nat) hashtbl"
  our_id_to_timer_id :: "(64 word, int) hashtbl"
  fired :: "nat list"

text \<open>Libvirt's timers, each with the opaque block of its callback, are part of the world together with the module.\<close>

record 'l timer_env =
  ot :: ocaml_timers
  timers :: "c_int \<Rightarrow> nat option"
  others :: 'l

type_synonym 'l tmworld = "'l timer_env evworld"

definition mapT :: "(ocaml_timers \<Rightarrow> ocaml_timers) \<Rightarrow> 'l tmworld \<Rightarrow> 'l tmworld" where
  "mapT f w = w\<lparr>vir := (vir w)\<lparr>rest := (rest (vir w))\<lparr>ot := f (ot (rest (vir w)))\<rparr>\<rparr>\<rparr>"

abbreviation otw :: "'l tmworld \<Rightarrow> ocaml_timers" where "otw w \<equiv> ot (rest (vir w))"
abbreviation timw :: "'l tmworld \<Rightarrow> c_int \<Rightarrow> nat option" where "timw w \<equiv> timers (rest (vir w))"

text \<open>The function that the module registers as \<open>Libvirt.timeout_callback\<close>.\<close>

definition timer_callback :: "64 word \<Rightarrow> ocaml_timers \<Rightarrow> ocaml_timers" where
  "timer_callback x t =
     (if Hashtbl_mem (timeout_table t) x
      then (case Hashtbl_find (timeout_table t) x of Inl e \<Rightarrow> t | Inr fn \<Rightarrow> t\<lparr>fired := fired t @ [fn]\<rparr>)
      else t)"

text \<open>The C library linked with the whole module: the ten functions of the domain events and this one.\<close>

definition linked_timers :: "('l timer_env event_env, 'z) libvirt_events_scheme \<Rightarrow> ('l timer_env event_env, 'z) libvirt_events_scheme" where
  "linked_timers lib = (linked lib)\<lparr>
     caml_named_value := (\<lambda>name. if name = ''Libvirt.timeout_callback'' then Some (VClosure (length all_tables))
                                 else caml_named_value (linked lib) name),
     caml_callback1 := (\<lambda>f ident w.
       case (f, ident) of (VClosure i, VInt64 n) \<Rightarrow> if i = length all_tables then mapT (timer_callback n) w else w | _ \<Rightarrow> w)\<rparr>"

definition add_timeout ::
  "('l timer_env event_env, 'z) libvirt_events_scheme \<Rightarrow> ptr \<Rightarrow> int \<Rightarrow> nat \<Rightarrow> ('l tmworld, 64 word) stub" where
  "add_timeout lib conn ms fn w =
     (let (ident, s) = fresh_callback_id (ocw w)
      in bindS (ocaml_libvirt_event_add_timeout (linked_timers lib) (Val_connect conn) (VInt ms) (VInt64 ident))
               (\<lambda>r w. case r of
                  VInt timer_id \<Rightarrow>
                    (Inr ident, mapT (\<lambda>t. t\<lparr>our_id_to_timer_id := Hashtbl_add (our_id_to_timer_id t) ident timer_id\<rparr>) w)
                | _ \<Rightarrow> (undef, w))
               (mapT (\<lambda>t. t\<lparr>timeout_table := Hashtbl_add (timeout_table t) ident fn\<rparr>) (mapO (\<lambda>_. s) w)))"

definition remove_timeout ::
  "('l timer_env event_env, 'z) libvirt_events_scheme \<Rightarrow> ptr \<Rightarrow> 64 word \<Rightarrow> ('l tmworld, unit) stub" where
  "remove_timeout lib conn ident w =
     bindS (if Hashtbl_mem (our_id_to_timer_id (otw w)) ident
            then bindS (liftS (Hashtbl_find (our_id_to_timer_id (otw w)) ident)) (\<lambda>timer_id.
                 bindS (ocaml_libvirt_event_remove_timeout (linked_timers lib) (Val_connect conn) (VInt timer_id)) (\<lambda>_. retS ()))
            else retS ())
       (\<lambda>_ w. (Inr (), mapT (\<lambda>t. t\<lparr>our_id_to_timer_id := Hashtbl_remove (our_id_to_timer_id t) ident,
                                   timeout_table := Hashtbl_remove (timeout_table t) ident\<rparr>) w)) w"

subsection \<open>What libvirt promises\<close>

text \<open>Adding a timer fails and adds none, or adds one under a number that is not in use; it does not call back.\<close>

definition add_timer_ok :: "('l timer_env event_env, 'z) libvirt_events_scheme \<Rightarrow> bool" where
  "add_timer_ok lib \<longleftrightarrow>
     (\<forall>ms opaque v. case virEventAddTimeout lib ms opaque v of (r, v') \<Rightarrow>
        oc v' = oc v \<and> regs v' = regs v \<and> ot (rest v') = ot (rest v) \<and>
        (if r = - 1 then timers (rest v') = timers (rest v)
         else timers (rest v) r = None \<and> timers (rest v') = (timers (rest v))(r \<mapsto> opaque)))"

text \<open>Removing a timer fails and leaves the timers alone, or removes it; its opaque block, and no other, is released then or
  later, when the event loop next cleans up.\<close>

definition remove_timer_ok :: "('l timer_env event_env, 'z) libvirt_events_scheme \<Rightarrow> bool" where
  "remove_timer_ok lib \<longleftrightarrow>
     (\<forall>t w. case virEventRemoveTimeout lib t w of (r, w') \<Rightarrow>
        ocw w' = ocw w \<and> regw w' = regw w \<and> otw w' = otw w \<and> cells w' = cells w \<and>
        (if r = - 1 then timw w' = timw w \<and> cheap w' = cheap w
         else timw w' = (timw w)(t := None) \<and>
              (cheap w' = cheap w \<or> (\<exists>opaque. timw w t = Some opaque \<and> free opaque (cheap w) = Inr (cheap w')))))"

text \<open>The functions the domain events use leave the timers alone.\<close>

definition same_timers :: "'l timer_env event_env \<Rightarrow> 'l timer_env event_env \<Rightarrow> bool" where
  "same_timers v v' \<longleftrightarrow> ot (rest v') = ot (rest v) \<and> timers (rest v') = timers (rest v)"

definition timers_untouched ::
  "('l timer_env event_env, 'z) libvirt_events_scheme \<Rightarrow> (mlvalue \<Rightarrow> mlvalue \<Rightarrow> ('l tmworld, mlvalue) stub) \<Rightarrow> ptr \<Rightarrow> bool" where
  "timers_untouched lib dereg conn \<longleftrightarrow>
     (\<forall>p v. same_timers v (snd (virDomainRef lib p v))) \<and> (\<forall>p v. same_timers v (snd (virConnectRef lib p v))) \<and>
     (\<forall>d ev k opaque v. same_timers v (snd (virConnectDomainEventRegisterAny lib conn d ev k opaque v))) \<and>
     (\<forall>n w. same_timers (vir w) (vir (snd (dereg (Val_connect conn) (VInt (sint (n :: c_int))) w))))"

subsection \<open>Timers and domain events in one transition system\<close>

datatype joint_action =
    Adding nat "64 word ml"
  | Removing "64 word" "unit ml"
  | Firing c_int "unit ml"
  | Domain_event action

text \<open>What the rest of the program does leaves both alone.\<close>

definition unrelated_timers :: "'l tmworld \<Rightarrow> 'l tmworld \<Rightarrow> bool" where
  "unrelated_timers w w' \<longleftrightarrow>
     same_timers (vir w) (vir w') \<and> (\<forall>n opaque. timw w n = Some opaque \<longrightarrow> opaque \<in> live (cheap w') \<and> cells w' opaque = cells w opaque)"

inductive joint_step ::
  "('l timer_env event_env, 'z) libvirt_events_scheme \<Rightarrow> (mlvalue \<Rightarrow> mlvalue \<Rightarrow> ('l tmworld, mlvalue) stub) \<Rightarrow> ptr \<Rightarrow>
   'l tmworld \<Rightarrow> joint_action \<Rightarrow> 'l tmworld \<Rightarrow> bool" for lib dereg conn where
  joint_add: "add_timeout lib conn ms fn w = (r, w') \<Longrightarrow> joint_step lib dereg conn w (Adding fn r) w'"
| joint_remove: "remove_timeout lib conn ident w = (r, w') \<Longrightarrow> joint_step lib dereg conn w (Removing ident r) w'"
| joint_fire: "timw w n = Some opaque \<Longrightarrow> timeout_callback (linked_timers lib) n opaque w = (r, w') \<Longrightarrow>
    joint_step lib dereg conn w (Firing n r) w'"
| joint_domain: "event_step lib dereg conn w a w' \<Longrightarrow> a \<noteq> Other \<Longrightarrow> joint_step lib dereg conn w (Domain_event a) w'"
| joint_other: "unrelated w w' \<Longrightarrow> unrelated_timers w w' \<Longrightarrow> joint_step lib dereg conn w (Domain_event Other) w'"

definition joint_initial :: "'l tmworld \<Rightarrow> bool" where
  "joint_initial w \<longleftrightarrow> initial w \<and> timw w = (\<lambda>_. None) \<and>
     otw w = \<lparr>timeout_table = (\<lambda>_. []), our_id_to_timer_id = (\<lambda>_. []), fired = []\<rparr>"

inductive joint_reach ::
  "('l timer_env event_env, 'z) libvirt_events_scheme \<Rightarrow> (mlvalue \<Rightarrow> mlvalue \<Rightarrow> ('l tmworld, mlvalue) stub) \<Rightarrow> ptr \<Rightarrow>
   nat \<Rightarrow> 'l tmworld \<Rightarrow> bool" for lib dereg conn where
  joint_start: "joint_initial w \<Longrightarrow> joint_reach lib dereg conn 0 w"
| joint_next: "joint_reach lib dereg conn n w \<Longrightarrow> joint_step lib dereg conn w a w' \<Longrightarrow> joint_reach lib dereg conn (Suc n) w'"

subsection \<open>The specification of the timers\<close>

text \<open>Timers map the user's number to libvirt's number and the function; the calls are a list.\<close>

type_synonym timer_spec = "(64 word \<Rightarrow> (c_int \<times> nat) option) \<times> nat list"

inductive timer_step :: "timer_spec \<Rightarrow> joint_action \<Rightarrow> timer_spec \<Rightarrow> bool" where
  timer_added: "tms ident = None \<Longrightarrow> (\<And>i fn'. tms i \<noteq> Some (n, fn')) \<Longrightarrow>
    timer_step (tms, out) (Adding fn (Inr ident)) (tms(ident \<mapsto> (n, fn)), out)"
| timer_not_added: "timer_step (tms, out) (Adding fn (raise e)) (tms, out)"
| timer_removed: "timer_step (tms, out) (Removing ident (Inr ())) (tms(ident := None), out)"
| timer_not_removed: "timer_step (tms, out) (Removing ident (raise e)) (tms, out)"
| timer_fired: "tms ident = Some (n, fn) \<Longrightarrow> timer_step (tms, out) (Firing n (Inr ())) (tms, out @ [fn])"
| timer_unaffected: "timer_step s (Domain_event a) s"

definition timer_view :: "'l tmworld \<Rightarrow> (unit, nat) demux" where
  "timer_view w = \<lparr>d_next = next_id (ocw w), d_tab = (\<lambda>_. timeout_table (otw w)), d_ids = our_id_to_timer_id (otw w),
     d_reg = (\<lambda>n. map_option (Pair ()) (timw w n)), d_cell = cells w, d_live = live (cheap w)\<rparr>"

definition timer_abs :: "'l tmworld \<Rightarrow> timer_spec" where
  "timer_abs w = (bound (timer_view w), fired (otw w))"

text \<open>The part of a step that concerns the domain events.\<close>

fun domain_part :: "joint_action \<Rightarrow> action" where
  "domain_part (Domain_event a) = a"
| "domain_part _ = Other"

subsection \<open>Runs of the operations\<close>

lemma linked_timers_simps [simp]:
  "virEventAddTimeout (linked_timers lib) = virEventAddTimeout lib" "virEventRemoveTimeout (linked_timers lib) = virEventRemoveTimeout lib"
  "caml_named_value (linked_timers lib) ''Libvirt.timeout_callback'' = Some (VClosure (length all_tables))"
  "caml_callback1 (linked_timers lib) (VClosure (length all_tables)) (VInt64 n) w = mapT (timer_callback n) w"
  by (simp_all add: linked_timers_def linked_def)

lemma mapT_simps [simp]:
  "otw (mapT f w) = f (otw w)" "timw (mapT f w) = timw w" "ocw (mapT f w) = ocw w" "regw (mapT f w) = regw w"
  "cheap (mapT f w) = cheap w" "cells (mapT f w) = cells w" "otw (mapO g w) = otw w" "timw (mapO g w) = timw w"
  by (simp_all add: mapT_def mapO_def)

lemma timer_view_simps [simp]:
  "d_next (timer_view w) = next_id (ocw w)" "d_tab (timer_view w) = (\<lambda>_. timeout_table (otw w))"
  "d_ids (timer_view w) = our_id_to_timer_id (otw w)" "d_reg (timer_view w) = (\<lambda>n. map_option (Pair ()) (timw w n))"
  "d_cell (timer_view w) = cells w" "d_live (timer_view w) = live (cheap w)"
  by (simp_all add: timer_view_def)

text \<open>Linking the timers changes nothing for the domain events.\<close>

lemma domain_callback_linked_timers:
  assumes "name \<noteq> ''Libvirt.timeout_callback''"
  shows "DOMAIN_CALLBACK (linked_timers lib) name = DOMAIN_CALLBACK (linked lib) name"
proof -
  have "virDomainRef (linked_timers lib) = virDomainRef (linked lib)" "virConnectRef (linked_timers lib) = virConnectRef (linked lib)"
    "caml_callback3 (linked_timers lib) = caml_callback3 (linked lib)"
    "caml_named_value (linked_timers lib) name = caml_named_value (linked lib) name"
    using assms by (simp_all add: linked_timers_def)
  then show ?thesis unfolding DOMAIN_CALLBACK_def by presburger
qed

lemma invoke_linked_timers: "invoke (linked_timers lib) ev conn d opaque = invoke (linked lib) ev conn d opaque"
  by (cases ev) (simp_all add: u_callback_def i_callback_def i64_callback_def i_i_callback_def s_i_callback_def s_i_i_callback_def
      s_s_i_callback_def s_s_i_s_callback_def s_s_s_i_callback_def i_ga_ga_s_gs_callback_def domain_callback_linked_timers)

lemma add_timeout_stub:
  "ocaml_libvirt_event_add_timeout lib (Val_connect conn) (VInt ms) (VInt64 ident) w =
    (case malloc (cheap w) of
       (None, H) \<Rightarrow> (raise Out_of_memory, w\<lparr>cheap := H\<rparr>)
     | (Some opaque, H) \<Rightarrow>
         (case virEventAddTimeout lib (word_of_int ms) opaque (vir w) of
            (r, v) \<Rightarrow>
              let w2 = w\<lparr>cheap := H, cells := (cells w)(opaque := ident), vir := v\<rparr>
              in (if r = - 1 then raise (virterror_exn lib ''virEventAddTimeout'' v) else Inr (VInt (sint r)), w2)))"
  by (simp add: ocaml_libvirt_event_add_timeout_def stub_simps Let_def split: prod.splits option.splits)

lemma add_timeout_run:
  "add_timeout lib conn ms fn w =
    (let ident = next_id (ocw w);
         w1 = mapT (\<lambda>t. t\<lparr>timeout_table := Hashtbl_add (timeout_table t) ident fn\<rparr>) (mapO (\<lambda>s. snd (fresh_callback_id s)) w)
     in case malloc (cheap w) of
          (None, H) \<Rightarrow> (raise Out_of_memory, w1\<lparr>cheap := H\<rparr>)
        | (Some opaque, H) \<Rightarrow>
            (case virEventAddTimeout lib (word_of_int ms) opaque (vir w1) of
               (r, v) \<Rightarrow>
                 let w2 = w1\<lparr>cheap := H, cells := (cells w)(opaque := ident), vir := v\<rparr>
                 in if r = - 1 then (raise (virterror_exn (linked_timers lib) ''virEventAddTimeout'' v), w2)
                    else (Inr ident, mapT (\<lambda>t. t\<lparr>our_id_to_timer_id :=
                           Hashtbl_add (our_id_to_timer_id t) ident (sint r)\<rparr>) w2)))"
  by (simp add: add_timeout_def fresh_callback_id_def add_timeout_stub bindS_def raise_def Let_def mapO_def mapT_def
      split: prod.splits option.splits)

subsection \<open>Invariant\<close>

text \<open>The blocks of the timers and of the domain events are different.\<close>

definition blocks_apart :: "'l tmworld \<Rightarrow> bool" where
  "blocks_apart w \<longleftrightarrow> (\<forall>n k a t b. regw w n = Some (k, a) \<longrightarrow> timw w t = Some b \<longrightarrow> a \<noteq> b)"

definition joint_inv :: "nat \<Rightarrow> 'l tmworld \<Rightarrow> bool" where
  "joint_inv m w \<longleftrightarrow> events_inv m w \<and> demux_inv (timer_view w) \<and> blocks_apart w"

lemma joint_invD:
  assumes "joint_inv m w"
  shows "events_inv m w" "heap_wf (cheap w)" "demux_inv (timer_view w)" "blocks_apart w"
  using assms by (simp_all add: joint_inv_def events_inv_def)

lemma timer_blocks:
  assumes "joint_inv m w"
  shows "timw w n = Some opaque \<Longrightarrow> opaque \<in> live (cheap w)" and "regw w t = Some (k, opaque) \<Longrightarrow> opaque \<in> live (cheap w)"
  using demux_invD(5) [OF joint_invD(3) [OF assms], of n "()" opaque] events_demuxD(5) [OF joint_invD(1) [OF assms], of t k opaque] by simp_all

text \<open>What the operations on timers leave to the domain events.\<close>

lemma blocks_apart_mono:
  "blocks_apart w \<Longrightarrow> regw w' = regw w \<Longrightarrow> (\<And>n b. timw w' n = Some b \<Longrightarrow> timw w n = Some b) \<Longrightarrow> blocks_apart w'"
  unfolding blocks_apart_def by metis

lemma add_change:
  assumes "add_timer_ok lib" and "joint_inv m w" and "add_timeout lib conn ms fn w = (r, w')"
  obtains
    (fails) e where "r = raise e" "demux_step (timer_view w) Unchanged (timer_view w')" "unrelated w w'" "blocks_apart w'"
      "fired (otw w') = fired (otw w)"
  | (added) n where "r = Inr (next_id (ocw w))" "demux_step (timer_view w) (Bound (next_id (ocw w)) n fn) (timer_view w')"
      "unrelated w w'" "blocks_apart w'" "fired (otw w') = fired (otw w)"
proof -
  let ?id = "next_id (ocw w)" and ?s = "snd (fresh_callback_id (ocw w))"
  let ?w1 = "mapT (\<lambda>t. t\<lparr>timeout_table := Hashtbl_add (timeout_table t) ?id fn\<rparr>) (mapO (\<lambda>s. snd (fresh_callback_id s)) w)"
  note run = add_timeout_run [of lib conn ms fn w, unfolded assms(3)]
  note unused = demux_unused [OF joint_invD(3) [OF assms(2)], simplified]
  note blocks = timer_blocks [OF assms(2)]
  note apart = joint_invD(4) [OF assms(2)]
  have fails': thesis if "r = raise e" "ocw w' = ?s" "regw w' = regw w" "otw w' = otw ?w1" "timw w' = timw w" "heap_wf (cheap w')"
    "\<And>a. a \<in> live (cheap w) \<Longrightarrow> a \<in> live (cheap w') \<and> cells w' a = cells w a" for e
  proof (rule fails [of e])
    show "demux_step (timer_view w) Unchanged (timer_view w')"
      using that blocks unused by (intro refused [where k = "()" and cb = fn]) (auto simp: fresh_callback_id_def Hashtbl_add_def blocks_kept_def)
    show "unrelated w w'" using that blocks by (auto simp: unrelated_def)
    show "blocks_apart w'" using apart that(3,5) by (auto intro: blocks_apart_mono)
  qed (use that in simp_all)
  obtain a H where H: "malloc (cheap w) = (a, H)" by fastforce
  show thesis
  proof (cases a)
    case None
    with run H c_heap.alloc_fail [OF joint_invD(2) [OF assms(2)]] show thesis by (intro fails' [of Out_of_memory]) (simp_all add: Let_def)
  next
    case (Some opaque)
    note fresh = c_heap.alloc_fresh [OF joint_invD(2) [OF assms(2)] H [unfolded Some]]
    obtain n v where v: "virEventAddTimeout lib (word_of_int ms) opaque (vir ?w1) = (n, v)" by fastforce
    from assms(1) have law: "oc v = ocw ?w1" "regs v = regw ?w1" "ot (rest v) = otw ?w1"
        "if n = - 1 then timers (rest v) = timw ?w1 else timw ?w1 n = None \<and> timers (rest v) = (timw ?w1)(n \<mapsto> opaque)"
      unfolding add_timer_ok_def by (auto dest!: spec [of _ "word_of_int ms"] spec [of _ opaque] spec [of _ "vir ?w1"] simp: v)
    show thesis
    proof (cases "n = - 1")
      case True
      with run law fresh v H Some show thesis
        by (intro fails' [of "virterror_exn (linked_timers lib) ''virEventAddTimeout'' v"]) (auto simp: Let_def)
    next
      case False
      with run law fresh v H Some have w': "r = Inr ?id" "ocw w' = ?s" "regw w' = regw w" "timw w n = None"
          "timw w' = (timw w)(n \<mapsto> opaque)" "heap_wf (cheap w')" "opaque \<notin> live (cheap w)" "live (cheap w') = insert opaque (live (cheap w))"
          "cells w' = (cells w)(opaque := ?id)"
          "otw w' = (otw w)\<lparr>timeout_table := (timeout_table (otw w))(?id := [fn]), our_id_to_timer_id := (our_id_to_timer_id (otw w))(?id := [sint n])\<rparr>"
        by (auto simp: Let_def Hashtbl_add_def unused)
      show thesis
      proof (rule added [of n])
        show "demux_step (timer_view w) (Bound ?id n fn) (timer_view w')"
          using w' blocks by (intro CallbackTables.registered [where D = "timer_view w" and k = "()" and opaque = opaque, simplified])
            (auto simp: fresh_callback_id_def blocks_kept_def)
        show "unrelated w w'" using w' blocks by (auto simp: unrelated_def)
        show "blocks_apart w'" using apart w'(3,5,7) blocks by (auto simp: blocks_apart_def)
      qed (use w' in simp_all)
    qed
  qed
qed


lemma remove_stub:
  "ocaml_libvirt_event_remove_timeout lib (Val_connect conn) (VInt (sint n)) w =
     (case virEventRemoveTimeout lib n w of
        (r, w1) \<Rightarrow> (if r = - 1 then raise (virterror_exn lib ''virEventRemoveTimeout'' (vir w1)) else Inr (VInt (sint r)), w1))"
  by (simp add: ocaml_libvirt_event_remove_timeout_def stub_simps split: prod.splits)

lemma remove_change:
  assumes "remove_timer_ok lib" and "joint_inv m w" and "remove_timeout lib conn ident w = (r, w')"
  obtains
    (fails) e where "r = raise e" "demux_step (timer_view w) Unchanged (timer_view w')" "unrelated w w'" "blocks_apart w'"
      "fired (otw w') = fired (otw w)"
  | (removed) "r = Inr ()" "demux_step (timer_view w) (Unbound ident) (timer_view w')" "unrelated w w'" "blocks_apart w'"
      "fired (otw w') = fired (otw w)"
proof -
  note inv = joint_invD(3) [OF assms(2)]
  note blocks = timer_blocks [OF assms(2)]
  note apart = joint_invD(4) [OF assms(2)]
  let ?rem = "\<lambda>t. t\<lparr>our_id_to_timer_id := Hashtbl_remove (our_id_to_timer_id t) ident, timeout_table := Hashtbl_remove (timeout_table t) ident\<rparr>"
  show thesis
  proof (cases "our_id_to_timer_id (otw w) ident")
    case Nil
    with assms(3) have w': "r = Inr ()" "w' = mapT ?rem w" by (simp_all add: remove_timeout_def Hashtbl_mem_def stub_simps)
    show thesis
    proof (rule removed)
      show "demux_step (timer_view w) (Unbound ident) (timer_view w')"
        using Nil blocks by (intro forgotten) (auto simp: w'(2) Hashtbl_remove_def blocks_kept_def fun_upd_idem)
      show "unrelated w w'" using blocks joint_invD(2) [OF assms(2)] by (auto simp: unrelated_def w'(2))
      show "blocks_apart w'" using apart by (auto intro: blocks_apart_mono simp: w'(2))
    qed (simp_all add: w')
  next
    case (Cons x xs)
    with demux_invD(4) [OF inv, of ident] have x: "our_id_to_timer_id (otw w) ident = [x]" by simp
    with demux_invD(8) [OF inv, of ident x] obtain n opaque where n: "x = sint n" "timw w n = Some opaque" "cells w opaque = ident" by auto
    obtain s w1 where d: "virEventRemoveTimeout lib n w = (s, w1)" by fastforce
    from assms(1) have law: "ocw w1 = ocw w" "regw w1 = regw w" "otw w1 = otw w" "cells w1 = cells w"
        "if s = - 1 then timw w1 = timw w \<and> cheap w1 = cheap w
         else timw w1 = (timw w)(n := None) \<and> (cheap w1 = cheap w \<or> free opaque (cheap w) = Inr (cheap w1))"
      unfolding remove_timer_ok_def by (auto dest!: spec [of _ n] spec [of _ w] simp: d n(2))
    have run: "(r, w') = (if s = - 1 then (raise (virterror_exn (linked_timers lib) ''virEventRemoveTimeout'' (vir w1)), w1) else (Inr (), mapT ?rem w1))"
      using assms(3) by (auto simp: remove_timeout_def Hashtbl_mem_def Hashtbl_find_def x n(1) remove_stub d stub_simps bindS_def raise_def retS_def split: if_splits)
    show thesis
    proof (cases "s = - 1")
      case True
      with run law have w': "r = raise (virterror_exn (linked_timers lib) ''virEventRemoveTimeout'' (vir w1))" "ocw w' = ocw w"
        "regw w' = regw w" "otw w' = otw w" "cells w' = cells w" "timw w' = timw w" "cheap w' = cheap w" by simp_all
      have "demux_step (timer_view w) Unchanged (timer_view w')" "unrelated w w'" "blocks_apart w'"
        using blocks joint_invD(2) [OF assms(2)] blocks_apart_mono [OF apart, of w']
        by (auto simp: w'(2-) unrelated_def blocks_kept_def intro!: kept)
      with fails w' show thesis by simp
    next
      case False
      with run law have w': "r = Inr ()" "ocw w' = ocw w" "regw w' = regw w" "otw w' = ?rem (otw w)" "cells w' = cells w"
        "timw w' = (timw w)(n := None)" "cheap w' = cheap w \<or> free opaque (cheap w) = Inr (cheap w')" by simp_all
      have "live (cheap w) - {opaque} \<subseteq> live (cheap w') \<and> heap_wf (cheap w')" using w'(7)
      proof
        assume "free opaque (cheap w) = Inr (cheap w')"
        with c_heap.dealloc_ok [OF joint_invD(2) [OF assms(2)] blocks(1) [OF n(2)]] show ?thesis by auto
      qed (use joint_invD(2) [OF assms(2)] in auto)
      then have h: "live (cheap w) - {opaque} \<subseteq> live (cheap w')" "heap_wf (cheap w')" by blast+
      have other: "op \<in> live (cheap w) - {opaque}" if "timw w n' = Some op" "n' \<noteq> n" for n' op
        using demux_unique [OF inv, of n "()" opaque n' "()" op] n(2) that blocks(1) [OF that(1)] by auto
      have "op \<in> live (cheap w) - {opaque}" if "regw w t = Some (k, op)" for t k op
        using apart n(2) that blocks(2) [OF that] unfolding blocks_apart_def by blast
      then have "unrelated w w'" using h by (auto simp: unrelated_def w'(2,3,5))
      moreover have "demux_step (timer_view w) (Unbound ident) (timer_view w')"
        using h(1) n x other by (intro CallbackTables.removed [where n = n and k = "()" and opaque = opaque])
          (auto simp: w'(2-6) Hashtbl_remove_def blocks_kept_def split: if_splits)
      moreover have "blocks_apart w'" by (rule blocks_apart_mono [OF apart w'(3)]) (simp add: w'(6) split: if_splits)
      ultimately show thesis using removed w' by simp
    qed
  qed
qed

lemma fire_change:
  assumes "joint_inv m w" and "timw w n = Some opaque" and "timeout_callback (linked_timers lib) n opaque w = (r, w')"
  obtains fn where "r = Inr ()" "bound (timer_view w) (cells w opaque) = Some (n, fn)" "fired (otw w') = fired (otw w) @ [fn]"
    "demux_step (timer_view w) Unchanged (timer_view w')" "unrelated w w'" "blocks_apart w'"
proof -
  note blocks = timer_blocks [OF assms(1)]
  obtain fn where fn: "timeout_table (otw w) (cells w opaque) = [fn]"
    using demux_invD(6) [OF joint_invD(3) [OF assms(1)], of n "()" opaque] assms(2) by auto
  have run: "r = Inr ()" "w' = mapT (\<lambda>t. t\<lparr>fired := fired t @ [fn]\<rparr>) w"
    using assms(3) blocks(1) [OF assms(2)] fn
    by (simp_all add: timeout_callback_def stub_simps bindS_def opaque_value_def timer_callback_def Hashtbl_mem_def Hashtbl_find_def mapT_def)
  have "bound (timer_view w) (cells w opaque) = Some (n, fn)"
    using assms(2) fn by (auto simp: bound_iff [OF joint_invD(3) [OF assms(1)]])
  moreover have "demux_step (timer_view w) Unchanged (timer_view w')" "unrelated w w'" "blocks_apart w'"
    using blocks joint_invD(2) [OF assms(1)] blocks_apart_mono [OF joint_invD(4) [OF assms(1)], of w']
    by (auto simp: run(2) unrelated_def blocks_kept_def intro!: kept)
  ultimately show thesis using that [of fn] run by simp
qed


text \<open>What the domain events leave to the timers.\<close>

lemma same_timers_trans: "same_timers u v \<Longrightarrow> same_timers v v' \<Longrightarrow> same_timers u v'"
  by (simp add: same_timers_def)

lemma same_timers_mapO [simp]: "same_timers v (vir (mapO f w)) \<longleftrightarrow> same_timers v (vir w)"
  by (simp add: same_timers_def mapO_def)

lemma register_same_timers:
  assumes "event_ids_ok lib" and "timers_untouched lib dereg conn" and "register_any lib conn d cb w = (r, w')"
  shows "same_timers (vir w) (vir w')"
proof -
  obtain tag f k where k: "callback_value cb = VBlock tag [VClosure f]" "event_switch lib (of_nat tag) = Some k"
    using callback_kind [OF assms(1), of cb] by metis
  have "same_timers v (snd (virConnectDomainEventRegisterAny lib conn d ev k opaque v))" for d ev opaque v
    using assms(2) by (simp add: timers_untouched_def)
  then have reg: "same_timers v v'" if "virConnectDomainEventRegisterAny lib conn d ev k opaque v = (n, v')" for d ev opaque v n v'
    using that by (metis snd_conv)
  have "same_timers (vir w) (vir w)" by (simp add: same_timers_def)
  then show ?thesis
    using assms(3) unfolding register_run [OF k]
    by (auto simp: Let_def split: prod.splits option.splits if_splits dest!: reg intro: same_timers_trans [rotated])
qed

lemma deregister_same_timers:
  assumes "timers_untouched lib dereg conn" and "events_inv m w" and "deregister_any dereg conn ident w = (r, w')"
  shows "same_timers (vir w) (vir w')"
proof (cases "our_id_to_libvirt_id (ocw w) ident")
  case Nil
  with assms(3) show ?thesis by (auto simp: deregister_any_def Hashtbl_mem_def stub_simps same_timers_def mapO_def)
next
  case (Cons x xs)
  with events_demuxD(4) [OF assms(2), of ident] have x: "our_id_to_libvirt_id (ocw w) ident = [x]" by simp
  from events_demuxD(8) [OF assms(2) x] obtain n where n: "x = sint (n :: c_int)" by blast
  obtain r1 w1 where d: "dereg (Val_connect conn) (VInt (sint n)) w = (r1, w1)" by fastforce
  have "same_timers (vir w) (vir (snd (dereg (Val_connect conn) (VInt (sint n)) w)))"
    using assms(1) by (simp add: timers_untouched_def)
  then show ?thesis
    using assms(3) by (auto simp: deregister_any_def Hashtbl_mem_def Hashtbl_find_def x n stub_simps bindS_def d retS_def split: sum.splits)
qed

lemma event_same_timers:
  assumes "refs_ok lib" and "timers_untouched lib dereg conn" and "events_inv m w" and "regw w n = Some (event_signature ev, opaque)"
    and "invoke (linked lib) ev conn d opaque w = (r, w')"
  shows "same_timers (vir w) (vir w')"
proof -
  obtain v where v: "DOMAIN_CALLBACK (linked lib) (value_name (event_signature ev)) conn d opaque (Inr (event_value ev)) w =
      (Inr (), mapO (table_callback (event_signature ev) (cells w opaque) (VBlock 0 [Val_dom d, Val_connect conn]) (event_value ev)) (w\<lparr>vir := v\<rparr>))"
    "v = snd (virConnectRef lib conn (snd (virDomainRef lib d (vir w))))"
    using callback_run [OF assms(1) events_demuxD(5) [OF assms(3,4)]] by metis
  have "same_timers u (snd (virDomainRef lib p u))" "same_timers u (snd (virConnectRef lib p u))" for p u
    using assms(2) by (simp_all add: timers_untouched_def)
  then have "same_timers (vir w) v" unfolding v(2) using same_timers_trans by blast
  with assms(5) v(1) show ?thesis by (auto simp: invoke_eq)
qed

lemma domain_change:
  assumes "event_ids_ok lib" "refs_ok lib" "register_ok lib conn" "deregister_ok dereg conn" "timers_untouched lib dereg conn"
    and "joint_inv m w" and "event_step lib dereg conn w a w'" and "a \<noteq> Other"
  shows "demux_step (timer_view w) Unchanged (timer_view w')" and "blocks_apart w'" and "fired (otw w') = fired (otw w)"
proof -
  note ev = joint_invD(1) [OF assms(6)]
  note blocks = timer_blocks [OF assms(6)]
  have finish: "demux_step (timer_view w) Unchanged (timer_view w') \<and> blocks_apart w' \<and> fired (otw w') = fired (otw w)"
    if "same_timers (vir w) (vir w')" "next_id (ocw w') = next_id (ocw w) \<or> next_id (ocw w') = next_id (ocw w) + 1"
      "\<And>n a. timw w n = Some a \<Longrightarrow> a \<in> live (cheap w') \<and> cells w' a = cells w a"
      "\<And>n k a. regw w' n = Some (k, a) \<Longrightarrow> regw w n = Some (k, a) \<or> a \<notin> live (cheap w)"
  proof (intro conjI)
    show "demux_step (timer_view w) Unchanged (timer_view w')"
      using that(1-3) by (intro kept) (auto simp: same_timers_def blocks_kept_def)
    show "blocks_apart w'"
      using joint_invD(4) [OF assms(6)] that(1,4) blocks(1) unfolding blocks_apart_def same_timers_def by metis
  qed (use that(1) in \<open>simp add: same_timers_def\<close>)
  from assms(7) have "demux_step (timer_view w) Unchanged (timer_view w') \<and> blocks_apart w' \<and> fired (otw w') = fired (otw w)"
  proof cases
    case (step_register d cb r)
    note same = register_same_timers [OF assms(1,5) step_register(2)]
    from assms(1,3) step_register(2) joint_invD(2) [OF assms(6)] show ?thesis
    proof (cases rule: register_cases)
      case (fails k e)
      with blocks show ?thesis by (intro finish [OF same]) (auto simp: table_add_def fresh_callback_id_def)
    next
      case (registered k n opaque)
      with blocks show ?thesis by (intro finish [OF same]) (auto simp: table_add_def fresh_callback_id_def Let_def split: if_splits)
    qed
  next
    case (step_deregister ident r)
    note same = deregister_same_timers [OF assms(5) ev step_deregister(2)]
    from assms(4) ev step_deregister(2) show ?thesis
    proof (cases rule: deregister_cases)
      case (fails e)
      with blocks show ?thesis by (intro finish [OF same]) auto
    next
      case unknown
      with blocks show ?thesis by (intro finish [OF same]) (auto simp: remove_from_tables_eq)
    next
      case (removed n k opaque)
      have "a \<in> live (cheap w')" if "timw w t = Some a" for t a
        using joint_invD(4) [OF assms(6)] removed(3,8) that blocks(1) [OF that] unfolding blocks_apart_def by blast
      with removed(1-7) show ?thesis by (intro finish [OF same]) (auto simp: remove_from_tables_eq split: if_splits)
    qed
  next
    case (step_event n e opaque d r)
    from event_run [OF assms(2) ev step_event(2,3)] obtain out
      where "ocw w' = (ocw w)\<lparr>called := out\<rparr>" "regw w' = regw w" "cheap w' = cheap w" "cells w' = cells w" by metis
    with blocks show ?thesis by (intro finish [OF event_same_timers [OF assms(2,5) ev step_event(2,3)]]) auto
  qed (use assms(8) in simp)
  then show "demux_step (timer_view w) Unchanged (timer_view w')" and "blocks_apart w'" and "fired (otw w') = fired (otw w)" by blast+
qed


subsection \<open>Refinement\<close>

definition library_ok ::
  "('l timer_env event_env, 'z) libvirt_events_scheme \<Rightarrow> (mlvalue \<Rightarrow> mlvalue \<Rightarrow> ('l tmworld, mlvalue) stub) \<Rightarrow> ptr \<Rightarrow> bool" where
  "library_ok lib dereg conn \<longleftrightarrow> event_ids_ok lib \<and> refs_ok lib \<and> register_ok lib conn \<and> deregister_ok dereg conn \<and>
     timers_untouched lib dereg conn \<and> add_timer_ok lib \<and> remove_timer_ok lib"

lemma library_okD:
  assumes "library_ok lib dereg conn"
  shows "event_ids_ok lib" "refs_ok lib" "register_ok lib conn" "deregister_ok dereg conn" "timers_untouched lib dereg conn"
    "add_timer_ok lib" "remove_timer_ok lib"
  using assms by (simp_all add: library_ok_def)

text \<open>A change of the timers, with the domain events in order afterwards.\<close>

lemma timers_change_inv:
  assumes "joint_inv m w" and "m < 2 ^ 64 - 1" and "demux_step (timer_view w) c (timer_view w')"
    and "events_inv (Suc m) w'" and "blocks_apart w'"
  shows "joint_inv (Suc m) w'" and "bound (timer_view w') = apply_change c (bound (timer_view w))"
proof -
  have "unat (d_next (timer_view w)) < 2 ^ 64 - 1" using events_invD(2) [OF joint_invD(1) [OF assms(1)]] assms(2) by simp
  from demux_step_inv [OF assms(3) joint_invD(3) [OF assms(1)] this] assms(4,5)
  show "joint_inv (Suc m) w'" "bound (timer_view w') = apply_change c (bound (timer_view w))" by (simp_all add: joint_inv_def)
qed

lemma joint_step_refines:
  assumes lib: "library_ok lib dereg conn" and inv: "joint_inv m w" and m: "m < 2 ^ 64 - 1" and step: "joint_step lib dereg conn w a w'"
  shows "joint_inv (Suc m) w' \<and> timer_step (timer_abs w) a (timer_abs w') \<and> spec_step conn (event_abs w) (domain_part a) (event_abs w')"
proof -
  note events = step_inv_refines [OF library_okD(1-4) [OF lib] joint_invD(1) [OF inv] m]
  have other: "events_inv (Suc m) w' \<and> spec_step conn (event_abs w) Other (event_abs w')" if "unrelated w w'"
    using events [OF step_other [OF that]] .
  note change = timers_change_inv [OF inv m]
  from step show ?thesis
  proof cases
    case (joint_add ms fn r)
    from library_okD(6) [OF lib] inv joint_add(2) show ?thesis
    proof (cases rule: add_change)
      case (fails e)
      with other change [OF fails(2)] joint_add(1) show ?thesis by (simp add: timer_abs_def timer_not_added)
    next
      case (added n)
      note fresh = step_bound_fresh(2,3) [OF added(2) joint_invD(3) [OF inv]]
      from timer_added [where tms = "bound (timer_view w)" and n = n and out = "fired (otw w)" and fn = fn, OF fresh] other [OF added(3)] change [OF added(2)] added joint_add(1)
      show ?thesis by (simp add: timer_abs_def)
    qed
  next
    case (joint_remove ident r)
    from library_okD(7) [OF lib] inv joint_remove(2) show ?thesis
    proof (cases rule: remove_change)
      case (fails e)
      with other change [OF fails(2)] joint_remove(1) show ?thesis by (simp add: timer_abs_def timer_not_removed)
    next
      case removed
      with other change [OF removed(2)] joint_remove(1) show ?thesis by (simp add: timer_abs_def timer_removed)
    qed
  next
    case (joint_fire n opaque r)
    from inv joint_fire(2,3) show ?thesis
    proof (rule fire_change)
      fix fn
      assume fn: "r = Inr ()" "bound (timer_view w) (cells w opaque) = Some (n, fn)" "fired (otw w') = fired (otw w) @ [fn]"
        "demux_step (timer_view w) Unchanged (timer_view w')" "unrelated w w'" "blocks_apart w'"
      with other change [OF fn(4)] joint_fire(1) show ?thesis by (simp add: timer_abs_def timer_fired)
    qed
  next
    case (joint_domain b)
    note unaffected = domain_change [OF library_okD(1-5) [OF lib] inv joint_domain(2,3)]
    from events [OF joint_domain(2)] change [OF unaffected(1)] unaffected(2,3) joint_domain(1)
    show ?thesis by (simp add: timer_abs_def timer_unaffected)
  next
    case joint_other
    have c: "demux_step (timer_view w) Unchanged (timer_view w')" "blocks_apart w'"
      using joint_other(2,3) joint_invD(4) [OF inv] by (auto simp: unrelated_def unrelated_timers_def same_timers_def fresh_callback_id_def
          blocks_kept_def intro!: kept blocks_apart_mono [of w w'])
    from c other [OF joint_other(2)] change [OF c(1)] joint_other show ?thesis
      by (simp add: timer_abs_def timer_unaffected unrelated_timers_def same_timers_def)
  qed
qed

lemma joint_reach_inv:
  assumes "library_ok lib dereg conn" and "joint_reach lib dereg conn m w" and "m < 2 ^ 64"
  shows "joint_inv m w"
  using assms(2,3)
proof induction
  case (joint_start w)
  then show ?case by (auto simp: joint_initial_def initial_def joint_inv_def events_inv_def demux_inv_def blocks_apart_def)
next
  case (joint_next n w a w')
  with joint_step_refines [OF assms(1), of n w a w'] show ?case by simp
qed

subsection \<open>Properties\<close>

text \<open>C8: timers and domain events run together and each implements its specification. From every state that fewer
  than \<open>2 ^ 64 - 1\<close> steps reach, in any order, a step is one of the timers' specification (a timer is added under a
  new number or not at all, a removal removes exactly its timer, a timer that expires calls exactly the function it was
  added with, once, and a domain event calls none) and at the same time one of the specification of the domain events, which the
  timers do not disturb; no callback aborts or reads released memory.\<close>

theorem timers_and_events_refine:
  assumes "library_ok lib dereg conn" and "joint_reach lib dereg conn m w" and "m < 2 ^ 64 - 1" and "joint_step lib dereg conn w a w'"
  shows "timer_step (timer_abs w) a (timer_abs w') \<and> spec_step conn (event_abs w) (domain_part a) (event_abs w')"
  using joint_step_refines [OF assms(1) joint_reach_inv [OF assms(1,2)] assms(3,4)] assms(3) by simp

text \<open>A timer that libvirt refuses leaves its opaque block allocated and its function in the table.\<close>

theorem failed_timer_leaks:
  assumes "heap_wf (cheap w)" and "malloc_ok (cheap w) (n_allocs (cheap w))" and "\<And>ms opaque v. virEventAddTimeout lib ms opaque v = (- 1, v)"
  shows "\<exists>e w' opaque. add_timeout lib conn ms fn w = (raise e, w') \<and> opaque \<notin> live (cheap w) \<and>
    live (cheap w') = insert opaque (live (cheap w)) \<and> timw w' = timw w \<and>
    timeout_table (otw w') (next_id (ocw w)) = fn # timeout_table (otw w) (next_id (ocw w))"
proof -
  obtain H where H: "malloc (cheap w) = (Some (n_allocs (cheap w)), H)"
    using assms(2) by (auto simp: malloc_def Let_def)
  show ?thesis
    using c_heap.alloc_fresh [OF assms(1) H] by (auto simp: add_timeout_run H assms(3) Let_def Hashtbl_add_def)
qed

subsection \<open>Instances\<close>

text \<open>A library with one timer and one registration.\<close>

definition demo_tm :: "unit timer_env event_env libvirt_events" where
  "demo_tm = \<lparr>vc = demo_vc, virGetLastError = (\<lambda>v. None), virConnectClose = (\<lambda>p v. v), virDomainFree = (\<lambda>p v. v),
     virNetworkFree = (\<lambda>p v. v), virStoragePoolFree = (\<lambda>p v. v), virStorageVolFree = (\<lambda>p v. v), virSecretFree = (\<lambda>p v. v),
     caml_named_value = (\<lambda>_. None), caml_callback3 = (\<lambda>f a b c w. w), caml_callback1 = (\<lambda>f a w. w),
     virDomainRef = (\<lambda>p v. (0, v)), virConnectRef = (\<lambda>p v. (0, v)), virEventRegisterDefaultImpl = (\<lambda>v. (0, v)),
     virEventRunDefaultImpl = (\<lambda>w. (0, w)),
     virEventAddTimeout = (\<lambda>ms opaque v.
       if timers (rest v) 3 = None then (3, v\<lparr>rest := (rest v)\<lparr>timers := (timers (rest v))(3 \<mapsto> opaque)\<rparr>\<rparr>) else (- 1, v)),
     virEventRemoveTimeout = (\<lambda>t w.
       let w1 = w\<lparr>vir := (vir w)\<lparr>rest := (rest (vir w))\<lparr>timers := (timw w)(t := None)\<rparr>\<rparr>\<rparr>
       in case timw w t of
            None \<Rightarrow> (- 1, w)
          | Some opaque \<Rightarrow> (case free opaque (cheap w) of Inl e \<Rightarrow> (0, w1) | Inr H \<Rightarrow> (0, w1\<lparr>cheap := H\<rparr>))),
     virConnectDomainEventRegisterAny = (\<lambda>conn d ev k opaque v.
       if regs v 5 = None then (5, v\<lparr>regs := (regs v)(5 \<mapsto> (k, opaque))\<rparr>) else (- 1, v)),
     virStoragePoolGetInfo = (\<lambda>p v. ((0, \<lparr>pi_state = 0, pi_capacity = 0, pi_allocation = 0, pi_available = 0\<rparr>), v)),
     virStorageVolGetInfo = (\<lambda>p v. ((0, \<lparr>si_type = 0, si_capacity = 0, si_allocation = 0\<rparr>), v)),
     virSecretLookupByUsage = (\<lambda>p t s v. (0, v)), virSecretSetValue = (\<lambda>p s v. (0, v)),
     virSecretGetValue = (\<lambda>p v. (None, v)), virResetLastError = (\<lambda>v. v), virConnResetLastError = (\<lambda>p v. v),
     virSetErrorFunc = (\<lambda>f v. v), virInitialize = (\<lambda>v. v)\<rparr>"

definition demo_tm0 :: "unit tmworld" where
  "demo_tm0 = \<lparr>vir = \<lparr>oc = \<lparr>next_id = 0, table = (\<lambda>_ _. []), our_id_to_libvirt_id = (\<lambda>_. []), called = []\<rparr>,
     regs = (\<lambda>_. None), rest = \<lparr>ot = \<lparr>timeout_table = (\<lambda>_. []), our_id_to_timer_id = (\<lambda>_. []), fired = []\<rparr>, timers = (\<lambda>_. None), others = ()\<rparr>\<rparr>,
     cheap = demo_heap0, cells = (\<lambda>_. 0)\<rparr>"

lemma demo_tm_laws: "library_ok demo_tm demo_dereg conn" "joint_initial demo_tm0"
proof -
  have "event_ids_ok demo_tm" "refs_ok demo_tm" "register_ok demo_tm conn"
    by (auto simp: event_ids_ok_def refs_ok_def register_ok_def demo_tm_def demo_vc_def)
  moreover have "deregister_ok demo_dereg conn"
    by (auto simp: deregister_ok_def demo_dereg_def undef_def Let_def split: option.splits sum.splits)
  moreover have "timers_untouched demo_tm demo_dereg conn"
    by (auto simp: timers_untouched_def same_timers_def demo_tm_def demo_dereg_def undef_def Let_def split: option.splits sum.splits)
  moreover have "add_timer_ok demo_tm" by (auto simp: add_timer_ok_def demo_tm_def)
  moreover have "remove_timer_ok demo_tm"
    by (auto simp: remove_timer_ok_def demo_tm_def Let_def fun_upd_idem split: option.splits sum.splits)
  ultimately show "library_ok demo_tm demo_dereg conn" by (simp add: library_ok_def)
  show "joint_initial demo_tm0" by (simp add: joint_initial_def initial_def demo_tm0_def heap_wf_def demo_heap0_def)
qed

lemma demo_tm_adds:
  obtains w where "add_timeout demo_tm 7 100 4 demo_tm0 = (Inr 0, w)" "timw w 3 = Some 0"
  by (simp add: add_timeout_run demo_tm_def demo_tm0_def demo_heap0_def malloc_def Let_def mapO_def mapT_def fresh_callback_id_def)

theorem timers_and_events_refine_witness:
  "\<exists>w. joint_reach demo_tm demo_dereg 7 1 w \<and> timw w 3 = Some 0 \<and>
     timer_step (timer_abs w) (Firing 3 (fst (timeout_callback (linked_timers demo_tm) 3 0 w)))
       (timer_abs (snd (timeout_callback (linked_timers demo_tm) 3 0 w)))"
proof -
  obtain w where w: "add_timeout demo_tm 7 100 4 demo_tm0 = (Inr 0, w)" "timw w 3 = Some 0" using demo_tm_adds .
  have reach: "joint_reach demo_tm demo_dereg 7 1 w"
    using joint_next [OF joint_start [OF demo_tm_laws(2)] joint_add [OF w(1)]] by simp
  have "joint_step demo_tm demo_dereg 7 w (Firing 3 (fst (timeout_callback (linked_timers demo_tm) 3 0 w)))
      (snd (timeout_callback (linked_timers demo_tm) 3 0 w))"
    using w(2) by (intro joint_fire [where opaque = 0]) simp_all
  from timers_and_events_refine [OF demo_tm_laws(1) reach _ this] reach w(2) show ?thesis by (intro exI [of _ w]) simp
qed

theorem failed_timer_leaks_witness:
  "\<exists>e w' opaque. add_timeout (demo_tm\<lparr>virEventAddTimeout := \<lambda>ms opaque v. (- 1, v)\<rparr>) 7 100 4 demo_tm0 = (raise e, w') \<and>
    opaque \<notin> live (cheap demo_tm0) \<and> live (cheap w') = insert opaque (live (cheap demo_tm0)) \<and> timw w' = timw demo_tm0 \<and>
    timeout_table (otw w') 0 = [4]"
  using failed_timer_leaks [of demo_tm0 "demo_tm\<lparr>virEventAddTimeout := \<lambda>ms opaque v. (- 1, v)\<rparr>" 7 100 4]
  by (simp add: demo_tm0_def demo_heap0_def heap_wf_def)

end
