(* ===== verification/EventData.thy ===== *)
theory EventData
  imports EventDispatch
begin

section \<open>The libvirt binding: what an event says (libvirt.ml, modules of Event)\<close>

text \<open>
  The closure that \<open>register_any\<close> stores applies a \<open>make\<close> function to the tuple of numbers and strings that the C
  callback builds, and passes the result to the user's function. Here are these functions, the closures
  reading the tuples in OCaml's representation, and the meaning libvirt documents for the arguments. The polymorphic variants
  of a module are a datatype whose constructors carry the name of the module.
\<close>

subsection \<open>Life cycle\<close>

datatype Defined_t = Defined_Added | Defined_Updated | Defined_Unknown int

definition Defined_make :: "int \<Rightarrow> Defined_t" where
  "Defined_make x =
     (if x = 0 then Defined_Added
      else if x = 1 then Defined_Updated
      else Defined_Unknown x)"

datatype Undefined_t = Undefined_Removed | Undefined_Unknown int

definition Undefined_make :: "int \<Rightarrow> Undefined_t" where
  "Undefined_make x =
     (if x = 0 then Undefined_Removed
      else Undefined_Unknown x)"

datatype Started_t = Started_Booted | Started_Migrated | Started_Restored | Started_FromSnapshot | Started_Wakeup | Started_Unknown int

definition Started_make :: "int \<Rightarrow> Started_t" where
  "Started_make x =
     (if x = 0 then Started_Booted
      else if x = 1 then Started_Migrated
      else if x = 2 then Started_Restored
      else if x = 3 then Started_FromSnapshot
      else if x = 4 then Started_Wakeup
      else Started_Unknown x)"

datatype Suspended_t = Suspended_Paused | Suspended_Migrated | Suspended_IOError | Suspended_Watchdog | Suspended_Restored | Suspended_FromSnapshot | Suspended_APIError | Suspended_Unknown int

definition Suspended_make :: "int \<Rightarrow> Suspended_t" where
  "Suspended_make x =
     (if x = 0 then Suspended_Paused
      else if x = 1 then Suspended_Migrated
      else if x = 2 then Suspended_IOError
      else if x = 3 then Suspended_Watchdog
      else if x = 4 then Suspended_Restored
      else if x = 5 then Suspended_FromSnapshot
      else if x = 6 then Suspended_APIError
      else Suspended_Unknown x)"

datatype Resumed_t = Resumed_Unpaused | Resumed_Migrated | Resumed_FromSnapshot | Resumed_Unknown int

definition Resumed_make :: "int \<Rightarrow> Resumed_t" where
  "Resumed_make x =
     (if x = 0 then Resumed_Unpaused
      else if x = 1 then Resumed_Migrated
      else if x = 2 then Resumed_FromSnapshot
      else Resumed_Unknown x)"

datatype Stopped_t = Stopped_Shutdown | Stopped_Destroyed | Stopped_Crashed | Stopped_Migrated | Stopped_Saved | Stopped_Failed | Stopped_FromSnapshot | Stopped_Unknown int

definition Stopped_make :: "int \<Rightarrow> Stopped_t" where
  "Stopped_make x =
     (if x = 0 then Stopped_Shutdown
      else if x = 1 then Stopped_Destroyed
      else if x = 2 then Stopped_Crashed
      else if x = 3 then Stopped_Migrated
      else if x = 4 then Stopped_Saved
      else if x = 5 then Stopped_Failed
      else if x = 6 then Stopped_FromSnapshot
      else Stopped_Unknown x)"

datatype PM_suspended_t = PM_suspended_Memory | PM_suspended_Disk | PM_suspended_Unknown int

definition PM_suspended_make :: "int \<Rightarrow> PM_suspended_t" where
  "PM_suspended_make x =
     (if x = 0 then PM_suspended_Memory
      else if x = 1 then PM_suspended_Disk
      else PM_suspended_Unknown x)"


datatype Lifecycle_t =
    Lifecycle_Defined Defined_t | Lifecycle_Undefined Undefined_t | Lifecycle_Started Started_t
  | Lifecycle_Suspended Suspended_t | Lifecycle_Resumed Resumed_t | Lifecycle_Stopped Stopped_t
  | Lifecycle_Shutdown | Lifecycle_PMSuspended PM_suspended_t | Lifecycle_Unknown int

definition Lifecycle_make :: "int \<Rightarrow> int \<Rightarrow> Lifecycle_t" where
  "Lifecycle_make ty detail =
     (if ty = 0 then Lifecycle_Defined (Defined_make detail)
      else if ty = 1 then Lifecycle_Undefined (Undefined_make detail)
      else if ty = 2 then Lifecycle_Started (Started_make detail)
      else if ty = 3 then Lifecycle_Suspended (Suspended_make detail)
      else if ty = 4 then Lifecycle_Resumed (Resumed_make detail)
      else if ty = 5 then Lifecycle_Stopped (Stopped_make detail)
      else if ty = 6 then Lifecycle_Shutdown
      else if ty = 7 then Lifecycle_PMSuspended (PM_suspended_make detail)
      else Lifecycle_Unknown ty)"

subsection \<open>The other events\<close>

datatype Watchdog_t = Watchdog_None | Watchdog_Pause | Watchdog_Reset | Watchdog_Poweroff | Watchdog_Shutdown | Watchdog_Debug | Watchdog_Unknown int

definition Watchdog_make :: "int \<Rightarrow> Watchdog_t" where
  "Watchdog_make x =
     (if x = 0 then Watchdog_None
      else if x = 1 then Watchdog_Pause
      else if x = 2 then Watchdog_Reset
      else if x = 3 then Watchdog_Poweroff
      else if x = 4 then Watchdog_Shutdown
      else if x = 5 then Watchdog_Debug
      else Watchdog_Unknown x)"

datatype Io_error_action_t = Io_error_action_None | Io_error_action_Pause | Io_error_action_Report | Io_error_action_Unknown int

definition action_of_int :: "int \<Rightarrow> Io_error_action_t" where
  "action_of_int x =
     (if x = 0 then Io_error_action_None
      else if x = 1 then Io_error_action_Pause
      else if x = 2 then Io_error_action_Report
      else Io_error_action_Unknown x)"

datatype Graphics_family_t = Graphics_family_Ipv4 | Graphics_family_Ipv6 | Graphics_family_Unix | Graphics_family_Unknown int

definition family_of_int :: "int \<Rightarrow> Graphics_family_t" where
  "family_of_int x =
     (if x = 1 then Graphics_family_Ipv4
      else if x = 2 then Graphics_family_Ipv6
      else if x = 3 then Graphics_family_Unix
      else Graphics_family_Unknown x)"

datatype Graphics_phase_t = Graphics_phase_Connect | Graphics_phase_Initialize | Graphics_phase_Disconnect | Graphics_phase_Unknown int

definition phase_of_int :: "int \<Rightarrow> Graphics_phase_t" where
  "phase_of_int x =
     (if x = 0 then Graphics_phase_Connect
      else if x = 1 then Graphics_phase_Initialize
      else if x = 2 then Graphics_phase_Disconnect
      else Graphics_phase_Unknown x)"

datatype Block_job_ty_t = Block_job_ty_KnownUnknown | Block_job_ty_Pull | Block_job_ty_Copy | Block_job_ty_Commit | Block_job_ty_Unknown int

definition ty_of_int :: "int \<Rightarrow> Block_job_ty_t" where
  "ty_of_int x =
     (if x = 0 then Block_job_ty_KnownUnknown
      else if x = 1 then Block_job_ty_Pull
      else if x = 2 then Block_job_ty_Copy
      else if x = 3 then Block_job_ty_Commit
      else Block_job_ty_Unknown x)"

datatype Block_job_status_t = Block_job_status_Completed | Block_job_status_Failed | Block_job_status_Cancelled | Block_job_status_Ready | Block_job_status_Unknown int

definition status_of_int :: "int \<Rightarrow> Block_job_status_t" where
  "status_of_int x =
     (if x = 0 then Block_job_status_Completed
      else if x = 1 then Block_job_status_Failed
      else if x = 2 then Block_job_status_Cancelled
      else if x = 3 then Block_job_status_Ready
      else Block_job_status_Unknown x)"

datatype Disk_change_reason_t = Disk_change_reason_MissingOnStart | Disk_change_reason_Unknown int

definition disk_reason_of_int :: "int \<Rightarrow> Disk_change_reason_t" where
  "disk_reason_of_int x =
     (if x = 0 then Disk_change_reason_MissingOnStart
      else Disk_change_reason_Unknown x)"

datatype Tray_change_reason_t = Tray_change_reason_Open | Tray_change_reason_Close | Tray_change_reason_Unknown int

definition tray_reason_of_int :: "int \<Rightarrow> Tray_change_reason_t" where
  "tray_reason_of_int x =
     (if x = 0 then Tray_change_reason_Open
      else if x = 1 then Tray_change_reason_Close
      else Tray_change_reason_Unknown x)"

record Io_error_t =
  io_src_path :: "string option"
  io_dev_alias :: "string option"
  io_action :: Io_error_action_t
  io_reason :: "string option"

definition Io_error_make :: "string option \<Rightarrow> string option \<Rightarrow> int \<Rightarrow> string option \<Rightarrow> Io_error_t" where
  "Io_error_make src_path dev_alias action reason =
     \<lparr>io_src_path = src_path, io_dev_alias = dev_alias, io_action = action_of_int action, io_reason = reason\<rparr>"

definition make_noreason :: "string option \<Rightarrow> string option \<Rightarrow> int \<Rightarrow> Io_error_t" where
  "make_noreason src_path dev_alias action = Io_error_make src_path dev_alias action None"

record Graphics_address_t =
  family :: Graphics_family_t
  g_node :: "string option"
  service :: "string option"

definition Graphics_address_make :: "int \<Rightarrow> string option \<Rightarrow> string option \<Rightarrow> Graphics_address_t" where
  "Graphics_address_make fam node serv = \<lparr>family = family_of_int fam, g_node = node, service = serv\<rparr>"

record identity =
  id_ty :: "string option"
  id_name :: "string option"

definition Graphics_subject_make :: "(string option \<times> string option) list \<Rightarrow> identity list" where
  "Graphics_subject_make xs = map (\<lambda>(ty, name). \<lparr>id_ty = ty, id_name = name\<rparr>) xs"

record Graphics_t =
  phase :: Graphics_phase_t
  g_local :: Graphics_address_t
  remote :: Graphics_address_t
  auth_scheme :: "string option"
  subject :: "identity list"

definition Graphics_make ::
  "int \<Rightarrow> int \<times> string option \<times> string option \<Rightarrow> int \<times> string option \<times> string option \<Rightarrow> string option \<Rightarrow>
   (string option \<times> string option) list \<Rightarrow> Graphics_t" where
  "Graphics_make ph loc rem auth subj =
     \<lparr>phase = phase_of_int ph, g_local = (case loc of (f, n, s) \<Rightarrow> Graphics_address_make f n s),
      remote = (case rem of (f, n, s) \<Rightarrow> Graphics_address_make f n s), auth_scheme = auth, subject = Graphics_subject_make subj\<rparr>"

text \<open>\<open>Block_job.make\<close> converts the second argument twice and does not use the third.\<close>

record Block_job_t =
  bj_disk :: "string option"
  bj_ty :: Block_job_ty_t
  bj_status :: Block_job_status_t

definition Block_job_make :: "string option \<Rightarrow> int \<Rightarrow> int \<Rightarrow> Block_job_t" where
  "Block_job_make disk ty status = \<lparr>bj_disk = disk, bj_ty = ty_of_int ty, bj_status = status_of_int ty\<rparr>"

record Disk_change_t =
  old_src_path :: "string option"
  new_src_path :: "string option"
  dc_dev_alias :: "string option"
  dc_reason :: Disk_change_reason_t

definition Disk_change_make :: "string option \<Rightarrow> string option \<Rightarrow> string option \<Rightarrow> int \<Rightarrow> Disk_change_t" where
  "Disk_change_make old new d r = \<lparr>old_src_path = old, new_src_path = new, dc_dev_alias = d, dc_reason = disk_reason_of_int r\<rparr>"

record Tray_change_t =
  tc_dev_alias :: "string option"
  tc_reason :: Tray_change_reason_t

definition Tray_change_make :: "string option \<Rightarrow> int \<Rightarrow> Tray_change_t" where
  "Tray_change_make alias reason = \<lparr>tc_dev_alias = alias, tc_reason = tray_reason_of_int reason\<rparr>"

text \<open>What the user's function receives besides the domain. The reasons of the three power management events have only
  the variant \<open>Unknown\<close>.\<close>

datatype event_info =
    Unit_info | Int64_info "64 word" | Unknown_reason int
  | Lifecycle_info Lifecycle_t | Watchdog_info Watchdog_t | Io_error_info Io_error_t | Graphics_info Graphics_t
  | Block_job_info Block_job_t | Disk_change_info Disk_change_t | Tray_change_info Tray_change_t

subsection \<open>The closures\<close>

text \<open>Reading OCaml's representation: integers, string options, tuples, an address, an array of pairs. A value of the wrong
  shape cannot occur in a typed program: \<open>None\<close>.\<close>

fun value_int :: "mlvalue \<Rightarrow> int option" where
  "value_int (VInt i) = Some i"
| "value_int _ = None"

fun value_int64 :: "mlvalue \<Rightarrow> 64 word option" where
  "value_int64 (VInt64 x) = Some x"
| "value_int64 _ = None"

fun value_string :: "mlvalue \<Rightarrow> string option" where
  "value_string (VString s) = Some s"
| "value_string _ = None"

fun value_fields :: "mlvalue \<Rightarrow> mlvalue list" where
  "value_fields (VBlock t vs) = vs"
| "value_fields _ = []"

definition value_str :: "mlvalue \<Rightarrow> string option option" where
  "value_str v = (if v = VInt 0 then Some None else case value_fields v of [x] \<Rightarrow> map_option Some (value_string x) | _ \<Rightarrow> None)"

definition read2 :: "('a \<Rightarrow> 'b \<Rightarrow> 'r) \<Rightarrow> 'a option \<Rightarrow> 'b option \<Rightarrow> 'r option" where
  "read2 f a b = Option.bind a (\<lambda>a. map_option (f a) b)"
definition read3 :: "('a \<Rightarrow> 'b \<Rightarrow> 'c \<Rightarrow> 'r) \<Rightarrow> 'a option \<Rightarrow> 'b option \<Rightarrow> 'c option \<Rightarrow> 'r option" where
  "read3 f a b c = Option.bind a (\<lambda>a. read2 (f a) b c)"
definition read4 :: "('a \<Rightarrow> 'b \<Rightarrow> 'c \<Rightarrow> 'd \<Rightarrow> 'r) \<Rightarrow> 'a option \<Rightarrow> 'b option \<Rightarrow> 'c option \<Rightarrow> 'd option \<Rightarrow> 'r option" where
  "read4 f a b c d = Option.bind a (\<lambda>a. read3 (f a) b c d)"
definition read5 ::
  "('a \<Rightarrow> 'b \<Rightarrow> 'c \<Rightarrow> 'd \<Rightarrow> 'e \<Rightarrow> 'r) \<Rightarrow> 'a option \<Rightarrow> 'b option \<Rightarrow> 'c option \<Rightarrow> 'd option \<Rightarrow> 'e option \<Rightarrow> 'r option" where
  "read5 f a b c d e = Option.bind a (\<lambda>a. read4 (f a) b c d e)"

definition value_address :: "mlvalue \<Rightarrow> (int \<times> string option \<times> string option) option" where
  "value_address v =
     (case value_fields v of
        [f, n, s] \<Rightarrow> read3 (\<lambda>f n s. (f, n, s)) (value_int f) (value_str n) (value_str s) | _ \<Rightarrow> None)"

definition value_pair :: "mlvalue \<Rightarrow> (string option \<times> string option) option" where
  "value_pair v = (case value_fields v of [x, y] \<Rightarrow> read2 Pair (value_str x) (value_str y) | _ \<Rightarrow> None)"

fun value_all :: "(mlvalue \<Rightarrow> 'a option) \<Rightarrow> mlvalue list \<Rightarrow> 'a list option" where
  "value_all f [] = Some []"
| "value_all f (x # xs) = read2 (#) (f x) (value_all f xs)"

text \<open>The closure of each callback, on the tuple.\<close>

fun closure_info :: "callback \<Rightarrow> mlvalue \<Rightarrow> event_info option" where
  "closure_info (Lifecycle f) v =
     (case value_fields v of [x, y] \<Rightarrow> read2 (\<lambda>x y. Lifecycle_info (Lifecycle_make x y)) (value_int x) (value_int y) | _ \<Rightarrow> None)"
| "closure_info (Reboot f) v = map_option (\<lambda>_. Unit_info) (value_int v)"
| "closure_info (RtcChange f) v = map_option Int64_info (value_int64 v)"
| "closure_info (Watchdog f) v = map_option (\<lambda>x. Watchdog_info (Watchdog_make x)) (value_int v)"
| "closure_info (IOError f) v =
     (case value_fields v of
        [x, y, z] \<Rightarrow> read3 (\<lambda>x y z. Io_error_info (make_noreason x y z)) (value_str x) (value_str y) (value_int z) | _ \<Rightarrow> None)"
| "closure_info (Graphics f) v =
     (case value_fields v of
        [i, a, b, s, g] \<Rightarrow> read5 (\<lambda>i a b s g. Graphics_info (Graphics_make i a b s g))
           (value_int i) (value_address a) (value_address b) (value_str s) (value_all value_pair (value_fields g)) | _ \<Rightarrow> None)"
| "closure_info (IOErrorReason f) v =
     (case value_fields v of
        [x, y, z, r] \<Rightarrow> read4 (\<lambda>x y z r. Io_error_info (Io_error_make x y z r)) (value_str x) (value_str y) (value_int z) (value_str r)
      | _ \<Rightarrow> None)"
| "closure_info (ControlError f) v = map_option (\<lambda>_. Unit_info) (value_int v)"
| "closure_info (BlockJob f) v =
     (case value_fields v of
        [x, y, z] \<Rightarrow> read3 (\<lambda>x y z. Block_job_info (Block_job_make x y z)) (value_str x) (value_int y) (value_int z) | _ \<Rightarrow> None)"
| "closure_info (DiskChange f) v =
     (case value_fields v of
        [x, y, z, r] \<Rightarrow> read4 (\<lambda>x y z r. Disk_change_info (Disk_change_make x y z r)) (value_str x) (value_str y) (value_str z) (value_int r)
      | _ \<Rightarrow> None)"
| "closure_info (TrayChange f) v =
     (case value_fields v of [x, y] \<Rightarrow> read2 (\<lambda>x y. Tray_change_info (Tray_change_make x y)) (value_str x) (value_int y) | _ \<Rightarrow> None)"
| "closure_info (PMWakeUp f) v = map_option Unknown_reason (value_int v)"
| "closure_info (PMSuspend f) v = map_option Unknown_reason (value_int v)"
| "closure_info (BalloonChange f) v = map_option Int64_info (value_int64 v)"
| "closure_info (PMSuspendDisk f) v = map_option Unknown_reason (value_int v)"

subsection \<open>What libvirt documents\<close>

text \<open>The enumerations of \<open>libvirt-domain.h\<close> in order, each starting at 0; a number beyond them is from a newer libvirt.\<close>

definition enum :: "'a list \<Rightarrow> (int \<Rightarrow> 'a) \<Rightarrow> c_int \<Rightarrow> 'a" where
  "enum names unknown n = (if 0 \<le> sint n \<and> sint n < int (length names) then names ! nat (sint n) else unknown (sint n))"

definition doc_lifecycle :: "c_int \<Rightarrow> c_int \<Rightarrow> Lifecycle_t" where
  "doc_lifecycle ev detail = enum
     [Lifecycle_Defined (enum [Defined_Added, Defined_Updated] Defined_Unknown detail),
      Lifecycle_Undefined (enum [Undefined_Removed] Undefined_Unknown detail),
      Lifecycle_Started (enum [Started_Booted, Started_Migrated, Started_Restored, Started_FromSnapshot, Started_Wakeup] Started_Unknown detail),
      Lifecycle_Suspended (enum [Suspended_Paused, Suspended_Migrated, Suspended_IOError, Suspended_Watchdog, Suspended_Restored,
        Suspended_FromSnapshot, Suspended_APIError] Suspended_Unknown detail),
      Lifecycle_Resumed (enum [Resumed_Unpaused, Resumed_Migrated, Resumed_FromSnapshot] Resumed_Unknown detail),
      Lifecycle_Stopped (enum [Stopped_Shutdown, Stopped_Destroyed, Stopped_Crashed, Stopped_Migrated, Stopped_Saved, Stopped_Failed,
        Stopped_FromSnapshot] Stopped_Unknown detail),
      Lifecycle_Shutdown,
      Lifecycle_PMSuspended (enum [PM_suspended_Memory, PM_suspended_Disk] PM_suspended_Unknown detail)]
     Lifecycle_Unknown ev"

definition doc_action :: "c_int \<Rightarrow> Io_error_action_t" where
  "doc_action = enum [Io_error_action_None, Io_error_action_Pause, Io_error_action_Report] Io_error_action_Unknown"

definition doc_address :: "virDomainEventGraphicsAddress \<Rightarrow> Graphics_address_t" where
  "doc_address a = \<lparr>family = enum [Graphics_family_Ipv4, Graphics_family_Ipv6, Graphics_family_Unix] Graphics_family_Unknown (ga_family a),
     g_node = ga_node a, service = ga_service a\<rparr>"

definition doc_status :: "c_int \<Rightarrow> Block_job_status_t" where
  "doc_status = enum [Block_job_status_Completed, Block_job_status_Failed, Block_job_status_Cancelled, Block_job_status_Ready] Block_job_status_Unknown"

fun documented_info :: "callback \<Rightarrow> event \<Rightarrow> event_info option" where
  "documented_info (Lifecycle f) ev =
     (case ev of Ev_i_i x y \<Rightarrow> Some (Lifecycle_info (doc_lifecycle x y)) | _ \<Rightarrow> None)"
| "documented_info (Reboot f) ev =
     (case ev of Ev_u \<Rightarrow> Some (Unit_info) | _ \<Rightarrow> None)"
| "documented_info (RtcChange f) ev =
     (case ev of Ev_i64 x \<Rightarrow> Some (Int64_info x) | _ \<Rightarrow> None)"
| "documented_info (Watchdog f) ev =
     (case ev of Ev_i x \<Rightarrow> Some (Watchdog_info (enum [Watchdog_None, Watchdog_Pause, Watchdog_Reset, Watchdog_Poweroff,
     Watchdog_Shutdown, Watchdog_Debug] Watchdog_Unknown x)) | _ \<Rightarrow> None)"
| "documented_info (IOError f) ev =
     (case ev of Ev_s_s_i x y z \<Rightarrow> Some (Io_error_info \<lparr>io_src_path = x, io_dev_alias = y, io_action = doc_action z, io_reason = None\<rparr>) | _ \<Rightarrow> None)"
| "documented_info (Graphics f) ev =
     (case ev of Ev_graphics i a b s g \<Rightarrow> Some (Graphics_info
     \<lparr>phase = enum [Graphics_phase_Connect, Graphics_phase_Initialize, Graphics_phase_Disconnect] Graphics_phase_Unknown i,
      g_local = doc_address a, remote = doc_address b, auth_scheme = s,
      subject = map (\<lambda>x. \<lparr>id_ty = gi_type x, id_name = gi_name x\<rparr>) g\<rparr>) | _ \<Rightarrow> None)"
| "documented_info (IOErrorReason f) ev =
     (case ev of Ev_s_s_i_s x y z r \<Rightarrow> Some (Io_error_info \<lparr>io_src_path = x, io_dev_alias = y, io_action = doc_action z, io_reason = r\<rparr>) | _ \<Rightarrow> None)"
| "documented_info (ControlError f) ev =
     (case ev of Ev_u \<Rightarrow> Some (Unit_info) | _ \<Rightarrow> None)"
| "documented_info (BlockJob f) ev =
     (case ev of Ev_s_i_i x y z \<Rightarrow> Some (Block_job_info
     \<lparr>bj_disk = x, bj_ty = enum [Block_job_ty_KnownUnknown, Block_job_ty_Pull, Block_job_ty_Copy, Block_job_ty_Commit] Block_job_ty_Unknown y,
      bj_status = doc_status z\<rparr>) | _ \<Rightarrow> None)"
| "documented_info (DiskChange f) ev =
     (case ev of Ev_s_s_s_i x y z r \<Rightarrow> Some (Disk_change_info
     \<lparr>old_src_path = x, new_src_path = y, dc_dev_alias = z,
      dc_reason = enum [Disk_change_reason_MissingOnStart] Disk_change_reason_Unknown r\<rparr>) | _ \<Rightarrow> None)"
| "documented_info (TrayChange f) ev =
     (case ev of Ev_s_i x r \<Rightarrow> Some (Tray_change_info
     \<lparr>tc_dev_alias = x, tc_reason = enum [Tray_change_reason_Open, Tray_change_reason_Close] Tray_change_reason_Unknown r\<rparr>) | _ \<Rightarrow> None)"
| "documented_info (PMWakeUp f) ev =
     (case ev of Ev_i x \<Rightarrow> Some (Unknown_reason (sint x)) | _ \<Rightarrow> None)"
| "documented_info (PMSuspend f) ev =
     (case ev of Ev_i x \<Rightarrow> Some (Unknown_reason (sint x)) | _ \<Rightarrow> None)"
| "documented_info (BalloonChange f) ev =
     (case ev of Ev_i64 x \<Rightarrow> Some (Int64_info x) | _ \<Rightarrow> None)"
| "documented_info (PMSuspendDisk f) ev =
     (case ev of Ev_i x \<Rightarrow> Some (Unknown_reason (sint x)) | _ \<Rightarrow> None)"

subsection \<open>Lemmas\<close>

fun enum_at :: "'a list \<Rightarrow> (int \<Rightarrow> 'a) \<Rightarrow> int \<Rightarrow> int \<Rightarrow> 'a" where
  "enum_at [] unknown k i = unknown i"
| "enum_at (x # xs) unknown k i = (if i = k then x else enum_at xs unknown (k + 1) i)"

lemma enum_at_eq: "enum_at xs unknown k i = (if k \<le> i \<and> i < k + int (length xs) then xs ! nat (i - k) else unknown i)"
proof (induction xs arbitrary: k)
  case (Cons x xs)
  have "nat (i - k) = Suc (nat (i - (k + 1)))" if "k < i" using that by simp
  with Cons show ?case by auto
qed auto

lemma enum_chain: "enum xs unknown n = enum_at xs unknown 0 (sint n)"
  by (simp add: enum_def enum_at_eq)

lemmas make_defs = Defined_make_def Undefined_make_def Started_make_def Suspended_make_def Resumed_make_def Stopped_make_def
  PM_suspended_make_def Watchdog_make_def action_of_int_def phase_of_int_def ty_of_int_def disk_reason_of_int_def
  tray_reason_of_int_def

lemma lifecycle_documented: "Lifecycle_make (sint x) (sint y) = doc_lifecycle x y"
  by (simp add: Lifecycle_make_def doc_lifecycle_def enum_chain make_defs)

lemma reads [simp]:
  "read2 f (Some a) (Some b) = Some (f a b)" "read3 g (Some a) (Some b) (Some c) = Some (g a b c)"
  "read4 h (Some a) (Some b) (Some c) (Some d) = Some (h a b c d)"
  "read5 k (Some a) (Some b) (Some c) (Some d) (Some e) = Some (k a b c d e)"
  by (simp_all add: read2_def read3_def read4_def read5_def)

lemma value_str_option [simp]: "value_str (ml_option VString x) = Some x"
  by (cases x) (simp_all add: value_str_def)

lemma value_address_ml [simp]: "value_address (ml_address a) = Some (sint (ga_family a), ga_node a, ga_service a)"
  by (simp add: value_address_def ml_address_def)

lemma value_pairs_ml [simp]: "value_all value_pair (map ml_identity g) = Some (map (\<lambda>x. (gi_type x, gi_name x)) g)"
  by (induction g) (simp_all add: value_pair_def ml_identity_def)

text \<open>The family of an address is read as if the enumeration started at 1.\<close>

lemma family_documented:
  "Graphics_address_make (sint (ga_family a)) (ga_node a) (ga_service a) = doc_address a \<longleftrightarrow> sint (ga_family a) \<notin> {0..3}"
  by (auto simp: Graphics_address_make_def doc_address_def family_of_int_def enum_chain)

lemma status_documented: "status_of_int (sint n) = doc_status n"
  by (simp add: doc_status_def status_of_int_def enum_chain)

lemma status_eq_iff: "doc_status m = doc_status n \<longleftrightarrow> m = n"
proof -
  have "doc_status m = doc_status n \<longleftrightarrow> sint m = sint n" by (auto simp: doc_status_def enum_chain split: if_splits)
  then show ?thesis using signed_word_eqI by auto
qed

subsection \<open>Properties\<close>

text \<open>C37: the user's function learns what libvirt documents for the event (every kind of event, every number, including the numbers of newer
  versions and strings that are missing), with two exceptions: the status of a block job is wrong unless its number happens to be
  that of the type of the job, and an address of a graphics event has the wrong family for every family that is known.\<close>

theorem event_details_correct:
  assumes "event_signature ev = callback_signature cb"
  shows "closure_info cb (event_value ev) = documented_info cb ev \<longleftrightarrow>
    (case ev of
       Ev_s_i_i disk ty status \<Rightarrow> ty = status
     | Ev_graphics ph a b auth subj \<Rightarrow> sint (ga_family a) \<notin> {0..3} \<and> sint (ga_family b) \<notin> {0..3}
     | _ \<Rightarrow> True)"
proof (cases "\<exists>ph a b auth subj. ev = Ev_graphics ph a b auth subj")
  case True
  then obtain ph a b auth subj where ev: "ev = Ev_graphics ph a b auth subj" by blast
  with assms obtain f where cb: "cb = Graphics f" by (cases cb) auto
  have "phase_of_int (sint ph) = enum [Graphics_phase_Connect, Graphics_phase_Initialize, Graphics_phase_Disconnect] Graphics_phase_Unknown ph"
    by (simp add: phase_of_int_def enum_chain)
  then show ?thesis
    by (auto simp: ev cb Graphics_make_def Graphics_subject_make_def family_documented)
next
  case False
  with assms show ?thesis
    by (cases cb; cases ev) (auto simp: lifecycle_documented make_noreason_def Io_error_make_def Block_job_make_def
        Disk_change_make_def Tray_change_make_def status_documented status_eq_iff doc_action_def enum_chain make_defs)
qed

theorem event_details_correct_witness:
  "closure_info (Lifecycle 3) (event_value (Ev_i_i 5 2)) = Some (Lifecycle_info (Lifecycle_Stopped Stopped_Crashed)) \<and>
   closure_info (BlockJob 4) (event_value (Ev_s_i_i (Some ''vda'') 1 0)) \<noteq> documented_info (BlockJob 4) (Ev_s_i_i (Some ''vda'') 1 0)"
proof
  have "closure_info (Lifecycle 3) (event_value (Ev_i_i 5 2)) = documented_info (Lifecycle 3) (Ev_i_i 5 2)"
    using event_details_correct [of "Ev_i_i 5 2" "Lifecycle 3"] by simp
  then show "closure_info (Lifecycle 3) (event_value (Ev_i_i 5 2)) = Some (Lifecycle_info (Lifecycle_Stopped Stopped_Crashed))"
    by (simp add: doc_lifecycle_def enum_chain)
  show "closure_info (BlockJob 4) (event_value (Ev_s_i_i (Some ''vda'') 1 0)) \<noteq> documented_info (BlockJob 4) (Ev_s_i_i (Some ''vda'') 1 0)"
    using event_details_correct [of "Ev_s_i_i (Some ''vda'') 1 0" "BlockJob 4"] by (simp del: closure_info.simps documented_info.simps event_value.simps)
qed

end
