(* ===== verification/OCamlStd.thy ===== *)
theory OCamlStd
  imports Prelude "HOL-Library.List_Lexorder" "HOL-Library.Char_ord"
begin

section \<open>What the OCaml code uses of its language and standard library\<close>

text \<open>
  The theories on the OCaml modules model a computation by its outcome: \<open>Inr\<close> a value, or \<open>Inl\<close> an
  exception that leaves the function. \<open>error\<close> prints a message and ends the program; it is the outcome
  \<open>Error\<close>. Integers are unbounded here and wrap to 63 or 64 bits where the code computes with them.
  \<open>StringMap\<close> is \<open>Map.Make (String)\<close>: its traversals go through the keys in increasing order, and so a map
  is an association list with strictly increasing keys. What its clients rely on is the locale \<open>ordered_map\<close>.
\<close>

datatype ocaml_exn =
    OFailure string
  | OInvalid_argument string
  | OAssert_failure
  | ODivision_by_zero
  | OError string

type_synonym 'a oc = "ocaml_exn + 'a"

lemma foreachR_snoc: "foreachR f (xs @ [x]) s = bindR (foreachR f xs s) (f x)"
proof -
  have "foreachR f [x] = f x"
  proof
    show "foreachR f [x] u = f x u" for u by (cases "f x u") simp_all
  qed
  then show ?thesis by (simp only: foreachR_append)
qed

subsection \<open>Strings\<close>

text \<open>\<open>Char.lowercase_ascii\<close> and \<open>String.lowercase_ascii\<close>\<close>

definition char_lowercase :: "char \<Rightarrow> char" where
  "char_lowercase c = (if 65 \<le> (of_char c :: nat) \<and> of_char c \<le> (90 :: nat) then char_of (of_char c + (32 :: nat)) else c)"

definition lowercase_ascii :: "string \<Rightarrow> string" where
  "lowercase_ascii s = map char_lowercase s"

lemma char_lowercase_idem [simp]: "char_lowercase (char_lowercase c) = char_lowercase c"
  by (auto simp: char_lowercase_def)

lemma lowercase_idem [simp]: "lowercase_ascii (lowercase_ascii s) = lowercase_ascii s"
  by (simp add: lowercase_ascii_def)

lemma lowercase_Nil [simp]: "lowercase_ascii [] = []"
  by (simp add: lowercase_ascii_def)

lemma lowercase_append [simp]: "lowercase_ascii (s @ t) = lowercase_ascii s @ lowercase_ascii t"
  by (simp add: lowercase_ascii_def)

subsection \<open>Finite maps in key order\<close>

type_synonym 'a string_map = "(string \<times> 'a) list"

text \<open>\<open>StringMap.find\<close> with \<open>Not_found\<close> as \<open>None\<close> is \<open>map_of\<close>; \<open>StringMap.fold f m init\<close> is \<open>fold\<close> over the list.\<close>

fun smap_add :: "string \<Rightarrow> 'a \<Rightarrow> 'a string_map \<Rightarrow> 'a string_map" where
  "smap_add k v [] = [(k, v)]"
| "smap_add k v ((k', v') # m) =
     (if k < k' then (k, v) # (k', v') # m
      else if k = k' then (k, v) # m
      else (k', v') # smap_add k v m)"

definition smap_ok :: "'a string_map \<Rightarrow> bool" where
  "smap_ok m \<longleftrightarrow> sorted_wrt (<) (map fst m)"

text \<open>The laws of a map whose traversal is in key order.\<close>

locale ordered_map =
  fixes empty :: 'm and add :: "'k :: linorder \<Rightarrow> 'v \<Rightarrow> 'm \<Rightarrow> 'm" and find :: "'m \<Rightarrow> 'k \<Rightarrow> 'v option"
    and bindings :: "'m \<Rightarrow> ('k \<times> 'v) list" and ok :: "'m \<Rightarrow> bool"
  assumes ok_empty: "ok empty" and ok_add: "ok m \<Longrightarrow> ok (add k v m)"
    and find_empty: "find empty k = None"
    and find_add: "find (add k v m) k' = (if k' = k then Some v else find m k')"
    and bindings_sorted: "ok m \<Longrightarrow> sorted_wrt (<) (map fst (bindings m))"
    and find_bindings: "ok m \<Longrightarrow> find m k = Some v \<longleftrightarrow> (k, v) \<in> set (bindings m)"
begin

text \<open>Adding several bindings: the last one for a key counts.\<close>

lemma find_add_list:
  "find (fold (\<lambda>(k, v). add k v) kvs m) k = (case map_of (rev kvs) k of None \<Rightarrow> find m k | Some v \<Rightarrow> Some v)"
  by (induction kvs arbitrary: m) (auto simp: find_add map_add_def split: option.splits)

lemma ok_add_list: "ok m \<Longrightarrow> ok (fold (\<lambda>(k, v). add k v) kvs m)"
  by (induction kvs arbitrary: m) (auto simp: ok_add)

text \<open>A traversal that drops some bindings and changes the values of others.\<close>

lemma ok_filter_fold:
  "ok acc \<Longrightarrow> ok (fold (\<lambda>(k, v) acc. case g k v of None \<Rightarrow> acc | Some w \<Rightarrow> add k w acc) kvs acc)"
  by (induction kvs arbitrary: acc) (auto simp: ok_add split: option.splits)

lemma find_filter_list:
  "distinct (map fst kvs) \<Longrightarrow>
   find (fold (\<lambda>(k, v) acc. case g k v of None \<Rightarrow> acc | Some w \<Rightarrow> add k w acc) kvs acc) k =
     (case Option.bind (map_of kvs k) (g k) of None \<Rightarrow> find acc k | Some w \<Rightarrow> Some w)"
proof (induction kvs arbitrary: acc)
  case (Cons kv kvs)
  obtain k' v' where kv: "kv = (k', v')" by (cases kv)
  have "map_of kvs k' = None" using Cons.prems by (auto simp: kv map_of_eq_None_iff image_iff)
  with Cons show ?case by (cases "g k' v'"; cases "Option.bind (map_of kvs k) (g k)") (auto simp: kv find_add)
qed simp

lemma find_bindings_map_of: "ok m \<Longrightarrow> map_of (bindings m) k = find m k"
proof -
  assume ok: "ok m"
  have "distinct (map fst (bindings m))"
    using bindings_sorted [OF ok] by (simp add: strict_sorted_iff)
  then have "map_of (bindings m) k = Some v \<longleftrightarrow> find m k = Some v" for v
    by (simp add: find_bindings [OF ok])
  then show ?thesis by (cases "find m k"; cases "map_of (bindings m) k") auto
qed

lemma find_filter_fold:
  assumes "ok m"
  shows "find (fold (\<lambda>(k, v) acc. case g k v of None \<Rightarrow> acc | Some w \<Rightarrow> add k w acc) (bindings m) empty) k =
    Option.bind (find m k) (g k)"
proof -
  have "distinct (map fst (bindings m))" using bindings_sorted [OF assms] by (simp add: strict_sorted_iff)
  from find_filter_list [OF this, of g empty k] show ?thesis
    by (simp add: find_bindings_map_of [OF assms] find_empty split: option.splits)
qed

text \<open>Building a map from bindings with different keys gives these bindings in order.\<close>

lemma bindings_of_list:
  assumes "distinct (map fst kvs)"
  shows "set (bindings (fold (\<lambda>(k, v). add k v) kvs empty)) = set kvs"
    and "sorted_wrt (<) (map fst (bindings (fold (\<lambda>(k, v). add k v) kvs empty)))"
proof -
  let ?m = "fold (\<lambda>(k, v). add k v) kvs empty"
  have ok: "ok ?m" by (simp add: ok_add_list ok_empty)
  have "(k, v) \<in> set (bindings ?m) \<longleftrightarrow> (k, v) \<in> set kvs" for k v
  proof -
    have "(k, v) \<in> set (bindings ?m) \<longleftrightarrow> map_of (rev kvs) k = Some v"
      using find_bindings [OF ok, of k v] by (auto simp: find_add_list find_empty split: option.splits)
    also have "\<dots> \<longleftrightarrow> (k, v) \<in> set kvs"
      using assms by (simp add: map_of_eq_Some_iff rev_map [symmetric])
    finally show ?thesis .
  qed
  then show "set (bindings ?m) = set kvs" by auto
  show "sorted_wrt (<) (map fst (bindings ?m))" using bindings_sorted [OF ok] .
qed

end

lemma smap_add_keys: "fst ` set (smap_add k v m) = insert k (fst ` set m)"
  by (induction m rule: smap_add.induct) auto

lemma smap_ok_add: "smap_ok m \<Longrightarrow> smap_ok (smap_add k v m)"
  unfolding smap_ok_def
proof (induction k v m rule: smap_add.induct)
  case (2 k v k' v' m)
  have "k' < x" if "x \<in> fst ` set (smap_add k v m)" "\<not> k < k'" "k \<noteq> k'" for x
    using that 2(2) by (auto simp: smap_add_keys)
  with 2 show ?case by (auto simp: image_iff Ball_def)
qed simp

lemma map_of_smap_add: "map_of (smap_add k v m) = (map_of m)(k \<mapsto> v)"
  by (induction k v m rule: smap_add.induct) (auto simp: fun_eq_iff)

lemma smap_add_same: "smap_ok m \<Longrightarrow> map_of m k = Some v \<Longrightarrow> smap_add k v m = m"
proof (induction k v m rule: smap_add.induct)
  case (2 k v k' v' m)
  have "k' < k" if "map_of m k = Some v" using 2(2) map_of_SomeD [OF that] by (auto simp: smap_ok_def)
  with 2 show ?case by (auto simp: smap_ok_def split: if_splits)
qed simp

lemma smap_ok_distinct: "smap_ok m \<Longrightarrow> distinct (map fst m)"
  unfolding smap_ok_def by (simp add: strict_sorted_iff)

interpretation string_map: ordered_map "[]" smap_add map_of "\<lambda>m. m" smap_ok
proof unfold_locales
  show "sorted_wrt (<) (map fst m)" if "smap_ok m" for m :: "'a string_map"
    using that by (simp add: smap_ok_def)
  show "map_of m k = Some v \<longleftrightarrow> (k, v) \<in> set m" if "smap_ok m" for m :: "'a string_map" and k v
    using smap_ok_distinct [OF that] by (simp add: map_of_eq_Some_iff)
qed (simp_all add: smap_ok_add map_of_smap_add, simp add: smap_ok_def)

subsection \<open>Integers\<close>

text \<open>\<open>int_of_string\<close> and \<open>Int64.of_string\<close>: an optional sign, an optional prefix for the base, a digit, and then
  digits and underscores. A decimal literal has to fit the signed range, one with a prefix the unsigned
  range, from which it wraps. \<open>bits\<close> is 63 or 64.\<close>

definition wrap_int :: "nat \<Rightarrow> int \<Rightarrow> int" where
  "wrap_int bits i = signed_take_bit (bits - 1) i"

definition digit_of :: "char \<Rightarrow> nat option" where
  "digit_of c =
     (let n = of_char c :: nat
      in if 48 \<le> n \<and> n \<le> 57 then Some (n - 48)
         else if 65 \<le> n \<and> n \<le> 90 then Some (n - 55)
         else if 97 \<le> n \<and> n \<le> 122 then Some (n - 87)
         else None)"

definition digit_in :: "nat \<Rightarrow> char \<Rightarrow> nat option" where
  "digit_in base c = (case digit_of c of Some d \<Rightarrow> if d < base then Some d else None | None \<Rightarrow> None)"

fun parse_digits :: "nat \<Rightarrow> nat \<Rightarrow> string \<Rightarrow> nat option" where
  "parse_digits base acc [] = Some acc"
| "parse_digits base acc (c # s) =
     (if c = CHR ''_'' then parse_digits base acc s
      else case digit_in base c of Some d \<Rightarrow> parse_digits base (acc * base + d) s | None \<Rightarrow> None)"

definition parse_sign :: "string \<Rightarrow> bool \<times> string" where
  "parse_sign s =
     (case s of
        c # t \<Rightarrow> if c = CHR ''-'' then (True, t) else if c = CHR ''+'' then (False, t) else (False, s)
      | [] \<Rightarrow> (False, s))"

definition parse_base :: "string \<Rightarrow> nat \<times> bool \<times> string" where
  "parse_base s =
     (case s of
        z # c # t \<Rightarrow>
          if z = CHR ''0''
          then if c \<in> set ''xX'' then (16, False, t) else if c \<in> set ''oO'' then (8, False, t)
               else if c \<in> set ''bB'' then (2, False, t) else if c \<in> set ''uU'' then (10, False, t) else (10, True, s)
          else (10, True, s)
      | _ \<Rightarrow> (10, True, s))"

definition int_of_string_bits :: "nat \<Rightarrow> string \<Rightarrow> int option" where
  "int_of_string_bits bits s =
     (let (neg, t) = parse_sign s; (base, is_signed, u) = parse_base t
      in case u of
           [] \<Rightarrow> None
         | c # v \<Rightarrow>
             (case digit_in base c of
                None \<Rightarrow> None
              | Some d \<Rightarrow>
                  (case parse_digits base d v of
                     None \<Rightarrow> None
                   | Some n \<Rightarrow>
                       if (if is_signed then (if neg then int n \<le> 2 ^ (bits - 1) else int n < 2 ^ (bits - 1)) else int n < 2 ^ bits)
                       then Some (wrap_int bits (if neg then - int n else int n)) else None)))"

definition int_of_string :: "string \<Rightarrow> int oc" where
  "int_of_string s = (case int_of_string_bits 63 s of None \<Rightarrow> Inl (OFailure ''int_of_string'') | Some i \<Rightarrow> Inr i)"

definition Int64_of_string :: "string \<Rightarrow> int oc" where
  "Int64_of_string s = (case int_of_string_bits 64 s of None \<Rightarrow> Inl (OFailure ''Int64.of_string'') | Some i \<Rightarrow> Inr i)"

text \<open>\<open>string_of_int\<close> and the conversion \<open>%d\<close>\<close>

function decimal :: "nat \<Rightarrow> string" where
  "decimal n = (if n < 10 then [char_of (48 + n)] else decimal (n div 10) @ [char_of (48 + n mod 10)])"
  by pat_completeness auto
termination
  by (relation "measure id") auto

declare decimal.simps [simp del]

definition string_of_int :: "int \<Rightarrow> string" where
  "string_of_int i = (if i < 0 then ''-'' @ decimal (nat (- i)) else decimal (nat i))"

text \<open>The characters of a printed number are decimal digits, and reading them gives the number.\<close>

lemma char_of_neq: "n < 256 \<Longrightarrow> of_char c \<noteq> n \<Longrightarrow> char_of n \<noteq> c" for n :: nat
  by auto

lemma digit_in_decimal:
  "d < 10 \<Longrightarrow> digit_in 10 (char_of (48 + d)) = Some d \<and>
     (char_of (48 + d) :: char) \<noteq> CHR ''_'' \<and> (char_of (48 + d) :: char) \<noteq> CHR ''-'' \<and> (char_of (48 + d) :: char) \<noteq> CHR ''+''" for d :: nat
proof -
  assume "d < 10"
  then have "d \<in> set [0..<10]" by simp
  then have "digit_in 10 (char_of (48 + d)) = Some d" by (auto simp: upt_rec digit_in_def digit_of_def)
  moreover have "(char_of (48 + d) :: char) \<noteq> CHR ''_'' \<and> (char_of (48 + d) :: char) \<noteq> CHR ''-'' \<and> (char_of (48 + d) :: char) \<noteq> CHR ''+''"
    using \<open>d < 10\<close> by (intro conjI char_of_neq) simp_all
  ultimately show ?thesis by simp
qed

lemma decimal_chars: "c \<in> set (decimal n) \<Longrightarrow> digit_in 10 c \<noteq> None \<and> c \<noteq> CHR ''_'' \<and> c \<noteq> CHR ''-'' \<and> c \<noteq> CHR ''+''"
proof (induction n rule: decimal.induct)
  case (1 n)
  have digit: "digit_in 10 x \<noteq> None \<and> x \<noteq> CHR ''_'' \<and> x \<noteq> CHR ''-'' \<and> x \<noteq> CHR ''+''"
    if "x = char_of (48 + d)" "d < 10" for x and d :: nat
    using that(1) digit_in_decimal [OF that(2)] by simp
  show ?case
  proof (cases "n < 10")
    case True
    with 1 digit [of c n] show ?thesis by (simp add: decimal.simps [of n])
  next
    case False
    have "c \<in> set (decimal (n div 10) @ [char_of (48 + n mod 10)])" using 1(2) False by (simp add: decimal.simps [of n])
    with 1(1) False digit [of c "n mod 10"] show ?thesis by auto
  qed
qed

lemma decimal_not_Nil: "decimal n \<noteq> []"
  by (subst decimal.simps) simp

lemma parse_digits_append:
  "parse_digits base acc (s @ t) = Option.bind (parse_digits base acc s) (\<lambda>a. parse_digits base a t)"
  by (induction base acc s rule: parse_digits.induct) (auto split: option.splits)

lemma parse_digits_decimal: "parse_digits 10 0 (decimal n) = Some n"
proof (induction n rule: decimal.induct)
  case (1 n)
  show ?case
    using 1 digit_in_decimal [of n] digit_in_decimal [of "n mod 10"]
    by (subst decimal.simps) (auto simp: parse_digits_append)
qed


lemma decimal_Cons:
  obtains c v d where "decimal n = c # v" "digit_in 10 c = Some d" "parse_digits 10 d v = Some n" "c \<noteq> CHR ''-''" "c \<noteq> CHR ''+''" "c \<noteq> CHR ''_''"
proof -
  obtain c v where c: "decimal n = c # v" using decimal_not_Nil by (cases "decimal n") auto
  then have "digit_in 10 c \<noteq> None \<and> c \<noteq> CHR ''_'' \<and> c \<noteq> CHR ''-'' \<and> c \<noteq> CHR ''+''" by (intro decimal_chars [of _ n]) simp
  with parse_digits_decimal [of n] c that show ?thesis by (auto split: option.splits)
qed

lemma parse_base_decimal: "parse_base (decimal n) = (10, True, decimal n)"
proof -
  have "x \<notin> set ''xXoObBuU''" if "digit_in 10 x \<noteq> None" for x
    using that by (auto simp: digit_in_def digit_of_def)
  moreover have "digit_in 10 x \<noteq> None" if "decimal n = z # x # t" for z x t
    using that decimal_chars [of x n] by simp
  ultimately show ?thesis by (auto simp: parse_base_def split: list.splits)
qed

lemma parse_sign_string_of_int:
  "parse_sign (string_of_int i @ rest) = (i < 0, decimal (nat \<bar>i\<bar>) @ rest)"
proof (cases "i < 0")
  case False
  obtain c v where "decimal (nat i) = c # v" "c \<noteq> CHR ''-''" "c \<noteq> CHR ''+''" by (rule decimal_Cons [of "nat i"])
  with False show ?thesis by (simp add: string_of_int_def parse_sign_def)
qed (simp add: string_of_int_def parse_sign_def)

lemma int_of_string_string_of_int:
  assumes "- (2 ^ 62) \<le> i" and "i < 2 ^ 62"
  shows "int_of_string (string_of_int i) = Inr i"
proof -
  obtain c v d where d: "decimal (nat \<bar>i\<bar>) = c # v" "digit_in 10 c = Some d" "parse_digits 10 d v = Some (nat \<bar>i\<bar>)"
    by (rule decimal_Cons [of "nat \<bar>i\<bar>"])
  have "wrap_int 63 i = i" using assms by (simp add: wrap_int_def signed_take_bit_int_eq_self)
  then show ?thesis
    using parse_sign_string_of_int [of i "[]"] parse_base_decimal [of "nat \<bar>i\<bar>"] assms
    by (auto simp: int_of_string_def int_of_string_bits_def d)
qed


end
