(* ===== verification/LibvirtApi.thy ===== *)
theory LibvirtApi
  imports CamlFFI OCamlStd
begin

section \<open>The libvirt binding: processor maps and lists of domains (libvirt.ml, modules Connect and Domain)\<close>

text \<open>
  The functions of \<open>libvirt.ml\<close> that are written in OCaml outside module \<open>Event\<close>: maps of processors, which are strings with a
  bit for each processor, the flags for creating a domain, and the functions that list domains with the calls of the binding. Those calls
  (\<open>num_of_domains\<close> and so on) are stubs that are generated when the binding is built: they are a parameter.
\<close>

subsection \<open>OCaml's integers and bytes\<close>

text \<open>Division truncates and the remainder has the sign of the dividend. A shift by a negative number of bits, or by too many,
  has a result that is not specified.\<close>

definition quot_int :: "int \<Rightarrow> int \<Rightarrow> int" where
  "quot_int a b = sgn a * sgn b * (\<bar>a\<bar> div \<bar>b\<bar>)"

definition rem_int :: "int \<Rightarrow> int \<Rightarrow> int" where
  "rem_int a b = a - b * quot_int a b"

definition lsl_one :: "int \<Rightarrow> int ml" where
  "lsl_one k = (if 0 \<le> k \<and> k \<le> 63 then Inr (wrap_int 63 (2 ^ nat k)) else undef)"

definition Bytes_get :: "string \<Rightarrow> int \<Rightarrow> char ml" where
  "Bytes_get b i = (if 0 \<le> i \<and> i < int (length b) then Inr (b ! nat i) else raise (Invalid_argument ''index out of bounds''))"

definition Bytes_set :: "string \<Rightarrow> int \<Rightarrow> char \<Rightarrow> string ml" where
  "Bytes_set b i c = (if 0 \<le> i \<and> i < int (length b) then Inr (b[nat i := c]) else raise (Invalid_argument ''index out of bounds''))"

definition Char_chr :: "int \<Rightarrow> char ml" where
  "Char_chr n = (if 0 \<le> n \<and> n \<le> 255 then Inr (char_of n) else raise (Invalid_argument ''Char.chr''))"

subsection \<open>Processor maps\<close>

record node_info =
  ni_model :: string
  ni_memory :: "64 word"
  ni_cpus :: int
  ni_mhz :: int
  ni_nodes :: int
  ni_sockets :: int
  ni_cores :: int
  ni_threads :: int

definition maxcpus_of_node_info :: "node_info \<Rightarrow> int" where
  "maxcpus_of_node_info i = wrap_int 63 (wrap_int 63 (wrap_int 63 (ni_nodes i * ni_sockets i) * ni_cores i) * ni_threads i)"

definition cpumaplen :: "int \<Rightarrow> int" where
  "cpumaplen nr_cpus = quot_int (wrap_int 63 (nr_cpus + 7)) 8"

text \<open>The map is changed in place: the new contents are the result.\<close>

definition use_cpu :: "string \<Rightarrow> int \<Rightarrow> string ml" where
  "use_cpu cpumap cpu =
     bindR (Bytes_get cpumap (quot_int cpu 8)) (\<lambda>c.
     bindR (lsl_one (rem_int cpu 8)) (\<lambda>m.
     bindR (Char_chr (or (of_char c) m)) (Bytes_set cpumap (quot_int cpu 8))))"

definition unuse_cpu :: "string \<Rightarrow> int \<Rightarrow> string ml" where
  "unuse_cpu cpumap cpu =
     bindR (Bytes_get cpumap (quot_int cpu 8)) (\<lambda>c.
     bindR (lsl_one (rem_int cpu 8)) (\<lambda>m.
     bindR (Char_chr (and (of_char c) (not m))) (Bytes_set cpumap (quot_int cpu 8))))"

definition cpu_usable :: "string \<Rightarrow> int \<Rightarrow> int \<Rightarrow> int \<Rightarrow> bool ml" where
  "cpu_usable cpumaps maplen vcpu cpu =
     bindR (Bytes_get cpumaps (wrap_int 63 (wrap_int 63 (vcpu * maplen) + quot_int cpu 8))) (\<lambda>c.
     bindR (lsl_one (rem_int cpu 8)) (\<lambda>m. Inr (and (of_char c) m \<noteq> 0)))"

subsection \<open>Flags for creating a domain\<close>

datatype domain_create_flag = START_PAUSED | START_AUTODESTROY | START_BYPASS_CACHE | START_FORCE_BOOT | START_VALIDATE

fun int_of_domain_create_flags :: "domain_create_flag list \<Rightarrow> int" where
  "int_of_domain_create_flags [] = 0"
| "int_of_domain_create_flags (START_PAUSED # flags) = or 1 (int_of_domain_create_flags flags)"
| "int_of_domain_create_flags (START_AUTODESTROY # flags) = or 2 (int_of_domain_create_flags flags)"
| "int_of_domain_create_flags (START_BYPASS_CACHE # flags) = or 4 (int_of_domain_create_flags flags)"
| "int_of_domain_create_flags (START_FORCE_BOOT # flags) = or 8 (int_of_domain_create_flags flags)"
| "int_of_domain_create_flags (START_VALIDATE # flags) = or 16 (int_of_domain_create_flags flags)"

definition max_peek :: "'a \<Rightarrow> int" where
  "max_peek d = 65536"

subsection \<open>Lists of domains\<close>

text \<open>The compilers evaluate the arguments of a constructor from right to left: the rest of the list is mapped before the
  function is applied to the first element, and again if that fails.\<close>

fun map_ignore_errors :: "('a \<Rightarrow> ('w, 'b) stub) \<Rightarrow> 'a list \<Rightarrow> ('w, 'b list) stub" where
  "map_ignore_errors f [] w = (Inr [], w)"
| "map_ignore_errors f (x # xs) w =
     (case bindS (map_ignore_errors f xs) (\<lambda>ys. bindS (f x) (\<lambda>y. retS (y # ys))) w of
        (Inl (Raise (Virterror _)), w) \<Rightarrow> map_ignore_errors f xs w
      | (r, w) \<Rightarrow> (r, w))"

datatype list_flag = ListActive | ListInactive | ListAll

record ('w, 'd, 'i) domain_api =
  num_of_domains :: "('w, int) stub"
  list_domains :: "int \<Rightarrow> ('w, int list) stub"
  num_of_defined_domains :: "('w, int) stub"
  list_defined_domains :: "int \<Rightarrow> ('w, string list) stub"
  lookup_by_id :: "int \<Rightarrow> ('w, 'd) stub"
  lookup_by_name :: "string \<Rightarrow> ('w, 'd) stub"
  get_info :: "'d \<Rightarrow> ('w, 'i) stub"

definition get_domains :: "('w, 'd, 'i) domain_api \<Rightarrow> list_flag list \<Rightarrow> ('w, 'd list) stub" where
  "get_domains api flags =
     (let (get_active, get_inactive) =
            (if ListAll \<in> set flags then (True, True) else (ListActive \<in> set flags, ListInactive \<in> set flags))
      in bindS (if get_active
                then bindS (num_of_domains api) (\<lambda>n. bindS (list_domains api n) (map_ignore_errors (lookup_by_id api)))
                else retS []) (\<lambda>active_doms.
         bindS (if get_inactive
                then bindS (num_of_defined_domains api) (\<lambda>n.
                     bindS (list_defined_domains api n) (map_ignore_errors (lookup_by_name api)))
                else retS []) (\<lambda>inactive_doms. retS (active_doms @ inactive_doms))))"

definition get_domains_and_infos :: "('w, 'd, 'i) domain_api \<Rightarrow> list_flag list \<Rightarrow> ('w, ('d \<times> 'i) list) stub" where
  "get_domains_and_infos api flags =
     (let (get_active, get_inactive) =
            (if ListAll \<in> set flags then (True, True) else (ListActive \<in> set flags, ListInactive \<in> set flags))
      in bindS (if get_active
                then bindS (num_of_domains api) (\<lambda>n. bindS (list_domains api n) (map_ignore_errors (lookup_by_id api)))
                else retS []) (\<lambda>active_doms.
         bindS (if get_inactive
                then bindS (num_of_defined_domains api) (\<lambda>n.
                     bindS (list_defined_domains api n) (map_ignore_errors (lookup_by_name api)))
                else retS []) (\<lambda>inactive_doms.
         let doms = active_doms @ inactive_doms
         in map_ignore_errors (\<lambda>d. bindS (get_info api d) (\<lambda>i. retS (d, i))) doms)))"

subsection \<open>Lemmas on bits\<close>

lemma quot_rem_nonneg: "0 \<le> a \<Longrightarrow> 0 < b \<Longrightarrow> quot_int a b = a div b" "0 \<le> a \<Longrightarrow> 0 < b \<Longrightarrow> rem_int a b = a mod b"
proof -
  show q: "quot_int a b = a div b" if "0 \<le> a" "0 < b" using that by (cases "a = 0") (simp_all add: quot_int_def)
  show "rem_int a b = a mod b" if "0 \<le> a" "0 < b" using q [OF that] by (simp add: rem_int_def minus_mult_div_eq_mod)
qed

lemma lsl_one_small: "0 \<le> k \<Longrightarrow> k < 8 \<Longrightarrow> lsl_one k = Inr (2 ^ nat k)"
proof -
  assume k: "0 \<le> k" "k < 8"
  then have "(2 :: int) ^ nat k \<le> 2 ^ 7" by (intro power_increasing) auto
  then have "wrap_int 63 (2 ^ nat k) = 2 ^ nat k" unfolding wrap_int_def
    by (intro signed_take_bit_int_eq_self) (auto intro: order_trans [of _ 0])
  then show ?thesis using k by (simp add: lsl_one_def)
qed

lemma of_char_range: "0 \<le> (of_char c :: int)" "(of_char c :: int) < 256"
  by (simp_all add: of_char_def horner_sum_simps)

lemma byte_of_bits:
  assumes "\<And>n. 8 \<le> n \<Longrightarrow> \<not> bit (x :: int) n"
  shows "0 \<le> x" and "x \<le> 255" and "of_char (char_of x :: char) = x"
proof -
  have "take_bit 8 x = x" by (rule bit_eqI) (use assms not_less in \<open>auto simp: bit_take_bit_iff\<close>)
  then show "0 \<le> x" "x \<le> 255" "of_char (char_of x :: char) = x"
    using take_bit_int_less_exp [of 8 x] take_bit_nonnegative [of 8 x] by (auto simp: take_bit_eq_mod)
qed

lemma char_bits: "8 \<le> n \<Longrightarrow> \<not> bit (of_char c :: int) n"
proof -
  assume n: "8 \<le> n"
  have "take_bit 8 (of_char c) = (of_char c :: int)" using of_char_range [of c] by (simp add: take_bit_int_eq_self)
  with n show ?thesis by (metis bit_take_bit_iff not_less)
qed

text \<open>Processor \<open>c\<close> in a map.\<close>

definition cpu_bit :: "string \<Rightarrow> nat \<Rightarrow> bool" where
  "cpu_bit b c = bit (of_char (b ! (c div 8)) :: int) (c mod 8)"

lemma cpu_map_run:
  fixes c :: nat
  assumes "c < 8 * length b"
  shows "use_cpu b (int c) = Inr (b[c div 8 := char_of (or (of_char (b ! (c div 8))) (2 ^ (c mod 8)) :: int)])"
    and "unuse_cpu b (int c) = Inr (b[c div 8 := char_of (and (of_char (b ! (c div 8))) (not (2 ^ (c mod 8))) :: int)])"
    and "int c < 2 ^ 62 \<Longrightarrow> cpu_usable b maplen 0 (int c) = Inr (cpu_bit b c)"
proof -
  have q: "quot_int (int c) 8 = int (c div 8)" "rem_int (int c) 8 = int (c mod 8)" by (simp_all add: quot_rem_nonneg zdiv_int zmod_int)
  have l: "lsl_one (int (c mod 8)) = Inr (2 ^ (c mod 8))" by (subst lsl_one_small) simp_all
  have i: "c div 8 < length b" using assms by (simp add: less_mult_imp_div_less mult.commute)
  have set_: "Char_chr (or (of_char (b ! (c div 8))) (2 ^ (c mod 8))) = Inr (char_of (or (of_char (b ! (c div 8))) (2 ^ (c mod 8)) :: int))"
    "Char_chr (and (of_char (b ! (c div 8))) (not (2 ^ (c mod 8)))) = Inr (char_of (and (of_char (b ! (c div 8))) (not (2 ^ (c mod 8))) :: int))"
    using byte_of_bits(1,2) [of "or (of_char (b ! (c div 8))) (2 ^ (c mod 8))"] byte_of_bits(1,2) [of "and (of_char (b ! (c div 8))) (not (2 ^ (c mod 8)))"]
    by (auto simp: Char_chr_def bit_simps char_bits)
  show "use_cpu b (int c) = Inr (b[c div 8 := char_of (or (of_char (b ! (c div 8))) (2 ^ (c mod 8)) :: int)])"
    "unuse_cpu b (int c) = Inr (b[c div 8 := char_of (and (of_char (b ! (c div 8))) (not (2 ^ (c mod 8))) :: int)])"
    using i by (simp_all add: use_cpu_def unuse_cpu_def q l set_ Bytes_get_def Bytes_set_def)
  show "cpu_usable b maplen 0 (int c) = Inr (cpu_bit b c)" if "int c < 2 ^ 62"
  proof -
    have "int (c div 8) \<le> int c" by simp
    with that have "int (c div 8) < 2 ^ 62" by (rule order.strict_trans1 [rotated])
    then have "wrap_int 63 (int (c div 8)) = int (c div 8)" by (simp add: wrap_int_def signed_take_bit_int_eq_self)
    moreover have "wrap_int 63 0 = 0" by (simp add: wrap_int_def)
    ultimately show ?thesis using i by (simp add: cpu_usable_def q l Bytes_get_def cpu_bit_def and_exp_eq_0_iff_not_bit)
  qed
qed


lemma cpu_bit_changed:
  assumes "c < 8 * length b" and "d < 8 * length b"
  shows "cpu_bit (b[c div 8 := char_of (or (of_char (b ! (c div 8))) (2 ^ (c mod 8)) :: int)]) d \<longleftrightarrow> d = c \<or> cpu_bit b d"
    and "cpu_bit (b[c div 8 := char_of (and (of_char (b ! (c div 8))) (not (2 ^ (c mod 8))) :: int)]) d \<longleftrightarrow> d \<noteq> c \<and> cpu_bit b d"
proof -
  have i: "c div 8 < length b" "d div 8 < length b" using assms by (simp_all add: less_mult_imp_div_less mult.commute)
  have eq: "d = c \<longleftrightarrow> d div 8 = c div 8 \<and> d mod 8 = c mod 8" by (metis div_mult_mod_eq)
  have "of_char (char_of (or (of_char (b ! (c div 8))) (2 ^ (c mod 8)) :: int) :: char) = (or (of_char (b ! (c div 8))) (2 ^ (c mod 8)) :: int)"
    "of_char (char_of (and (of_char (b ! (c div 8))) (not (2 ^ (c mod 8))) :: int) :: char) = (and (of_char (b ! (c div 8))) (not (2 ^ (c mod 8))) :: int)"
    by (intro byte_of_bits(3); auto simp: bit_simps char_bits)+
  then show "cpu_bit (b[c div 8 := char_of (or (of_char (b ! (c div 8))) (2 ^ (c mod 8)) :: int)]) d \<longleftrightarrow> d = c \<or> cpu_bit b d"
    "cpu_bit (b[c div 8 := char_of (and (of_char (b ! (c div 8))) (not (2 ^ (c mod 8))) :: int)]) d \<longleftrightarrow> d \<noteq> c \<and> cpu_bit b d"
    using i unfolding cpu_bit_def eq by (cases "d div 8 = c div 8"; auto simp: bit_simps)+
qed

text \<open>The number of a list of flags has exactly the bits of its flags.\<close>

lemma create_flags_bits:
  "bit (int_of_domain_create_flags fs) n \<longleftrightarrow>
     (n, True) \<in> {(0, START_PAUSED \<in> set fs), (1, START_AUTODESTROY \<in> set fs), (2, START_BYPASS_CACHE \<in> set fs),
       (3, START_FORCE_BOOT \<in> set fs), (4, START_VALIDATE \<in> set fs)}"
proof (induction fs rule: int_of_domain_create_flags.induct)
  case (6 flags)
  have "bit (16 :: int) n \<longleftrightarrow> n = 4" using bit_exp_iff [where 'a = int, of 4 n] by simp
  with 6 show ?case by (auto simp: bit_or_iff)
next
  case (5 flags)
  have "bit (8 :: int) n \<longleftrightarrow> n = 3" using bit_exp_iff [where 'a = int, of 3 n] by simp
  with 5 show ?case by (auto simp: bit_or_iff)
next
  case (4 flags)
  have "bit (4 :: int) n \<longleftrightarrow> n = 2" using bit_exp_iff [where 'a = int, of 2 n] by simp
  with 4 show ?case by (auto simp: bit_or_iff)
next
  case (3 flags)
  have "bit (2 :: int) n \<longleftrightarrow> n = 1" using bit_exp_iff [where 'a = int, of 1 n] by simp
  with 3 show ?case by (auto simp: bit_or_iff)
next
  case (2 flags)
  then show ?case by (auto simp: bit_or_iff bit_1_iff)
qed simp

text \<open>In the maps of all virtual processors, one after the other, the map of each is found.\<close>

lemma nth_concat_equal:
  assumes "\<forall>m \<in> set maps. length m = l" and "v < length maps" and "q < l"
  shows "v * l + q < length (concat maps)" and "concat maps ! (v * l + q) = maps ! v ! q"
proof -
  have "v * l + q < length (concat maps) \<and> concat maps ! (v * l + q) = maps ! v ! q" using assms(1,2)
  proof (induction maps arbitrary: v)
    case (Cons m maps)
    then show ?case
    proof (cases v)
      case 0
      with Cons assms(3) show ?thesis by (auto simp: nth_append)
    next
      case (Suc u)
      with Cons have "u * l + q < length (concat maps)" "concat maps ! (u * l + q) = maps ! u ! q" by simp_all
      with Suc Cons(2) show ?thesis by (auto simp: nth_append)
    qed
  qed simp
  then show "v * l + q < length (concat maps)" and "concat maps ! (v * l + q) = maps ! v ! q" by blast+
qed

lemma cpu_usable_of_vcpu:
  assumes "\<forall>m \<in> set maps. length m = l" and "v < length maps" and "c < 8 * l" and "8 * int (length (concat maps)) \<le> 2 ^ 62"
  shows "cpu_usable (concat maps) (int l) (int v) (int c) = cpu_usable (maps ! v) (int l) 0 (int c)"
proof -
  have q: "quot_int (int c) 8 = int (c div 8)" by (simp add: quot_rem_nonneg zdiv_int)
  have i: "c div 8 < l" using assms(3) by (simp add: less_mult_imp_div_less mult.commute)
  note nth = nth_concat_equal [OF assms(1,2) i]
  have len: "length (maps ! v) = l" using assms(1,2) by simp
  have small: "wrap_int 63 (int k) = int k" if "k \<le> length (concat maps)" for k
  proof -
    have "int k \<le> int (length (concat maps))" using that by simp
    with assms(4) have "int k < 2 ^ 62" by simp
    then show ?thesis by (simp add: wrap_int_def signed_take_bit_int_eq_self)
  qed
  have "wrap_int 63 (wrap_int 63 (int v * int l) + int (c div 8)) = int (v * l + c div 8)"
    using small [of "v * l"] small [of "v * l + c div 8"] nth(1) by simp
  moreover have "wrap_int 63 (wrap_int 63 (0 * int l) + int (c div 8)) = int (c div 8)"
    using small [of 0] small [of "c div 8"] nth(1) by simp
  ultimately show ?thesis using nth i len by (simp add: cpu_usable_def q Bytes_get_def nat_int del: of_nat_add of_nat_mult)
qed

subsection \<open>Lemmas on lists of domains\<close>

text \<open>The results of the elements that do not fail.\<close>

fun found :: "('a \<Rightarrow> 'b ml) \<Rightarrow> 'a list \<Rightarrow> 'b list" where
  "found g [] = []"
| "found g (x # xs) = (case g x of Inr y \<Rightarrow> y # found g xs | Inl e \<Rightarrow> found g xs)"

text \<open>A call whose outcome does not depend on the state, and that fails only with libvirt's errors.\<close>

definition stable :: "('a \<Rightarrow> ('w, 'b) stub) \<Rightarrow> ('a \<Rightarrow> 'b ml) \<Rightarrow> bool" where
  "stable f g \<longleftrightarrow> (\<forall>x w. fst (f x w) = g x) \<and> (\<forall>x e. g x = Inl e \<longrightarrow> (\<exists>v. e = Raise (Virterror v)))"

lemma map_ignore_errors_step:
  assumes "\<And>w. fst (map_ignore_errors f xs w) = Inr ys" and "f x (snd (map_ignore_errors f xs w)) = (r, w2)"
  shows "map_ignore_errors f (x # xs) w =
    (case r of Inr y \<Rightarrow> (Inr (y # ys), w2) | Inl (Raise (Virterror v)) \<Rightarrow> map_ignore_errors f xs w2 | Inl e \<Rightarrow> (Inl e, w2))"
proof -
  obtain w1 where w1: "map_ignore_errors f xs w = (Inr ys, w1)" using assms(1) [of w] by (metis prod.collapse)
  with assms(2) have "bindS (map_ignore_errors f xs) (\<lambda>ys. bindS (f x) (\<lambda>y. retS (y # ys))) w =
      (case r of Inr y \<Rightarrow> (Inr (y # ys), w2) | Inl e \<Rightarrow> (Inl e, w2))"
    by (simp add: bindS_def retS_def split: sum.splits)
  then show ?thesis by (simp split: sum.splits ml_fail.splits ml_exn.splits)
qed

lemma map_ignore_errors_stable:
  assumes "stable f g"
  shows "fst (map_ignore_errors f xs w) = Inr (found g xs)"
proof (induction xs arbitrary: w)
  case (Cons x xs)
  obtain r w2 where run: "f x (snd (map_ignore_errors f xs w)) = (r, w2)" by fastforce
  with assms have r: "r = g x" unfolding stable_def by (metis fst_conv)
  show ?case
  proof (cases "g x")
    case (Inl e)
    with assms obtain v where "e = Raise (Virterror v)" unfolding stable_def by blast
    with Inl r Cons map_ignore_errors_step [OF Cons run] show ?thesis by (simp del: map_ignore_errors.simps)
  next
    case (Inr y)
    with r map_ignore_errors_step [OF Cons run] show ?thesis by (simp del: map_ignore_errors.simps)
  qed
qed simp

lemma bindS_outcome: "fst (m w) = Inr x \<Longrightarrow> \<exists>w'. bindS m f w = f x w'"
  by (auto simp: bindS_def split: prod.splits)

lemma bindS_outcomes:
  assumes "\<And>w. fst (a w) = Inr n" and "\<And>w. fst (b n w) = Inr xs" and "\<And>w. fst (c xs w) = r"
  shows "fst (bindS a (\<lambda>n. bindS (b n) c) w) = r"
proof -
  obtain w1 where "bindS a (\<lambda>n. bindS (b n) c) w = bindS (b n) c w1"
    using bindS_outcome [of a w n "\<lambda>n. bindS (b n) c", OF assms(1)] by blast
  moreover obtain w2 where "bindS (b n) c w1 = c xs w2" using bindS_outcome [of "b n" w1 xs c, OF assms(2)] by blast
  ultimately show ?thesis using assms(3) by simp
qed

subsection \<open>Properties\<close>

text \<open>C35: Marking a processor in a map as usable or not changes exactly its bit, for every processor of the map, and keeps the length; a
  processor beyond the map raises \<open>Invalid_argument\<close>. A map of \<open>cpumaplen n\<close> bytes has room for \<open>n\<close> processors and no byte
  too many.\<close>

theorem cpu_map_correct:
  assumes "0 \<le> cpu" and "8 * int (length cpumap) \<le> 2 ^ 62" and "0 \<le> n" and "n < 2 ^ 62 - 7"
  shows "(if cpu < 8 * int (length cpumap)
     then \<exists>m1 m2. use_cpu cpumap cpu = Inr m1 \<and> unuse_cpu cpumap cpu = Inr m2 \<and> length m1 = length cpumap \<and> length m2 = length cpumap \<and>
       (\<forall>c. 0 \<le> c \<and> c < 8 * int (length cpumap) \<longrightarrow>
          cpu_usable m1 maplen 0 c = (if c = cpu then Inr True else cpu_usable cpumap maplen 0 c) \<and>
          cpu_usable m2 maplen 0 c = (if c = cpu then Inr False else cpu_usable cpumap maplen 0 c))
     else use_cpu cpumap cpu = raise (Invalid_argument ''index out of bounds'') \<and>
       unuse_cpu cpumap cpu = raise (Invalid_argument ''index out of bounds'')) \<and>
    n \<le> 8 * cpumaplen n \<and> 8 * cpumaplen n < n + 8"
proof
  obtain k where k: "cpu = int k" using assms(1) nonneg_int_cases by blast
  show "if cpu < 8 * int (length cpumap)
     then \<exists>m1 m2. use_cpu cpumap cpu = Inr m1 \<and> unuse_cpu cpumap cpu = Inr m2 \<and> length m1 = length cpumap \<and> length m2 = length cpumap \<and>
       (\<forall>c. 0 \<le> c \<and> c < 8 * int (length cpumap) \<longrightarrow>
          cpu_usable m1 maplen 0 c = (if c = cpu then Inr True else cpu_usable cpumap maplen 0 c) \<and>
          cpu_usable m2 maplen 0 c = (if c = cpu then Inr False else cpu_usable cpumap maplen 0 c))
     else use_cpu cpumap cpu = raise (Invalid_argument ''index out of bounds'') \<and>
       unuse_cpu cpumap cpu = raise (Invalid_argument ''index out of bounds'')"
  proof (cases "k < 8 * length cpumap")
    case True
    have bits: "cpu_usable m maplen 0 (int d) = Inr (cpu_bit m d)" if "d < 8 * length cpumap" "length m = length cpumap" for m d
      using cpu_map_run(3) [of d m maplen] that assms(2) by simp
    note run = cpu_map_run(1,2) [OF True]
    have "cpu_usable (cpumap[k div 8 := char_of (or (of_char (cpumap ! (k div 8))) (2 ^ (k mod 8)) :: int)]) maplen 0 c =
          (if c = cpu then Inr True else cpu_usable cpumap maplen 0 c) \<and>
        cpu_usable (cpumap[k div 8 := char_of (and (of_char (cpumap ! (k div 8))) (not (2 ^ (k mod 8))) :: int)]) maplen 0 c =
          (if c = cpu then Inr False else cpu_usable cpumap maplen 0 c)"
      if c: "0 \<le> c \<and> c < 8 * int (length cpumap)" for c
    proof -
      obtain d where d: "c = int d" using c nonneg_int_cases by blast
      with c have "d < 8 * length cpumap" by simp
      with cpu_bit_changed [OF True this] bits show ?thesis by (simp add: d k)
    qed
    with run True show ?thesis by (simp add: k)
  next
    case False
    then have "length cpumap \<le> k div 8" by simp
    then have "\<not> int k div 8 < int (length cpumap)" by linarith
    then show ?thesis using False by (simp add: k use_cpu_def unuse_cpu_def quot_rem_nonneg Bytes_get_def)
  qed
  have "wrap_int 63 (n + 7) = n + 7" using assms(3,4) by (simp add: wrap_int_def signed_take_bit_int_eq_self)
  then have "cpumaplen n = (n + 7) div 8" using assms(3) by (simp add: cpumaplen_def quot_rem_nonneg)
  then show "n \<le> 8 * cpumaplen n \<and> 8 * cpumaplen n < n + 8" by presburger
qed

text \<open>The domains listed are those of the requested kinds that libvirt still finds, active ones first, each in libvirt's order; a domain that has
  vanished after it was listed is left out and nothing else is; with information, those whose information is still available.\<close>

theorem get_domains_correct:
  assumes "\<And>w. fst (num_of_domains api w) = Inr n" and "\<And>w. fst (list_domains api n w) = Inr ids" and "stable (lookup_by_id api) by_id"
    and "\<And>w. fst (num_of_defined_domains api w) = Inr m" and "\<And>w. fst (list_defined_domains api m w) = Inr names"
    and "stable (lookup_by_name api) by_name" and "stable (\<lambda>d. bindS (get_info api d) (\<lambda>i. retS (d, i))) info"
    and "doms = (if ListAll \<in> set flags \<or> ListActive \<in> set flags then found by_id ids else []) @
                (if ListAll \<in> set flags \<or> ListInactive \<in> set flags then found by_name names else [])"
  shows "fst (get_domains api flags w) = Inr doms \<and> fst (get_domains_and_infos api flags w) = Inr (found info doms)"
proof -
  let ?A = "if ListAll \<in> set flags then True else ListActive \<in> set flags" and ?I = "if ListAll \<in> set flags then True else ListInactive \<in> set flags"
  let ?active = "if ?A then bindS (num_of_domains api) (\<lambda>n. bindS (list_domains api n) (map_ignore_errors (lookup_by_id api))) else retS []"
  let ?inactive = "if ?I then bindS (num_of_defined_domains api) (\<lambda>n. bindS (list_defined_domains api n) (map_ignore_errors (lookup_by_name api))) else retS []"
  have active: "fst (?active w) = Inr (if ?A then found by_id ids else [])" for w
    using bindS_outcomes [where a = "num_of_domains api" and b = "list_domains api" and c = "map_ignore_errors (lookup_by_id api)", OF assms(1,2) map_ignore_errors_stable [OF assms(3)]]
    by (simp add: retS_def)
  have inactive: "fst (?inactive w) = Inr (if ?I then found by_name names else [])" for w
    using bindS_outcomes [where a = "num_of_defined_domains api" and b = "list_defined_domains api" and c = "map_ignore_errors (lookup_by_name api)", OF assms(4,5) map_ignore_errors_stable [OF assms(6)]]
    by (simp add: retS_def)
  have doms: "doms = (if ?A then found by_id ids else []) @ (if ?I then found by_name names else [])" using assms(8) by simp
  have run: "fst (bindS ?active (\<lambda>a. bindS ?inactive (\<lambda>i. k (a @ i))) w) = r" if "\<And>w. fst (k doms w) = r" for k :: "_ \<Rightarrow> ('a, 'x) stub" and r
  proof -
    obtain w1 where "bindS ?active (\<lambda>a. bindS ?inactive (\<lambda>i. k (a @ i))) w =
        bindS ?inactive (\<lambda>i. k ((if ?A then found by_id ids else []) @ i)) w1"
      using bindS_outcome [of ?active w _ "\<lambda>a. bindS ?inactive (\<lambda>i. k (a @ i))", OF active] by blast
    moreover obtain w2 where "bindS ?inactive (\<lambda>i. k ((if ?A then found by_id ids else []) @ i)) w1 = k doms w2"
      using bindS_outcome [of ?inactive w1 _ "\<lambda>i. k ((if ?A then found by_id ids else []) @ i)", OF inactive] unfolding doms by blast
    ultimately show ?thesis using that by simp
  qed
  have "get_domains api flags = bindS ?active (\<lambda>a. bindS ?inactive (\<lambda>i. retS (a @ i)))"
    "get_domains_and_infos api flags = bindS ?active (\<lambda>a. bindS ?inactive (\<lambda>i.
       map_ignore_errors (\<lambda>d. bindS (get_info api d) (\<lambda>i. retS (d, i))) (a @ i)))"
    by (simp_all add: get_domains_def get_domains_and_infos_def Let_def)
  with run [of retS] run [of "map_ignore_errors (\<lambda>d. bindS (get_info api d) (\<lambda>i. retS (d, i)))"] map_ignore_errors_stable [OF assms(7)]
  show ?thesis by (simp add: retS_def)
qed

text \<open>The rest of the list is mapped again after every element that fails: the calls double with each, and a list of \<open>n\<close>
  elements that all fail takes \<open>2 ^ n - 1\<close> calls.\<close>

theorem map_ignore_errors_doubles:
  "map_ignore_errors (\<lambda>x k. (raise (Virterror v), Suc k)) xs k = (Inr [], k + (2 ^ length xs - 1))"
  (is "map_ignore_errors ?f xs k = _")
proof (induction xs arbitrary: k)
  case (Cons x xs)
  have "(1 :: nat) \<le> 2 ^ length xs" by simp
  then have "Suc (k + (2 ^ length xs - 1)) + (2 ^ length xs - 1) = k + (2 * 2 ^ length xs - (1 :: nat))" by linarith
  moreover have "map_ignore_errors ?f (x # xs) k = map_ignore_errors ?f xs (Suc (k + (2 ^ length xs - 1)))"
    using map_ignore_errors_step [of ?f xs "[]" x k "raise (Virterror v)"] Cons by (simp add: raise_def del: map_ignore_errors.simps)
  ultimately show ?case using Cons by (simp del: map_ignore_errors.simps)
qed simp

subsection \<open>Instances\<close>

theorem cpu_map_correct_witness:
  "\<exists>m. use_cpu [CHR 0x00, CHR 0x01] 10 = Inr m \<and> cpu_usable m 2 0 10 = Inr True \<and> cpu_usable m 2 0 8 = Inr True \<and> cpumaplen 10 = 2"
proof -
  note map = cpu_map_correct [of 10 "[CHR 0x00, CHR 0x01]" 10 2]
  obtain m where m: "use_cpu [CHR 0x00, CHR 0x01] 10 = Inr m" "\<And>c. 0 \<le> c \<Longrightarrow> c < 16 \<Longrightarrow>
      cpu_usable m 2 0 c = (if c = 10 then Inr True else cpu_usable [CHR 0x00, CHR 0x01] 2 0 c)"
    using map by auto
  have "cpu_usable [CHR 0x00, CHR 0x01] 2 0 8 = Inr True"
    by (simp add: cpu_usable_def quot_int_def rem_int_def Bytes_get_def lsl_one_def wrap_int_def signed_take_bit_int_eq_self)
  moreover have "cpumaplen 10 = 2" using map by simp
  ultimately show ?thesis using m(1) m(2) [of 10] m(2) [of 8] by auto
qed

definition demo_api :: "(nat, nat, string) domain_api" where
  "demo_api = \<lparr>num_of_domains = (\<lambda>w. (Inr 3, w)), list_domains = (\<lambda>n w. (Inr [1, 2, 3], w)),
     num_of_defined_domains = (\<lambda>w. (Inr 1, w)), list_defined_domains = (\<lambda>n w. (Inr [''off''], w)),
     lookup_by_id = (\<lambda>i w. (if i = 2 then raise (Virterror (VInt 0)) else Inr (nat i), Suc w)),
     lookup_by_name = (\<lambda>s w. (Inr (length s + 10), Suc w)), get_info = (\<lambda>d w. (Inr ''running'', w))\<rparr>"

theorem get_domains_correct_witness:
  "fst (get_domains demo_api [ListAll] 0) = Inr [1, 3, 13] \<and>
   fst (get_domains_and_infos demo_api [ListActive] 0) = Inr [(1, ''running''), (3, ''running'')]"
proof
  have laws: "stable (lookup_by_id demo_api) (\<lambda>i. if i = 2 then raise (Virterror (VInt 0)) else Inr (nat i))"
    "stable (lookup_by_name demo_api) (\<lambda>s. Inr (length s + 10))"
    "stable (\<lambda>d. bindS (get_info demo_api d) (\<lambda>i. retS (d, i))) (\<lambda>d. Inr (d, ''running''))"
    by (auto simp: stable_def demo_api_def bindS_def retS_def raise_def split: if_splits)
  note listed = get_domains_correct [of demo_api 3 "[1, 2, 3]" "\<lambda>i. if i = 2 then raise (Virterror (VInt 0)) else Inr (nat i)" 1 "[''off'']"
      "\<lambda>s. Inr (length s + 10)" "\<lambda>d. Inr (d, ''running'')", OF _ _ laws(1) _ _ laws(2,3)]
  show "fst (get_domains demo_api [ListAll] 0) = Inr [1, 3, 13]"
    using listed [of _ "[ListAll]" 0] by (simp add: demo_api_def raise_def)
  show "fst (get_domains_and_infos demo_api [ListActive] 0) = Inr [(1, ''running''), (3, ''running'')]"
    using listed [of _ "[ListActive]" 0] by (simp add: demo_api_def raise_def)
qed

end
