(* ===== verification/ParseVmx.thy ===== *)
theory ParseVmx
  imports OCamlStd
begin

section \<open>The VMX parser (input/parse_vmx.ml)\<close>

text \<open>
  A VMX file is a list of lines \<open>namespace.namespace.key = "value"\<close>; the parser builds a tree of string maps.
  The functions of the shared library \<open>common\<close> and the regular expression are parameters (\<open>vmx_lib\<close>), with
  what is documented of them in the definitions \<open>nsplit_law\<close>, \<open>trim_law\<close>, \<open>hex_law\<close> and \<open>rex_law\<close>. Warnings are
  the second component of a result; debugging output under \<open>verbose ()\<close> is left out.
\<close>

datatype key = Key string | Namespace "(string \<times> key) list"

type_synonym vmx = "key string_map"

text \<open>A subtree is smaller than the map it is bound in.\<close>

lemma size_namespace [termination_simp]:
  "(k, Namespace t) \<in> set vmx \<Longrightarrow> size_list (size_prod (\<lambda>_. 0) size) t < size_list (size_prod (\<lambda>_. 0) size) vmx"
  using size_list_estimation [of "(k, Namespace t)" vmx "size_list (size_prod (\<lambda>_. 0) size) t" "size_prod (\<lambda>_. 0) size"] by simp

abbreviation vmx_size :: "vmx \<Rightarrow> nat" where
  "vmx_size \<equiv> size_list (size_prod (\<lambda>_. 0) size)"

subsection \<open>Traversals\<close>

text \<open>\<open>StringMap.equal cmp\<close>: the same keys, and equal values under \<open>cmp\<close>\<close>

function equal_vmx :: "vmx \<Rightarrow> vmx \<Rightarrow> bool" where
  "equal_vmx vmx1 vmx2 \<longleftrightarrow>
     map fst vmx1 = map fst vmx2 \<and>
     list_all (\<lambda>((_, k1), (_, k2)).
       case (k1, k2) of
         (Key v1, Key v2) \<Rightarrow> v1 = v2
       | (Key _, Namespace _) \<Rightarrow> False
       | (Namespace _, Key _) \<Rightarrow> False
       | (Namespace t1, Namespace t2) \<Rightarrow> equal_vmx t1 t2) (zip vmx1 vmx2)"
  by pat_completeness auto
termination
  by (relation "measure (\<lambda>(vmx1, vmx2). vmx_size vmx1)") (auto dest!: set_zip_leftD intro: size_namespace)

function select_namespaces_at :: "string list \<Rightarrow> (string list \<Rightarrow> bool) \<Rightarrow> vmx \<Rightarrow> vmx" where
  "select_namespaces_at path pred vmx =
     fold (\<lambda>(k, v) new_vmx.
       let path = path @ [k]
       in case v of
            Key _ \<Rightarrow> new_vmx
          | Namespace t \<Rightarrow>
              if pred path then smap_add k v new_vmx
              else let t' = select_namespaces_at path pred t
                   in if \<not> equal_vmx t' [] then smap_add k (Namespace t') new_vmx else new_vmx) vmx []"
  by pat_completeness auto
termination
  by (relation "measure (\<lambda>(path, pred, vmx). vmx_size vmx)") (auto intro: size_namespace)

definition select_namespaces :: "(string list \<Rightarrow> bool) \<Rightarrow> vmx \<Rightarrow> vmx" where
  "select_namespaces pred vmx = select_namespaces_at [] pred vmx"

function map_vmx_at :: "string list \<Rightarrow> (string list \<Rightarrow> string option \<Rightarrow> 'a) \<Rightarrow> vmx \<Rightarrow> 'a list" where
  "map_vmx_at path f vmx =
     fold (\<lambda>(k, v) r.
       let path = path @ [k]
       in case v of
            Key v \<Rightarrow> r @ [f path (Some v)]
          | Namespace t \<Rightarrow> r @ [f path None] @ map_vmx_at path f t) vmx []"
  by pat_completeness auto
termination
  by (relation "measure (\<lambda>(path, f, vmx). vmx_size vmx)") (auto intro: size_namespace)

definition map_vmx :: "(string list \<Rightarrow> string option \<Rightarrow> 'a) \<Rightarrow> vmx \<Rightarrow> 'a list" where
  "map_vmx f vmx = map_vmx_at [] f vmx"

fun namespace_present :: "vmx \<Rightarrow> string list \<Rightarrow> bool" where
  "namespace_present vmx [] = False"
| "namespace_present vmx [ns] =
     (case map_of vmx (lowercase_ascii ns) of Some (Namespace _) \<Rightarrow> True | _ \<Rightarrow> False)"
| "namespace_present vmx (ns # n # path) =
     (case map_of vmx (lowercase_ascii ns) of Some (Namespace t) \<Rightarrow> namespace_present t (n # path) | _ \<Rightarrow> False)"

text \<open>\<open>print\<close> appends to a channel, \<open>to_string\<close> builds a string.\<close>

definition string_spaces :: "nat \<Rightarrow> string" where
  "string_spaces n = replicate n (CHR '' '')"

abbreviation key_line :: "string \<Rightarrow> string \<Rightarrow> string" where
  "key_line k v \<equiv> k @ '' = '' @ [CHR 0x22] @ v @ [CHR 0x22, CHR 0x0A]"

abbreviation namespace_line :: "string \<Rightarrow> string" where
  "namespace_line k \<equiv> ''namespace '' @ [CHR 0x27] @ k @ [CHR 0x27] @ '':'' @ [CHR 0x0A]"

function print_vmx :: "nat \<Rightarrow> vmx \<Rightarrow> string \<Rightarrow> string" where
  "print_vmx indent vmx chan =
     fold (\<lambda>(k, v) chan.
       case v of
         Key v \<Rightarrow> (chan @ string_spaces indent) @ key_line k v
       | Namespace t \<Rightarrow> print_vmx (indent + 4) t ((chan @ string_spaces indent) @ namespace_line k)) vmx chan"
  by pat_completeness auto
termination
  by (relation "measure (\<lambda>(indent, vmx, chan). vmx_size vmx)") (auto intro: size_namespace)

function to_string_vmx :: "nat \<Rightarrow> vmx \<Rightarrow> string" where
  "to_string_vmx indent vmx =
     fold (\<lambda>(k, v) str.
       str @ (case v of
         Key v \<Rightarrow> string_spaces indent @ key_line k v
       | Namespace t \<Rightarrow> string_spaces indent @ namespace_line k @ to_string_vmx (indent + 4) t)) vmx []"
  by pat_completeness auto
termination
  by (relation "measure (\<lambda>(indent, vmx). vmx_size vmx)") (auto intro: size_namespace)

declare equal_vmx.simps [simp del] select_namespaces_at.simps [simp del] map_vmx_at.simps [simp del]
  print_vmx.simps [simp del] to_string_vmx.simps [simp del]

subsection \<open>Access to keys\<close>

fun get_string :: "vmx \<Rightarrow> string list \<Rightarrow> string option" where
  "get_string vmx [] = None"
| "get_string vmx [k] = (case map_of vmx (lowercase_ascii k) of Some (Key v) \<Rightarrow> Some v | _ \<Rightarrow> None)"
| "get_string vmx (ns # n # path) =
     (case map_of vmx (lowercase_ascii ns) of Some (Namespace t) \<Rightarrow> get_string t (n # path) | _ \<Rightarrow> None)"

definition get_int64 :: "vmx \<Rightarrow> string list \<Rightarrow> int option oc" where
  "get_int64 vmx path =
     (case get_string vmx path of None \<Rightarrow> Inr None | Some i \<Rightarrow> bindR (Int64_of_string i) (\<lambda>n. Inr (Some n)))"

definition get_int :: "vmx \<Rightarrow> string list \<Rightarrow> int option oc" where
  "get_int vmx path =
     (case get_string vmx path of None \<Rightarrow> Inr None | Some i \<Rightarrow> bindR (int_of_string i) (\<lambda>n. Inr (Some n)))"

definition vmx_bool_of_string :: "string \<Rightarrow> bool oc" where
  "vmx_bool_of_string t =
     (if lowercase_ascii t = ''true'' then Inr True
      else if lowercase_ascii t = ''false'' then Inr False
      else Inl (OFailure ''bool_of_string''))"

definition get_bool :: "vmx \<Rightarrow> string list \<Rightarrow> bool option oc" where
  "get_bool vmx path =
     (case get_string vmx path of None \<Rightarrow> Inr None | Some t \<Rightarrow> bindR (vmx_bool_of_string t) (\<lambda>b. Inr (Some b)))"

subsection \<open>Parsing\<close>

text \<open>\<open>rex_groups\<close> is \<open>PCRE.matches rex\<close> with the groups \<open>PCRE.sub 1\<close> and \<open>PCRE.sub 2\<close>; \<open>trimr_cr\<close> is
  \<open>String.trimr ~test:((=) '\r')\<close>.\<close>

record vmx_lib =
  nsplit :: "string \<Rightarrow> string \<Rightarrow> string list"
  trimr_cr :: "string \<Rightarrow> string"
  triml :: "string \<Rightarrow> string"
  isxdigit :: "char \<Rightarrow> bool"
  hexdigit :: "char \<Rightarrow> int"
  rex_groups :: "string \<Rightarrow> (string \<times> string) option"

text \<open>The output buffer has the size of the input; \<open>Bytes.set\<close> and \<open>str.[i]\<close> outside the bounds, and \<open>Char.chr\<close>
  outside 0 to 255, raise.\<close>

definition bytes_set :: "string \<Rightarrow> nat \<Rightarrow> char \<Rightarrow> string oc" where
  "bytes_set out j c = (if j < length out then Inr (out[j := c]) else Inl (OInvalid_argument ''index out of bounds''))"

definition string_get :: "string \<Rightarrow> nat \<Rightarrow> char oc" where
  "string_get str i = (if i < length str then Inr (str ! i) else Inl (OInvalid_argument ''index out of bounds''))"

definition char_chr :: "int \<Rightarrow> char oc" where
  "char_chr x = (if 0 \<le> x \<and> x \<le> 255 then Inr (char_of (nat x)) else Inl (OInvalid_argument ''Char.chr''))"

function remove_vmx_escapes_loop :: "'a vmx_lib_scheme \<Rightarrow> string \<Rightarrow> nat \<Rightarrow> string \<times> nat \<Rightarrow> (string \<times> nat) oc" where
  "remove_vmx_escapes_loop lib str i (out, j) =
     (if i \<ge> length str then Inr (out, j)
      else let c = str ! i
           in if int i \<le> int (length str) - 3 \<and> c = CHR ''|''
              then bindR (string_get str (i + 1)) (\<lambda>c1. bindR (string_get str (i + 2)) (\<lambda>c2.
                   if isxdigit lib c1 \<and> isxdigit lib c2
                   then let x = hexdigit lib c1 * 16 + hexdigit lib c2
                        in bindR (char_chr x) (\<lambda>b. bindR (bytes_set out j b) (\<lambda>out.
                           remove_vmx_escapes_loop lib str (i + 3) (out, j + 1)))
                   else bindR (bytes_set out j c) (\<lambda>out. remove_vmx_escapes_loop lib str (i + 1) (out, j + 1))))
              else bindR (bytes_set out j c) (\<lambda>out. remove_vmx_escapes_loop lib str (i + 1) (out, j + 1)))"
  by pat_completeness auto
termination
  by (relation "measure (\<lambda>(lib, str, i, _). length str - i)") auto

declare remove_vmx_escapes_loop.simps [simp del]

definition remove_vmx_escapes :: "'a vmx_lib_scheme \<Rightarrow> string \<Rightarrow> string oc" where
  "remove_vmx_escapes lib str =
     bindR (remove_vmx_escapes_loop lib str 0 (replicate (length str) (CHR 0x00), 0)) (\<lambda>(out, j). Inr (take j out))"

datatype vmx_warning = Cannot_parse_line string | Duplicate_key string

fun insert_vmx :: "vmx \<Rightarrow> string \<Rightarrow> string list \<Rightarrow> (vmx \<times> vmx_warning list) oc" where
  "insert_vmx vmx value [] = Inl OAssert_failure"
| "insert_vmx vmx value [k] =
     (if map_of vmx k \<noteq> None then Inr (vmx, [Duplicate_key k]) else Inr (smap_add k (Key value) vmx, []))"
| "insert_vmx vmx value (ns # n # path) =
     (let v = (case map_of vmx ns of Some (Namespace t) \<Rightarrow> Some t | Some (Key _) \<Rightarrow> None | None \<Rightarrow> None)
      in bindR (case v of None \<Rightarrow> insert_vmx [] value (n # path) | Some t \<Rightarrow> insert_vmx t value (n # path)) (\<lambda>(t, ws).
         Inr (smap_add ns (Namespace t) vmx, ws)))"

definition contains_key_present_false :: "vmx \<Rightarrow> bool" where
  "contains_key_present_false vmx =
     (case map_of vmx ''present'' of Some (Key v) \<Rightarrow> vmx_bool_of_string v = Inr False | Some (Namespace _) \<Rightarrow> False | None \<Rightarrow> False)"

function drop_not_present :: "vmx \<Rightarrow> vmx" where
  "drop_not_present vmx =
     fold (\<lambda>(k, v) new_vmx.
       case v of
         Key _ \<Rightarrow> smap_add k v new_vmx
       | Namespace t \<Rightarrow>
           if contains_key_present_false t then new_vmx
           else smap_add k (Namespace (drop_not_present t)) new_vmx) vmx []"
  by pat_completeness auto
termination
  by (relation "measure vmx_size") (auto intro: size_namespace)

declare drop_not_present.simps [simp del]

text \<open>The stages of \<open>parse_string\<close>: the lines that are not blank or comments, the pairs of key and value, the
  paths, the tree.\<close>

definition vmx_lines :: "'a vmx_lib_scheme \<Rightarrow> string \<Rightarrow> string list" where
  "vmx_lines lib str =
     filter (\<lambda>line. let line = triml lib line in length line > 0 \<and> line ! 0 \<noteq> CHR ''#'')
       (map (trimr_cr lib) (nsplit lib [CHR 0x0A] str))"

fun parse_lines :: "'a vmx_lib_scheme \<Rightarrow> string list \<Rightarrow> ((string \<times> string) list \<times> vmx_warning list) oc" where
  "parse_lines lib [] = Inr ([], [])"
| "parse_lines lib (line # lines) =
     (case rex_groups lib line of
        Some (k, value) \<Rightarrow>
          bindR (remove_vmx_escapes lib value) (\<lambda>value.
          bindR (parse_lines lib lines) (\<lambda>(kvs, ws). Inr ((lowercase_ascii k, value) # kvs, ws)))
      | None \<Rightarrow> bindR (parse_lines lib lines) (\<lambda>(kvs, ws). Inr (kvs, Cannot_parse_line line # ws)))"

definition build_vmx :: "(string list \<times> string) list \<Rightarrow> (vmx \<times> vmx_warning list) oc" where
  "build_vmx entries =
     foreachR (\<lambda>(path, value) (vmx, ws). bindR (insert_vmx vmx value path) (\<lambda>(vmx, ws'). Inr (vmx, ws @ ws'))) entries ([], [])"

definition parse_string :: "'a vmx_lib_scheme \<Rightarrow> string \<Rightarrow> (vmx \<times> vmx_warning list) oc" where
  "parse_string lib str =
     bindR (parse_lines lib (vmx_lines lib str)) (\<lambda>(kvs, ws1).
     let entries = map (\<lambda>(k, value). (nsplit lib ''.'' k, value)) kvs
     in bindR (build_vmx entries) (\<lambda>(vmx, ws2). Inr (drop_not_present vmx, ws1 @ ws2)))"

end
