(* ===== verification/VmxTree.thy ===== *)
theory VmxTree
  imports ParseVmx "HOL-Library.Sublist"
begin

section \<open>VMX trees: lookups after insertion, selection and dropping\<close>

text \<open>
  The invariant of the trees \<open>ParseVmx\<close> builds, what a lookup finds after each operation, the order in
  which a tree is traversed, and that the two printing functions agree.
\<close>

subsection \<open>Well-formed trees\<close>

abbreviation lower_path :: "string list \<Rightarrow> string list" where
  "lower_path \<equiv> map lowercase_ascii"


text \<open>Every level is a map with increasing keys, in lower case.\<close>

function vmx_ok :: "vmx \<Rightarrow> bool" where
  "vmx_ok vmx \<longleftrightarrow>
     smap_ok vmx \<and>
     list_all (\<lambda>(k, v). lowercase_ascii k = k \<and> (case v of Key _ \<Rightarrow> True | Namespace t \<Rightarrow> vmx_ok t)) vmx"
  by pat_completeness auto
termination
  by (relation "measure vmx_size") (auto intro: size_namespace)

declare vmx_ok.simps [simp del]

definition key_ok :: "key \<Rightarrow> bool" where
  "key_ok v = (case v of Key _ \<Rightarrow> True | Namespace t \<Rightarrow> vmx_ok t)"

lemma key_ok_simps [simp]: "key_ok (Key s)" "key_ok (Namespace t) = vmx_ok t"
  by (simp_all add: key_ok_def)

lemma vmx_ok_iff:
  "vmx_ok vmx \<longleftrightarrow> smap_ok vmx \<and> (\<forall>k v. map_of vmx k = Some v \<longrightarrow> lowercase_ascii k = k \<and> key_ok v)"
  by (subst vmx_ok.simps, cases "smap_ok vmx")
     (auto simp: list_all_iff string_map.find_bindings key_ok_def split_beta)

lemma vmx_ok_smap: "vmx_ok vmx \<Longrightarrow> smap_ok vmx"
  by (simp add: vmx_ok_iff)

lemma vmx_ok_find: "vmx_ok vmx \<Longrightarrow> map_of vmx k = Some v \<Longrightarrow> lowercase_ascii k = k \<and> key_ok v"
  by (simp add: vmx_ok_iff)

lemma vmx_ok_namespace: "vmx_ok vmx \<Longrightarrow> map_of vmx k = Some (Namespace t) \<Longrightarrow> vmx_ok t"
  using vmx_ok_find [of vmx k "Namespace t"] by simp

lemma vmx_ok_empty [simp]: "vmx_ok []"
  by (simp add: vmx_ok_iff string_map.ok_empty)

lemma vmx_ok_add: "vmx_ok vmx \<Longrightarrow> lowercase_ascii k = k \<Longrightarrow> key_ok v \<Longrightarrow> vmx_ok (smap_add k v vmx)"
  by (simp add: vmx_ok_iff smap_ok_add map_of_smap_add)

lemma vmx_namespace_size: "map_of vmx k = Some (Namespace t) \<Longrightarrow> vmx_size t < vmx_size vmx"
  by (rule size_namespace [OF map_of_SomeD])

text \<open>Induction over the subtrees.\<close>

lemma vmx_induct [case_names tree]:
  assumes "\<And>vmx. (\<And>k t. map_of vmx k = Some (Namespace t) \<Longrightarrow> P t) \<Longrightarrow> P vmx"
  shows "P vmx"
  using assms by (induction vmx rule: measure_induct_rule [of vmx_size]) (use vmx_namespace_size in blast)

text \<open>\<open>equal\<close> is equality.\<close>

lemma bindings_eq_iff:
  "map fst xs = map fst ys \<and> list_all (\<lambda>((_, v), (_, w)). v = w) (zip xs ys) \<longleftrightarrow> xs = ys"
proof (induction xs arbitrary: ys)
  case (Cons x xs)
  show ?case
  proof (cases ys)
    case (Cons y ys')
    with Cons.IH [of ys'] show ?thesis by (cases x; cases y) auto
  qed simp
qed auto

lemma equal_vmx_iff: "equal_vmx vmx1 vmx2 \<longleftrightarrow> vmx1 = vmx2"
proof (induction vmx1 vmx2 rule: equal_vmx.induct)
  case (1 vmx1 vmx2)
  have "list_all ((\<lambda>((_, k1), (_, k2)). case (k1, k2) of (Key v1, Key v2) \<Rightarrow> v1 = v2 | (Key _, Namespace _) \<Rightarrow> False
      | (Namespace _, Key _) \<Rightarrow> False | (Namespace t1, Namespace t2) \<Rightarrow> equal_vmx t1 t2)) (zip vmx1 vmx2) =
    list_all (\<lambda>((_, v), (_, w)). v = w) (zip vmx1 vmx2)" (is "list_all ?f _ = list_all ?g _")
  proof (rule list_all_cong [OF refl])
    fix x assume "x \<in> set (zip vmx1 vmx2)"
    then obtain a k1 b k2 where x: "x = ((a, k1), (b, k2))" "((a, k1), (b, k2)) \<in> set (zip vmx1 vmx2)" by (metis prod.collapse)
    show "?f x = ?g x" using 1 x by (cases k1; cases k2) auto
  qed
  then show ?case by (subst equal_vmx.simps) (simp only: bindings_eq_iff)
qed

subsection \<open>Lookups after the traversals\<close>

text \<open>\<open>select_namespaces\<close> and \<open>drop_not_present\<close> rebuild a map binding by binding; what each keeps of a binding:\<close>

definition select_key :: "string list \<Rightarrow> (string list \<Rightarrow> bool) \<Rightarrow> string \<Rightarrow> key \<Rightarrow> key option" where
  "select_key path pred k v =
     (case v of
        Key _ \<Rightarrow> None
      | Namespace t \<Rightarrow>
          if pred (path @ [k]) then Some v
          else let t' = select_namespaces_at (path @ [k]) pred t in if t' = [] then None else Some (Namespace t'))"

definition drop_key :: "string \<Rightarrow> key \<Rightarrow> key option" where
  "drop_key k v =
     (case v of
        Key _ \<Rightarrow> Some v
      | Namespace t \<Rightarrow> if contains_key_present_false t then None else Some (Namespace (drop_not_present t)))"

lemma select_namespaces_fold:
  "select_namespaces_at path pred vmx =
     fold (\<lambda>(k, v) acc. case select_key path pred k v of None \<Rightarrow> acc | Some w \<Rightarrow> smap_add k w acc) vmx []"
  by (subst select_namespaces_at.simps, rule fold_cong)
     (auto simp: select_key_def equal_vmx_iff Let_def fun_eq_iff split: key.splits)

lemma drop_not_present_fold:
  "drop_not_present vmx = fold (\<lambda>(k, v) acc. case drop_key k v of None \<Rightarrow> acc | Some w \<Rightarrow> smap_add k w acc) vmx []"
  by (subst drop_not_present.simps, rule fold_cong) (auto simp: drop_key_def fun_eq_iff split: key.splits)

lemma find_select: "smap_ok vmx \<Longrightarrow> map_of (select_namespaces_at path pred vmx) k = Option.bind (map_of vmx k) (select_key path pred k)"
  unfolding select_namespaces_fold by (rule string_map.find_filter_fold)

lemma find_drop: "smap_ok vmx \<Longrightarrow> map_of (drop_not_present vmx) k = Option.bind (map_of vmx k) (drop_key k)"
  unfolding drop_not_present_fold by (rule string_map.find_filter_fold)

lemma smap_ok_select: "smap_ok (select_namespaces_at path pred vmx)"
  unfolding select_namespaces_fold by (rule string_map.ok_filter_fold [OF string_map.ok_empty])

lemma smap_ok_drop: "smap_ok (drop_not_present vmx)"
  unfolding drop_not_present_fold by (rule string_map.ok_filter_fold [OF string_map.ok_empty])

lemma vmx_ok_select: "vmx_ok vmx \<Longrightarrow> vmx_ok (select_namespaces_at path pred vmx)"
proof (induction vmx arbitrary: path rule: vmx_induct)
  case (tree vmx)
  have "lowercase_ascii k = k \<and> key_ok v" if "map_of (select_namespaces_at path pred vmx) k = Some v" for k v
  proof -
    from that obtain w where w: "map_of vmx k = Some w" "select_key path pred k w = Some v"
      by (auto simp: find_select vmx_ok_smap tree.prems bind_eq_Some_conv)
    with tree vmx_ok_find [OF tree.prems w(1)] show ?thesis
      by (cases w) (auto simp: select_key_def Let_def split: if_splits)
  qed
  then show ?case by (simp add: vmx_ok_iff smap_ok_select)
qed

lemma vmx_ok_drop: "vmx_ok vmx \<Longrightarrow> vmx_ok (drop_not_present vmx)"
proof (induction vmx rule: vmx_induct)
  case (tree vmx)
  have "lowercase_ascii k = k \<and> key_ok v" if "map_of (drop_not_present vmx) k = Some v" for k v
  proof -
    from that obtain w where w: "map_of vmx k = Some w" "drop_key k w = Some v"
      by (auto simp: find_drop vmx_ok_smap tree.prems bind_eq_Some_conv)
    with tree vmx_ok_find [OF tree.prems w(1)] show ?thesis
      by (cases w) (auto simp: drop_key_def split: if_splits)
  qed
  then show ?case by (simp add: vmx_ok_iff smap_ok_drop)
qed

text \<open>The proper prefixes of a path of two or more names.\<close>

lemma ex_proper_prefix_Cons:
  "(\<exists>ns. ns \<noteq> [] \<and> strict_prefix ns (k # n # path) \<and> P ns) \<longleftrightarrow>
     P [k] \<or> (\<exists>ns. ns \<noteq> [] \<and> strict_prefix ns (n # path) \<and> P (k # ns))"
proof
  assume "\<exists>ns. ns \<noteq> [] \<and> strict_prefix ns (k # n # path) \<and> P ns"
  then obtain ns where ns: "ns \<noteq> []" "strict_prefix ns (k # n # path)" "P ns" by auto
  then show "P [k] \<or> (\<exists>ns. ns \<noteq> [] \<and> strict_prefix ns (n # path) \<and> P (k # ns))"
    by (cases ns; cases "tl ns") (auto simp: strict_prefix_def)
qed (auto simp: strict_prefix_def intro: exI [of _ "[k]"] exI [of _ "k # ns" for ns])

lemma no_proper_prefix: "\<not> (ns \<noteq> [] \<and> strict_prefix ns [k])"
  by (auto simp: strict_prefix_def prefix_Cons)

lemma no_proper_prefix_with: "\<not> (\<exists>ns. ns \<noteq> [] \<and> strict_prefix ns [k] \<and> P ns)"
  by (auto simp: strict_prefix_def prefix_Cons)

text \<open>A namespace is switched off by its key \<open>present\<close>.\<close>

definition switched_off :: "vmx \<Rightarrow> string list \<Rightarrow> bool" where
  "switched_off vmx ns \<longleftrightarrow> (case get_string vmx (ns @ [''present'']) of Some v \<Rightarrow> lowercase_ascii v = ''false'' | None \<Rightarrow> False)"

lemma lowercase_present: "lowercase_ascii ''present'' = ''present''"
  by code_simp

lemma switched_off_one:
  "switched_off vmx [k] \<longleftrightarrow>
     (case map_of vmx (lowercase_ascii k) of Some (Namespace t) \<Rightarrow> contains_key_present_false t | _ \<Rightarrow> False)"
  by (auto simp: switched_off_def contains_key_present_false_def vmx_bool_of_string_def lowercase_present
      split: option.splits key.splits)

lemma switched_off_Cons:
  "ns \<noteq> [] \<Longrightarrow> switched_off vmx (k # ns) \<longleftrightarrow>
     (case map_of vmx (lowercase_ascii k) of Some (Namespace t) \<Rightarrow> switched_off t ns | _ \<Rightarrow> False)"
  by (cases ns) (auto simp: switched_off_def split: option.splits key.splits)

lemma get_string_drop:
  "vmx_ok vmx \<Longrightarrow> get_string (drop_not_present vmx) q =
     (if \<exists>ns. ns \<noteq> [] \<and> strict_prefix ns q \<and> switched_off vmx ns then None else get_string vmx q)"
proof (induction vmx q rule: get_string.induct)
  case (2 vmx k)
  then show ?case using no_proper_prefix [of _ k]
    by (auto simp: find_drop vmx_ok_smap drop_key_def split: option.splits key.splits)
next
  case (3 vmx k n path)
  show ?case
  proof (cases "map_of vmx (lowercase_ascii k)")
    case (Some v)
    have IH: "get_string (drop_not_present t) (n # path) =
      (if \<exists>ns. ns \<noteq> [] \<and> strict_prefix ns (n # path) \<and> switched_off t ns then None else get_string t (n # path))"
      if "v = Namespace t" for t
      using 3 Some that vmx_ok_namespace by blast
    show ?thesis unfolding ex_proper_prefix_Cons
      by (cases v) (auto simp: find_drop vmx_ok_smap 3 Some drop_key_def switched_off_one switched_off_Cons IH cong: conj_cong)
  qed (simp add: find_drop vmx_ok_smap 3)
qed simp

lemma get_string_select:
  "vmx_ok vmx \<Longrightarrow> get_string (select_namespaces_at path pred vmx) q =
     (if \<exists>ns. ns \<noteq> [] \<and> strict_prefix ns q \<and> pred (path @ map lowercase_ascii ns) then get_string vmx q else None)"
proof (induction vmx q arbitrary: path rule: get_string.induct)
  case (2 vmx k)
  then show ?case using no_proper_prefix [of _ k]
    by (auto simp: find_select vmx_ok_smap select_key_def Let_def bind_eq_Some_conv split: option.splits key.splits if_splits)
next
  case (3 vmx k n q)
  show ?case
  proof (cases "map_of vmx (lowercase_ascii k)")
    case (Some v)
    have IH: "get_string (select_namespaces_at (path @ [lowercase_ascii k]) pred t) (n # q) =
      (if \<exists>ns. ns \<noteq> [] \<and> strict_prefix ns (n # q) \<and> pred ((path @ [lowercase_ascii k]) @ map lowercase_ascii ns)
       then get_string t (n # q) else None)"
      if "v = Namespace t" for t
      using 3 Some that vmx_ok_namespace by blast
    have empty: "get_string [] (n # q) = None" by (cases q) auto
    show ?thesis unfolding ex_proper_prefix_Cons
    proof (cases v)
      case (Namespace t)
      show "get_string (select_namespaces_at path pred vmx) (k # n # q) =
        (if pred (path @ map lowercase_ascii [k]) \<or> (\<exists>ns. ns \<noteq> [] \<and> strict_prefix ns (n # q) \<and> pred (path @ map lowercase_ascii (k # ns)))
         then get_string vmx (k # n # q) else None)"
        using IH [OF Namespace] empty
        by (cases "select_namespaces_at (path @ [lowercase_ascii k]) pred t = []")
           (auto simp: find_select vmx_ok_smap 3 Some Namespace select_key_def Let_def split: if_splits)
    qed (simp add: find_select vmx_ok_smap 3 Some select_key_def)
  qed (simp add: find_select vmx_ok_smap 3)
qed simp


subsection \<open>Insertion\<close>

lemma get_string_empty [simp]: "get_string [] q = None"
  by (cases q rule: remdups_adj.cases) auto

lemma namespace_present_empty [simp]: "\<not> namespace_present [] q"
  by (cases q rule: remdups_adj.cases) auto

text \<open>A path is taken when there is a key or a namespace at it.\<close>

definition taken :: "vmx \<Rightarrow> string list \<Rightarrow> bool" where
  "taken vmx p \<longleftrightarrow> get_string vmx p \<noteq> None \<or> namespace_present vmx p"

lemma taken_simps [simp]:
  "\<not> taken [] p"
  "taken vmx [k] \<longleftrightarrow> map_of vmx (lowercase_ascii k) \<noteq> None"
  "taken vmx (k # n # p) \<longleftrightarrow> (case map_of vmx (lowercase_ascii k) of Some (Namespace t) \<Rightarrow> taken t (n # p) | _ \<Rightarrow> False)"
  by (auto simp: taken_def split: option.splits key.splits)

text \<open>The subtree an insertion continues in.\<close>

definition subtree :: "vmx \<Rightarrow> string \<Rightarrow> vmx" where
  "subtree vmx k = (case map_of vmx k of Some (Namespace t) \<Rightarrow> t | _ \<Rightarrow> [])"

lemma insert_vmx_Cons2:
  "insert_vmx vmx value (ns # n # path) =
     bindR (insert_vmx (subtree vmx ns) value (n # path)) (\<lambda>(t, ws). Inr (smap_add ns (Namespace t) vmx, ws))"
  by (auto simp: subtree_def split: option.splits key.splits)

lemma insert_vmx_Cons2E:
  assumes "insert_vmx vmx value (ns # n # path) = Inr (vmx', ws)"
  obtains t where "insert_vmx (subtree vmx ns) value (n # path) = Inr (t, ws)" "vmx' = smap_add ns (Namespace t) vmx"
  using assms by (auto simp: insert_vmx_Cons2 bindR_Inr_iff simp del: insert_vmx.simps)

lemma taken_subtree: "lowercase_ascii k = k \<Longrightarrow> taken vmx (k # n # p) = taken (subtree vmx k) (n # p)"
  by (auto simp: subtree_def split: option.splits key.splits)

lemma get_string_subtree: "get_string vmx (k # n # q) = get_string (subtree vmx (lowercase_ascii k)) (n # q)"
  by (auto simp: subtree_def split: option.splits key.splits)

lemma namespace_present_subtree: "namespace_present vmx (k # n # q) = namespace_present (subtree vmx (lowercase_ascii k)) (n # q)"
  by (auto simp: subtree_def split: option.splits key.splits)

lemma vmx_ok_subtree: "vmx_ok vmx \<Longrightarrow> vmx_ok (subtree vmx k)"
  by (auto simp: subtree_def dest: vmx_ok_namespace split: option.splits key.splits)

lemma subtree_add [simp]: "subtree (smap_add k v vmx) k' = (if k' = k then (case v of Namespace t \<Rightarrow> t | _ \<Rightarrow> []) else subtree vmx k')"
  by (auto simp: subtree_def map_of_smap_add split: key.splits)

lemmas path_cases = remdups_adj.cases [case_names Nil Single Cons2]

declare insert_vmx.simps(3) [simp del]

lemma insert_vmx_total: "p \<noteq> [] \<Longrightarrow> \<exists>vmx' ws. insert_vmx vmx value p = Inr (vmx', ws)"
proof (induction p arbitrary: vmx rule: induct_list012)
  case (3 ns n path)
  from 3(2) [of "subtree vmx ns"] show ?case by (auto simp: insert_vmx_Cons2)
qed auto

lemma insert_vmx_ok:
  "insert_vmx vmx value p = Inr (vmx', ws) \<Longrightarrow> vmx_ok vmx \<Longrightarrow> map lowercase_ascii p = p \<Longrightarrow> vmx_ok vmx'"
proof (induction p arbitrary: vmx vmx' rule: induct_list012)
  case (2 k)
  then show ?case by (auto intro: vmx_ok_add split: if_splits)
next
  case (3 ns n path)
  from 3(3) obtain t where t: "insert_vmx (subtree vmx ns) value (n # path) = Inr (t, ws)" "vmx' = smap_add ns (Namespace t) vmx"
    by (rule insert_vmx_Cons2E)
  from 3(2) [OF t(1) vmx_ok_subtree] 3 t(2) show ?case by (auto intro: vmx_ok_add)
qed simp

lemma insert_vmx_get:
  "insert_vmx vmx value p = Inr (vmx', ws) \<Longrightarrow> map lowercase_ascii p = p \<Longrightarrow>
   get_string vmx' q =
     (if taken vmx p then get_string vmx q
      else if map lowercase_ascii q = p then Some value
      else if strict_prefix (map lowercase_ascii q) p then None
      else get_string vmx q)"
proof (induction p arbitrary: vmx vmx' q rule: induct_list012)
  case (2 k)
  then show ?case
    by (cases q rule: path_cases) (auto simp: map_of_smap_add strict_prefix_def prefix_Cons split: if_splits option.splits key.splits)
next
  case (3 ns n path)
  from 3(3) obtain t where t: "insert_vmx (subtree vmx ns) value (n # path) = Inr (t, ws)" "vmx' = smap_add ns (Namespace t) vmx"
    by (rule insert_vmx_Cons2E)
  note IH = 3(2) [OF t(1)]
  show ?case
  proof (cases q rule: path_cases)
    case (Single k)
    with 3(4) t(2) show ?thesis
      by (auto simp: map_of_smap_add strict_prefix_def prefix_Cons split: option.splits key.splits)
  next
    case (Cons2 k k' q')
    with 3(4) t(2) IH [of "k' # q'"] show ?thesis
      by (auto simp: get_string_subtree taken_subtree simp del: get_string.simps taken_simps)
  qed simp
qed simp

lemma insert_vmx_namespace:
  "insert_vmx vmx value p = Inr (vmx', ws) \<Longrightarrow> map lowercase_ascii p = p \<Longrightarrow>
   namespace_present vmx' q \<longleftrightarrow>
     namespace_present vmx q \<or> \<not> taken vmx p \<and> q \<noteq> [] \<and> strict_prefix (map lowercase_ascii q) p"
proof (induction p arbitrary: vmx vmx' q rule: induct_list012)
  case (2 k)
  then show ?case
    by (cases q rule: path_cases) (auto simp: map_of_smap_add strict_prefix_def prefix_Cons split: if_splits option.splits key.splits)
next
  case (3 ns n path)
  from 3(3) obtain t where t: "insert_vmx (subtree vmx ns) value (n # path) = Inr (t, ws)" "vmx' = smap_add ns (Namespace t) vmx"
    by (rule insert_vmx_Cons2E)
  note IH = 3(2) [OF t(1)]
  show ?case
  proof (cases q rule: path_cases)
    case (Single k)
    with 3(4) t(2) show ?thesis
      by (auto simp: map_of_smap_add strict_prefix_def prefix_Cons split: option.splits key.splits)
  next
    case (Cons2 k k' q')
    with 3(4) t(2) IH [of "k' # q'"] show ?thesis
      by (auto simp: namespace_present_subtree taken_subtree simp del: namespace_present.simps taken_simps)
  qed simp
qed simp

lemma insert_vmx_warning:
  "insert_vmx vmx value p = Inr (vmx', ws) \<Longrightarrow> map lowercase_ascii p = p \<Longrightarrow>
   ws = (if taken vmx p then [Duplicate_key (last p)] else [])"
proof (induction p arbitrary: vmx vmx' rule: induct_list012)
  case (2 k)
  then show ?case by (auto split: if_splits)
next
  case (3 ns n path)
  from 3(3) obtain t where t: "insert_vmx (subtree vmx ns) value (n # path) = Inr (t, ws)"
    by (rule insert_vmx_Cons2E)
  from 3(2) [OF t] 3(4) show ?case by (simp add: taken_subtree del: taken_simps)
qed simp

lemma insert_vmx_same:
  "insert_vmx vmx value p = Inr (vmx', ws) \<Longrightarrow> lower_path p = p \<Longrightarrow> vmx_ok vmx \<Longrightarrow> taken vmx p \<Longrightarrow> vmx' = vmx"
proof (induction p arbitrary: vmx vmx' rule: induct_list012)
  case (3 ns n path)
  from 3(3) obtain t where t: "insert_vmx (subtree vmx ns) value (n # path) = Inr (t, ws)" "vmx' = smap_add ns (Namespace t) vmx"
    by (rule insert_vmx_Cons2E)
  have "lowercase_ascii ns = ns" using 3(4) by simp
  with 3(6) obtain u where u: "map_of vmx ns = Some (Namespace u)" by (auto split: option.splits key.splits)
  have "t = subtree vmx ns" using 3(2) [OF t(1)] 3 by (simp add: taken_subtree vmx_ok_subtree del: taken_simps)
  with u t(2) 3(5) show ?case by (simp add: subtree_def smap_add_same vmx_ok_smap)
qed (auto split: if_splits)

subsection \<open>Building the tree\<close>

text \<open>Entries whose paths do not collide: none is a prefix of another.\<close>

definition entries_ok :: "(string list \<times> string) list \<Rightarrow> bool" where
  "entries_ok es \<longleftrightarrow>
     list_all (\<lambda>(p, v). p \<noteq> [] \<and> map lowercase_ascii p = p) es \<and>
     sorted_wrt (\<lambda>p q. \<not> prefix p q \<and> \<not> prefix q p) (map fst es)"

lemma build_vmx_snoc:
  "build_vmx (es @ [(p, v)]) =
     bindR (build_vmx es) (\<lambda>(vmx, ws). bindR (insert_vmx vmx v p) (\<lambda>(vmx, ws'). Inr (vmx, ws @ ws')))"
  unfolding build_vmx_def foreachR_snoc by (rule arg_cong [of _ _ "bindR _"]) auto

lemma build_vmx_total:
  "list_all (\<lambda>(p, v). p \<noteq> [] \<and> lower_path p = p) es \<Longrightarrow> \<exists>vmx ws. build_vmx es = Inr (vmx, ws) \<and> vmx_ok vmx"
proof (induction es rule: rev_induct)
  case (snoc e es)
  obtain p v where e: "e = (p, v)" by (cases e)
  from snoc obtain vmx ws where b: "build_vmx es = Inr (vmx, ws)" "vmx_ok vmx" by auto
  from snoc.prems e insert_vmx_total obtain vmx' ws' where i: "insert_vmx vmx v p = Inr (vmx', ws')" by fastforce
  from insert_vmx_ok [OF i b(2)] snoc.prems b i show ?case by (simp add: e build_vmx_snoc)
qed (simp add: build_vmx_def)

lemma build_vmx_entries:
  "entries_ok es \<Longrightarrow>
   \<exists>vmx. build_vmx es = Inr (vmx, []) \<and>
     (\<forall>q. get_string vmx q = map_of es (lower_path q)) \<and>
     (\<forall>q. namespace_present vmx q \<longleftrightarrow> q \<noteq> [] \<and> (\<exists>p\<in>fst ` set es. strict_prefix (lower_path q) p))"
proof (induction es rule: rev_induct)
  case (snoc e es)
  obtain p v where e: "e = (p, v)" by (cases e)
  from snoc obtain vmx where b: "build_vmx es = Inr (vmx, [])"
    "\<And>q. get_string vmx q = map_of es (lower_path q)"
    "\<And>q. namespace_present vmx q \<longleftrightarrow> q \<noteq> [] \<and> (\<exists>p\<in>fst ` set es. strict_prefix (lower_path q) p)"
    by (auto simp: entries_ok_def sorted_wrt_append)
  have p: "p \<noteq> []" "lower_path p = p" and new: "\<And>p'. p' \<in> fst ` set es \<Longrightarrow> \<not> prefix p p' \<and> \<not> prefix p' p"
    using snoc.prems by (auto simp: e entries_ok_def sorted_wrt_append)
  from new have fresh: "map_of es p = None" by (auto simp: map_of_eq_None_iff)
  with new have nt: "\<not> taken vmx p" using p by (auto simp: taken_def b strict_prefix_def)
  from insert_vmx_total [OF p(1)] obtain vmx' ws' where i: "insert_vmx vmx v p = Inr (vmx', ws')" by blast
  have "get_string vmx' q = map_of (es @ [e]) (lower_path q)" for q
  proof -
    have "map_of es (lower_path q) = None" if "prefix (lower_path q) p"
      using new that by (auto simp: map_of_eq_None_iff)
    then show ?thesis
      by (auto simp: insert_vmx_get [OF i p(2)] nt b(2) e map_add_def fresh strict_prefix_def split: option.splits)
  qed
  moreover have "namespace_present vmx' q \<longleftrightarrow> q \<noteq> [] \<and> (\<exists>p\<in>fst ` set (es @ [e]). strict_prefix (lower_path q) p)" for q
    by (auto simp: insert_vmx_namespace [OF i p(2)] nt b(3) e)
  moreover have "build_vmx (es @ [e]) = Inr (vmx', [])"
    using insert_vmx_warning [OF i p(2)] by (simp add: e build_vmx_snoc b(1) i nt)
  ultimately show ?case by blast
qed (simp add: build_vmx_def)


subsection \<open>Enumeration\<close>

lemma fold_append_concat: "fold (\<lambda>x r. r @ g x) xs r = r @ concat (map g xs)"
  by (induction xs arbitrary: r) auto

lemma map_vmx_at_concat:
  "map_vmx_at path f vmx =
     concat (map (\<lambda>(k, v). case v of Key s \<Rightarrow> [f (path @ [k]) (Some s)]
       | Namespace t \<Rightarrow> f (path @ [k]) None # map_vmx_at (path @ [k]) f t) vmx)"
proof -
  have "map_vmx_at path f vmx = fold (\<lambda>x r. r @ (case x of (k, v) \<Rightarrow> case v of Key s \<Rightarrow> [f (path @ [k]) (Some s)]
       | Namespace t \<Rightarrow> f (path @ [k]) None # map_vmx_at (path @ [k]) f t)) vmx []"
    by (subst map_vmx_at.simps, rule fold_cong) (simp_all add: Let_def fun_eq_iff split_beta split: key.splits)
  then show ?thesis by (simp only: fold_append_concat append_Nil)
qed

lemma vmx_set_induct [case_names tree]:
  assumes "\<And>vmx. (\<And>k t. (k, Namespace t) \<in> set vmx \<Longrightarrow> P t) \<Longrightarrow> P vmx"
  shows "P vmx"
proof (induction vmx rule: measure_induct_rule [of vmx_size])
  case (less vmx)
  show ?case by (rule assms, rule less, rule size_namespace)
qed

lemma map_vmx_at_map: "map_vmx_at path f vmx = map (\<lambda>(p, v). f p v) (map_vmx_at path Pair vmx)"
proof (induction vmx arbitrary: path rule: vmx_set_induct)
  case (tree vmx)
  show ?case
    unfolding map_vmx_at_concat [of path _ vmx] map_concat map_map
  proof (rule arg_cong [of _ _ concat], rule map_cong [OF refl])
    fix x assume x: "x \<in> set vmx"
    show "(case x of (k, v) \<Rightarrow> case v of Key s \<Rightarrow> [f (path @ [k]) (Some s)]
        | Namespace t \<Rightarrow> f (path @ [k]) None # map_vmx_at (path @ [k]) f t) =
      (map (\<lambda>(p, v). f p v) \<circ> (\<lambda>(k, v). case v of Key s \<Rightarrow> [(path @ [k], Some s)]
        | Namespace t \<Rightarrow> (path @ [k], None) # map_vmx_at (path @ [k]) Pair t)) x"
    proof (cases x)
      case (Pair k v)
      with x tree [of k] show ?thesis by (cases v) auto
    qed
  qed
qed

definition entry_at :: "vmx \<Rightarrow> string list \<Rightarrow> string option \<Rightarrow> bool" where
  "entry_at vmx q v \<longleftrightarrow> (case v of Some s \<Rightarrow> get_string vmx q = Some s | None \<Rightarrow> namespace_present vmx q)"

lemma entry_at_simps [simp]:
  "\<not> entry_at vmx [] v"
  "entry_at vmx [k] v \<longleftrightarrow> (case map_of vmx (lowercase_ascii k) of Some (Key s) \<Rightarrow> v = Some s | Some (Namespace t) \<Rightarrow> v = None | None \<Rightarrow> False)"
  "entry_at vmx (k # n # q) v \<longleftrightarrow> (case map_of vmx (lowercase_ascii k) of Some (Namespace t) \<Rightarrow> entry_at t (n # q) v | _ \<Rightarrow> False)"
  by (auto simp: entry_at_def split: option.splits key.splits)

lemma entry_at_Cons:
  "entry_at vmx (k # q) v \<longleftrightarrow>
     (case map_of vmx (lowercase_ascii k) of
        None \<Rightarrow> False
      | Some (Key s) \<Rightarrow> q = [] \<and> v = Some s
      | Some (Namespace t) \<Rightarrow> q = [] \<and> v = None \<or> entry_at t q v)"
  by (cases q) (auto split: option.splits key.splits)

lemma map_vmx_at_set:
  "vmx_ok vmx \<Longrightarrow> (p, v) \<in> set (map_vmx_at path Pair vmx) \<longleftrightarrow> (\<exists>q. p = path @ q \<and> lower_path q = q \<and> entry_at vmx q v)"
proof (induction vmx arbitrary: path p v rule: vmx_induct)
  case (tree vmx)
  have "(p, v) \<in> set (map_vmx_at path Pair vmx) \<longleftrightarrow>
    (\<exists>k w. map_of vmx k = Some w \<and> (case w of Key s \<Rightarrow> p = path @ [k] \<and> v = Some s
       | Namespace t \<Rightarrow> p = path @ [k] \<and> v = None \<or> (p, v) \<in> set (map_vmx_at (path @ [k]) Pair t)))"
  proof -
    let ?F = "\<lambda>k w. case w of Key s \<Rightarrow> [(path @ [k], Some s)] | Namespace t \<Rightarrow> (path @ [k], None) # map_vmx_at (path @ [k]) Pair t"
    have "(p, v) \<in> set (map_vmx_at path Pair vmx) \<longleftrightarrow> (\<exists>k w. map_of vmx k = Some w \<and> (p, v) \<in> set (?F k w))"
      unfolding map_vmx_at_concat [of path _ vmx] string_map.find_bindings [OF vmx_ok_smap [OF tree.prems]] by auto
    moreover have "(p, v) \<in> set (?F k w) \<longleftrightarrow> (case w of Key s \<Rightarrow> p = path @ [k] \<and> v = Some s
       | Namespace t \<Rightarrow> p = path @ [k] \<and> v = None \<or> (p, v) \<in> set (map_vmx_at (path @ [k]) Pair t))" for k w
      by (cases w) auto
    ultimately show ?thesis by simp
  qed
  also have "\<dots> \<longleftrightarrow> (\<exists>q. p = path @ q \<and> lower_path q = q \<and> entry_at vmx q v)"
  proof -
    have "(case w of Key s \<Rightarrow> p = path @ [k] \<and> v = Some s
        | Namespace t \<Rightarrow> p = path @ [k] \<and> v = None \<or> (p, v) \<in> set (map_vmx_at (path @ [k]) Pair t)) \<longleftrightarrow>
      (\<exists>q. p = path @ k # q \<and> lower_path q = q \<and> entry_at vmx (k # q) v)" if "map_of vmx k = Some w" for k w
      using vmx_ok_find [OF tree.prems that] tree.IH [of k] that
      by (cases w) (auto simp: entry_at_Cons simp del: entry_at_simps(2,3))
    then have "(\<exists>k w. map_of vmx k = Some w \<and> (case w of Key s \<Rightarrow> p = path @ [k] \<and> v = Some s
        | Namespace t \<Rightarrow> p = path @ [k] \<and> v = None \<or> (p, v) \<in> set (map_vmx_at (path @ [k]) Pair t))) \<longleftrightarrow>
      (\<exists>k w q. map_of vmx k = Some w \<and> p = path @ k # q \<and> lower_path q = q \<and> entry_at vmx (k # q) v)"
      by blast
    also have "\<dots> \<longleftrightarrow> (\<exists>q. p = path @ q \<and> lower_path q = q \<and> entry_at vmx q v)"
    proof
      assume "\<exists>k w q. map_of vmx k = Some w \<and> p = path @ k # q \<and> lower_path q = q \<and> entry_at vmx (k # q) v"
      then obtain k w q where "map_of vmx k = Some w" "p = path @ k # q" "lower_path q = q" "entry_at vmx (k # q) v" by blast
      with vmx_ok_find [OF tree.prems] show "\<exists>q. p = path @ q \<and> lower_path q = q \<and> entry_at vmx q v"
        by (intro exI [of _ "k # q"]) auto
    next
      assume "\<exists>q. p = path @ q \<and> lower_path q = q \<and> entry_at vmx q v"
      then obtain q where q: "p = path @ q" "lower_path q = q" "entry_at vmx q v" by blast
      then obtain k r where "q = k # r" by (cases q) auto
      moreover from this q have "map_of vmx k \<noteq> None" by (cases r) (auto split: option.splits)
      ultimately show "\<exists>k w q. map_of vmx k = Some w \<and> p = path @ k # q \<and> lower_path q = q \<and> entry_at vmx (k # q) v"
        using q by auto
    qed
    finally show ?thesis .
  qed
  finally show ?case .
qed

text \<open>The order: a list of blocks is sorted when each block is and the blocks are.\<close>

lemma sorted_wrt_concat_map:
  assumes "\<And>x. x \<in> set xs \<Longrightarrow> sorted_wrt R (g x)"
    and "sorted_wrt (\<lambda>x y. \<forall>a\<in>set (g x). \<forall>b\<in>set (g y). R a b) xs"
  shows "sorted_wrt R (concat (map g xs))"
  using assms by (induction xs) (auto simp: sorted_wrt_append)

lemma path_less: "path @ k # q < path @ k' # q'" if "k < k'" for path :: "string list"
  using that by (induction path) auto

lemma path_less_longer: "path @ [k] < (path @ [k]) @ n # q" for path :: "string list"
  by (induction path) auto

lemma map_vmx_at_sorted:
  "vmx_ok vmx \<Longrightarrow> sorted_wrt (<) (map fst (map_vmx_at path Pair vmx))"
proof (induction vmx arbitrary: path rule: vmx_induct)
  case (tree vmx)
  let ?g = "\<lambda>x. map fst (case x of (k, v) \<Rightarrow> case v of Key s \<Rightarrow> [(path @ [k], Some s)]
    | Namespace t \<Rightarrow> (path @ [k], None) # map_vmx_at (path @ [k]) Pair t)"
  have ns: "vmx_ok t" "map_of vmx k = Some (Namespace t)" if "(k, Namespace t) \<in> set vmx" for k t
    using that string_map.find_bindings [OF vmx_ok_smap [OF tree.prems], of k "Namespace t"] vmx_ok_namespace [OF tree.prems, of k t] by auto
  have below: "\<exists>n r. q = (path @ [k]) @ n # r" if q: "q \<in> fst ` set (map_vmx_at (path @ [k]) Pair t)" and m: "(k, Namespace t) \<in> set vmx" for k t q
  proof -
    from q obtain v where "(q, v) \<in> set (map_vmx_at (path @ [k]) Pair t)" by auto
    then obtain r where "q = (path @ [k]) @ r" "entry_at t r v" using map_vmx_at_set [OF ns(1) [OF m]] by blast
    then show ?thesis by (cases r) auto
  qed
  have block: "\<exists>r. q = path @ k # r" if "q \<in> set (?g (k, v))" "(k, v) \<in> set vmx" for q k v
    using that below by (cases v) fastforce+
  have "sorted_wrt (<) (concat (map ?g vmx))"
  proof (rule sorted_wrt_concat_map)
    fix x assume x: "x \<in> set vmx"
    show "sorted_wrt (<) (?g x)"
    proof (cases x)
      case (Pair k v)
      show ?thesis
      proof (cases v)
        case (Namespace t)
        have "sorted_wrt (<) (map fst (map_vmx_at (path @ [k]) Pair t))"
          using tree.IH ns x Pair Namespace by blast
        moreover have "path @ [k] < q" if "q \<in> fst ` set (map_vmx_at (path @ [k]) Pair t)" for q
          using below [OF that] x Pair Namespace path_less_longer by auto
        ultimately show ?thesis by (simp add: Pair Namespace)
      qed (simp add: Pair)
    qed
  next
    have "sorted_wrt (\<lambda>x y. fst x < fst y) vmx"
      using vmx_ok_smap [OF tree.prems] by (simp add: smap_ok_def sorted_wrt_map)
    then show "sorted_wrt (\<lambda>x y. \<forall>a\<in>set (?g x). \<forall>b\<in>set (?g y). a < b) vmx"
    proof (rule sorted_wrt_mono_rel [rotated])
      fix x y assume xy: "x \<in> set vmx" "y \<in> set vmx" "fst x < fst y"
      show "\<forall>a\<in>set (?g x). \<forall>b\<in>set (?g y). a < b"
      proof (intro ballI)
        fix a b assume ab: "a \<in> set (?g x)" "b \<in> set (?g y)"
        obtain r where "a = path @ fst x # r" using block [of a "fst x" "snd x"] ab(1) xy(1) by auto
        moreover obtain r' where "b = path @ fst y # r'" using block [of b "fst y" "snd y"] ab(2) xy(2) by auto
        ultimately show "a < b" using path_less [OF xy(3)] by simp
      qed
    qed
  qed
  then show ?case by (subst map_vmx_at_concat) (simp add: map_concat comp_def)
qed

subsection \<open>Printing\<close>

lemma to_string_vmx_concat:
  "to_string_vmx indent vmx =
     concat (map (\<lambda>(k, v). case v of Key v \<Rightarrow> string_spaces indent @ key_line k v
       | Namespace t \<Rightarrow> string_spaces indent @ namespace_line k @ to_string_vmx (indent + 4) t) vmx)"
  by (subst to_string_vmx.simps) (simp only: case_prod_unfold fold_append_concat append_Nil)

lemma print_vmx_to_string: "print_vmx indent vmx chan = chan @ to_string_vmx indent vmx"
proof (induction vmx arbitrary: indent chan rule: vmx_set_induct)
  case (tree vmx)
  have "print_vmx indent vmx chan =
    fold (\<lambda>x chan. chan @ (case x of (k, v) \<Rightarrow> case v of Key v \<Rightarrow> string_spaces indent @ key_line k v
       | Namespace t \<Rightarrow> string_spaces indent @ namespace_line k @ to_string_vmx (indent + 4) t)) vmx chan"
    by (subst print_vmx.simps, rule fold_cong) (auto simp: tree fun_eq_iff split: key.splits)
  then show ?case by (simp only: fold_append_concat to_string_vmx_concat [of indent])
qed

subsection \<open>Properties\<close>

text \<open>C14: inserting a value at a path of names in lower case. It always succeeds and keeps the tree well formed.
  When there is a key or a namespace at the path already, nothing changes and a warning is given.
  Otherwise the path has the value, the names above it become namespaces, a key that was at one of
  these is lost, and every other key and namespace stays.\<close>

theorem insert_vmx_correct:
  assumes "vmx_ok vmx" and "p \<noteq> []" and "lower_path p = p"
  shows "\<exists>vmx'. insert_vmx vmx value p = Inr (vmx', if taken vmx p then [Duplicate_key (last p)] else []) \<and> vmx_ok vmx' \<and>
    (\<forall>q. get_string vmx' q =
       (if taken vmx p then get_string vmx q
        else if lower_path q = p then Some value
        else if strict_prefix (lower_path q) p then None
        else get_string vmx q)) \<and>
    (\<forall>q. namespace_present vmx' q =
       (namespace_present vmx q \<or> \<not> taken vmx p \<and> q \<noteq> [] \<and> strict_prefix (lower_path q) p))"
proof -
  from insert_vmx_total [OF assms(2)] obtain vmx' ws where i: "insert_vmx vmx value p = Inr (vmx', ws)" by blast
  show ?thesis
    using insert_vmx_ok [OF i assms(1,3)] insert_vmx_warning [OF i assms(3)]
      insert_vmx_get [OF i assms(3)] insert_vmx_namespace [OF i assms(3)] i by blast
qed

definition demo_tree :: vmx where
  "demo_tree = [(''memsize'', Key ''2048''),
     (''scsi0:0'', Namespace [(''filename'', Key ''a.vmdk''), (''present'', Key ''TRUE'')]),
     (''sound'', Namespace [(''present'', Key ''False''), (''virtualdev'', Key ''hda'')])]"

lemma demo_tree_ok: "vmx_ok demo_tree"
  by code_simp

theorem insert_vmx_correct_witness:
  "\<exists>vmx'. insert_vmx demo_tree ''x'' [''memsize'', ''y''] = Inr (vmx', []) \<and> get_string vmx' [''memsize''] = None \<and>
     get_string vmx' [''MemSize'', ''Y''] = Some ''x'' \<and> get_string vmx' [''scsi0:0'', ''fileName''] = Some ''a.vmdk''"
proof -
  have f: "lower_path [''memsize'', ''y''] = [''memsize'', ''y'']" "\<not> taken demo_tree [''memsize'', ''y'']"
    "strict_prefix (lower_path [''memsize'']) [''memsize'', ''y'']" "lower_path [''memsize''] \<noteq> [''memsize'', ''y'']"
    "lower_path [''MemSize'', ''Y''] = [''memsize'', ''y'']"
    "\<not> strict_prefix (lower_path [''scsi0:0'', ''fileName'']) [''memsize'', ''y'']"
    "lower_path [''scsi0:0'', ''fileName''] \<noteq> [''memsize'', ''y'']"
    "get_string demo_tree [''scsi0:0'', ''fileName''] = Some ''a.vmdk''"
    by code_simp+
  from insert_vmx_correct [OF demo_tree_ok list.distinct(2) f(1), of "''x''", unfolded if_not_P [OF f(2)]]
  obtain vmx' where i: "insert_vmx demo_tree ''x'' [''memsize'', ''y''] = Inr (vmx', [])"
    and g: "\<forall>q. get_string vmx' q = (if lower_path q = [''memsize'', ''y''] then Some ''x''
      else if strict_prefix (lower_path q) [''memsize'', ''y''] then None else get_string demo_tree q)" by blast
  have "get_string vmx' [''memsize''] = None" "get_string vmx' [''MemSize'', ''Y''] = Some ''x''"
    "get_string vmx' [''scsi0:0'', ''fileName''] = Some ''a.vmdk''"
    by (simp_all only: g [rule_format] f refl if_True if_False)
  with i show ?thesis by blast
qed

text \<open>A key is lost without a warning when a later line uses its name as a namespace; in the other order the
  second line is ignored with a warning.\<close>

theorem namespace_replaces_key:
  assumes "vmx_ok vmx" and "lower_path (p @ [n]) = p @ [n]" and "get_string vmx p = Some value"
  shows "\<exists>vmx'. insert_vmx vmx w (p @ [n]) = Inr (vmx', []) \<and> get_string vmx' p = None \<and>
    insert_vmx vmx' value p = Inr (vmx', [Duplicate_key (last p)])"
proof -
  have nt: "\<not> taken vmx (p @ [n])"
    using assms(3) by (induction vmx p rule: get_string.induct) (auto split: option.splits key.splits)
  have "p \<noteq> []" using assms(3) by auto
  have p: "lower_path p = p" using assms(2) by simp
  from insert_vmx_total [of "p @ [n]" vmx w] obtain vmx' ws where i: "insert_vmx vmx w (p @ [n]) = Inr (vmx', ws)" by auto
  have ns: "namespace_present vmx' p"
    using insert_vmx_namespace [OF i assms(2), of p] nt p \<open>p \<noteq> []\<close> by (auto simp: strict_prefix_def)
  have g: "get_string vmx' p = None"
    using insert_vmx_get [OF i assms(2), of p] nt p by (auto simp: strict_prefix_def)
  from insert_vmx_total [OF \<open>p \<noteq> []\<close>] obtain vmx2 ws2 where i2: "insert_vmx vmx' value p = Inr (vmx2, ws2)" by blast
  have "vmx2 = vmx'"
    using insert_vmx_same [OF i2 p] insert_vmx_ok [OF i assms(1,2)] ns by (simp add: taken_def)
  then show ?thesis
    using i i2 g insert_vmx_warning [OF i assms(2)] insert_vmx_warning [OF i2 p] nt ns by (simp add: taken_def)
qed

theorem namespace_replaces_key_witness:
  "\<exists>vmx'. insert_vmx demo_tree ''x'' [''memsize'', ''y''] = Inr (vmx', []) \<and> get_string vmx' [''memsize''] = None \<and>
     insert_vmx vmx' ''2048'' [''memsize''] = Inr (vmx', [Duplicate_key ''memsize''])"
proof -
  have "lower_path ([''memsize''] @ [''y'']) = [''memsize''] @ [''y'']" "get_string demo_tree [''memsize''] = Some ''2048''"
    by code_simp+
  from namespace_replaces_key [OF demo_tree_ok this, of "''x''"] show ?thesis by simp
qed

text \<open>C15: dropping the namespaces that are switched off: a key stays unless it is in or below a namespace that
  has the key \<open>present\<close> with the value false in any case; a \<open>present\<close> at the top level has no effect.
  The tree stays well formed.\<close>

theorem drop_not_present_correct:
  assumes "vmx_ok vmx"
  shows "vmx_ok (drop_not_present vmx) \<and>
    get_string (drop_not_present vmx) q =
      (if \<exists>ns. ns \<noteq> [] \<and> strict_prefix ns q \<and> switched_off vmx ns then None else get_string vmx q)"
  using vmx_ok_drop [OF assms] get_string_drop [OF assms] by auto

theorem drop_not_present_correct_witness:
  "vmx_ok (drop_not_present demo_tree) \<and> get_string (drop_not_present demo_tree) [''sound'', ''virtualDev''] = None"
proof -
  have "[''sound''] \<noteq> [] \<and> strict_prefix [''sound''] [''sound'', ''virtualDev''] \<and> switched_off demo_tree [''sound'']"
    by code_simp
  with drop_not_present_correct [OF demo_tree_ok] show ?thesis by (metis (no_types, lifting))
qed

text \<open>Selecting namespaces keeps exactly the keys in and below a namespace the predicate holds of, and the tree
  stays well formed.\<close>

theorem select_namespaces_correct:
  assumes "vmx_ok vmx"
  shows "vmx_ok (select_namespaces pred vmx) \<and>
    get_string (select_namespaces pred vmx) q =
      (if \<exists>ns. ns \<noteq> [] \<and> strict_prefix ns q \<and> pred (lower_path ns) then get_string vmx q else None)"
  using vmx_ok_select [OF assms, of "[]" pred] get_string_select [OF assms, of "[]" pred q] by (simp add: select_namespaces_def)

theorem select_namespaces_correct_witness:
  "vmx_ok (select_namespaces (\<lambda>ns. ns = [''scsi0:0'']) demo_tree) \<and>
   get_string (select_namespaces (\<lambda>ns. ns = [''scsi0:0'']) demo_tree) [''memsize''] = None"
proof -
  have "\<not> (\<exists>ns. ns \<noteq> [] \<and> strict_prefix ns [''memsize''] \<and> lower_path ns = [''scsi0:0''])"
    by (rule no_proper_prefix_with)
  with select_namespaces_correct [OF demo_tree_ok, of "\<lambda>ns. ns = [''scsi0:0'']" "[''memsize'']"] show ?thesis
    by (simp only: if_False)
qed

text \<open>\<open>map\<close> applies the function once to every key, with its value, and to every namespace, in the
  lexicographic order of the paths.\<close>

theorem map_vmx_correct:
  assumes "vmx_ok vmx"
  shows "\<exists>es. map_vmx f vmx = map (\<lambda>(p, v). f p v) es \<and> sorted_wrt (<) (map fst es) \<and>
    (\<forall>p v. (p, v) \<in> set es = (lower_path p = p \<and> entry_at vmx p v))"
  using map_vmx_at_map [of "[]" f vmx] map_vmx_at_sorted [OF assms, of "[]"] map_vmx_at_set [OF assms, of _ _ "[]"]
  by (intro exI [of _ "map_vmx_at [] Pair vmx"]) (simp add: map_vmx_def)

theorem map_vmx_correct_witness:
  "\<exists>es. map_vmx (\<lambda>p v. length p) demo_tree = map (\<lambda>(p, v). length p) es \<and> sorted_wrt (<) (map fst es) \<and>
    (\<forall>p v. (p, v) \<in> set es = (lower_path p = p \<and> entry_at demo_tree p v))"
  by (rule map_vmx_correct [OF demo_tree_ok])

text \<open>\<open>print\<close> writes to its channel the string that \<open>to_string\<close> builds.\<close>

theorem print_vmx_correct: "print_vmx indent vmx chan = chan @ to_string_vmx indent vmx"
  by (rule print_vmx_to_string)

end
