(* ===== verification/VmxText.thy ===== *)
theory VmxText
  imports VmxTree
begin

section \<open>VMX files: escapes, lines and the whole parser\<close>

text \<open>
  What the library functions promise, the decoding loop of \<open>remove_vmx_escapes\<close> against a recursive
  decoder, and \<open>parse_string\<close> on any text and on documents written line by line.
\<close>

subsection \<open>What the library promises\<close>

fun join :: "string \<Rightarrow> string list \<Rightarrow> string" where
  "join sep [] = []"
| "join sep [x] = x"
| "join sep (x # y # xs) = x @ sep @ join sep (y # xs)"

text \<open>Splitting at a character: at least one piece, the pieces joined are the string, and no piece has the character.\<close>

definition nsplit_law :: "'a vmx_lib_scheme \<Rightarrow> bool" where
  "nsplit_law lib \<longleftrightarrow> (\<forall>c s. nsplit lib [c] s \<noteq> [] \<and> join [c] (nsplit lib [c] s) = s \<and> list_all (\<lambda>x. c \<notin> set x) (nsplit lib [c] s))"

text \<open>The digits 0-9, a-f and A-F, and their values.\<close>

definition hex_law :: "'a vmx_lib_scheme \<Rightarrow> bool" where
  "hex_law lib \<longleftrightarrow>
     (\<forall>c. case digit_in 16 c of None \<Rightarrow> \<not> isxdigit lib c | Some d \<Rightarrow> isxdigit lib c \<and> hexdigit lib c = int d)"

text \<open>Trimming on the right removes carriage returns, trimming on the left white space.\<close>

definition is_space :: "char \<Rightarrow> bool" where
  "is_space c \<longleftrightarrow> c \<in> {CHR '' '', CHR 0x09, CHR 0x0A, CHR 0x0B, CHR 0x0C, CHR 0x0D}"

definition trim_law :: "'a vmx_lib_scheme \<Rightarrow> bool" where
  "trim_law lib \<longleftrightarrow>
     (\<forall>s. trimr_cr lib s = rev (dropWhile (\<lambda>c. c = CHR 0x0D) (rev s))) \<and> (\<forall>s. triml lib s = dropWhile is_space s)"

text \<open>The expression matches a line of the form \<open>key = "value"\<close>; the key has no blanks and no equals sign, neither
  has a line break.\<close>

definition key_char :: "char \<Rightarrow> bool" where
  "key_char c \<longleftrightarrow> \<not> is_space c \<and> c \<noteq> CHR ''=''"

definition value_char :: "char \<Rightarrow> bool" where
  "value_char c \<longleftrightarrow> c \<noteq> CHR 0x0A \<and> c \<noteq> CHR 0x0D"

definition quoted_line :: "string \<Rightarrow> string \<Rightarrow> string" where
  "quoted_line k v = k @ '' = '' @ [CHR 0x22] @ v @ [CHR 0x22]"

definition rex_law :: "'a vmx_lib_scheme \<Rightarrow> bool" where
  "rex_law lib \<longleftrightarrow>
     (\<forall>k v. k \<noteq> [] \<and> list_all key_char k \<and> list_all value_char v \<longrightarrow> rex_groups lib (quoted_line k v) = Some (k, v))"

subsection \<open>Escapes\<close>

text \<open>The decoding by recursion over the string, and an encoder that escapes everything that is not a plain character.\<close>

fun unescape :: "string \<Rightarrow> string" where
  "unescape (c # c1 # c2 # s) =
     (if c = CHR ''|''
      then case (digit_in 16 c1, digit_in 16 c2) of
             (Some d1, Some d2) \<Rightarrow> char_of (d1 * 16 + d2) # unescape s
           | _ \<Rightarrow> c # unescape (c1 # c2 # s)
      else c # unescape (c1 # c2 # s))"
| "unescape (c # s) = c # unescape s"
| "unescape [] = []"

definition hex_char :: "nat \<Rightarrow> char" where
  "hex_char d = (if d < 10 then char_of (48 + d) else char_of (55 + d))"

definition plain_char :: "char \<Rightarrow> bool" where
  "plain_char c \<longleftrightarrow> 32 \<le> (of_char c :: nat) \<and> of_char c < (127 :: nat) \<and> c \<noteq> CHR ''|'' \<and> c \<noteq> CHR 0x22"

definition escape_char :: "char \<Rightarrow> string" where
  "escape_char c = (if plain_char c then [c] else [CHR ''|'', hex_char (of_char c div 16), hex_char (of_char c mod 16)])"

definition vmx_escape :: "string \<Rightarrow> string" where
  "vmx_escape s = concat (map escape_char s)"

lemma digit_in_less: "digit_in base c = Some d \<Longrightarrow> d < base"
  by (auto simp: digit_in_def split: option.splits if_splits)

lemma digit_in_hex_char: "d < 16 \<Longrightarrow> digit_in 16 (hex_char d) = Some d"
proof -
  assume "d < 16"
  then have "d \<in> set [0..<16]" by simp
  then show ?thesis by (auto simp: upt_rec hex_char_def digit_in_def digit_of_def)
qed

lemma unescape_plain: "c \<noteq> CHR ''|'' \<Longrightarrow> unescape (c # s) = c # unescape s"
  by (cases s rule: path_cases) auto

lemma unescape_escape: "unescape (vmx_escape s) = s"
proof (induction s)
  case (Cons c s)
  have "(of_char c :: nat) < 256" by simp
  then have "(of_char c :: nat) div 16 < 16" by (simp add: less_mult_imp_div_less)
  with Cons show ?case
    by (cases "plain_char c")
       (auto simp: vmx_escape_def escape_char_def unescape_plain plain_char_def digit_in_hex_char)
qed (simp add: vmx_escape_def)

lemma hex_lawD:
  assumes "hex_law lib"
  shows "isxdigit lib c \<longleftrightarrow> digit_in 16 c \<noteq> None" and "digit_in 16 c = Some d \<Longrightarrow> hexdigit lib c = int d"
  using assms by (auto simp: hex_law_def dest: spec [of _ c] split: option.splits)

lemma char_chr_hex: "d1 < 16 \<Longrightarrow> d2 < 16 \<Longrightarrow> char_chr (int d1 * 16 + int d2) = Inr (char_of (d1 * 16 + d2))"
proof -
  assume "d1 < 16" "d2 < 16"
  moreover have "nat (int d1 * 16 + int d2) = d1 * 16 + d2" by simp
  ultimately show ?thesis by (simp add: char_chr_def)
qed

text \<open>The loop writes the decoded rest at \<open>j\<close>; it never writes past the buffer because decoding does not lengthen.\<close>


lemma remove_vmx_escapes_loop_correct:
  assumes hex: "hex_law lib"
  shows "j \<le> i \<Longrightarrow> i \<le> length str \<Longrightarrow> length out = length str \<Longrightarrow>
    \<exists>out'. remove_vmx_escapes_loop lib str i (out, j) = Inr (out', j + length (unescape (drop i str))) \<and>
      take (j + length (unescape (drop i str))) out' = take j out @ unescape (drop i str)"
proof (induction "length str - i" arbitrary: i j out rule: less_induct)
  case less
  show ?case
  proof (cases "i < length str")
    case True
    have step: "\<exists>out'. bindR (bytes_set out j b) (\<lambda>out. remove_vmx_escapes_loop lib str (i + k) (out, j + 1)) =
          Inr (out', j + length (b # unescape (drop (i + k) str))) \<and>
        take (j + length (b # unescape (drop (i + k) str))) out' = take j out @ b # unescape (drop (i + k) str)"
      if "0 < k" "i + k \<le> length str" for b k
      using less(1) [of "i + k" "j + 1" "out[j := b]"] less(2,4) True that
      by (auto simp: bytes_set_def take_Suc_conv_app_nth)
    define c c1 c2 where c: "c = str ! i" "c1 = str ! (i + 1)" "c2 = str ! (i + 2)"
    have d: "drop i str = c # drop (i + 1) str" using True by (simp add: c Cons_nth_drop_Suc)
    note unfold = remove_vmx_escapes_loop.simps [of lib str i]
    show ?thesis
    proof (cases "i + 3 \<le> length str \<and> c = CHR ''|'' \<and> digit_in 16 c1 \<noteq> None \<and> digit_in 16 c2 \<noteq> None")
      case True
      then obtain d1 d2 where h: "digit_in 16 c1 = Some d1" "digit_in 16 c2 = Some d2" by auto
      have "drop (i + 1) str = c1 # c2 # drop (i + 3) str"
        using True by (simp add: c Cons_nth_drop_Suc numeral_eq_Suc)
      with d h True have u: "unescape (drop i str) = char_of (d1 * 16 + d2) # unescape (drop (i + 3) str)" by simp
      show ?thesis using True \<open>i < length str\<close> h step [of 3 "char_of (d1 * 16 + d2)"] unfolding u
        by (simp add: unfold c string_get_def hex_lawD [OF hex] char_chr_hex digit_in_less Let_def)
    next
      case False
      have u: "unescape (drop i str) = c # unescape (drop (i + 1) str)"
      proof (cases "i + 3 \<le> length str")
        case True
        have "drop (i + 1) str = c1 # c2 # drop (i + 3) str"
          using True by (simp add: c Cons_nth_drop_Suc numeral_eq_Suc)
        with d False True show ?thesis by (auto split: option.splits)
      next
        case False
        then obtain r where r: "drop (i + 1) str = r" "length r < 2" by simp
        show ?thesis using r(2) unfolding d r(1) by (cases r rule: path_cases) auto
      qed
      show ?thesis using False \<open>i < length str\<close> step [of 1 c] unfolding u
        by (auto simp: unfold c string_get_def hex_lawD [OF hex] Let_def)
    qed
  qed (use less in \<open>simp add: remove_vmx_escapes_loop.simps\<close>)
qed

lemma remove_vmx_escapes_unescape: "hex_law lib \<Longrightarrow> remove_vmx_escapes lib s = Inr (unescape s)"
  using remove_vmx_escapes_loop_correct [of lib 0 0 s "replicate (length s) (CHR 0x00)"]
  by (auto simp: remove_vmx_escapes_def)

subsection \<open>Splitting\<close>

lemma lowercase_fixed_iff: "lowercase_ascii s = s \<longleftrightarrow> (\<forall>c\<in>set s. char_lowercase c = c)"
  by (induction s) (auto simp: lowercase_ascii_def)

lemma lower_join: "lowercase_ascii (join sep xs) = join sep xs \<Longrightarrow> lower_path xs = xs"
  by (induction sep xs rule: join.induct) (auto simp: lowercase_fixed_iff simp del: lowercase_append)

lemma nsplit_lower: "nsplit_law lib \<Longrightarrow> lowercase_ascii s = s \<Longrightarrow> lower_path (nsplit lib [c] s) = nsplit lib [c] s"
  by (rule lower_join [of "[c]"]) (simp add: nsplit_law_def)

lemma append_sep_inj:
  assumes "x @ c # s = y @ c # t" and "c \<notin> set x" and "c \<notin> set y"
  shows "x = y \<and> s = t"
  using assms by (induction x arbitrary: y) (auto simp: Cons_eq_append_conv append_eq_Cons_conv)

lemma join_inj:
  "xs \<noteq> [] \<Longrightarrow> ys \<noteq> [] \<Longrightarrow> list_all (\<lambda>x. c \<notin> set x) xs \<Longrightarrow> list_all (\<lambda>x. c \<notin> set x) ys \<Longrightarrow>
   join [c] xs = join [c] ys \<Longrightarrow> xs = ys"
proof (induction xs arbitrary: ys rule: induct_list012)
  case (2 x)
  then show ?case by (cases ys rule: path_cases) auto
next
  case (3 x x' xs)
  show ?case
  proof (cases ys rule: path_cases)
    case (Cons2 y y' zs)
    have "x = y \<and> join [c] (x' # xs) = join [c] (y' # zs)"
      using 3 Cons2 by (intro append_sep_inj [of _ c]) auto
    moreover from this have "x' # xs = y' # zs" by (intro 3(2)) (use 3 Cons2 in auto)
    ultimately show ?thesis using Cons2 by simp
  qed (use 3 in auto)
qed simp

lemma nsplit_join: "nsplit_law lib \<Longrightarrow> xs \<noteq> [] \<Longrightarrow> list_all (\<lambda>x. c \<notin> set x) xs \<Longrightarrow> nsplit lib [c] (join [c] xs) = xs"
  by (rule join_inj [of _ _ c]) (auto simp: nsplit_law_def)

subsection \<open>The whole parser\<close>

lemma parse_lines_total:
  "hex_law lib \<Longrightarrow> \<exists>kvs ws. parse_lines lib lines = Inr (kvs, ws) \<and> list_all (\<lambda>(k, v). lowercase_ascii k = k) kvs"
  by (induction lines) (auto simp: remove_vmx_escapes_unescape split: option.splits)

text \<open>A document: one line per entry.\<close>

definition entry_line :: "string list \<times> string \<Rightarrow> string" where
  "entry_line = (\<lambda>(p, v). quoted_line (join ''.'' p) (vmx_escape v))"

definition document :: "(string list \<times> string) list \<Rightarrow> string" where
  "document es = join [CHR 0x0A] (map entry_line es)"

text \<open>Names a key can be made of: not empty, no dots, blanks or equals signs, and the first does not start a comment.\<close>

definition names_ok :: "string list \<Rightarrow> bool" where
  "names_ok p \<longleftrightarrow> list_all (\<lambda>x. x \<noteq> [] \<and> list_all (\<lambda>c. key_char c \<and> c \<noteq> CHR ''.'') x) p \<and> hd (join ''.'' p) \<noteq> CHR ''#''"

lemma join_chars: "c \<in> set (join sep xs) \<Longrightarrow> c \<in> set sep \<or> (\<exists>x\<in>set xs. c \<in> set x)"
  by (induction sep xs rule: join.induct) auto

lemma join_not_Nil: "xs \<noteq> [] \<Longrightarrow> [] \<notin> set xs \<Longrightarrow> join sep xs \<noteq> []"
  by (cases "(sep, xs)" rule: join.cases) auto

lemma key_char_dot: "key_char (CHR ''.'')"
  by code_simp

lemma key_char_join: "names_ok p \<Longrightarrow> list_all key_char (join ''.'' p)"
proof -
  assume p: "names_ok p"
  have "key_char c" if "c \<in> set (join ''.'' p)" for c
  proof -
    from join_chars [OF that] consider "c = CHR ''.''" | x where "x \<in> set p" "c \<in> set x" by auto
    then show ?thesis using p key_char_dot by cases (simp_all add: names_ok_def list_all_iff)
  qed
  then show ?thesis by (simp add: list_all_iff)
qed

lemma escape_value_char: "list_all value_char (vmx_escape v)"
proof -
  have "value_char (hex_char d)" if "d < 16" for d
    using digit_in_hex_char [OF that] by (auto simp: value_char_def digit_in_def digit_of_def)
  moreover have "(of_char c :: nat) div 16 < 16" for c :: char by (simp add: less_mult_imp_div_less)
  ultimately show ?thesis
    by (auto simp: list_all_iff vmx_escape_def escape_char_def value_char_def plain_char_def)
qed

lemma entry_line_groups:
  assumes "rex_law lib" and "names_ok p" and "p \<noteq> []"
  shows "rex_groups lib (entry_line (p, v)) = Some (join ''.'' p, vmx_escape v)"
proof -
  have "join ''.'' p \<noteq> []" using assms by (intro join_not_Nil) (auto simp: names_ok_def list_all_iff)
  with assms key_char_join escape_value_char show ?thesis by (simp add: rex_law_def entry_line_def)
qed


text \<open>The lines of a document are the lines of its entries.\<close>

lemma value_char_key: "key_char c \<Longrightarrow> value_char c"
  by (auto simp: key_char_def value_char_def is_space_def)

lemma quoted_line_value_char: "list_all key_char k \<Longrightarrow> list_all value_char v \<Longrightarrow> list_all value_char (quoted_line k v)"
  by (auto simp: quoted_line_def list_all_iff value_char_key) (simp_all add: value_char_def)

lemma entry_line_shape:
  assumes "names_ok p" and "p \<noteq> []"
  shows "list_all value_char (entry_line (p, v))"
    and "\<exists>c s. entry_line (p, v) = c # s \<and> \<not> is_space c \<and> c \<noteq> CHR ''#''"
    and "\<exists>s. entry_line (p, v) = s @ [CHR 0x22]"
proof -
  show "list_all value_char (entry_line (p, v))"
    using quoted_line_value_char [OF key_char_join [OF assms(1)] escape_value_char] by (simp add: entry_line_def)
  have "join ''.'' p \<noteq> []" using assms by (intro join_not_Nil) (auto simp: names_ok_def list_all_iff)
  then obtain c s where "join ''.'' p = c # s" by (cases "join ''.'' p") auto
  with key_char_join [OF assms(1)] assms(1)
  show "\<exists>c s. entry_line (p, v) = c # s \<and> \<not> is_space c \<and> c \<noteq> CHR ''#''"
    by (simp add: entry_line_def quoted_line_def key_char_def names_ok_def)
qed (simp add: entry_line_def quoted_line_def)

lemma vmx_lines_document:
  assumes laws: "nsplit_law lib" "trim_law lib" and es: "list_all (\<lambda>(p, v). p \<noteq> [] \<and> names_ok p) es"
  shows "vmx_lines lib (document es) = map entry_line es"
proof (cases "es = []")
  case True
  have "nsplit lib [CHR 0x0A] [] = [[]]"
    using nsplit_join [OF laws(1), of "[[]]"] by simp
  with True laws(2) show ?thesis by (simp add: vmx_lines_def document_def trim_law_def)
next
  case False
  have shape: "list_all value_char l \<and> (\<exists>c s. l = c # s \<and> \<not> is_space c \<and> c \<noteq> CHR ''#'') \<and> (\<exists>s. l = s @ [CHR 0x22])"
    if "l \<in> set (map entry_line es)" for l
  proof -
    from that obtain p v where "(p, v) \<in> set es" "l = entry_line (p, v)" by auto
    with es entry_line_shape [of p v] show ?thesis by (auto simp: list_all_iff)
  qed
  have "nsplit lib [CHR 0x0A] (document es) = map entry_line es"
    unfolding document_def using False shape by (intro nsplit_join [OF laws(1)]) (auto simp: list_all_iff value_char_def)
  moreover have "trimr_cr lib l = l" if "l \<in> set (map entry_line es)" for l
  proof -
    from shape [OF that] obtain s where "l = s @ [CHR 0x22]" by blast
    with laws(2) show ?thesis by (simp add: trim_law_def)
  qed
  moreover have "let l = triml lib l in length l > 0 \<and> l ! 0 \<noteq> CHR ''#''" if "l \<in> set (map entry_line es)" for l
    using shape [OF that] laws(2) by (auto simp: trim_law_def Let_def)
  ultimately show ?thesis
    by (simp add: vmx_lines_def map_idI filter_id_conv)
qed

lemma parse_lines_document:
  assumes laws: "hex_law lib" "rex_law lib" and es: "list_all (\<lambda>(p, v). p \<noteq> [] \<and> names_ok p) es"
  shows "parse_lines lib (map entry_line es) = Inr (map (\<lambda>(p, v). (lowercase_ascii (join ''.'' p), v)) es, [])"
  using es
  by (induction es)
     (auto simp: entry_line_groups [OF laws(2)] remove_vmx_escapes_unescape [OF laws(1)] unescape_escape)

lemma char_lowercase_dot: "char_lowercase c = CHR ''.'' \<longleftrightarrow> c = CHR ''.''"
proof
  assume l: "char_lowercase c = CHR ''.''"
  have "\<not> (65 \<le> (of_char c :: nat) \<and> of_char c \<le> (90 :: nat))"
  proof
    assume u: "65 \<le> (of_char c :: nat) \<and> of_char c \<le> (90 :: nat)"
    have "(of_char c + 32) mod 256 = (46 :: nat)"
      using arg_cong [OF l, of "of_char :: char \<Rightarrow> nat"] u by (simp add: char_lowercase_def)
    with u show False by simp
  qed
  with l show "c = CHR ''.''" by (auto simp: char_lowercase_def)
qed (simp add: char_lowercase_def)

lemma lowercase_join: "lowercase_ascii (join sep xs) = join (lowercase_ascii sep) (lower_path xs)"
  by (induction sep xs rule: join.induct) auto

lemma nsplit_key:
  assumes "nsplit_law lib" and "names_ok p" and "p \<noteq> []"
  shows "nsplit lib ''.'' (lowercase_ascii (join ''.'' p)) = lower_path p"
proof -
  have "lowercase_ascii ''.'' = ''.''" by code_simp
  moreover have "list_all (\<lambda>x. CHR ''.'' \<notin> set x) (lower_path p)"
    using assms(2) by (auto simp: names_ok_def list_all_iff lowercase_ascii_def char_lowercase_dot image_iff eq_commute [of "CHR ''.''"])
  ultimately show ?thesis using assms by (simp add: lowercase_join nsplit_join)
qed

definition lower_entries :: "(string list \<times> string) list \<Rightarrow> (string list \<times> string) list" where
  "lower_entries es = map (\<lambda>(p, v). (lower_path p, v)) es"

lemma parse_string_document:
  assumes "nsplit_law lib" "trim_law lib" "hex_law lib" "rex_law lib"
    and es: "list_all (\<lambda>(p, v). p \<noteq> [] \<and> names_ok p) es"
  shows "parse_string lib (document es) = bindR (build_vmx (lower_entries es)) (\<lambda>(vmx, ws). Inr (drop_not_present vmx, ws))"
proof -
  have "map (\<lambda>(k, value). (nsplit lib ''.'' k, value)) (map (\<lambda>(p, v). (lowercase_ascii (join ''.'' p), v)) es) = lower_entries es"
    using es nsplit_key [OF assms(1)] by (auto simp: lower_entries_def list_all_iff)
  then show ?thesis
    by (simp add: parse_string_def vmx_lines_document [OF assms(1,2) es] parse_lines_document [OF assms(3,4) es] del: map_map)
qed

lemma parse_string_total:
  assumes "nsplit_law lib" and "hex_law lib"
  shows "\<exists>vmx ws. parse_string lib str = Inr (vmx, ws) \<and> vmx_ok vmx"
proof -
  from parse_lines_total [OF assms(2)] obtain kvs ws where k: "parse_lines lib (vmx_lines lib str) = Inr (kvs, ws)"
    "list_all (\<lambda>(k, v). lowercase_ascii k = k) kvs" by blast
  have "list_all (\<lambda>(p, v). p \<noteq> [] \<and> lower_path p = p) (map (\<lambda>(k, value). (nsplit lib ''.'' k, value)) kvs)"
    using k(2) nsplit_lower [OF assms(1)] assms(1) by (auto simp: list_all_iff nsplit_law_def)
  from build_vmx_total [OF this] k(1) vmx_ok_drop show ?thesis by (auto simp: parse_string_def)
qed

subsection \<open>Properties\<close>

text \<open>C29: the decoder of escapes. The loop over the string with its output buffer never reads or writes outside
  and returns what the recursive decoder gives; escaping a string in the VMX way and decoding it returns it.\<close>

theorem remove_vmx_escapes_correct:
  assumes "hex_law lib"
  shows "remove_vmx_escapes lib s = Inr (unescape s) \<and> remove_vmx_escapes lib (vmx_escape s) = Inr s"
  using assms by (simp add: remove_vmx_escapes_unescape unescape_escape)

fun split_at_char :: "char \<Rightarrow> string \<Rightarrow> string list" where
  "split_at_char c [] = [[]]"
| "split_at_char c (x # s) =
     (if x = c then [] # split_at_char c s
      else case split_at_char c s of p # ps \<Rightarrow> (x # p) # ps | [] \<Rightarrow> [[x]])"

definition demo_vmx_lib :: vmx_lib where
  "demo_vmx_lib =
     \<lparr>nsplit = (\<lambda>sep s. case sep of c # _ \<Rightarrow> split_at_char c s | [] \<Rightarrow> [s]),
      trimr_cr = (\<lambda>s. rev (dropWhile (\<lambda>c. c = CHR 0x0D) (rev s))), triml = dropWhile is_space,
      isxdigit = (\<lambda>c. digit_in 16 c \<noteq> None), hexdigit = (\<lambda>c. case digit_in 16 c of Some d \<Rightarrow> int d | None \<Rightarrow> 0),
      rex_groups = (\<lambda>line. let r = dropWhile key_char line
        in if take 4 r = '' = '' @ [CHR 0x22] \<and> 5 \<le> length r \<and> last r = CHR 0x22
           then Some (takeWhile key_char line, butlast (drop 4 r)) else None)\<rparr>"

lemma split_at_char_law: "split_at_char c s \<noteq> [] \<and> join [c] (split_at_char c s) = s \<and> list_all (\<lambda>x. c \<notin> set x) (split_at_char c s)"
proof (induction s)
  case (Cons x s)
  from Cons show ?case
    by (cases "split_at_char c s" rule: path_cases) auto
qed simp

lemma demo_vmx_lib_laws: "nsplit_law demo_vmx_lib" "trim_law demo_vmx_lib" "hex_law demo_vmx_lib" "rex_law demo_vmx_lib"
proof -
  show "nsplit_law demo_vmx_lib" using split_at_char_law by (simp add: nsplit_law_def demo_vmx_lib_def)
  show "trim_law demo_vmx_lib" by (simp add: trim_law_def demo_vmx_lib_def)
  show "hex_law demo_vmx_lib" by (auto simp: hex_law_def demo_vmx_lib_def split: option.splits)
  have "\<not> key_char (CHR '' '')" by code_simp
  then have "dropWhile key_char (quoted_line k v) = '' = '' @ [CHR 0x22] @ v @ [CHR 0x22] \<and> takeWhile key_char (quoted_line k v) = k"
    if "list_all key_char k" for k v
    using that by (simp add: quoted_line_def list_all_iff dropWhile_append2 takeWhile_append2)
  then show "rex_law demo_vmx_lib" by (simp add: rex_law_def demo_vmx_lib_def Let_def)
qed

theorem remove_vmx_escapes_correct_witness:
  "remove_vmx_escapes demo_vmx_lib ''a|7Cb|zz'' = Inr ''a|b|zz'' \<and> remove_vmx_escapes demo_vmx_lib (vmx_escape ''x|y'') = Inr ''x|y''"
proof -
  have "unescape ''a|7Cb|zz'' = ''a|b|zz''" by code_simp
  with remove_vmx_escapes_correct [OF demo_vmx_lib_laws(3), of "''a|7Cb|zz''"]
    remove_vmx_escapes_correct [OF demo_vmx_lib_laws(3), of "''x|y''"] show ?thesis by simp
qed

text \<open>C16: \<open>parse_string\<close> returns for every text, it raises nothing, and the tree it returns is well formed: at every
  level the names are in lower case, different and in order.\<close>

theorem parse_string_type:
  assumes "nsplit_law lib" and "hex_law lib"
  shows "\<exists>vmx ws. parse_string lib str = Inr (vmx, ws) \<and> vmx_ok vmx"
  by (rule parse_string_total [OF assms])

theorem parse_string_type_witness:
  "\<exists>vmx ws. parse_string demo_vmx_lib (''a..b = '' @ [CHR 0x22, CHR 0x0A]) = Inr (vmx, ws) \<and> vmx_ok vmx"
  by (rule parse_string_type [OF demo_vmx_lib_laws(1,3)])

text \<open>C4: the keys written to a document are the keys read back. For entries whose names are proper names in any
  case, and of which none, in lower case, is a prefix of another, \<open>parse_string\<close> gives no warning, and a
  lookup in any case finds the value of the entry with this path, unless the entry is in or below a
  namespace with an entry \<open>present\<close> that is false.\<close>

theorem parse_document_correct:
  assumes "nsplit_law lib" "trim_law lib" "hex_law lib" "rex_law lib"
    and "list_all (\<lambda>(p, v). p \<noteq> [] \<and> names_ok p) es" and "entries_ok (lower_entries es)"
  shows "\<exists>vmx. parse_string lib (document es) = Inr (vmx, []) \<and> vmx_ok vmx \<and>
    (\<forall>q. get_string vmx q =
       (if \<exists>ns. ns \<noteq> [] \<and> strict_prefix ns q \<and>
             (case map_of (lower_entries es) (lower_path ns @ [''present'']) of Some v \<Rightarrow> lowercase_ascii v = ''false'' | None \<Rightarrow> False)
        then None else map_of (lower_entries es) (lower_path q)))"
proof -
  from build_vmx_entries [OF assms(6)] obtain vmx where v: "build_vmx (lower_entries es) = Inr (vmx, [])"
    "\<And>q. get_string vmx q = map_of (lower_entries es) (lower_path q)" by blast
  have ok: "vmx_ok vmx" using build_vmx_total [of "lower_entries es"] assms(6) v(1) by (simp add: entries_ok_def)
  have "switched_off vmx ns \<longleftrightarrow>
      (case map_of (lower_entries es) (lower_path ns @ [''present'']) of Some v \<Rightarrow> lowercase_ascii v = ''false'' | None \<Rightarrow> False)" for ns
    by (simp add: switched_off_def v(2) lowercase_present)
  note g = get_string_drop [OF ok, unfolded this v(2)]
  show ?thesis
    unfolding parse_string_document [OF assms(1-5)] v(1) bindR_Inr prod.case
    by (intro exI conjI allI, rule refl, rule vmx_ok_drop [OF ok], rule g)
qed

definition demo_entries :: "(string list \<times> string) list" where
  "demo_entries = [([''memSize''], ''2048''), ([''Sound'', ''present''], ''FALSE''), ([''sound'', ''fileName''], ''a|b'')]"

theorem parse_document_correct_witness:
  "\<exists>vmx. parse_string demo_vmx_lib (document demo_entries) = Inr (vmx, []) \<and>
     get_string vmx [''sound'', ''filename''] = None \<and> get_string vmx [''MEMSIZE''] = Some ''2048''"
proof -
  have e: "list_all (\<lambda>(p, v). p \<noteq> [] \<and> names_ok p) demo_entries" "entries_ok (lower_entries demo_entries)" by code_simp+
  have 1: "[''sound''] \<noteq> [] \<and> strict_prefix [''sound''] [''sound'', ''filename''] \<and>
      (case map_of (lower_entries demo_entries) (lower_path [''sound''] @ [''present'']) of Some v \<Rightarrow> lowercase_ascii v = ''false'' | None \<Rightarrow> False)"
    by code_simp
  have 2: "map_of (lower_entries demo_entries) (lower_path [''MEMSIZE'']) = Some ''2048''" by code_simp
  from parse_document_correct [OF demo_vmx_lib_laws e] obtain vmx where v:
    "parse_string demo_vmx_lib (document demo_entries) = Inr (vmx, [])"
    "\<And>q. get_string vmx q =
       (if \<exists>ns. ns \<noteq> [] \<and> strict_prefix ns q \<and>
             (case map_of (lower_entries demo_entries) (lower_path ns @ [''present'']) of Some v \<Rightarrow> lowercase_ascii v = ''false'' | None \<Rightarrow> False)
        then None else map_of (lower_entries demo_entries) (lower_path q))" by blast
  have "get_string vmx [''sound'', ''filename''] = None" unfolding v(2) by (rule if_P, rule exI, rule 1)
  moreover have "get_string vmx [''MEMSIZE''] = Some ''2048''"
    unfolding v(2) 2 by (rule if_not_P, rule no_proper_prefix_with)
  ultimately show ?thesis using v(1) by blast
qed

end
