(* ===== verification/V2VTypes.thy ===== *)
theory V2VTypes
  imports OCamlStd
begin

section \<open>The types of the conversion (lib/types.ml)\<close>

text \<open>
  The description of the source guest, the capabilities of the converted guest and the buses of the
  target, with the functions between variants and the names used in libvirt XML, and the descriptions of
  the parts that are printed for debugging.
\<close>

datatype source_hypervisor =
    QEmu | KQemu | KVM | Xen | LXC | UML | OpenVZ | Test | VMware | HyperV | VBox | Phyp | Parallels | Bhyve
  | Physical | UnknownHV | OtherHV string

datatype source_firmware = BIOS | UEFI | UnknownFirmware

datatype s_controller = Source_IDE | Source_SATA | Source_SCSI | Source_NVME | Source_virtio_blk | Source_virtio_SCSI

record source_disk =
  s_disk_id :: int
  s_controller :: "s_controller option"

datatype s_removable_type = CDROM | Floppy

record source_removable =
  s_removable_type :: s_removable_type
  s_removable_controller :: "s_controller option"
  s_removable_slot :: "int option"

datatype s_nic_model = Source_other_nic string | Source_rtl8139 | Source_e1000 | Source_virtio_net

datatype vnet_type = Bridge | Network

record source_nic =
  s_mac :: "string option"
  s_nic_model :: "s_nic_model option"
  s_vnet :: string
  s_vnet_type :: vnet_type

datatype s_display_type = Window | VNC | Spice

datatype s_display_listen = LNoListen | LAddress string | LNetwork string | LSocket "string option" | LNone

record source_display =
  s_display_type :: s_display_type
  s_keymap :: "string option"
  s_password :: "string option"
  s_listen :: s_display_listen
  s_port :: "int option"

datatype source_sound_model = AC97 | ES1370 | ICH6 | ICH9 | PCSpeaker | SB16 | USBAudio

record source_sound =
  s_sound_model :: source_sound_model

record source_cpu_topology =
  s_cpu_sockets :: int
  s_cpu_cores :: int
  s_cpu_threads :: int

record source =
  s_hypervisor :: source_hypervisor
  s_name :: string
  s_genid :: "string option"
  s_memory :: int
  s_vcpu :: int
  s_cpu_vendor :: "string option"
  s_cpu_model :: "string option"
  s_cpu_topology :: "source_cpu_topology option"
  s_features :: "string list"
  s_firmware :: source_firmware
  s_display :: "source_display option"
  s_sound :: "source_sound option"
  s_disks :: "source_disk list"
  s_removables :: "source_removable list"
  s_nics :: "source_nic list"

datatype guestcaps_block_type = Virtio_blk | IDE
datatype guestcaps_net_type = Virtio_net | E1000 | RTL8139
datatype guestcaps_machine = I440FX | Q35 | Virt

record guestcaps =
  gcaps_block_bus :: guestcaps_block_type
  gcaps_net_bus :: guestcaps_net_type
  gcaps_virtio_rng :: bool
  gcaps_virtio_balloon :: bool
  gcaps_isa_pvpanic :: bool
  gcaps_virtio_socket :: bool
  gcaps_machine :: guestcaps_machine
  gcaps_arch :: string
  gcaps_acpi :: bool
  gcaps_virtio_1_0 :: bool

datatype target_bus_slot = BusSlotEmpty | BusSlotDisk source_disk | BusSlotRemovable source_removable

record target_buses =
  target_virtio_blk_bus :: "target_bus_slot list"
  target_ide_bus :: "target_bus_slot list"
  target_scsi_bus :: "target_bus_slot list"
  target_floppy_bus :: "target_bus_slot list"

subsection \<open>Names\<close>

fun string_of_source_hypervisor :: "source_hypervisor \<Rightarrow> string" where
  "string_of_source_hypervisor QEmu = ''qemu''"
| "string_of_source_hypervisor KQemu = ''kqemu''"
| "string_of_source_hypervisor KVM = ''kvm''"
| "string_of_source_hypervisor Xen = ''xen''"
| "string_of_source_hypervisor LXC = ''lxc''"
| "string_of_source_hypervisor UML = ''uml''"
| "string_of_source_hypervisor OpenVZ = ''openvz''"
| "string_of_source_hypervisor Test = ''test''"
| "string_of_source_hypervisor VMware = ''vmware''"
| "string_of_source_hypervisor HyperV = ''hyperv''"
| "string_of_source_hypervisor VBox = ''vbox''"
| "string_of_source_hypervisor Phyp = ''phyp''"
| "string_of_source_hypervisor Parallels = ''parallels''"
| "string_of_source_hypervisor Bhyve = ''bhyve''"
| "string_of_source_hypervisor Physical = ''physical''"
| "string_of_source_hypervisor UnknownHV = ''unknownhv''"
| "string_of_source_hypervisor (OtherHV s) = s"

definition source_hypervisor_of_string :: "string \<Rightarrow> source_hypervisor" where
  "source_hypervisor_of_string s =
     (if s = ''qemu'' then QEmu else if s = ''kqemu'' then KQemu else if s = ''kvm'' then KVM else if s = ''xen'' then Xen
      else if s = ''lxc'' then LXC else if s = ''uml'' then UML else if s = ''openvz'' then OpenVZ else if s = ''test'' then Test
      else if s = ''vmware'' then VMware else if s = ''hyperv'' then HyperV else if s = ''vbox'' then VBox
      else if s = ''phyp'' then Phyp else if s = ''parallels'' then Parallels else if s = ''bhyve'' then Bhyve
      else if s = ''physical'' then Physical else if s = ''unknownhv'' then UnknownHV else OtherHV s)"

fun string_of_nic_model :: "s_nic_model \<Rightarrow> string" where
  "string_of_nic_model Source_virtio_net = ''virtio''"
| "string_of_nic_model Source_e1000 = ''e1000''"
| "string_of_nic_model Source_rtl8139 = ''rtl8139''"
| "string_of_nic_model (Source_other_nic model) = model"

definition nic_model_of_string :: "string \<Rightarrow> s_nic_model" where
  "nic_model_of_string s =
     (if s = ''virtio'' then Source_virtio_net else if s = ''e1000'' then Source_e1000
      else if s = ''rtl8139'' then Source_rtl8139 else Source_other_nic s)"

fun string_of_source_sound_model :: "source_sound_model \<Rightarrow> string" where
  "string_of_source_sound_model AC97 = ''ac97''"
| "string_of_source_sound_model ES1370 = ''es1370''"
| "string_of_source_sound_model ICH6 = ''ich6''"
| "string_of_source_sound_model ICH9 = ''ich9''"
| "string_of_source_sound_model PCSpeaker = ''pcspk''"
| "string_of_source_sound_model SB16 = ''sb16''"
| "string_of_source_sound_model USBAudio = ''usb''"

definition source_sound_model_of_string :: "string \<Rightarrow> source_sound_model option" where
  "source_sound_model_of_string s =
     (if s = ''ac97'' then Some AC97 else if s = ''es1370'' then Some ES1370 else if s = ''ich6'' then Some ICH6
      else if s = ''ich9'' then Some ICH9 else if s = ''pcspk'' then Some PCSpeaker else if s = ''sb16'' then Some SB16
      else if s = ''usb'' then Some USBAudio else None)"

text \<open>Reading a name and printing it again is the identity, for every hypervisor, network card and sound
  card name; printing and reading gives the variant back unless it is one of the open variants
  applied to a known name.\<close>

lemma names_roundtrip:
  "string_of_source_hypervisor (source_hypervisor_of_string s) = s"
  "string_of_nic_model (nic_model_of_string s) = s"
  "source_sound_model_of_string s = Some m \<longleftrightarrow> s = string_of_source_sound_model m"
  by (auto simp: source_hypervisor_of_string_def nic_model_of_string_def)
     (cases m; auto simp: source_sound_model_of_string_def split: if_splits)+

subsection \<open>Descriptions for debugging\<close>

fun string_of_source_firmware :: "source_firmware \<Rightarrow> string" where
  "string_of_source_firmware BIOS = ''bios''"
| "string_of_source_firmware UEFI = ''uefi''"
| "string_of_source_firmware UnknownFirmware = ''unknown''"

fun string_of_controller :: "s_controller \<Rightarrow> string" where
  "string_of_controller Source_IDE = ''ide''"
| "string_of_controller Source_SATA = ''sata''"
| "string_of_controller Source_SCSI = ''scsi''"
| "string_of_controller Source_NVME = ''nvme''"
| "string_of_controller Source_virtio_blk = ''virtio-blk''"
| "string_of_controller Source_virtio_SCSI = ''virtio-scsi''"

definition string_of_source_disk :: "source_disk \<Rightarrow> string" where
  "string_of_source_disk d =
     [CHR 0x09] @ string_of_int (s_disk_id d) @
     (case s_controller d of None \<Rightarrow> [] | Some controller \<Rightarrow> '' ['' @ string_of_controller controller @ '']'')"

definition string_of_source_removable :: "source_removable \<Rightarrow> string" where
  "string_of_source_removable r =
     [CHR 0x09] @ (case s_removable_type r of CDROM \<Rightarrow> ''CD-ROM'' | Floppy \<Rightarrow> ''Floppy'') @
     (case s_removable_controller r of None \<Rightarrow> [] | Some controller \<Rightarrow> '' ['' @ string_of_controller controller @ '']'') @
     (case s_removable_slot r of None \<Rightarrow> [] | Some i \<Rightarrow> '' in slot '' @ string_of_int i)"

fun string_of_vnet_type :: "vnet_type \<Rightarrow> string" where
  "string_of_vnet_type Bridge = ''Bridge''"
| "string_of_vnet_type Network = ''Network''"

definition string_of_source_nic :: "source_nic \<Rightarrow> string" where
  "string_of_source_nic nic =
     [CHR 0x09] @ string_of_vnet_type (s_vnet_type nic) @ '' '' @ [CHR 0x22] @ s_vnet nic @ [CHR 0x22] @
     (case s_mac nic of None \<Rightarrow> [] | Some mac \<Rightarrow> '' mac: '' @ mac) @
     (case s_nic_model nic of None \<Rightarrow> [] | Some model \<Rightarrow> '' ['' @ string_of_nic_model model @ '']'')"

definition string_of_source_display :: "source_display \<Rightarrow> string" where
  "string_of_source_display d =
     (case s_display_type d of Window \<Rightarrow> ''window'' | VNC \<Rightarrow> ''vnc'' | Spice \<Rightarrow> ''spice'') @
     (case s_keymap d of None \<Rightarrow> [] | Some km \<Rightarrow> '' '' @ km) @
     (case s_password d of None \<Rightarrow> [] | Some _ \<Rightarrow> '' with password'') @
     (case s_listen d of
        LNoListen \<Rightarrow> []
      | LAddress a \<Rightarrow> '' listening on address '' @ a
      | LNetwork n \<Rightarrow> '' listening on network '' @ n
      | LSocket (Some s) \<Rightarrow> '' listening on Unix domain socket '' @ s
      | LSocket None \<Rightarrow> '' listening on automatically created Unix domain socket''
      | LNone \<Rightarrow> '' listening on private fd'')"

definition string_of_source_sound :: "source_sound \<Rightarrow> string" where
  "string_of_source_sound s = string_of_source_sound_model (s_sound_model s)"

definition string_of_source_cpu_topology :: "source_cpu_topology \<Rightarrow> string" where
  "string_of_source_cpu_topology t =
     ''sockets: '' @ string_of_int (s_cpu_sockets t) @ '' cores/socket: '' @ string_of_int (s_cpu_cores t) @
     '' threads/core: '' @ string_of_int (s_cpu_threads t)"

fun string_of_block_type :: "guestcaps_block_type \<Rightarrow> string" where
  "string_of_block_type Virtio_blk = ''virtio-blk''"
| "string_of_block_type IDE = ''ide''"

fun string_of_net_type :: "guestcaps_net_type \<Rightarrow> string" where
  "string_of_net_type Virtio_net = ''virtio-net''"
| "string_of_net_type E1000 = ''e1000''"
| "string_of_net_type RTL8139 = ''rtl8139''"

fun string_of_machine :: "guestcaps_machine \<Rightarrow> string" where
  "string_of_machine I440FX = ''i440fx''"
| "string_of_machine Q35 = ''q35''"
| "string_of_machine Virt = ''virt''"

definition string_of_target_bus_slots :: "string \<Rightarrow> target_bus_slot list \<Rightarrow> string" where
  "string_of_target_bus_slots bus_name slots =
     concat (map (\<lambda>(slot_nr, slot).
       bus_name @ '' slot '' @ string_of_int (int slot_nr) @ '':'' @ [CHR 0x0A] @
       (case slot of
          BusSlotEmpty \<Rightarrow> [CHR 0x09] @ ''(slot empty)'' @ [CHR 0x0A]
        | BusSlotDisk d \<Rightarrow> string_of_source_disk d
        | BusSlotRemovable r \<Rightarrow> string_of_source_removable r @ [CHR 0x0A])) (zip [0..<length slots] slots))"

definition string_of_target_buses :: "target_buses \<Rightarrow> string" where
  "string_of_target_buses buses =
     string_of_target_bus_slots ''virtio-blk'' (target_virtio_blk_bus buses) @
     string_of_target_bus_slots ''ide'' (target_ide_bus buses) @
     string_of_target_bus_slots ''scsi'' (target_scsi_bus buses)"

text \<open>The description of the buses does not depend on the floppy bus.\<close>

lemma target_buses_floppy_lost:
  "string_of_target_buses (b\<lparr>target_floppy_bus := slots\<rparr>) = string_of_target_buses b"
  by (simp add: string_of_target_buses_def)


subsection \<open>The guest, its inspection, overlays and targets\<close>

fun string_concat :: "string \<Rightarrow> string list \<Rightarrow> string" where
  "string_concat sep [] = []"
| "string_concat sep [s] = s"
| "string_concat sep (s # t # ts) = s @ sep @ string_concat sep (t # ts)"

definition option_default :: "'a \<Rightarrow> 'a option \<Rightarrow> 'a" where
  "option_default d x = (case x of None \<Rightarrow> d | Some y \<Rightarrow> y)"

definition nl :: string where
  "nl = [CHR 0x0A]"

definition string_of_source :: "source \<Rightarrow> string" where
  "string_of_source s =
     ''    source name: '' @ s_name s @ nl @
     ''hypervisor type: '' @ string_of_source_hypervisor (s_hypervisor s) @ nl @
     ''       VM genid: '' @ option_default '''' (s_genid s) @ nl @
     ''         memory: '' @ string_of_int (s_memory s) @ '' (bytes)'' @ nl @
     ''       nr vCPUs: '' @ string_of_int (s_vcpu s) @ nl @
     ''     CPU vendor: '' @ option_default '''' (s_cpu_vendor s) @ nl @
     ''      CPU model: '' @ option_default '''' (s_cpu_model s) @ nl @
     ''   CPU topology: '' @ (case s_cpu_topology s of None \<Rightarrow> '''' | Some topology \<Rightarrow> string_of_source_cpu_topology topology) @ nl @
     ''   CPU features: '' @ string_concat '','' (sort (s_features s)) @ nl @
     ''       firmware: '' @ string_of_source_firmware (s_firmware s) @ nl @
     ''        display: '' @ (case s_display s of None \<Rightarrow> '''' | Some display \<Rightarrow> string_of_source_display display) @ nl @
     ''          sound: '' @ (case s_sound s of None \<Rightarrow> '''' | Some sound \<Rightarrow> string_of_source_sound sound) @ nl @
     ''disks:'' @ nl @ string_concat nl (map string_of_source_disk (s_disks s)) @ nl @
     ''removable media:'' @ nl @ string_concat nl (map string_of_source_removable (s_removables s)) @ nl @
     ''NICs:'' @ nl @ string_concat nl (map string_of_source_nic (s_nics s)) @ nl"

datatype i_firmware = I_BIOS | I_UEFI "string list"

text \<open>The records of applications come from libguestfs and are a type parameter.\<close>

record 'app inspect =
  i_root :: string
  i_type :: string
  i_distro :: string
  i_osinfo :: string
  i_arch :: string
  i_major_version :: int
  i_minor_version :: int
  i_package_format :: string
  i_package_management :: string
  i_product_name :: string
  i_product_variant :: string
  i_mountpoints :: "(string \<times> string) list"
  i_apps :: "'app list"
  i_apps_map :: "'app list string_map"
  i_firmware :: i_firmware
  i_windows_systemroot :: string
  i_windows_software_hive :: string
  i_windows_system_hive :: string
  i_windows_current_control_set :: string

definition string_of_inspect :: "'app inspect \<Rightarrow> string" where
  "string_of_inspect i =
     ''i_root = '' @ i_root i @ nl @
     ''i_type = '' @ i_type i @ nl @
     ''i_distro = '' @ i_distro i @ nl @
     ''i_osinfo = '' @ i_osinfo i @ nl @
     ''i_arch = '' @ i_arch i @ nl @
     ''i_major_version = '' @ string_of_int (i_major_version i) @ nl @
     ''i_minor_version = '' @ string_of_int (i_minor_version i) @ nl @
     ''i_package_format = '' @ i_package_format i @ nl @
     ''i_package_management = '' @ i_package_management i @ nl @
     ''i_product_name = '' @ i_product_name i @ nl @
     ''i_product_variant = '' @ i_product_variant i @ nl @
     ''i_firmware = '' @ (case i_firmware i of I_BIOS \<Rightarrow> ''BIOS'' | I_UEFI devices \<Rightarrow> ''UEFI ['' @ string_concat '', '' devices @ '']'') @ nl @
     ''i_windows_systemroot = '' @ i_windows_systemroot i @ nl @
     ''i_windows_software_hive = '' @ i_windows_software_hive i @ nl @
     ''i_windows_system_hive = '' @ i_windows_system_hive i @ nl @
     ''i_windows_current_control_set = '' @ i_windows_current_control_set i @ nl"

record disk_stats =
  target_actual_size :: "int option"

record overlay =
  ov_overlay_file :: string
  ov_sd :: string
  ov_virtual_size :: int
  ov_source :: source_disk
  ov_stats :: disk_stats

definition string_of_overlay :: "overlay \<Rightarrow> string" where
  "string_of_overlay ov =
     ''             overlay file: '' @ ov_overlay_file ov @ nl @
     ''      overlay device name: '' @ ov_sd ov @ nl @
     ''overlay virtual disk size: '' @ string_of_int (ov_virtual_size ov) @ nl @
     ''       target actual size: '' @ (case target_actual_size (ov_stats ov) of None \<Rightarrow> ''None'' | Some i \<Rightarrow> string_of_int i) @ nl"

datatype target_file = TargetFile string | TargetURI string

record target =
  target_file :: target_file
  target_format :: string
  target_overlay :: overlay

definition string_of_target :: "target \<Rightarrow> string" where
  "string_of_target t =
     ''          target file: '' @ (case target_file t of TargetFile s \<Rightarrow> ''[file] '' @ s | TargetURI s \<Rightarrow> ''[qemu] '' @ s) @ nl @
     ''        target format: '' @ target_format t @ nl"

datatype target_firmware = TargetBIOS | TargetUEFI

fun string_of_target_firmware :: "target_firmware \<Rightarrow> string" where
  "string_of_target_firmware TargetBIOS = ''bios''"
| "string_of_target_firmware TargetUEFI = ''uefi''"

type_synonym target_nics = "source_nic list"

definition string_of_bool :: "bool \<Rightarrow> string" where
  "string_of_bool b = (if b then ''true'' else ''false'')"

definition string_of_guestcaps :: "guestcaps \<Rightarrow> string" where
  "string_of_guestcaps gcaps =
     ''gcaps_block_bus = '' @ string_of_block_type (gcaps_block_bus gcaps) @ nl @
     ''gcaps_net_bus = '' @ string_of_net_type (gcaps_net_bus gcaps) @ nl @
     ''gcaps_virtio_rng = '' @ string_of_bool (gcaps_virtio_rng gcaps) @ nl @
     ''gcaps_virtio_balloon = '' @ string_of_bool (gcaps_virtio_balloon gcaps) @ nl @
     ''gcaps_isa_pvpanic = '' @ string_of_bool (gcaps_isa_pvpanic gcaps) @ nl @
     ''gcaps_virtio_socket = '' @ string_of_bool (gcaps_virtio_socket gcaps) @ nl @
     ''gcaps_machine = '' @ string_of_machine (gcaps_machine gcaps) @ nl @
     ''gcaps_arch = '' @ gcaps_arch gcaps @ nl @
     ''gcaps_acpi = '' @ string_of_bool (gcaps_acpi gcaps) @ nl @
     ''gcaps_virtio_1_0 = '' @ string_of_bool (gcaps_virtio_1_0 gcaps) @ nl"

record target_meta =
  tm_guestcaps :: guestcaps
  tm_target_buses :: target_buses
  tm_target_firmware :: target_firmware
  tm_target_nics :: target_nics

datatype root_choice = AskRoot | SingleRoot | FirstRoot | RootDev string

datatype output_allocation = Sparse | Preallocated

datatype bandwidth = StaticBandwidth string | DynamicBandwidth "string option" string


end
