(* ===== verification/DomainFromVmx.thy ===== *)
theory DomainFromVmx
  imports ParseVmx V2VTypes "HOL-Library.Product_Lexorder" "HOL-Library.Option_ord"
begin

section \<open>From a VMX tree to the source guest (input/parse_domain_from_vmx.ml, input/name_from_disk.ml)\<close>

text \<open>
  The guest description is read off the tree of \<open>ParseVmx\<close>. Fetching the file (a local file or \<open>scp\<close>) is not
  modelled; \<open>Xml.parse_uri\<close> is a parameter. OCaml's \<open>compare\<close> on the tuples and records that are sorted is the
  lexicographic order of their components.
\<close>

subsection \<open>Where the file is\<close>

record xml_uri =
  uri_scheme :: "string option"
  uri_user :: "string option"
  uri_server :: "string option"
  uri_port :: int
  uri_path :: "string option"

datatype vmx_source = File string | SSH xml_uri

datatype input_transport = Transport_SSH

definition vmx_source_of_arg :: "(string \<Rightarrow> xml_uri oc) \<Rightarrow> input_transport option \<Rightarrow> string \<Rightarrow> vmx_source oc" where
  "vmx_source_of_arg parse_uri transport arg =
     (case transport of
        None \<Rightarrow> Inr (File arg)
      | Some Transport_SSH \<Rightarrow>
          bindR (case parse_uri arg of
                   Inl (OInvalid_argument _) \<Rightarrow> Inl (OError ''remote vmx could not be parsed as a URI'')
                 | Inl e \<Rightarrow> Inl e
                 | Inr uri \<Rightarrow> Inr uri) (\<lambda>uri.
          if uri_scheme uri \<noteq> None \<and> uri_scheme uri \<noteq> Some ''ssh'' then Inl (OError ''vmx URI start with ssh://...'')
          else if uri_server uri = None then Inl (OError ''vmx URI remote server name omitted'')
          else if uri_path uri = None \<or> uri_path uri = Some ''/'' then Inl (OError ''vmx URI path component looks incorrect'')
          else Inr (SSH uri)))"

definition port_of_uri :: "xml_uri \<Rightarrow> int option" where
  "port_of_uri uri = (if uri_port uri \<le> 0 then None else Some (uri_port uri))"

definition server_of_uri :: "xml_uri \<Rightarrow> string oc" where
  "server_of_uri uri = (case uri_server uri of None \<Rightarrow> Inl OAssert_failure | Some s \<Rightarrow> Inr s)"

definition path_of_uri :: "xml_uri \<Rightarrow> string oc" where
  "path_of_uri uri = (case uri_path uri of None \<Rightarrow> Inl OAssert_failure | Some p \<Rightarrow> Inr p)"

subsection \<open>The name of a guest without a name\<close>

text \<open>\<open>Filename.basename\<close>, \<open>check_suffix\<close> and \<open>chop_suffix\<close>\<close>

definition basename :: "string \<Rightarrow> string" where
  "basename name =
     (if name = [] then ''.''
      else let r = dropWhile (\<lambda>c. c = CHR ''/'') (rev name)
           in if r = [] then take 1 name else rev (takeWhile (\<lambda>c. c \<noteq> CHR ''/'') r))"

definition check_suffix :: "string \<Rightarrow> string \<Rightarrow> bool" where
  "check_suffix name suff \<longleftrightarrow> length suff \<le> length name \<and> drop (length name - length suff) name = suff"

definition chop_suffix :: "string \<Rightarrow> string \<Rightarrow> string oc" where
  "chop_suffix name suff =
     (if check_suffix name suff then Inr (take (length name - length suff) name) else Inl (OInvalid_argument ''Filename.chop_suffix''))"

definition disk_suffixes :: "string list" where
  "disk_suffixes = [''.img'', ''.ova'', ''.qcow2'', ''.raw'', ''.vmdk'', ''.vmx'', ''-sda'']"

fun name_from_disk_loop :: "string \<Rightarrow> string list \<Rightarrow> string oc" where
  "name_from_disk_loop name (suff # xs) = (if check_suffix name suff then chop_suffix name suff else name_from_disk_loop name xs)"
| "name_from_disk_loop name [] = Inr name"

definition name_from_disk :: "string \<Rightarrow> string oc" where
  "name_from_disk disk =
     bindR (name_from_disk_loop (basename disk) disk_suffixes) (\<lambda>name.
     if name = [] then Inl (OError ''invalid input filename'') else Inr name)"

subsection \<open>Scanning names\<close>

text \<open>\<open>Scanf\<close>: characters of the format match themselves; \<open>%d\<close> reads a sign, a digit, and digits and underscores,
  and the number has to fit 63 bits. What follows the last conversion is not looked at. Every failure is
  caught by the callers or is the exception of \<open>scan_error\<close>.\<close>

fun scan_digits :: "nat \<Rightarrow> string \<Rightarrow> nat \<times> string" where
  "scan_digits acc [] = (acc, [])"
| "scan_digits acc (c # s) =
     (if c = CHR ''_'' then scan_digits acc s
      else case digit_in 10 c of Some d \<Rightarrow> scan_digits (acc * 10 + d) s | None \<Rightarrow> (acc, c # s))"

definition scan_d :: "string \<Rightarrow> (int \<times> string) option" where
  "scan_d s =
     (case parse_sign s of
        (neg, []) \<Rightarrow> None
      | (neg, c # t) \<Rightarrow>
          (case digit_in 10 c of
             None \<Rightarrow> None
           | Some d \<Rightarrow>
               (case scan_digits d t of
                  (n, rest) \<Rightarrow>
                    if (if neg then int n \<le> 2 ^ 62 else int n < 2 ^ 62) then Some (if neg then - int n else int n, rest) else None)))"

fun scan_chars :: "string \<Rightarrow> string \<Rightarrow> string option" where
  "scan_chars [] s = Some s"
| "scan_chars (f # fs) (c # s) = (if c = f then scan_chars fs s else None)"
| "scan_chars (f # fs) [] = None"

text \<open>\<open>sscanf ns "scsi%d:%d"\<close> and its like, and \<open>sscanf ns "ethernet%d"\<close>\<close>

definition scan_controller_target :: "string \<Rightarrow> string \<Rightarrow> (int \<times> int) option" where
  "scan_controller_target prefix ns =
     Option.bind (scan_chars prefix ns) (\<lambda>s.
     Option.bind (scan_d s) (\<lambda>(c, s).
     Option.bind (scan_chars '':'' s) (\<lambda>s.
     Option.bind (scan_d s) (\<lambda>(t, _). Some (c, t)))))"

definition get_ethernet_port :: "string \<Rightarrow> int option" where
  "get_ethernet_port ns = Option.bind (scan_chars ''ethernet'' ns) (\<lambda>s. Option.bind (scan_d s) (\<lambda>(p, _). Some p))"

definition scan_result :: "'a option \<Rightarrow> 'a oc" where
  "scan_result x = (case x of None \<Rightarrow> Inl (OFailure ''scanf'') | Some a \<Rightarrow> Inr a)"

subsection \<open>Disks\<close>

text \<open>\<open>List.filter_map identity (Parse_vmx.map f vmx)\<close> for a function that may raise\<close>

fun collect :: "'a option oc list \<Rightarrow> 'a list oc" where
  "collect [] = Inr []"
| "collect (x # xs) =
     bindR x (\<lambda>y. bindR (collect xs) (\<lambda>ys. Inr (case y of None \<Rightarrow> ys | Some z \<Rightarrow> z # ys)))"

definition find_hdds ::
  "vmx \<Rightarrow> (string \<Rightarrow> (int \<times> int) option) \<Rightarrow> string option list \<Rightarrow> s_controller \<Rightarrow> (source_disk \<times> string) list oc" where
  "find_hdds vmx controller_target device_types controller =
     (let hdds = select_namespaces (\<lambda>path.
            case path of
              [ns] \<Rightarrow>
                if controller_target ns = None then False
                else let dt = map_option lowercase_ascii (get_string vmx [ns, ''deviceType'']) in dt \<in> set device_types
            | _ \<Rightarrow> False) vmx
      in bindR (collect (map_vmx (\<lambda>path v.
            case (path, v) of
              ([ns, f], Some filename) \<Rightarrow>
                if f = ''filename''
                then bindR (scan_result (controller_target ns)) (\<lambda>(c, t).
                     Inr (Some (c, t, \<lparr>s_disk_id = - 1, s_controller = Some controller\<rparr>, filename)))
                else Inr None
            | _ \<Rightarrow> Inr None) hdds)) (\<lambda>hdds.
         let hdds = sort_key (\<lambda>(c, t, _, filename). (c, t, filename)) hdds;
             hdds = map (\<lambda>(_, _, source, filename). (source, filename)) hdds
         in Inr (map (\<lambda>(i, source, filename). (source\<lparr>s_disk_id := int i\<rparr>, filename)) (zip [0..<length hdds] hdds))))"

definition find_scsi_disks :: "vmx \<Rightarrow> (source_disk \<times> string) list oc" where
  "find_scsi_disks vmx =
     find_hdds vmx (scan_controller_target ''scsi'')
       [Some ''disk'', Some ''plaindisk'', Some ''rawdisk'', Some ''scsi-harddisk'', None] Source_SCSI"

definition find_nvme_disks :: "vmx \<Rightarrow> (source_disk \<times> string) list oc" where
  "find_nvme_disks vmx = find_hdds vmx (scan_controller_target ''nvme'') [None] Source_NVME"

definition find_ide_disks :: "vmx \<Rightarrow> (source_disk \<times> string) list oc" where
  "find_ide_disks vmx = find_hdds vmx (scan_controller_target ''ide'') [Some ''ata-harddisk''] Source_IDE"

definition find_disks :: "vmx \<Rightarrow> (source_disk \<times> string) list oc" where
  "find_disks vmx =
     bindR (find_scsi_disks vmx) (\<lambda>scsi. bindR (find_nvme_disks vmx) (\<lambda>nvme. bindR (find_ide_disks vmx) (\<lambda>ide.
     Inr (scsi @ nvme @ ide))))"

subsection \<open>Removable disks and network cards\<close>

definition ide_slot :: "int \<Rightarrow> int \<Rightarrow> int" where
  "ide_slot c t = wrap_int 63 (c * 2 + t)"

definition cdrom_types :: "string list" where
  "cdrom_types = [''atapi-cdrom'', ''cdrom-image'', ''cdrom-raw'']"

definition find_removables :: "vmx \<Rightarrow> source_removable list oc" where
  "find_removables vmx =
     (let controller_target = scan_controller_target ''ide'';
          devs = select_namespaces (\<lambda>path.
            case path of
              [ns] \<Rightarrow>
                if controller_target ns = None then False
                else (case get_string vmx [ns, ''deviceType''] of
                        Some str \<Rightarrow> lowercase_ascii str \<in> set cdrom_types
                      | None \<Rightarrow> False)
            | _ \<Rightarrow> False) vmx
      in bindR (collect (map_vmx (\<lambda>path v.
            case (path, v) of
              ([ns], None) \<Rightarrow>
                bindR (scan_result (controller_target ns)) (\<lambda>(c, t).
                Inr (Some \<lparr>s_removable_type = CDROM, s_removable_controller = Some Source_IDE, s_removable_slot = Some (ide_slot c t)\<rparr>))
            | _ \<Rightarrow> Inr None) devs)) (\<lambda>devs.
         Inr (sort_key s_removable_slot devs)))"

text \<open>The order of \<open>compare\<close>: constant constructors by their position, before the others; records by their fields.\<close>

definition nic_model_key :: "s_nic_model \<Rightarrow> nat \<times> string" where
  "nic_model_key m =
     (case m of Source_rtl8139 \<Rightarrow> (0, []) | Source_e1000 \<Rightarrow> (1, []) | Source_virtio_net \<Rightarrow> (2, []) | Source_other_nic s \<Rightarrow> (3, s))"

definition nic_key :: "int \<times> source_nic \<Rightarrow> int \<times> string option \<times> (nat \<times> string) option \<times> string \<times> bool" where
  "nic_key = (\<lambda>(port, nic). (port, s_mac nic, map_option nic_model_key (s_nic_model nic), s_vnet nic, s_vnet_type nic = Network))"

definition nic_of_namespace :: "vmx \<Rightarrow> string \<Rightarrow> source_nic" where
  "nic_of_namespace vmx ns =
     \<lparr>s_mac = get_string vmx [ns, ''generatedAddress''],
      s_nic_model = (case get_string vmx [ns, ''virtualDev''] of
        Some m \<Rightarrow> if lowercase_ascii m = ''e1000'' then Some Source_e1000 else Some (Source_other_nic (lowercase_ascii m))
      | None \<Rightarrow> None),
      s_vnet = (case get_string vmx [ns, ''networkName''] of Some vnet \<Rightarrow> vnet | None \<Rightarrow> ns),
      s_vnet_type = (case get_string vmx [ns, ''connectionType''] of
        Some b \<Rightarrow> if lowercase_ascii b = ''bridged'' then Bridge else Network
      | None \<Rightarrow> Network)\<rparr>"

definition find_nics :: "vmx \<Rightarrow> source_nic list oc" where
  "find_nics vmx =
     (let nics = select_namespaces (\<lambda>path. case path of [ns] \<Rightarrow> get_ethernet_port ns \<noteq> None | _ \<Rightarrow> False) vmx
      in bindR (collect (map_vmx (\<lambda>path v.
            case (path, v) of
              ([ns], None) \<Rightarrow>
                bindR (scan_result (get_ethernet_port ns)) (\<lambda>port. Inr (Some (port, nic_of_namespace vmx ns)))
            | _ \<Rightarrow> Inr None) nics)) (\<lambda>nics.
         Inr (map snd (sort_key nic_key nics))))"

subsection \<open>The guest\<close>

text \<open>\<open>sprintf "%016Lx"\<close>: sixteen hexadecimal digits of the number as unsigned; \<open>String.sub\<close> with a start and a length\<close>

definition hex_lower :: "nat \<Rightarrow> char" where
  "hex_lower d = (if d < 10 then char_of (48 + d) else char_of (87 + d))"

definition hex016 :: "int \<Rightarrow> string" where
  "hex016 i = map (\<lambda>k. hex_lower (nat (i mod 2 ^ 64) div 16 ^ (15 - k) mod 16)) [0..<16]"

definition genid_uuid :: "int \<Rightarrow> int \<Rightarrow> string" where
  "genid_uuid lo hi =
     (let s = hex016 lo @ hex016 hi; sub = (\<lambda>pos len. take len (drop pos s))
      in sub 8 8 @ ''-'' @ sub 4 4 @ ''-'' @ sub 0 4 @ ''-'' @ sub 30 2 @ sub 28 2 @ ''-'' @
         sub 26 2 @ sub 24 2 @ sub 22 2 @ sub 20 2 @ sub 18 2 @ sub 16 2)"

definition genid_of_vmx :: "vmx \<Rightarrow> string option oc" where
  "genid_of_vmx vmx =
     bindR (get_int64 vmx [''vm'', ''genid'']) (\<lambda>genid_lo. bindR (get_int64 vmx [''vm'', ''genidX'']) (\<lambda>genid_hi.
     Inr (case (genid_lo, genid_hi) of (Some lo, Some hi) \<Rightarrow> Some (genid_uuid lo hi) | _ \<Rightarrow> None)))"

datatype domain_warning = No_display_name | Invalid_cores_per_socket | Unknown_firmware string | Unknown_sound string

text \<open>OCaml's division truncates towards zero and raises on a divisor of zero.\<close>

definition ocaml_div :: "int \<Rightarrow> int \<Rightarrow> int oc" where
  "ocaml_div a b = (if b = 0 then Inl ODivision_by_zero else Inr (wrap_int 63 (sgn a * sgn b * (\<bar>a\<bar> div \<bar>b\<bar>))))"

definition cpu_topology_of_vmx :: "vmx \<Rightarrow> int \<Rightarrow> (source_cpu_topology option \<times> domain_warning list) oc" where
  "cpu_topology_of_vmx vmx vcpu =
     bindR (get_int vmx [''cpuid'', ''coresPerSocket'']) (\<lambda>c.
     case c of
       None \<Rightarrow> Inr (None, [])
     | Some cores_per_socket \<Rightarrow>
         bindR (ocaml_div vcpu cores_per_socket) (\<lambda>sockets.
         if sockets \<le> 0 then Inr (None, [Invalid_cores_per_socket])
         else Inr (Some \<lparr>s_cpu_sockets = sockets, s_cpu_cores = cores_per_socket, s_cpu_threads = 1\<rparr>, [])))"

definition firmware_of_vmx :: "vmx \<Rightarrow> source_firmware \<times> domain_warning list" where
  "firmware_of_vmx vmx =
     (case get_string vmx [''firmware''] of
        None \<Rightarrow> (BIOS, [])
      | Some fw \<Rightarrow> if fw = ''efi'' then (UEFI, []) else (BIOS, [Unknown_firmware fw]))"

definition sound_of_vmx :: "vmx \<Rightarrow> source_sound option \<times> domain_warning list" where
  "sound_of_vmx vmx =
     (case get_string vmx [''sound'', ''virtualDev''] of
        None \<Rightarrow> (None, [])
      | Some model \<Rightarrow>
          if model = ''sb16'' then (Some \<lparr>s_sound_model = SB16\<rparr>, [])
          else if model = ''es1371'' then (Some \<lparr>s_sound_model = ES1370\<rparr>, [])
          else if model = ''hdaudio'' then (Some \<lparr>s_sound_model = ICH6\<rparr>, [])
          else (None, [Unknown_sound model]))"

definition name_of_vmx :: "vmx_source \<Rightarrow> vmx \<Rightarrow> (string \<times> domain_warning list) oc" where
  "name_of_vmx vmx_source vmx =
     (case get_string vmx [''displayName''] of
        Some s \<Rightarrow> Inr (s, [])
      | None \<Rightarrow>
          bindR (case vmx_source of File filename \<Rightarrow> name_from_disk filename | SSH uri \<Rightarrow> bindR (path_of_uri uri) name_from_disk)
            (\<lambda>name. Inr (name, [No_display_name])))"

definition memory_of_vmx :: "vmx \<Rightarrow> int oc" where
  "memory_of_vmx vmx =
     bindR (get_int64 vmx [''memSize'']) (\<lambda>m.
     let memory_mb = (case m of None \<Rightarrow> 32 | Some i \<Rightarrow> i)
     in Inr (wrap_int 64 (wrap_int 64 (memory_mb * 1024) * 1024)))"

definition domain_of_vmx :: "vmx_source \<Rightarrow> vmx \<Rightarrow> (source \<times> string list \<times> domain_warning list) oc" where
  "domain_of_vmx vmx_source vmx =
     bindR (name_of_vmx vmx_source vmx) (\<lambda>(name, w1).
     bindR (genid_of_vmx vmx) (\<lambda>genid.
     bindR (memory_of_vmx vmx) (\<lambda>memory.
     bindR (get_int vmx [''numvcpus'']) (\<lambda>v.
     let vcpu = (case v of None \<Rightarrow> 1 | Some i \<Rightarrow> i)
     in bindR (cpu_topology_of_vmx vmx vcpu) (\<lambda>(cpu_topology, w2).
        case firmware_of_vmx vmx of
          (firmware, w3) \<Rightarrow>
            (case sound_of_vmx vmx of
               (sound, w4) \<Rightarrow>
                 bindR (find_disks vmx) (\<lambda>disks. bindR (find_removables vmx) (\<lambda>removables. bindR (find_nics vmx) (\<lambda>nics.
                 Inr (\<lparr>s_hypervisor = VMware, s_name = name, s_genid = genid, s_memory = memory, s_vcpu = vcpu,
                       s_cpu_vendor = None, s_cpu_model = None, s_cpu_topology = cpu_topology, s_features = [],
                       s_firmware = firmware, s_display = None, s_sound = sound, s_disks = map fst disks,
                       s_removables = removables, s_nics = nics\<rparr>,
                      map snd disks, w1 @ w2 @ w3 @ w4))))))))))"

end
