(* ===== verification/VmxDomain.thy ===== *)
theory VmxDomain
  imports DomainFromVmx VmxTree
begin

section \<open>What is read from a VMX tree\<close>

text \<open>
  The disks, removable disks and network cards found are exactly those of the tree, in order; the disk numbers,
  the processor topology, the generation ID and the name of a guest.
\<close>

subsection \<open>Selecting top-level namespaces\<close>

lemma collect_map:
  "(\<And>x. x \<in> set es \<Longrightarrow> f x = Inr (g x)) \<Longrightarrow> collect (map f es) = Inr (List.map_filter g es)"
  by (induction es) (auto simp: List.map_filter_simps split: option.splits)

lemma select_key_none:
  assumes "vmx_ok vmx" and "\<And>p. p \<noteq> [] \<Longrightarrow> \<not> pred (path @ p)"
  shows "select_namespaces_at path pred vmx = []"
  using assms
proof (induction vmx arbitrary: path rule: vmx_induct)
  case (tree vmx)
  have "select_key path pred k v = None" if "map_of vmx k = Some v" for k v
  proof (cases v)
    case (Namespace t)
    have "select_namespaces_at (path @ [k]) pred t = []"
      using that Namespace tree.prems by (intro tree.IH) (auto intro: vmx_ok_namespace)
    with Namespace tree.prems(2) show ?thesis by (simp add: select_key_def)
  qed (simp add: select_key_def)
  then have "map_of (select_namespaces_at path pred vmx) k = None" for k
    by (cases "map_of vmx k") (simp_all add: find_select vmx_ok_smap tree.prems)
  then show ?case by (cases "select_namespaces_at path pred vmx") (auto, metis option.distinct(1))
qed

lemma entry_at_select:
  assumes "vmx_ok vmx" and "\<And>p. length p \<noteq> 1 \<Longrightarrow> \<not> pred p"
  shows "entry_at (select_namespaces pred vmx) [ns] None \<longleftrightarrow> pred [lowercase_ascii ns] \<and> namespace_present vmx [ns]"
    and "entry_at (select_namespaces pred vmx) [ns, k] (Some s) \<longleftrightarrow> pred [lowercase_ascii ns] \<and> get_string vmx [ns, k] = Some s"
proof -
  have "select_namespaces_at [k] pred t = []" if "vmx_ok t" for k t
    using that assms(2) by (intro select_key_none) auto
  then show "entry_at (select_namespaces pred vmx) [ns] None \<longleftrightarrow> pred [lowercase_ascii ns] \<and> namespace_present vmx [ns]"
    using vmx_ok_namespace [OF assms(1)]
    by (auto simp: select_namespaces_def find_select vmx_ok_smap assms(1) select_key_def Let_def bind_eq_Some_conv
        split: option.splits key.splits if_splits)
  have "(\<exists>n. n \<noteq> [] \<and> strict_prefix n [ns, k] \<and> pred (lower_path n)) \<longleftrightarrow> pred [lowercase_ascii ns]"
    unfolding ex_proper_prefix_Cons using no_proper_prefix_with [of k] by auto
  then show "entry_at (select_namespaces pred vmx) [ns, k] (Some s) \<longleftrightarrow> pred [lowercase_ascii ns] \<and> get_string vmx [ns, k] = Some s"
    using get_string_select [OF assms(1), of "[]" pred "[ns, k]"]
    by (auto simp: entry_at_def select_namespaces_def simp del: get_string.simps)
qed

text \<open>The traversal of a selection: a list of different entries, in the order of the paths.\<close>

lemma traverse:
  assumes "vmx_ok vmx"
  obtains es where "\<And>f. map_vmx f vmx = map (\<lambda>(p, v). f p v) es" and "distinct es"
    and "\<And>p v. (p, v) \<in> set es \<longleftrightarrow> lower_path p = p \<and> entry_at vmx p v"
proof
  show "map_vmx f vmx = map (\<lambda>(p, v). f p v) (map_vmx_at [] Pair vmx)" for f :: "string list \<Rightarrow> string option \<Rightarrow> 'b"
    using map_vmx_at_map [of "[]" f vmx] by (simp add: map_vmx_def)
  have "distinct (map fst (map_vmx_at [] Pair vmx))"
    using map_vmx_at_sorted [OF assms, of "[]"] by (simp add: strict_sorted_iff)
  then show "distinct (map_vmx_at [] Pair vmx)" by (simp add: distinct_map)
  show "(p, v) \<in> set (map_vmx_at [] Pair vmx) \<longleftrightarrow> lower_path p = p \<and> entry_at vmx p v" for p v
    using map_vmx_at_set [OF assms, of p v "[]"] by simp
qed

lemma set_map_filter: "set (List.map_filter g xs) = {y. \<exists>x\<in>set xs. g x = Some y}"
  by (induction xs) (auto simp: List.map_filter_simps split: option.splits)

lemma distinct_map_filter:
  "distinct xs \<Longrightarrow> (\<And>x y z. x \<in> set xs \<Longrightarrow> y \<in> set xs \<Longrightarrow> g x = Some z \<Longrightarrow> g y = Some z \<Longrightarrow> x = y) \<Longrightarrow> distinct (List.map_filter g xs)"
proof (induction xs)
  case (Cons x xs)
  then have IH: "distinct (List.map_filter g xs)" by (meson distinct.simps(2) list.set_intros(2))
  show ?case
  proof (cases "g x")
    case (Some z)
    have "z \<notin> set (List.map_filter g xs)"
      using Cons.prems Some by (auto simp: set_map_filter)
    with IH Some show ?thesis by (simp add: List.map_filter_simps)
  qed (use IH in \<open>simp add: List.map_filter_simps\<close>)
qed (simp add: List.map_filter_simps)

lemma map_map_filter: "List.map_filter (\<lambda>x. map_option h (g x)) xs = map h (List.map_filter g xs)"
  by (induction xs) (auto simp: List.map_filter_simps split: option.splits)

lemma insort_key_map: "insort_key f (h x) (map h xs) = map h (insort_key (\<lambda>y. f (h y)) x xs)"
  by (induction xs) auto

lemma sort_key_map: "sort_key f (map h xs) = map h (sort_key (\<lambda>y. f (h y)) xs)"
  by (induction xs) (simp_all add: insort_key_map)

subsection \<open>Hard disks\<close>

text \<open>A hard disk of the tree: its controller, target, namespace and file.\<close>

definition is_hdd :: "vmx \<Rightarrow> (string \<Rightarrow> (int \<times> int) option) \<Rightarrow> string option list \<Rightarrow> int \<times> int \<times> string \<times> string \<Rightarrow> bool" where
  "is_hdd vmx ct device_types = (\<lambda>(c, t, ns, filename).
     lowercase_ascii ns = ns \<and> ct ns = Some (c, t) \<and> get_string vmx [ns, ''filename''] = Some filename \<and>
     map_option lowercase_ascii (get_string vmx [ns, ''deviceType'']) \<in> set device_types)"

definition hdds_of :: "s_controller \<Rightarrow> (int \<times> int \<times> string \<times> string) list \<Rightarrow> (source_disk \<times> string) list" where
  "hdds_of controller hs =
     map (\<lambda>(i, c, t, ns, filename). (\<lparr>s_disk_id = int i, s_controller = Some controller\<rparr>, filename)) (zip [0..<length hs] hs)"

abbreviation position :: "int \<times> int \<times> string \<times> string \<Rightarrow> int \<times> int \<times> string" where
  "position \<equiv> \<lambda>(c, t, ns, filename). (c, t, filename)"

definition hdd_entry :: "(string \<Rightarrow> (int \<times> int) option) \<Rightarrow> string list \<times> string option \<Rightarrow> (int \<times> int \<times> string \<times> string) option" where
  "hdd_entry ct = (\<lambda>(p, v).
     case (p, v) of
       ([ns, f], Some filename) \<Rightarrow> if f = ''filename'' then map_option (\<lambda>(c, t). (c, t, ns, filename)) (ct ns) else None
     | _ \<Rightarrow> None)"

lemma hdd_entry_Some:
  "hdd_entry ct e = Some (c, t, ns, filename) \<longleftrightarrow> e = ([ns, ''filename''], Some filename) \<and> ct ns = Some (c, t)"
  by (cases e) (auto simp: hdd_entry_def split: list.splits option.splits if_splits)

lemma lowercase_filename: "lowercase_ascii ''filename'' = ''filename''"
  by code_simp

text \<open>What is collected by a traversal, when the function succeeds on every entry and each result comes from one entry.\<close>

lemma collect_entries:
  assumes ok: "vmx_ok vmx"
    and f: "\<forall>p v. lower_path p = p \<and> entry_at vmx p v \<longrightarrow> f p v = Inr (map_option h (ent (p, v)))"
    and inj: "\<forall>e e' x. ent e = Some x \<and> ent e' = Some x \<longrightarrow> e = e'"
  shows "\<exists>L. collect (map_vmx f vmx) = Inr (map h L) \<and> distinct L \<and>
    set L = {x. \<exists>p v. lower_path p = p \<and> entry_at vmx p v \<and> ent (p, v) = Some x}"
proof -
  from traverse [OF ok] obtain es where es: "map_vmx f vmx = map (\<lambda>(p, v). f p v) es" "distinct es"
    "\<And>p v. (p, v) \<in> set es \<longleftrightarrow> lower_path p = p \<and> entry_at vmx p v" by metis
  have "collect (map (\<lambda>(p, v). f p v) es) = Inr (List.map_filter (\<lambda>x. map_option h (ent x)) es)"
    by (rule collect_map) (use es(3) f in auto)
  moreover have "distinct (List.map_filter ent es)" by (rule distinct_map_filter [OF es(2)]) (use inj in blast)
  moreover have "set (List.map_filter ent es) = {x. \<exists>p v. lower_path p = p \<and> entry_at vmx p v \<and> ent (p, v) = Some x}"
  proof -
    have "set (List.map_filter ent es) = {x. \<exists>p v. (p, v) \<in> set es \<and> ent (p, v) = Some x}" by (auto simp: set_map_filter)
    then show ?thesis by (simp only: es(3) conj_assoc)
  qed
  ultimately show ?thesis by (auto simp: es(1) map_map_filter)
qed

lemma find_hdds_ok:
  assumes ok: "vmx_ok vmx"
  shows "\<exists>hs. find_hdds vmx ct device_types controller = Inr (hdds_of controller hs) \<and>
    distinct hs \<and> set hs = {h. is_hdd vmx ct device_types h} \<and> sorted (map position hs)"
proof -
  define pred where "pred = (\<lambda>path. case path of
      [ns] \<Rightarrow> if ct ns = None then False
        else let dt = map_option lowercase_ascii (get_string vmx [ns, ''deviceType'']) in dt \<in> set device_types
    | _ \<Rightarrow> False)"
  define f where "f = (\<lambda>path v. case (path, v) of
      ([ns, f], Some filename) \<Rightarrow>
        if f = ''filename''
        then bindR (scan_result (ct ns)) (\<lambda>(c, t). Inr (Some (c, t, \<lparr>s_disk_id = - 1, s_controller = Some controller\<rparr>, filename)))
        else Inr None
    | _ \<Rightarrow> (Inr None :: (int \<times> int \<times> source_disk \<times> string) option oc))"
  let ?h = "\<lambda>(c, t, ns, filename). (c, t, \<lparr>s_disk_id = - 1, s_controller = Some controller\<rparr>, filename :: string)"
  have pred1: "\<not> pred p" if "length p \<noteq> 1" for p using that by (auto simp: pred_def split: list.splits)
  have pred: "pred [ns] \<longleftrightarrow> ct ns \<noteq> None \<and> map_option lowercase_ascii (get_string vmx [ns, ''deviceType'']) \<in> set device_types" for ns
    by (simp add: pred_def Let_def)
  note sel = entry_at_select [OF ok, of pred, OF pred1]
  have ok': "vmx_ok (select_namespaces pred vmx)" using vmx_ok_select [OF ok] by (simp add: select_namespaces_def)
  have run: "f p v = Inr (map_option ?h (hdd_entry ct (p, v)))"
    if "lower_path p = p" "entry_at (select_namespaces pred vmx) p v" for p v
  proof (cases "\<exists>ns filename. p = [ns, ''filename''] \<and> v = Some filename")
    case True
    then obtain ns filename where e: "p = [ns, ''filename'']" "v = Some filename" by blast
    with that have "ct ns \<noteq> None" using sel(2) [of ns "''filename''" filename] pred by auto
    then show ?thesis by (auto simp: e f_def hdd_entry_def scan_result_def)
  next
    case False
    then show ?thesis by (auto simp: f_def hdd_entry_def split: list.splits option.splits)
  qed
  have inj: "e = e'" if "hdd_entry ct e = Some x" "hdd_entry ct e' = Some x" for e e' x
    using that by (cases x) (simp add: hdd_entry_Some)
  from collect_entries [of "select_namespaces pred vmx" f ?h "hdd_entry ct", OF ok'] run inj obtain L where
    c: "collect (map_vmx f (select_namespaces pred vmx)) = Inr (map ?h L)" and "distinct L"
    and L': "set L = {x. \<exists>p v. lower_path p = p \<and> entry_at (select_namespaces pred vmx) p v \<and> hdd_entry ct (p, v) = Some x}" by blast
  have L: "set L = {h. is_hdd vmx ct device_types h}"
  proof -
    have "(c, t, ns, filename) \<in> set L \<longleftrightarrow> is_hdd vmx ct device_types (c, t, ns, filename)" for c t ns filename
      unfolding L' is_hdd_def using sel(2) [of ns "''filename''" filename] pred [of ns]
      by (auto simp: hdd_entry_Some lowercase_filename simp del: entry_at_simps get_string.simps)
    then show ?thesis by auto
  qed
  let ?s = "sort_key position L"
  have "find_hdds vmx ct device_types controller =
    bindR (collect (map_vmx f (select_namespaces pred vmx))) (\<lambda>hdds.
      let hdds = sort_key (\<lambda>(c, t, _, filename). (c, t, filename)) hdds;
          hdds = map (\<lambda>(_, _, source, filename). (source, filename)) hdds
      in Inr (map (\<lambda>(i, source, filename). (source\<lparr>s_disk_id := int i\<rparr>, filename)) (zip [0..<length hdds] hdds)))"
    unfolding find_hdds_def Let_def pred_def f_def by simp
  also have "\<dots> = Inr (hdds_of controller ?s)"
    by (simp add: c sort_key_map case_prod_unfold hdds_of_def zip_map2 comp_def)
  finally show ?thesis using \<open>distinct L\<close> L by (intro exI [of _ ?s]) (simp add: distinct_sort sorted_sort_key)
qed

text \<open>The disks are numbered from 0 for each kind of controller.\<close>

lemma hdds_of_ids: "map (\<lambda>d. s_disk_id (fst d)) (hdds_of controller hs) = map int [0..<length hs]"
proof -
  have "map (\<lambda>d. s_disk_id (fst d)) (hdds_of controller hs) = map (\<lambda>x. int (fst x)) (zip [0..<length hs] hs)"
    by (simp add: hdds_of_def split_beta comp_def)
  also have "\<dots> = map int (map fst (zip [0..<length hs] hs))" by (simp only: map_map comp_def)
  finally show ?thesis by simp
qed

lemma distinct_three_ranges:
  "distinct (map int [0..<a] @ map int [0..<b] @ map int [0..<c]) \<longleftrightarrow> (a = 0 \<or> b = 0) \<and> (a = 0 \<or> c = 0) \<and> (b = 0 \<or> c = 0)"
proof -
  have "set (map int [0..<a]) \<inter> set (map int [0..<b]) = {} \<longleftrightarrow> a = 0 \<or> b = 0" for a b by (cases a; cases b) force+
  then show ?thesis by (auto simp: distinct_map Int_Un_distrib simp del: set_map)
qed

subsection \<open>Removable disks\<close>

definition is_cdrom :: "vmx \<Rightarrow> int \<times> int \<times> string \<Rightarrow> bool" where
  "is_cdrom vmx = (\<lambda>(c, t, ns).
     lowercase_ascii ns = ns \<and> scan_controller_target ''ide'' ns = Some (c, t) \<and>
     map_option lowercase_ascii (get_string vmx [ns, ''deviceType'']) \<in> Some ` set cdrom_types)"

definition cdrom_of :: "int \<times> int \<times> string \<Rightarrow> source_removable" where
  "cdrom_of = (\<lambda>(c, t, ns). \<lparr>s_removable_type = CDROM, s_removable_controller = Some Source_IDE, s_removable_slot = Some (ide_slot c t)\<rparr>)"

text \<open>An entry of a traversal that is a top-level namespace, with what \<open>g\<close> reads from its name.\<close>

definition ns_entry :: "(string \<Rightarrow> 'a option) \<Rightarrow> string list \<times> string option \<Rightarrow> ('a \<times> string) option" where
  "ns_entry g = (\<lambda>(p, v). case (p, v) of ([ns], None) \<Rightarrow> map_option (\<lambda>x. (x, ns)) (g ns) | _ \<Rightarrow> None)"

lemma ns_entry_Some: "ns_entry g e = Some (x, ns) \<longleftrightarrow> e = ([ns], None) \<and> g ns = Some x"
  by (cases e) (auto simp: ns_entry_def split: list.splits option.splits)

lemma collect_namespaces:
  fixes h :: "'a \<times> string \<Rightarrow> 'b"
  assumes ok: "vmx_ok vmx" and pred1: "\<And>p. length p \<noteq> 1 \<Longrightarrow> \<not> pred p" and g: "\<And>ns. pred [ns] \<Longrightarrow> g ns \<noteq> None"
  shows "\<exists>L. collect (map_vmx (\<lambda>path v. case (path, v) of
        ([ns], None) \<Rightarrow> bindR (scan_result (g ns)) (\<lambda>x. Inr (Some (h (x, ns)))) | _ \<Rightarrow> Inr None) (select_namespaces pred vmx)) = Inr (map h L) \<and>
    distinct L \<and> set L = {(x, ns). lowercase_ascii ns = ns \<and> pred [ns] \<and> namespace_present vmx [ns] \<and> g ns = Some x}"
proof -
  define f where "f = (\<lambda>path (v :: string option). case (path, v) of
        ([ns], None) \<Rightarrow> bindR (scan_result (g ns)) (\<lambda>x. Inr (Some (h (x, ns)))) | _ \<Rightarrow> (Inr None :: 'b option oc))"
  note sel = entry_at_select [OF ok, of pred, OF pred1]
  have ok': "vmx_ok (select_namespaces pred vmx)" using vmx_ok_select [OF ok] by (simp add: select_namespaces_def)
  have run: "f p v = Inr (map_option h (ns_entry g (p, v)))"
    if "lower_path p = p" "entry_at (select_namespaces pred vmx) p v" for p v
  proof (cases "\<exists>ns. p = [ns] \<and> v = None")
    case True
    then obtain ns where e: "p = [ns]" "v = None" by blast
    with that have "g ns \<noteq> None" using sel(1) [of ns] g [of ns] by auto
    then show ?thesis by (auto simp: e f_def ns_entry_def scan_result_def)
  next
    case False
    then show ?thesis by (auto simp: f_def ns_entry_def split: list.splits option.splits)
  qed
  have inj: "e = e'" if "ns_entry g e = Some x" "ns_entry g e' = Some x" for e e' x
    using that by (cases x) (simp add: ns_entry_Some)
  from collect_entries [of "select_namespaces pred vmx" f h "ns_entry g", OF ok'] run inj obtain L where
    c: "collect (map_vmx f (select_namespaces pred vmx)) = Inr (map h L)" "distinct L"
    and L': "set L = {x. \<exists>p v. lower_path p = p \<and> entry_at (select_namespaces pred vmx) p v \<and> ns_entry g (p, v) = Some x}" by blast
  have "(x, ns) \<in> set L \<longleftrightarrow> lowercase_ascii ns = ns \<and> pred [ns] \<and> namespace_present vmx [ns] \<and> g ns = Some x" for x ns
    unfolding L' using sel(1) [of ns] by (auto simp: ns_entry_Some simp del: entry_at_simps namespace_present.simps)
  with c show ?thesis unfolding f_def by (intro exI [of _ L]) auto
qed

lemma get_string_namespace: "get_string vmx [ns, k] = Some s \<Longrightarrow> namespace_present vmx [ns]"
  by (auto split: option.splits key.splits)

lemma find_removables_ok:
  assumes ok: "vmx_ok vmx"
  shows "\<exists>ds. find_removables vmx = Inr (map cdrom_of ds) \<and> distinct ds \<and> set ds = {d. is_cdrom vmx d} \<and>
    sorted (map (\<lambda>(c, t, ns). ide_slot c t) ds)"
proof -
  let ?g = "scan_controller_target ''ide''"
  define pred where "pred = (\<lambda>path. case path of
      [ns] \<Rightarrow> if ?g ns = None then False
        else (case get_string vmx [ns, ''deviceType''] of Some str \<Rightarrow> lowercase_ascii str \<in> set cdrom_types | None \<Rightarrow> False)
    | _ \<Rightarrow> False)"
  define h where "h = (\<lambda>((c, t), ns :: string). \<lparr>s_removable_type = CDROM, s_removable_controller = Some Source_IDE,
      s_removable_slot = Some (ide_slot c t)\<rparr>)"
  have pred1: "\<not> pred p" if "length p \<noteq> 1" for p using that by (auto simp: pred_def split: list.splits)
  have pred: "pred [ns] \<longleftrightarrow> ?g ns \<noteq> None \<and> map_option lowercase_ascii (get_string vmx [ns, ''deviceType'']) \<in> Some ` set cdrom_types" for ns
    by (auto simp: pred_def split: option.splits simp del: get_string.simps)
  have g: "?g ns \<noteq> None" if "pred [ns]" for ns using that pred by simp
  from collect_namespaces [of vmx pred ?g h, OF ok pred1 g] obtain L where L:
    "collect (map_vmx (\<lambda>path v. case (path, v) of
        ([ns], None) \<Rightarrow> bindR (scan_result (?g ns)) (\<lambda>x. Inr (Some (h (x, ns)))) | _ \<Rightarrow> Inr None) (select_namespaces pred vmx)) = Inr (map h L)"
    "distinct L" "set L = {(x, ns). lowercase_ascii ns = ns \<and> pred [ns] \<and> namespace_present vmx [ns] \<and> ?g ns = Some x}" by blast
  let ?assoc = "\<lambda>((c, t), ns). (c, t, ns)" and ?s = "sort_key (\<lambda>x. s_removable_slot (h x)) L"
  have "find_removables vmx = bindR (collect (map_vmx (\<lambda>path v. case (path, v) of
        ([ns], None) \<Rightarrow> bindR (scan_result (?g ns)) (\<lambda>x. Inr (Some (h (x, ns)))) | _ \<Rightarrow> Inr None) (select_namespaces pred vmx)))
      (\<lambda>devs. Inr (sort_key s_removable_slot devs))"
    unfolding find_removables_def Let_def pred_def h_def case_prod_unfold fst_conv snd_conv by (rule refl)
  also have "\<dots> = Inr (map cdrom_of (map ?assoc ?s))"
    unfolding L(1) by (simp add: sort_key_map comp_def cdrom_of_def h_def case_prod_unfold)
  finally have run: "find_removables vmx = Inr (map cdrom_of (map ?assoc ?s))" .
  have inj: "inj_on ?assoc A" for A :: "((int \<times> int) \<times> string) set" by (auto simp: inj_on_def)
  have "distinct (map ?assoc ?s)" using L(2) by (simp add: distinct_map inj distinct_sort)
  moreover have "set (map ?assoc ?s) = {d. is_cdrom vmx d}"
  proof -
    have "(c, t, ns) \<in> set (map ?assoc ?s) \<longleftrightarrow> ((c, t), ns) \<in> set L" for c t ns by (force simp: image_iff)
    moreover have "((c, t), ns) \<in> set L \<longleftrightarrow> is_cdrom vmx (c, t, ns)" for c t ns
      unfolding L(3) is_cdrom_def by (auto simp: pred dest: get_string_namespace simp del: get_string.simps namespace_present.simps)
    ultimately show ?thesis by auto
  qed
  moreover have "sorted (map (\<lambda>(c, t, ns). ide_slot c t) (map ?assoc ?s))"
  proof -
    have "sorted (map (\<lambda>x. s_removable_slot (h x)) ?s)" by (rule sorted_sort_key)
    then have "sorted (map Some (map (\<lambda>(c, t, ns). ide_slot c t) (map ?assoc ?s)))"
      by (simp add: comp_def h_def case_prod_unfold)
    then show ?thesis by (simp add: sorted_map del: map_map)
  qed
  ultimately show ?thesis using run by blast
qed

subsection \<open>Network cards\<close>

definition is_nic :: "vmx \<Rightarrow> int \<times> string \<Rightarrow> bool" where
  "is_nic vmx = (\<lambda>(port, ns). lowercase_ascii ns = ns \<and> get_ethernet_port ns = Some port \<and> namespace_present vmx [ns])"

lemma find_nics_ok:
  assumes ok: "vmx_ok vmx"
  shows "\<exists>ns. find_nics vmx = Inr (map (\<lambda>(port, n). nic_of_namespace vmx n) ns) \<and> distinct ns \<and> set ns = {n. is_nic vmx n} \<and>
    sorted (map (\<lambda>(port, n). nic_key (port, nic_of_namespace vmx n)) ns)"
proof -
  define pred where "pred = (\<lambda>path. case path of [ns] \<Rightarrow> get_ethernet_port ns \<noteq> None | _ \<Rightarrow> False)"
  define h where "h = (\<lambda>(port, ns). (port :: int, nic_of_namespace vmx ns))"
  have pred1: "\<not> pred p" if "length p \<noteq> 1" for p using that by (auto simp: pred_def split: list.splits)
  have g: "get_ethernet_port ns \<noteq> None" if "pred [ns]" for ns using that by (simp add: pred_def)
  from collect_namespaces [of vmx pred get_ethernet_port h, OF ok pred1 g] obtain L where L:
    "collect (map_vmx (\<lambda>path v. case (path, v) of
        ([ns], None) \<Rightarrow> bindR (scan_result (get_ethernet_port ns)) (\<lambda>x. Inr (Some (h (x, ns)))) | _ \<Rightarrow> Inr None) (select_namespaces pred vmx)) = Inr (map h L)"
    "distinct L" "set L = {(x, ns). lowercase_ascii ns = ns \<and> pred [ns] \<and> namespace_present vmx [ns] \<and> get_ethernet_port ns = Some x}" by blast
  let ?s = "sort_key (\<lambda>x. nic_key (h x)) L"
  have "find_nics vmx = bindR (collect (map_vmx (\<lambda>path v. case (path, v) of
        ([ns], None) \<Rightarrow> bindR (scan_result (get_ethernet_port ns)) (\<lambda>x. Inr (Some (h (x, ns)))) | _ \<Rightarrow> Inr None) (select_namespaces pred vmx)))
      (\<lambda>nics. Inr (map snd (sort_key nic_key nics)))"
    unfolding find_nics_def Let_def pred_def h_def case_prod_unfold fst_conv snd_conv by (rule refl)
  also have "\<dots> = Inr (map (\<lambda>(port, n). nic_of_namespace vmx n) ?s)"
    unfolding L(1) by (simp add: sort_key_map comp_def h_def case_prod_unfold)
  finally have "find_nics vmx = Inr (map (\<lambda>(port, n). nic_of_namespace vmx n) ?s)" .
  moreover have "set ?s = {n. is_nic vmx n}" using L(3) by (auto simp: is_nic_def pred_def simp del: namespace_present.simps)
  moreover have "sorted (map (\<lambda>(port, n). nic_key (port, nic_of_namespace vmx n)) ?s)"
    using sorted_sort_key [of "\<lambda>x. nic_key (h x)" L] by (simp add: h_def case_prod_unfold)
  ultimately show ?thesis using L(2) by (intro exI [of _ ?s]) (simp add: distinct_sort)
qed


subsection \<open>The generation ID\<close>

text \<open>The sixteen bytes in guest memory: the two numbers in little endian order. A UUID given to libvirt or qemu
  with its first three fields byte-swapped puts its bytes into memory in order.\<close>

definition le_bytes :: "int \<Rightarrow> nat list" where
  "le_bytes i = map (\<lambda>k. nat (i mod 2 ^ 64) div 256 ^ k mod 256) [0..<8]"

definition hex_bytes :: "nat list \<Rightarrow> string" where
  "hex_bytes bs = concat (map (\<lambda>b. [hex_lower (b div 16), hex_lower (b mod 16)]) bs)"

definition uuid_of_memory :: "nat list \<Rightarrow> string" where
  "uuid_of_memory bs =
     (let part = (\<lambda>is. hex_bytes (map (\<lambda>i. bs ! i) is))
      in part [3, 2, 1, 0] @ ''-'' @ part [5, 4] @ ''-'' @ part [7, 6] @ ''-'' @ part [8, 9] @ ''-'' @ part [10, 11, 12, 13, 14, 15])"

lemma nibbles: "n mod 256 div 16 = n div 16 mod 16" "n mod 256 mod 16 = n mod 16" for n :: nat
proof -
  have "n mod 256 = n mod (16 * 16)" by simp
  then show "n mod 256 div 16 = n div 16 mod 16" by (simp only: mod_mult2_eq) simp
  show "n mod 256 mod 16 = n mod 16" by (rule mod_mod_cancel) simp
qed

lemma hex016_bytes: "hex016 i = hex_bytes (rev (le_bytes i))"
  by (simp add: hex016_def hex_bytes_def le_bytes_def upt_rec nibbles div_mult2_eq [symmetric])

subsection \<open>The name\<close>

lemma basename_file: "CHR ''/'' \<notin> set f \<Longrightarrow> f \<noteq> [] \<Longrightarrow> basename (dir @ ''/'' @ f) = f \<and> basename f = f"
proof -
  assume f: "CHR ''/'' \<notin> set f" "f \<noteq> []"
  then obtain c g where r: "rev f = c # g" by (cases "rev f") auto
  have "c \<in> set (rev f)" by (simp add: r)
  with f(1) have c: "c \<noteq> CHR ''/''" by auto
  have tw: "takeWhile (\<lambda>c. c \<noteq> CHR ''/'') (rev f @ s) = rev f @ takeWhile (\<lambda>c. c \<noteq> CHR ''/'') s" for s
    using f(1) by (intro takeWhile_append2) auto
  have dw: "dropWhile (\<lambda>c. c = CHR ''/'') (rev f @ s) = rev f @ s" for s using c by (simp add: r)
  have tw': "takeWhile (\<lambda>c. c \<noteq> CHR ''/'') (rev f) = rev f" using tw [of "[]"] by simp
  have dw': "dropWhile (\<lambda>c. c = CHR ''/'') (rev f) = rev f" using dw [of "[]"] by simp
  show ?thesis using f(2) by (simp add: basename_def tw dw tw' dw')
qed

lemma check_suffix_iff: "check_suffix name suff \<longleftrightarrow> (\<exists>p. name = p @ suff)"
proof
  assume "check_suffix name suff"
  then have "name = take (length name - length suff) name @ suff"
    by (metis append_take_drop_id check_suffix_def)
  then show "\<exists>p. name = p @ suff" by blast
qed (auto simp: check_suffix_def)

text \<open>No name ends in two of the suffixes: they differ in their last character or before.\<close>

lemma disk_suffixes_exclusive:
  assumes "suff \<in> set disk_suffixes" and "suff' \<in> set disk_suffixes" and "p @ suff = p' @ suff'"
  shows "suff = suff'"
proof -
  have "suffix suff (p @ suff)" by (simp add: suffixI)
  moreover have "suffix suff' (p @ suff)" unfolding assms(3) by (simp add: suffixI)
  ultimately have "suffix suff suff' \<or> suffix suff' suff" by (rule suffix_same_cases)
  moreover have "list_all (\<lambda>a. list_all (\<lambda>b. suffix a b \<longrightarrow> a = b) disk_suffixes) disk_suffixes" by code_simp
  ultimately show ?thesis using assms(1,2) unfolding list_all_iff by blast
qed

lemma name_from_disk_loop_suffix:
  assumes "suff \<in> set xs" and "set xs \<subseteq> set disk_suffixes"
  shows "name_from_disk_loop (base @ suff) xs = Inr base"
  using assms
proof (induction xs)
  case (Cons x xs)
  show ?case
  proof (cases "x = suff")
    case False
    then have "\<not> check_suffix (base @ suff) x"
      using disk_suffixes_exclusive [of suff x base] Cons.prems by (auto simp: check_suffix_iff)
    with Cons False show ?thesis by simp
  qed (auto simp: check_suffix_iff chop_suffix_def)
qed simp

lemma name_from_disk_loop_none:
  "(\<And>suff. suff \<in> set xs \<Longrightarrow> \<not> check_suffix name suff) \<Longrightarrow> name_from_disk_loop name xs = Inr name"
  by (induction xs) auto

lemma hdds_of_controllers:
  "(\<lambda>d. s_controller (fst d)) ` set (hdds_of controller hs) = (if hs = [] then {} else {Some controller})"
proof -
  have "(\<lambda>d. s_controller (fst d)) ` set (hdds_of controller hs) = (\<lambda>_. Some controller) ` set (zip [0..<length hs] hs)"
    by (simp add: hdds_of_def image_image split_beta)
  moreover have "set (zip [0..<length hs] hs) = {} \<longleftrightarrow> hs = []" by (simp add: zip_eq_Nil_iff)
  ultimately show ?thesis by (simp add: image_constant_conv)
qed

lemma find_disks_split:
  assumes "vmx_ok vmx"
  obtains scsi nvme ide where "find_disks vmx = Inr (hdds_of Source_SCSI scsi @ hdds_of Source_NVME nvme @ hdds_of Source_IDE ide)"
proof -
  from find_hdds_ok [OF assms] obtain scsi nvme ide where
    "find_scsi_disks vmx = Inr (hdds_of Source_SCSI scsi)" "find_nvme_disks vmx = Inr (hdds_of Source_NVME nvme)"
    "find_ide_disks vmx = Inr (hdds_of Source_IDE ide)"
    unfolding find_scsi_disks_def find_nvme_disks_def find_ide_disks_def by meson
  then show ?thesis by (intro that) (simp add: find_disks_def)
qed

subsection \<open>Scanning printed numbers\<close>

lemma scan_digits_parse:
  "parse_digits 10 acc s = Some n \<Longrightarrow> (rest = [] \<or> hd rest \<noteq> CHR ''_'' \<and> digit_in 10 (hd rest) = None) \<Longrightarrow>
   scan_digits acc (s @ rest) = (n, rest)"
proof (induction acc s rule: scan_digits.induct)
  case (1 acc)
  then show ?case by (cases rest) auto
next
  case (2 acc c s)
  then show ?case by (auto split: if_splits option.splits)
qed

lemma scan_d_string_of_int:
  assumes "- (2 ^ 62) \<le> i" and "i < 2 ^ 62" and "rest = [] \<or> hd rest \<noteq> CHR ''_'' \<and> digit_in 10 (hd rest) = None"
  shows "scan_d (string_of_int i @ rest) = Some (i, rest)"
proof -
  obtain c v d where d: "decimal (nat \<bar>i\<bar>) = c # v" "digit_in 10 c = Some d" "parse_digits 10 d v = Some (nat \<bar>i\<bar>)"
    by (rule decimal_Cons [of "nat \<bar>i\<bar>"])
  from scan_digits_parse [OF d(3) assms(3)] show ?thesis
    using assms(1,2) by (auto simp: scan_d_def parse_sign_string_of_int d)
qed

lemma scan_chars_append: "scan_chars fs (fs @ s) = Some s"
  by (induction fs) auto

lemma scan_controller_target_printed:
  assumes "- (2 ^ 62) \<le> c" "c < 2 ^ 62" "- (2 ^ 62) \<le> t" "t < 2 ^ 62"
  shows "scan_controller_target pre (pre @ string_of_int c @ '':'' @ string_of_int t) = Some (c, t)"
proof -
  have "digit_in 10 (CHR '':'') = None" by code_simp
  then have 1: "scan_d (string_of_int c @ '':'' @ string_of_int t) = Some (c, '':'' @ string_of_int t)"
    using assms by (intro scan_d_string_of_int) auto
  have 2: "scan_d (string_of_int t) = Some (t, [])" using scan_d_string_of_int [of t "[]"] assms by simp
  show ?thesis
    unfolding scan_controller_target_def scan_chars_append bind.bind_lunit 1 prod.case scan_chars_append 2 by (rule refl)
qed

subsection \<open>Properties\<close>

text \<open>C13: the hard disks found in a tree. The search raises nothing; for SCSI, NVMe and IDE in this order it finds
  exactly the namespaces named \<open>scsiX:Y\<close>, \<open>nvmeX:Y\<close> and \<open>ideX:Y\<close> that have a file name and one of the device types of that
  kind, each once, sorted by controller, target and file name, numbered from 0 for each kind.\<close>

theorem find_disks_correct:
  assumes "vmx_ok vmx"
  shows "\<exists>scsi nvme ide.
    find_disks vmx = Inr (hdds_of Source_SCSI scsi @ hdds_of Source_NVME nvme @ hdds_of Source_IDE ide) \<and>
    distinct scsi \<and> distinct nvme \<and> distinct ide \<and>
    sorted (map position scsi) \<and> sorted (map position nvme) \<and> sorted (map position ide) \<and>
    set scsi = {h. is_hdd vmx (scan_controller_target ''scsi'')
      [Some ''disk'', Some ''plaindisk'', Some ''rawdisk'', Some ''scsi-harddisk'', None] h} \<and>
    set nvme = {h. is_hdd vmx (scan_controller_target ''nvme'') [None] h} \<and>
    set ide = {h. is_hdd vmx (scan_controller_target ''ide'') [Some ''ata-harddisk''] h}"
proof -
  from find_hdds_ok [OF assms] obtain scsi where s:
    "find_scsi_disks vmx = Inr (hdds_of Source_SCSI scsi)" "distinct scsi" "sorted (map position scsi)"
    "set scsi = {h. is_hdd vmx (scan_controller_target ''scsi'') [Some ''disk'', Some ''plaindisk'', Some ''rawdisk'', Some ''scsi-harddisk'', None] h}"
    unfolding find_scsi_disks_def by blast
  from find_hdds_ok [OF assms] obtain nvme where n:
    "find_nvme_disks vmx = Inr (hdds_of Source_NVME nvme)" "distinct nvme" "sorted (map position nvme)"
    "set nvme = {h. is_hdd vmx (scan_controller_target ''nvme'') [None] h}"
    unfolding find_nvme_disks_def by blast
  from find_hdds_ok [OF assms] obtain ide where i:
    "find_ide_disks vmx = Inr (hdds_of Source_IDE ide)" "distinct ide" "sorted (map position ide)"
    "set ide = {h. is_hdd vmx (scan_controller_target ''ide'') [Some ''ata-harddisk''] h}"
    unfolding find_ide_disks_def by blast
  show ?thesis
    by (intro exI conjI) (simp only: find_disks_def s(1) n(1) i(1) bindR_Inr, (fact s n i)+)
qed

text \<open>C36: the disk numbers that the VMX source gives are unique only when all disks are on one kind of controller:
  a guest with disks on two kinds has two disks with the number 0.\<close>

theorem disk_ids_unique_iff:
  assumes "vmx_ok vmx" and "find_disks vmx = Inr ds"
  shows "distinct (map (\<lambda>d. s_disk_id (fst d)) ds) \<longleftrightarrow>
    (\<forall>d \<in> set ds. \<forall>e \<in> set ds. s_controller (fst d) = s_controller (fst e))"
proof -
  from find_disks_split [OF assms(1)] obtain scsi nvme ide where
    "find_disks vmx = Inr (hdds_of Source_SCSI scsi @ hdds_of Source_NVME nvme @ hdds_of Source_IDE ide)" .
  with assms(2) have ds: "ds = hdds_of Source_SCSI scsi @ hdds_of Source_NVME nvme @ hdds_of Source_IDE ide" by simp
  have "distinct (map (\<lambda>d. s_disk_id (fst d)) ds) \<longleftrightarrow>
      (scsi = [] \<or> nvme = []) \<and> (scsi = [] \<or> ide = []) \<and> (nvme = [] \<or> ide = [])"
    unfolding ds map_append hdds_of_ids distinct_three_ranges by simp
  also have "\<dots> \<longleftrightarrow> (\<forall>d \<in> set ds. \<forall>e \<in> set ds. s_controller (fst d) = s_controller (fst e))"
  proof -
    let ?g = "\<lambda>d. s_controller (fst d)"
    have "(\<forall>d \<in> set ds. \<forall>e \<in> set ds. ?g d = ?g e) \<longleftrightarrow> (\<forall>a \<in> ?g ` set ds. \<forall>b \<in> ?g ` set ds. a = b)" by blast
    also have "\<dots> \<longleftrightarrow> (scsi = [] \<or> nvme = []) \<and> (scsi = [] \<or> ide = []) \<and> (nvme = [] \<or> ide = [])"
      unfolding ds set_append image_Un hdds_of_controllers by (cases "scsi = []"; cases "nvme = []"; cases "ide = []") simp_all
    finally show ?thesis by blast
  qed
  finally show ?thesis .
qed

text \<open>The CD-ROMs found in a tree. The search raises nothing and finds exactly the namespaces named \<open>ideX:Y\<close> with one
  of the three device types, in any case, each once, in the order of their slots, which are twice the controller plus the target.\<close>

theorem find_removables_correct:
  assumes "vmx_ok vmx"
  shows "\<exists>ds. find_removables vmx = Inr (map cdrom_of ds) \<and> distinct ds \<and> set ds = {d. is_cdrom vmx d} \<and>
    sorted (map (\<lambda>(c, t, ns). ide_slot c t) ds)"
  by (rule find_removables_ok [OF assms])

text \<open>The network cards found in a tree are exactly the namespaces named \<open>ethernetX\<close>, each once, by port.\<close>

theorem find_nics_correct:
  assumes "vmx_ok vmx"
  shows "\<exists>ns. find_nics vmx = Inr (map (\<lambda>(port, n). nic_of_namespace vmx n) ns) \<and> distinct ns \<and> set ns = {n. is_nic vmx n} \<and>
    sorted (map fst ns)"
proof -
  from find_nics_ok [OF assms] obtain ns where ns:
    "find_nics vmx = Inr (map (\<lambda>(port, n). nic_of_namespace vmx n) ns)" "distinct ns" "set ns = {n. is_nic vmx n}"
    "sorted (map (\<lambda>(port, n). nic_key (port, nic_of_namespace vmx n)) ns)" by blast
  have "sorted (map fst ns)" using ns(4) unfolding sorted_map
    by (rule sorted_wrt_mono_rel [rotated]) (auto simp: nic_key_def)
  with ns show ?thesis by blast
qed

text \<open>The names of controllers and ports are scanned as they are printed: a prefix, a number, a colon and a number, or
  \<open>ethernet\<close> and a number, for all numbers of 63 bits, negative ones included.\<close>

theorem scan_names_roundtrip:
  assumes "- (2 ^ 62) \<le> c" "c < 2 ^ 62" "- (2 ^ 62) \<le> t" "t < 2 ^ 62"
  shows "scan_controller_target pre (pre @ string_of_int c @ '':'' @ string_of_int t) = Some (c, t) \<and>
    get_ethernet_port (''ethernet'' @ string_of_int c) = Some c"
  using scan_controller_target_printed [OF assms] scan_d_string_of_int [of c "[]"] assms(1,2)
  by (simp add: get_ethernet_port_def scan_chars_append del: append.simps)

text \<open>The generation ID. The UUID built from the two numbers of the VMX file is the one that makes the sixteen
  bytes in the memory of the converted guest the two numbers in little endian order, as they are on VMware.\<close>

theorem genid_correct: "genid_uuid lo hi = uuid_of_memory (le_bytes lo @ le_bytes hi)"
proof -
  have "le_bytes i = [le_bytes i ! 0, le_bytes i ! 1, le_bytes i ! 2, le_bytes i ! 3, le_bytes i ! 4, le_bytes i ! 5, le_bytes i ! 6, le_bytes i ! 7]" for i
    by (simp add: le_bytes_def upt_rec)
  then obtain l0 l1 l2 l3 l4 l5 l6 l7 h0 h1 h2 h3 h4 h5 h6 h7 where
    b: "le_bytes lo = [l0, l1, l2, l3, l4, l5, l6, l7]" "le_bytes hi = [h0, h1, h2, h3, h4, h5, h6, h7]" by blast
  show ?thesis by (simp add: genid_uuid_def uuid_of_memory_def hex016_bytes b hex_bytes_def Let_def)
qed

text \<open>The processor topology for a positive number of processors: as many sockets as fit, one thread each; no
  topology when the cores of a socket are negative or more than the processors; an exception when they are 0.\<close>

theorem cpu_topology_correct:
  assumes "get_int vmx [''cpuid'', ''coresPerSocket''] = Inr (Some cores)" and "0 < vcpu" and "vcpu < 2 ^ 62"
  shows "cpu_topology_of_vmx vmx vcpu =
    (if cores = 0 then Inl ODivision_by_zero
     else if cores < 0 \<or> vcpu < cores then Inr (None, [Invalid_cores_per_socket])
     else Inr (Some \<lparr>s_cpu_sockets = vcpu div cores, s_cpu_cores = cores, s_cpu_threads = 1\<rparr>, []))"
proof -
  have wrap: "wrap_int 63 x = x" if "- (2 ^ 62) \<le> x" "x < 2 ^ 62" for x
    using that by (simp add: wrap_int_def signed_take_bit_int_eq_self)
  have bound: "0 \<le> vcpu div \<bar>cores\<bar> \<and> vcpu div \<bar>cores\<bar> \<le> vcpu" if "cores \<noteq> 0"
    using assms(2) that zdiv_mono2 [of vcpu 1 "\<bar>cores\<bar>"] by (simp add: pos_imp_zdiv_nonneg_iff)
  have pos: "vcpu div cores \<le> 0 \<longleftrightarrow> vcpu < cores" if "0 < cores"
    using that pos_imp_zdiv_pos_iff [OF that, of vcpu] by linarith
  show ?thesis
    using assms bound pos
    by (cases "cores = 0"; cases "cores < 0") (auto simp: cpu_topology_of_vmx_def ocaml_div_def wrap sgn_if)
qed

text \<open>The name of a guest without one: the file name without its directory and without one of the suffixes of
  disk images; other file names are kept as they are.\<close>

theorem name_from_disk_correct:
  assumes "CHR ''/'' \<notin> set base" and "base \<noteq> []"
  shows "(if suff \<in> set disk_suffixes then name_from_disk (dir @ ''/'' @ base @ suff) = Inr base else True) \<and>
    (if list_all (\<lambda>s. \<not> suffix s base) disk_suffixes then name_from_disk (dir @ ''/'' @ base) = Inr base else True)"
proof -
  have "CHR ''/'' \<notin> set (base @ suff)" if "suff \<in> set disk_suffixes"
  proof -
    have "list_all (\<lambda>s. CHR ''/'' \<notin> set s) disk_suffixes" by code_simp
    with that assms(1) show ?thesis by (auto simp: list_all_iff)
  qed
  moreover have "\<not> check_suffix base s" if "\<not> suffix s base" for s using that by (auto simp: check_suffix_iff suffix_def)
  ultimately show ?thesis
    using basename_file [of "base @ suff" dir] basename_file [OF assms, of dir] assms(2)
      name_from_disk_loop_suffix [of suff disk_suffixes base] name_from_disk_loop_none [of disk_suffixes base]
    by (auto simp: name_from_disk_def list_all_iff)
qed

text \<open>The checks on the command line argument are enough for the assertions on the URI: after them its server and
  its path are there, and the path is not the root.\<close>

theorem vmx_source_checked:
  assumes "vmx_source_of_arg parse_uri transport arg = Inr (SSH uri)"
  shows "\<exists>server path. server_of_uri uri = Inr server \<and> path_of_uri uri = Inr path \<and> path \<noteq> ''/''"
  using assms
  by (auto simp: vmx_source_of_arg_def server_of_uri_def path_of_uri_def bindR_Inr_iff
      split: option.splits input_transport.splits sum.splits ocaml_exn.splits if_splits)

subsection \<open>Witnesses\<close>

definition demo_guest :: vmx where
  "demo_guest =
     [(''cpuid'', Namespace [(''corespersocket'', Key ''2'')]),
      (''ethernet0'', Namespace [(''virtualdev'', Key ''E1000'')]),
      (''ide0:0'', Namespace [(''devicetype'', Key ''ata-hardDisk''), (''filename'', Key ''b.vmdk'')]),
      (''ide1:0'', Namespace [(''devicetype'', Key ''cdrom-image'')]),
      (''scsi0:0'', Namespace [(''filename'', Key ''a.vmdk'')])]"

lemma demo_guest_ok: "vmx_ok demo_guest"
  by code_simp

theorem find_disks_correct_witness:
  "\<exists>scsi nvme ide.
    find_disks demo_guest = Inr (hdds_of Source_SCSI scsi @ hdds_of Source_NVME nvme @ hdds_of Source_IDE ide) \<and>
    distinct scsi \<and> set nvme = {h. is_hdd demo_guest (scan_controller_target ''nvme'') [None] h}"
  using find_disks_correct [OF demo_guest_ok] by blast

definition demo_found :: "(source_disk \<times> string) list" where
  "demo_found = [(\<lparr>s_disk_id = 0, s_controller = Some Source_SCSI\<rparr>, ''a.vmdk''), (\<lparr>s_disk_id = 0, s_controller = Some Source_IDE\<rparr>, ''b.vmdk'')]"

theorem disk_ids_unique_iff_witness:
  "find_disks demo_guest = Inr demo_found \<and> \<not> distinct (map (\<lambda>d. s_disk_id (fst d)) demo_found)"
proof -
  have "find_disks demo_guest = Inr demo_found" by code_simp
  with disk_ids_unique_iff [OF demo_guest_ok this] show ?thesis by (simp add: demo_found_def)
qed

theorem scan_names_roundtrip_witness:
  "scan_controller_target ''ide'' (''ide'' @ string_of_int (- 1) @ '':'' @ string_of_int 0) = Some (- 1, 0)"
  using scan_names_roundtrip [of "- 1" 0 "''ide''"] by simp

theorem find_removables_correct_witness:
  "\<exists>ds. find_removables demo_guest = Inr (map cdrom_of ds) \<and> distinct ds \<and> set ds = {d. is_cdrom demo_guest d} \<and>
    sorted (map (\<lambda>(c, t, ns). ide_slot c t) ds)"
  by (rule find_removables_correct [OF demo_guest_ok])

theorem find_nics_correct_witness:
  "\<exists>ns. find_nics demo_guest = Inr (map (\<lambda>(port, n). nic_of_namespace demo_guest n) ns) \<and> distinct ns \<and>
    set ns = {n. is_nic demo_guest n} \<and> sorted (map fst ns)"
  by (rule find_nics_correct [OF demo_guest_ok])

theorem cpu_topology_correct_witness:
  "cpu_topology_of_vmx demo_guest 5 = Inr (Some \<lparr>s_cpu_sockets = 2, s_cpu_cores = 2, s_cpu_threads = 1\<rparr>, [])"
proof -
  have "get_int demo_guest [''cpuid'', ''coresPerSocket''] = Inr (Some 2)" by code_simp
  from cpu_topology_correct [OF this, of 5] show ?thesis by simp
qed

theorem name_from_disk_correct_witness:
  "name_from_disk (''/var'' @ ''/'' @ ''guest'' @ ''.vmx'') = Inr ''guest''"
proof -
  have "CHR ''/'' \<notin> set ''guest''" "''guest'' \<noteq> []" "''.vmx'' \<in> set disk_suffixes" by code_simp+
  with name_from_disk_correct [of "''guest''" "''.vmx''" "''/var''"] show ?thesis by (simp only: if_True) blast
qed

definition demo_uri :: xml_uri where
  "demo_uri = \<lparr>uri_scheme = Some ''ssh'', uri_user = None, uri_server = Some ''esx'', uri_port = 0, uri_path = Some ''/a.vmx''\<rparr>"

theorem vmx_source_checked_witness:
  "\<exists>server path. server_of_uri demo_uri = Inr server \<and> path_of_uri demo_uri = Inr path \<and> path \<noteq> ''/''"
proof -
  have "vmx_source_of_arg (\<lambda>_. Inr demo_uri) (Some Transport_SSH) ''ssh://esx/a.vmx'' = Inr (SSH demo_uri)"
    by (simp add: vmx_source_of_arg_def demo_uri_def)
  then show ?thesis by (rule vmx_source_checked)
qed


end
