(* ===== verification/TargetBus.thy ===== *)
theory TargetBus
  imports V2VTypes "HOL-Library.Multiset"
begin

section \<open>Assigning disks to the buses of the target (convert/target_bus_assignment.ml)\<close>

text \<open>
  Fixed disks go to the virtio-blk or the IDE bus in order; removable devices go to the bus of their
  controller, those that had a slot on the source first, each to its slot or to the next empty one. A
  bus is a growing array: a list here. \<open>bus_insert\<close> (\<open>insert\<close> in the source) and \<open>slot_is_empty\<close> use array accesses, which raise
  \<open>Invalid_argument\<close> out of bounds, and an assertion. A reference to one of the four buses is a
  \<open>bus_ref\<close>.
\<close>

subsection \<open>Slots\<close>

text \<open>\<open>Sys.max_array_length\<close> on a 64-bit platform\<close>

definition max_array_length :: int where
  "max_array_length = 2 ^ 54 - 1"

definition slot_is_empty :: "target_bus_slot list \<Rightarrow> int \<Rightarrow> bool oc" where
  "slot_is_empty bus i =
     (if i \<ge> int (length bus) then Inr True
      else if i < 0 then Inl (OInvalid_argument ''index out of bounds'')
      else Inr (bus ! nat i = BusSlotEmpty))"

definition bus_insert :: "target_bus_slot list \<Rightarrow> int \<Rightarrow> target_bus_slot \<Rightarrow> target_bus_slot list oc" where
  "bus_insert oldbus i slot =
     bindR (if i \<ge> int (length oldbus)
            then if i + 1 > max_array_length then Inl (OInvalid_argument ''Array.make'')
                 else Inr (oldbus @ replicate (nat (i + 1) - length oldbus) BusSlotEmpty)
            else Inr oldbus) (\<lambda>bus.
       if i < 0 then Inl (OInvalid_argument ''index out of bounds'')
       else if bus ! nat i \<noteq> BusSlotEmpty then Inl OAssert_failure
       else Inr (bus[nat i := slot]))"

function insert_after :: "target_bus_slot list \<Rightarrow> int \<Rightarrow> target_bus_slot \<Rightarrow> (bool \<times> target_bus_slot list) oc" where
  "insert_after bus i slot =
     (case slot_is_empty bus i of
        Inl e \<Rightarrow> Inl e
      | Inr True \<Rightarrow> bindR (bus_insert bus i slot) (\<lambda>bus. Inr (True, bus))
      | Inr False \<Rightarrow> bindR (insert_after bus (i + 1) slot) (\<lambda>(_, bus). Inr (False, bus)))"
  by pat_completeness auto
termination
  by (relation "measure (\<lambda>(bus, i, slot). nat (int (length bus) - i))")
     (auto simp: slot_is_empty_def split: if_splits)

declare insert_after.simps [simp del]

subsection \<open>The assignment\<close>

datatype bus_ref = Virtio_blk_bus | Ide_bus | Scsi_bus | Floppy_bus

fun get_bus :: "bus_ref \<Rightarrow> target_buses \<Rightarrow> target_bus_slot list" where
  "get_bus Virtio_blk_bus b = target_virtio_blk_bus b"
| "get_bus Ide_bus b = target_ide_bus b"
| "get_bus Scsi_bus b = target_scsi_bus b"
| "get_bus Floppy_bus b = target_floppy_bus b"

fun set_bus :: "bus_ref \<Rightarrow> target_bus_slot list \<Rightarrow> target_buses \<Rightarrow> target_buses" where
  "set_bus Virtio_blk_bus x b = b\<lparr>target_virtio_blk_bus := x\<rparr>"
| "set_bus Ide_bus x b = b\<lparr>target_ide_bus := x\<rparr>"
| "set_bus Scsi_bus x b = b\<lparr>target_scsi_bus := x\<rparr>"
| "set_bus Floppy_bus x b = b\<lparr>target_floppy_bus := x\<rparr>"

definition block_bus :: "guestcaps_block_type \<Rightarrow> bus_ref" where
  "block_bus t = (case t of Virtio_blk \<Rightarrow> Virtio_blk_bus | IDE \<Rightarrow> Ide_bus)"

definition removable_bus :: "source_removable \<Rightarrow> bus_ref" where
  "removable_bus r =
     (case s_removable_type r of
        Floppy \<Rightarrow> Floppy_bus
      | CDROM \<Rightarrow>
          (case s_removable_controller r of
             None \<Rightarrow> Ide_bus
           | Some Source_virtio_blk \<Rightarrow> Virtio_blk_bus
           | Some Source_IDE \<Rightarrow> Ide_bus
           | Some Source_virtio_SCSI \<Rightarrow> Scsi_bus
           | Some Source_SCSI \<Rightarrow> Scsi_bus
           | Some Source_SATA \<Rightarrow> Scsi_bus
           | Some Source_NVME \<Rightarrow> Scsi_bus))"

text \<open>The warnings printed are collected: the device and its desired slot.\<close>

type_synonym clash = "s_removable_type \<times> int"

definition assign_disk :: "bus_ref \<Rightarrow> nat \<times> source_disk \<Rightarrow> target_buses \<Rightarrow> target_buses oc" where
  "assign_disk bus = (\<lambda>(i, d) b.
     bindR (bus_insert (get_bus bus b) (int i) (BusSlotDisk d)) (\<lambda>x. Inr (set_bus bus x b)))"

definition assign_removable :: "source_removable \<Rightarrow> target_buses \<times> clash list \<Rightarrow> (target_buses \<times> clash list) oc" where
  "assign_removable r = (\<lambda>(b, warnings).
     let bus = removable_bus r
     in case s_removable_slot r of
          None \<Rightarrow> bindR (insert_after (get_bus bus b) 0 (BusSlotRemovable r)) (\<lambda>(_, x). Inr (set_bus bus x b, warnings))
        | Some desired_slot_nr \<Rightarrow>
            bindR (insert_after (get_bus bus b) desired_slot_nr (BusSlotRemovable r)) (\<lambda>(got, x).
              Inr (set_bus bus x b, if got then warnings else warnings @ [(s_removable_type r, desired_slot_nr)])))"

definition target_bus_assignment ::
  "source_disk list \<Rightarrow> source_removable list \<Rightarrow> guestcaps \<Rightarrow> (target_buses \<times> clash list) oc" where
  "target_bus_assignment source_disks source_removables guestcaps =
     bindR (foreachR (assign_disk (block_bus (gcaps_block_bus guestcaps))) (zip [0..<length source_disks] source_disks)
       \<lparr>target_virtio_blk_bus = [], target_ide_bus = [], target_scsi_bus = [], target_floppy_bus = []\<rparr>) (\<lambda>b.
     let (removables_desire, removables_no_desire) = partition (\<lambda>r. s_removable_slot r \<noteq> None) source_removables
     in bindR (foreachR assign_removable removables_desire (b, [])) (foreachR assign_removable removables_no_desire))"

subsection \<open>Where things land\<close>

definition vacant :: "target_bus_slot list \<Rightarrow> nat \<Rightarrow> bool" where
  "vacant bus j \<longleftrightarrow> length bus \<le> j \<or> bus ! j = BusSlotEmpty"

text \<open>The first empty slot from a given one on.\<close>

definition next_free :: "target_bus_slot list \<Rightarrow> nat \<Rightarrow> nat" where
  "next_free bus n = (LEAST j. n \<le> j \<and> vacant bus j)"

definition put :: "target_bus_slot list \<Rightarrow> nat \<Rightarrow> target_bus_slot \<Rightarrow> target_bus_slot list" where
  "put bus j slot = (bus @ replicate (Suc j - length bus) BusSlotEmpty)[j := slot]"

lemma vacant_exists: "n \<le> max n (length bus) \<and> vacant bus (max n (length bus))"
  by (simp add: vacant_def)

lemma next_free: "n \<le> next_free bus n" "vacant bus (next_free bus n)" "next_free bus n \<le> max n (length bus)"
  using LeastI [of "\<lambda>j. n \<le> j \<and> vacant bus j", OF vacant_exists] Least_le [of "\<lambda>j. n \<le> j \<and> vacant bus j", OF vacant_exists]
  unfolding next_free_def by blast+

lemma next_free_least: "n \<le> j \<Longrightarrow> j < next_free bus n \<Longrightarrow> \<not> vacant bus j"
  unfolding next_free_def using not_less_Least by blast

lemma next_free_here: "vacant bus n \<Longrightarrow> next_free bus n = n"
  unfolding next_free_def by (rule Least_equality) auto

lemma next_free_step:
  assumes "\<not> vacant bus n"
  shows "next_free bus n = next_free bus (Suc n)"
proof -
  have "n \<le> j \<and> vacant bus j \<longleftrightarrow> Suc n \<le> j \<and> vacant bus j" for j
    using assms by (cases "j = n") auto
  then show ?thesis by (simp add: next_free_def)
qed

lemma put_length: "length (put bus j slot) = max (length bus) (Suc j)"
  by (simp add: put_def)

lemma put_nth: "k < length (put bus j slot) \<Longrightarrow> put bus j slot ! k = (if k = j then slot else if k < length bus then bus ! k else BusSlotEmpty)"
  by (auto simp: put_def nth_append nth_list_update)

lemma bus_insert_eq:
  assumes "vacant bus j" and "int j < max_array_length"
  shows "bus_insert bus (int j) slot = Inr (put bus j slot)"
  using assms by (auto simp: bus_insert_def vacant_def put_def nth_append nat_add_distrib)

lemma slot_is_empty_eq: "slot_is_empty bus (int j) = Inr (vacant bus j)"
  by (auto simp: slot_is_empty_def vacant_def)

lemma insert_after_eq:
  assumes "int (next_free bus n) < max_array_length"
  shows "insert_after bus (int n) slot = Inr (next_free bus n = n, put bus (next_free bus n) slot)"
  using assms
proof (induction "length bus - n" arbitrary: n rule: less_induct)
  case less
  show ?case
  proof (cases "vacant bus n")
    case True
    then show ?thesis
      using less.prems by (simp add: insert_after.simps [of bus "int n"] slot_is_empty_eq bus_insert_eq next_free_here)
  next
    case False
    then have n: "n < length bus" by (simp add: vacant_def)
    have step: "next_free bus n = next_free bus (Suc n)" using next_free_step [OF False] .
    have "insert_after bus (int (Suc n)) slot = Inr (next_free bus (Suc n) = Suc n, put bus (next_free bus (Suc n)) slot)"
      using less n step by (intro less.hyps) auto
    moreover have "next_free bus (Suc n) \<noteq> n" using next_free(1) [of "Suc n" bus] by simp
    ultimately show ?thesis
      using False by (simp add: insert_after.simps [of bus "int n"] slot_is_empty_eq step add.commute)
  qed
qed

text \<open>Contents of a bus.\<close>

definition occupied :: "target_bus_slot list \<Rightarrow> target_bus_slot multiset" where
  "occupied bus = mset (filter (\<lambda>s. s \<noteq> BusSlotEmpty) bus)"

lemma occupied_put:
  assumes "vacant bus j" and "slot \<noteq> BusSlotEmpty"
  shows "occupied (put bus j slot) = add_mset slot (occupied bus)"
proof -
  let ?b = "bus @ replicate (Suc j - length bus) BusSlotEmpty"
  have j: "j < length ?b" and e: "?b ! j = BusSlotEmpty"
    using assms(1) by (auto simp: vacant_def nth_append)
  have "put bus j slot = take j ?b @ slot # drop (Suc j) ?b"
    unfolding put_def using j by (rule upd_conv_take_nth_drop)
  then have "occupied (put bus j slot) = add_mset slot (occupied (take j ?b) + occupied (drop (Suc j) ?b))"
    using assms(2) by (simp only: occupied_def filter_append filter.simps mset_append) simp
  also have "occupied (take j ?b) + occupied (drop (Suc j) ?b) = occupied (take j ?b @ BusSlotEmpty # drop (Suc j) ?b)"
    by (simp only: occupied_def filter_append filter.simps mset_append) simp
  also have "take j ?b @ BusSlotEmpty # drop (Suc j) ?b = ?b"
    using id_take_nth_drop [OF j] unfolding e by (rule sym)
  also have "occupied ?b = occupied bus" by (simp add: occupied_def)
  finally show ?thesis .
qed


subsection \<open>The whole assignment\<close>

definition all_occupied :: "target_buses \<Rightarrow> target_bus_slot multiset" where
  "all_occupied b = occupied (target_virtio_blk_bus b) + occupied (target_ide_bus b) + occupied (target_scsi_bus b) +
     occupied (target_floppy_bus b)"

lemma get_set_bus [simp]: "get_bus r (set_bus r' x b) = (if r = r' then x else get_bus r b)"
  by (cases r; cases r') auto

text \<open>What one step changes: one device more, in an empty slot of its bus; other slots stay, the array grows by
  no more than needed.\<close>

definition placed :: "bus_ref \<Rightarrow> nat \<Rightarrow> target_bus_slot \<Rightarrow> target_buses \<Rightarrow> target_buses \<Rightarrow> bool" where
  "placed r j slot b b' \<longleftrightarrow> vacant (get_bus r b) j \<and> b' = set_bus r (put (get_bus r b) j slot) b"

text \<open>A slot of a bus holds a device.\<close>

definition holds :: "target_buses \<Rightarrow> bus_ref \<Rightarrow> nat \<Rightarrow> target_bus_slot \<Rightarrow> bool" where
  "holds b r j slot \<longleftrightarrow> j < length (get_bus r b) \<and> get_bus r b ! j = slot \<and> slot \<noteq> BusSlotEmpty"

definition tight :: "target_bus_slot list \<Rightarrow> bool" where
  "tight bus \<longleftrightarrow> bus = [] \<or> last bus \<noteq> BusSlotEmpty"

lemma tight_put:
  assumes "tight bus" and "slot \<noteq> BusSlotEmpty"
  shows "tight (put bus j slot)"
proof -
  let ?n = "length (put bus j slot) - 1"
  have n: "?n < length (put bus j slot)" by (simp add: put_length)
  have "put bus j slot ! ?n \<noteq> BusSlotEmpty"
  proof (cases "length bus \<le> Suc j")
    case True
    then have "?n = j" by (simp add: put_length)
    with put_nth [OF n] assms(2) show ?thesis by simp
  next
    case False
    then have m: "?n = length bus - 1" "bus \<noteq> []" by (auto simp: put_length)
    then have "bus ! (length bus - 1) \<noteq> BusSlotEmpty" using assms(1) by (simp add: tight_def last_conv_nth)
    with put_nth [OF n] assms(2) m False show ?thesis by auto
  qed
  then show ?thesis using n by (auto simp: tight_def last_conv_nth)
qed

lemma placed_holds:
  assumes "placed r j slot b b'" and "slot \<noteq> BusSlotEmpty"
  shows "holds b' r' k s \<longleftrightarrow> (r' = r \<and> k = j \<and> s = slot) \<or> holds b r' k s"
  using assms put_nth [of k "get_bus r b" j slot]
  by (auto simp: placed_def holds_def put_length vacant_def less_max_iff_disj split: if_splits)

lemma placed_props:
  assumes "placed r j slot b b'" and "slot \<noteq> BusSlotEmpty"
  shows "occupied (get_bus r' b') = (if r' = r then {#slot#} else {#}) + occupied (get_bus r' b)" "holds b' r j slot"
    "holds b r' k s \<Longrightarrow> holds b' r' k s"
    "length (get_bus r' b') = (if r' = r then max (length (get_bus r b)) (Suc j) else length (get_bus r' b))"
    "(\<And>r'. tight (get_bus r' b)) \<Longrightarrow> tight (get_bus r' b')"
  using assms occupied_put [of "get_bus r b" j slot] placed_holds [OF assms]
  by (auto simp: placed_def put_length tight_put)

text \<open>The devices assigned so far, in a state whose arrays are not longer than \<open>N\<close>.\<close>

definition assigned :: "(bus_ref \<times> target_bus_slot) list \<Rightarrow> nat \<Rightarrow> target_buses \<Rightarrow> bool" where
  "assigned devs N b \<longleftrightarrow>
     (\<forall>r. occupied (get_bus r b) = mset (map snd (filter (\<lambda>d. fst d = r) devs)) \<and>
        length (get_bus r b) \<le> N \<and> tight (get_bus r b))"

lemma bus_refs: "fst d = Virtio_blk_bus \<or> fst d = Ide_bus \<or> fst d = Scsi_bus \<or> fst d = Floppy_bus"
  by (cases "fst d") simp_all

lemma devices_by_bus:
  "mset (map snd (filter (\<lambda>d. fst d = Virtio_blk_bus) devs)) + mset (map snd (filter (\<lambda>d. fst d = Ide_bus) devs)) +
   mset (map snd (filter (\<lambda>d. fst d = Scsi_bus) devs)) + mset (map snd (filter (\<lambda>d. fst d = Floppy_bus) devs)) = mset (map snd devs)"
proof (induction devs)
  case (Cons d devs)
  then show ?case using bus_refs [of d] by auto
qed simp

lemma assigned_all:
  assumes "assigned devs N b"
  shows "all_occupied b = mset (map snd devs)"
proof -
  have "occupied (get_bus r b) = mset (map snd (filter (\<lambda>d. fst d = r) devs))" for r using assms by (simp add: assigned_def)
  then show ?thesis
    unfolding all_occupied_def devices_by_bus [of devs, symmetric] get_bus.simps [of b, symmetric] by (simp only:)
qed

lemma assigned_placed:
  assumes "assigned devs N b" and "placed r j slot b b'" and "slot \<noteq> BusSlotEmpty" and "j \<le> max D N"
  shows "assigned (devs @ [(r, slot)]) (Suc (max D N)) b'"
proof -
  note p = placed_props [OF assms(2,3)]
  have "length (get_bus r' b') \<le> Suc (max D N)" for r'
    using assms(1,4) by (simp add: p(4) assigned_def) (use le_SucI max.coboundedI2 in blast)
  moreover have "tight (get_bus r' b')" for r' using p(5) assms(1) by (simp add: assigned_def)
  moreover have "occupied (get_bus r' b') = mset (map snd (filter (\<lambda>d. fst d = r') (devs @ [(r, slot)])))" for r'
    using assms(1) p(1) by (simp add: assigned_def)
  ultimately show ?thesis unfolding assigned_def by auto
qed

lemma assign_disks_ok:
  assumes "int (length ds) < max_array_length"
  shows "\<exists>b'. foreachR (assign_disk r) (zip [0..<length ds] ds)
      \<lparr>target_virtio_blk_bus = [], target_ide_bus = [], target_scsi_bus = [], target_floppy_bus = []\<rparr> = Inr b' \<and>
    assigned (map (\<lambda>d. (r, BusSlotDisk d)) ds) (length ds) b' \<and> get_bus r b' = map BusSlotDisk ds"
  using assms
proof (induction ds rule: rev_induct)
  case Nil
  have "get_bus r \<lparr>target_virtio_blk_bus = [], target_ide_bus = [], target_scsi_bus = [], target_floppy_bus = []\<rparr> = []" for r
    by (cases r) simp_all
  then show ?case by (simp add: assigned_def occupied_def tight_def)
next
  case (snoc d ds)
  then obtain b where b: "foreachR (assign_disk r) (zip [0..<length ds] ds)
      \<lparr>target_virtio_blk_bus = [], target_ide_bus = [], target_scsi_bus = [], target_floppy_bus = []\<rparr> = Inr b"
    "assigned (map (\<lambda>d. (r, BusSlotDisk d)) ds) (length ds) b" "get_bus r b = map BusSlotDisk ds"
    by auto
  let ?b' = "set_bus r (put (get_bus r b) (length ds) (BusSlotDisk d)) b"
  have v: "vacant (get_bus r b) (length ds)" by (simp add: b(3) vacant_def)
  have "assign_disk r (length ds, d) b = Inr ?b'"
    using bus_insert_eq [OF v] snoc.prems by (simp add: assign_disk_def)
  moreover have "assigned (map (\<lambda>d. (r, BusSlotDisk d)) ds @ [(r, BusSlotDisk d)]) (Suc (max 0 (length ds))) ?b'"
    by (rule assigned_placed [OF b(2)]) (use v in \<open>auto simp: placed_def\<close>)
  moreover have "put (map BusSlotDisk ds) (length ds) (BusSlotDisk d) = map BusSlotDisk (ds @ [d])"
    by (simp add: put_def list_update_append)
  ultimately show ?case using b(1,3) by (simp add: foreachR_append)
qed

text \<open>The slot a removable device asks for; no slot counts as the first.\<close>

definition desired :: "source_removable \<Rightarrow> int" where
  "desired r = (case s_removable_slot r of None \<Rightarrow> 0 | Some n \<Rightarrow> n)"

definition device :: "source_removable \<Rightarrow> bus_ref \<times> target_bus_slot" where
  "device r = (removable_bus r, BusSlotRemovable r)"

lemma assign_removable_ok:
  assumes "0 \<le> desired r" and "assigned devs N b" and "max (desired r) (int N) < max_array_length"
  shows "\<exists>b'. placed (removable_bus r) (next_free (get_bus (removable_bus r) b) (nat (desired r))) (BusSlotRemovable r) b b' \<and>
    assign_removable r (b, ws) = Inr (b', ws @ (case s_removable_slot r of
        Some n \<Rightarrow> if vacant (get_bus (removable_bus r) b) (nat n) then [] else [(s_removable_type r, n)] | None \<Rightarrow> []))"
proof -
  let ?bus = "get_bus (removable_bus r) b" and ?n = "nat (desired r)"
  have "length ?bus \<le> N" using assms(2) by (simp add: assigned_def)
  then have "next_free ?bus ?n \<le> max ?n N" using next_free(3) [of ?bus ?n] by simp
  then have "int (next_free ?bus ?n) < max_array_length" using assms(1,3) by linarith
  then have "insert_after ?bus (desired r) (BusSlotRemovable r) =
      Inr (next_free ?bus ?n = ?n, put ?bus (next_free ?bus ?n) (BusSlotRemovable r))"
    using insert_after_eq [of ?bus ?n] assms(1) by simp
  moreover have "next_free ?bus ?n = ?n \<longleftrightarrow> vacant ?bus ?n"
    using next_free(2) [of ?bus ?n] next_free_here [of ?bus ?n] by auto
  ultimately have "insert_after ?bus (desired r) (BusSlotRemovable r) =
      Inr (vacant ?bus ?n, put ?bus (next_free ?bus ?n) (BusSlotRemovable r))"
    by simp
  then show ?thesis
    using next_free(2) [of ?bus ?n]
    by (cases "s_removable_slot r") (simp_all add: placed_def assign_removable_def desired_def Let_def)
qed


text \<open>Where devices belong: fixed disks on virtio-blk when the guest supports it and else on IDE, floppies on the floppy bus,
  CD-ROMs on the bus of their controller, with SCSI for SATA and NVMe and IDE when no controller is known.\<close>

definition disk_home :: "guestcaps \<Rightarrow> bus_ref" where
  "disk_home caps = (if gcaps_block_bus caps = Virtio_blk then Virtio_blk_bus else Ide_bus)"

definition home_bus :: "source_removable \<Rightarrow> bus_ref" where
  "home_bus r =
     (if s_removable_type r = Floppy then Floppy_bus
      else if s_removable_controller r = None \<or> s_removable_controller r = Some Source_IDE then Ide_bus
      else if s_removable_controller r = Some Source_virtio_blk then Virtio_blk_bus
      else Scsi_bus)"

lemma block_bus_home: "block_bus (gcaps_block_bus caps) = disk_home caps"
  by (cases "gcaps_block_bus caps") (simp_all add: block_bus_def disk_home_def)

lemma removable_bus_home: "removable_bus r = home_bus r"
  by (simp add: removable_bus_def home_bus_def split: s_removable_type.split option.split s_controller.split)

text \<open>The devices in the order of the assignment, those that had a slot first, and what first fit means for them:
  each takes the first slot from the wanted one on that is not taken yet. The slots taken are pairs of bus and number;
  \<open>clashes\<close> are the devices that did not get their slot.\<close>

definition removable_order :: "source_removable list \<Rightarrow> source_removable list" where
  "removable_order rs = filter (\<lambda>r. s_removable_slot r \<noteq> None) rs @ filter (\<lambda>r. s_removable_slot r = None) rs"

fun first_fit :: "(bus_ref \<times> nat) set \<Rightarrow> source_removable list \<Rightarrow> nat list \<Rightarrow> bool" where
  "first_fit taken [] js \<longleftrightarrow> js = []"
| "first_fit taken (r # rs) [] \<longleftrightarrow> False"
| "first_fit taken (r # rs) (j # js) \<longleftrightarrow>
     desired r \<le> int j \<and> (home_bus r, j) \<notin> taken \<and>
     (\<forall>k < j. desired r \<le> int k \<longrightarrow> (home_bus r, k) \<in> taken) \<and>
     first_fit ({(home_bus r, j)} \<union> taken) rs js"

definition clashes :: "source_removable list \<Rightarrow> nat list \<Rightarrow> clash list" where
  "clashes rs js = concat (map2 (\<lambda>r j. case s_removable_slot r of
     None \<Rightarrow> [] | Some n \<Rightarrow> if n = int j then [] else [(s_removable_type r, n)]) rs js)"

definition placements :: "source_removable list \<Rightarrow> nat list \<Rightarrow> (bus_ref \<times> nat \<times> target_bus_slot) list" where
  "placements rs js = map2 (\<lambda>r j. (home_bus r, j, BusSlotRemovable r)) rs js"

definition taken_slots :: "target_buses \<Rightarrow> (bus_ref \<times> nat) set" where
  "taken_slots b = {(r, k). \<exists>s. holds b r k s}"

lemma not_vacant_taken: "\<not> vacant (get_bus r b) k \<longleftrightarrow> (r, k) \<in> taken_slots b"
  by (auto simp: vacant_def taken_slots_def holds_def)

lemma next_free_taken:
  "(r, next_free (get_bus r b) n) \<notin> taken_slots b"
  "k < next_free (get_bus r b) n \<Longrightarrow> n \<le> k \<Longrightarrow> (r, k) \<in> taken_slots b"
  using next_free(2) [of "get_bus r b" n] next_free_least [of n k "get_bus r b"] by (auto simp: not_vacant_taken [symmetric])

lemma taken_placed: "placed r j slot b b' \<Longrightarrow> slot \<noteq> BusSlotEmpty \<Longrightarrow> taken_slots b' = {(r, j)} \<union> taken_slots b"
  using placed_holds by (auto simp: taken_slots_def)

lemma clash_here:
  assumes "0 \<le> desired r"
  shows "(case s_removable_slot r of Some n \<Rightarrow> if vacant bus (nat n) then [] else [(s_removable_type r, n)] | None \<Rightarrow> []) =
    clashes [r] [next_free bus (nat (desired r))]"
proof (cases "s_removable_slot r")
  case None
  then show ?thesis by (simp add: clashes_def)
next
  case (Some n)
  have "vacant bus (nat n) \<longleftrightarrow> next_free bus (nat n) = nat n" using next_free(2) [of bus "nat n"] next_free_here [of bus "nat n"] by auto
  moreover have "n = int (next_free bus (nat n)) \<longleftrightarrow> next_free bus (nat n) = nat n" using assms Some by (auto simp: desired_def)
  ultimately show ?thesis using Some by (simp add: clashes_def desired_def)
qed

text \<open>A group of removable devices: first fit, nothing moves, and the warnings are the clashes.\<close>

lemma assign_removables_ok:
  assumes "\<And>r. r \<in> set rs \<Longrightarrow> 0 \<le> desired r \<and> desired r \<le> int N" and "assigned devs N b"
    and "int (N + length rs) \<le> max_array_length"
  shows "\<exists>b' js. foreachR assign_removable rs (b, ws) = Inr (b', ws @ clashes rs js) \<and>
    assigned (devs @ map device rs) (N + length rs) b' \<and> first_fit (taken_slots b) rs js \<and>
    (\<forall>r k s. holds b' r k s \<longleftrightarrow> holds b r k s \<or> (r, k, s) \<in> set (placements rs js))"
  using assms
proof (induction rs arbitrary: N devs b ws)
  case Nil
  then show ?case by (intro exI [of _ b] exI [of _ "[]"]) (simp add: clashes_def placements_def)
next
  case (Cons r rs)
  let ?bus = "get_bus (removable_bus r) b" and ?slot = "BusSlotRemovable r"
  let ?j = "next_free ?bus (nat (desired r))"
  let ?w = "clashes [r] [?j]"
  have d: "0 \<le> desired r" "desired r \<le> int N" using Cons.prems(1) by auto
  have m: "max (desired r) (int N) < max_array_length" using d Cons.prems(3) by simp
  obtain b1 where b1: "placed (removable_bus r) ?j ?slot b b1" "assign_removable r (b, ws) = Inr (b1, ws @ ?w)"
    using assign_removable_ok [OF d(1) Cons.prems(2) m, of ws] clash_here [OF d(1), of ?bus] by auto
  have "length ?bus \<le> N" using Cons.prems(2) by (simp add: assigned_def)
  with next_free(3) [of ?bus "nat (desired r)"] d have "?j \<le> max N N" by linarith
  from assigned_placed [OF Cons.prems(2) b1(1) _ this] have a1: "assigned (devs @ [device r]) (Suc N) b1"
    by (simp add: device_def)
  have p1: "\<And>r'. r' \<in> set rs \<Longrightarrow> 0 \<le> desired r' \<and> desired r' \<le> int (Suc N)" using Cons.prems(1) by force
  have p2: "int (Suc N + length rs) \<le> max_array_length" using Cons.prems(3) by simp
  obtain b' js where IH: "foreachR assign_removable rs (b1, ws @ ?w) = Inr (b', (ws @ ?w) @ clashes rs js)"
    "assigned ((devs @ [device r]) @ map device rs) (Suc N + length rs) b'" "first_fit (taken_slots b1) rs js"
    "\<forall>r k s. holds b' r k s \<longleftrightarrow> holds b1 r k s \<or> (r, k, s) \<in> set (placements rs js)"
    using Cons.IH [OF p1 a1 p2, of "ws @ ?w"] by blast
  have "first_fit (taken_slots b) (r # rs) (?j # js)"
    using IH(3) d(1) next_free(1) [of "nat (desired r)" ?bus] next_free_taken [where r = "removable_bus r" and b = b and n = "nat (desired r)"]
    by (simp add: taken_placed [OF b1(1)] removable_bus_home [symmetric])
  moreover have "holds b' r' k s \<longleftrightarrow> holds b r' k s \<or> (r', k, s) \<in> set (placements (r # rs) (?j # js))" for r' k s
    using IH(4) placed_holds [OF b1(1), of r' k s] by (auto simp: placements_def removable_bus_home)
  moreover have "?w @ clashes rs js = clashes (r # rs) (?j # js)" by (simp add: clashes_def)
  ultimately show ?case using IH(1,2) b1(2) by (intro exI [of _ b'] exI [of _ "?j # js"]) simp
qed

lemma target_bus_assignment_order:
  "target_bus_assignment ds rs caps =
     bindR (foreachR (assign_disk (disk_home caps)) (zip [0..<length ds] ds)
       \<lparr>target_virtio_blk_bus = [], target_ide_bus = [], target_scsi_bus = [], target_floppy_bus = []\<rparr>)
       (\<lambda>b. foreachR assign_removable (removable_order rs) (b, []))"
  by (simp add: target_bus_assignment_def removable_order_def comp_def block_bus_home)

lemma removable_order_props:
  "set (removable_order rs) = set rs" "length (removable_order rs) = length rs" "mset (removable_order rs) = mset rs"
proof -
  show "mset (removable_order rs) = mset rs" by (simp add: removable_order_def)
  then show "set (removable_order rs) = set rs" "length (removable_order rs) = length rs"
    by (metis set_mset_mset, metis size_mset)
qed

lemma assign_removable_negative:
  "desired r < 0 \<Longrightarrow> assign_removable r (b, ws) = Inl (OInvalid_argument ''index out of bounds'')"
  by (cases "s_removable_slot r") (simp_all add: assign_removable_def desired_def Let_def insert_after.simps slot_is_empty_def)

text \<open>The whole assignment, device by device.\<close>

lemma target_bus_assignment_ok:
  assumes "\<And>r. r \<in> set rs \<Longrightarrow> desired r \<le> int M" and "int (M + length ds + length rs) < max_array_length"
  shows "if \<exists>r \<in> set rs. desired r < 0 then target_bus_assignment ds rs caps = Inl (OInvalid_argument ''index out of bounds'')
    else \<exists>b js. target_bus_assignment ds rs caps = Inr (b, clashes (removable_order rs) js) \<and>
      assigned (map (\<lambda>d. (disk_home caps, BusSlotDisk d)) ds @ map device (removable_order rs)) (M + length ds + length rs) b \<and>
      first_fit {(disk_home caps, i) | i. i < length ds} (removable_order rs) js \<and>
      (\<forall>r k s. holds b r k s \<longleftrightarrow>
         r = disk_home caps \<and> k < length ds \<and> s = BusSlotDisk (ds ! k) \<or>
         (r, k, s) \<in> set (placements (removable_order rs) js))"
proof -
  let ?B = "disk_home caps" and ?N = "M + length ds" and ?order = "removable_order rs"
  obtain b0 where b0: "foreachR (assign_disk ?B) (zip [0..<length ds] ds)
      \<lparr>target_virtio_blk_bus = [], target_ide_bus = [], target_scsi_bus = [], target_floppy_bus = []\<rparr> = Inr b0"
    "assigned (map (\<lambda>d. (?B, BusSlotDisk d)) ds) (length ds) b0" "get_bus ?B b0 = map BusSlotDisk ds"
    using assign_disks_ok [of ds ?B] assms(2) by auto
  have a0: "assigned (map (\<lambda>d. (?B, BusSlotDisk d)) ds) ?N b0" using b0(2) by (auto simp: assigned_def intro: trans_le_add2)
  have run: "target_bus_assignment ds rs caps = foreachR assign_removable ?order (b0, [])"
    by (simp add: target_bus_assignment_order b0(1))
  have le: "desired r \<le> int ?N" if "r \<in> set ?order" for r using assms(1) [of r] that by (simp add: removable_order_props)
  show ?thesis
  proof (cases "\<exists>r \<in> set rs. desired r < 0")
    case True
    then obtain pre r post where r: "?order = pre @ r # post" "desired r < 0" "\<forall>x \<in> set pre. \<not> desired x < 0"
      using split_list_first_prop [of ?order "\<lambda>r. desired r < 0"] by (auto simp: removable_order_props)
    have n: "int (?N + length pre) \<le> max_array_length"
      using assms(2) arg_cong [OF r(1), of length] by (simp add: removable_order_props)
    obtain b1 ws where "foreachR assign_removable pre (b0, []) = Inr (b1, ws)"
      using assign_removables_ok [OF _ a0 n, of "[]"] le r(1,3) by force
    then have "foreachR assign_removable ?order (b0, []) = Inl (OInvalid_argument ''index out of bounds'')"
      by (simp add: r(1) assign_removable_negative [OF r(2)])
    with True run show ?thesis by simp
  next
    case False
    then have d: "\<And>r. r \<in> set ?order \<Longrightarrow> 0 \<le> desired r \<and> desired r \<le> int ?N" using le by (force simp: removable_order_props)
    have n: "int (?N + length ?order) \<le> max_array_length" using assms(2) by (simp add: removable_order_props)
    have h0: "holds b0 r k s \<longleftrightarrow> r = ?B \<and> k < length ds \<and> s = BusSlotDisk (ds ! k)" for r k s
    proof (cases "r = ?B")
      case True
      then show ?thesis by (auto simp: holds_def b0(3))
    next
      case False
      then have "occupied (get_bus r b0) = {#}" using b0(2) by (auto simp: assigned_def filter_empty_conv)
      then show ?thesis using False by (auto simp: holds_def occupied_def filter_empty_conv)
    qed
    then have t0: "taken_slots b0 = {(?B, i) | i. i < length ds}" by (auto simp: taken_slots_def)
    show ?thesis using assign_removables_ok [OF d a0 n, of "[]"] False
      by (simp add: run h0 t0 removable_order_props)
  qed
qed

lemma negative_slot_raises:
  assumes "s_removable_slot r = Some n" and "n < 0"
  shows "target_bus_assignment [] (r # rs) caps = Inl (OInvalid_argument ''index out of bounds'')"
  using assms by (simp add: target_bus_assignment_order removable_order_def assign_removable_negative desired_def)

subsection \<open>Properties\<close>

text \<open>The search for a slot ends and finds the first empty slot from the desired one on: \<open>insert_after\<close>
  puts the device there, changes no other slot, and returns whether this is the desired slot.\<close>

theorem insert_after_correct:
  assumes "int (max n (length bus)) < max_array_length"
  shows "\<exists>j. n \<le> j \<and> vacant bus j \<and> list_all (\<lambda>k. \<not> vacant bus k) [n..<j] \<and>
    insert_after bus (int n) slot = Inr (j = n, put bus j slot) \<and>
    list_all (\<lambda>k. put bus j slot ! k = (if k = j then slot else if k < length bus then bus ! k else BusSlotEmpty))
      [0..<length (put bus j slot)]"
proof (intro exI [of _ "next_free bus n"] conjI)
  have "int (next_free bus n) < max_array_length" using assms next_free(3) [of bus n] by linarith
  then show "insert_after bus (int n) slot = Inr (next_free bus n = n, put bus (next_free bus n) slot)"
    by (rule insert_after_eq)
qed (auto simp: next_free list_all_iff put_nth dest: next_free_least)

text \<open>C3: the assignment of disks and removable devices whose slot numbers fit in an array. When some device had a
  negative slot on the source, it ends with \<open>Invalid_argument\<close>, whatever the other devices are. Otherwise it succeeds
  without an assertion failure or an access out of bounds: disk \<open>i\<close> is in slot \<open>i\<close> of the bus that the guest supports;
  then the removable devices, those with a slot on the source first, take on the bus of their controller the first slot
  from the wanted one on that is not taken (\<open>first_fit\<close>), so that a device is moved only when its slot is taken; nothing else is
  on the buses, no device is lost or placed twice, no bus ends with an empty slot; and a warning is printed for exactly
  the devices that did not get the slot they had.\<close>

theorem target_bus_assignment_correct:
  assumes "\<And>r. r \<in> set rs \<Longrightarrow> desired r \<le> int M" and "int (M + length ds + length rs) < max_array_length"
  shows "if \<exists>r \<in> set rs. desired r < 0 then target_bus_assignment ds rs caps = Inl (OInvalid_argument ''index out of bounds'')
    else \<exists>b js. target_bus_assignment ds rs caps = Inr (b, clashes (removable_order rs) js) \<and>
      first_fit {(disk_home caps, i) | i. i < length ds} (removable_order rs) js \<and>
      (\<forall>r k s. holds b r k s \<longleftrightarrow>
         r = disk_home caps \<and> k < length ds \<and> s = BusSlotDisk (ds ! k) \<or>
         (r, k, s) \<in> set (placements (removable_order rs) js)) \<and>
      all_occupied b = mset (map BusSlotDisk ds) + mset (map BusSlotRemovable rs) \<and>
      (\<forall>r. tight (get_bus r b))"
proof -
  have "all_occupied b = mset (map BusSlotDisk ds) + mset (map BusSlotRemovable rs) \<and> (\<forall>r. tight (get_bus r b))"
    if "assigned (map (\<lambda>d. (B, BusSlotDisk d)) ds @ map device (removable_order rs)) N b" for B N b
    using assigned_all [OF that] that by (simp add: assigned_def device_def comp_def removable_order_props)
  note more = this
  show ?thesis
  proof (cases "\<exists>r \<in> set rs. desired r < 0")
    case True
    then show ?thesis using target_bus_assignment_ok [OF assms, of caps] by (simp only: if_True)
  next
    case False
    with target_bus_assignment_ok [OF assms, of caps] more show ?thesis by (simp only: if_False) blast
  qed
qed

text \<open>A negative slot, which a source description can contain, ends the assignment with
  \<open>Invalid_argument\<close>.\<close>

theorem negative_slot_fails:
  assumes "s_removable_slot r = Some n" and "n < 0"
  shows "target_bus_assignment [] (r # rs) caps = Inl (OInvalid_argument ''index out of bounds'')"
  by (rule negative_slot_raises [OF assms])

subsection \<open>Instances\<close>

definition demo_caps :: guestcaps where
  "demo_caps = \<lparr>gcaps_block_bus = IDE, gcaps_net_bus = E1000, gcaps_virtio_rng = False, gcaps_virtio_balloon = False,
     gcaps_isa_pvpanic = False, gcaps_virtio_socket = False, gcaps_machine = I440FX, gcaps_arch = ''x86_64'', gcaps_acpi = True,
     gcaps_virtio_1_0 = True\<rparr>"

definition demo_disks :: "source_disk list" where
  "demo_disks = [\<lparr>s_disk_id = 0, s_controller = Some Source_IDE\<rparr>, \<lparr>s_disk_id = 1, s_controller = None\<rparr>]"

definition demo_cdrom :: "int option \<Rightarrow> source_removable" where
  "demo_cdrom n = \<lparr>s_removable_type = CDROM, s_removable_controller = None, s_removable_slot = n\<rparr>"

theorem insert_after_correct_witness:
  "\<exists>j. 0 \<le> j \<and> vacant [BusSlotRemovable (demo_cdrom None)] j \<and> list_all (\<lambda>k. \<not> vacant [BusSlotRemovable (demo_cdrom None)] k) [0..<j] \<and>
    insert_after [BusSlotRemovable (demo_cdrom None)] (int 0) (BusSlotRemovable (demo_cdrom (Some 0))) =
      Inr (j = 0, put [BusSlotRemovable (demo_cdrom None)] j (BusSlotRemovable (demo_cdrom (Some 0)))) \<and>
    list_all (\<lambda>k. put [BusSlotRemovable (demo_cdrom None)] j (BusSlotRemovable (demo_cdrom (Some 0))) ! k =
        (if k = j then BusSlotRemovable (demo_cdrom (Some 0))
         else if k < length [BusSlotRemovable (demo_cdrom None)] then [BusSlotRemovable (demo_cdrom None)] ! k else BusSlotEmpty))
      [0..<length (put [BusSlotRemovable (demo_cdrom None)] j (BusSlotRemovable (demo_cdrom (Some 0))))]"
  by (rule insert_after_correct) (simp add: max_array_length_def)

theorem target_bus_assignment_correct_witness:
  "(\<exists>b js. target_bus_assignment demo_disks [demo_cdrom None, demo_cdrom (Some 1)] demo_caps =
       Inr (b, clashes [demo_cdrom (Some 1), demo_cdrom None] js) \<and>
     first_fit {(Ide_bus, 0), (Ide_bus, 1)} [demo_cdrom (Some 1), demo_cdrom None] js \<and>
     all_occupied b = mset (map BusSlotDisk demo_disks) + mset (map BusSlotRemovable [demo_cdrom None, demo_cdrom (Some 1)])) \<and>
   target_bus_assignment demo_disks [demo_cdrom None, demo_cdrom (Some (- 1))] demo_caps = Inl (OInvalid_argument ''index out of bounds'')"
proof -
  have d1: "\<And>r. r \<in> set [demo_cdrom None, demo_cdrom (Some 1)] \<Longrightarrow> desired r \<le> int 1"
    and d2: "\<And>r. r \<in> set [demo_cdrom None, demo_cdrom (Some (- 1))] \<Longrightarrow> desired r \<le> int 1"
    by (auto simp: desired_def demo_cdrom_def)
  have m: "int (1 + length demo_disks + length [demo_cdrom None, demo_cdrom (Some n)]) < max_array_length" for n
    by (simp add: demo_disks_def max_array_length_def)
  have o1: "removable_order [demo_cdrom None, demo_cdrom (Some 1)] = [demo_cdrom (Some 1), demo_cdrom None]"
    by (simp add: removable_order_def demo_cdrom_def)
  have t: "{(disk_home demo_caps, i) | i. i < length demo_disks} = {(Ide_bus, 0), (Ide_bus, 1)}"
    by (auto simp: demo_disks_def demo_caps_def disk_home_def less_Suc_eq numeral_2_eq_2)
  have "\<not> (\<exists>r \<in> set [demo_cdrom None, demo_cdrom (Some 1)]. desired r < 0)" by (simp add: desired_def demo_cdrom_def)
  with target_bus_assignment_correct [OF d1 m [of 1], of demo_caps]
  have 1: "\<exists>b js. target_bus_assignment demo_disks [demo_cdrom None, demo_cdrom (Some 1)] demo_caps =
       Inr (b, clashes [demo_cdrom (Some 1), demo_cdrom None] js) \<and>
     first_fit {(Ide_bus, 0), (Ide_bus, 1)} [demo_cdrom (Some 1), demo_cdrom None] js \<and>
     all_occupied b = mset (map BusSlotDisk demo_disks) + mset (map BusSlotRemovable [demo_cdrom None, demo_cdrom (Some 1)])"
    unfolding o1 t by (simp only: if_False) blast
  have "\<exists>r \<in> set [demo_cdrom None, demo_cdrom (Some (- 1))]. desired r < 0" by (simp add: desired_def demo_cdrom_def)
  with target_bus_assignment_correct [OF d2 m [of "- 1"], of demo_caps] 1
  show ?thesis by simp
qed

theorem negative_slot_fails_witness:
  "target_bus_assignment [] [demo_cdrom (Some (- 2))] demo_caps = Inl (OInvalid_argument ''index out of bounds'')"
  by (rule negative_slot_fails [where n = "- 2"]) (simp_all add: demo_cdrom_def)

end
