(* ===== verification/Composition.thy ===== *)
theory Composition
  imports VmxText VmxDomain TargetBus
begin

section \<open>From a VMX file to the buses of the target\<close>

text \<open>
  The parser and the search for devices, followed by the assignment of the devices to the buses of the target
  (\<open>convert/target_bus_assignment.ml\<close>).
\<close>

definition negative_entries :: "(string list \<times> string) list" where
  "negative_entries = [([''ide-1:0'', ''deviceType''], ''cdrom-image'')]"

text \<open>A CD-ROM in a namespace with a negative controller number, which the scanner accepts, makes the assignment
  raise: the document of one line naming it is read without a warning and the conversion then fails.\<close>

theorem negative_controller_fails:
  assumes "nsplit_law lib" "trim_law lib" "hex_law lib" "rex_law lib"
  shows "\<exists>vmx r. parse_string lib (document negative_entries) = Inr (vmx, []) \<and> find_disks vmx = Inr [] \<and> find_removables vmx = Inr [r] \<and>
    target_bus_assignment [] [r] caps = Inl (OInvalid_argument ''index out of bounds'')"
proof -
  let ?r = "\<lparr>s_removable_type = CDROM, s_removable_controller = Some Source_IDE, s_removable_slot = Some (- 2)\<rparr>"
  let ?vmx = "[(''ide-1:0'', Namespace [(''devicetype'', Key ''cdrom-image'')])]"
  have "list_all (\<lambda>(p, v). p \<noteq> [] \<and> names_ok p) negative_entries" by code_simp
  moreover have "bindR (build_vmx (lower_entries negative_entries)) (\<lambda>(vmx, ws). Inr (drop_not_present vmx, ws)) = Inr (?vmx, [])" by code_simp
  ultimately have "parse_string lib (document negative_entries) = Inr (?vmx, [])" by (simp only: parse_string_document [OF assms])
  moreover have "find_disks ?vmx = Inr []" by code_simp
  moreover have "find_removables ?vmx = Inr [?r]" by code_simp
  moreover have "target_bus_assignment [] [?r] caps = Inl (OInvalid_argument ''index out of bounds'')"
    by (rule negative_slot_raises [of _ "- 2"]) simp_all
  ultimately show ?thesis by blast
qed

theorem negative_controller_fails_witness:
  "\<exists>vmx r. parse_string demo_vmx_lib (document negative_entries) = Inr (vmx, []) \<and> find_disks vmx = Inr [] \<and> find_removables vmx = Inr [r] \<and>
    target_bus_assignment [] [r] demo_caps = Inl (OInvalid_argument ''index out of bounds'')"
  by (rule negative_controller_fails [OF demo_vmx_lib_laws])

end
