(* ===== verification/Networks.thy ===== *)
theory Networks
  imports V2VTypes
begin

section \<open>Mapping networks, bridges and MAC addresses (lib/networks.ml, v2v/v2v.ml)\<close>

text \<open>
  The mutable record of \<open>networks.ml\<close> is passed and returned; \<open>error\<close> ends the program. The options
  \<open>--network\<close>, \<open>--bridge\<close> and \<open>--mac\<close> are parsed by \<open>v2v.ml\<close>, with functions of the shared library
  \<open>common\<close>, which is not part of the sources: \<open>String.split\<close>, \<open>String.nsplit\<close> and the two regular
  expressions are parameters.
\<close>

subsection \<open>The mapping\<close>

record networks =
  macs :: "(vnet_type \<times> string) string_map"
  network_map :: "string string_map"
  default_network :: "string option"
  bridge_map :: "string string_map"
  default_bridge :: "string option"

definition networks_map :: "networks \<Rightarrow> source_nic \<Rightarrow> source_nic" where
  "networks_map t nic =
     (case (case s_mac nic of None \<Rightarrow> None | Some mac \<Rightarrow> map_of (macs t) (lowercase_ascii mac)) of
        Some (vnet_type, vnet) \<Rightarrow> nic\<lparr>s_vnet_type := vnet_type, s_vnet := vnet\<rparr>
      | None \<Rightarrow>
          (case s_vnet_type nic of
             Network \<Rightarrow>
               (case map_of (network_map t) (s_vnet nic) of
                  Some vnet \<Rightarrow> nic\<lparr>s_vnet := vnet\<rparr>
                | None \<Rightarrow> (case default_network t of None \<Rightarrow> nic | Some d \<Rightarrow> nic\<lparr>s_vnet := d\<rparr>))
           | Bridge \<Rightarrow>
               (case map_of (bridge_map t) (s_vnet nic) of
                  Some vnet \<Rightarrow> nic\<lparr>s_vnet := vnet\<rparr>
                | None \<Rightarrow> (case default_bridge t of None \<Rightarrow> nic | Some d \<Rightarrow> nic\<lparr>s_vnet := d\<rparr>))))"

definition networks_create :: networks where
  "networks_create = \<lparr>macs = [], network_map = [], default_network = None, bridge_map = [], default_bridge = None\<rparr>"

definition networks_add_mac :: "networks \<Rightarrow> string \<Rightarrow> vnet_type \<Rightarrow> string \<Rightarrow> networks oc" where
  "networks_add_mac t mac vnet_type vnet =
     (let mac = lowercase_ascii mac
      in if map_of (macs t) mac \<noteq> None then Inl (OError ''duplicate --mac parameter'')
         else Inr (t\<lparr>macs := smap_add mac (vnet_type, vnet) (macs t)\<rparr>))"

definition networks_add_network :: "networks \<Rightarrow> string \<Rightarrow> string \<Rightarrow> networks oc" where
  "networks_add_network t i out =
     (if map_of (network_map t) i \<noteq> None then Inl (OError ''duplicate -n/--network parameter'')
      else Inr (t\<lparr>network_map := smap_add i out (network_map t)\<rparr>))"

definition networks_add_default_network :: "networks \<Rightarrow> string \<Rightarrow> networks oc" where
  "networks_add_default_network t out =
     (if default_network t \<noteq> None then Inl (OError ''duplicate -n/--network parameter'')
      else Inr (t\<lparr>default_network := Some out\<rparr>))"

definition networks_add_bridge :: "networks \<Rightarrow> string \<Rightarrow> string \<Rightarrow> networks oc" where
  "networks_add_bridge t i out =
     (if map_of (bridge_map t) i \<noteq> None then Inl (OError ''duplicate -b/--bridge parameter'')
      else Inr (t\<lparr>bridge_map := smap_add i out (bridge_map t)\<rparr>))"

definition networks_add_default_bridge :: "networks \<Rightarrow> string \<Rightarrow> networks oc" where
  "networks_add_default_bridge t out =
     (if default_bridge t \<noteq> None then Inl (OError ''duplicate -b/--bridge parameter'')
      else Inr (t\<lparr>default_bridge := Some out\<rparr>))"

subsection \<open>The options\<close>

record static_ip =
  if_mac_addr :: string
  if_ip_address :: string
  if_default_gateway :: "string option"
  if_prefix_length :: "int option"
  if_nameservers :: "string list"

text \<open>\<open>mac_re\<close> yields the three groups of the expression, \<open>mac_ip_re\<close> whether it matches.\<close>

record common_lib =
  String_split :: "string \<Rightarrow> string \<Rightarrow> string \<times> string"
  String_nsplit :: "string \<Rightarrow> string \<Rightarrow> string list"
  mac_re :: "string \<Rightarrow> (string \<times> string \<times> string) option"
  mac_ip_re :: "string \<Rightarrow> bool"

definition add_network :: "'a common_lib_scheme \<Rightarrow> string \<Rightarrow> networks \<Rightarrow> networks oc" where
  "add_network lib str t =
     (case String_split lib '':'' str of
        (i, out) \<Rightarrow>
          if i = [] \<and> out = [] then Inl (OError ''invalid -n/--network parameter'')
          else if out = [] then networks_add_default_network t i
          else if i = [] then networks_add_default_network t out
          else networks_add_network t i out)"

definition add_bridge :: "'a common_lib_scheme \<Rightarrow> string \<Rightarrow> networks \<Rightarrow> networks oc" where
  "add_bridge lib str t =
     (case String_split lib '':'' str of
        (i, out) \<Rightarrow>
          if i = [] \<and> out = [] then Inl (OError ''invalid -b/--bridge parameter'')
          else if out = [] then networks_add_default_bridge t i
          else if i = [] then networks_add_default_bridge t out
          else networks_add_bridge t i out)"

definition error_unless_ip_addr :: "'a common_lib_scheme \<Rightarrow> string \<Rightarrow> unit oc" where
  "error_unless_ip_addr lib addr =
     (if mac_ip_re lib addr then Inr () else Inl (OError ''cannot parse --mac ip: not an IP address''))"

definition add_static_ip ::
  "'a common_lib_scheme \<Rightarrow> string \<Rightarrow> string \<Rightarrow> string option \<Rightarrow> string option \<Rightarrow> string list \<Rightarrow> static_ip list \<Rightarrow> static_ip list oc" where
  "add_static_ip lib mac ip gw len nameservers ips =
     bindR (error_unless_ip_addr lib ip) (\<lambda>_.
     bindR (case gw of None \<Rightarrow> Inr () | Some g \<Rightarrow> error_unless_ip_addr lib g) (\<lambda>_.
     bindR (foreachR (\<lambda>n _. error_unless_ip_addr lib n) nameservers ()) (\<lambda>_.
     bindR (case len of
              None \<Rightarrow> Inr None
            | Some l \<Rightarrow>
                (case int_of_string l of
                   Inl _ \<Rightarrow> Inl (OError ''cannot parse --mac ip prefix length field as an integer'')
                 | Inr n \<Rightarrow> if n < 0 \<or> n > 128 then Inl (OError ''--mac ip prefix length field is out of range'')
                           else Inr (Some n))) (\<lambda>prefix.
       Inr (ips @ [\<lparr>if_mac_addr = mac, if_ip_address = ip, if_default_gateway = gw, if_prefix_length = prefix,
                    if_nameservers = nameservers\<rparr>])))))"

definition add_mac :: "'a common_lib_scheme \<Rightarrow> string \<Rightarrow> networks \<times> static_ip list \<Rightarrow> (networks \<times> static_ip list) oc" where
  "add_mac lib str = (\<lambda>(t, ips).
     case mac_re lib str of
       None \<Rightarrow> Inl (OError ''cannot parse --mac parameter'')
     | Some (mac, kind, out) \<Rightarrow>
         if kind = ''network'' then bindR (networks_add_mac t mac Network out) (\<lambda>t. Inr (t, ips))
         else if kind = ''bridge'' then bindR (networks_add_mac t mac Bridge out) (\<lambda>t. Inr (t, ips))
         else if kind = ''ip''
         then bindR (case String_nsplit lib '','' out of
                       [] \<Rightarrow> Inl (OError ''invalid --mac ip option'')
                     | [ip] \<Rightarrow> add_static_ip lib mac ip None None [] ips
                     | [ip, gw] \<Rightarrow> add_static_ip lib mac ip (Some gw) None [] ips
                     | ip # gw # len # nameservers \<Rightarrow> add_static_ip lib mac ip (Some gw) (Some len) nameservers ips)
                (\<lambda>ips. Inr (t, ips))
         else Inl OAssert_failure)"

datatype net_option = Opt_network string | Opt_bridge string | Opt_mac string

text \<open>The options of a command line in order, from the empty mapping.\<close>

fun process_option :: "'a common_lib_scheme \<Rightarrow> net_option \<Rightarrow> networks \<times> static_ip list \<Rightarrow> (networks \<times> static_ip list) oc" where
  "process_option lib (Opt_network s) (t, ips) = bindR (add_network lib s t) (\<lambda>t. Inr (t, ips))"
| "process_option lib (Opt_bridge s) (t, ips) = bindR (add_bridge lib s t) (\<lambda>t. Inr (t, ips))"
| "process_option lib (Opt_mac s) (t, ips) = add_mac lib s (t, ips)"

definition process_options :: "'a common_lib_scheme \<Rightarrow> net_option list \<Rightarrow> (networks \<times> static_ip list) oc" where
  "process_options lib opts = foreachR (process_option lib) opts (networks_create, [])"

subsection \<open>What the options mean\<close>

text \<open>A mapping option is a rule for a network or bridge (\<open>None\<close> for the default) or for a MAC address.\<close>

datatype rule = Net_rule "string option" string | Bridge_rule "string option" string | Mac_rule string vnet_type string

definition in_out :: "string \<times> string \<Rightarrow> (string option \<times> string) option" where
  "in_out = (\<lambda>(i, out). if i = [] \<and> out = [] then None else if out = [] then Some (None, i) else if i = [] then Some (None, out)
     else Some (Some i, out))"

fun option_rule :: "'a common_lib_scheme \<Rightarrow> net_option \<Rightarrow> rule option" where
  "option_rule lib (Opt_network s) = map_option (\<lambda>(i, out). Net_rule i out) (in_out (String_split lib '':'' s))"
| "option_rule lib (Opt_bridge s) = map_option (\<lambda>(i, out). Bridge_rule i out) (in_out (String_split lib '':'' s))"
| "option_rule lib (Opt_mac s) =
     (case mac_re lib s of
        None \<Rightarrow> None
      | Some (mac, kind, out) \<Rightarrow>
          if kind = ''network'' then Some (Mac_rule mac Network out)
          else if kind = ''bridge'' then Some (Mac_rule mac Bridge out) else None)"

text \<open>Two rules collide when they are about the same thing; MAC addresses are compared without regard to case.\<close>

fun rule_key :: "rule \<Rightarrow> rule" where
  "rule_key (Net_rule i out) = Net_rule i []"
| "rule_key (Bridge_rule i out) = Bridge_rule i []"
| "rule_key (Mac_rule mac ty out) = Mac_rule (lowercase_ascii mac) Network []"

fun net_pair :: "rule \<Rightarrow> (string option \<times> string) list" where
  "net_pair (Net_rule i out) = [(i, out)]"
| "net_pair _ = []"

fun bridge_pair :: "rule \<Rightarrow> (string option \<times> string) list" where
  "bridge_pair (Bridge_rule i out) = [(i, out)]"
| "bridge_pair _ = []"

fun mac_pair :: "rule \<Rightarrow> (string \<times> vnet_type \<times> string) list" where
  "mac_pair (Mac_rule mac ty out) = [(lowercase_ascii mac, ty, out)]"
| "mac_pair _ = []"

text \<open>The rule for the card's MAC address counts first, then the one for its network or bridge, then the
  default of that kind; without any of them the card is left alone.\<close>

definition apply_rules :: "rule list \<Rightarrow> source_nic \<Rightarrow> source_nic" where
  "apply_rules rs nic =
     (let kind = (case s_vnet_type nic of Network \<Rightarrow> net_pair | Bridge \<Rightarrow> bridge_pair);
          pairs = concat (map kind rs)
      in case Option.bind (s_mac nic) (\<lambda>mac. map_of (concat (map mac_pair rs)) (lowercase_ascii mac)) of
           Some (ty, out) \<Rightarrow> nic\<lparr>s_vnet_type := ty, s_vnet := out\<rparr>
         | None \<Rightarrow>
             (case map_of pairs (Some (s_vnet nic)) of
                Some out \<Rightarrow> nic\<lparr>s_vnet := out\<rparr>
              | None \<Rightarrow> (case map_of pairs None of Some out \<Rightarrow> nic\<lparr>s_vnet := out\<rparr> | None \<Rightarrow> nic)))"

definition represents :: "rule list \<Rightarrow> networks \<Rightarrow> bool" where
  "represents rs t \<longleftrightarrow>
     map_of (macs t) = map_of (concat (map mac_pair rs)) \<and>
     (\<forall>k. map_of (network_map t) k = map_of (concat (map net_pair rs)) (Some k)) \<and>
     default_network t = map_of (concat (map net_pair rs)) None \<and>
     (\<forall>k. map_of (bridge_map t) k = map_of (concat (map bridge_pair rs)) (Some k)) \<and>
     default_bridge t = map_of (concat (map bridge_pair rs)) None"

lemma represents_map: "represents rs t \<Longrightarrow> networks_map t nic = apply_rules rs nic"
  by (cases "s_vnet_type nic"; cases "s_mac nic")
     (simp_all add: represents_def networks_map_def apply_rules_def Let_def split: option.splits)

text \<open>A rule that is already there, in terms of the lookups.\<close>

lemma key_present:
  "rule_key (Net_rule i out) \<in> rule_key ` set rs \<longleftrightarrow> map_of (concat (map net_pair rs)) i \<noteq> None"
  "rule_key (Bridge_rule i out) \<in> rule_key ` set rs \<longleftrightarrow> map_of (concat (map bridge_pair rs)) i \<noteq> None"
  "rule_key (Mac_rule mac ty out) \<in> rule_key ` set rs \<longleftrightarrow> map_of (concat (map mac_pair rs)) (lowercase_ascii mac) \<noteq> None"
proof -
  have "rule_key (Net_rule i out) = rule_key r \<longleftrightarrow> i \<in> fst ` set (net_pair r)" for r by (cases r) auto
  then show "rule_key (Net_rule i out) \<in> rule_key ` set rs \<longleftrightarrow> map_of (concat (map net_pair rs)) i \<noteq> None"
    by (auto simp: map_of_eq_None_iff image_iff)
  have "rule_key (Bridge_rule i out) = rule_key r \<longleftrightarrow> i \<in> fst ` set (bridge_pair r)" for r by (cases r) auto
  then show "rule_key (Bridge_rule i out) \<in> rule_key ` set rs \<longleftrightarrow> map_of (concat (map bridge_pair rs)) i \<noteq> None"
    by (auto simp: map_of_eq_None_iff image_iff)
  have "rule_key (Mac_rule mac ty out) = rule_key r \<longleftrightarrow> lowercase_ascii mac \<in> fst ` set (mac_pair r)" for r by (cases r) auto
  then show "rule_key (Mac_rule mac ty out) \<in> rule_key ` set rs \<longleftrightarrow> map_of (concat (map mac_pair rs)) (lowercase_ascii mac) \<noteq> None"
    by (auto simp: map_of_eq_None_iff image_iff)
qed

text \<open>One option: rejected when its rule collides, otherwise the rule is added.\<close>

fun add_rule :: "rule \<Rightarrow> networks \<Rightarrow> networks oc" where
  "add_rule (Net_rule (Some i) out) t = networks_add_network t i out"
| "add_rule (Net_rule None out) t = networks_add_default_network t out"
| "add_rule (Bridge_rule (Some i) out) t = networks_add_bridge t i out"
| "add_rule (Bridge_rule None out) t = networks_add_default_bridge t out"
| "add_rule (Mac_rule mac ty out) t = networks_add_mac t mac ty out"

lemma process_option_rule:
  "option_rule lib opt = Some r \<Longrightarrow> process_option lib opt (t, ips) = bindR (add_rule r t) (\<lambda>t. Inr (t, ips))"
  by (cases opt)
     (auto simp: add_network_def add_bridge_def add_mac_def in_out_def split: prod.splits if_splits option.splits)

lemma map_of_snoc_new: "map_of xs k = None \<Longrightarrow> map_of (xs @ [(k, v)]) = (map_of xs)(k \<mapsto> v)"
  by (auto simp: map_add_def fun_eq_iff split: option.splits)

lemmas networks_add_defs = networks_add_network_def networks_add_default_network_def networks_add_bridge_def
  networks_add_default_bridge_def networks_add_mac_def Let_def

lemma add_rule_ok:
  assumes rep: "represents rs t" and new: "rule_key r \<notin> rule_key ` set rs"
  shows "\<exists>t'. add_rule r t = Inr t' \<and> represents (rs @ [r]) t'"
proof (cases "(r, t)" rule: add_rule.cases)
  case (5 mac ty out t)
  then have "map_of (concat (map mac_pair rs)) (lowercase_ascii mac) = None"
    using new key_present(3) by blast
  from map_of_snoc_new [OF this] this 5 rep show ?thesis
    by (simp add: represents_def networks_add_defs map_of_smap_add del: map_of_append split_paired_All)
qed (use rep new in \<open>auto simp: key_present represents_def networks_add_defs map_of_smap_add map_of_snoc_new
       simp del: rule_key.simps map_of_append\<close>)

lemma add_rule_dup:
  assumes "represents rs t" and "rule_key r \<in> rule_key ` set rs"
  shows "\<exists>msg. add_rule r t = Inl (OError msg)"
  using assms
  by (cases "(r, t)" rule: add_rule.cases)
     (auto simp: key_present represents_def networks_add_defs simp del: rule_key.simps)

lemma process_rules:
  assumes "map (option_rule lib) opts = map Some rs"
  shows "if distinct (map rule_key rs) then \<exists>t. process_options lib opts = Inr (t, []) \<and> represents rs t
    else \<exists>msg. process_options lib opts = Inl (OError msg)"
  using assms
proof (induction rs arbitrary: opts rule: rev_induct)
  case Nil
  then show ?case by (simp add: process_options_def represents_def networks_create_def)
next
  case (snoc r rs)
  from snoc.prems obtain opts1 opt where o: "opts = opts1 @ [opt]" "map (option_rule lib) opts1 = map Some rs" "option_rule lib opt = Some r"
    by (cases opts rule: rev_cases) auto
  have run: "process_options lib opts = bindR (process_options lib opts1) (process_option lib opt)"
    unfolding process_options_def o(1) by (rule foreachR_snoc)
  show ?case
  proof (cases "distinct (map rule_key rs)")
    case True
    with snoc.IH [OF o(2)] obtain t where t: "process_options lib opts1 = Inr (t, [])" "represents rs t" by auto
    show ?thesis
    proof (cases "rule_key r \<in> rule_key ` set rs")
      case True
      from add_rule_dup [OF t(2) True] t(1) True show ?thesis by (auto simp: run process_option_rule [OF o(3)])
    next
      case False
      from add_rule_ok [OF t(2) False] t(1) False \<open>distinct (map rule_key rs)\<close> show ?thesis
        by (auto simp: run process_option_rule [OF o(3)])
    qed
  next
    case False
    with snoc.IH [OF o(2)] show ?thesis by (auto simp: run)
  qed
qed

subsection \<open>Properties\<close>

text \<open>C7: the mapping options of the command line define the mapping. When no two of them are about the same
  network, bridge or MAC address (in any case), all are accepted in any order and a network card is
  mapped by the rule for its MAC address, otherwise by the rule for its network or bridge, otherwise by
  the default of that kind, otherwise not at all; when two collide the program stops with an error.\<close>

theorem network_options_correct:
  assumes "map (option_rule lib) opts = map Some rs"
  shows "if distinct (map rule_key rs)
    then \<exists>t. process_options lib opts = Inr (t, []) \<and> (\<forall>nic. networks_map t nic = apply_rules rs nic)
    else \<exists>msg. process_options lib opts = Inl (OError msg)"
  using process_rules [OF assms] represents_map by (auto split: if_splits)

definition demo_common :: common_lib where
  "demo_common = \<lparr>String_split = (\<lambda>sep s. (takeWhile (\<lambda>c. [c] \<noteq> sep) s, drop 1 (dropWhile (\<lambda>c. [c] \<noteq> sep) s))),
     String_nsplit = (\<lambda>sep s. [s]), mac_re = (\<lambda>s. Some (take 17 s, ''bridge'', drop 25 s)), mac_ip_re = (\<lambda>_. True)\<rparr>"

theorem network_options_correct_witness:
  "\<exists>t. process_options demo_common [Opt_network ''in:out'', Opt_mac ''00:AA:bb:cc:dd:ee:bridge:br0'', Opt_network ''other''] = Inr (t, []) \<and>
     (\<forall>nic. networks_map t nic =
        apply_rules [Net_rule (Some ''in'') ''out'', Mac_rule ''00:AA:bb:cc:dd:ee'' Bridge ''br0'', Net_rule None ''other''] nic)"
  using network_options_correct [of demo_common "[Opt_network ''in:out'', Opt_mac ''00:AA:bb:cc:dd:ee:bridge:br0'', Opt_network ''other'']"
      "[Net_rule (Some ''in'') ''out'', Mac_rule ''00:AA:bb:cc:dd:ee'' Bridge ''br0'', Net_rule None ''other'']"]
  by (simp add: demo_common_def in_out_def)

end
