(* ===== verification/Utils.thy ===== *)
theory Utils
  imports V2VTypes
begin

section \<open>Utilities (lib/utils.ml)\<close>

text \<open>
  Quoting of URIs, choice of the architecture and of the UEFI firmware, waiting for a file, and the loop that
  asks an NBD server for the allocated size of a disk. The file system and the NBD connection are parameters
  with their own state; a loop that need not end is a partial function, with \<open>None\<close> for not returning.
\<close>

subsection \<open>Quoting of URIs\<close>

definition uri_plain :: "char \<Rightarrow> bool" where
  "uri_plain c \<longleftrightarrow>
     (let n = of_char c :: nat
      in 65 \<le> n \<and> n \<le> 90 \<or> 97 \<le> n \<and> n \<le> 122 \<or> 48 \<le> n \<and> n \<le> 57 \<or> c = CHR ''/'' \<or> c = CHR ''.'' \<or> c = CHR ''-'')"

text \<open>\<open>sprintf "%02x"\<close>\<close>

definition hex_digit :: "nat \<Rightarrow> char" where
  "hex_digit d = ''0123456789abcdef'' ! d"

definition percent_encode :: "char \<Rightarrow> string" where
  "percent_encode c = [CHR ''%'', hex_digit (of_char c div 16), hex_digit (of_char c mod 16)]"

fun uri_quote_loop :: "string \<Rightarrow> string list \<Rightarrow> string list" where
  "uri_quote_loop [] xs = xs"
| "uri_quote_loop (c # s) xs = uri_quote_loop s ((if uri_plain c then [c] else percent_encode c) # xs)"

definition uri_quote :: "string \<Rightarrow> string" where
  "uri_quote str = concat (rev (uri_quote_loop str []))"

text \<open>Percent-decoding, as a server reads a URI.\<close>

fun uri_decode :: "string \<Rightarrow> string option" where
  "uri_decode [] = Some []"
| "uri_decode (c # s) =
     (if c = CHR ''%''
      then (case s of
              a # b # t \<Rightarrow>
                (case (digit_in 16 a, digit_in 16 b) of
                   (Some d1, Some d2) \<Rightarrow> map_option ((#) (char_of (d1 * 16 + d2))) (uri_decode t)
                 | _ \<Rightarrow> None)
            | _ \<Rightarrow> None)
      else map_option ((#) c) (uri_decode s))"

lemma digit_in_hex_digit:
  assumes "d < 16"
  shows "digit_in 16 (hex_digit d) = Some d \<and> uri_plain (hex_digit d)"
proof -
  have "d = 0 \<or> d = 1 \<or> d = 2 \<or> d = 3 \<or> d = 4 \<or> d = 5 \<or> d = 6 \<or> d = 7 \<or>
      d = 8 \<or> d = 9 \<or> d = 10 \<or> d = 11 \<or> d = 12 \<or> d = 13 \<or> d = 14 \<or> d = 15"
    using assms by presburger
  then show ?thesis by (elim disjE; simp only:; code_simp)
qed

lemma uri_quote_loop_rev: "rev (uri_quote_loop s xs) = rev xs @ map (\<lambda>c. if uri_plain c then [c] else percent_encode c) s"
  by (induction s arbitrary: xs) auto

lemma uri_quote_map: "uri_quote s = concat (map (\<lambda>c. if uri_plain c then [c] else percent_encode c) s)"
  by (simp add: uri_quote_def uri_quote_loop_rev)

lemma char_nibbles: "(of_char c :: nat) div 16 < 16" "char_of (of_char c div 16 * 16 + of_char c mod 16 :: nat) = c"
proof -
  have "(of_char c :: nat) < 256" by simp
  then show "(of_char c :: nat) div 16 < 16" by (simp add: less_mult_imp_div_less)
  show "char_of (of_char c div 16 * 16 + of_char c mod 16 :: nat) = c" by simp
qed

lemma uri_decode_quote: "uri_decode (uri_quote s) = Some s"
proof (induction s)
  case (Cons c s)
  have "\<not> uri_plain (CHR ''%'')" by code_simp
  then have plain: "c \<noteq> CHR ''%''" if "uri_plain c" using that by auto
  have hi: "digit_in 16 (hex_digit (of_char c div 16)) = Some (of_char c div 16)"
    using digit_in_hex_digit char_nibbles(1) by blast
  have lo: "digit_in 16 (hex_digit (of_char c mod 16)) = Some (of_char c mod 16)"
    using digit_in_hex_digit [of "of_char c mod 16"] by simp
  show ?case
  proof (cases "uri_plain c")
    case True
    with Cons plain show ?thesis by (simp add: uri_quote_map)
  next
    case False
    with Cons hi lo show ?thesis by (simp add: uri_quote_map percent_encode_def char_nibbles(2))
  qed
qed (simp add: uri_quote_map)

lemma uri_quote_chars: "c \<in> set (uri_quote s) \<Longrightarrow> uri_plain c \<or> c = CHR ''%''"
proof -
  assume "c \<in> set (uri_quote s)"
  then obtain x where "c \<in> set (if uri_plain x then [x] else percent_encode x)"
    unfolding uri_quote_map set_concat set_map by blast
  moreover have "uri_plain (hex_digit (of_char x div 16))" "uri_plain (hex_digit (of_char x mod 16))"
    using digit_in_hex_digit [OF char_nibbles(1) [of x]] digit_in_hex_digit [of "of_char x mod 16"] by auto
  ultimately show ?thesis by (auto simp: percent_encode_def split: if_splits)
qed

subsection \<open>Architecture and firmware\<close>

definition kvm_arch :: "string \<Rightarrow> string" where
  "kvm_arch arch =
     (if arch \<in> set [''i386'', ''i486'', ''i586'', ''i686'', ''x86_64''] then ''x86_64''
      else if arch = ''unknown'' then ''x86_64''
      else arch)"

fun qemu_supports_sound_card :: "source_sound_model \<Rightarrow> bool" where
  "qemu_supports_sound_card AC97 = True"
| "qemu_supports_sound_card ES1370 = True"
| "qemu_supports_sound_card ICH6 = True"
| "qemu_supports_sound_card ICH9 = True"
| "qemu_supports_sound_card PCSpeaker = True"
| "qemu_supports_sound_card SB16 = True"
| "qemu_supports_sound_card USBAudio = True"

text \<open>The lists of firmware are in \<open>common/utils/uefi.c\<close> and a parameter, as is the file system.\<close>

datatype uefi_flag = UEFI_FLAG_SECURE_BOOT_REQUIRED

record uefi_firmware =
  code :: string
  vars :: string
  flags :: "uefi_flag list"

record uefi_lists =
  uefi_x86_64_firmware :: "uefi_firmware list"
  uefi_aarch64_firmware :: "uefi_firmware list"

fun find_uefi_loop :: "(string \<Rightarrow> bool) \<Rightarrow> uefi_firmware list \<Rightarrow> uefi_firmware oc" where
  "find_uefi_loop file_exists [] = Inl (OError ''cannot find firmware for UEFI guests'')"
| "find_uefi_loop file_exists (ret # rest) =
     (if file_exists (code ret) \<and> file_exists (vars ret) then Inr ret else find_uefi_loop file_exists rest)"

definition find_uefi_firmware :: "uefi_lists \<Rightarrow> (string \<Rightarrow> bool) \<Rightarrow> string \<Rightarrow> uefi_firmware oc" where
  "find_uefi_firmware fw file_exists guest_arch =
     bindR (if guest_arch = ''x86_64'' then Inr (uefi_x86_64_firmware fw)
            else if guest_arch = ''aarch64'' then Inr (uefi_aarch64_firmware fw)
            else Inl (OError ''don't know how to convert UEFI guests for architecture''))
       (find_uefi_loop file_exists)"

definition error_unless_uefi_firmware :: "uefi_lists \<Rightarrow> (string \<Rightarrow> bool) \<Rightarrow> string \<Rightarrow> unit oc" where
  "error_unless_uefi_firmware fw file_exists guest_arch = bindR (find_uefi_firmware fw file_exists guest_arch) (\<lambda>_. Inr ())"

lemma find_uefi_loop_find:
  "find_uefi_loop file_exists files =
     (case find (\<lambda>f. file_exists (code f) \<and> file_exists (vars f)) files of
        Some f \<Rightarrow> Inr f | None \<Rightarrow> Inl (OError ''cannot find firmware for UEFI guests''))"
  by (induction files) auto

text \<open>The epoch counts first, then the version, then the release; \<open>compare_version\<close> is a parameter.\<close>

record application2 =
  app2_epoch :: int
  app2_version :: string
  app2_release :: string

definition compare_int :: "int \<Rightarrow> int \<Rightarrow> int" where
  "compare_int a b = (if a < b then - 1 else if a = b then 0 else 1)"

definition compare_app2_versions :: "(string \<Rightarrow> string \<Rightarrow> int) \<Rightarrow> application2 \<Rightarrow> application2 \<Rightarrow> int" where
  "compare_app2_versions compare_version app1 app2 =
     (let i = compare_int (app2_epoch app1) (app2_epoch app2)
      in if i \<noteq> 0 then i
         else let i = compare_version (app2_version app1) (app2_version app2)
              in if i \<noteq> 0 then i else compare_version (app2_release app1) (app2_release app2))"

subsection \<open>Waiting for a file\<close>

text \<open>The world says whether the file is there and what a second of sleep does to it. The count is
  an OCaml integer of 63 bits: a negative timeout only becomes 0 after it has wrapped around.\<close>

partial_function (option) wait_for_file :: "('w \<Rightarrow> bool) \<Rightarrow> ('w \<Rightarrow> 'w) \<Rightarrow> int \<Rightarrow> 'w \<Rightarrow> (bool \<times> 'w) option" where
  "wait_for_file file_exists sleep timeout w =
     (if file_exists w then Some (True, w)
      else if timeout = 0 then Some (False, w)
      else wait_for_file file_exists sleep (wrap_int 63 (timeout - 1)) (sleep w))"

lemma wait_for_file_found:
  "0 \<le> timeout \<Longrightarrow> timeout < 2 ^ 62 \<Longrightarrow>
   \<exists>n \<le> nat timeout. wait_for_file file_exists sleep timeout w = Some (file_exists ((sleep ^^ n) w), (sleep ^^ n) w) \<and>
     (\<forall>m < n. \<not> file_exists ((sleep ^^ m) w)) \<and> (file_exists ((sleep ^^ n) w) \<or> n = nat timeout)"
proof (induction "nat timeout" arbitrary: timeout w)
  case 0
  then have "timeout = 0" by simp
  then show ?case by (subst wait_for_file.simps) auto
next
  case (Suc k)
  show ?case
  proof (cases "file_exists w")
    case True
    then show ?thesis by (intro exI [of _ 0]) (subst wait_for_file.simps, simp)
  next
    case False
    have "k = nat (timeout - 1)" "0 \<le> timeout - 1" "timeout - 1 < 2 ^ 62" using Suc(2-4) by auto
    then have wrap: "wrap_int 63 (timeout - 1) = timeout - 1" by (simp add: wrap_int_def signed_take_bit_int_eq_self)
    from Suc(1) [OF \<open>k = nat (timeout - 1)\<close> \<open>0 \<le> timeout - 1\<close> \<open>timeout - 1 < 2 ^ 62\<close>, of "sleep w"] obtain n where n: "n \<le> nat (timeout - 1)"
      "wait_for_file file_exists sleep (timeout - 1) (sleep w) = Some (file_exists ((sleep ^^ n) (sleep w)), (sleep ^^ n) (sleep w))"
      "\<forall>m < n. \<not> file_exists ((sleep ^^ m) (sleep w))" "file_exists ((sleep ^^ n) (sleep w)) \<or> n = nat (timeout - 1)" by blast
    have step: "wait_for_file file_exists sleep timeout w = wait_for_file file_exists sleep (timeout - 1) (sleep w)"
      using False Suc(2) wrap by (subst wait_for_file.simps) auto
    have early: "\<not> file_exists ((sleep ^^ m) w)" if "m < Suc n" for m
      using that n(3) False by (cases m) (auto simp: funpow_swap1)
    show ?thesis
      using n early Suc(2) by (intro exI [of _ "Suc n"]) (auto simp: step funpow_swap1)
  qed
qed

subsection \<open>The allocated size of a disk\<close>

text \<open>\<open>NBD.block_status\<close> calls the callback with the name of the context and an array of pairs of a length and flags;
  it may raise. \<open>nbd\<close> gives the calls of the callback and the new state.\<close>

type_synonym 'n block_status = "int \<Rightarrow> int \<Rightarrow> 'n \<Rightarrow> ((string \<times> int list) list \<times> 'n) oc"

definition alloc_ctx :: string where
  "alloc_ctx = ''base:allocation''"

text \<open>The loop over the array: an odd last element is not read.\<close>

fun extents_loop :: "int list \<Rightarrow> int \<times> int \<Rightarrow> (int \<times> int) oc" where
  "extents_loop (len # ty # entries) (allocated, fetch_offset) =
     (if len \<le> 0 then Inl OAssert_failure
      else extents_loop entries
             (if ty AND 1 = 0 then wrap_int 64 (allocated + len) else allocated, wrap_int 64 (fetch_offset + len)))"
| "extents_loop _ s = Inr s"

definition extents_callback :: "string \<times> int list \<Rightarrow> int \<times> int \<Rightarrow> (int \<times> int) oc" where
  "extents_callback = (\<lambda>(ctx, entries) s. if ctx \<noteq> alloc_ctx then Inl OAssert_failure else extents_loop entries s)"

partial_function (option) allocated_loop :: "'n block_status \<Rightarrow> int \<Rightarrow> int \<times> int \<Rightarrow> 'n \<Rightarrow> (int \<times> 'n) oc option" where
  "allocated_loop block_status sz s nbd = (case s of (allocated, fetch_offset) \<Rightarrow>
     if fetch_offset < sz
     then let remaining = wrap_int 64 (sz - fetch_offset); fetch_size = min 0x80000000 remaining
          in case block_status fetch_size fetch_offset nbd of
               Inl e \<Rightarrow> Some (Inl e)
             | Inr (calls, nbd) \<Rightarrow>
                 (case foreachR extents_callback calls (allocated, fetch_offset) of
                    Inl e \<Rightarrow> Some (Inl e)
                  | Inr s \<Rightarrow> allocated_loop block_status sz s nbd)
     else Some (Inr (allocated, nbd)))"

record 'n nbd_conn =
  can_meta_context :: "string \<Rightarrow> 'n \<Rightarrow> bool"
  get_size :: "'n \<Rightarrow> int"
  nbd_block_status :: "'n block_status"

text \<open>The function that \<open>get_disk_allocated\<close> runs on the connection.\<close>

definition get_disk_allocated :: "'n nbd_conn \<Rightarrow> 'n \<Rightarrow> int option oc option" where
  "get_disk_allocated conn nbd =
     (if can_meta_context conn alloc_ctx nbd
      then map_option (\<lambda>r. bindR r (\<lambda>(allocated, _). Inr (Some allocated)))
             (allocated_loop (nbd_block_status conn) (get_size conn nbd) (0, 0) nbd)
      else Some (Inr None))"

text \<open>What a server answers: one call for the context, with at least one extent; the extents are not empty, they
  start at the offset and do not go past the end of the disk, and each tells whether its bytes are holes.\<close>

fun extents_match :: "(nat \<Rightarrow> bool) \<Rightarrow> nat \<Rightarrow> (nat \<times> int) list \<Rightarrow> bool" where
  "extents_match hole offset [] = True"
| "extents_match hole offset ((len, ty) # es) =
     (0 < len \<and> (\<forall>k < len. hole (offset + k) = (ty AND 1 \<noteq> 0)) \<and> extents_match hole (offset + len) es)"

definition extents_of :: "(nat \<Rightarrow> bool) \<Rightarrow> nat \<Rightarrow> nat \<Rightarrow> (nat \<times> int) list \<Rightarrow> bool" where
  "extents_of hole sz offset es \<longleftrightarrow> es \<noteq> [] \<and> offset + sum_list (map fst es) \<le> sz \<and> extents_match hole offset es"

definition flatten :: "(nat \<times> int) list \<Rightarrow> int list" where
  "flatten es = concat (map (\<lambda>(len, ty). [int len, ty]) es)"

definition serves :: "'n nbd_conn \<Rightarrow> (nat \<Rightarrow> bool) \<Rightarrow> nat \<Rightarrow> bool" where
  "serves conn hole sz \<longleftrightarrow>
     (\<forall>nbd. can_meta_context conn alloc_ctx nbd \<and> get_size conn nbd = int sz) \<and>
     (\<forall>offset fetch nbd. offset < sz \<and> 0 < fetch \<longrightarrow>
        (\<exists>es nbd'. nbd_block_status conn fetch (int offset) nbd = Inr ([(alloc_ctx, flatten es)], nbd') \<and> extents_of hole sz offset es))"

definition allocated_upto :: "(nat \<Rightarrow> bool) \<Rightarrow> nat \<Rightarrow> nat" where
  "allocated_upto hole n = card {k. k < n \<and> \<not> hole k}"

lemma wrap_64: "- (2 ^ 63) \<le> x \<Longrightarrow> x < 2 ^ 63 \<Longrightarrow> wrap_int 64 x = x"
  by (simp add: wrap_int_def signed_take_bit_int_eq_self)

lemma allocated_upto_extent:
  assumes "\<forall>k < len. hole (offset + k) = h"
  shows "allocated_upto hole (offset + len) = allocated_upto hole offset + (if h then 0 else len)"
proof -
  have eq: "{k. k < offset + len \<and> \<not> hole k} = {k. k < offset \<and> \<not> hole k} \<union> (+) offset ` {k. k < len \<and> \<not> hole (offset + k)}"
  proof (intro set_eqI iffI)
    fix x assume "x \<in> {k. k < offset + len \<and> \<not> hole k}"
    then show "x \<in> {k. k < offset \<and> \<not> hole k} \<union> (+) offset ` {k. k < len \<and> \<not> hole (offset + k)}"
      by (cases "x < offset") (auto simp: image_iff intro!: exI [of _ "x - offset"])
  qed auto
  have "card ((+) offset ` {k. k < len \<and> \<not> hole (offset + k)}) = (if h then 0 else len)"
  proof -
    have "{k. k < len \<and> \<not> hole (offset + k)} = (if h then {} else {..<len})" using assms by auto
    then show ?thesis by (simp add: card_image)
  qed
  moreover have "{k. k < offset \<and> \<not> hole k} \<inter> (+) offset ` {k. k < len \<and> \<not> hole (offset + k)} = {}" by auto
  ultimately show ?thesis unfolding allocated_upto_def eq by (simp add: card_Un_disjoint)
qed

lemma allocated_upto_le: "allocated_upto hole n \<le> n"
  using card_mono [of "{..<n}" "{k. k < n \<and> \<not> hole k}"] by (auto simp: allocated_upto_def)

lemma extents_loop_ok:
  "extents_match hole offset es \<Longrightarrow> int (offset + sum_list (map fst es)) < 2 ^ 63 \<Longrightarrow>
   extents_loop (flatten es) (int (allocated_upto hole offset), int offset) =
     Inr (int (allocated_upto hole (offset + sum_list (map fst es))), int (offset + sum_list (map fst es)))"
proof (induction es arbitrary: offset)
  case (Cons e es)
  obtain len ty where e: "e = (len, ty)" by (cases e)
  have m: "0 < len" "\<forall>k < len. hole (offset + k) = (ty AND 1 \<noteq> 0)" "extents_match hole (offset + len) es"
    using Cons.prems(1) by (auto simp: e)
  have b: "int (offset + len + sum_list (map fst es)) < 2 ^ 63" using Cons.prems(2) by (simp add: e add.assoc)
  have up: "allocated_upto hole (offset + len) = allocated_upto hole offset + (if ty AND 1 \<noteq> 0 then 0 else len)"
    using allocated_upto_extent [OF m(2)] .
  have "int (offset + len) < 2 ^ 63" using b by linarith
  moreover have "int (allocated_upto hole offset) + int len < 2 ^ 63"
    using allocated_upto_le [of hole offset] b by linarith
  ultimately have w: "wrap_int 64 (int offset + int len) = int (offset + len)"
    "wrap_int 64 (int (allocated_upto hole offset) + int len) = int (allocated_upto hole offset) + int len"
    by (simp_all add: wrap_64)
  have f: "flatten ((len, ty) # es) = int len # ty # flatten es" by (simp add: flatten_def)
  show ?case
    using Cons.IH [OF m(3) b] m(1) up unfolding e f by (auto simp: w add.assoc)
qed (simp add: flatten_def)

lemma allocated_loop_ok:
  assumes server: "serves conn hole sz" and "int sz < 2 ^ 63"
  shows "offset \<le> sz \<Longrightarrow>
    \<exists>nbd'. allocated_loop (nbd_block_status conn) (int sz) (int (allocated_upto hole offset), int offset) nbd =
      Some (Inr (int (allocated_upto hole sz), nbd'))"
proof (induction "sz - offset" arbitrary: offset nbd rule: less_induct)
  case less
  show ?case
  proof (cases "offset < sz")
    case True
    let ?r = "int sz - int offset" and ?f = "min 0x80000000 (int sz - int offset)"
    have w: "wrap_int 64 ?r = ?r" using assms(2) True by (intro wrap_64) auto
    have "0 < ?f" using True by simp
    with server True obtain es nbd' where s: "nbd_block_status conn ?f (int offset) nbd = Inr ([(alloc_ctx, flatten es)], nbd')"
      "extents_of hole sz offset es" unfolding serves_def by blast
    let ?off = "offset + sum_list (map fst es)"
    have ok: "?off \<le> sz" "extents_match hole offset es" "es \<noteq> []" using s(2) by (auto simp: extents_of_def)
    then have "0 < sum_list (map fst es)" by (cases es) auto
    then have "sz - ?off < sz - offset" using True by linarith
    from less(1) [OF this ok(1), of nbd'] obtain nbd'' where
      IH: "allocated_loop (nbd_block_status conn) (int sz) (int (allocated_upto hole ?off), int ?off) nbd' = Some (Inr (int (allocated_upto hole sz), nbd''))"
      by blast
    have "foreachR extents_callback [(alloc_ctx, flatten es)] (int (allocated_upto hole offset), int offset) =
        Inr (int (allocated_upto hole ?off), int ?off)"
      using extents_loop_ok [OF ok(2)] ok(1) assms(2) by (simp add: extents_callback_def)
    with True w s(1) IH show ?thesis by (subst allocated_loop.simps) (simp add: Let_def)
  next
    case False
    with less show ?thesis by (subst allocated_loop.simps) simp
  qed
qed

subsection \<open>Properties\<close>

text \<open>C33: the allocated size. For every server that answers each request with at least one extent of the disk, the
  loop ends, and it returns the number of bytes of the disk that are not in holes; extents may be longer
  than what was asked for.\<close>

theorem get_disk_allocated_correct:
  assumes "serves conn hole sz" and "int sz < 2 ^ 63"
  shows "get_disk_allocated conn nbd = Some (Inr (Some (int (card {k. k < sz \<and> \<not> hole k}))))"
proof -
  have "allocated_upto hole 0 = 0" by (simp add: allocated_upto_def)
  with allocated_loop_ok [OF assms, of 0 nbd] assms(1) show ?thesis
    by (auto simp: get_disk_allocated_def serves_def allocated_upto_def)
qed

definition demo_conn :: "unit nbd_conn" where
  "demo_conn = \<lparr>can_meta_context = (\<lambda>_ _. True), get_size = (\<lambda>_. 2),
     nbd_block_status = (\<lambda>fetch offset nbd. Inr ([(alloc_ctx, [1, offset])], nbd))\<rparr>"

theorem get_disk_allocated_correct_witness:
  "get_disk_allocated demo_conn () = Some (Inr (Some (int (card {k. k < (2::nat) \<and> \<not> k = 1}))))"
proof -
  have "\<exists>es nbd'. nbd_block_status demo_conn fetch (int offset) nbd = Inr ([(alloc_ctx, flatten es)], nbd') \<and> extents_of (\<lambda>k. k = 1) 2 offset es"
    if "offset < 2" for offset fetch nbd
    using that
    by (intro exI [of _ "[(1, int offset)]"] exI [of _ nbd]) (auto simp: demo_conn_def flatten_def extents_of_def less_2_cases_iff)
  then have "serves demo_conn (\<lambda>k. k = 1) 2" by (auto simp: serves_def) (simp_all add: demo_conn_def)
  from get_disk_allocated_correct [OF this] show ?thesis by simp
qed

text \<open>Quoting a string for a URI gives only letters, digits, slashes, dots, hyphens and percent signs, and
  percent-decoding returns the string.\<close>

theorem uri_quote_correct: "list_all (\<lambda>c. uri_plain c \<or> c = CHR ''%'') (uri_quote s) \<and> uri_decode (uri_quote s) = Some s"
  using uri_quote_chars uri_decode_quote by (auto simp: list_all_iff)

text \<open>Waiting for a file with a timeout that is an OCaml integer and not negative ends after at most that many seconds, as soon as the
  file is there, and says whether it is.\<close>

theorem wait_for_file_correct:
  assumes "0 \<le> timeout" and "timeout < 2 ^ 62"
  shows "\<exists>n \<le> nat timeout. wait_for_file file_exists sleep timeout w = Some (file_exists ((sleep ^^ n) w), (sleep ^^ n) w) \<and>
     (\<forall>m < n. \<not> file_exists ((sleep ^^ m) w)) \<and> (file_exists ((sleep ^^ n) w) \<or> n = nat timeout)"
  by (rule wait_for_file_found [OF assms])

theorem wait_for_file_correct_witness:
  "\<exists>n \<le> nat 5. wait_for_file (\<lambda>w. w = 3) Suc 5 0 = Some ((Suc ^^ n) 0 = 3, (Suc ^^ n) 0)"
proof -
  have "(0::int) \<le> 5" "(5::int) < 2 ^ 62" by simp_all
  from wait_for_file_correct [OF this, of "\<lambda>w. w = 3" Suc 0]
  show ?thesis by (elim exE conjE) (intro exI conjI)
qed

end
