(* ===== verification/DomStore.thy ===== *)
theory DomStore
  imports OCamlStd
begin

section \<open>XML documents that can be changed (lib/DOM.ml)\<close>

text \<open>
  The attributes and children of an element are mutable, and an element may be reached in several places. So an
  element is a reference into a store, the list of all elements made so far, and every operation takes the
  store. The functions that print are recursive over the store; a document that contains itself would be printed
  forever, and so they have fuel for the depth of the document, with \<open>None\<close> for not returning. What a node stands for
  is a tree whose elements carry their references: an operation on a reference changes all places where it occurs.
\<close>

subsection \<open>Nodes, elements and the store\<close>

datatype node = PCData string | Comment string | Element nat

type_synonym attr = "string \<times> string"

record element =
  e_name :: string
  e_attrs :: "attr list"
  e_children :: "node list"

datatype doc = Doc nat

type_synonym dom = "element list"

definition doc_new :: "string \<Rightarrow> attr list \<Rightarrow> node list \<Rightarrow> dom \<Rightarrow> doc \<times> dom" where
  "doc_new name attrs children st = (Doc (length st), st @ [\<lparr>e_name = name, e_attrs = attrs, e_children = children\<rparr>])"

definition e_new :: "string \<Rightarrow> attr list \<Rightarrow> node list \<Rightarrow> dom \<Rightarrow> node \<times> dom" where
  "e_new name attrs children st = (Element (length st), st @ [\<lparr>e_name = name, e_attrs = attrs, e_children = children\<rparr>])"

subsection \<open>Printing\<close>

text \<open>\<open>String.replace\<close> and \<open>String.spaces\<close> are in the submodule \<open>common\<close>.\<close>

record string_lib =
  str_replace :: "string \<Rightarrow> string \<Rightarrow> string \<Rightarrow> string"
  str_spaces :: "nat \<Rightarrow> string"

definition xml_quote_attr :: "string_lib \<Rightarrow> string \<Rightarrow> string" where
  "xml_quote_attr lib str =
     (let str = str_replace lib str ''&'' ''&amp;'';
          str = str_replace lib str [CHR 39] ''&apos;'';
          str = str_replace lib str ''<'' ''&lt;'';
          str = str_replace lib str ''>'' ''&gt;''
      in str)"

definition xml_quote_pcdata :: "string_lib \<Rightarrow> string \<Rightarrow> string" where
  "xml_quote_pcdata lib str =
     (let str = str_replace lib str ''&'' ''&amp;'';
          str = str_replace lib str ''<'' ''&lt;'';
          str = str_replace lib str ''>'' ''&gt;''
      in str)"

definition buffer_add_spaces :: "string_lib \<Rightarrow> string \<Rightarrow> nat \<Rightarrow> string" where
  "buffer_add_spaces lib buf n = buf @ str_spaces lib n"

text \<open>\<open>List.iter (fun (n, v) -> bprintf buf " %s='%s'" n (xml_quote_attr v)) attrs\<close>\<close>

fun attrs_to_buf :: "string_lib \<Rightarrow> string \<Rightarrow> attr list \<Rightarrow> string" where
  "attrs_to_buf lib buf [] = buf"
| "attrs_to_buf lib buf ((n, v) # attrs) =
     attrs_to_buf lib (buf @ '' '' @ n @ [CHR ''='', CHR 39] @ xml_quote_attr lib v @ [CHR 39]) attrs"

text \<open>The loop over the children returns the buffer and \<open>last_child_was_element\<close>.\<close>

fun node_to_buf :: "string_lib \<Rightarrow> nat \<Rightarrow> dom \<Rightarrow> nat \<Rightarrow> string \<Rightarrow> node \<Rightarrow> string option"
  and element_to_buf :: "string_lib \<Rightarrow> nat \<Rightarrow> dom \<Rightarrow> nat \<Rightarrow> string \<Rightarrow> element \<Rightarrow> string option"
  and children_to_buf :: "string_lib \<Rightarrow> nat \<Rightarrow> dom \<Rightarrow> nat \<Rightarrow> string \<Rightarrow> bool \<Rightarrow> node list \<Rightarrow> (string \<times> bool) option" where
  "node_to_buf lib fuel st indent buf (PCData str) = Some (buf @ xml_quote_pcdata lib str)"
| "node_to_buf lib fuel st indent buf (Comment str) =
     Some (buffer_add_spaces lib buf indent @ ''<!-- '' @ xml_quote_pcdata lib str @ '' -->'')"
| "node_to_buf lib fuel st indent buf (Element r) = element_to_buf lib fuel st indent buf (st ! r)"
| "element_to_buf lib 0 st indent buf e = None"
| "element_to_buf lib (Suc fuel) st indent buf e =
     (let buf = buffer_add_spaces lib buf indent @ ''<'' @ e_name e;
          buf = attrs_to_buf lib buf (e_attrs e)
      in if e_children e \<noteq> []
         then (case children_to_buf lib fuel st indent (buf @ ''>'') False (e_children e) of
                 None \<Rightarrow> None
               | Some (buf, last_child_was_element) \<Rightarrow>
                   let buf = if last_child_was_element then buffer_add_spaces lib (buf @ [CHR 10]) indent else buf
                   in Some (buf @ ''</'' @ e_name e @ ''>''))
         else Some (buf @ ''/>''))"
| "children_to_buf lib fuel st indent buf l [] = Some (buf, l)"
| "children_to_buf lib fuel st indent buf l (child # children) =
     (case child of
        Element _ \<Rightarrow>
          (case node_to_buf lib fuel st (indent + 2) (buf @ [CHR 10]) child of
             None \<Rightarrow> None | Some buf \<Rightarrow> children_to_buf lib fuel st indent buf True children)
      | PCData _ \<Rightarrow>
          (case node_to_buf lib fuel st (indent + 2) buf child of
             None \<Rightarrow> None | Some buf \<Rightarrow> children_to_buf lib fuel st indent buf False children)
      | Comment _ \<Rightarrow>
          (case node_to_buf lib fuel st (indent + 2) (buf @ [CHR 10]) child of
             None \<Rightarrow> None | Some buf \<Rightarrow> children_to_buf lib fuel st indent buf True children))"

text \<open>\<open><?xml version='1.0' encoding='utf-8'?>\<close> and a newline\<close>

definition xml_header :: string where
  "xml_header = ''<?xml version='' @ [CHR 39] @ ''1.0'' @ [CHR 39] @ '' encoding='' @ [CHR 39] @ ''utf-8'' @ [CHR 39] @ ''?>'' @ [CHR 10]"

definition doc_to_buf :: "string_lib \<Rightarrow> nat \<Rightarrow> dom \<Rightarrow> string \<Rightarrow> doc \<Rightarrow> string option" where
  "doc_to_buf lib fuel st buf d =
     (case d of Doc r \<Rightarrow> map_option (\<lambda>buf. buf @ [CHR 10]) (element_to_buf lib fuel st 0 (buf @ xml_header) (st ! r)))"

definition doc_to_string :: "string_lib \<Rightarrow> nat \<Rightarrow> dom \<Rightarrow> doc \<Rightarrow> string option" where
  "doc_to_string lib fuel st d = doc_to_buf lib fuel st [] d"

text \<open>A channel is what has been written to it.\<close>

definition doc_to_chan :: "string_lib \<Rightarrow> nat \<Rightarrow> dom \<Rightarrow> string \<Rightarrow> doc \<Rightarrow> string option" where
  "doc_to_chan lib fuel st chan d = map_option ((@) chan) (doc_to_buf lib fuel st [] d)"

subsection \<open>Searching and changing\<close>

definition is_named :: "dom \<Rightarrow> string \<Rightarrow> node \<Rightarrow> bool" where
  "is_named st p nd = (case nd of PCData _ \<Rightarrow> False | Comment _ \<Rightarrow> False | Element r \<Rightarrow> e_name (st ! r) = p)"

definition named_children :: "dom \<Rightarrow> string \<Rightarrow> node \<Rightarrow> node list option" where
  "named_children st p nd =
     (case nd of
        PCData _ \<Rightarrow> None
      | Comment _ \<Rightarrow> None
      | Element r \<Rightarrow> if e_name (st ! r) = p then Some (e_children (st ! r)) else None)"

fun path_loop :: "dom \<Rightarrow> node list \<Rightarrow> string list \<Rightarrow> node list" where
  "path_loop st nodes [] = []"
| "path_loop st nodes [p] = filter (is_named st p) nodes"
| "path_loop st nodes (p # ps) = concat (map (\<lambda>nodes. path_loop st nodes ps) (List.map_filter (named_children st p) nodes))"

definition path_to_nodes :: "dom \<Rightarrow> doc \<Rightarrow> string list \<Rightarrow> node list oc" where
  "path_to_nodes st d path =
     (case (d, path) of
        (Doc r, []) \<Rightarrow> Inl (OInvalid_argument ''path_to_nodes: empty path'')
      | (Doc r, top_name # path) \<Rightarrow>
          if e_name (st ! r) \<noteq> top_name then Inr [] else Inr (path_loop st (e_children (st ! r)) path))"

definition has_attr :: "dom \<Rightarrow> attr \<Rightarrow> node \<Rightarrow> bool" where
  "has_attr st a nd = (case nd of Element r \<Rightarrow> a \<in> set (e_attrs (st ! r)) | PCData _ \<Rightarrow> False | Comment _ \<Rightarrow> False)"

definition filter_node_list_by_attr :: "dom \<Rightarrow> node list \<Rightarrow> attr \<Rightarrow> node list" where
  "filter_node_list_by_attr st nodes a = filter (has_attr st a) nodes"

text \<open>\<open>Not_found\<close> is \<open>None\<close>.\<close>

definition find_node_by_attr :: "dom \<Rightarrow> node list \<Rightarrow> attr \<Rightarrow> node option" where
  "find_node_by_attr st nodes a = (case filter_node_list_by_attr st nodes a of [] \<Rightarrow> None | x # _ \<Rightarrow> Some x)"

definition append_attr :: "attr \<Rightarrow> node \<Rightarrow> dom \<Rightarrow> dom oc" where
  "append_attr a nd st =
     (case nd of
        PCData _ \<Rightarrow> Inl (OInvalid_argument ''append_attr'')
      | Comment _ \<Rightarrow> Inl (OInvalid_argument ''append_attr'')
      | Element r \<Rightarrow> Inr (st[r := (st ! r)\<lparr>e_attrs := e_attrs (st ! r) @ [a]\<rparr>]))"

definition append_child :: "node \<Rightarrow> node \<Rightarrow> dom \<Rightarrow> dom oc" where
  "append_child child nd st =
     (case nd of
        PCData _ \<Rightarrow> Inl (OInvalid_argument ''append_child'')
      | Comment _ \<Rightarrow> Inl (OInvalid_argument ''append_child'')
      | Element r \<Rightarrow> Inr (st[r := (st ! r)\<lparr>e_children := e_children (st ! r) @ [child]\<rparr>]))"

lemma find_node_by_attr_first: "find_node_by_attr st nodes a = find (has_attr st a) nodes"
  by (induction nodes) (auto simp: find_node_by_attr_def filter_node_list_by_attr_def)

subsection \<open>Trees\<close>

datatype tree = TText string | TComment string | TElement nat string "attr list" "tree list"

fun represents :: "dom \<Rightarrow> node \<Rightarrow> tree \<Rightarrow> bool" where
  "represents st nd (TText s) = (nd = PCData s)"
| "represents st nd (TComment s) = (nd = Comment s)"
| "represents st nd (TElement r n as ts) =
     (nd = Element r \<and> r < length st \<and> e_name (st ! r) = n \<and> e_attrs (st ! r) = as \<and>
      list_all2 (represents st) (e_children (st ! r)) ts)"

fun tree_refs :: "tree \<Rightarrow> nat set" where
  "tree_refs (TText s) = {}"
| "tree_refs (TComment s) = {}"
| "tree_refs (TElement r n as ts) = {r} \<union> (\<Union>t\<in>set ts. tree_refs t)"

fun tree_depth :: "tree \<Rightarrow> nat" where
  "tree_depth (TText s) = 0"
| "tree_depth (TComment s) = 0"
| "tree_depth (TElement r n as ts) = Suc (Max (set (0 # map tree_depth ts)))"

text \<open>Appending to every occurrence of an element.\<close>

fun add_attr_at :: "nat \<Rightarrow> attr \<Rightarrow> tree \<Rightarrow> tree" where
  "add_attr_at r a (TText s) = TText s"
| "add_attr_at r a (TComment s) = TComment s"
| "add_attr_at r a (TElement q n as ts) = TElement q n (if q = r then as @ [a] else as) (map (add_attr_at r a) ts)"

fun add_child_at :: "nat \<Rightarrow> tree \<Rightarrow> tree \<Rightarrow> tree" where
  "add_child_at r c (TText s) = TText s"
| "add_child_at r c (TComment s) = TComment s"
| "add_child_at r c (TElement q n as ts) = TElement q n as (map (add_child_at r c) ts @ (if q = r then [c] else []))"

lemma represents_unique: "represents st nd t \<Longrightarrow> represents st nd u \<Longrightarrow> t = u"
proof (induction t arbitrary: nd u)
  case (TElement r n as ts)
  then obtain us where u: "u = TElement r n as us" and us: "list_all2 (represents st) (e_children (st ! r)) us"
    by (cases u) auto
  have ts: "list_all2 (represents st) (e_children (st ! r)) ts" using TElement.prems(1) by simp
  have "ts = us"
  proof (rule nth_equalityI)
    show "length ts = length us" using ts us by (simp add: list_all2_lengthD [symmetric])
    show "ts ! i = us ! i" if "i < length ts" for i
      using that ts us TElement.IH by (metis list_all2_conv_all_nth nth_mem)
  qed
  with u show ?case by simp
next
  case (TText x)
  then show ?case by (cases u) auto
next
  case (TComment x)
  then show ?case by (cases u) auto
qed

lemma represents_keeps:
  "represents st nd t \<Longrightarrow> length st \<le> length st' \<Longrightarrow> (\<forall>r \<in> tree_refs t. st' ! r = st ! r) \<Longrightarrow> represents st' nd t"
proof (induction t arbitrary: nd)
  case (TElement r n as ts)
  from TElement.prems(1) have nd: "nd = Element r" and r: "r < length st"
    and ts: "list_all2 (represents st) (e_children (st ! r)) ts" by simp_all
  have "list_all2 (represents st') (e_children (st ! r)) ts"
    using ts by (rule list.rel_mono_strong) (use TElement in auto)
  with TElement.prems nd r show ?case by auto
qed auto

text \<open>New elements.\<close>

lemma e_new_represents:
  assumes "list_all2 (represents st) children ts" and "e_new n as children st = (nd, st')"
  shows "represents st' nd (TElement (length st) n as ts) \<and> (\<forall>nd' t. represents st nd' t \<longrightarrow> represents st' nd' t)"
proof -
  have keep: "represents st' nd' t" if "represents st nd' t" for nd' t
  proof (rule represents_keeps [OF that])
    have "tree_refs t \<subseteq> {..<length st}" using that
    proof (induction t arbitrary: nd')
      case (TElement r n as ts)
      then show ?case by (fastforce simp: list_all2_conv_all_nth in_set_conv_nth)
    qed auto
    then show "\<forall>r \<in> tree_refs t. st' ! r = st ! r" using assms(2) by (auto simp: e_new_def nth_append)
  qed (use assms(2) in \<open>auto simp: e_new_def\<close>)
  have "list_all2 (represents st') children ts" using assms(1) by (rule list_all2_mono) (rule keep)
  then show ?thesis using keep assms(2) by (auto simp: e_new_def nth_append)
qed

text \<open>Changes: all occurrences of the element change and nothing else does.\<close>

lemma append_attr_represents:
  assumes "append_attr a (Element r) st = Inr st'"
  shows "represents st nd t \<Longrightarrow> represents st' nd (add_attr_at r a t)"
proof (induction t arbitrary: nd)
  case (TElement q n as ts)
  from TElement.prems have nd: "nd = Element q" and q: "q < length st"
    and ts: "list_all2 (represents st) (e_children (st ! q)) ts" by simp_all
  have "list_all2 (\<lambda>x y. represents st' x (add_attr_at r a y)) (e_children (st ! q)) ts"
    using ts by (rule list.rel_mono_strong) (use TElement.IH in auto)
  moreover have "e_children (st' ! q) = e_children (st ! q)" "length st' = length st"
    using assms q by (cases "q = r"; auto simp: append_attr_def)+
  ultimately show ?case using TElement.prems nd q assms
    by (cases "q = r") (auto simp: append_attr_def list_all2_map2)
qed auto

lemma append_child_represents:
  assumes "append_child child (Element r) st = Inr st'" and "represents st child c" and "r \<notin> tree_refs c"
  shows "represents st nd t \<Longrightarrow> represents st' nd (add_child_at r c t)"
proof -
  have st': "st' = st[r := (st ! r)\<lparr>e_children := e_children (st ! r) @ [child]\<rparr>]"
    using assms(1) by (simp add: append_child_def)
  have "st' ! q = st ! q" if "q \<in> tree_refs c" for q using that assms(3) by (metis st' nth_list_update_neq)
  then have c: "represents st' child c" using assms(2) represents_keeps [of st child c st'] by (simp add: st')
  show "represents st nd t \<Longrightarrow> represents st' nd (add_child_at r c t)"
  proof (induction t arbitrary: nd)
    case (TElement q n as ts)
    from TElement.prems have nd: "nd = Element q" and q: "q < length st"
      and ts: "list_all2 (represents st) (e_children (st ! q)) ts" by simp_all
    have "list_all2 (\<lambda>x y. represents st' x (add_child_at r c y)) (e_children (st ! q)) ts"
      using ts by (rule list.rel_mono_strong) (use TElement.IH in auto)
    then have "list_all2 (represents st') (e_children (st ! q)) (map (add_child_at r c) ts)" by (simp add: list_all2_map2)
    then have "list_all2 (represents st') (e_children (st' ! q)) (map (add_child_at r c) ts @ (if q = r then [c] else []))"
      using c q by (cases "q = r") (auto simp: st' list_all2_appendI)
    with TElement.prems nd q show ?case by (cases "q = r") (auto simp: st')
  qed auto
qed

text \<open>What a path leads to: from level to level the children with the name.\<close>

fun tree_named :: "string \<Rightarrow> tree \<Rightarrow> bool" where
  "tree_named p (TElement r n as ts) = (n = p)"
| "tree_named p _ = False"

fun tree_children :: "tree \<Rightarrow> tree list" where
  "tree_children (TElement r n as ts) = ts"
| "tree_children _ = []"

definition next_level :: "tree list \<Rightarrow> string \<Rightarrow> tree list" where
  "next_level ts p = filter (tree_named p) (concat (map tree_children ts))"

definition trees_at :: "tree \<Rightarrow> string list \<Rightarrow> tree list" where
  "trees_at t path = (case path of [] \<Rightarrow> [] | p # ps \<Rightarrow> foldl next_level (filter (tree_named p) [t]) ps)"

lemma next_level_append: "foldl next_level (ts @ us) ps = foldl next_level ts ps @ foldl next_level us ps"
  by (induction ps arbitrary: ts us) (simp_all add: next_level_def)

lemma foldl_next_level: "foldl next_level [] ps = []"
  by (induction ps) (simp_all add: next_level_def)

lemma represents_named: "represents st nd t \<Longrightarrow> is_named st p nd = tree_named p t"
  by (cases t) (auto simp: is_named_def)

lemma represents_filter_named:
  "list_all2 (represents st) nodes ts \<Longrightarrow> list_all2 (represents st) (filter (is_named st p) nodes) (filter (tree_named p) ts)"
  by (induction rule: list_all2_induct) (auto simp: represents_named)

lemma path_loop_represents:
  "list_all2 (represents st) nodes ts \<Longrightarrow>
   list_all2 (represents st) (path_loop st nodes (p # ps)) (foldl next_level (filter (tree_named p) ts) ps)"
proof (induction ps arbitrary: nodes ts p)
  case Nil
  then show ?case by (simp add: represents_filter_named)
next
  case (Cons q qs)
  note IH = Cons.IH
  from Cons.prems show ?case
  proof (induction rule: list_all2_induct)
    case Nil
    show ?case by (simp add: List.map_filter_simps foldl_next_level del: foldl_Cons)
  next
    case (Cons nd nodes t ts)
    show ?case
    proof (cases "tree_named p t")
      case True
      then obtain r as us where t: "t = TElement r p as us" by (cases t) auto
      then have "named_children st p nd = Some (e_children (st ! r))"
        and us: "list_all2 (represents st) (e_children (st ! r)) us"
        using Cons(1) by (auto simp: named_children_def)
      moreover have "foldl next_level (t # filter (tree_named p) ts) (q # qs) =
          foldl next_level (filter (tree_named q) us) qs @ foldl next_level (filter (tree_named p) ts) (q # qs)"
        by (simp add: t next_level_def next_level_append)
      ultimately show ?thesis using Cons.IH IH [OF us, of q] True
        by (simp add: List.map_filter_simps list_all2_appendI)
    next
      case False
      then have "named_children st p nd = None" using Cons(1) by (cases t) (auto simp: named_children_def)
      with Cons.IH False show ?thesis by (simp add: List.map_filter_simps)
    qed
  qed
qed

text \<open>C30: searching for a path of at least two names returns the elements it leads to, in the order of the document;
  with the name of the top element alone it returns nothing, and with an empty path it raises.\<close>

theorem path_to_nodes_correct:
  assumes "represents st (Element r) t"
  shows "(\<exists>nodes. path_to_nodes st (Doc r) (top_name # p # ps) = Inr nodes \<and>
            list_all2 (represents st) nodes (trees_at t (top_name # p # ps))) \<and>
         path_to_nodes st (Doc r) [top_name] = Inr [] \<and>
         path_to_nodes st (Doc r) [] = Inl (OInvalid_argument ''path_to_nodes: empty path'')"
proof -
  obtain n as ts where t: "t = TElement r n as ts" using assms by (cases t) auto
  then have n: "e_name (st ! r) = n" and ts: "list_all2 (represents st) (e_children (st ! r)) ts" using assms by auto
  have "trees_at t (top_name # p # ps) = (if n = top_name then foldl next_level (filter (tree_named p) ts) ps else [])"
    by (simp add: t trees_at_def next_level_def foldl_next_level)
  with path_loop_represents [OF ts, of p ps] n show ?thesis by (auto simp: path_to_nodes_def)
qed

definition demo_dom :: dom where
  "demo_dom = [\<lparr>e_name = ''b'', e_attrs = [], e_children = [PCData ''x & y'']\<rparr>,
     \<lparr>e_name = ''a'', e_attrs = [(''k'', ''<v>'')], e_children = [Comment ''c'', Element 0]\<rparr>]"

definition demo_tree :: tree where
  "demo_tree = TElement 1 ''a'' [(''k'', ''<v>'')] [TComment ''c'', TElement 0 ''b'' [] [TText ''x & y'']]"

lemma demo_represents: "represents demo_dom (Element 1) demo_tree"
  by (simp add: demo_dom_def demo_tree_def)

theorem path_to_nodes_correct_witness:
  "\<exists>nodes. path_to_nodes demo_dom (Doc 1) [''a'', ''b''] = Inr nodes \<and>
     list_all2 (represents demo_dom) nodes (trees_at demo_tree [''a'', ''b''])"
  by (rule conjunct1 [OF path_to_nodes_correct [OF demo_represents]])

end
