(* ===== verification/DomText.thy ===== *)
theory DomText
  imports DomStore
begin

section \<open>Printed XML documents are read back (lib/DOM.ml)\<close>

text \<open>
  A reader of XML: it drops text of white space only, decodes the entities, and matches the tags. A printed document
  is read back as the tree it stands for.
\<close>

subsection \<open>Quoting\<close>

text \<open>What the code relies on: \<open>String.replace\<close> replaces every occurrence (here of one character), \<open>String.spaces\<close> gives spaces.\<close>

definition string_lib_ok :: "string_lib \<Rightarrow> bool" where
  "string_lib_ok lib \<longleftrightarrow>
     (\<forall>s c t. str_replace lib s [c] t = concat (map (\<lambda>x. if x = c then t else [x]) s)) \<and>
     (\<forall>n. str_spaces lib n = replicate n (CHR '' ''))"

definition entity :: "char \<Rightarrow> string" where
  "entity c =
     (if c = CHR ''&'' then ''&amp;'' else if c = CHR ''<'' then ''&lt;'' else if c = CHR ''>'' then ''&gt;'' else [c])"

definition attr_entity :: "char \<Rightarrow> string" where
  "attr_entity c = (if c = CHR 39 then ''&apos;'' else entity c)"

fun decode :: "string \<Rightarrow> string option" where
  "decode [] = Some []"
| "decode (c # s) =
     (if c \<noteq> CHR ''&'' then map_option ((#) c) (decode s)
      else if take 4 s = ''amp;'' then map_option ((#) (CHR ''&'')) (decode (drop 4 s))
      else if take 3 s = ''lt;'' then map_option ((#) (CHR ''<'')) (decode (drop 3 s))
      else if take 3 s = ''gt;'' then map_option ((#) (CHR ''>'')) (decode (drop 3 s))
      else if take 5 s = ''apos;'' then map_option ((#) (CHR 39)) (decode (drop 5 s))
      else None)"

lemma concat_map_concat: "concat (map f (concat (map g s))) = concat (map (\<lambda>c. concat (map f (g c))) s)"
  by (induction s) simp_all

lemma quote_pcdata: "string_lib_ok lib \<Longrightarrow> xml_quote_pcdata lib s = concat (map entity s)"
  by (auto simp: xml_quote_pcdata_def string_lib_ok_def concat_map_concat entity_def intro!: arg_cong [of _ _ concat])

lemma quote_attr: "string_lib_ok lib \<Longrightarrow> xml_quote_attr lib s = concat (map attr_entity s)"
  by (auto simp: xml_quote_attr_def string_lib_ok_def concat_map_concat entity_def attr_entity_def
      intro!: arg_cong [of _ _ concat])

lemma decode_entity: "decode (entity c @ s) = map_option ((#) c) (decode s)"
  by (simp add: entity_def)

lemma decode_attr_entity: "decode (attr_entity c @ s) = map_option ((#) c) (decode s)"
  by (simp add: attr_entity_def decode_entity)

lemma decode_quoted: "decode (concat (map entity s)) = Some s"
  by (induction s) (simp_all add: decode_entity)

lemma decode_attr_quoted: "decode (concat (map attr_entity s)) = Some s"
  by (induction s) (simp_all add: decode_attr_entity)

lemma entity_chars: "x \<in> set (entity c) \<Longrightarrow> x \<noteq> CHR ''<'' \<and> x \<noteq> CHR ''>''"
  by (auto simp: entity_def split: if_splits)

lemma attr_entity_chars: "x \<in> set (attr_entity c) \<Longrightarrow> x \<noteq> CHR 39"
  by (auto simp: attr_entity_def entity_def split: if_splits)

subsection \<open>The reader\<close>

datatype xml = XText string | XComment string | XElement string "attr list" "xml list"

datatype token = Open string "attr list" | Close string | Empty string "attr list" | Text string | Com string

definition name_char :: "char \<Rightarrow> bool" where
  "name_char c \<longleftrightarrow>
     (let n = of_char c :: nat
      in 65 \<le> n \<and> n \<le> 90 \<or> 97 \<le> n \<and> n \<le> 122 \<or> 48 \<le> n \<and> n \<le> 57 \<or> n = 45 \<or> n = 46 \<or> n = 58 \<or> n = 95)"

definition is_space :: "char \<Rightarrow> bool" where
  "is_space c \<longleftrightarrow> c = CHR '' '' \<or> c = CHR 10 \<or> c = CHR 9 \<or> c = CHR 13"

fun comment_end :: "string \<Rightarrow> (string \<times> string) option" where
  "comment_end [] = None"
| "comment_end (c # s) =
     (if take 3 (c # s) = ''-->'' then Some ([], drop 2 s)
      else map_option (\<lambda>(body, rest). (c # body, rest)) (comment_end s))"

lemma length_dropWhile_Suc: "dropWhile P s = c # t \<Longrightarrow> length t < length s"
  using length_dropWhile_le [of P s] by simp

lemma comment_end_length: "comment_end s = Some (body, rest) \<Longrightarrow> length rest \<le> length s"
  by (induction s arbitrary: body) (auto split: if_splits)

function read_attrs :: "string \<Rightarrow> (attr list \<times> string) option" where
  "read_attrs s =
     (case s of
        [] \<Rightarrow> Some ([], s)
      | c # t \<Rightarrow>
          if c \<noteq> CHR '' '' then Some ([], s)
          else (case dropWhile name_char t of
                  x # y # v \<Rightarrow>
                    if x = CHR ''='' \<and> y = CHR 39
                    then (case (dropWhile (\<lambda>c. c \<noteq> CHR 39) v, decode (takeWhile (\<lambda>c. c \<noteq> CHR 39) v)) of
                            (_ # rest, Some d) \<Rightarrow>
                              map_option (\<lambda>(as, rest). ((takeWhile name_char t, d) # as, rest)) (read_attrs rest)
                          | _ \<Rightarrow> None)
                    else None
                | _ \<Rightarrow> None))"
  by auto
termination
  by (relation "measure length") (auto dest!: length_dropWhile_Suc length_dropWhile_Suc [OF sym])

declare read_attrs.simps [simp del]

lemma read_attrs_length: "read_attrs s = Some (as, rest) \<Longrightarrow> length rest \<le> length s"
proof (induction s arbitrary: as rule: length_induct)
  case (1 s)
  note IH = "1"(1)
  from "1.prems" consider (stop) "rest = s"
    | (attr) c t x y v z u as' where "s = c # t" "dropWhile name_char t = x # y # v"
        "dropWhile (\<lambda>c. c \<noteq> CHR 39) v = z # u" "read_attrs u = Some (as', rest)"
    by (subst (asm) read_attrs.simps) (auto split: list.splits if_splits option.splits)
  then show ?case
  proof cases
    case attr
    have "length u < length s"
      using attr(1) length_dropWhile_Suc [OF attr(2)] length_dropWhile_Suc [OF attr(3)] by simp
    with IH attr(4) show ?thesis by fastforce
  qed simp
qed

lemma attrs_length: "read_attrs (dropWhile P t) = Some (as, rest) \<Longrightarrow> length rest \<le> length t"
  using read_attrs_length length_dropWhile_le le_trans by blast

lemma close_length: "dropWhile P (drop n t) = x # rest \<Longrightarrow> length rest \<le> length t"
  using length_dropWhile_Suc [of P "drop n t" x rest] by simp

text \<open>The tokens; text of white space only is dropped.\<close>

function xml_tokens :: "string \<Rightarrow> token list option" where
  "xml_tokens s =
     (case s of
        [] \<Rightarrow> Some []
      | c # t \<Rightarrow>
          if c \<noteq> CHR ''<''
          then (let raw = takeWhile (\<lambda>c. c \<noteq> CHR ''<'') s; rest = dropWhile (\<lambda>c. c \<noteq> CHR ''<'') t
                in if list_all is_space raw then xml_tokens rest
                   else case decode raw of None \<Rightarrow> None | Some d \<Rightarrow> map_option ((#) (Text d)) (xml_tokens rest))
          else if take 3 t = ''!--''
          then (case comment_end (drop 3 t) of
                  None \<Rightarrow> None | Some (body, rest) \<Rightarrow> map_option ((#) (Com body)) (xml_tokens rest))
          else if take 1 t = ''/''
          then (case dropWhile name_char (drop 1 t) of
                  [] \<Rightarrow> None
                | x # rest \<Rightarrow>
                    if x = CHR ''>'' then map_option ((#) (Close (takeWhile name_char (drop 1 t)))) (xml_tokens rest) else None)
          else (case read_attrs (dropWhile name_char t) of
                  None \<Rightarrow> None
                | Some (as, rest) \<Rightarrow>
                    if take 2 rest = ''/>'' then map_option ((#) (Empty (takeWhile name_char t) as)) (xml_tokens (drop 2 rest))
                    else if take 1 rest = ''>'' then map_option ((#) (Open (takeWhile name_char t) as)) (xml_tokens (drop 1 rest))
                    else None))"
  by auto
termination
  by (relation "measure length")
     (auto simp: less_Suc_eq_le length_dropWhile_le dest!: comment_end_length close_length attrs_length)

declare xml_tokens.simps [simp del]

lemma tokens_tag:
  "take 3 t \<noteq> ''!--'' \<Longrightarrow> take 1 t \<noteq> ''/'' \<Longrightarrow>
   xml_tokens (CHR ''<'' # t) =
     (case read_attrs (dropWhile name_char t) of
        None \<Rightarrow> None
      | Some (as, rest) \<Rightarrow>
          if take 2 rest = ''/>'' then map_option ((#) (Empty (takeWhile name_char t) as)) (xml_tokens (drop 2 rest))
          else if take 1 rest = ''>'' then map_option ((#) (Open (takeWhile name_char t) as)) (xml_tokens (drop 1 rest))
          else None)"
  by (subst xml_tokens.simps) simp

lemma tokens_text:
  assumes "\<forall>x \<in> set raw. x \<noteq> CHR ''<''" and "raw \<noteq> []"
  shows "xml_tokens (raw @ CHR ''<'' # t) =
    (if list_all is_space raw then xml_tokens (CHR ''<'' # t)
     else case decode raw of None \<Rightarrow> None | Some d \<Rightarrow> map_option ((#) (Text d)) (xml_tokens (CHR ''<'' # t)))"
proof -
  obtain c u where raw: "raw = c # u" using assms(2) by (cases raw) auto
  have "takeWhile (\<lambda>c. c \<noteq> CHR ''<'') (c # u @ CHR ''<'' # t) = raw" "dropWhile (\<lambda>c. c \<noteq> CHR ''<'') (u @ CHR ''<'' # t) = CHR ''<'' # t"
    using assms(1) by (auto simp: raw takeWhile_append2 dropWhile_append2)
  then have eq: "takeWhile (\<lambda>c. c \<noteq> CHR ''<'') (c # u @ CHR ''<'' # t) = c # u" by (simp only: raw)
  show ?thesis unfolding raw append_Cons
    by (subst xml_tokens.simps) (use assms(1) \<open>dropWhile _ _ = _\<close> eq in \<open>simp only: list.case Let_def if_True raw list.set_intros(1) simp_thms\<close>)
qed

text \<open>The tree of the tokens, with the open elements on a stack.\<close>

fun build :: "token list \<Rightarrow> (string \<times> attr list \<times> xml list) list \<Rightarrow> xml list \<Rightarrow> xml list option" where
  "build [] [] acc = Some (rev acc)"
| "build [] (_ # _) acc = None"
| "build (Text s # ts) stack acc = build ts stack (XText s # acc)"
| "build (Com s # ts) stack acc = build ts stack (XComment s # acc)"
| "build (Empty n as # ts) stack acc = build ts stack (XElement n as [] # acc)"
| "build (Open n as # ts) stack acc = build ts ((n, as, acc) # stack) []"
| "build (Close n # ts) [] acc = None"
| "build (Close n # ts) ((m, as, acc') # stack) acc = (if n = m then build ts stack (XElement m as (rev acc) # acc') else None)"

definition read_doc :: "string \<Rightarrow> xml option" where
  "read_doc s =
     (if take (length xml_header) s \<noteq> xml_header then None
      else case Option.bind (xml_tokens (drop (length xml_header) s)) (\<lambda>toks. build toks [] []) of
             Some [x] \<Rightarrow> Some x | _ \<Rightarrow> None)"

subsection \<open>What is printed\<close>

fun is_text :: "tree \<Rightarrow> bool" where
  "is_text (TText s) = True"
| "is_text _ = False"

definition render_attrs :: "attr list \<Rightarrow> string" where
  "render_attrs as = concat (map (\<lambda>(n, v). '' '' @ n @ [CHR ''='', CHR 39] @ concat (map attr_entity v) @ [CHR 39]) as)"

definition spaces :: "nat \<Rightarrow> string" where
  "spaces n = replicate n (CHR '' '')"

fun render :: "nat \<Rightarrow> tree \<Rightarrow> string" where
  "render indent (TText s) = concat (map entity s)"
| "render indent (TComment s) = spaces indent @ ''<!-- '' @ concat (map entity s) @ '' -->''"
| "render indent (TElement r n as ts) =
     spaces indent @ ''<'' @ n @ render_attrs as @
     (if ts = [] then ''/>''
      else ''>'' @ concat (map (\<lambda>t. (if is_text t then [] else [CHR 10]) @ render (indent + 2) t) ts) @
           (if is_text (last ts) then [] else [CHR 10] @ spaces indent) @ ''</'' @ n @ ''>'')"

lemma attrs_to_buf_render: "string_lib_ok lib \<Longrightarrow> attrs_to_buf lib buf as = buf @ render_attrs as"
  by (induction as arbitrary: buf) (auto simp: render_attrs_def quote_attr)

lemma spaces_lib: "string_lib_ok lib \<Longrightarrow> str_spaces lib n = spaces n"
  by (simp add: string_lib_ok_def spaces_def)

lemma represents_is_text: "represents st nd t \<Longrightarrow> is_text t = (\<exists>s. nd = PCData s)"
  by (cases t) auto

lemma children_to_buf_render:
  assumes "list_all2 (represents st) nds ts"
    and "\<And>nd t buf. nd \<in> set nds \<Longrightarrow> t \<in> set ts \<Longrightarrow> represents st nd t \<Longrightarrow>
           node_to_buf lib fuel st (indent + 2) buf nd = Some (buf @ render (indent + 2) t)"
  shows "children_to_buf lib fuel st indent buf l nds =
    Some (buf @ concat (map (\<lambda>t. (if is_text t then [] else [CHR 10]) @ render (indent + 2) t) ts),
          if ts = [] then l else \<not> is_text (last ts))"
  using assms
proof (induction arbitrary: buf l rule: list_all2_induct)
  case (Cons nd nds t ts)
  have nd: "node_to_buf lib fuel st (indent + 2) b nd = Some (b @ render (indent + 2) t)" for b
    using Cons.prems Cons.hyps by simp
  have "children_to_buf lib fuel st indent b l nds =
    Some (b @ concat (map (\<lambda>t. (if is_text t then [] else [CHR 10]) @ render (indent + 2) t) ts),
          if ts = [] then l else \<not> is_text (last ts))" for b l
    using Cons.IH Cons.prems by simp
  then show ?case using represents_is_text [OF Cons.hyps(1)] nd by (cases nd) auto
qed simp

lemma node_to_buf_render:
  assumes lib: "string_lib_ok lib"
  shows "represents st nd t \<Longrightarrow> tree_depth t \<le> fuel \<Longrightarrow> node_to_buf lib fuel st indent buf nd = Some (buf @ render indent t)"
proof (induction t arbitrary: nd fuel indent buf)
  case (TElement r n as ts)
  from TElement.prems(2) obtain k where k: "fuel = Suc k" "\<forall>t \<in> set ts. tree_depth t \<le> k" by (cases fuel) auto
  from TElement.prems(1) have nd: "nd = Element r" and st: "e_name (st ! r) = n" "e_attrs (st ! r) = as"
    and ts: "list_all2 (represents st) (e_children (st ! r)) ts" by simp_all
  have "children_to_buf lib k st indent b False (e_children (st ! r)) =
      Some (b @ concat (map (\<lambda>t. (if is_text t then [] else [CHR 10]) @ render (indent + 2) t) ts),
            if ts = [] then False else \<not> is_text (last ts))" for b
    by (rule children_to_buf_render [OF ts]) (use TElement.IH k(2) in auto)
  moreover have "e_children (st ! r) = [] \<longleftrightarrow> ts = []" using ts by auto
  ultimately show ?case
    by (simp add: nd k(1) st Let_def attrs_to_buf_render [OF lib] buffer_add_spaces_def spaces_lib [OF lib])
qed (auto simp: quote_pcdata [OF lib] buffer_add_spaces_def spaces_lib [OF lib])

subsection \<open>Reading what is printed\<close>

text \<open>Names are not empty and of the characters of names.\<close>

definition name_ok :: "string \<Rightarrow> bool" where
  "name_ok n \<longleftrightarrow> n \<noteq> [] \<and> list_all name_char n"

fun names_ok :: "tree \<Rightarrow> bool" where
  "names_ok (TElement r n as ts) = (name_ok n \<and> list_all (\<lambda>(k, v). name_ok k) as \<and> list_all names_ok ts)"
| "names_ok _ = True"

text \<open>What a reader sees of a printed element. The printer starts every child that is not a text on a new line and indents it, and
  puts the end tag on a line of its own after such a child. This white space belongs to the text before it; texts that follow each
  other are one text, and a text of white space only is not seen. A comment is read with a space on each side and with the
  entities that the printer put into it, which mean nothing in a comment. (\<open>after\<close>: the last child was not a text; \<open>pend\<close>: the text since the last
  tag or comment.)\<close>

definition seen_text :: "string \<Rightarrow> xml list" where
  "seen_text s = (if list_all is_space s then [] else [XText s])"

fun seen :: "nat \<Rightarrow> tree \<Rightarrow> xml" and seen_children :: "nat \<Rightarrow> bool \<Rightarrow> string \<Rightarrow> tree list \<Rightarrow> xml list" where
  "seen i (TText s) = XText s"
| "seen i (TComment s) = XComment ('' '' @ concat (map entity s) @ '' '')"
| "seen i (TElement r n as ts) = XElement n as (seen_children i False [] ts)"
| "seen_children i after pend [] = seen_text (pend @ (if after then [CHR 10] @ spaces i else []))"
| "seen_children i after pend (t # ts) =
     (case t of
        TText s \<Rightarrow> seen_children i False (pend @ s) ts
      | _ \<Rightarrow> seen_text (pend @ [CHR 10] @ spaces (i + 2)) @ seen (i + 2) t # seen_children i True [] ts)"

text \<open>The documents that are read as they are: every element has one text that is not white space only as its only child, or no text among its
  children, and no comment has a character that is quoted. What a reader sees of these: no references, and the spaces that
  are printed around a comment.\<close>

fun writable :: "tree \<Rightarrow> bool" where
  "writable (TText s) = (\<not> list_all is_space s)"
| "writable (TComment s) = list_all (\<lambda>c. c \<noteq> CHR ''&'' \<and> c \<noteq> CHR ''<'' \<and> c \<noteq> CHR ''>'') s"
| "writable (TElement r n as ts) =
     (name_ok n \<and> list_all (\<lambda>(k, v). name_ok k) as \<and> list_all writable ts \<and>
      (length ts = 1 \<or> list_all (\<lambda>t. \<not> is_text t) ts))"

fun erase :: "tree \<Rightarrow> xml" where
  "erase (TText s) = XText s"
| "erase (TComment s) = XComment ('' '' @ s @ '' '')"
| "erase (TElement r n as ts) = XElement n as (map erase ts)"

lemma entity_plain: "list_all (\<lambda>c. c \<noteq> CHR ''&'' \<and> c \<noteq> CHR ''<'' \<and> c \<noteq> CHR ''>'') s \<Longrightarrow> concat (map entity s) = s"
  by (induction s) (auto simp: entity_def)

lemma seen_space: "list_all is_space s \<Longrightarrow> seen_text s = []"
  by (simp add: seen_text_def)

lemma spaces_space: "list_all is_space (spaces n)" "list_all is_space [CHR 10]" "is_space (CHR 10)"
  by (simp_all add: spaces_def is_space_def list_all_iff)

lemma seen_no_text:
  assumes "list_all (\<lambda>t. \<not> is_text t) ts"
  shows "seen_children i after [] ts = map (seen (i + 2)) ts"
  using assms
proof (induction ts arbitrary: after)
  case Nil
  then show ?case by (simp add: seen_space spaces_space)
next
  case (Cons t ts)
  then show ?case by (cases t) (simp_all add: seen_space spaces_space)
qed

lemma seen_writable: "writable t \<Longrightarrow> seen i t = erase t"
proof (induction t arbitrary: i)
  case (TElement r n as ts)
  show ?case
  proof (cases "list_all (\<lambda>t. \<not> is_text t) ts")
    case True
    have "seen (i + 2) t = erase t" if "t \<in> set ts" for t using TElement that by (simp add: list_all_iff)
    then show ?thesis by (simp add: seen_no_text [OF True])
  next
    case False
    then obtain s where "ts = [TText s]" using TElement.prems by (cases ts; cases "hd ts") auto
    then show ?thesis using TElement.prems by (simp add: seen_text_def)
  qed
qed (simp_all add: entity_plain)

lemma writable_names: "writable t \<Longrightarrow> names_ok t"
  by (induction t) (auto simp: list_all_iff)

lemma names_add_child: "names_ok t \<Longrightarrow> names_ok c \<Longrightarrow> names_ok (add_child_at q c t)"
  by (induction t) (auto simp: list_all_iff)

text \<open>The tokens of what is printed.\<close>

definition text_tokens :: "string \<Rightarrow> token list" where
  "text_tokens s = (if list_all is_space s then [] else [Text s])"

fun tokens_of :: "nat \<Rightarrow> tree \<Rightarrow> token list" and children_tokens :: "nat \<Rightarrow> bool \<Rightarrow> string \<Rightarrow> tree list \<Rightarrow> token list" where
  "tokens_of i (TText s) = [Text s]"
| "tokens_of i (TComment s) = [Com ('' '' @ concat (map entity s) @ '' '')]"
| "tokens_of i (TElement r n as ts) = (if ts = [] then [Empty n as] else Open n as # children_tokens i False [] ts @ [Close n])"
| "children_tokens i after pend [] = text_tokens (pend @ (if after then [CHR 10] @ spaces i else []))"
| "children_tokens i after pend (t # ts) =
     (case t of
        TText s \<Rightarrow> children_tokens i False (pend @ s) ts
      | _ \<Rightarrow> text_tokens (pend @ [CHR 10] @ spaces (i + 2)) @ tokens_of (i + 2) t @ children_tokens i True [] ts)"

lemma build_text: "build (text_tokens s @ toks) stack acc = build toks stack (rev (seen_text s) @ acc)"
  by (simp add: text_tokens_def seen_text_def)

lemma build_tokens:
  "build (tokens_of i t @ toks) stack acc = build toks stack (seen i t # acc)"
  "build (children_tokens i after pend ts @ toks) stack acc = build toks stack (rev (seen_children i after pend ts) @ acc)"
proof (induction i t and i after pend ts arbitrary: toks stack acc and toks stack acc rule: tokens_of_children_tokens.induct)
  case (3 i r n as ts)
  then show ?case by (auto simp: seen_space)
next
  case (5 i after pend t ts)
  then show ?case by (cases t) (simp_all add: build_text)
qed (simp_all add: build_text)

lemma name_char_not: "name_char c \<Longrightarrow> c \<noteq> CHR '' '' \<and> c \<noteq> CHR ''='' \<and> c \<noteq> CHR ''/'' \<and> c \<noteq> CHR ''>'' \<and> c \<noteq> CHR ''!''"
  by (auto simp: name_char_def)

lemma span_name:
  assumes "list_all name_char n" and "\<not> name_char c"
  shows "takeWhile name_char (n @ c # s) = n" "dropWhile name_char (n @ c # s) = c # s"
  using assms by (auto simp: takeWhile_append2 dropWhile_append2 list_all_iff)

lemma span_until:
  "\<forall>x \<in> set a. x \<noteq> c \<Longrightarrow> takeWhile (\<lambda>x. x \<noteq> c) (a @ c # s) = a \<and> dropWhile (\<lambda>x. x \<noteq> c) (a @ c # s) = c # s"
  by (induction a) auto

lemma span_quote:
  "takeWhile (\<lambda>c. c \<noteq> CHR 39) (concat (map attr_entity v) @ CHR 39 # s) = concat (map attr_entity v)"
  "dropWhile (\<lambda>c. c \<noteq> CHR 39) (concat (map attr_entity v) @ CHR 39 # s) = CHR 39 # s"
proof -
  have "\<forall>x \<in> set (concat (map attr_entity v)). x \<noteq> CHR 39" using attr_entity_chars by auto
  note q = span_until [OF this, of s]
  show "takeWhile (\<lambda>c. c \<noteq> CHR 39) (concat (map attr_entity v) @ CHR 39 # s) = concat (map attr_entity v)" by (rule conjunct1 [OF q])
  show "dropWhile (\<lambda>c. c \<noteq> CHR 39) (concat (map attr_entity v) @ CHR 39 # s) = CHR 39 # s" by (rule conjunct2 [OF q])
qed

lemma not_name_char: "\<not> name_char (CHR '' '')" "\<not> name_char (CHR ''='')" "\<not> name_char (CHR ''/'')" "\<not> name_char (CHR ''>'')"
  using name_char_not by blast+

lemma read_attrs_render:
  "list_all (\<lambda>(k, v). name_ok k) as \<Longrightarrow> c \<noteq> CHR '' '' \<Longrightarrow> read_attrs (render_attrs as @ c # s) = Some (as, c # s)"
proof (induction as)
  case Nil
  then show ?case by (subst read_attrs.simps) (simp add: render_attrs_def)
next
  case (Cons a as)
  obtain k v where a: "a = (k, v)" by (cases a)
  have k: "list_all name_char k" using Cons.prems(1) by (simp add: a name_ok_def)
  have render: "render_attrs (a # as) @ c # s =
      CHR '' '' # k @ CHR ''='' # CHR 39 # concat (map attr_entity v) @ CHR 39 # render_attrs as @ c # s"
    by (simp add: a render_attrs_def)
  have IH: "read_attrs (render_attrs as @ c # s) = Some (as, c # s)" using Cons by simp
  show ?case unfolding render
    by (subst read_attrs.simps) (simp add: span_name [OF k not_name_char(2)] span_quote decode_attr_quoted IH a)
qed

lemma render_attrs_hd: "\<exists>c u. render_attrs as @ d # s = c # u \<and> (c = CHR '' '' \<or> c = d)"
  by (cases as) (auto simp: render_attrs_def)

lemma lex_tag:
  assumes "name_ok n" and "list_all (\<lambda>(k, v). name_ok k) as"
  shows "xml_tokens (CHR ''<'' # n @ render_attrs as @ CHR ''/'' # CHR ''>'' # s) = map_option ((#) (Empty n as)) (xml_tokens s)"
    and "xml_tokens (CHR ''<'' # n @ render_attrs as @ CHR ''>'' # s) = map_option ((#) (Open n as)) (xml_tokens s)"
proof -
  have n: "list_all name_char n" using assms(1) by (simp add: name_ok_def)
  obtain x m where x: "n = x # m" "x \<noteq> CHR ''!''" "x \<noteq> CHR ''/''"
    using assms(1) name_char_not by (cases n) (auto simp: name_ok_def)
  have tag: "takeWhile name_char (n @ render_attrs as @ d # u) = n"
    "dropWhile name_char (n @ render_attrs as @ d # u) = render_attrs as @ d # u" if "\<not> name_char d" for d u
    using render_attrs_hd [of as d u] span_name [OF n] not_name_char(1) that by auto
  have no: "take 3 (n @ u) \<noteq> ''!--''" "take 1 (n @ u) \<noteq> ''/''" for u using x by auto
  show "xml_tokens (CHR ''<'' # n @ render_attrs as @ CHR ''/'' # CHR ''>'' # s) = map_option ((#) (Empty n as)) (xml_tokens s)"
    by (simp only: tokens_tag [OF no] tag [OF not_name_char(3)]) (simp add: read_attrs_render [OF assms(2)])
  show "xml_tokens (CHR ''<'' # n @ render_attrs as @ CHR ''>'' # s) = map_option ((#) (Open n as)) (xml_tokens s)"
    by (simp only: tokens_tag [OF no] tag [OF not_name_char(4)]) (simp add: read_attrs_render [OF assms(2)])
qed

lemma lex_close: "name_ok n \<Longrightarrow> xml_tokens (CHR ''<'' # CHR ''/'' # n @ CHR ''>'' # s) = map_option ((#) (Close n)) (xml_tokens s)"
  by (subst xml_tokens.simps) (simp add: name_ok_def span_name not_name_char)

lemma lex_space: "list_all is_space w \<Longrightarrow> xml_tokens (w @ CHR ''<'' # s) = xml_tokens (CHR ''<'' # s)"
proof (cases "w = []")
  case False
  assume w: "list_all is_space w"
  have "\<not> is_space (CHR ''<'')" by (simp add: is_space_def)
  with w have "\<forall>x \<in> set w. x \<noteq> CHR ''<''" unfolding list_all_iff by blast
  from tokens_text [OF this False] w show ?thesis by simp
qed simp

lemma space_entity: "list_all is_space (concat (map entity s)) = list_all is_space s"
proof (induction s)
  case (Cons c s)
  have "list_all is_space (entity c) = is_space c" unfolding entity_def by (simp add: is_space_def)
  with Cons show ?case by simp
qed simp

lemma lex_text:
  "xml_tokens (concat (map entity s) @ CHR ''<'' # t) = map_option ((@) (text_tokens s)) (xml_tokens (CHR ''<'' # t))"
proof (cases "list_all is_space s")
  case True
  then show ?thesis using lex_space [of "concat (map entity s)" t] 
    by (cases "xml_tokens (CHR ''<'' # t)") (simp_all add: space_entity text_tokens_def)
next
  case False
  let ?q = "concat (map entity s)"
  have "\<not> list_all is_space ?q" using False by (simp add: space_entity)
  moreover from this have "?q \<noteq> []" by (cases ?q) auto
  moreover have "\<forall>x \<in> set ?q. x \<noteq> CHR ''<''" using entity_chars by auto
  ultimately show ?thesis
    using tokens_text [of ?q t] decode_quoted [of s] False by (simp add: text_tokens_def append_Cons [abs_def] cong: option.map_cong)
qed

lemma comment_end_text:
  "list_all (\<lambda>c. c \<noteq> CHR ''>'') s \<Longrightarrow>
   comment_end (s @ CHR '' '' # CHR ''-'' # CHR ''-'' # CHR ''>'' # t) = Some (s @ '' '', t)"
proof (induction s)
  case (Cons c s)
  have "take 3 ((c # s) @ CHR '' '' # CHR ''-'' # CHR ''-'' # CHR ''>'' # t) \<noteq> ''-->''"
    using Cons.prems by (cases s; cases "tl s") auto
  with Cons show ?case by simp
qed simp

lemma lex_comment:
  "xml_tokens (CHR ''<'' # CHR ''!'' # CHR ''-'' # CHR ''-'' # CHR '' '' # concat (map entity s) @ CHR '' '' # CHR ''-'' # CHR ''-'' # CHR ''>'' # t) =
    map_option ((#) (Com ('' '' @ concat (map entity s) @ '' ''))) (xml_tokens t)"
proof -
  have "list_all (\<lambda>c. c \<noteq> CHR ''>'') (CHR '' '' # concat (map entity s))" using entity_chars by (auto simp: list_all_iff)
  from comment_end_text [OF this, of t] show ?thesis by (subst xml_tokens.simps) simp
qed

lemma entity_spaces: "concat (map entity (spaces n)) = spaces n" "entity (CHR 10) = [CHR 10]"
  by (simp_all add: spaces_def entity_def map_replicate_const concat_replicate_trivial)

lemma map_option_append: "map_option ((@) a) (map_option ((@) b) x) = map_option ((@) (a @ b)) x"
  by (cases x) simp_all

text \<open>After its indentation an element or comment starts with \<open><\<close>; \<open>lexed i t\<close>: from there on it gives its tokens.\<close>

definition lexed :: "nat \<Rightarrow> tree \<Rightarrow> bool" where
  "lexed i t \<longleftrightarrow> (\<exists>b. render i t = spaces i @ CHR ''<'' # b \<and>
     (\<forall>u. xml_tokens (CHR ''<'' # b @ u) = map_option ((@) (tokens_of i t)) (xml_tokens u)))"

lemma lex_children:
  assumes "\<And>t. t \<in> set ts \<Longrightarrow> \<not> is_text t \<Longrightarrow> lexed (i + 2) t"
  shows "xml_tokens (concat (map entity pend) @ concat (map (\<lambda>t. (if is_text t then [] else [CHR 10]) @ render (i + 2) t) ts) @
      (if (if ts = [] then after else \<not> is_text (last ts)) then [CHR 10] @ spaces i else []) @ CHR ''<'' # u) =
    map_option ((@) (children_tokens i after pend ts)) (xml_tokens (CHR ''<'' # u))"
  using assms
proof (induction ts arbitrary: after pend)
  case Nil
  show ?case using lex_text [of "pend @ (if after then [CHR 10] @ spaces i else [])" u] by (cases after) (simp_all add: entity_spaces)
next
  case (Cons t ts)
  let ?rest = "\<lambda>after. concat (map (\<lambda>t. (if is_text t then [] else [CHR 10]) @ render (i + 2) t) ts) @
      (if (if ts = [] then after else \<not> is_text (last ts)) then [CHR 10] @ spaces i else []) @ CHR ''<'' # u"
  have IH: "xml_tokens (concat (map entity p) @ ?rest a) = map_option ((@) (children_tokens i a p ts)) (xml_tokens (CHR ''<'' # u))" for a p
    using Cons by simp
  show ?case
  proof (cases "is_text t")
    case True
    then obtain s where "t = TText s" by (cases t) auto
    then show ?thesis using IH [of "pend @ s" False] by (cases "ts = []"; cases "is_text (last ts)") simp_all
  next
    case False
    then obtain b where b: "render (i + 2) t = spaces (i + 2) @ CHR ''<'' # b"
      "\<And>u. xml_tokens (CHR ''<'' # b @ u) = map_option ((@) (tokens_of (i + 2) t)) (xml_tokens u)"
      using Cons.prems [of t] by (auto simp: lexed_def)
    have "xml_tokens (concat (map entity pend) @ ([CHR 10] @ render (i + 2) t) @ ?rest True) =
        map_option ((@) (text_tokens (pend @ [CHR 10] @ spaces (i + 2)) @ tokens_of (i + 2) t @ children_tokens i True [] ts)) (xml_tokens (CHR ''<'' # u))"
    proof -
      have after: "xml_tokens (?rest True) = map_option ((@) (children_tokens i True [] ts)) (xml_tokens (CHR ''<'' # u))"
        using IH [of "[]" True] by (simp only: list.map concat.simps append_Nil)
      have "concat (map entity pend) @ ([CHR 10] @ render (i + 2) t) @ ?rest True =
          concat (map entity (pend @ [CHR 10] @ spaces (i + 2))) @ CHR ''<'' # b @ ?rest True"
        using b(1) by (simp add: entity_spaces)
      then show ?thesis by (simp only: lex_text b(2) after map_option_append append_assoc)
    qed
    moreover have "children_tokens i after pend (t # ts) =
        text_tokens (pend @ [CHR 10] @ spaces (i + 2)) @ tokens_of (i + 2) t @ children_tokens i True [] ts"
      using False by (cases t) simp_all
    moreover have "concat (map (\<lambda>t. (if is_text t then [] else [CHR 10]) @ render (i + 2) t) (t # ts)) @
        (if (if t # ts = [] then after else \<not> is_text (last (t # ts))) then [CHR 10] @ spaces i else []) @ CHR ''<'' # u =
        ([CHR 10] @ render (i + 2) t) @ ?rest True"
      using False by (cases "ts = []") simp_all
    ultimately show ?thesis by (simp only:)
  qed
qed

lemma lex_render: "names_ok t \<Longrightarrow> \<not> is_text t \<Longrightarrow> lexed i t"
proof (induction t arbitrary: i)
  case (TComment s)
  have "render i (TComment s) = spaces i @ CHR ''<'' # (''!-- '' @ concat (map entity s) @ '' -->'')" by simp
  then show ?case unfolding lexed_def
    by (intro exI [of _ "''!-- '' @ concat (map entity s) @ '' -->''"])
       (use lex_comment in \<open>simp add: append_Cons [abs_def] cong: option.map_cong\<close>)
next
  case (TElement r n as ts)
  have ok: "name_ok n" "list_all (\<lambda>(k, v). name_ok k) as" using TElement.prems(1) by simp_all
  note tag = lex_tag [OF ok] lex_close [OF ok(1)]
  show ?case
  proof (cases "ts = []")
    case True
    then have "render i (TElement r n as ts) = spaces i @ CHR ''<'' # (n @ render_attrs as @ ''/>'')" by simp
    then show ?thesis unfolding lexed_def
      by (intro exI [of _ "n @ render_attrs as @ ''/>''"]) (use True tag in \<open>simp add: append_Cons [abs_def] cong: option.map_cong\<close>)
  next
    case False
    let ?kids = "concat (map (\<lambda>t. (if is_text t then [] else [CHR 10]) @ render (i + 2) t) ts)"
    let ?sep = "if is_text (last ts) then [] else [CHR 10] @ spaces i"
    let ?b = "n @ render_attrs as @ ''>'' @ ?kids @ ?sep @ ''</'' @ n @ ''>''"
    have kids: "lexed (i + 2) t" if "t \<in> set ts" "\<not> is_text t" for t using TElement that by (simp add: list_all_iff)
    have body: "xml_tokens (?kids @ ?sep @ CHR ''<'' # u) = map_option ((@) (children_tokens i False [] ts)) (xml_tokens (CHR ''<'' # u))" for u
      using lex_children [of ts i "[]" False u, OF kids] False by (cases "is_text (last ts)") simp_all
    have "xml_tokens (CHR ''<'' # ?b @ u) = map_option ((@) (tokens_of i (TElement r n as ts))) (xml_tokens u)" for u
      using False body [of "CHR ''/'' # n @ CHR ''>'' # u"] tag(2) [of "?kids @ ?sep @ CHR ''<'' # CHR ''/'' # n @ CHR ''>'' # u"] tag(3) [of u]
      by (cases "xml_tokens u") simp_all
    moreover have "render i (TElement r n as ts) = spaces i @ CHR ''<'' # ?b" using False by simp
    ultimately show ?thesis unfolding lexed_def by blast
  qed
qed simp

lemma read_seen:
  assumes lib: "string_lib_ok lib" and "represents st (Element r) t" "names_ok t" "tree_depth t \<le> fuel"
  shows "\<exists>s. doc_to_string lib fuel st (Doc r) = Some s \<and> read_doc s = Some (seen 0 t)"
proof -
  have "element_to_buf lib fuel st 0 xml_header (st ! r) = Some (xml_header @ render 0 t)"
    using node_to_buf_render [OF lib assms(2,4), of 0 xml_header] by simp
  then have print: "doc_to_string lib fuel st (Doc r) = Some (xml_header @ render 0 t @ [CHR 10])"
    by (simp add: doc_to_string_def doc_to_buf_def)
  have "\<not> is_text t" using assms(2) by (cases t) auto
  then obtain b where b: "render 0 t = CHR ''<'' # b" "\<And>u. xml_tokens (CHR ''<'' # b @ u) = map_option ((@) (tokens_of 0 t)) (xml_tokens u)"
    using lex_render [OF assms(3), of 0] by (auto simp: lexed_def spaces_def)
  have "xml_tokens [CHR 10] = Some []" by (subst xml_tokens.simps) (simp add: is_space_def, subst xml_tokens.simps, simp)
  then have "xml_tokens (render 0 t @ [CHR 10]) = Some (tokens_of 0 t)" using b(2) [of "[CHR 10]"] by (simp add: b(1))
  then have "read_doc (xml_header @ render 0 t @ [CHR 10]) = Some (seen 0 t)"
    using build_tokens(1) [of 0 t "[]" "[]" "[]"] by (simp add: read_doc_def)
  with print show ?thesis by blast
qed

lemma read_printed:
  assumes "string_lib_ok lib" and "represents st (Element r) t" "writable t" "tree_depth t \<le> fuel"
  shows "\<exists>s. doc_to_string lib fuel st (Doc r) = Some s \<and> read_doc s = Some (erase t)"
  using read_seen [OF assms(1,2) writable_names [OF assms(3)] assms(4)] seen_writable [OF assms(3)] by simp

subsection \<open>Properties\<close>

text \<open>C6: every document that is a tree with XML names for its elements and attributes is printed, whatever its depth, and what a reader gets
  from the text is known exactly: its elements and attributes in their order with their values, its texts with every quoted character as it
  was, and its comments, where a text that stands before an element, a comment or the end tag after such a child is read with the line break and indentation that the
  printer adds there, adjacent texts are one, blank texts are not seen, and quoted characters in comments stay quoted (\<open>seen\<close>). When every element has
  either one text that is not blank as its only child or no text, and no comment has a character that is quoted (\<open>writable\<close>), then the
  document itself is read back.\<close>

theorem printed_document_read_back:
  assumes "string_lib_ok lib" and "represents st (Element r) t" and "names_ok t" and "tree_depth t \<le> fuel"
  shows "\<exists>s. doc_to_string lib fuel st (Doc r) = Some s \<and> read_doc s = Some (seen 0 t) \<and> (if writable t then seen 0 t = erase t else True)"
  using read_seen [OF assms] seen_writable [of t 0] by auto

definition demo_lib :: string_lib where
  "demo_lib = \<lparr>str_replace = (\<lambda>s p t. concat (map (\<lambda>x. if [x] = p then t else [x]) s)), str_spaces = (\<lambda>n. replicate n (CHR '' ''))\<rparr>"

lemma demo_lib_ok: "string_lib_ok demo_lib"
  by (simp add: string_lib_ok_def demo_lib_def)

lemma demo_writable: "writable demo_tree"
  unfolding demo_tree_def by code_simp

lemma demo_depth: "tree_depth demo_tree \<le> 2"
  unfolding demo_tree_def by code_simp

theorem printed_document_read_back_witness:
  "\<exists>s. doc_to_string demo_lib 2 demo_dom (Doc 1) = Some s \<and>
     read_doc s = Some (XElement ''a'' [(''k'', ''<v>'')] [XComment '' c '', XElement ''b'' [] [XText ''x & y'']])"
proof -
  have "seen 0 demo_tree = XElement ''a'' [(''k'', ''<v>'')] [XComment '' c '', XElement ''b'' [] [XText ''x & y'']]"
    unfolding demo_tree_def by code_simp
  then show ?thesis
    using printed_document_read_back [OF demo_lib_ok demo_represents writable_names [OF demo_writable] demo_depth] by auto
qed

text \<open>C34: appending a child to an element of a document succeeds, and when the child does not contain the element and all names are XML names,
  it shows in the text that is printed afterwards: what a reader gets (\<open>seen\<close>, as for every document) is the document in which the
  child is the last one at every place where the element occurs, and nothing else has changed.\<close>

theorem append_child_printed:
  assumes "string_lib_ok lib" and "represents st (Element r) t" and "represents st child c" and "q \<notin> tree_refs c"
    and "names_ok t" and "names_ok c" and "tree_depth (add_child_at q c t) \<le> fuel"
  shows "\<exists>st' s. append_child child (Element q) st = Inr st' \<and> doc_to_string lib fuel st' (Doc r) = Some s \<and>
    read_doc s = Some (seen 0 (add_child_at q c t))"
proof -
  obtain st' where st': "append_child child (Element q) st = Inr st'" by (simp add: append_child_def)
  have "represents st' (Element r) (add_child_at q c t)" by (rule append_child_represents [OF st' assms(3,4,2)])
  from read_seen [OF assms(1) this names_add_child [OF assms(5,6)] assms(7)] st' show ?thesis by blast
qed

theorem append_child_printed_witness:
  "\<exists>st' s. append_child (Comment ''d'') (Element 1) demo_dom = Inr st' \<and> doc_to_string demo_lib 2 st' (Doc 1) = Some s \<and>
     read_doc s = Some (XElement ''a'' [(''k'', ''<v>'')] [XComment '' c '', XElement ''b'' [] [XText ''x & y''], XComment '' d ''])"
proof -
  have c: "represents demo_dom (Comment ''d'') (TComment ''d'')" "1 \<notin> tree_refs (TComment ''d'')" "names_ok (TComment ''d'')" by simp_all
  have w: "seen 0 (add_child_at 1 (TComment ''d'') demo_tree) =
      XElement ''a'' [(''k'', ''<v>'')] [XComment '' c '', XElement ''b'' [] [XText ''x & y''], XComment '' d '']"
    unfolding demo_tree_def by code_simp
  have d: "tree_depth (add_child_at 1 (TComment ''d'') demo_tree) \<le> 2" unfolding demo_tree_def by code_simp
  from append_child_printed [OF demo_lib_ok demo_represents c(1,2) writable_names [OF demo_writable] c(3) d] show ?thesis unfolding w .
qed

text \<open>An element that was appended to itself is never printed.\<close>

lemma children_to_buf_stuck:
  "nd \<in> set nds \<Longrightarrow> (\<forall>buf. node_to_buf lib fuel st (indent + 2) buf nd = None) \<Longrightarrow>
   children_to_buf lib fuel st indent buf l nds = None"
  by (induction nds arbitrary: buf l) (auto split: node.splits option.splits)

text \<open>After an element was appended to itself, printing it never returns.\<close>

theorem append_to_itself_not_printed:
  assumes "r < length st" and "append_child (Element r) (Element r) st = Inr st'"
  shows "doc_to_string lib fuel st' (Doc r) = None"
proof -
  have r: "Element r \<in> set (e_children (st' ! r))" using assms by (auto simp: append_child_def)
  have "element_to_buf lib fuel st' indent buf (st' ! r) = None" for indent buf
  proof (induction fuel arbitrary: indent buf)
    case (Suc fuel)
    then have "children_to_buf lib fuel st' indent b False (e_children (st' ! r)) = None" for b
      by (intro children_to_buf_stuck [OF r]) simp
    moreover have "e_children (st' ! r) \<noteq> []" using r by auto
    ultimately show ?case by (simp add: Let_def)
  qed simp
  then show ?thesis by (simp add: doc_to_string_def doc_to_buf_def)
qed

theorem append_to_itself_not_printed_witness:
  "doc_to_string demo_lib 9 (demo_dom[0 := (demo_dom ! 0)\<lparr>e_children := e_children (demo_dom ! 0) @ [Element 0]\<rparr>]) (Doc 0) = None"
  by (rule append_to_itself_not_printed [of 0 demo_dom]) (simp_all add: demo_dom_def append_child_def)


end
