(* ===== verification/LibvirtXml.thy ===== *)
theory LibvirtXml
  imports DomText Utils DomainFromVmx
begin

section \<open>The libvirt XML of the converted guest (output/create\_libvirt\_xml.ml)\<close>

text \<open>
  The description of the guest becomes an XML document. Nested calls of \<open>e\<close> are written as the XML they stand for and
  evaluated by \<open>alloc\<close>, which makes an element for each of them, children first. Making nodes and changing them changes
  the store of elements and may raise, so such a step is a function from a store to an outcome. What is pushed to
  \<open>body\<close> and \<open>devices\<close> is a list for each section. Parameters are the text of the comment, \<open>String.find\<close> and
  \<open>drive_name\<close>, which are in the submodule \<open>common\<close>.
\<close>

subsection \<open>Building nodes\<close>

type_synonym 'a build = "dom \<Rightarrow> ('a \<times> dom) oc"

definition retB :: "'a \<Rightarrow> 'a build" where
  "retB x = (\<lambda>st. Inr (x, st))"

definition bindB :: "'a build \<Rightarrow> ('a \<Rightarrow> 'b build) \<Rightarrow> 'b build" where
  "bindB b f = (\<lambda>st. bindR (b st) (\<lambda>(x, st). f x st))"

fun seqB :: "'a build list \<Rightarrow> 'a list build" where
  "seqB [] = retB []"
| "seqB (b # bs) = bindB b (\<lambda>x. bindB (seqB bs) (\<lambda>xs. retB (x # xs)))"

definition concatB :: "'a list build list \<Rightarrow> 'a list build" where
  "concatB bs = bindB (seqB bs) (\<lambda>xss. retB (concat xss))"

abbreviation el :: "string \<Rightarrow> attr list \<Rightarrow> xml list \<Rightarrow> xml" where
  "el \<equiv> XElement"

abbreviation pcdata :: "string \<Rightarrow> xml" where
  "pcdata \<equiv> XText"

abbreviation comment :: "string \<Rightarrow> xml" where
  "comment \<equiv> XComment"

definition e_nodes :: "string \<Rightarrow> attr list \<Rightarrow> node list \<Rightarrow> node build" where
  "e_nodes name attrs children = (\<lambda>st. Inr (e_new name attrs children st))"

fun alloc :: "xml \<Rightarrow> node build" where
  "alloc (XText s) = retB (PCData s)"
| "alloc (XComment s) = retB (Comment s)"
| "alloc (XElement name attrs xs) = bindB (seqB (map alloc xs)) (e_nodes name attrs)"

definition append_childB :: "node \<Rightarrow> node \<Rightarrow> unit build" where
  "append_childB child nd = (\<lambda>st. bindR (append_child child nd st) (\<lambda>st. Inr ((), st)))"

definition append_attrB :: "attr \<Rightarrow> node \<Rightarrow> unit build" where
  "append_attrB a nd = (\<lambda>st. bindR (append_attr a nd st) (\<lambda>st. Inr ((), st)))"

subsection \<open>The operating system\<close>

record xml_env =
  generated_by :: string
  str_find :: "string \<Rightarrow> string \<Rightarrow> int"
  drive_name :: "nat \<Rightarrow> string"

text \<open>\<open>sprintf "%02d"\<close>\<close>

definition dec02 :: "int \<Rightarrow> string" where
  "dec02 n = (if 0 \<le> n \<and> n < 10 then CHR ''0'' # string_of_int n else string_of_int n)"

definition osinfo_linux :: "xml_env \<Rightarrow> 'app inspect \<Rightarrow> string option" where
  "osinfo_linux env i =
     (let major = i_major_version i; minor = i_minor_version i; distro = i_distro i;
          version = string_of_int major @ ''.'' @ string_of_int minor;
          desktop = 0 \<le> str_find env (i_product_name i) ''Desktop''
      in if distro = ''rhel'' then Some (''http://redhat.com/rhel/'' @ version)
         else if distro = ''centos'' \<and> major < 7 then Some (''http://centos.org/centos/'' @ version)
         else if distro = ''centos'' \<and> major = 7 then Some (''http://centos.org/centos/'' @ string_of_int major @ ''.0'')
         else if distro = ''centos'' \<and> 8 \<le> major then Some (''http://centos.org/centos/'' @ string_of_int major)
         else if distro = ''sles'' \<and> minor = 0 \<and> desktop then Some (''http://suse.com/sled/'' @ string_of_int major)
         else if distro = ''sles'' \<and> desktop then Some (''http://suse.com/sled/'' @ version)
         else if distro = ''sles'' \<and> minor = 0 then Some (''http://suse.com/sles/'' @ string_of_int major)
         else if distro = ''sles'' then Some (''http://suse.com/sles/'' @ version)
         else if distro = ''opensuse'' then Some (''http://opensuse.org/opensuse/'' @ version)
         else if distro = ''debian'' then Some (''http://debian.org/debian/'' @ string_of_int major)
         else if distro = ''ubuntu'' then Some (''http://ubuntu.com/ubuntu/'' @ string_of_int major @ ''.'' @ dec02 minor)
         else if distro = ''fedora'' then Some (''http://fedoraproject.org/fedora/'' @ string_of_int major)
         else None)"

definition osinfo_windows :: "xml_env \<Rightarrow> 'app inspect \<Rightarrow> string option" where
  "osinfo_windows env i =
     (let major = i_major_version i; minor = i_minor_version i; server = i_product_variant i = ''Server'';
          finds = (\<lambda>s. 0 \<le> str_find env (i_product_name i) s); win = (\<lambda>s. Some (''http://microsoft.com/win/'' @ s))
      in if major < 4 then win (string_of_int major @ ''.'' @ string_of_int minor)
         else if major = 5 \<and> minor = 1 then win ''xp''
         else if major = 5 \<and> minor = 2 \<and> finds ''XP'' then win ''xp''
         else if major = 5 \<and> minor = 2 \<and> finds ''R2'' then win ''2k3r2''
         else if major = 5 \<and> minor = 2 then win ''2k3''
         else if major = 6 \<and> minor = 0 \<and> server then win ''2k8''
         else if major = 6 \<and> minor = 0 then win ''vista''
         else if major = 6 \<and> minor = 1 \<and> server then win ''2k8r2''
         else if major = 6 \<and> minor = 1 then win ''7''
         else if major = 6 \<and> minor = 2 \<and> server then win ''2k12''
         else if major = 6 \<and> minor = 2 then win ''8''
         else if major = 6 \<and> minor = 3 \<and> server then win ''2k12r2''
         else if major = 6 \<and> minor = 3 then win ''8.1''
         else if major = 10 \<and> minor = 0 \<and> server \<and> finds ''2019'' then win ''2k19''
         else if major = 10 \<and> minor = 0 \<and> server then win ''2k16''
         else if major = 10 \<and> minor = 0 then win ''10''
         else None)"

definition get_osinfo_id :: "xml_env \<Rightarrow> 'app inspect \<Rightarrow> string option \<times> string list" where
  "get_osinfo_id env i =
     (case if i_type i = ''linux'' then osinfo_linux env i else if i_type i = ''windows'' then osinfo_windows env i else None of
        Some osid \<Rightarrow> (Some osid, [])
      | None \<Rightarrow>
          (None, [''unknown guest operating system: '' @ i_type i @ '' '' @ i_distro i @ '' '' @ string_of_int (i_major_version i) @
             ''.'' @ string_of_int (i_minor_version i) @ '' '' @ i_arch i @ '' ('' @ i_product_name i @ '')'']))"

subsection \<open>The sections before the devices\<close>

definition name_section :: "xml_env \<Rightarrow> string \<Rightarrow> xml list" where
  "name_section env output_name = [comment (generated_by env), el ''name'' [] [pcdata output_name]]"

definition genid_section :: "source \<Rightarrow> xml list" where
  "genid_section source = (case s_genid source of None \<Rightarrow> [] | Some genid \<Rightarrow> [el ''genid'' [] [pcdata genid]])"

definition metadata_section :: "string option \<Rightarrow> xml list" where
  "metadata_section osinfo =
     (case osinfo of
        None \<Rightarrow> []
      | Some osinfo_id \<Rightarrow>
          [el ''metadata'' []
                  [el ''libosinfo:libosinfo'' [(''xmlns:libosinfo'', ''http://libosinfo.org/xmlns/libvirt/domain/1.0'')]
                     [el ''libosinfo:os'' [(''id'', osinfo_id)] []]]])"

text \<open>\<open>Int64.div\<close> rounds towards zero.\<close>

definition int64_div :: "int \<Rightarrow> int \<Rightarrow> int" where
  "int64_div a b = sgn a * sgn b * (\<bar>a\<bar> div \<bar>b\<bar>)"

definition memory_section :: "source \<Rightarrow> xml list" where
  "memory_section source =
     (let memory_k = int64_div (s_memory source) 1024
      in [el ''memory'' [(''unit'', ''KiB'')] [pcdata (string_of_int memory_k)],
               el ''currentMemory'' [(''unit'', ''KiB'')] [pcdata (string_of_int memory_k)],
               el ''vcpu'' [] [pcdata (string_of_int (s_vcpu source))]])"

definition cpu_section :: "source \<Rightarrow> xml list" where
  "cpu_section source =
     (if s_cpu_vendor source \<noteq> None \<or> s_cpu_model source \<noteq> None \<or> s_cpu_topology source \<noteq> None
      then [el ''cpu'' [(''match'', ''minimum'')]
        ((case (s_cpu_vendor source, s_cpu_model source) of
            (None, None) \<Rightarrow> []
          | (Some _, None) \<Rightarrow> []
          | (None, Some model) \<Rightarrow> [el ''model'' [(''fallback'', ''allow'')] [pcdata model]]
          | (Some vendor, Some model) \<Rightarrow>
              [el ''vendor'' [] [pcdata vendor], el ''model'' [(''fallback'', ''allow'')] [pcdata model]]) @
         (case s_cpu_topology source of
            None \<Rightarrow> []
          | Some t \<Rightarrow>
              [el ''topology'' [(''sockets'', string_of_int (s_cpu_sockets t)), (''cores'', string_of_int (s_cpu_cores t)),
                 (''threads'', string_of_int (s_cpu_threads t))] []]))]
      else [])"

definition uefi_of :: "uefi_lists \<Rightarrow> (string \<Rightarrow> bool) \<Rightarrow> target_firmware \<Rightarrow> string \<Rightarrow> uefi_firmware option oc" where
  "uefi_of fw file_exists firmware arch =
     (case firmware of
        TargetBIOS \<Rightarrow> Inr None
      | TargetUEFI \<Rightarrow> bindR (find_uefi_firmware fw file_exists arch) (\<lambda>f. Inr (Some f)))"

definition machine_of :: "guestcaps_machine \<Rightarrow> uefi_firmware option \<Rightarrow> guestcaps_machine \<times> bool" where
  "machine_of machine uefi =
     (case uefi of
        Some f \<Rightarrow> if UEFI_FLAG_SECURE_BOOT_REQUIRED \<in> set (flags f) then (Q35, True) else (machine, False)
      | None \<Rightarrow> (machine, False))"

definition features_of :: "string list \<Rightarrow> string list \<Rightarrow> bool \<Rightarrow> bool \<Rightarrow> string list" where
  "features_of source_features target_features acpi smm =
     (let features = set source_features;
          target_features = set target_features;
          features = (if acpi then features \<union> {''acpi''} else features - {''acpi''});
          features = features \<inter> target_features;
          force_features = {''apic'', ''pae''};
          force_features = force_features \<inter> target_features;
          features = features \<union> force_features;
          features = (if smm then features \<union> {''smm''} else features)
      in sorted_list_of_set features)"

definition features_section :: "string list \<Rightarrow> xml list" where
  "features_section features = [el ''features'' [] (map (\<lambda>s. el s [] []) features)]"

definition os_section :: "string \<Rightarrow> guestcaps_machine \<Rightarrow> uefi_firmware option \<Rightarrow> bool \<Rightarrow> xml list" where
  "os_section arch machine uefi secure_boot_required =
     (let machine = (case machine of I440FX \<Rightarrow> ''pc'' | Q35 \<Rightarrow> ''q35'' | Virt \<Rightarrow> ''virt'');
          loader = (case uefi of
              None \<Rightarrow> []
            | Some f \<Rightarrow>
                let secure = if secure_boot_required then [(''secure'', ''yes'')] else []
                in [el ''loader'' ([(''readonly'', ''yes''), (''type'', ''pflash'')] @ secure) [pcdata (code f)],
                    el ''nvram'' [(''template'', vars f)] []])
      in [el ''os'' [] ([el ''type'' [(''arch'', arch), (''machine'', machine)] [pcdata ''hvm'']] @ loader),
               el ''on_poweroff'' [] [pcdata ''destroy''],
               el ''on_reboot'' [] [pcdata ''restart''],
               el ''on_crash'' [] [pcdata ''restart'']])"

subsection \<open>The devices\<close>

definition virtio_transitional :: "guestcaps \<Rightarrow> bool" where
  "virtio_transitional caps \<longleftrightarrow> gcaps_machine caps = Q35 \<and> \<not> gcaps_virtio_1_0 caps"

definition virtio_model :: "guestcaps \<Rightarrow> string" where
  "virtio_model caps = (if virtio_transitional caps then ''virtio-transitional'' else ''virtio'')"

record disk_env =
  pool :: "string option"
  outdisk_name :: "int \<Rightarrow> string"
  output_format :: string

definition make_disk :: "xml_env \<Rightarrow> disk_env \<Rightarrow> string \<Rightarrow> bool \<Rightarrow> string \<Rightarrow> nat \<Rightarrow> target_bus_slot \<Rightarrow> xml" where
  "make_disk env de bus_name viotrans drive_prefix i slot =
     (case slot of
        BusSlotEmpty \<Rightarrow> comment (bus_name @ '' slot '' @ string_of_int (int i) @ '' is empty'')
      | BusSlotDisk d \<Rightarrow>
          (let outdisk = outdisk_name de (s_disk_id d)
           in el ''disk'' ([(''type'', if pool de = None then ''file'' else ''volume''), (''device'', ''disk'')] @
                  (if viotrans then [(''model'', ''virtio-transitional'')] else []))
                [el ''driver'' [(''name'', ''qemu''), (''type'', output_format de)] [],
                 (case pool de of
                    None \<Rightarrow> el ''source'' [(''file'', outdisk)] []
                  | Some p \<Rightarrow> el ''source'' [(''pool'', p), (''volume'', basename outdisk)] []),
                 el ''target'' [(''dev'', drive_prefix @ drive_name env i), (''bus'', bus_name)] []])
      | BusSlotRemovable r \<Rightarrow>
          (case s_removable_type r of
             CDROM \<Rightarrow>
               el ''disk'' [(''device'', ''cdrom''), (''type'', ''file'')]
                 [el ''driver'' [(''name'', ''qemu''), (''type'', ''raw'')] [],
                  el ''target'' [(''dev'', drive_prefix @ drive_name env i), (''bus'', bus_name)] []]
           | Floppy \<Rightarrow>
               el ''disk'' [(''device'', ''floppy''), (''type'', ''file'')]
                 [el ''driver'' [(''name'', ''qemu''), (''type'', ''raw'')] [],
                  el ''target'' [(''dev'', drive_prefix @ drive_name env i)] []]))"

definition mapi :: "(nat \<Rightarrow> 'a \<Rightarrow> 'b) \<Rightarrow> 'a list \<Rightarrow> 'b list" where
  "mapi f xs = map (\<lambda>(i, x). f i x) (zip [0..<length xs] xs)"

text \<open>The buses as they are written: name, drive prefix and slots.\<close>

definition ide_bus_of :: "guestcaps_machine \<Rightarrow> target_buses \<Rightarrow> (string \<times> string \<times> target_bus_slot list) list" where
  "ide_bus_of machine buses =
     (case machine of
        I440FX \<Rightarrow> [(''ide'', ''hd'', target_ide_bus buses)]
      | Q35 \<Rightarrow> [(''sata'', ''sd'', target_ide_bus buses)]
      | Virt \<Rightarrow> [])"

definition ide_warning :: "guestcaps_machine \<Rightarrow> target_buses \<Rightarrow> string list" where
  "ide_warning machine buses =
     (if machine = Virt \<and> 0 < length (target_ide_bus buses)
      then [''machine type virt does not support IDE and SATA legacy devices, some legacy devices of this guest have been dropped from the libvirt output'']
      else [])"

definition disk_devices :: "xml_env \<Rightarrow> disk_env \<Rightarrow> guestcaps \<Rightarrow> target_buses \<Rightarrow> xml list" where
  "disk_devices env de caps buses =
     mapi (make_disk env de ''virtio'' (virtio_transitional caps) ''vd'') (target_virtio_blk_bus buses) @
     concat (map (\<lambda>(bus_name, drive_prefix, slots). mapi (make_disk env de bus_name False drive_prefix) slots)
       (ide_bus_of (gcaps_machine caps) buses)) @
     mapi (make_disk env de ''scsi'' False ''sd'') (target_scsi_bus buses) @
     mapi (make_disk env de ''floppy'' False ''fd'') (target_floppy_bus buses)"

definition net_model :: "guestcaps \<Rightarrow> string" where
  "net_model caps = (case gcaps_net_bus caps of Virtio_net \<Rightarrow> virtio_model caps | E1000 \<Rightarrow> ''e1000'' | RTL8139 \<Rightarrow> ''rtl8139'')"

definition make_nic :: "guestcaps \<Rightarrow> source_nic \<Rightarrow> node build" where
  "make_nic caps n =
     (let vnet_type_str = (case s_vnet_type n of Bridge \<Rightarrow> ''bridge'' | Network \<Rightarrow> ''network'')
      in bindB (alloc (el ''interface'' [(''type'', vnet_type_str)]
                  [el ''source'' [(vnet_type_str, s_vnet n)] [], el ''model'' [(''type'', net_model caps)] []])) (\<lambda>nic.
         bindB (case s_mac n of
                  None \<Rightarrow> retB ()
                | Some mac \<Rightarrow> bindB (alloc (el ''mac'' [(''address'', mac)] [])) (\<lambda>m. append_childB m nic)) (\<lambda>_.
         retB nic)))"

definition make_video :: "node build" where
  "make_video =
     bindB (alloc (el ''model'' [(''type'', ''vga''), (''vram'', ''16384'')] [])) (\<lambda>video_model.
     bindB (append_attrB (''heads'', ''1'') video_model) (\<lambda>_.
     e_nodes ''video'' [] [video_model]))"

definition graphics_attrs :: "source_display option \<Rightarrow> attr list" where
  "graphics_attrs display =
     (case display of
        None \<Rightarrow> [(''type'', ''vnc''), (''autoport'', ''yes'')]
      | Some d \<Rightarrow>
          (case (s_display_type d, s_port d) of
             (Window, _) \<Rightarrow> [(''type'', ''sdl'')]
           | (VNC, Some p) \<Rightarrow> [(''type'', ''vnc''), (''port'', string_of_int p)]
           | (VNC, None) \<Rightarrow> [(''type'', ''vnc''), (''autoport'', ''yes'')]
           | (Spice, Some p) \<Rightarrow> [(''type'', ''spice''), (''port'', string_of_int p)]
           | (Spice, None) \<Rightarrow> [(''type'', ''spice''), (''autoport'', ''yes'')]))"

definition listen_attrs :: "s_display_listen \<Rightarrow> attr list option" where
  "listen_attrs listen =
     (case listen of
        LNoListen \<Rightarrow> None
      | LAddress a \<Rightarrow> Some [(''type'', ''address''), (''address'', a)]
      | LNetwork n \<Rightarrow> Some [(''type'', ''network''), (''network'', n)]
      | LSocket s \<Rightarrow> Some ([(''type'', ''socket'')] @ (case s of None \<Rightarrow> [] | Some s \<Rightarrow> [(''socket'', s)]))
      | LNone \<Rightarrow> Some [(''type'', ''none'')])"

definition opt_attr :: "string \<Rightarrow> string option \<Rightarrow> node \<Rightarrow> unit build" where
  "opt_attr k v nd = (case v of None \<Rightarrow> retB () | Some v \<Rightarrow> append_attrB (k, v) nd)"

definition make_graphics :: "source_display option \<Rightarrow> node build" where
  "make_graphics display =
     bindB (alloc (el ''graphics'' (graphics_attrs display) [])) (\<lambda>graphics.
     bindB (opt_attr ''keymap'' (Option.bind display s_keymap) graphics) (\<lambda>_.
     bindB (opt_attr ''passwd'' (Option.bind display s_password) graphics) (\<lambda>_.
     bindB (case Option.bind display (\<lambda>d. listen_attrs (s_listen d)) of
              None \<Rightarrow> retB ()
            | Some attrs \<Rightarrow> bindB (alloc (el ''listen'' attrs [])) (\<lambda>sub. append_childB sub graphics)) (\<lambda>_.
     retB graphics))))"

definition sound_section :: "source \<Rightarrow> xml list" where
  "sound_section source =
     (case s_sound source of
        None \<Rightarrow> []
      | Some s \<Rightarrow>
          if qemu_supports_sound_card (s_sound_model s)
          then [el ''sound'' [(''model'', string_of_source_sound_model (s_sound_model s))] []] else [])"

definition misc_section :: "guestcaps \<Rightarrow> xml list" where
  "misc_section caps =
     concat [
       (if gcaps_virtio_rng caps
        then [el ''rng'' [(''model'', virtio_model caps)] [el ''backend'' [(''model'', ''random'')] [pcdata ''/dev/urandom'']]]
        else []),
       [el ''memballoon'' [(''model'', if gcaps_virtio_balloon caps then virtio_model caps else ''none'')] []],
       (if gcaps_isa_pvpanic caps
        then [el ''panic'' [(''model'', ''isa'')] [el ''address'' [(''type'', ''isa''), (''iobase'', ''0x505'')] []]]
        else []),
       (if gcaps_virtio_socket caps then [el ''vsock'' [(''model'', virtio_model caps)] []] else []),
       [el ''input'' [(''type'', ''tablet''), (''bus'', ''usb'')] [],
             el ''input'' [(''type'', ''mouse''), (''bus'', ''ps2'')] [],
             el ''console'' [(''type'', ''pty'')] []]]"

definition devices_section :: "xml_env \<Rightarrow> disk_env \<Rightarrow> source \<Rightarrow> target_meta \<Rightarrow> node list build" where
  "devices_section env de source meta =
     bindB (concatB [seqB (map alloc (disk_devices env de (tm_guestcaps meta) (tm_target_buses meta))),
              seqB (map (make_nic (tm_guestcaps meta)) (tm_target_nics meta)),
              seqB [make_video, make_graphics (s_display source)],
              seqB (map alloc (sound_section source @ misc_section (tm_guestcaps meta)))]) (\<lambda>devices.
     seqB [e_nodes ''devices'' [] devices])"

subsection \<open>The document\<close>

definition create_libvirt_xml ::
  "xml_env \<Rightarrow> uefi_lists \<Rightarrow> (string \<Rightarrow> bool) \<Rightarrow> disk_env \<Rightarrow> source \<Rightarrow> 'app inspect \<Rightarrow> target_meta \<Rightarrow> string list \<Rightarrow> string \<Rightarrow>
     (doc \<times> string list) build" where
  "create_libvirt_xml env fw file_exists de source inspect meta target_features output_name =
     (let caps = tm_guestcaps meta; (osinfo, warnings) = get_osinfo_id env inspect
      in bindB (\<lambda>st. bindR (uefi_of fw file_exists (tm_target_firmware meta) (gcaps_arch caps)) (\<lambda>u. Inr (u, st))) (\<lambda>uefi.
         let (machine, secure_boot_required) = machine_of (gcaps_machine caps) uefi;
             features = features_of (s_features source) target_features (gcaps_acpi caps) secure_boot_required
         in bindB (concatB [seqB (map alloc (name_section env output_name @ genid_section source @ metadata_section osinfo @
                       memory_section source @ cpu_section source @ features_section features @
                       os_section (gcaps_arch caps) machine uefi secure_boot_required)),
                     devices_section env de source meta]) (\<lambda>body st.
            let (d, st) = doc_new ''domain'' [(''type'', ''kvm'')] body st
            in Inr ((d, warnings @ ide_warning (gcaps_machine caps) (tm_target_buses meta)), st))))"

end
