(* ===== verification/LibvirtXmlDoc.thy ===== *)
theory LibvirtXmlDoc
  imports LibvirtXml
begin

section \<open>What the libvirt XML says\<close>

text \<open>
  A step that builds a node never raises, leaves the elements that exist as they are, and the node stands for a
  certain piece of XML: the predicate \<open>builds\<close>, with a rule for each way to put steps together. So the document that
  \<open>create_libvirt_xml\<close> makes stands for the XML of its sections, also where nodes are changed after they are made, and
  by the theorem on printing it is read back as such.
\<close>

subsection \<open>The content of nodes\<close>

fun content :: "tree \<Rightarrow> xml" where
  "content (TText s) = XText s"
| "content (TComment s) = XComment s"
| "content (TElement r n as ts) = XElement n as (map content ts)"

fun as_read :: "xml \<Rightarrow> xml" where
  "as_read (XText s) = XText s"
| "as_read (XComment s) = XComment ('' '' @ s @ '' '')"
| "as_read (XElement n as xs) = XElement n as (map as_read xs)"

fun is_xtext :: "xml \<Rightarrow> bool" where
  "is_xtext (XText s) = True"
| "is_xtext _ = False"

fun xml_ok :: "xml \<Rightarrow> bool" where
  "xml_ok (XText s) = (\<not> list_all is_space s)"
| "xml_ok (XComment s) = list_all (\<lambda>c. c \<noteq> CHR ''&'' \<and> c \<noteq> CHR ''<'' \<and> c \<noteq> CHR ''>'') s"
| "xml_ok (XElement n as xs) =
     (name_ok n \<and> list_all (\<lambda>(k, v). name_ok k) as \<and> list_all xml_ok xs \<and> (length xs = 1 \<or> list_all (\<lambda>x. \<not> is_xtext x) xs))"

fun xml_depth :: "xml \<Rightarrow> nat" where
  "xml_depth (XText s) = 0"
| "xml_depth (XComment s) = 0"
| "xml_depth (XElement n as xs) = Suc (Max (set (0 # map xml_depth xs)))"

lemma erase_content: "erase t = as_read (content t)"
  by (induction t) auto

lemma is_text_content: "is_text t = is_xtext (content t)"
  by (cases t) auto

lemma writable_content: "writable t = xml_ok (content t)"
  by (induction t) (auto simp: list_all_iff is_text_content)

lemma depth_content: "tree_depth t = xml_depth (content t)"
proof (induction t)
  case (TElement r n as ts)
  then have "map tree_depth ts = map (xml_depth \<circ> content) ts" by simp
  then show ?case by (simp del: list.map_comp Max_insert)
qed simp_all

text \<open>A tree does not contain its own root again.\<close>

lemma represents_occurrence:
  "represents st nd t \<Longrightarrow> r \<in> tree_refs t \<Longrightarrow> \<exists>u. represents st (Element r) u \<and> size u \<le> size t"
proof (induction t arbitrary: nd)
  case (TElement q n as ts)
  show ?case
  proof (cases "r = q")
    case True
    with TElement.prems(1) show ?thesis by (intro exI [of _ "TElement q n as ts"]) auto
  next
    case False
    with TElement.prems(2) obtain t where t: "t \<in> set ts" "r \<in> tree_refs t" by auto
    from TElement.prems(1) t(1) obtain nd' where "represents st nd' t"
      by (auto simp: list_all2_conv_all_nth in_set_conv_nth)
    from TElement.IH [OF t(1) this t(2)] obtain u where u: "represents st (Element r) u" "size u \<le> size t" by blast
    have "size t \<le> size (TElement q n as ts)" using t(1) size_list_estimation' [of t ts "size t" size] by simp
    with u show ?thesis by (meson le_trans)
  qed
qed auto

lemma represents_root_once:
  assumes "represents st nd (TElement r n as ts)" and "t \<in> set ts"
  shows "r \<notin> tree_refs t"
proof
  assume r: "r \<in> tree_refs t"
  from assms obtain nd' where "represents st nd' t" by (auto simp: list_all2_conv_all_nth in_set_conv_nth)
  from represents_occurrence [OF this r] obtain u where u: "represents st (Element r) u" "size u \<le> size t" by blast
  have "u = TElement r n as ts" using represents_unique [OF u(1)] assms(1) by simp
  moreover have "size t < size (TElement r n as ts)" using assms(2) size_list_estimation' [of t ts "size t" size] by simp
  ultimately show False using u(2) by simp
qed

lemma add_child_at_other: "r \<notin> tree_refs t \<Longrightarrow> add_child_at r c t = t"
  by (induction t) (auto intro: map_idI)

lemma add_attr_at_other: "r \<notin> tree_refs t \<Longrightarrow> add_attr_at r a t = t"
  by (induction t) (auto intro: map_idI)

lemma represents_refs: "represents st nd t \<Longrightarrow> tree_refs t \<subseteq> {..<length st}"
proof (induction t arbitrary: nd)
  case (TElement r n as ts)
  then show ?case by (fastforce simp: list_all2_conv_all_nth in_set_conv_nth)
qed auto

subsection \<open>Steps that build\<close>

text \<open>A node that stands for a piece of XML and is made of elements from a certain point of the store on.\<close>

definition denotes :: "dom \<Rightarrow> nat \<Rightarrow> node \<Rightarrow> xml \<Rightarrow> bool" where
  "denotes st lo nd x \<longleftrightarrow> (\<exists>t. represents st nd t \<and> content t = x \<and> tree_refs t \<subseteq> {lo..})"

definition grows :: "nat \<Rightarrow> dom \<Rightarrow> dom \<Rightarrow> bool" where
  "grows lo st st' \<longleftrightarrow> length st \<le> length st' \<and> take lo st' = take lo st"

definition builds :: "node build \<Rightarrow> xml \<Rightarrow> bool" where
  "builds b x \<longleftrightarrow> (\<forall>st. \<exists>nd st'. b st = Inr (nd, st') \<and> grows (length st) st st' \<and> denotes st' (length st) nd x)"

definition builds_list :: "node list build \<Rightarrow> xml list \<Rightarrow> bool" where
  "builds_list b xs \<longleftrightarrow>
     (\<forall>st. \<exists>nds st'. b st = Inr (nds, st') \<and> grows (length st) st st' \<and> list_all2 (denotes st' (length st)) nds xs)"

text \<open>A continuation that turns a node for \<open>x\<close> into one for \<open>y\<close>, and an action that changes the node itself.\<close>

definition builds_from :: "(node \<Rightarrow> node build) \<Rightarrow> xml \<Rightarrow> xml \<Rightarrow> bool" where
  "builds_from k x y \<longleftrightarrow>
     (\<forall>st lo nd. denotes st lo nd x \<and> lo \<le> length st \<longrightarrow>
        (\<exists>nd' st'. k nd st = Inr (nd', st') \<and> grows lo st st' \<and> denotes st' lo nd' y))"

definition changes :: "(node \<Rightarrow> unit build) \<Rightarrow> xml \<Rightarrow> xml \<Rightarrow> bool" where
  "changes a x y \<longleftrightarrow>
     (\<forall>st lo nd. denotes st lo nd x \<and> lo \<le> length st \<longrightarrow>
        (\<exists>st'. a nd st = Inr ((), st') \<and> grows lo st st' \<and> denotes st' lo nd y))"

lemma grows_refl [simp]: "grows lo st st"
  by (simp add: grows_def)

lemma grows_trans: "grows lo st st' \<Longrightarrow> grows lo' st' st'' \<Longrightarrow> lo \<le> lo' \<Longrightarrow> grows lo st st''"
  unfolding grows_def by (metis le_trans min.absorb1 take_take)

lemma grows_prefix: "grows (length st) st st' \<Longrightarrow> \<exists>new. st' = st @ new"
  unfolding grows_def by (metis append_take_drop_id take_all_iff order_refl)

lemma denotes_grows:
  assumes "denotes st lo nd x" and "grows (length st) st st'" and "lo' \<le> lo"
  shows "denotes st' lo' nd x"
proof -
  from assms(1) obtain t where t: "represents st nd t" "content t = x" "tree_refs t \<subseteq> {lo..}" by (auto simp: denotes_def)
  obtain new where new: "st' = st @ new" using grows_prefix [OF assms(2)] by blast
  have "represents st' nd t" using represents_refs [OF t(1)] by (intro represents_keeps [OF t(1)]) (auto simp: new nth_append)
  with t assms(3) show ?thesis by (fastforce simp: denotes_def)
qed

lemma denotes_list_grows:
  "list_all2 (denotes st lo) nds xs \<Longrightarrow> grows (length st) st st' \<Longrightarrow> lo' \<le> lo \<Longrightarrow> list_all2 (denotes st' lo') nds xs"
  by (erule list_all2_mono) (rule denotes_grows)

lemma builds_seq: "list_all2 builds bs xs \<Longrightarrow> builds_list (seqB bs) xs"
proof (induction rule: list_all2_induct)
  case Nil
  show ?case by (simp add: builds_list_def retB_def)
next
  case (Cons b bs x xs)
  show ?case unfolding builds_list_def
  proof
    fix st
    obtain nd st1 where 1: "b st = Inr (nd, st1)" "grows (length st) st st1" "denotes st1 (length st) nd x"
      using Cons.hyps(1) unfolding builds_def by blast
    obtain nds st2 where 2: "seqB bs st1 = Inr (nds, st2)" "grows (length st1) st1 st2" "list_all2 (denotes st2 (length st1)) nds xs"
      using Cons.IH unfolding builds_list_def by blast
    have len: "length st \<le> length st1" using 1(2) by (simp add: grows_def)
    have "denotes st2 (length st) nd x" using denotes_grows [OF 1(3) 2(2)] by simp
    moreover have "list_all2 (denotes st2 (length st)) nds xs" using 2(3) len
      by (elim list_all2_mono) (auto simp: denotes_def intro: order_trans)
    moreover have "grows (length st) st st2" using grows_trans [OF 1(2) 2(2) len] .
    ultimately show "\<exists>nds' st'. seqB (b # bs) st = Inr (nds', st') \<and> grows (length st) st st' \<and> list_all2 (denotes st' (length st)) nds' (x # xs)"
      using 1(1) 2(1) by (simp add: bindB_def retB_def)
  qed
qed

lemma builds_concat: "list_all2 builds_list bs xss \<Longrightarrow> builds_list (concatB bs) (concat xss)"
proof -
  assume "list_all2 builds_list bs xss"
  then have "\<exists>ndss st'. seqB bs st = Inr (ndss, st') \<and> grows (length st) st st' \<and>
      list_all2 (denotes st' (length st)) (concat ndss) (concat xss)" for st
  proof (induction arbitrary: st rule: list_all2_induct)
    case Nil
    show ?case by (simp add: retB_def)
  next
    case (Cons b bs xs xss)
    obtain nds st1 where 1: "b st = Inr (nds, st1)" "grows (length st) st st1" "list_all2 (denotes st1 (length st)) nds xs"
      using Cons.hyps(1) unfolding builds_list_def by blast
    obtain ndss st2 where 2: "seqB bs st1 = Inr (ndss, st2)" "grows (length st1) st1 st2"
      "list_all2 (denotes st2 (length st1)) (concat ndss) (concat xss)" using Cons.IH by blast
    have len: "length st \<le> length st1" using 1(2) by (simp add: grows_def)
    have "list_all2 (denotes st2 (length st)) nds xs" using denotes_list_grows [OF 1(3) 2(2)] by simp
    moreover have "list_all2 (denotes st2 (length st)) (concat ndss) (concat xss)" using 2(3) len
      by (elim list_all2_mono) (auto simp: denotes_def intro: order_trans)
    moreover have "grows (length st) st st2" using grows_trans [OF 1(2) 2(2) len] .
    ultimately show ?case using 1(1) 2(1) by (simp add: bindB_def retB_def list_all2_appendI)
  qed
  then show ?thesis unfolding builds_list_def concatB_def bindB_def retB_def by (metis (mono_tags, lifting) bindR_Inr case_prod_conv)
qed

lemma new_element_denotes:
  assumes "list_all2 (denotes st lo) nds xs" and "lo \<le> length st"
  shows "\<exists>nd st'. e_new n as nds st = (nd, st') \<and> nd = Element (length st) \<and> grows (length st) st st' \<and> denotes st' lo nd (XElement n as xs)"
proof -
  obtain nd st' where e: "e_new n as nds st = (nd, st')" by (cases "e_new n as nds st")
  from assms(1) obtain ts where ts: "list_all2 (\<lambda>nd t. represents st nd t \<and> tree_refs t \<subseteq> {lo..}) nds ts" "map content ts = xs"
  proof (induction arbitrary: thesis rule: list_all2_induct)
    case (Cons nd nds x xs)
    from Cons.hyps(1) obtain t where "represents st nd t" "content t = x" "tree_refs t \<subseteq> {lo..}" by (auto simp: denotes_def)
    moreover obtain ts where "list_all2 (\<lambda>nd t. represents st nd t \<and> tree_refs t \<subseteq> {lo..}) nds ts" "map content ts = xs"
      using Cons.IH by blast
    ultimately show ?case using Cons.prems [of "t # ts"] by simp
  qed simp
  have "list_all2 (represents st) nds ts" using ts(1) by (rule list_all2_mono) simp
  from e_new_represents [OF this e] have "represents st' nd (TElement (length st) n as ts)" by simp
  moreover have "tree_refs (TElement (length st) n as ts) \<subseteq> {lo..}"
    using ts(1) assms(2) by (fastforce simp: list_all2_conv_all_nth in_set_conv_nth)
  ultimately have "denotes st' lo nd (XElement n as xs)" using ts(2) unfolding denotes_def by (metis content.simps(3))
  with e show ?thesis by (auto simp: e_new_def grows_def)
qed

lemma builds_alloc: "builds (alloc x) x"
proof (induction x)
  case (XElement n as xs)
  then have "list_all2 builds (map alloc xs) xs" by (simp add: list_all2_map1 list_all2_same)
  from builds_seq [OF this] have kids: "builds_list (seqB (map alloc xs)) xs" .
  show ?case unfolding builds_def
  proof
    fix st
    obtain nds st1 where 1: "seqB (map alloc xs) st = Inr (nds, st1)" "grows (length st) st st1" "list_all2 (denotes st1 (length st)) nds xs"
      using kids unfolding builds_list_def by blast
    have len: "length st \<le> length st1" using 1(2) by (simp add: grows_def)
    from new_element_denotes [OF 1(3) len, of n as] obtain nd st2 where
      2: "e_new n as nds st1 = (nd, st2)" "grows (length st1) st1 st2" "denotes st2 (length st) nd (XElement n as xs)" by blast
    with 1(1) grows_trans [OF 1(2) 2(2) len]
    show "\<exists>nd st'. alloc (XElement n as xs) st = Inr (nd, st') \<and> grows (length st) st st' \<and> denotes st' (length st) nd (XElement n as xs)"
      by (simp add: bindB_def e_nodes_def)
  qed
qed (auto simp: builds_def denotes_def retB_def intro: exI [of _ "TText _"] exI [of _ "TComment _"])

lemma builds_allocs: "builds_list (seqB (map alloc xs)) xs"
  by (intro builds_seq) (simp add: list_all2_map1 list_all2_same builds_alloc)

lemma builds_bind: "builds b x \<Longrightarrow> builds_from k x y \<Longrightarrow> builds (bindB b k) y"
proof -
  assume b: "builds b x" and k: "builds_from k x y"
  show ?thesis unfolding builds_def
  proof
    fix st
    obtain nd st1 where 1: "b st = Inr (nd, st1)" "grows (length st) st st1" "denotes st1 (length st) nd x"
      using b unfolding builds_def by blast
    have "length st \<le> length st1" using 1(2) by (simp add: grows_def)
    with 1(3) k obtain nd' st2 where 2: "k nd st1 = Inr (nd', st2)" "grows (length st) st1 st2" "denotes st2 (length st) nd' y"
      unfolding builds_from_def by blast
    with 1(1) grows_trans [OF 1(2) 2(2)]
    show "\<exists>nd st'. bindB b k st = Inr (nd, st') \<and> grows (length st) st st' \<and> denotes st' (length st) nd y" by (simp add: bindB_def)
  qed
qed

lemma from_ret: "builds_from retB x x"
  by (auto simp: builds_from_def retB_def)

lemma from_change: "changes a x y \<Longrightarrow> builds_from k y z \<Longrightarrow> builds_from (\<lambda>nd. bindB (a nd) (\<lambda>_. k nd)) x z"
proof -
  assume a: "changes a x y" and k: "builds_from k y z"
  show ?thesis unfolding builds_from_def
  proof (intro allI impI)
    fix st lo nd
    assume 0: "denotes st lo nd x \<and> lo \<le> length st"
    with a obtain st1 where 1: "a nd st = Inr ((), st1)" "grows lo st st1" "denotes st1 lo nd y" unfolding changes_def by blast
    have "lo \<le> length st1" using 0 1(2) by (simp add: grows_def)
    with 1(3) k obtain nd' st2 where 2: "k nd st1 = Inr (nd', st2)" "grows lo st1 st2" "denotes st2 lo nd' z"
      unfolding builds_from_def by blast
    with 1(1) grows_trans [OF 1(2) 2(2)]
    show "\<exists>nd' st'. bindB (a nd) (\<lambda>_. k nd) st = Inr (nd', st') \<and> grows lo st st' \<and> denotes st' lo nd' z" by (simp add: bindB_def)
  qed
qed

lemma from_wrap: "builds_from (\<lambda>nd. e_nodes n as [nd]) x (XElement n as [x])"
proof -
  have "\<exists>nd' st'. e_nodes n as [nd] st = Inr (nd', st') \<and> grows lo st st' \<and> denotes st' lo nd' (XElement n as [x])"
    if "denotes st lo nd x" "lo \<le> length st" for st lo nd
  proof -
    from that(1) have "list_all2 (denotes st lo) [nd] [x]" by simp
    from new_element_denotes [OF this that(2), of n as] grows_trans [of lo st st "length st"] that(2) show ?thesis
      by (auto simp: e_nodes_def)
  qed
  then show ?thesis by (auto simp: builds_from_def)
qed

lemma changes_nothing: "changes (\<lambda>nd. retB ()) x x"
  by (auto simp: changes_def retB_def)

lemma denotes_element:
  assumes "denotes st lo nd (XElement n as xs)"
  obtains r ts where "nd = Element r" "represents st (Element r) (TElement r n as ts)" "map content ts = xs"
    "tree_refs (TElement r n as ts) \<subseteq> {lo..}" "r < length st" "lo \<le> r" "\<forall>t \<in> set ts. r \<notin> tree_refs t"
proof -
  from assms obtain t where t: "represents st nd t" "content t = XElement n as xs" "tree_refs t \<subseteq> {lo..}" by (auto simp: denotes_def)
  then obtain r ts where ts: "t = TElement r n as ts" "map content ts = xs" by (cases t) auto
  with t have "nd = Element r" "r < length st" "lo \<le> r" by auto
  moreover have "\<forall>u \<in> set ts. r \<notin> tree_refs u" using represents_root_once t(1) ts(1) by blast
  ultimately show ?thesis using that [of r ts] t ts by blast
qed

lemma changes_attr: "changes (append_attrB a) (XElement n as xs) (XElement n (as @ [a]) xs)"
proof -
  have "\<exists>st'. append_attrB a nd st = Inr ((), st') \<and> grows lo st st' \<and> denotes st' lo nd (XElement n (as @ [a]) xs)"
    if d: "denotes st lo nd (XElement n as xs)" for st lo nd
  proof -
    from d obtain r ts where r: "nd = Element r" "represents st (Element r) (TElement r n as ts)" "map content ts = xs"
      "tree_refs (TElement r n as ts) \<subseteq> {lo..}" "r < length st" "lo \<le> r" "\<forall>t \<in> set ts. r \<notin> tree_refs t"
      by (rule denotes_element)
    obtain st' where st': "append_attr a (Element r) st = Inr st'" by (simp add: append_attr_def)
    have "map (add_attr_at r a) ts = ts" using r(7) by (intro map_idI) (simp add: add_attr_at_other)
    with append_attr_represents [OF st' r(2)] have "represents st' (Element r) (TElement r n (as @ [a]) ts)" by simp
    moreover have "tree_refs (TElement r n (as @ [a]) ts) \<subseteq> {lo..}" using r(4) by simp
    ultimately have "denotes st' lo nd (XElement n (as @ [a]) xs)" unfolding denotes_def using r(1,3) by (metis content.simps(3))
    moreover have "grows lo st st'" using st' r(6) by (auto simp: append_attr_def grows_def)
    ultimately show ?thesis using st' r(1) by (simp add: append_attrB_def)
  qed
  then show ?thesis by (auto simp: changes_def)
qed

lemma changes_child: "changes (\<lambda>nd. bindB (alloc y) (\<lambda>m. append_childB m nd)) (XElement n as xs) (XElement n as (xs @ [y]))"
proof -
  have "\<exists>st'. bindB (alloc y) (\<lambda>m. append_childB m nd) st = Inr ((), st') \<and> grows lo st st' \<and> denotes st' lo nd (XElement n as (xs @ [y]))"
    if d: "denotes st lo nd (XElement n as xs)" for st lo nd
  proof -
    obtain m st1 where 1: "alloc y st = Inr (m, st1)" "grows (length st) st st1" "denotes st1 (length st) m y"
      using builds_alloc [of y] unfolding builds_def by blast
    from d have "denotes st1 lo nd (XElement n as xs)" using 1(2) by (rule denotes_grows) simp
    then obtain r ts where r: "nd = Element r" "represents st1 (Element r) (TElement r n as ts)" "map content ts = xs"
      "tree_refs (TElement r n as ts) \<subseteq> {lo..}" "r < length st1" "lo \<le> r" "\<forall>t \<in> set ts. r \<notin> tree_refs t"
      by (rule denotes_element)
    from d r(1) have "r < length st" by (elim denotes_element) auto
    from 1(3) obtain c where c: "represents st1 m c" "content c = y" "tree_refs c \<subseteq> {length st..}" by (auto simp: denotes_def)
    have "r \<notin> tree_refs c" "lo \<le> length st" using c(3) \<open>r < length st\<close> r(6) by auto
    obtain st2 where st2: "append_child m (Element r) st1 = Inr st2" by (simp add: append_child_def)
    have "map (add_child_at r c) ts = ts" using r(7) by (intro map_idI) (simp add: add_child_at_other)
    with append_child_represents [OF st2 c(1) \<open>r \<notin> tree_refs c\<close> r(2)]
    have "represents st2 (Element r) (TElement r n as (ts @ [c]))" by simp
    moreover have "tree_refs (TElement r n as (ts @ [c])) \<subseteq> {lo..}" using r(4) c(3) \<open>lo \<le> length st\<close> by auto
    ultimately have "denotes st2 lo nd (XElement n as (xs @ [y]))" unfolding denotes_def using r(1,3) c(2)
      by (intro exI [of _ "TElement r n as (ts @ [c])"]) auto
    moreover have "grows lo st1 st2" using st2 r(6) by (auto simp: append_child_def grows_def)
    moreover have "grows lo st st1" using 1(2) \<open>lo \<le> length st\<close> grows_trans [of lo st st "length st"] by simp
    ultimately show ?thesis using 1(1) st2 r(1) grows_trans [of lo st st1 lo] by (auto simp: bindB_def append_childB_def)
  qed
  then show ?thesis by (auto simp: changes_def)
qed

subsection \<open>The devices that are changed after they are made\<close>

definition vnet_str :: "source_nic \<Rightarrow> string" where
  "vnet_str n = (case s_vnet_type n of Bridge \<Rightarrow> ''bridge'' | Network \<Rightarrow> ''network'')"

definition nic_xml :: "guestcaps \<Rightarrow> source_nic \<Rightarrow> xml" where
  "nic_xml caps n =
     XElement ''interface'' [(''type'', vnet_str n)]
       ([XElement ''source'' [(vnet_str n, s_vnet n)] [], XElement ''model'' [(''type'', net_model caps)] []] @
        (case s_mac n of None \<Rightarrow> [] | Some mac \<Rightarrow> [XElement ''mac'' [(''address'', mac)] []]))"

definition video_xml :: xml where
  "video_xml = XElement ''video'' [] [XElement ''model'' [(''type'', ''vga''), (''vram'', ''16384''), (''heads'', ''1'')] []]"

definition graphics_xml :: "source_display option \<Rightarrow> xml" where
  "graphics_xml display =
     XElement ''graphics''
       (graphics_attrs display @
        (case Option.bind display s_keymap of None \<Rightarrow> [] | Some km \<Rightarrow> [(''keymap'', km)]) @
        (case Option.bind display s_password of None \<Rightarrow> [] | Some pw \<Rightarrow> [(''passwd'', pw)]))
       (case Option.bind display (\<lambda>d. listen_attrs (s_listen d)) of None \<Rightarrow> [] | Some as \<Rightarrow> [XElement ''listen'' as []])"

lemma builds_nic: "builds (make_nic caps n) (nic_xml caps n)"
proof -
  let ?x = "XElement ''interface'' [(''type'', vnet_str n)]"
  let ?kids = "[XElement ''source'' [(vnet_str n, s_vnet n)] [], XElement ''model'' [(''type'', net_model caps)] []]"
  have "changes (\<lambda>nic. case s_mac n of None \<Rightarrow> retB () | Some mac \<Rightarrow> bindB (alloc (XElement ''mac'' [(''address'', mac)] [])) (\<lambda>m. append_childB m nic))
      (?x ?kids) (?x (?kids @ (case s_mac n of None \<Rightarrow> [] | Some mac \<Rightarrow> [XElement ''mac'' [(''address'', mac)] []])))"
    using changes_nothing changes_child by (cases "s_mac n") (simp_all only: option.case append_Nil2)
  from builds_bind [OF builds_alloc from_change [OF this from_ret]] show ?thesis
    by (simp only: make_nic_def nic_xml_def vnet_str_def Let_def)
qed

lemma builds_video: "builds make_video video_xml"
proof -
  have "builds make_video (XElement ''video'' [] [XElement ''model'' ([(''type'', ''vga''), (''vram'', ''16384'')] @ [(''heads'', ''1'')]) []])"
    unfolding make_video_def by (rule builds_bind [OF builds_alloc from_change [OF changes_attr from_wrap]])
  then show ?thesis by (simp add: video_xml_def)
qed

lemma changes_opt_attr:
  "changes (opt_attr k v) (XElement n as xs) (XElement n (as @ (case v of None \<Rightarrow> [] | Some v \<Rightarrow> [(k, v)])) xs)"
  using changes_nothing changes_attr by (cases v) (simp_all add: opt_attr_def [abs_def])

lemma builds_graphics: "builds (make_graphics display) (graphics_xml display)"
proof -
  have listen: "changes (\<lambda>g. case Option.bind display (\<lambda>d. listen_attrs (s_listen d)) of
        None \<Rightarrow> retB () | Some attrs \<Rightarrow> bindB (alloc (XElement ''listen'' attrs [])) (\<lambda>sub. append_childB sub g))
      (XElement n as []) (XElement n as (case Option.bind display (\<lambda>d. listen_attrs (s_listen d)) of None \<Rightarrow> [] | Some as \<Rightarrow> [XElement ''listen'' as []]))" for n as
    using changes_nothing changes_child [of _ n as "[]"] by (cases "Option.bind display (\<lambda>d. listen_attrs (s_listen d))") (simp_all only: option.case append_Nil)
  from builds_bind [OF builds_alloc from_change [OF changes_opt_attr from_change [OF changes_opt_attr from_change [OF listen from_ret]]]]
  show ?thesis by (simp only: make_graphics_def graphics_xml_def append_assoc)
qed


subsection \<open>The document\<close>

definition devices_xml :: "xml_env \<Rightarrow> disk_env \<Rightarrow> source \<Rightarrow> target_meta \<Rightarrow> xml" where
  "devices_xml env de source meta =
     XElement ''devices'' []
       (disk_devices env de (tm_guestcaps meta) (tm_target_buses meta) @ map (nic_xml (tm_guestcaps meta)) (tm_target_nics meta) @
        [video_xml, graphics_xml (s_display source)] @ sound_section source @ misc_section (tm_guestcaps meta))"

definition domain_xml ::
  "xml_env \<Rightarrow> disk_env \<Rightarrow> source \<Rightarrow> 'app inspect \<Rightarrow> target_meta \<Rightarrow> string list \<Rightarrow> string \<Rightarrow> uefi_firmware option \<Rightarrow> xml" where
  "domain_xml env de source inspect meta target_features output_name uefi =
     (let caps = tm_guestcaps meta; (machine, secure) = machine_of (gcaps_machine caps) uefi
      in XElement ''domain'' [(''type'', ''kvm'')]
           (name_section env output_name @ genid_section source @ metadata_section (fst (get_osinfo_id env inspect)) @
            memory_section source @ cpu_section source @
            features_section (features_of (s_features source) target_features (gcaps_acpi caps) secure) @
            os_section (gcaps_arch caps) machine uefi secure @ [devices_xml env de source meta]))"

lemma builds_list_wrap:
  assumes "builds_list b xs"
  shows "builds_list (bindB b (\<lambda>nds. seqB [e_nodes n as nds])) [XElement n as xs]"
  unfolding builds_list_def
proof
  fix st
  obtain nds st1 where 1: "b st = Inr (nds, st1)" "grows (length st) st st1" "list_all2 (denotes st1 (length st)) nds xs"
    using assms unfolding builds_list_def by blast
  have len: "length st \<le> length st1" using 1(2) by (simp add: grows_def)
  from new_element_denotes [OF 1(3) len, of n as] obtain nd st2 where
    2: "e_new n as nds st1 = (nd, st2)" "grows (length st1) st1 st2" "denotes st2 (length st) nd (XElement n as xs)" by blast
  with 1(1) grows_trans [OF 1(2) 2(2) len]
  show "\<exists>nds' st'. bindB b (\<lambda>nds. seqB [e_nodes n as nds]) st = Inr (nds', st') \<and> grows (length st) st st' \<and>
      list_all2 (denotes st' (length st)) nds' [XElement n as xs]"
    by (simp add: bindB_def e_nodes_def retB_def)
qed

lemma builds_devices: "builds_list (devices_section env de source meta) [devices_xml env de source meta]"
proof -
  let ?caps = "tm_guestcaps meta"
  have "builds_list (seqB (map (make_nic ?caps) (tm_target_nics meta))) (map (nic_xml ?caps) (tm_target_nics meta))"
    by (intro builds_seq) (simp add: list_all2_map1 list_all2_map2 list_all2_same builds_nic)
  moreover have "builds_list (seqB [make_video, make_graphics (s_display source)]) [video_xml, graphics_xml (s_display source)]"
    by (intro builds_seq) (simp add: builds_video builds_graphics)
  ultimately have "list_all2 builds_list
      [seqB (map alloc (disk_devices env de ?caps (tm_target_buses meta))), seqB (map (make_nic ?caps) (tm_target_nics meta)),
       seqB [make_video, make_graphics (s_display source)], seqB (map alloc (sound_section source @ misc_section ?caps))]
      [disk_devices env de ?caps (tm_target_buses meta), map (nic_xml ?caps) (tm_target_nics meta),
       [video_xml, graphics_xml (s_display source)], sound_section source @ misc_section ?caps]"
    using builds_allocs by (simp only: list_all2_Cons list_all2_Nil simp_thms)
  from builds_list_wrap [OF builds_concat [OF this], of "''devices''" "[]"] show ?thesis
    by (simp only: devices_section_def devices_xml_def concat.simps append_Nil2 append_assoc)
qed

lemma create_libvirt_xml_builds:
  assumes "uefi_of fw file_exists (tm_target_firmware meta) (gcaps_arch (tm_guestcaps meta)) = Inr uefi"
  shows "\<exists>r st'. create_libvirt_xml env fw file_exists de source inspect meta target_features output_name st =
      Inr ((Doc r, snd (get_osinfo_id env inspect) @ ide_warning (gcaps_machine (tm_guestcaps meta)) (tm_target_buses meta)), st') \<and>
    denotes st' (length st) (Element r) (domain_xml env de source inspect meta target_features output_name uefi)"
proof -
  obtain machine secure where m: "machine_of (gcaps_machine (tm_guestcaps meta)) uefi = (machine, secure)"
    by (cases "machine_of (gcaps_machine (tm_guestcaps meta)) uefi")
  obtain osinfo ws where o: "get_osinfo_id env inspect = (osinfo, ws)" by (cases "get_osinfo_id env inspect")
  let ?pre = "name_section env output_name @ genid_section source @ metadata_section osinfo @ memory_section source @ cpu_section source @
    features_section (features_of (s_features source) target_features (gcaps_acpi (tm_guestcaps meta)) secure) @
    os_section (gcaps_arch (tm_guestcaps meta)) machine uefi secure"
  let ?b = "concatB [seqB (map alloc ?pre), devices_section env de source meta]"
  have "builds_list ?b (concat [?pre, [devices_xml env de source meta]])"
    by (intro builds_concat) (simp only: list_all2_Cons list_all2_Nil builds_allocs builds_devices simp_thms)
  then obtain nds st1 where 1: "?b st = Inr (nds, st1)" "grows (length st) st st1"
    "list_all2 (denotes st1 (length st)) nds (concat [?pre, [devices_xml env de source meta]])" unfolding builds_list_def by blast
  have len: "length st \<le> length st1" using 1(2) by (simp add: grows_def)
  from new_element_denotes [OF 1(3) len, of "''domain''" "[(''type'', ''kvm'')]"] obtain st2 where
    2: "e_new ''domain'' [(''type'', ''kvm'')] nds st1 = (Element (length st1), st2)"
    "denotes st2 (length st) (Element (length st1)) (XElement ''domain'' [(''type'', ''kvm'')] (concat [?pre, [devices_xml env de source meta]]))"
    by blast
  have "doc_new ''domain'' [(''type'', ''kvm'')] nds st1 = (Doc (length st1), st2)" using 2(1) by (simp add: doc_new_def e_new_def)
  moreover have "XElement ''domain'' [(''type'', ''kvm'')] (concat [?pre, [devices_xml env de source meta]]) =
      domain_xml env de source inspect meta target_features output_name uefi"
    by (simp add: domain_xml_def m o Let_def)
  moreover have "create_libvirt_xml env fw file_exists de source inspect meta target_features output_name st =
      bindB ?b (\<lambda>body st. let (d, st) = doc_new ''domain'' [(''type'', ''kvm'')] body st
        in Inr ((d, ws @ ide_warning (gcaps_machine (tm_guestcaps meta)) (tm_target_buses meta)), st)) st"
    by (simp add: create_libvirt_xml_def o assms m Let_def bindB_def)
  ultimately show ?thesis using 1(1) 2(2) o by (simp add: bindB_def)
qed


end
