(* ===== verification/LibvirtXmlRead.thy ===== *)
theory LibvirtXmlRead
  imports LibvirtXmlDoc TargetBus
begin

section \<open>The libvirt XML as it is read\<close>

text \<open>
  What a reader finds in the document that was written: the name, the memory, the features, the disks and the network
  cards of the guest, and when the names of the disks are all different.
\<close>

subsection \<open>Finding things in XML\<close>

fun xml_children :: "xml \<Rightarrow> xml list" where
  "xml_children (XElement n as xs) = xs"
| "xml_children _ = []"

fun xml_attrs :: "xml \<Rightarrow> attr list" where
  "xml_attrs (XElement n as xs) = as"
| "xml_attrs _ = []"

fun xml_tag :: "xml \<Rightarrow> string option" where
  "xml_tag (XElement n as xs) = Some n"
| "xml_tag _ = None"

fun xml_text :: "xml \<Rightarrow> string" where
  "xml_text (XText s) = s"
| "xml_text _ = []"

definition elements :: "string \<Rightarrow> xml \<Rightarrow> xml list" where
  "elements n x = filter (\<lambda>k. xml_tag k = Some n) (xml_children x)"

definition attr_of :: "string \<Rightarrow> xml \<Rightarrow> string option" where
  "attr_of k x = map_of (xml_attrs x) k"

definition text_of :: "xml \<Rightarrow> string" where
  "text_of x = concat (map xml_text (xml_children x))"

lemma as_read_tag [simp]: "xml_tag (as_read x) = xml_tag x"
  by (cases x) auto

lemma as_read_attr [simp]: "attr_of k (as_read x) = attr_of k x"
  by (cases x) (auto simp: attr_of_def)

lemma as_read_children: "xml_children (as_read x) = map as_read (xml_children x)"
  by (cases x) auto

lemma as_read_elements [simp]: "elements n (as_read x) = map as_read (elements n x)"
  by (simp add: elements_def as_read_children filter_map comp_def)

lemma as_read_text1: "xml_text (as_read x) = xml_text x"
  by (cases x) auto

lemma as_read_text [simp]: "text_of (as_read x) = text_of x"
  by (simp add: text_of_def as_read_children as_read_text1 comp_def)

text \<open>The texts of the elements with a name, the names of the features, the disks and the network cards.\<close>

definition texts :: "string \<Rightarrow> xml \<Rightarrow> string list" where
  "texts n x = map text_of (elements n x)"

definition features_in :: "xml \<Rightarrow> string option list" where
  "features_in x = concat (map (\<lambda>f. map xml_tag (xml_children f)) (elements ''features'' x))"

definition devices_in :: "string \<Rightarrow> xml \<Rightarrow> xml list" where
  "devices_in n x = concat (map (elements n) (elements ''devices'' x))"

record disk_desc =
  dd_device :: "string option"
  dd_dev :: "string option list"
  dd_bus :: "string option list"
  dd_file :: "string option list"
  dd_volume :: "string option list"

definition disk_of :: "xml \<Rightarrow> disk_desc" where
  "disk_of x = \<lparr>dd_device = attr_of ''device'' x, dd_dev = map (attr_of ''dev'') (elements ''target'' x),
     dd_bus = map (attr_of ''bus'') (elements ''target'' x), dd_file = map (attr_of ''file'') (elements ''source'' x),
     dd_volume = map (attr_of ''volume'') (elements ''source'' x)\<rparr>"

record nic_desc =
  nd_type :: "string option"
  nd_source :: "string option list"
  nd_mac :: "string option list"

definition nic_of :: "xml \<Rightarrow> nic_desc" where
  "nic_of x = (let ty = attr_of ''type'' x
     in \<lparr>nd_type = ty, nd_source = map (attr_of (the ty)) (elements ''source'' x), nd_mac = map (attr_of ''address'') (elements ''mac'' x)\<rparr>)"

lemma as_read_disk [simp]: "disk_of (as_read x) = disk_of x"
  by (simp add: disk_of_def comp_def)

lemma as_read_nic [simp]: "nic_of (as_read x) = nic_of x"
  by (simp add: nic_of_def comp_def)

lemma as_read_finds:
  "texts n (as_read x) = texts n x" "features_in (as_read x) = features_in x"
  "devices_in n (as_read x) = map as_read (devices_in n x)"
  by (simp_all add: texts_def features_in_def devices_in_def as_read_children comp_def map_concat)

subsection \<open>What there is to find\<close>

text \<open>The buses of a machine with their names in the XML: the PC machines have the virtio-blk, IDE, SCSI and floppy buses
  under the names that libvirt knows, where on Q35 the IDE bus is SATA; the machine \<open>virt\<close> has no IDE bus.\<close>

fun written_buses :: "guestcaps_machine \<Rightarrow> target_buses \<Rightarrow> (string \<times> string \<times> target_bus_slot list) list" where
  "written_buses I440FX buses =
     [(''virtio'', ''vd'', target_virtio_blk_bus buses), (''ide'', ''hd'', target_ide_bus buses),
      (''scsi'', ''sd'', target_scsi_bus buses), (''floppy'', ''fd'', target_floppy_bus buses)]"
| "written_buses Q35 buses =
     [(''virtio'', ''vd'', target_virtio_blk_bus buses), (''sata'', ''sd'', target_ide_bus buses),
      (''scsi'', ''sd'', target_scsi_bus buses), (''floppy'', ''fd'', target_floppy_bus buses)]"
| "written_buses Virt buses =
     [(''virtio'', ''vd'', target_virtio_blk_bus buses), (''scsi'', ''sd'', target_scsi_bus buses),
      (''floppy'', ''fd'', target_floppy_bus buses)]"

text \<open>What is reported when devices of the IDE bus are left out.\<close>

definition legacy_dropped :: string where
  "legacy_dropped = ''machine type virt does not support IDE and SATA legacy devices, some legacy devices of this guest have been dropped from the libvirt output''"

lemma legacy_dropped_warned:
  "legacy_dropped \<in> set (snd (get_osinfo_id env inspect) @ ide_warning machine buses) \<longleftrightarrow> machine = Virt \<and> target_ide_bus buses \<noteq> []"
proof -
  have "legacy_dropped \<noteq> ''unknown guest operating system: '' @ s" for s by (simp add: legacy_dropped_def)
  then have "legacy_dropped \<notin> set (snd (get_osinfo_id env inspect))" unfolding get_osinfo_id_def by (simp split: option.split)
  then show ?thesis by (simp add: ide_warning_def legacy_dropped_def)
qed

text \<open>The machine and whether secure boot is required.\<close>

definition secure_boot :: "uefi_firmware option \<Rightarrow> bool" where
  "secure_boot uefi \<longleftrightarrow> (\<exists>f. uefi = Some f \<and> UEFI_FLAG_SECURE_BOOT_REQUIRED \<in> set (flags f))"

definition written_machine :: "guestcaps_machine \<Rightarrow> uefi_firmware option \<Rightarrow> string" where
  "written_machine machine uefi =
     (if secure_boot uefi \<or> machine = Q35 then ''q35'' else if machine = Virt then ''virt'' else ''pc'')"


lemma machine_of_written:
  "(case fst (machine_of machine uefi) of I440FX \<Rightarrow> ''pc'' | Q35 \<Rightarrow> ''q35'' | Virt \<Rightarrow> ''virt'') = written_machine machine uefi"
  by (cases machine; cases uefi) (simp_all add: machine_of_def secure_boot_def written_machine_def)

definition slot_disk :: "xml_env \<Rightarrow> disk_env \<Rightarrow> string \<Rightarrow> string \<Rightarrow> nat \<Rightarrow> target_bus_slot \<Rightarrow> disk_desc list" where
  "slot_disk env de bus drive_prefix i slot =
     (let dev = [Some (drive_prefix @ drive_name env i)]
      in case slot of
           BusSlotEmpty \<Rightarrow> []
         | BusSlotDisk d \<Rightarrow>
             [\<lparr>dd_device = Some ''disk'', dd_dev = dev, dd_bus = [Some bus],
               dd_file = [if pool de = None then Some (outdisk_name de (s_disk_id d)) else None],
               dd_volume = [if pool de = None then None else Some (basename (outdisk_name de (s_disk_id d)))]\<rparr>]
         | BusSlotRemovable r \<Rightarrow>
             [\<lparr>dd_device = Some (case s_removable_type r of CDROM \<Rightarrow> ''cdrom'' | Floppy \<Rightarrow> ''floppy''), dd_dev = dev,
               dd_bus = [case s_removable_type r of CDROM \<Rightarrow> Some bus | Floppy \<Rightarrow> None], dd_file = [], dd_volume = []\<rparr>])"

definition written_disks :: "xml_env \<Rightarrow> disk_env \<Rightarrow> (string \<times> string \<times> target_bus_slot list) list \<Rightarrow> disk_desc list" where
  "written_disks env de buses =
     concat (map (\<lambda>(bus, drive_prefix, slots). concat (mapi (slot_disk env de bus drive_prefix) slots)) buses)"

lemma make_disk_found:
  "map disk_of (filter (\<lambda>k. xml_tag k = Some ''disk'') [make_disk env de bus v p i slot]) = slot_disk env de bus p i slot"
proof (cases slot)
  case BusSlotEmpty
  then show ?thesis by (simp add: make_disk_def slot_disk_def)
next
  case (BusSlotDisk d)
  then show ?thesis by (cases "pool de"; cases v) (simp_all add: make_disk_def slot_disk_def Let_def disk_of_def elements_def attr_of_def)
next
  case (BusSlotRemovable r)
  then show ?thesis by (cases "s_removable_type r") (simp_all add: make_disk_def slot_disk_def Let_def disk_of_def elements_def attr_of_def)
qed

lemma map_filter_concat: "map f (filter P xs) = concat (map (\<lambda>x. map f (filter P [x])) xs)"
  by (induction xs) auto

lemma bus_disks_found:
  "map disk_of (filter (\<lambda>k. xml_tag k = Some ''disk'') (mapi (make_disk env de bus v p) slots)) = concat (mapi (slot_disk env de bus p) slots)"
  by (subst map_filter_concat) (simp only: mapi_def map_map comp_def case_prod_unfold make_disk_found)

lemma tags_other:
  "k \<in> set (sound_section source @ misc_section caps @ [video_xml, graphics_xml display]) \<Longrightarrow>
   xml_tag k \<noteq> Some ''disk'' \<and> xml_tag k \<noteq> Some ''interface''"
  by (auto simp: sound_section_def misc_section_def video_xml_def graphics_xml_def split: option.splits if_splits)


lemma disk_devices_found:
  "map disk_of (filter (\<lambda>k. xml_tag k = Some ''disk'') (disk_devices env de caps buses)) =
     written_disks env de (written_buses (gcaps_machine caps) buses)"
  by (cases "gcaps_machine caps")
     (simp_all add: disk_devices_def written_disks_def ide_bus_of_def bus_disks_found)



lemma devices_disks: "map disk_of (elements ''disk'' (devices_xml env de source meta)) =
    written_disks env de (written_buses (gcaps_machine (tm_guestcaps meta)) (tm_target_buses meta))"
proof -
  have "filter (\<lambda>k. xml_tag k = Some ''disk'') (map (nic_xml (tm_guestcaps meta)) (tm_target_nics meta)) = []"
    by (auto simp: filter_empty_conv nic_xml_def)
  moreover have "filter (\<lambda>k. xml_tag k = Some ''disk'') ([video_xml, graphics_xml (s_display source)] @ sound_section source @ misc_section (tm_guestcaps meta)) = []"
    using tags_other [of _ source "tm_guestcaps meta" "s_display source"] by (fastforce simp: filter_empty_conv)
  ultimately show ?thesis unfolding elements_def devices_xml_def xml_children.simps filter_append
    by (simp add: disk_devices_found del: filter.simps)
qed


subsection \<open>The whole document\<close>

lemma tags_of_sections:
  "k \<in> set (name_section env output_name) \<Longrightarrow> xml_tag k \<in> {None, Some ''name''}"
  "k \<in> set (genid_section source) \<Longrightarrow> xml_tag k = Some ''genid''"
  "k \<in> set (metadata_section osinfo) \<Longrightarrow> xml_tag k = Some ''metadata''"
  "k \<in> set (memory_section source) \<Longrightarrow> xml_tag k \<in> {Some ''memory'', Some ''currentMemory'', Some ''vcpu''}"
  "k \<in> set (cpu_section source) \<Longrightarrow> xml_tag k = Some ''cpu''"
  "k \<in> set (features_section fs) \<Longrightarrow> xml_tag k = Some ''features''"
  "k \<in> set (os_section arch machine uefi secure) \<Longrightarrow> xml_tag k \<in> {Some ''os'', Some ''on_poweroff'', Some ''on_reboot'', Some ''on_crash''}"
proof -
  show "k \<in> set (genid_section source) \<Longrightarrow> xml_tag k = Some ''genid''" by (cases "s_genid source") (simp_all add: genid_section_def)
  show "k \<in> set (metadata_section osinfo) \<Longrightarrow> xml_tag k = Some ''metadata''" by (cases osinfo) (simp_all add: metadata_section_def)
  show "k \<in> set (cpu_section source) \<Longrightarrow> xml_tag k = Some ''cpu''" unfolding cpu_section_def by (simp split: if_splits)
qed (auto simp: name_section_def memory_section_def features_section_def os_section_def Let_def)

lemma section_tags:
  "xml_tag k \<noteq> Some t" if "k \<in> set (name_section env output_name @ genid_section source @ metadata_section osinfo @ cpu_section source)"
    "t \<in> {''memory'', ''vcpu'', ''features'', ''devices''}"
proof -
  have "xml_tag k \<in> {None, Some ''name'', Some ''genid'', Some ''metadata'', Some ''cpu''}"
    using that(1) tags_of_sections(1-3,5) by (fastforce simp only: set_append Un_iff insert_iff)
  with that(2) show ?thesis by auto
qed

lemma other_section_tags:
  "xml_tag k \<noteq> Some t" if "k \<in> set (genid_section source @ metadata_section osinfo @ memory_section source @ cpu_section source @ features_section fs @ os_section arch machine uefi secure)"
    "t \<in> {''name'', ''devices''}"
proof -
  have "xml_tag k \<in> {Some ''genid'', Some ''metadata'', Some ''memory'', Some ''currentMemory'', Some ''vcpu'', Some ''cpu'', Some ''features'',
      Some ''os'', Some ''on_poweroff'', Some ''on_reboot'', Some ''on_crash''}"
    using that(1) tags_of_sections(2-7) by (fastforce simp only: set_append Un_iff insert_iff)
  with that(2) show ?thesis by auto
qed

lemma os_section_tags: "k \<in> set (os_section arch machine uefi secure) \<Longrightarrow> xml_tag k \<noteq> Some ''memory'' \<and> xml_tag k \<noteq> Some ''vcpu'' \<and> xml_tag k \<noteq> Some ''features''"
  using tags_of_sections(7) by fastforce

lemma filter_no_tag: "(\<And>k. k \<in> set xs \<Longrightarrow> xml_tag k \<noteq> Some t) \<Longrightarrow> filter (\<lambda>k. xml_tag k = Some t) xs = []"
  by (auto simp: filter_empty_conv)

lemma domain_found:
  assumes x_def: "x = domain_xml env de source inspect meta target_features output_name uefi"
  shows "texts ''name'' x = [output_name]"
    and "texts ''memory'' x = [string_of_int (int64_div (s_memory source) 1024)]"
    and "texts ''vcpu'' x = [string_of_int (s_vcpu source)]"
    and "features_in x = map Some (features_of (s_features source) target_features (gcaps_acpi (tm_guestcaps meta))
           (snd (machine_of (gcaps_machine (tm_guestcaps meta)) uefi)))"
    and "elements ''devices'' x = [devices_xml env de source meta]"
proof -
  obtain machine secure where m: "machine_of (gcaps_machine (tm_guestcaps meta)) uefi = (machine, secure)"
    by (cases "machine_of (gcaps_machine (tm_guestcaps meta)) uefi")
  let ?os = "fst (get_osinfo_id env inspect)"
  let ?fs = "features_of (s_features source) target_features (gcaps_acpi (tm_guestcaps meta)) secure"
  let ?f = "\<lambda>t. filter (\<lambda>k. xml_tag k = Some t)"
  have el: "elements t x = ?f t (name_section env output_name) @ ?f t (genid_section source) @ ?f t (metadata_section ?os) @
      ?f t (memory_section source) @ ?f t (cpu_section source) @ ?f t (features_section ?fs) @
      ?f t (os_section (gcaps_arch (tm_guestcaps meta)) machine uefi secure) @ ?f t [devices_xml env de source meta]" for t
    by (simp add: x_def domain_xml_def elements_def m Let_def)
  have a: "?f t (name_section env output_name) = []" "?f t (genid_section source) = []" "?f t (metadata_section ?os) = []" "?f t (cpu_section source) = []"
    if "t \<in> {''memory'', ''vcpu'', ''features'', ''devices''}" for t
  proof -
    have "?f t (name_section env output_name @ genid_section source @ metadata_section ?os @ cpu_section source) = []"
      using section_tags that by (intro filter_no_tag) blast
    then show "?f t (name_section env output_name) = []" "?f t (genid_section source) = []" "?f t (metadata_section ?os) = []" "?f t (cpu_section source) = []"
      by (simp_all only: filter_append append_is_Nil_conv)
  qed
  have b: "?f t (genid_section source) = []" "?f t (metadata_section ?os) = []" "?f t (memory_section source) = []" "?f t (cpu_section source) = []"
    "?f t (features_section ?fs) = []" "?f t (os_section (gcaps_arch (tm_guestcaps meta)) machine uefi secure) = []"
    if "t \<in> {''name'', ''devices''}" for t
  proof -
    have "?f t (genid_section source @ metadata_section ?os @ memory_section source @ cpu_section source @ features_section ?fs @
        os_section (gcaps_arch (tm_guestcaps meta)) machine uefi secure) = []"
      using other_section_tags that by (intro filter_no_tag) blast
    then show "?f t (genid_section source) = []" "?f t (metadata_section ?os) = []" "?f t (memory_section source) = []" "?f t (cpu_section source) = []"
      "?f t (features_section ?fs) = []" "?f t (os_section (gcaps_arch (tm_guestcaps meta)) machine uefi secure) = []"
      by (simp_all only: filter_append append_is_Nil_conv)
  qed
  have c: "?f t (os_section (gcaps_arch (tm_guestcaps meta)) machine uefi secure) = []" if "t \<in> {''memory'', ''vcpu'', ''features''}" for t
    using that by (intro filter_no_tag) (auto dest: os_section_tags)
  have d: "?f t [devices_xml env de source meta] = (if t = ''devices'' then [devices_xml env de source meta] else [])" for t
    by (auto simp: devices_xml_def)
  show "texts ''name'' x = [output_name]" unfolding texts_def el using b [of "''name''"] d [of "''name''"] by (simp add: name_section_def text_of_def)
  show "texts ''memory'' x = [string_of_int (int64_div (s_memory source) 1024)]" unfolding texts_def el
    using a [of "''memory''"] c [of "''memory''"] d [of "''memory''"] by (simp add: memory_section_def features_section_def text_of_def Let_def)
  show "texts ''vcpu'' x = [string_of_int (s_vcpu source)]" unfolding texts_def el
    using a [of "''vcpu''"] c [of "''vcpu''"] d [of "''vcpu''"] by (simp add: memory_section_def features_section_def text_of_def Let_def)
  show "features_in x = map Some (features_of (s_features source) target_features (gcaps_acpi (tm_guestcaps meta))
           (snd (machine_of (gcaps_machine (tm_guestcaps meta)) uefi)))"
    unfolding features_in_def el using a [of "''features''"] c [of "''features''"] d [of "''features''"] m
    by (simp add: memory_section_def features_section_def Let_def comp_def)
  show "elements ''devices'' x = [devices_xml env de source meta]" unfolding el
    using a [of "''devices''"] b [of "''devices''"] d [of "''devices''"] by simp
qed

text \<open>What the strings of the guest must be like for XML to carry them: names of features are names, texts are not
  blank, and the comment has no character that would be quoted.\<close>

definition blank :: "string \<Rightarrow> bool" where
  "blank s = list_all is_space s"

definition describable :: "xml_env \<Rightarrow> source \<Rightarrow> string list \<Rightarrow> string \<Rightarrow> uefi_firmware option \<Rightarrow> bool" where
  "describable env source target_features output_name uefi \<longleftrightarrow>
     list_all (\<lambda>c. c \<noteq> CHR ''&'' \<and> c \<noteq> CHR ''<'' \<and> c \<noteq> CHR ''>'') (generated_by env) \<and> \<not> blank output_name \<and>
     pred_option (\<lambda>s. \<not> blank s) (s_genid source) \<and> pred_option (\<lambda>s. \<not> blank s) (s_cpu_vendor source) \<and>
     pred_option (\<lambda>s. \<not> blank s) (s_cpu_model source) \<and> pred_option (\<lambda>f. \<not> blank (code f)) uefi \<and>
     list_all name_ok target_features"

lemma digit_plain:
  assumes "c \<in> set (string_of_int n)"
  shows "\<not> is_space c \<and> c \<noteq> CHR ''&'' \<and> c \<noteq> CHR ''<'' \<and> c \<noteq> CHR ''>''"
proof -
  have none: "digit_in 10 (CHR '' '') = None" "digit_in 10 (CHR 10) = None" "digit_in 10 (CHR 9) = None" "digit_in 10 (CHR 13) = None"
    "digit_in 10 (CHR ''&'') = None" "digit_in 10 (CHR ''<'') = None" "digit_in 10 (CHR ''>'') = None"
    by code_simp+
  have "c = CHR ''-'' \<or> (\<exists>m. c \<in> set (decimal m))" using assms by (auto simp: string_of_int_def split: if_splits)
  then show ?thesis
  proof
    assume "c = CHR ''-''"
    then show ?thesis by (simp add: is_space_def)
  next
    assume "\<exists>m. c \<in> set (decimal m)"
    then have "digit_in 10 c \<noteq> None" using decimal_chars by blast
    with none show ?thesis unfolding is_space_def by metis
  qed
qed

lemma string_of_int_not_blank: "\<not> list_all is_space (string_of_int n)"
proof -
  have "string_of_int n \<noteq> []" using decimal_not_Nil by (simp add: string_of_int_def)
  then obtain c where "c \<in> set (string_of_int n)" by (cases "string_of_int n") auto
  with digit_plain show ?thesis unfolding list_all_iff by blast
qed

lemma const_names:
  "name_ok ''disk''" "name_ok ''driver''" "name_ok ''source''" "name_ok ''target''" "name_ok ''type''" "name_ok ''device''"
  "name_ok ''name''" "name_ok ''file''" "name_ok ''pool''" "name_ok ''volume''" "name_ok ''dev''" "name_ok ''bus''" "name_ok ''model''"
  "name_ok ''interface''" "name_ok ''bridge''" "name_ok ''network''" "name_ok ''mac''" "name_ok ''address''" "name_ok ''video''"
  "name_ok ''vram''" "name_ok ''heads''" "name_ok ''graphics''" "name_ok ''port''" "name_ok ''autoport''" "name_ok ''keymap''"
  "name_ok ''passwd''" "name_ok ''listen''" "name_ok ''socket''" "name_ok ''sound''" "name_ok ''rng''" "name_ok ''backend''"
  "name_ok ''memballoon''" "name_ok ''panic''" "name_ok ''iobase''" "name_ok ''vsock''" "name_ok ''input''" "name_ok ''console''"
  "name_ok ''devices''" "name_ok ''domain''" "name_ok ''genid''" "name_ok ''metadata''" "name_ok ''libosinfo:libosinfo''"
  "name_ok ''xmlns:libosinfo''" "name_ok ''libosinfo:os''" "name_ok ''id''" "name_ok ''memory''" "name_ok ''unit''"
  "name_ok ''currentMemory''" "name_ok ''vcpu''" "name_ok ''cpu''" "name_ok ''match''" "name_ok ''fallback''" "name_ok ''vendor''"
  "name_ok ''topology''" "name_ok ''sockets''" "name_ok ''cores''" "name_ok ''threads''" "name_ok ''features''" "name_ok ''os''"
  "name_ok ''arch''" "name_ok ''machine''" "name_ok ''loader''" "name_ok ''readonly''" "name_ok ''secure''" "name_ok ''nvram''"
  "name_ok ''template''" "name_ok ''on_poweroff''" "name_ok ''on_reboot''" "name_ok ''on_crash''" "name_ok ''smm''"
  by code_simp+

text \<open>Every section can be written, and how deep it is.\<close>

definition fits :: "nat \<Rightarrow> xml list \<Rightarrow> bool" where
  "fits k xs = list_all (\<lambda>x. xml_ok x \<and> \<not> is_xtext x \<and> xml_depth x \<le> k) xs"

lemma fits_append [simp]: "fits k (xs @ ys) \<longleftrightarrow> fits k xs \<and> fits k ys"
  by (simp add: fits_def)

lemma fits_simps [simp]: "fits k []" "fits k (x # xs) \<longleftrightarrow> xml_ok x \<and> \<not> is_xtext x \<and> xml_depth x \<le> k \<and> fits k xs"
  by (simp_all add: fits_def)

lemma fits_element:
  "name_ok n \<Longrightarrow> list_all (\<lambda>(k, v). name_ok k) as \<Longrightarrow> fits k xs \<Longrightarrow> fits (Suc k) [XElement n as xs]"
  by (auto simp: fits_def list_all_iff)

lemma fits_concat: "fits k (concat xss) \<longleftrightarrow> list_all (fits k) xss"
  by (induction xss) simp_all

lemma fits_map: "(\<And>x. fits k [f x]) \<Longrightarrow> fits k (map f xs)"
  by (simp add: fits_def list_all_iff)

lemma make_disk_fits:
  assumes "list_all (\<lambda>c. c \<noteq> CHR ''&'' \<and> c \<noteq> CHR ''<'' \<and> c \<noteq> CHR ''>'') bus"
  shows "fits 2 [make_disk env de bus v p i slot]"
proof (cases slot)
  case BusSlotEmpty
  have "list_all (\<lambda>c. c \<noteq> CHR ''&'' \<and> c \<noteq> CHR ''<'' \<and> c \<noteq> CHR ''>'') (string_of_int (int i))"
    using digit_plain by (auto simp: list_all_iff)
  with BusSlotEmpty assms show ?thesis by (simp add: make_disk_def)
next
  case (BusSlotDisk d)
  then show ?thesis by (cases "pool de"; cases v) (simp_all add: make_disk_def Let_def const_names)
next
  case (BusSlotRemovable r)
  then show ?thesis by (cases "s_removable_type r") (simp_all add: make_disk_def const_names)
qed

lemma mapi_fits:
  "list_all (\<lambda>c. c \<noteq> CHR ''&'' \<and> c \<noteq> CHR ''<'' \<and> c \<noteq> CHR ''>'') bus \<Longrightarrow> fits 2 (mapi (make_disk env de bus v p) slots)"
  unfolding mapi_def by (rule fits_map) (simp only: case_prod_unfold make_disk_fits)

lemma disk_devices_fits: "fits 2 (disk_devices env de caps buses)"
  by (cases "gcaps_machine caps") (simp_all add: disk_devices_def ide_bus_of_def mapi_fits)

lemma nics_fit: "fits 2 (map (nic_xml caps) ns)"
proof -
  have "fits 2 [nic_xml caps n]" for n
    by (cases "s_mac n"; cases "s_vnet_type n") (simp_all add: nic_xml_def vnet_str_def const_names)
  then show ?thesis by (simp add: fits_def list_all_iff)
qed

lemma graphics_attrs_names: "list_all (\<lambda>(k, v). name_ok k) (graphics_attrs display)"
  by (auto simp: graphics_attrs_def const_names split: option.split s_display_type.split)

lemma listen_attrs_names: "listen_attrs l = Some as \<Longrightarrow> list_all (\<lambda>(k, v). name_ok k) as"
  by (auto simp: listen_attrs_def const_names split: s_display_listen.splits option.splits)

lemma graphics_fits: "fits 2 [graphics_xml display]"
proof -
  let ?as = "graphics_attrs display @ (case Option.bind display s_keymap of None \<Rightarrow> [] | Some km \<Rightarrow> [(''keymap'', km)]) @
    (case Option.bind display s_password of None \<Rightarrow> [] | Some pw \<Rightarrow> [(''passwd'', pw)])"
  have "list_all (\<lambda>(k, v). name_ok k) ?as" using graphics_attrs_names [of display]
    by (cases "Option.bind display s_keymap"; cases "Option.bind display s_password") (simp_all add: const_names)
  moreover have "fits 1 (case Option.bind display (\<lambda>d. listen_attrs (s_listen d)) of None \<Rightarrow> [] | Some as \<Rightarrow> [XElement ''listen'' as []])"
    by (cases "Option.bind display (\<lambda>d. listen_attrs (s_listen d))")
       (auto simp: const_names bind_eq_Some_conv dest: listen_attrs_names)
  ultimately show ?thesis unfolding graphics_xml_def using fits_element [of "''graphics''" ?as 1] by (simp add: const_names numeral_2_eq_2 del: fits_simps)
qed

lemma misc_fits: "fits 2 (sound_section source @ misc_section caps @ [video_xml])"
proof -
  have "\<not> list_all is_space ''/dev/urandom''" by code_simp
  then have "fits 2 (misc_section caps)" unfolding misc_section_def fits_concat by (simp add: const_names)
  moreover have "fits 2 (sound_section source)" by (cases "s_sound source") (simp_all add: sound_section_def const_names)
  moreover have "fits 2 [video_xml]" by (simp add: video_xml_def const_names)
  ultimately show ?thesis by simp
qed

lemma devices_fit: "fits 3 [devices_xml env de source meta]"
proof -
  have "fits (Suc 2) [devices_xml env de source meta]" unfolding devices_xml_def
    using misc_fits [of source "tm_guestcaps meta"] graphics_fits [of "s_display source"]
    by (intro fits_element) (simp_all add: const_names disk_devices_fits nics_fit)
  then show ?thesis by simp
qed

lemma cpu_section_fits:
  assumes "pred_option (\<lambda>s. \<not> blank s) (s_cpu_vendor source)" "pred_option (\<lambda>s. \<not> blank s) (s_cpu_model source)"
  shows "fits 3 (cpu_section source)"
  using assms
  by (cases "s_cpu_vendor source"; cases "s_cpu_model source"; cases "s_cpu_topology source")
     (simp_all add: cpu_section_def const_names blank_def)

lemma features_of_names: "list_all name_ok target \<Longrightarrow> list_all name_ok (features_of fs target acpi smm)"
  by (auto simp: features_of_def Let_def list_all_iff const_names)

lemma features_section_fits: "list_all name_ok fs \<Longrightarrow> fits 3 (features_section fs)"
proof -
  assume "list_all name_ok fs"
  then have "fits 2 (map (\<lambda>s. XElement s [] []) fs)" by (simp add: fits_def list_all_iff)
  then have "fits (Suc 2) (features_section fs)" unfolding features_section_def by (intro fits_element) (simp_all add: const_names)
  then show ?thesis by simp
qed

lemma os_section_fits: "pred_option (\<lambda>f. \<not> blank (code f)) uefi \<Longrightarrow> fits 3 (os_section arch machine uefi secure)"
proof -
  assume u: "pred_option (\<lambda>f. \<not> blank (code f)) uefi"
  have power: "xml_ok (XText ''destroy'')" "xml_ok (XText ''restart'')" "xml_ok (XText ''hvm'')" by code_simp+
  let ?as = "[(''readonly'', ''yes''), (''type'', ''pflash'')] @ (if secure then [(''secure'', ''yes'')] else [])"
  let ?type = "\<lambda>m. [XElement ''type'' [(''arch'', arch), (''machine'', m)] [XText ''hvm'']]"
  let ?loader = "case uefi of None \<Rightarrow> [] | Some f \<Rightarrow> [XElement ''loader'' ?as [XText (code f)], XElement ''nvram'' [(''template'', vars f)] []]"
  have "list_all (\<lambda>(k, v). name_ok k) ?as" by (cases secure) (simp_all add: const_names)
  then have "fits 2 ?loader" using u by (cases uefi) (simp_all add: const_names blank_def del: list_all_append append_Cons)
  moreover have "fits 2 (?type m)" for m using power by (simp add: const_names del: xml_ok.simps(1))
  ultimately have "fits 2 (?type m @ ?loader)" for m by (simp only: fits_append simp_thms)
  then have os: "fits (Suc 2) [XElement ''os'' [] (?type m @ ?loader)]" for m by (intro fits_element) (simp_all only: const_names list.pred_inject simp_thms)
  have on: "fits 3 [XElement ''on_poweroff'' [] [XText ''destroy''], XElement ''on_reboot'' [] [XText ''restart''], XElement ''on_crash'' [] [XText ''restart'']]"
    using power by (simp add: const_names del: xml_ok.simps(1))
  have "Suc 2 = 3" by simp
  have "fits 3 ([XElement ''os'' [] (?type m @ ?loader)] @
      [XElement ''on_poweroff'' [] [XText ''destroy''], XElement ''on_reboot'' [] [XText ''restart''], XElement ''on_crash'' [] [XText ''restart'']])" for m
    using os [unfolded \<open>Suc 2 = 3\<close>] on by (simp only: fits_append simp_thms)
  then show ?thesis unfolding os_section_def Let_def append_Cons append_Nil .
qed

lemma domain_fits:
  assumes "describable env source target_features output_name uefi"
  shows "fits 4 [domain_xml env de source inspect meta target_features output_name uefi]"
proof -
  note d = assms [unfolded describable_def]
  obtain machine secure where m: "machine_of (gcaps_machine (tm_guestcaps meta)) uefi = (machine, secure)"
    by (cases "machine_of (gcaps_machine (tm_guestcaps meta)) uefi")
  have name: "fits 3 (name_section env output_name)" using d by (simp add: name_section_def const_names blank_def)
  have genid: "fits 3 (genid_section source)" using d by (cases "s_genid source") (simp_all add: genid_section_def const_names blank_def)
  have meta: "fits 3 (metadata_section osinfo)" for osinfo by (cases osinfo) (simp_all add: metadata_section_def const_names)
  have mem: "fits 3 (memory_section source)" by (simp add: memory_section_def Let_def const_names string_of_int_not_blank)
  have "fits (Suc 3) [domain_xml env de source inspect meta target_features output_name uefi]"
    unfolding domain_xml_def m Let_def prod.case using d name genid meta mem devices_fit [of env de source meta]
    by (intro fits_element) (simp_all add: const_names cpu_section_fits features_section_fits features_of_names os_section_fits del: fits_simps(2))
  then show ?thesis by simp
qed

lemma devices_in_domain:
  "devices_in n (domain_xml env de source inspect meta target_features output_name uefi) = elements n (devices_xml env de source meta)"
  by (simp add: devices_in_def domain_found(5) [OF refl])

lemma create_libvirt_xml_read:
  assumes lib: "string_lib_ok lib"
    and uefi: "uefi_of fw file_exists (tm_target_firmware meta) (gcaps_arch (tm_guestcaps meta)) = Inr uefi"
    and ok: "describable env source target_features output_name uefi" and fuel: "4 \<le> fuel"
  shows "\<exists>r st' s. create_libvirt_xml env fw file_exists de source inspect meta target_features output_name st =
      Inr ((Doc r, snd (get_osinfo_id env inspect) @ ide_warning (gcaps_machine (tm_guestcaps meta)) (tm_target_buses meta)), st') \<and>
    doc_to_string lib fuel st' (Doc r) = Some s \<and>
    read_doc s = Some (as_read (domain_xml env de source inspect meta target_features output_name uefi))"
proof -
  let ?x = "domain_xml env de source inspect meta target_features output_name uefi"
  obtain r st' where 1: "create_libvirt_xml env fw file_exists de source inspect meta target_features output_name st =
      Inr ((Doc r, snd (get_osinfo_id env inspect) @ ide_warning (gcaps_machine (tm_guestcaps meta)) (tm_target_buses meta)), st')"
    "denotes st' (length st) (Element r) ?x" using create_libvirt_xml_builds [OF uefi] by blast
  from 1(2) obtain t where t: "represents st' (Element r) t" "content t = ?x" by (auto simp: denotes_def)
  have fit: "xml_ok ?x" "xml_depth ?x \<le> 4" using domain_fits [OF ok, of de inspect meta] by simp_all
  then have "writable t" "tree_depth t \<le> fuel" using fuel t(2) by (simp_all only: writable_content depth_content)
  from read_printed [OF lib t(1) this] 1(1) show ?thesis unfolding erase_content t(2) by blast
qed



subsection \<open>The names of the disks\<close>

definition occupied_slots :: "target_bus_slot list \<Rightarrow> nat list" where
  "occupied_slots slots = filter (\<lambda>i. slots ! i \<noteq> BusSlotEmpty) [0..<length slots]"

lemma slot_disk_dev:
  "concat (map dd_dev (slot_disk env de bus p i slot)) = (if slot = BusSlotEmpty then [] else [Some (p @ drive_name env i)])"
  by (cases slot) (simp_all add: slot_disk_def Let_def)

lemma mapi_nth: "mapi f xs = map (\<lambda>i. f i (xs ! i)) [0..<length xs]"
  by (rule nth_equalityI) (auto simp: mapi_def)

definition dev_names :: "xml_env \<Rightarrow> string \<Rightarrow> target_bus_slot list \<Rightarrow> string option list" where
  "dev_names env p slots = map (\<lambda>i. Some (p @ drive_name env i)) (occupied_slots slots)"

lemma bus_names: "concat (map dd_dev (concat (mapi (slot_disk env de bus p) slots))) = dev_names env p slots"
proof -
  have "concat (map dd_dev (concat (map (\<lambda>i. slot_disk env de bus p i (slots ! i)) is))) =
      map (\<lambda>i. Some (p @ drive_name env i)) (filter (\<lambda>i. slots ! i \<noteq> BusSlotEmpty) is)" for "is"
    by (induction "is") (simp_all add: slot_disk_dev)
  then show ?thesis by (simp add: mapi_nth occupied_slots_def dev_names_def)
qed

lemma occupied_slots_set: "set (occupied_slots slots) = {i. i < length slots \<and> slots ! i \<noteq> BusSlotEmpty}"
  by (auto simp: occupied_slots_def)

lemma dev_names_distinct: "inj (drive_name env) \<Longrightarrow> distinct (dev_names env p slots)"
  by (auto simp: distinct_map occupied_slots_def inj_on_def dev_names_def)

lemma dev_names_apart: "length p = length q \<Longrightarrow> p \<noteq> q \<Longrightarrow> set (dev_names env p slots) \<inter> set (dev_names env q slots') = {}"
  by (auto simp: dev_names_def)

lemma dev_names_same:
  "inj (drive_name env) \<Longrightarrow> set (dev_names env p slots) \<inter> set (dev_names env p slots') = {} \<longleftrightarrow>
     \<not> (\<exists>i. i < length slots \<and> i < length slots' \<and> slots ! i \<noteq> BusSlotEmpty \<and> slots' ! i \<noteq> BusSlotEmpty)"
  by (auto simp: dev_names_def occupied_slots_set dest: injD)

lemma names_of_buses:
  "concat (map dd_dev (written_disks env de buses)) = concat (map (\<lambda>(bus, p, slots). dev_names env p slots) buses)"
  by (induction buses) (auto simp: written_disks_def bus_names)

lemma disk_names_distinct:
  assumes inj: "inj (drive_name env)"
  shows "distinct (concat (map dd_dev (written_disks env de (written_buses machine buses)))) \<longleftrightarrow>
    \<not> (machine = Q35 \<and> (\<exists>i. i < length (target_ide_bus buses) \<and> i < length (target_scsi_bus buses) \<and>
           target_ide_bus buses ! i \<noteq> BusSlotEmpty \<and> target_scsi_bus buses ! i \<noteq> BusSlotEmpty))"
  unfolding names_of_buses
  by (cases machine)
     (simp_all add: dev_names_distinct [OF inj] dev_names_apart dev_names_same [OF inj] Int_Un_distrib Int_Un_distrib2)

subsection \<open>All devices of the source\<close>

fun kind_of_slot :: "disk_env \<Rightarrow> target_bus_slot \<Rightarrow> string option \<times> string option list \<times> string option list" where
  "kind_of_slot de (BusSlotDisk d) =
     (Some ''disk'', [if pool de = None then Some (outdisk_name de (s_disk_id d)) else None],
      [if pool de = None then None else Some (basename (outdisk_name de (s_disk_id d)))])"
| "kind_of_slot de (BusSlotRemovable r) = (Some (case s_removable_type r of CDROM \<Rightarrow> ''cdrom'' | Floppy \<Rightarrow> ''floppy''), [], [])"
| "kind_of_slot de BusSlotEmpty = (None, [], [])"

definition kind_of_disk :: "disk_desc \<Rightarrow> string option \<times> string option list \<times> string option list" where
  "kind_of_disk d = (dd_device d, dd_file d, dd_volume d)"

lemma slot_disk_kind: "map kind_of_disk (slot_disk env de bus p i slot) = (if slot = BusSlotEmpty then [] else [kind_of_slot de slot])"
  by (cases slot) (simp_all add: slot_disk_def Let_def kind_of_disk_def)

lemma bus_kinds: "mset (map kind_of_disk (concat (mapi (slot_disk env de bus p) slots))) = image_mset (kind_of_slot de) (occupied slots)"
proof -
  have "map kind_of_disk (concat (map (\<lambda>(i, s). slot_disk env de bus p i s) (zip is slots))) = map (kind_of_slot de) (filter (\<lambda>s. s \<noteq> BusSlotEmpty) slots)"
    if "length is = length slots" for "is"
    using that by (induction "is" slots rule: list_induct2) (simp_all add: slot_disk_kind)
  then have "map kind_of_disk (concat (mapi (slot_disk env de bus p) slots)) = map (kind_of_slot de) (filter (\<lambda>s. s \<noteq> BusSlotEmpty) slots)"
    unfolding mapi_def by simp
  then show ?thesis by (simp only: occupied_def mset_map)
qed

text \<open>The devices of a source with the buses they belong to, and those of them that a machine keeps.\<close>

definition source_devices :: "guestcaps \<Rightarrow> source \<Rightarrow> (bus_ref \<times> target_bus_slot) list" where
  "source_devices caps source =
     map (\<lambda>d. (disk_home caps, BusSlotDisk d)) (s_disks source) @ map (\<lambda>r. (home_bus r, BusSlotRemovable r)) (s_removables source)"

definition kept :: "guestcaps_machine \<Rightarrow> bus_ref \<times> target_bus_slot \<Rightarrow> bool" where
  "kept machine d \<longleftrightarrow> \<not> (machine = Virt \<and> fst d = Ide_bus)"

lemma kept_by_bus:
  "mset (map snd (filter (kept machine) devs)) =
     mset (map snd (filter (\<lambda>d. fst d = Virtio_blk_bus) devs)) +
     (if machine = Virt then {#} else mset (map snd (filter (\<lambda>d. fst d = Ide_bus) devs))) +
     mset (map snd (filter (\<lambda>d. fst d = Scsi_bus) devs)) + mset (map snd (filter (\<lambda>d. fst d = Floppy_bus) devs))"
proof (induction devs)
  case (Cons d devs)
  then show ?case using bus_refs [of d] by (auto simp: kept_def)
qed simp

lemma occupied_kept:
  assumes "assigned devs N b"
  shows "mset (map kind_of_disk (written_disks env de (written_buses machine b))) =
    mset (map (\<lambda>d. kind_of_slot de (snd d)) (filter (kept machine) devs))"
proof -
  have o: "occupied (get_bus r b) = mset (map snd (filter (\<lambda>d. fst d = r) devs))" for r using assms by (simp add: assigned_def)
  have "mset (map kind_of_disk (written_disks env de (written_buses machine b))) =
      image_mset (kind_of_slot de) (occupied (get_bus Virtio_blk_bus b) + (if machine = Virt then {#} else occupied (get_bus Ide_bus b)) +
        occupied (get_bus Scsi_bus b) + occupied (get_bus Floppy_bus b))"
    by (cases machine) (simp_all add: written_disks_def bus_kinds del: mset_map)
  also have "\<dots> = image_mset (kind_of_slot de) (mset (map snd (filter (kept machine) devs)))"
    by (simp only: o kept_by_bus [of machine devs])
  finally show ?thesis by (simp add: multiset.map_comp comp_def)
qed

lemma assigned_ide:
  assumes "assigned devs N b"
  shows "target_ide_bus b \<noteq> [] \<longleftrightarrow> (\<exists>d \<in> set devs. fst d = Ide_bus)"
proof -
  have "occupied (get_bus Ide_bus b) = mset (map snd (filter (\<lambda>d. fst d = Ide_bus) devs))" "tight (get_bus Ide_bus b)"
    using assms unfolding assigned_def by blast+
  then have o: "occupied (target_ide_bus b) = mset (map snd (filter (\<lambda>d. fst d = Ide_bus) devs))" "tight (target_ide_bus b)" by simp_all
  have "target_ide_bus b = [] \<longleftrightarrow> occupied (target_ide_bus b) = {#}"
    using o(2) by (auto simp: occupied_def tight_def filter_empty_conv) (metis last_in_set)
  also have "\<dots> \<longleftrightarrow> (\<forall>d \<in> set devs. fst d \<noteq> Ide_bus)" by (force simp: o(1) filter_empty_conv)
  finally show ?thesis by blast
qed

lemma source_devices_order:
  "mset (map (\<lambda>d. (disk_home caps, BusSlotDisk d)) (s_disks source) @ map device (removable_order (s_removables source))) = mset (source_devices caps source)"
  using removable_order_props(3) [of "s_removables source"] by (simp add: source_devices_def device_def [abs_def] removable_bus_home)

definition machines_in :: "xml \<Rightarrow> string option list" where
  "machines_in x = concat (map (\<lambda>y. map (attr_of ''machine'') (elements ''type'' y)) (elements ''os'' x))"

lemma as_read_machines: "machines_in (as_read x) = machines_in x"
  by (simp add: machines_in_def comp_def)

lemma os_section_machine:
  "concat (map (\<lambda>y. map (attr_of ''machine'') (elements ''type'' y)) (filter (\<lambda>k. xml_tag k = Some ''os'') (os_section arch machine uefi secure))) =
     [Some (case machine of I440FX \<Rightarrow> ''pc'' | Q35 \<Rightarrow> ''q35'' | Virt \<Rightarrow> ''virt'')]"
  by (cases uefi) (simp_all add: os_section_def elements_def attr_of_def Let_def)

lemma not_os_section:
  "k \<in> set (name_section env output_name @ genid_section source @ metadata_section osinfo @ memory_section source @ cpu_section source @ features_section fs) \<Longrightarrow>
   xml_tag k \<noteq> Some ''os''"
proof -
  assume "k \<in> set (name_section env output_name @ genid_section source @ metadata_section osinfo @ memory_section source @ cpu_section source @ features_section fs)"
  then have "xml_tag k \<in> {None, Some ''name'', Some ''genid'', Some ''metadata'', Some ''memory'', Some ''currentMemory'', Some ''vcpu'', Some ''cpu'', Some ''features''}"
    using tags_of_sections(1-6) by (fastforce simp only: set_append Un_iff insert_iff)
  then show ?thesis by auto
qed

lemma domain_machine:
  "machines_in (domain_xml env de source inspect meta target_features output_name uefi) =
     [Some (written_machine (gcaps_machine (tm_guestcaps meta)) uefi)]"
proof -
  obtain machine secure where m: "machine_of (gcaps_machine (tm_guestcaps meta)) uefi = (machine, secure)"
    by (cases "machine_of (gcaps_machine (tm_guestcaps meta)) uefi")
  let ?pre = "name_section env output_name @ genid_section source @ metadata_section (fst (get_osinfo_id env inspect)) @ memory_section source @
    cpu_section source @ features_section (features_of (s_features source) target_features (gcaps_acpi (tm_guestcaps meta)) secure)"
  have "filter (\<lambda>k. xml_tag k = Some ''os'') ?pre = []" using not_os_section by (intro filter_no_tag) blast
  then have "elements ''os'' (domain_xml env de source inspect meta target_features output_name uefi) =
      filter (\<lambda>k. xml_tag k = Some ''os'') (os_section (gcaps_arch (tm_guestcaps meta)) machine uefi secure)"
    unfolding domain_xml_def m Let_def prod.case elements_def xml_children.simps by (simp add: devices_xml_def)
  then show ?thesis unfolding machines_in_def machine_of_written [symmetric] using os_section_machine m by simp
qed

subsection \<open>Properties\<close>


text \<open>C38: the names of the disks. When \<open>drive_name\<close> gives different names, the names in the document are all different, unless
  the machine is Q35 and the same slot of the IDE bus, written as SATA with the prefix \<open>sd\<close>, and of the SCSI bus, which has the
  prefix \<open>sd\<close> too, is occupied.\<close>

theorem libvirt_disk_names_unique_iff:
  assumes "string_lib_ok lib"
    and "uefi_of fw file_exists (tm_target_firmware meta) (gcaps_arch (tm_guestcaps meta)) = Inr uefi"
    and "describable env source target_features output_name uefi" and "4 \<le> fuel" and "inj (drive_name env)"
  shows "\<exists>r ws st' s x. create_libvirt_xml env fw file_exists de source inspect meta target_features output_name st = Inr ((Doc r, ws), st') \<and>
    doc_to_string lib fuel st' (Doc r) = Some s \<and> read_doc s = Some x \<and>
    (distinct (concat (map (\<lambda>d. dd_dev (disk_of d)) (devices_in ''disk'' x))) \<longleftrightarrow>
     \<not> (gcaps_machine (tm_guestcaps meta) = Q35 \<and>
        (\<exists>i. i < length (target_ide_bus (tm_target_buses meta)) \<and> i < length (target_scsi_bus (tm_target_buses meta)) \<and>
           target_ide_bus (tm_target_buses meta) ! i \<noteq> BusSlotEmpty \<and> target_scsi_bus (tm_target_buses meta) ! i \<noteq> BusSlotEmpty)))"
proof -
  let ?x = "domain_xml env de source inspect meta target_features output_name uefi"
  have "map (\<lambda>d. dd_dev (disk_of d)) (devices_in ''disk'' (as_read ?x)) =
      map dd_dev (written_disks env de (written_buses (gcaps_machine (tm_guestcaps meta)) (tm_target_buses meta)))"
    using arg_cong [OF devices_disks, of "map dd_dev"] by (simp add: as_read_finds devices_in_domain comp_def)
  then have "distinct (concat (map (\<lambda>d. dd_dev (disk_of d)) (devices_in ''disk'' (as_read ?x)))) \<longleftrightarrow>
     \<not> (gcaps_machine (tm_guestcaps meta) = Q35 \<and>
        (\<exists>i. i < length (target_ide_bus (tm_target_buses meta)) \<and> i < length (target_scsi_bus (tm_target_buses meta)) \<and>
           target_ide_bus (tm_target_buses meta) ! i \<noteq> BusSlotEmpty \<and> target_scsi_bus (tm_target_buses meta) ! i \<noteq> BusSlotEmpty))"
    by (simp only: disk_names_distinct [OF assms(5)])
  with create_libvirt_xml_read [OF assms(1-4)] show ?thesis by blast
qed

text \<open>C22: from the source to the XML, for a guest that is \<open>describable\<close>, with firmware found when it is needed, and slot numbers that fit in
  an array. When a removable device of the source had a negative slot, the assignment of buses raises \<open>Invalid_argument\<close>. Otherwise the
  devices are assigned to buses, the buses are written, and every device of the source is in the document exactly once, the disks with
  the file or volume of their number, the removable devices with their kind; except that on the machine \<open>virt\<close> the devices of the IDE bus
  are missing, which is reported exactly when there are some.\<close>

theorem source_devices_written:
  assumes "string_lib_ok lib"
    and "uefi_of fw file_exists (tm_target_firmware meta) (gcaps_arch (tm_guestcaps meta)) = Inr uefi"
    and "describable env source target_features output_name uefi" and "4 \<le> fuel"
    and "\<And>r. r \<in> set (s_removables source) \<Longrightarrow> desired r \<le> int M"
    and "int (M + length (s_disks source) + length (s_removables source)) < max_array_length"
  shows "if \<exists>r \<in> set (s_removables source). desired r < 0
    then target_bus_assignment (s_disks source) (s_removables source) (tm_guestcaps meta) = Inl (OInvalid_argument ''index out of bounds'')
    else \<exists>b clashes r ws st' s x. target_bus_assignment (s_disks source) (s_removables source) (tm_guestcaps meta) = Inr (b, clashes) \<and>
      create_libvirt_xml env fw file_exists de source inspect (meta\<lparr>tm_target_buses := b\<rparr>) target_features output_name st = Inr ((Doc r, ws), st') \<and>
      doc_to_string lib fuel st' (Doc r) = Some s \<and> read_doc s = Some x \<and>
      mset (map (\<lambda>d. kind_of_disk (disk_of d)) (devices_in ''disk'' x)) =
        mset (map (\<lambda>d. kind_of_slot de (snd d)) (filter (kept (gcaps_machine (tm_guestcaps meta))) (source_devices (tm_guestcaps meta) source))) \<and>
      (legacy_dropped \<in> set ws \<longleftrightarrow>
         filter (\<lambda>d. \<not> kept (gcaps_machine (tm_guestcaps meta)) d) (source_devices (tm_guestcaps meta) source) \<noteq> [])"
proof (cases "\<exists>r \<in> set (s_removables source). desired r < 0")
  case True
  then show ?thesis using target_bus_assignment_ok [OF assms(5,6), of "tm_guestcaps meta"] by (simp only: if_True)
next
  case False
  let ?caps = "tm_guestcaps meta" and ?machine = "gcaps_machine (tm_guestcaps meta)"
  let ?devs = "map (\<lambda>d. (disk_home ?caps, BusSlotDisk d)) (s_disks source) @ map device (removable_order (s_removables source))"
  obtain b clashes N where b: "target_bus_assignment (s_disks source) (s_removables source) ?caps = Inr (b, clashes)" "assigned ?devs N b"
    using target_bus_assignment_ok [OF assms(5,6), of ?caps] False by (simp only: if_False) blast
  let ?meta = "meta\<lparr>tm_target_buses := b\<rparr>"
  let ?x = "domain_xml env de source inspect ?meta target_features output_name uefi"
  have "map (\<lambda>d. kind_of_disk (disk_of d)) (devices_in ''disk'' (as_read ?x)) = map kind_of_disk (written_disks env de (written_buses ?machine b))"
    using arg_cong [OF devices_disks [of env de source ?meta], of "map kind_of_disk"] by (simp add: as_read_finds devices_in_domain comp_def)
  then have "mset (map (\<lambda>d. kind_of_disk (disk_of d)) (devices_in ''disk'' (as_read ?x))) =
      image_mset (\<lambda>d. kind_of_slot de (snd d)) (filter_mset (kept ?machine) (mset ?devs))"
    using occupied_kept [OF b(2), of env de ?machine] by (simp only: mset_map mset_filter)
  then have kinds: "mset (map (\<lambda>d. kind_of_disk (disk_of d)) (devices_in ''disk'' (as_read ?x))) =
      mset (map (\<lambda>d. kind_of_slot de (snd d)) (filter (kept ?machine) (source_devices ?caps source)))"
    unfolding source_devices_order by (simp only: mset_map mset_filter)
  have devs: "set ?devs = set (source_devices ?caps source)" using source_devices_order by (metis set_mset_mset)
  have "?machine = Virt \<and> target_ide_bus b \<noteq> [] \<longleftrightarrow> filter (\<lambda>d. \<not> kept ?machine d) (source_devices ?caps source) \<noteq> []"
    unfolding assigned_ide [OF b(2)] devs by (auto simp: kept_def filter_empty_conv)
  then have warned: "legacy_dropped \<in> set (snd (get_osinfo_id env inspect) @ ide_warning ?machine b) \<longleftrightarrow>
      filter (\<lambda>d. \<not> kept ?machine d) (source_devices ?caps source) \<noteq> []"
    by (simp only: legacy_dropped_warned)
  have "uefi_of fw file_exists (tm_target_firmware ?meta) (gcaps_arch (tm_guestcaps ?meta)) = Inr uefi" using assms(2) by simp
  from create_libvirt_xml_read [OF assms(1) this assms(3,4), of de inspect st] obtain r st' s where
    "create_libvirt_xml env fw file_exists de source inspect ?meta target_features output_name st =
      Inr ((Doc r, snd (get_osinfo_id env inspect) @ ide_warning ?machine b), st')"
    "doc_to_string lib fuel st' (Doc r) = Some s" "read_doc s = Some (as_read ?x)" by auto
  with b(1) kinds warned False show ?thesis by (simp only: if_False) blast
qed

text \<open>With firmware that requires secure boot the machine of a guest for i440FX is written as Q35, but its IDE disks keep the
  bus \<open>ide\<close>, which a Q35 machine does not have.\<close>

theorem secure_boot_keeps_ide:
  assumes "string_lib_ok lib"
    and "uefi_of fw file_exists (tm_target_firmware meta) (gcaps_arch (tm_guestcaps meta)) = Inr (Some f)"
    and "describable env source target_features output_name (Some f)" and "4 \<le> fuel"
    and "UEFI_FLAG_SECURE_BOOT_REQUIRED \<in> set (flags f)" and "gcaps_machine (tm_guestcaps meta) = I440FX"
    and "BusSlotDisk d \<in> set (target_ide_bus (tm_target_buses meta))"
  shows "\<exists>r ws st' s x. create_libvirt_xml env fw file_exists de source inspect meta target_features output_name st = Inr ((Doc r, ws), st') \<and>
    doc_to_string lib fuel st' (Doc r) = Some s \<and> read_doc s = Some x \<and> machines_in x = [Some ''q35''] \<and>
    [Some ''ide''] \<in> set (map (\<lambda>d. dd_bus (disk_of d)) (devices_in ''disk'' x))"
proof -
  let ?x = "domain_xml env de source inspect meta target_features output_name (Some f)"
  obtain i where i: "i < length (target_ide_bus (tm_target_buses meta))" "target_ide_bus (tm_target_buses meta) ! i = BusSlotDisk d"
    using assms(7) by (auto simp: in_set_conv_nth)
  then have "[Some ''ide''] \<in> dd_bus ` set (concat (mapi (slot_disk env de ''ide'' ''hd'') (target_ide_bus (tm_target_buses meta))))"
    by (force simp: mapi_nth slot_disk_def Let_def image_iff)
  then have "[Some ''ide''] \<in> dd_bus ` set (written_disks env de (written_buses I440FX (tm_target_buses meta)))"
    by (auto simp: written_disks_def)
  then have "[Some ''ide''] \<in> set (map dd_bus (map disk_of (elements ''disk'' (devices_xml env de source meta))))"
    by (simp only: devices_disks assms(6) set_map)
  then have "[Some ''ide''] \<in> set (map (\<lambda>d. dd_bus (disk_of d)) (devices_in ''disk'' (as_read ?x)))"
    by (simp add: as_read_finds devices_in_domain image_image)
  moreover have "machines_in (as_read ?x) = [Some ''q35'']" using assms(5,6) by (simp add: as_read_machines domain_machine written_machine_def secure_boot_def)
  ultimately show ?thesis using create_libvirt_xml_read [OF assms(1-4)] by blast
qed


text \<open>A guest with a disk and two CD-ROM drives.\<close>

definition demo_env :: xml_env where
  "demo_env = \<lparr>generated_by = ''virt-v2v'', str_find = (\<lambda>s t. - 1), drive_name = (\<lambda>i. replicate (Suc i) (CHR ''a''))\<rparr>"

definition demo_out :: disk_env where
  "demo_out = \<lparr>pool = None, outdisk_name = (\<lambda>i. ''out'' @ string_of_int i), output_format = ''qcow2''\<rparr>"

definition demo_source :: source where
  "demo_source = \<lparr>s_hypervisor = VMware, s_name = ''g'', s_genid = None, s_memory = 1048576, s_vcpu = 2, s_cpu_vendor = None,
     s_cpu_model = None, s_cpu_topology = None, s_features = [''acpi'', ''hap''], s_firmware = BIOS, s_display = None, s_sound = None,
     s_disks = demo_disks, s_removables = [demo_cdrom None], s_nics = []\<rparr>"

definition demo_inspect :: "unit inspect" where
  "demo_inspect = \<lparr>i_root = '''', i_type = ''linux'', i_distro = ''fedora'', i_osinfo = '''', i_arch = ''x86_64'', i_major_version = 38,
     i_minor_version = 0, i_package_format = '''', i_package_management = '''', i_product_name = '''', i_product_variant = '''',
     i_mountpoints = [], i_apps = [], i_apps_map = [], i_firmware = I_BIOS, i_windows_systemroot = '''', i_windows_software_hive = '''',
     i_windows_system_hive = '''', i_windows_current_control_set = ''''\<rparr>"

definition demo_meta :: "guestcaps_machine \<Rightarrow> target_firmware \<Rightarrow> target_meta" where
  "demo_meta machine firmware = \<lparr>tm_guestcaps = demo_caps\<lparr>gcaps_machine := machine, gcaps_arch := ''x86_64''\<rparr>,
     tm_target_buses = \<lparr>target_virtio_blk_bus = [], target_ide_bus = [BusSlotDisk \<lparr>s_disk_id = 0, s_controller = None\<rparr>],
       target_scsi_bus = [BusSlotRemovable (demo_cdrom None)], target_floppy_bus = []\<rparr>,
     tm_target_firmware = firmware,
     tm_target_nics = [\<lparr>s_mac = Some ''52:54:00:01:02:03'', s_nic_model = None, s_vnet = ''default'', s_vnet_type = Network\<rparr>]\<rparr>"

definition demo_firmware :: uefi_firmware where
  "demo_firmware = \<lparr>code = ''OVMF'', vars = ''VARS'', flags = [UEFI_FLAG_SECURE_BOOT_REQUIRED]\<rparr>"

definition demo_fw :: uefi_lists where
  "demo_fw = \<lparr>uefi_x86_64_firmware = [demo_firmware], uefi_aarch64_firmware = []\<rparr>"

lemma demo_describable:
  "describable demo_env demo_source [''acpi'', ''apic''] ''g'' None"
  "describable demo_env demo_source [''acpi'', ''apic''] ''g'' (Some demo_firmware)"
proof -
  have "name_ok ''acpi''" "name_ok ''apic''" by code_simp+
  then show "describable demo_env demo_source [''acpi'', ''apic''] ''g'' None"
    "describable demo_env demo_source [''acpi'', ''apic''] ''g'' (Some demo_firmware)"
    by (simp_all add: describable_def demo_env_def demo_source_def demo_firmware_def blank_def is_space_def)
qed

lemma demo_uefi:
  "uefi_of demo_fw (\<lambda>_. True) (tm_target_firmware (demo_meta machine TargetBIOS)) (gcaps_arch (tm_guestcaps (demo_meta machine TargetBIOS))) = Inr None"
  "uefi_of demo_fw (\<lambda>_. True) (tm_target_firmware (demo_meta machine TargetUEFI)) (gcaps_arch (tm_guestcaps (demo_meta machine TargetUEFI))) = Inr (Some demo_firmware)"
  by (simp_all add: uefi_of_def demo_meta_def find_uefi_firmware_def demo_fw_def)

lemma demo_inj: "inj (drive_name demo_env)"
  by (simp add: demo_env_def inj_on_def)


theorem libvirt_disk_names_unique_iff_witness:
  "\<exists>r ws st' s x. create_libvirt_xml demo_env demo_fw (\<lambda>_. True) demo_out demo_source demo_inspect (demo_meta Q35 TargetBIOS)
       [''acpi'', ''apic''] ''g'' [] = Inr ((Doc r, ws), st') \<and>
     doc_to_string demo_lib 4 st' (Doc r) = Some s \<and> read_doc s = Some x \<and>
     \<not> distinct (concat (map (\<lambda>d. dd_dev (disk_of d)) (devices_in ''disk'' x)))"
proof -
  have "gcaps_machine (tm_guestcaps (demo_meta Q35 TargetBIOS)) = Q35 \<and>
      (\<exists>i. i < length (target_ide_bus (tm_target_buses (demo_meta Q35 TargetBIOS))) \<and>
         i < length (target_scsi_bus (tm_target_buses (demo_meta Q35 TargetBIOS))) \<and>
         target_ide_bus (tm_target_buses (demo_meta Q35 TargetBIOS)) ! i \<noteq> BusSlotEmpty \<and>
         target_scsi_bus (tm_target_buses (demo_meta Q35 TargetBIOS)) ! i \<noteq> BusSlotEmpty)"
    by (intro conjI exI [of _ 0]) (simp_all add: demo_meta_def)
  note clash = this
  from libvirt_disk_names_unique_iff [OF demo_lib_ok demo_uefi(1) [of Q35] demo_describable(1) order_refl demo_inj,
      where de = demo_out and inspect = demo_inspect and st = "[]"]
  obtain r ws st' s x where x: "create_libvirt_xml demo_env demo_fw (\<lambda>_. True) demo_out demo_source demo_inspect (demo_meta Q35 TargetBIOS)
       [''acpi'', ''apic''] ''g'' [] = Inr ((Doc r, ws), st')" "doc_to_string demo_lib 4 st' (Doc r) = Some s" "read_doc s = Some x"
    and d: "distinct (concat (map (\<lambda>d. dd_dev (disk_of d)) (devices_in ''disk'' x))) \<longleftrightarrow>
     \<not> (gcaps_machine (tm_guestcaps (demo_meta Q35 TargetBIOS)) = Q35 \<and>
      (\<exists>i. i < length (target_ide_bus (tm_target_buses (demo_meta Q35 TargetBIOS))) \<and>
         i < length (target_scsi_bus (tm_target_buses (demo_meta Q35 TargetBIOS))) \<and>
         target_ide_bus (tm_target_buses (demo_meta Q35 TargetBIOS)) ! i \<noteq> BusSlotEmpty \<and>
         target_scsi_bus (tm_target_buses (demo_meta Q35 TargetBIOS)) ! i \<noteq> BusSlotEmpty))" by (elim exE conjE)
  have "\<not> distinct (concat (map (\<lambda>d. dd_dev (disk_of d)) (devices_in ''disk'' x)))" by (simp only: d clash simp_thms)
  with x show ?thesis by (intro exI conjI)
qed

theorem source_devices_written_witness:
  "\<exists>b clashes r ws st' s x. target_bus_assignment (s_disks demo_source) (s_removables demo_source) (tm_guestcaps (demo_meta Virt TargetBIOS)) = Inr (b, clashes) \<and>
     create_libvirt_xml demo_env demo_fw (\<lambda>_. True) demo_out demo_source demo_inspect ((demo_meta Virt TargetBIOS)\<lparr>tm_target_buses := b\<rparr>)
       [''acpi'', ''apic''] ''g'' [] = Inr ((Doc r, ws), st') \<and>
     doc_to_string demo_lib 4 st' (Doc r) = Some s \<and> read_doc s = Some x \<and> devices_in ''disk'' x = [] \<and> legacy_dropped \<in> set ws"
proof -
  have d: "\<And>r. r \<in> set (s_removables demo_source) \<Longrightarrow> desired r \<le> int 0"
    and m: "int (0 + length (s_disks demo_source) + length (s_removables demo_source)) < max_array_length"
    and n: "\<not> (\<exists>r \<in> set (s_removables demo_source). desired r < 0)"
    by (simp_all add: demo_source_def desired_def demo_cdrom_def demo_disks_def max_array_length_def)
  have k: "filter (kept (gcaps_machine (tm_guestcaps (demo_meta Virt TargetBIOS)))) (source_devices (tm_guestcaps (demo_meta Virt TargetBIOS)) demo_source) = []"
    "filter (\<lambda>d. \<not> kept (gcaps_machine (tm_guestcaps (demo_meta Virt TargetBIOS))) d) (source_devices (tm_guestcaps (demo_meta Virt TargetBIOS)) demo_source) \<noteq> []"
    by (simp_all add: source_devices_def kept_def demo_meta_def demo_source_def demo_disks_def demo_caps_def disk_home_def demo_cdrom_def home_bus_def)
  from source_devices_written [OF demo_lib_ok demo_uefi(1) [of Virt] demo_describable(1) order_refl d m, where de = demo_out and inspect = demo_inspect and st = "[]"]
  show ?thesis unfolding k(1) using n k(2) by (simp only: if_False list.map mset.simps mset_zero_iff map_is_Nil_conv simp_thms)
qed

theorem secure_boot_keeps_ide_witness:
  "\<exists>r ws st' s x. create_libvirt_xml demo_env demo_fw (\<lambda>_. True) demo_out demo_source demo_inspect (demo_meta I440FX TargetUEFI)
       [''acpi'', ''apic''] ''g'' [] = Inr ((Doc r, ws), st') \<and>
     doc_to_string demo_lib 4 st' (Doc r) = Some s \<and> read_doc s = Some x \<and> machines_in x = [Some ''q35''] \<and>
     [Some ''ide''] \<in> set (map (\<lambda>d. dd_bus (disk_of d)) (devices_in ''disk'' x))"
  by (rule secure_boot_keeps_ide [OF demo_lib_ok demo_uefi(2) demo_describable(2) order_refl, where d = "\<lparr>s_disk_id = 0, s_controller = None\<rparr>"])
     (simp_all add: demo_firmware_def demo_meta_def)


end
